(* ===== verification/Prelude.thy ===== *)
theory Prelude
  imports Main "HOL-Library.AList" "HOL-Library.Word"
begin

section \<open>Shared vocabulary of the development\<close>

text \<open>
  This theory holds what every component shares: the widths of Rust's machine integers, the
  crate's error type (\<^verbatim>\<open>src/src/error.rs\<close>) and the result of a call, the operations of the standard
  collections the sources use (\<^verbatim>\<open>HashMap\<close>, \<^verbatim>\<open>Vec\<close>), decimal printing and parsing of unsigned
  integers, and the generic lemmas about them.

  Conventions used throughout:
  \<^item> Integer arithmetic is that of the release profile: \<open>+\<close>, \<open>-\<close> and \<open>*\<close> wrap around, so unsigned
    fields are words. Lengths and indices of in-memory vectors are \<open>nat\<close>.
  \<^item> A \<^verbatim>\<open>HashMap\<close> is an association list. Its list order stands for the iteration order, which
    Rust leaves unspecified; \<open>hm_wf\<close> says that no key occurs twice.
  \<^item> Text is ASCII, one \<open>char\<close> for each byte.
\<close>

subsection \<open>Collections of facts\<close>

named_theorems hm_simps \<open>reading a map after a write\<close>
named_theorems u64_simps \<open>the successor of a 64-bit counter that has not reached its end\<close>

subsection \<open>Machine integers\<close>

type_synonym u8 = "8 word"
type_synonym u32 = "32 word"
type_synonym u64 = "64 word"
type_synonym usize = "64 word"
type_synonym i64 = "64 word"
type_synonym f64 = "64 word"
type_synonym bytes = "u8 list"
type_synonym PageId = u64
type_synonym TransactionId = u64

lemma u64_succ_unat [u64_simps]: "(x::u64) \<noteq> -1 \<Longrightarrow> unat (x + 1) = Suc (unat x)"
  by (metis Suc_eq_plus1 add.commute unatSuc add_eq_0_iff)

lemma u64_less_succ [u64_simps]: "(x::u64) \<noteq> -1 \<Longrightarrow> x < x + 1"
  by (simp add: word_less_nat_alt u64_succ_unat)

lemma u64_le_succ [u64_simps]: "(x::u64) \<noteq> -1 \<Longrightarrow> x \<le> x + 1"
  by (rule less_imp_le) (rule u64_less_succ)

lemma u64_less_succ_iff [u64_simps]: "(x::u64) \<noteq> -1 \<Longrightarrow> y < x + 1 \<longleftrightarrow> y \<le> x"
  by (simp add: word_less_nat_alt word_le_nat_alt u64_succ_unat less_Suc_eq_le)

lemma u64_succ_nonzero [u64_simps]: "(x::u64) \<noteq> -1 \<Longrightarrow> x + 1 \<noteq> 0"
  by (simp add: eq_neg_iff_add_eq_0)

lemma u64_below_succ: "(x::u64) \<noteq> -1 \<Longrightarrow> y < x \<Longrightarrow> y < x + 1"
  by (simp add: u64_less_succ_iff)

subsection \<open>Errors and results\<close>

text \<open>
  The variants of \<^verbatim>\<open>RustgreSQLError\<close>. A message is kept as its fixed text; the values that
  \<^verbatim>\<open>format!\<close> interpolates into it are left out, except for the page of \<^verbatim>\<open>PageNotFound\<close>.
\<close>

datatype db_error =
    IoError string
  | SerializationError string
  | PageNotFound PageId
  | TransactionError string
  | ParseError string
  | ExecutionError string
  | TypeError string
  | StorageError string
  | IndexError string
  | InvalidConfigError string
  | CorruptionError string
  | NotImplementedError string
  | InternalError string
  | NotFoundError string
  | AlreadyExistsError string
  | InvalidOperationError string
  | DdlErr string
  | TableError string
  | ColumnError string
  | ConstraintError string
  | SchemaError string
  | DependencyError string
  | DdlTransactionError string
  | ValidationError string
  | DependentObjectsError string
  | ProcedureError string

text \<open>
  What a call does: it returns \<^verbatim>\<open>Ok\<close> or \<^verbatim>\<open>Err\<close>, or it panics, or it never returns because it
  locks a mutex its own thread already holds.
\<close>

datatype 'a res = Ok 'a | Err db_error | Panic string | Deadlock

fun res_bind :: "'a res \<Rightarrow> ('a \<Rightarrow> 'b res) \<Rightarrow> 'b res" where
  "res_bind (Ok x) f = f x"
| "res_bind (Err e) f = Err e"
| "res_bind (Panic m) f = Panic m"
| "res_bind Deadlock f = Deadlock"

fun is_ok :: "'a res \<Rightarrow> bool" where
  "is_ok (Ok _) = True"
| "is_ok _ = False"

text \<open>A call returns when it ends with a value or an error.\<close>

definition returns :: "'a res \<Rightarrow> bool" where
  "returns r = (case r of Ok _ \<Rightarrow> True | Err _ \<Rightarrow> True | _ \<Rightarrow> False)"

text \<open>The outcome of a call to the operating system: done, or failed; a write that fails may have
  written some bytes first.\<close>

datatype io_outcome = IoDone | IoFail nat

text \<open>A call that stops early hands its failure on at another result type.\<close>

fun res_cast :: "'a res \<Rightarrow> 'b res" where
  "res_cast (Ok _) = Panic ''unreachable''"
| "res_cast (Err e) = Err e"
| "res_cast (Panic m) = Panic m"
| "res_cast Deadlock = Deadlock"

lemma returns_simps [simp]:
  "returns (Ok x)" "returns (Err e)" "\<not> returns (Panic m)" "\<not> returns Deadlock"
  by (auto simp: returns_def)

lemma returns_bind: "returns r \<Longrightarrow> (\<And>x. r = Ok x \<Longrightarrow> returns (f x)) \<Longrightarrow> returns (res_bind r f)"
  by (cases r) auto

lemma res_bind_Ok_iff: "res_bind r f = Ok y \<longleftrightarrow> (\<exists>x. r = Ok x \<and> f x = Ok y)"
  by (cases r) auto

lemma is_ok_iff: "is_ok r \<longleftrightarrow> (\<exists>x. r = Ok x)"
  by (cases r) auto

text \<open>
  Code that changes a state and may fail is a function \<open>'s \<Rightarrow> 'a res \<times> 's\<close>: a failure keeps the
  changes made before it, as it does in the sources. \<open>st_bind\<close> is the operator \<^verbatim>\<open>?\<close>, \<open>st_try\<close> a
  \<^verbatim>\<open>match\<close> on the result; neither catches a panic.
\<close>

type_synonym ('s, 'a) op = "'s \<Rightarrow> 'a res \<times> 's"

definition st_return :: "'a \<Rightarrow> ('s, 'a) op" where
  "st_return x s = (Ok x, s)"

definition st_fail :: "db_error \<Rightarrow> ('s, 'a) op" where
  "st_fail e s = (Err e, s)"

definition st_update :: "('s \<Rightarrow> 's) \<Rightarrow> ('s, unit) op" where
  "st_update f s = (Ok (), f s)"

definition st_try ::
    "('s, 'a) op \<Rightarrow> ('a \<Rightarrow> ('s, 'b) op) \<Rightarrow> (db_error \<Rightarrow> ('s, 'b) op) \<Rightarrow> ('s, 'b) op" where
  "st_try m f g s = (case m s of (Ok x, s1) \<Rightarrow> f x s1 | (Err e, s1) \<Rightarrow> g e s1
     | (Panic t, s1) \<Rightarrow> (Panic t, s1) | (Deadlock, s1) \<Rightarrow> (Deadlock, s1))"

definition st_bind :: "('s, 'a) op \<Rightarrow> ('a \<Rightarrow> ('s, 'b) op) \<Rightarrow> ('s, 'b) op" where
  "st_bind m f = st_try m f st_fail"

lemma st_bind_simps [simp]:
  "m s = (Ok x, s1) \<Longrightarrow> st_bind m f s = f x s1"
  "m s = (Err e, s1) \<Longrightarrow> st_bind m f s = (Err e, s1)"
  "m s = (Panic t, s1) \<Longrightarrow> st_bind m f s = (Panic t, s1)"
  "m s = (Deadlock, s1) \<Longrightarrow> st_bind m f s = (Deadlock, s1)"
  by (simp_all add: st_bind_def st_try_def st_fail_def)

lemma st_try_simps [simp]:
  "m s = (Ok x, s1) \<Longrightarrow> st_try m f g s = f x s1"
  "m s = (Err e, s1) \<Longrightarrow> st_try m f g s = g e s1"
  "m s = (Panic t, s1) \<Longrightarrow> st_try m f g s = (Panic t, s1)"
  "m s = (Deadlock, s1) \<Longrightarrow> st_try m f g s = (Deadlock, s1)"
  by (simp_all add: st_try_def)

lemma st_base_simps [simp]:
  "st_return x s = (Ok x, s)" "st_fail e s = (Err e, s)" "st_update u s = (Ok (), u s)"
  by (simp_all add: st_return_def st_fail_def st_update_def)

lemma st_bind_Ok_iff:
  "st_bind m f s = (Ok y, s') \<longleftrightarrow> (\<exists>x s1. m s = (Ok x, s1) \<and> f x s1 = (Ok y, s'))"
  by (auto simp: st_bind_def st_try_def split: prod.splits res.splits)

lemma st_bind_cases:
  assumes "st_bind m f s = (r, s')"
  obtains (ok) x s1 where "m s = (Ok x, s1)" "f x s1 = (r, s')"
  | (err) e where "m s = (Err e, s')" "r = Err e"
  | (panic) t where "m s = (Panic t, s')" "r = Panic t"
  | (deadlock) "m s = (Deadlock, s')" "r = Deadlock"
  using assms by (cases "m s" rule: prod.exhaust; cases "fst (m s)") (auto simp: st_bind_def st_try_def)

lemma st_try_cases:
  assumes "st_try m f g s = (r, s')"
  obtains (ok) x s1 where "m s = (Ok x, s1)" "f x s1 = (r, s')"
  | (err) e s1 where "m s = (Err e, s1)" "g e s1 = (r, s')"
  | (panic) t where "m s = (Panic t, s')" "r = Panic t"
  | (deadlock) "m s = (Deadlock, s')" "r = Deadlock"
  using assms by (cases "m s" rule: prod.exhaust; cases "fst (m s)") (auto simp: st_try_def)

subsection \<open>HashMap\<close>

type_synonym ('k, 'v) hmap = "('k \<times> 'v) list"

abbreviation hm_get :: "('k, 'v) hmap \<Rightarrow> 'k \<Rightarrow> 'v option" where
  "hm_get m k \<equiv> map_of m k"

abbreviation hm_insert :: "'k \<Rightarrow> 'v \<Rightarrow> ('k, 'v) hmap \<Rightarrow> ('k, 'v) hmap" where
  "hm_insert k v m \<equiv> AList.update k v m"

abbreviation hm_remove :: "'k \<Rightarrow> ('k, 'v) hmap \<Rightarrow> ('k, 'v) hmap" where
  "hm_remove k m \<equiv> AList.delete k m"

definition hm_contains :: "('k, 'v) hmap \<Rightarrow> 'k \<Rightarrow> bool" where
  "hm_contains m k = (hm_get m k \<noteq> None)"

definition hm_modify :: "'k \<Rightarrow> ('v \<Rightarrow> 'v) \<Rightarrow> ('k, 'v) hmap \<Rightarrow> ('k, 'v) hmap" where
  "hm_modify k f m = map (\<lambda>(k', v). (k', if k' = k then f v else v)) m"

definition hm_map_values :: "('v \<Rightarrow> 'w) \<Rightarrow> ('k, 'v) hmap \<Rightarrow> ('k, 'w) hmap" where
  "hm_map_values f m = map (\<lambda>(k, v). (k, f v)) m"

definition hm_retain :: "('k \<Rightarrow> 'v \<Rightarrow> bool) \<Rightarrow> ('k, 'v) hmap \<Rightarrow> ('k, 'v) hmap" where
  "hm_retain P m = filter (\<lambda>(k, v). P k v) m"

definition hm_keys :: "('k, 'v) hmap \<Rightarrow> 'k list" where
  "hm_keys m = map fst m"

definition hm_values :: "('k, 'v) hmap \<Rightarrow> 'v list" where
  "hm_values m = map snd m"

definition hm_wf :: "('k, 'v) hmap \<Rightarrow> bool" where
  "hm_wf m = distinct (map fst m)"

lemma hm_get_insert [hm_simps, simp]:
  "hm_get (hm_insert k v m) k' = (if k' = k then Some v else hm_get m k')"
  by (simp add: update_conv')

lemma hm_get_remove [hm_simps, simp]:
  "hm_get (hm_remove k m) k' = (if k' = k then None else hm_get m k')"
  by (simp add: delete_conv')

lemma hm_contains_iff [simp]: "hm_contains m k \<longleftrightarrow> k \<in> fst ` set m"
  by (simp add: hm_contains_def map_of_eq_None_iff)

lemma hm_contains_get: "hm_contains m k \<longleftrightarrow> hm_get m k \<noteq> None"
  unfolding hm_contains_def ..

lemma hm_get_modify [hm_simps, simp]:
  "hm_get (hm_modify k f m) k' = (if k' = k then map_option f (hm_get m k) else hm_get m k')"
  by (induction m) (auto simp: hm_modify_def)

lemma hm_get_map_values [hm_simps, simp]:
  "hm_get (hm_map_values f m) k = map_option f (hm_get m k)"
  by (induction m) (auto simp: hm_map_values_def)

lemma hm_get_retain:
  assumes "hm_wf m"
  shows "hm_get (hm_retain P m) k =
    (case hm_get m k of None \<Rightarrow> None | Some v \<Rightarrow> if P k v then Some v else None)"
  using assms unfolding hm_wf_def hm_retain_def
  by (induction m) (auto split: option.splits intro: rev_image_eqI simp: map_of_eq_None_iff)

lemma keys_modify [simp]: "map fst (hm_modify k f m) = map fst m"
  by (induction m) (auto simp: hm_modify_def)

lemma keys_map_values [simp]: "map fst (hm_map_values f m) = map fst m"
  by (induction m) (auto simp: hm_map_values_def)

lemma length_modify [simp]: "length (hm_modify k f m) = length m"
  by (simp add: hm_modify_def)

lemma length_map_values [simp]: "length (hm_map_values f m) = length m"
  by (simp add: hm_map_values_def)

lemma hm_wf_Nil [simp, intro]: "hm_wf []"
  by (simp add: hm_wf_def)

lemma hm_wf_insert [simp, intro]: "hm_wf m \<Longrightarrow> hm_wf (hm_insert k v m)"
  by (simp add: hm_wf_def distinct_update)

lemma hm_wf_remove [simp, intro]: "hm_wf m \<Longrightarrow> hm_wf (hm_remove k m)"
  by (simp add: hm_wf_def distinct_delete)

lemma hm_wf_modify [simp, intro]: "hm_wf m \<Longrightarrow> hm_wf (hm_modify k f m)"
  by (simp add: hm_wf_def)

lemma hm_wf_map_values [simp, intro]: "hm_wf m \<Longrightarrow> hm_wf (hm_map_values f m)"
  by (simp add: hm_wf_def)

lemma hm_wf_retain [simp, intro]: "hm_wf m \<Longrightarrow> hm_wf (hm_retain P m)"
  by (simp add: hm_wf_def hm_retain_def distinct_map_filter)

lemma hm_get_set: "hm_get m k = Some v \<Longrightarrow> (k, v) \<in> set m"
  by (rule map_of_SomeD)

lemma hm_get_iff: "hm_wf m \<Longrightarrow> hm_get m k = Some v \<longleftrightarrow> (k, v) \<in> set m"
  by (simp add: hm_wf_def)

subsection \<open>Vec\<close>

text \<open>\<^verbatim>\<open>Vec::insert\<close> and \<^verbatim>\<open>Vec::remove\<close> at an index in range, and \<^verbatim>\<open>Vec::resize\<close>.\<close>

definition vec_insert :: "nat \<Rightarrow> 'a \<Rightarrow> 'a list \<Rightarrow> 'a list" where
  "vec_insert i x xs = take i xs @ x # drop i xs"

definition vec_remove :: "nat \<Rightarrow> 'a list \<Rightarrow> 'a list" where
  "vec_remove i xs = take i xs @ drop (Suc i) xs"

definition vec_resize :: "nat \<Rightarrow> 'a \<Rightarrow> 'a list \<Rightarrow> 'a list" where
  "vec_resize n x xs = take n xs @ replicate (n - length xs) x"

lemma length_vec_insert [simp]: "i \<le> length xs \<Longrightarrow> length (vec_insert i x xs) = Suc (length xs)"
  by (simp add: vec_insert_def)

lemma length_vec_remove [simp]: "i < length xs \<Longrightarrow> length (vec_remove i xs) = length xs - 1"
  by (simp add: vec_remove_def)

lemma length_vec_resize [simp]: "length (vec_resize n x xs) = n"
  by (simp add: vec_resize_def)

lemma vec_resize_id [simp]: "length xs = n \<Longrightarrow> vec_resize n x xs = xs"
  by (simp add: vec_resize_def)

lemma vec_remove_insert: "i \<le> length xs \<Longrightarrow> vec_remove i (vec_insert i x xs) = xs"
  by (simp add: vec_remove_def vec_insert_def)

lemma vec_insert_remove: "i < length xs \<Longrightarrow> vec_insert i (xs ! i) (vec_remove i xs) = xs"
  by (simp add: vec_remove_def vec_insert_def id_take_nth_drop [symmetric])

lemma set_vec_insert [simp]: "set (vec_insert i x xs) = insert x (set xs)"
  unfolding vec_insert_def
  by (metis Un_insert_right append_take_drop_id list.simps(15) set_append)

subsection \<open>Text\<close>

definition is_ascii_whitespace :: "char \<Rightarrow> bool" where
  "is_ascii_whitespace c = (let n = of_char c :: nat in n = 32 \<or> (9 \<le> n \<and> n \<le> 13))"

definition is_ascii_digit :: "char \<Rightarrow> bool" where
  "is_ascii_digit c = (let n = of_char c :: nat in 48 \<le> n \<and> n \<le> 57)"

definition is_ascii_upper :: "char \<Rightarrow> bool" where
  "is_ascii_upper c = (let n = of_char c :: nat in 65 \<le> n \<and> n \<le> 90)"

definition is_ascii_lower :: "char \<Rightarrow> bool" where
  "is_ascii_lower c = (let n = of_char c :: nat in 97 \<le> n \<and> n \<le> 122)"

definition to_lower :: "char \<Rightarrow> char" where
  "to_lower c = (if is_ascii_upper c then char_of ((of_char c :: nat) + 32) else c)"

definition to_upper :: "char \<Rightarrow> char" where
  "to_upper c = (if is_ascii_lower c then char_of ((of_char c :: nat) - 32) else c)"

definition to_lowercase :: "string \<Rightarrow> string" where
  "to_lowercase s = map to_lower s"

definition to_uppercase :: "string \<Rightarrow> string" where
  "to_uppercase s = map to_upper s"

definition trim :: "string \<Rightarrow> string" where
  "trim s = rev (dropWhile is_ascii_whitespace (rev (dropWhile is_ascii_whitespace s)))"

fun find_char :: "char \<Rightarrow> string \<Rightarrow> nat option" where
  "find_char c [] = None"
| "find_char c (x # xs) = (if x = c then Some 0 else map_option Suc (find_char c xs))"

fun split_on :: "char \<Rightarrow> string \<Rightarrow> string list" where
  "split_on c [] = [[]]"
| "split_on c (x # xs) =
     (if x = c then [] # split_on c xs
      else case split_on c xs of [] \<Rightarrow> [[x]] | p # ps \<Rightarrow> (x # p) # ps)"

definition starts_with :: "string \<Rightarrow> string \<Rightarrow> bool" where
  "starts_with p s = (take (length p) s = p)"

definition ends_with :: "string \<Rightarrow> string \<Rightarrow> bool" where
  "ends_with p s = (length p \<le> length s \<and> drop (length s - length p) s = p)"

text \<open>Decimal printing, and \<^verbatim>\<open>str::parse::<usize>\<close> with its overflow check at every digit.\<close>

fun show_nat :: "nat \<Rightarrow> string" where
  "show_nat n = (if n < 10 then [char_of (48 + n)]
                 else show_nat (n div 10) @ [char_of (48 + n mod 10)])"

declare show_nat.simps [simp del]

definition show_usize :: "usize \<Rightarrow> string" where
  "show_usize w = show_nat (unat w)"

text \<open>\<^verbatim>\<open>Display\<close> of an error.\<close>

fun error_text :: "db_error \<Rightarrow> string" where
  "error_text (IoError m) = ''I/O error: '' @ m"
| "error_text (SerializationError m) = ''Serialization error: '' @ m"
| "error_text (PageNotFound p) = ''Page not found: '' @ show_nat (unat p)"
| "error_text (TransactionError m) = ''Transaction error: '' @ m"
| "error_text (ParseError m) = ''Parse error: '' @ m"
| "error_text (ExecutionError m) = ''Execution error: '' @ m"
| "error_text (TypeError m) = ''Type error: '' @ m"
| "error_text (StorageError m) = ''Storage error: '' @ m"
| "error_text (IndexError m) = ''Index error: '' @ m"
| "error_text (InvalidConfigError m) = ''Invalid configuration: '' @ m"
| "error_text (CorruptionError m) = ''Database corruption detected: '' @ m"
| "error_text (NotImplementedError m) = ''Feature not implemented: '' @ m"
| "error_text (InternalError m) = ''Internal error: '' @ m"
| "error_text (NotFoundError m) = ''Not found: '' @ m"
| "error_text (AlreadyExistsError m) = ''Already exists: '' @ m"
| "error_text (InvalidOperationError m) = ''Invalid operation: '' @ m"
| "error_text (DdlErr m) = ''DDL error: '' @ m"
| "error_text (TableError m) = ''Table error: '' @ m"
| "error_text (ColumnError m) = ''Column error: '' @ m"
| "error_text (ConstraintError m) = ''Constraint error: '' @ m"
| "error_text (SchemaError m) = ''Schema error: '' @ m"
| "error_text (DependencyError m) = ''Dependency error: '' @ m"
| "error_text (DdlTransactionError m) = ''Transaction error in DDL: '' @ m"
| "error_text (ValidationError m) = ''Validation error: '' @ m"
| "error_text (DependentObjectsError m) = ''Dependent objects: '' @ m"
| "error_text (ProcedureError m) = ''Procedure error: '' @ m"

definition digit_value :: "char \<Rightarrow> nat" where
  "digit_value c = of_char c - 48"

fun parse_digits :: "nat \<Rightarrow> nat \<Rightarrow> string \<Rightarrow> nat option" where
  "parse_digits lim acc [] = Some acc"
| "parse_digits lim acc (c # cs) =
     (if is_ascii_digit c
      then (let acc' = acc * 10 + digit_value c
            in if acc' < lim then parse_digits lim acc' cs else None)
      else None)"

definition parse_usize :: "string \<Rightarrow> usize option" where
  "parse_usize s =
     (case s of
        [] \<Rightarrow> None
      | c # cs \<Rightarrow>
          if c = CHR ''+'' then
            (if cs = [] then None else map_option of_nat (parse_digits (2 ^ 64) 0 cs))
          else map_option of_nat (parse_digits (2 ^ 64) 0 s))"

lemma of_char_digit: "d < 10 \<Longrightarrow> (of_char (char_of (48 + d) :: char) :: nat) = 48 + d"
  by simp

lemma digit_char [simp]:
  assumes "d < 10"
  shows "is_ascii_digit (char_of (48 + d))" "digit_value (char_of (48 + d)) = d"
  using assms by (simp_all add: is_ascii_digit_def digit_value_def of_char_digit)

lemma show_nat_digits: "c \<in> set (show_nat n) \<Longrightarrow> is_ascii_digit c"
proof (induction n rule: show_nat.induct)
  case (1 n)
  then show ?case
    by (subst (asm) (2) show_nat.simps) (auto split: if_splits)
qed

lemma show_nat_nonempty [simp]: "show_nat n \<noteq> []"
  by (subst show_nat.simps) simp

lemma parse_digits_append:
  "parse_digits lim acc (xs @ ys) =
     (case parse_digits lim acc xs of None \<Rightarrow> None | Some a \<Rightarrow> parse_digits lim a ys)"
  by (induction xs arbitrary: acc) (auto simp: Let_def)

lemma parse_digits_show_nat: "n < lim \<Longrightarrow> parse_digits lim 0 (show_nat n) = Some n"
proof (induction n rule: show_nat.induct)
  case (1 n)
  show ?case
  proof (cases "n < 10")
    case True
    then show ?thesis using 1(2) by (subst show_nat.simps) simp
  next
    case False
    then have "parse_digits lim 0 (show_nat (n div 10)) = Some (n div 10)"
      using 1 by auto
    moreover have "n div 10 * 10 + n mod 10 = n" by simp
    ultimately show ?thesis
      using False 1(2) by (subst show_nat.simps) (simp add: parse_digits_append)
  qed
qed

lemma parse_usize_show [simp]: "parse_usize (show_usize w) = Some w"
proof -
  obtain c cs where s: "show_nat (unat w) = c # cs"
    using show_nat_nonempty by (meson neq_Nil_conv)
  then have "is_ascii_digit c"
    using show_nat_digits [of c "unat w"] by simp
  then have "c \<noteq> CHR ''+''" by (auto simp: is_ascii_digit_def)
  moreover have "parse_digits (2 ^ 64) 0 (show_nat (unat w)) = Some (unat w)"
    using unsigned_less [of w] by (intro parse_digits_show_nat) simp
  ultimately show ?thesis
    unfolding parse_usize_def show_usize_def s by simp
qed

lemma digit_not_space: "is_ascii_digit c \<Longrightarrow> \<not> is_ascii_whitespace c"
  by (auto simp: is_ascii_digit_def is_ascii_whitespace_def Let_def)

lemma digit_lower: "is_ascii_digit c \<Longrightarrow> to_lower c = c"
  by (auto simp: is_ascii_digit_def is_ascii_upper_def to_lower_def Let_def)

lemma to_lowercase_append [simp]: "to_lowercase (a @ b) = to_lowercase a @ to_lowercase b"
  by (simp add: to_lowercase_def)

lemma map_lower_show_usize [simp]: "map to_lower (show_usize w) = show_usize w"
  unfolding show_usize_def by (rule map_idI) (auto dest: show_nat_digits intro: digit_lower)

lemma show_usize_nonempty [simp]: "show_usize w \<noteq> []"
  by (simp add: show_usize_def)

lemma show_usize_digits: "c \<in> set (show_usize w) \<Longrightarrow> is_ascii_digit c"
  by (auto simp: show_usize_def dest: show_nat_digits)

lemma show_usize_notin [simp]:
  "\<not> is_ascii_digit c \<Longrightarrow> c \<notin> set (show_usize w)"
  by (auto dest: show_usize_digits)

lemma dropWhile_hd: "xs \<noteq> [] \<Longrightarrow> \<not> P (hd xs) \<Longrightarrow> dropWhile P xs = xs"
  by (cases xs) auto

lemma trim_id:
  "s \<noteq> [] \<Longrightarrow> \<not> is_ascii_whitespace (hd s) \<Longrightarrow> \<not> is_ascii_whitespace (last s) \<Longrightarrow> trim s = s"
  by (simp add: trim_def dropWhile_hd hd_rev)

lemma find_char_append:
  "c \<notin> set xs \<Longrightarrow> find_char c (xs @ c # ys) = Some (length xs)"
  by (induction xs) auto

lemma split_on_plain: "c \<notin> set xs \<Longrightarrow> split_on c xs = [xs]"
  by (induction xs) auto

lemma split_on_append: "c \<notin> set xs \<Longrightarrow> split_on c (xs @ c # ys) = xs # split_on c ys"
  by (induction xs) auto

end
