(* ===== verification/Data_Types.thy ===== *)
theory Data_Types
  imports Prelude
begin

section \<open>SQL data types and values (\<^verbatim>\<open>src/src/types/\<close>)\<close>

text \<open>
  \<^verbatim>\<open>data_type.rs\<close>: the type kinds, their printed names, storage sizes and classification, and the
  parser of type names. \<^verbatim>\<open>value.rs\<close>: run-time values. The lemmas show that the parser always
  returns (no slice is out of range), that it reads back every printed name of the kinds it
  supports, and that the two printers agree.
\<close>

subsection \<open>Kinds\<close>

datatype DataTypeKind =
    SmallIntT | IntegerT | BigIntT
  | RealT | DoublePrecisionT | NumericT usize usize | DecimalT usize usize
  | CharT usize | VarcharT usize | TextT
  | ByteaT
  | DateT | TimeT | TimeWithTimeZoneT | TimestampT | TimestampWithTimeZoneT | IntervalT
  | BooleanT
  | InetT | CidrT | MacAddrT | MacAddr8T
  | UuidT
  | JsonT | JsonBT
  | ArrayT DataTypeKind
  | SerialT | BigSerialT

record DataType =
  dt_kind :: DataTypeKind
  dt_nullable :: bool
  dt_has_default :: bool
  dt_default_value :: "string option"
  dt_collation :: "string option"

definition DataType_new :: "DataTypeKind \<Rightarrow> DataType" where
  "DataType_new k = \<lparr>dt_kind = k, dt_nullable = True, dt_has_default = False,
     dt_default_value = None, dt_collation = None\<rparr>"

definition with_nullable :: "DataType \<Rightarrow> bool \<Rightarrow> DataType" where
  "with_nullable d b = d\<lparr>dt_nullable := b\<rparr>"

definition with_default_value :: "DataType \<Rightarrow> string \<Rightarrow> DataType" where
  "with_default_value d v = d\<lparr>dt_has_default := True, dt_default_value := Some v\<rparr>"

definition with_collation :: "DataType \<Rightarrow> string \<Rightarrow> DataType" where
  "with_collation d c = d\<lparr>dt_collation := Some c\<rparr>"

function type_name :: "DataType \<Rightarrow> string" where
  "type_name d = (case dt_kind d of
       SmallIntT \<Rightarrow> ''smallint''
     | IntegerT \<Rightarrow> ''integer''
     | BigIntT \<Rightarrow> ''bigint''
     | RealT \<Rightarrow> ''real''
     | DoublePrecisionT \<Rightarrow> ''double precision''
     | NumericT p s \<Rightarrow> ''numeric('' @ show_usize p @ '', '' @ show_usize s @ '')''
     | DecimalT p s \<Rightarrow> ''decimal('' @ show_usize p @ '', '' @ show_usize s @ '')''
     | CharT n \<Rightarrow> ''char('' @ show_usize n @ '')''
     | VarcharT n \<Rightarrow> ''varchar('' @ show_usize n @ '')''
     | TextT \<Rightarrow> ''text''
     | ByteaT \<Rightarrow> ''bytea''
     | DateT \<Rightarrow> ''date''
     | TimeT \<Rightarrow> ''time''
     | TimeWithTimeZoneT \<Rightarrow> ''time with time zone''
     | TimestampT \<Rightarrow> ''timestamp''
     | TimestampWithTimeZoneT \<Rightarrow> ''timestamp with time zone''
     | IntervalT \<Rightarrow> ''interval''
     | BooleanT \<Rightarrow> ''boolean''
     | InetT \<Rightarrow> ''inet''
     | CidrT \<Rightarrow> ''cidr''
     | MacAddrT \<Rightarrow> ''macaddr''
     | MacAddr8T \<Rightarrow> ''macaddr8''
     | UuidT \<Rightarrow> ''uuid''
     | JsonT \<Rightarrow> ''json''
     | JsonBT \<Rightarrow> ''jsonb''
     | ArrayT e \<Rightarrow> type_name (DataType_new e) @ ''[]''
     | SerialT \<Rightarrow> ''serial''
     | BigSerialT \<Rightarrow> ''bigserial'')"
  by pat_completeness auto
termination
  by (relation "measure (\<lambda>d. size (dt_kind d))") (auto simp: DataType_new_def)

declare type_name.simps [simp del]

fun storage_size :: "DataType \<Rightarrow> usize" where
  "storage_size d = (case dt_kind d of
       SmallIntT \<Rightarrow> 2
     | IntegerT \<Rightarrow> 4 | SerialT \<Rightarrow> 4
     | BigIntT \<Rightarrow> 8 | BigSerialT \<Rightarrow> 8
     | RealT \<Rightarrow> 4
     | DoublePrecisionT \<Rightarrow> 8
     | NumericT p s \<Rightarrow> 16
     | DecimalT p s \<Rightarrow> 16
     | CharT n \<Rightarrow> n
     | VarcharT n \<Rightarrow> 4 + n
     | TextT \<Rightarrow> 64
     | ByteaT \<Rightarrow> 64
     | DateT \<Rightarrow> 4
     | TimeT \<Rightarrow> 8
     | TimeWithTimeZoneT \<Rightarrow> 12
     | TimestampT \<Rightarrow> 8
     | TimestampWithTimeZoneT \<Rightarrow> 12
     | IntervalT \<Rightarrow> 16
     | BooleanT \<Rightarrow> 1
     | InetT \<Rightarrow> 12
     | CidrT \<Rightarrow> 12
     | MacAddrT \<Rightarrow> 6
     | MacAddr8T \<Rightarrow> 8
     | UuidT \<Rightarrow> 16
     | JsonT \<Rightarrow> 64
     | JsonBT \<Rightarrow> 64
     | ArrayT e \<Rightarrow> 24)"

definition is_numeric :: "DataType \<Rightarrow> bool" where
  "is_numeric d = (case dt_kind d of
       SmallIntT \<Rightarrow> True | IntegerT \<Rightarrow> True | BigIntT \<Rightarrow> True
     | RealT \<Rightarrow> True | DoublePrecisionT \<Rightarrow> True
     | NumericT _ _ \<Rightarrow> True | DecimalT _ _ \<Rightarrow> True
     | SerialT \<Rightarrow> True | BigSerialT \<Rightarrow> True
     | _ \<Rightarrow> False)"

definition is_character :: "DataType \<Rightarrow> bool" where
  "is_character d = (case dt_kind d of
       CharT _ \<Rightarrow> True | VarcharT _ \<Rightarrow> True | TextT \<Rightarrow> True | _ \<Rightarrow> False)"

definition is_temporal :: "DataType \<Rightarrow> bool" where
  "is_temporal d = (case dt_kind d of
       DateT \<Rightarrow> True | TimeT \<Rightarrow> True | TimeWithTimeZoneT \<Rightarrow> True
     | TimestampT \<Rightarrow> True | TimestampWithTimeZoneT \<Rightarrow> True | IntervalT \<Rightarrow> True
     | _ \<Rightarrow> False)"

definition is_orderable :: "DataType \<Rightarrow> bool" where
  "is_orderable d = (case dt_kind d of
       JsonT \<Rightarrow> False | ArrayT _ \<Rightarrow> False | ByteaT \<Rightarrow> False | _ \<Rightarrow> True)"

text \<open>\<^verbatim>\<open>impl fmt::Display for DataTypeKind\<close>.\<close>

primrec display_kind :: "DataTypeKind \<Rightarrow> string" where
  "display_kind SmallIntT = ''smallint''"
| "display_kind IntegerT = ''integer''"
| "display_kind BigIntT = ''bigint''"
| "display_kind RealT = ''real''"
| "display_kind DoublePrecisionT = ''double precision''"
| "display_kind (NumericT p s) = ''numeric('' @ show_usize p @ '', '' @ show_usize s @ '')''"
| "display_kind (DecimalT p s) = ''decimal('' @ show_usize p @ '', '' @ show_usize s @ '')''"
| "display_kind (CharT n) = ''char('' @ show_usize n @ '')''"
| "display_kind (VarcharT n) = ''varchar('' @ show_usize n @ '')''"
| "display_kind TextT = ''text''"
| "display_kind ByteaT = ''bytea''"
| "display_kind DateT = ''date''"
| "display_kind TimeT = ''time''"
| "display_kind TimeWithTimeZoneT = ''time with time zone''"
| "display_kind TimestampT = ''timestamp''"
| "display_kind TimestampWithTimeZoneT = ''timestamp with time zone''"
| "display_kind IntervalT = ''interval''"
| "display_kind BooleanT = ''boolean''"
| "display_kind InetT = ''inet''"
| "display_kind CidrT = ''cidr''"
| "display_kind MacAddrT = ''macaddr''"
| "display_kind MacAddr8T = ''macaddr8''"
| "display_kind UuidT = ''uuid''"
| "display_kind JsonT = ''json''"
| "display_kind JsonBT = ''jsonb''"
| "display_kind (ArrayT e) = display_kind e @ ''[]''"
| "display_kind SerialT = ''serial''"
| "display_kind BigSerialT = ''bigserial''"

subsection \<open>Parsing type names\<close>

text \<open>The slice \<^verbatim>\<open>&s[a..b]\<close>, which panics when the range is not inside the text.\<close>

definition str_slice :: "nat \<Rightarrow> nat \<Rightarrow> string \<Rightarrow> string res" where
  "str_slice a b s =
     (if a \<le> b \<and> b \<le> length s then Ok (take (b - a) (drop a s)) else Panic ''slice index'')"

definition plain_types :: "(string \<times> DataTypeKind) list" where
  "plain_types =
    [(''smallint'', SmallIntT), (''int2'', SmallIntT),
     (''integer'', IntegerT), (''int'', IntegerT), (''int4'', IntegerT),
     (''bigint'', BigIntT), (''int8'', BigIntT),
     (''real'', RealT), (''float4'', RealT),
     (''double precision'', DoublePrecisionT), (''float8'', DoublePrecisionT),
     (''boolean'', BooleanT), (''bool'', BooleanT),
     (''text'', TextT), (''bytea'', ByteaT),
     (''date'', DateT), (''time'', TimeT),
     (''time with time zone'', TimeWithTimeZoneT), (''timetz'', TimeWithTimeZoneT),
     (''timestamp'', TimestampT),
     (''timestamp with time zone'', TimestampWithTimeZoneT),
     (''timestamptz'', TimestampWithTimeZoneT),
     (''interval'', IntervalT), (''uuid'', UuidT),
     (''json'', JsonT), (''jsonb'', JsonBT),
     (''serial'', SerialT), (''bigserial'', BigSerialT),
     (''inet'', InetT), (''cidr'', CidrT),
     (''macaddr'', MacAddrT), (''macaddr8'', MacAddr8T)]"

text \<open>The two branches \<^verbatim>\<open>varchar(n)\<close> and \<^verbatim>\<open>char(n)\<close>, which differ in their messages only.\<close>

definition parse_length_type ::
  "string \<Rightarrow> string \<Rightarrow> string \<Rightarrow> (usize \<Rightarrow> DataTypeKind) \<Rightarrow> string \<Rightarrow> DataType res" where
  "parse_length_type invalid unclosed syntax con s =
     (case find_char CHR ''('' s of
        Some start \<Rightarrow>
          (case find_char CHR '')'' s of
             Some end_pos \<Rightarrow>
               res_bind (str_slice (start + 1) end_pos s)
                 (\<lambda>len_str. case parse_usize len_str of
                    Some len \<Rightarrow> Ok (DataType_new (con len))
                  | None \<Rightarrow> Err (ParseError invalid))
           | None \<Rightarrow> Err (ParseError unclosed))
      | None \<Rightarrow> Err (ParseError syntax))"

definition parse_numeric_type :: "string \<Rightarrow> DataType res" where
  "parse_numeric_type s =
     (case find_char CHR ''('' s of
        Some start \<Rightarrow>
          (case find_char CHR '')'' s of
             Some end_pos \<Rightarrow>
               res_bind (str_slice (start + 1) end_pos s)
                 (\<lambda>params. case split_on CHR '','' params of
                    [a, b] \<Rightarrow>
                      (case (parse_usize (trim a), parse_usize (trim b)) of
                         (Some precision, Some scale) \<Rightarrow>
                           Ok (DataType_new (NumericT precision scale))
                       | _ \<Rightarrow> Err (ParseError ''Invalid numeric parameters''))
                  | _ \<Rightarrow> Err (ParseError ''Numeric requires precision and scale''))
           | None \<Rightarrow> Err (ParseError ''Unclosed numeric parenthesis''))
      | None \<Rightarrow> Err (ParseError ''Invalid numeric syntax''))"

definition parse_base_type :: "string \<Rightarrow> DataType res" where
  "parse_base_type s =
     (case map_of plain_types s of
        Some k \<Rightarrow> Ok (DataType_new k)
      | None \<Rightarrow>
          if starts_with ''varchar('' s then
            parse_length_type ''Invalid varchar length'' ''Unclosed varchar parenthesis''
              ''Invalid varchar syntax'' VarcharT s
          else if starts_with ''char('' s then
            parse_length_type ''Invalid char length'' ''Unclosed char parenthesis''
              ''Invalid char syntax'' CharT s
          else if starts_with ''numeric('' s then parse_numeric_type s
          else Err (ParseError ''Unknown data type''))"

definition parse_data_type :: "string \<Rightarrow> DataType res" where
  "parse_data_type sql_type =
     (let lower_type = trim (to_lowercase sql_type);
          is_array = ends_with ''[]'' lower_type;
          base_type_str =
            (if is_array then take (length lower_type - 2) lower_type else lower_type)
      in res_bind (parse_base_type base_type_str)
           (\<lambda>base_type. if is_array then Ok (DataType_new (ArrayT (dt_kind base_type)))
                        else Ok base_type))"

subsection \<open>Values\<close>

text \<open>
  \<^verbatim>\<open>Value\<close> is a struct with the one field \<^verbatim>\<open>kind: ValueKind\<close>; the two are one type here. A float
  is its 64-bit pattern (\<^verbatim>\<open>f64::to_bits\<close>), a timestamp its instant in nanoseconds.
\<close>

datatype Value =
    IntegerV i64
  | StringV string
  | BooleanV bool
  | FloatV f64
  | TimestampV int
  | ListV "Value list"
  | NullV

text \<open>
  The kinds whose printed name the parser reads: not \<^verbatim>\<open>Decimal\<close>, which has no branch in
  \<^verbatim>\<open>parse_data_type\<close>, and arrays of one dimension only, because one suffix is stripped.
\<close>

fun scalar_supported :: "DataTypeKind \<Rightarrow> bool" where
  "scalar_supported (DecimalT _ _) = False"
| "scalar_supported (ArrayT _) = False"
| "scalar_supported _ = True"

fun supported :: "DataTypeKind \<Rightarrow> bool" where
  "supported (ArrayT e) = scalar_supported e"
| "supported k = scalar_supported k"

subsection \<open>The parser returns on every input\<close>

lemma find_char_bounds: "find_char c s = Some i \<Longrightarrow> i < length s \<and> s ! i = c"
  by (induction s arbitrary: i) (auto split: if_splits)

lemma find_char_least: "find_char c s = Some i \<Longrightarrow> j < i \<Longrightarrow> s ! j \<noteq> c"
  by (induction s arbitrary: i j) (auto split: if_splits simp: nth_Cons split: nat.splits)

lemma starts_with_append: "starts_with p s \<longleftrightarrow> (\<exists>t. s = p @ t)"
  unfolding starts_with_def by (metis append_eq_conv_conj)

lemma find_char_prefix:
  "c \<notin> set p \<Longrightarrow> find_char c (p @ t) = map_option (\<lambda>i. length p + i) (find_char c t)"
  by (induction p; cases "find_char c t"; auto)

lemma close_after_open:
  assumes "starts_with (p @ ''('') s" "CHR ''('' \<notin> set p" "CHR '')'' \<notin> set p"
    and "find_char CHR '')'' s = Some j"
  shows "find_char CHR ''('' s = Some (length p)" "length p + 1 \<le> j" "j \<le> length s"
proof -
  obtain t where s: "s = p @ CHR ''('' # t"
    using assms(1) by (auto simp: starts_with_append)
  show "find_char CHR ''('' s = Some (length p)"
    using assms(2) by (simp add: s find_char_append)
  show "length p + 1 \<le> j" "j \<le> length s"
    using assms(4) find_char_bounds [OF assms(4)] find_char_prefix [OF assms(3)]
    by (auto simp: s split: if_splits)
qed

lemma str_slice_ok: "a \<le> b \<Longrightarrow> b \<le> length s \<Longrightarrow> str_slice a b s = Ok (take (b - a) (drop a s))"
  by (simp add: str_slice_def)

lemma parse_length_type_returns:
  assumes "starts_with (p @ ''('') s" "CHR ''('' \<notin> set p" "CHR '')'' \<notin> set p"
  shows "returns (parse_length_type a b c con s)"
  unfolding parse_length_type_def
  using close_after_open [OF assms]
  by (auto split: option.splits simp: str_slice_ok)

lemma parse_numeric_type_returns:
  assumes "starts_with ''numeric('' s"
  shows "returns (parse_numeric_type s)"
proof (cases "find_char CHR '')'' s")
  case None
  then show ?thesis by (auto simp: parse_numeric_type_def split: option.splits)
next
  case (Some j)
  have "starts_with (''numeric'' @ ''('') s" using assms by simp
  then have "find_char CHR ''('' s = Some 7" "8 \<le> j" "j \<le> length s"
    using close_after_open [of "''numeric''" s j] Some by auto
  then show ?thesis
    using Some by (auto simp: parse_numeric_type_def str_slice_ok split: list.splits option.splits)
qed

lemma parse_base_type_returns: "returns (parse_base_type s)"
  unfolding parse_base_type_def
  using parse_length_type_returns [of "''varchar''" s] parse_length_type_returns [of "''char''" s]
    parse_numeric_type_returns [of s]
  by (auto split: option.splits)

text \<open>
  Parsing a type name always returns a type or an error: whatever the text, no slice of it
  is out of range, so the parser never panics.
\<close>

theorem parse_data_type_returns: "returns (parse_data_type s)"
  unfolding parse_data_type_def Let_def
  by (auto intro: returns_bind parse_base_type_returns)

subsection \<open>Reading back what was printed\<close>

lemma type_name_new: "type_name (DataType_new k) = display_kind k"
  by (induction k) (subst type_name.simps, simp add: DataType_new_def)+

lemmas ascii_defs = to_lowercase_def to_lower_def is_ascii_upper_def is_ascii_whitespace_def

lemma display_lower: "map to_lower (display_kind k) = display_kind k"
proof (induction k)
  case (ArrayT e)
  then show ?case by (simp add: ascii_defs)
qed (simp_all, simp_all add: ascii_defs)

lemma display_nonspace:
  "display_kind k \<noteq> [] \<and> \<not> is_ascii_whitespace (hd (display_kind k)) \<and>
   \<not> is_ascii_whitespace (last (display_kind k))"
  by (induction k) (simp_all add: ascii_defs)

lemma trim_display: "trim (to_lowercase (display_kind k)) = display_kind k"
  using display_nonspace [of k] by (simp add: to_lowercase_def display_lower trim_id)

lemma trim_show_usize [simp]: "trim (show_usize w) = show_usize w" "trim (CHR '' '' # show_usize w) = show_usize w"
proof -
  have "\<not> is_ascii_whitespace (hd (show_usize w))" "\<not> is_ascii_whitespace (last (show_usize w))"
    using show_usize_digits [of _ w] digit_not_space by (meson hd_in_set last_in_set show_usize_nonempty)+
  then show "trim (show_usize w) = show_usize w" "trim (CHR '' '' # show_usize w) = show_usize w"
    by (simp_all add: trim_id) (simp add: trim_def is_ascii_whitespace_def dropWhile_hd hd_rev)
qed

lemma parens_not_digits [simp]:
  "\<not> is_ascii_digit CHR ''(''" "\<not> is_ascii_digit CHR '')''" "\<not> is_ascii_digit CHR '',''"
  by (simp_all add: is_ascii_digit_def)

lemma parse_base_display:
  "scalar_supported k \<Longrightarrow> parse_base_type (display_kind k) = Ok (DataType_new k)"
proof (induction k)
  case (NumericT p s)
  have "find_char CHR '')'' (show_usize p @ CHR '','' # CHR '' '' # show_usize s @ '')'') =
      Some (length (show_usize p) + 2 + length (show_usize s))"
    using find_char_append [of "CHR '')''" "show_usize p @ CHR '','' # CHR '' '' # show_usize s" "[]"]
    by simp
  then show ?case
    by (simp add: parse_base_type_def plain_types_def starts_with_def parse_numeric_type_def
        find_char_append str_slice_def split_on_append split_on_plain)
next
  case (CharT n)
  show ?case
    by (simp add: parse_base_type_def plain_types_def starts_with_def parse_length_type_def
        find_char_append str_slice_def)
next
  case (VarcharT n)
  show ?case
    by (simp add: parse_base_type_def plain_types_def starts_with_def parse_length_type_def
        find_char_append str_slice_def)
qed (simp_all add: parse_base_type_def plain_types_def)

lemma dt_kind_new [simp]: "dt_kind (DataType_new k) = k"
  by (simp add: DataType_new_def)

lemma ends_with_last: "ends_with p s \<Longrightarrow> p \<noteq> [] \<Longrightarrow> last s = last p"
  unfolding ends_with_def by (metis append_take_drop_id last_appendR)

lemma ends_with_append [simp]: "ends_with p (s @ p)"
  by (simp add: ends_with_def)

lemma display_not_array:
  assumes "\<And>e. k \<noteq> ArrayT e"
  shows "\<not> ends_with ''[]'' (display_kind k)"
proof
  assume "ends_with ''[]'' (display_kind k)"
  then have "last (display_kind k) = CHR '']''" by (auto dest: ends_with_last)
  with assms show False by (cases k) auto
qed

text \<open>
  C39. Every kind the parser supports is read back from its printed name: a scalar kind other than
  \<^verbatim>\<open>Decimal\<close>, with any lengths, precision and scale of 64 bits, and an array of such a kind.
\<close>

theorem parse_data_type_type_name:
  assumes "supported k"
  shows "parse_data_type (type_name (DataType_new k)) = Ok (DataType_new k)"
proof (cases k)
  case (ArrayT e)
  then have "trim (to_lowercase (display_kind (ArrayT e))) = display_kind e @ ''[]''"
    using trim_display [of k] by simp
  then show ?thesis
    using ArrayT assms parse_base_display [of e]
    by (simp add: parse_data_type_def type_name_new Let_def)
qed (use assms display_not_array [of k] parse_base_display [of k] trim_display [of k] in
    \<open>simp_all add: parse_data_type_def type_name_new\<close>)

theorem parse_data_type_type_name_witness:
  "supported (ArrayT (NumericT 10 2)) \<and>
   parse_data_type (type_name (DataType_new (ArrayT (NumericT 10 2)))) =
     Ok (DataType_new (ArrayT (NumericT 10 2)))"
  using parse_data_type_type_name [of "ArrayT (NumericT 10 2)"] by simp

text \<open>
  The other kinds are refused: the printed name of a \<^verbatim>\<open>Decimal\<close> type, and of an array
  of arrays, is an unknown type to the parser, although both print as SQL names.
\<close>

theorem parse_data_type_unsupported:
  "parse_data_type (type_name (DataType_new (DecimalT p s))) =
     Err (ParseError ''Unknown data type'') \<and>
   parse_data_type (type_name (DataType_new (ArrayT (ArrayT IntegerT)))) =
     Err (ParseError ''Unknown data type'')"
proof
  show "parse_data_type (type_name (DataType_new (DecimalT p s))) =
      Err (ParseError ''Unknown data type'')"
    using trim_display [of "DecimalT p s"] display_not_array [of "DecimalT p s"]
    by (simp add: parse_data_type_def type_name_new parse_base_type_def plain_types_def starts_with_def)
  show "parse_data_type (type_name (DataType_new (ArrayT (ArrayT IntegerT)))) =
     Err (ParseError ''Unknown data type'')"
    using trim_display [of "ArrayT (ArrayT IntegerT)"]
    by (simp add: parse_data_type_def type_name_new parse_base_type_def plain_types_def
        starts_with_def ends_with_def)
qed

text \<open>
  The two printers of the crate agree: \<^verbatim>\<open>DataType::type_name\<close> and \<^verbatim>\<open>Display for DataTypeKind\<close>
  give the same text for every type, arrays of any depth included.
\<close>

theorem type_name_display: "type_name d = display_kind (dt_kind d)"
proof -
  have "type_name d = type_name (DataType_new (dt_kind d))"
    by (subst (1 2) type_name.simps) (simp add: DataType_new_def)
  then show ?thesis by (simp add: type_name_new)
qed

end
