(* ===== verification/Sql_Ast.thy ===== *)
theory Sql_Ast
  imports Data_Types
begin

section \<open>The abstract syntax (\<^verbatim>\<open>src/src/sql/ast.rs\<close>)\<close>

text \<open>
  Expressions contain statements (subqueries) and statements contain expressions. The types are built
  in three stages over a parameter \<open>'st\<close> that stands for statements: expressions, queries, and then the
  statements themselves, where the parameter is closed.
\<close>

subsection \<open>Operators and options\<close>

datatype BinaryOperator =
    OpEquals | OpNotEquals | OpLessThan | OpLessThanOrEquals | OpGreaterThan | OpGreaterThanOrEquals
  | OpLike | OpILike | OpIn | OpAnd | OpOr | OpIs | OpIsNot
  | OpAdd | OpSubtract | OpMultiply | OpDivide | OpConcatenate

datatype UnaryOperator = OpNot | OpMinus | OpPlus | OpExists | OpNotExists

datatype SortDirection = Asc | Desc

datatype NullsPosition = NullsFirst | NullsLast | NullsDefault

datatype JoinType =
    InnerJoin | LeftJoin | RightJoin | FullJoin | CrossJoin
  | LeftAntiJoin | LeftSemiJoin | RightAntiJoin | RightSemiJoin

datatype SetOperator = UnionOp | IntersectOp | ExceptOp

datatype WindowFrameMode = RowsMode | RangeMode

datatype ParameterMode = InParam | OutParam | InOutParam

datatype ProcedureLanguage = LangSQL | LangPLpgSQL

datatype RaiseLevel = RaiseDebug | RaiseLog | RaiseInfo | RaiseNotice | RaiseWarning | RaiseException

datatype ExceptionCondition = SpecificException string | WhenExceptions "string list" | OthersException

subsection \<open>Expressions\<close>

datatype (plugins only: code size) 'st Expression =
    ColumnE (ce_table: "string option") (ce_name: string)
  | ValueE Value
  | LiteralE Value
  | FunctionE (fe_name: string) (fe_args: "'st Expression list") (fe_distinct: bool)
  | WindowFunctionE "'st WindowFunction"
  | BinaryOpE (be_left: "'st Expression") (be_op: BinaryOperator) (be_right: "'st Expression")
  | UnaryOpE (ue_op: UnaryOperator) (ue_expr: "'st Expression")
  | CastE (cast_expr: "'st Expression") (cast_type: DataType)
  | SubqueryE 'st
  | ExistsE (ex_subquery: 'st) (ex_negated: bool)
  | ListE "'st Expression list"
  | StarE
  | ParameterE nat
  | CaseE (case_base: "'st Expression option") (case_branches: "'st CaseBranch list")
      (case_else: "'st Expression option")
and 'st CaseBranch = CaseBranch (cb_condition: "'st Expression") (cb_result: "'st Expression")
and 'st WindowFunction = WindowFunction (wf_name: string) (wf_args: "'st Expression list")
      (wf_window_clause: "'st WindowClause") (wf_window_name: "string option")
and 'st WindowClause = WindowClause (wc_partition_by: "'st Expression list")
      (wc_order_by: "'st OrderBy list") (wc_window_frame: "'st WindowFrame option")
and 'st WindowFrame = WindowFrame (wfr_mode: WindowFrameMode) (wfr_start: "'st WindowFrameBound")
      (wfr_end: "'st WindowFrameBound option")
and 'st WindowFrameBound = CurrentRow | UnboundedPreceding | UnboundedFollowing
  | PrecedingBound "'st Expression" | FollowingBound "'st Expression"
and 'st OrderBy = OrderBy (ob_expr: "'st Expression") (ob_direction: SortDirection) (ob_nulls: NullsPosition)

subsection \<open>Queries\<close>

datatype (plugins only: code size) 'st TableRef =
    TableName (tr_name: string) (tr_alias: "string option")
  | TableSubquery (tr_subquery: 'st) (tr_alias: "string option")

datatype (plugins only: code size) 'st ColumnSpec = ColumnSpec (cs_expr: "'st Expression") (cs_alias: "string option")

datatype (plugins only: code size) 'st JoinCondition = JoinCondition (jc_table: "'st TableRef") (jc_join_type: JoinType)
  (jc_condition: "'st Expression option")

datatype (plugins only: code size) 'st NamedWindow = NamedWindow (nw_name: string) (nw_window_clause: "'st WindowClause")

datatype (plugins only: code size) 'st SelectStatement =
    SimpleSelect (ss_with_clause: "'st WithClause option") (ss_distinct: bool)
      (ss_columns: "'st ColumnSpec list") (ss_from: "'st TableRef list") (ss_joins: "'st JoinCondition list")
      (ss_where_clause: "'st Expression option") (ss_group_by: "'st Expression list")
      (ss_having: "'st Expression option") (ss_order_by: "'st OrderBy list") (ss_limit: "i64 option")
      (ss_offset: "i64 option") (ss_named_windows: "'st NamedWindow list")
  | SetSelect "'st SetOperation"
and 'st SetOperation = SetOperation (so_operator: SetOperator) (so_left: "'st SelectStatement")
      (so_right: "'st SelectStatement") (so_all: bool)
and 'st WithClause = WithClause (with_ctes: "'st CommonTableExpression list") (with_recursive: bool)
and 'st CommonTableExpression = CommonTableExpression (cte_name: string)
      (cte_column_names: "string list option") (cte_query: "'st SelectStatement") (cte_recursive: bool)

subsection \<open>Statements\<close>

text \<open>
  The structures of the sources that contain statements are datatypes with one constructor, because a
  datatype can recur through them.
\<close>

datatype (plugins only: code size) 'st ColumnConstraint =
    NotNullC | NullC | DefaultC string | PrimaryKeyC | UniqueC | CheckC "'st Expression"
  | ReferencesC (rc_table: string) (rc_column: "string option")

datatype (plugins only: code size) 'st AstTableConstraint =
    PrimaryKeyT (tc_columns: "string list") (tc_name: "string option")
  | ForeignKeyT (tc_columns: "string list") (tc_ref_table: string) (tc_ref_columns: "string list")
      (tc_name: "string option")
  | UniqueT (tc_columns: "string list") (tc_name: "string option")
  | CheckT (tc_condition: "'st Expression") (tc_name: "string option")

datatype (plugins only: code size) 'st AstColumnDef = AstColumnDef (acd_name: string) (acd_data_type: DataType)
  (acd_constraints: "'st ColumnConstraint list")

datatype (plugins only: code size) 'st InsertStatement = InsertStatement (ins_table: "'st TableRef") (ins_columns: "string list")
  (ins_values: "'st Expression list list")

datatype (plugins only: code size) 'st UpdateStatement = UpdateStatement (upd_table: "'st TableRef")
  (upd_assignments: "(string \<times> 'st Expression) list") (upd_where_clause: "'st Expression option")

datatype (plugins only: code size) 'st DeleteStatement = DeleteStatement (del_table: "'st TableRef")
  (del_where_clause: "'st Expression option")

datatype (plugins only: code size) 'st CreateTableStatement = CreateTableStatement (ct_table_name: string)
  (ct_columns: "'st AstColumnDef list") (ct_table_constraints: "'st AstTableConstraint list") (ct_if_not_exists: bool)

datatype CreateIndexStatement = CreateIndexStatement (ci_index_name: string) (ci_table_name: string)
  (ci_columns: "string list") (ci_unique: bool) (ci_if_not_exists: bool)

datatype DropTableStatement = DropTableStatement (dt_table_name: string) (dt_if_exists: bool)

datatype DropIndexStatement = DropIndexStatement (di_index_name: string) (di_if_exists: bool)

datatype (plugins only: code size) 'st AlterOperation =
    AddColumn (ao_column: "'st AstColumnDef")
  | DropColumn (ao_column_name: string)
  | RenameColumn (ao_old_name: string) (ao_new_name: string)
  | AddConstraint (ao_constraint: "'st AstTableConstraint")
  | DropConstraint (ao_constraint_name: string)
  | RenameTable (ao_new_table_name: string)

datatype (plugins only: code size) 'st AlterTableStatement = AlterTableStatement (at_table_name: string)
  (at_operation: "'st AlterOperation")

datatype (plugins only: code size) 'st CreateViewStatement = CreateViewStatement (cv_view_name: string)
  (cv_columns: "string list") (cv_query: "'st SelectStatement") (cv_materialized: bool) (cv_with_data: bool)

datatype DropViewStatement = DropViewStatement (dv_view_name: string) (dv_materialized: bool) (dv_cascade: bool)

datatype RefreshMaterializedViewStatement = RefreshMaterializedViewStatement (rv_view_name: string)
  (rv_concurrently: bool) (rv_with_data: bool)

subsection \<open>Procedures\<close>

datatype (plugins only: code size) 'st ProcedureParameter = ProcedureParameter (pp_name: string) (pp_data_type: DataType)
  (pp_mode: ParameterMode) (pp_default_value: "'st Expression option")

datatype (plugins only: code size) 'st Declaration = Declaration (decl_name: string) (decl_data_type: DataType)
  (decl_default_value: "'st Expression option") (decl_constant: bool)

datatype (plugins only: code size) 'st ExceptionHandler = ExceptionHandler (eh_conditions: "ExceptionCondition list")
  (eh_statements: "'st list")

datatype (plugins only: code size) 'st BlockStatement = BlockStatement (bs_declarations: "'st Declaration list")
  (bs_statements: "'st list") (bs_exception_handler: "'st ExceptionHandler option")

datatype (plugins only: code size) 'st CreateProcedureStatement = CreateProcedureStatement (cp_procedure_name: string)
  (cp_parameters: "'st ProcedureParameter list") (cp_language: ProcedureLanguage) (cp_body: "'st BlockStatement")
  (cp_or_replace: bool) (cp_security_definer: bool)

datatype (plugins only: code size) 'st CreateFunctionStatement = CreateFunctionStatement (cf_function_name: string)
  (cf_parameters: "'st ProcedureParameter list") (cf_return_type: DataType) (cf_language: ProcedureLanguage)
  (cf_body: "'st BlockStatement") (cf_or_replace: bool) (cf_security_definer: bool) (cf_returns_setof: bool)

datatype DropProcedureStatement = DropProcedureStatement (dp_procedure_name: string) (dp_if_exists: bool)
  (dp_parameters: "DataType list")

datatype DropFunctionStatement = DropFunctionStatement (df_function_name: string) (df_if_exists: bool)
  (df_parameters: "DataType list") (df_cascade: bool)

datatype (plugins only: code size) 'st CallProcedureStatement = CallProcedureStatement (call_procedure_name: string)
  (call_arguments: "'st Expression list")

datatype (plugins only: code size) 'st PerformStatement = PerformStatement (perf_expression: "'st Expression")

datatype (plugins only: code size) 'st ReturnStatement = ReturnStatement (ret_expression: "'st Expression option")

datatype (plugins only: code size) 'st ElsifBranch = ElsifBranch (eb_condition: "'st Expression") (eb_statements: "'st list")

datatype (plugins only: code size) 'st IfStatement = IfStatement (if_condition: "'st Expression")
  (if_then_statements: "'st list") (if_elsif_branches: "'st ElsifBranch list")
  (if_else_statements: "'st list option")

datatype (plugins only: code size) 'st WhenBranch = WhenBranch (wb_condition: "'st Expression") (wb_statements: "'st list")

datatype (plugins only: code size) 'st CaseStatement = CaseStatement (cst_expression: "'st Expression option")
  (cst_when_branches: "'st WhenBranch list") (cst_else_statements: "'st list option")

datatype (plugins only: code size) 'st LoopStatement = LoopStatement (lp_statements: "'st list") (lp_label: "string option")

datatype (plugins only: code size) 'st WhileStatement = WhileStatement (wh_condition: "'st Expression")
  (wh_statements: "'st list") (wh_label: "string option")

datatype (plugins only: code size) 'st ForStatement =
    CursorFor (for_cursor_name: string) (for_query: "'st SelectStatement") (for_statements: "'st list")
      (for_label: "string option")
  | IntegerFor (for_variable: string) (for_lower_bound: "'st Expression") (for_upper_bound: "'st Expression")
      (for_statements: "'st list") (for_label: "string option") (for_reverse: bool)

datatype (plugins only: code size) 'st ExitStatement = ExitStatement (exit_label: "string option")
  (exit_when_condition: "'st Expression option")

datatype (plugins only: code size) 'st ContinueStatement = ContinueStatement (cont_label: "string option")
  (cont_when_condition: "'st Expression option")

datatype (plugins only: code size) 'st DeclareStatement = DeclareStatement (dec_declarations: "'st Declaration list")

datatype RaiseStatement = RaiseStatement (rs_level: RaiseLevel) (rs_condition: "string option")
  (rs_message: "string option")

datatype (plugins only: code size) Statement =
    SelectS "Statement SelectStatement"
  | InsertS "Statement InsertStatement"
  | UpdateS "Statement UpdateStatement"
  | DeleteS "Statement DeleteStatement"
  | CreateTableS "Statement CreateTableStatement"
  | CreateIndexS CreateIndexStatement
  | DropTableS DropTableStatement
  | DropIndexS DropIndexStatement
  | AlterTableS "Statement AlterTableStatement"
  | CreateViewS "Statement CreateViewStatement"
  | DropViewS DropViewStatement
  | RefreshMaterializedViewS RefreshMaterializedViewStatement
  | CreateProcedureS "Statement CreateProcedureStatement"
  | CreateFunctionS "Statement CreateFunctionStatement"
  | DropProcedureS DropProcedureStatement
  | DropFunctionS DropFunctionStatement
  | CallProcedureS "Statement CallProcedureStatement"
  | PerformS "Statement PerformStatement"
  | BeginTransactionS
  | CommitTransactionS
  | RollbackTransactionS
  | BlockS "Statement BlockStatement"
  | ReturnS "Statement ReturnStatement"
  | IfS "Statement IfStatement"
  | CaseS "Statement CaseStatement"
  | LoopS "Statement LoopStatement"
  | WhileS "Statement WhileStatement"
  | ForS "Statement ForStatement"
  | ExitS "Statement ExitStatement"
  | ContinueS "Statement ContinueStatement"
  | DeclareS "Statement DeclareStatement"
  | RaiseS RaiseStatement

type_synonym expr = "Statement Expression"

end
