(* ===== verification/Float64.thy ===== *)
theory Float64
  imports Prelude
begin

section \<open>The type \<^verbatim>\<open>f64\<close>\<close>

text \<open>
  The arithmetic of IEEE 754 binary64 that the sources use through the type \<^verbatim>\<open>f64\<close>, on bit patterns.
  Every finite number is an integer multiple of \<open>2 ^ -1074\<close>, its \<^emph>\<open>units\<close>, so that sums, products and
  quotients are exact on integers and rounded once, to nearest with ties to even. Rust leaves open which
  NaN an operation returns; here it is always the same one.

  The lemmas show that comparisons are those of the numbers, and that integers of at most 53 bits and
  their sums are exact.
\<close>

subsection \<open>Patterns and numbers\<close>

definition f64_negative :: "f64 \<Rightarrow> bool" where
  "f64_negative w = bit w 63"

definition f64_magnitude :: "f64 \<Rightarrow> nat" where
  "f64_magnitude w = unat w mod 2 ^ 63"

definition f64_inf_magnitude :: nat where
  "f64_inf_magnitude = 2047 * 2 ^ 52"

definition f64_is_nan :: "f64 \<Rightarrow> bool" where
  "f64_is_nan w = (f64_magnitude w > f64_inf_magnitude)"

definition f64_is_inf :: "f64 \<Rightarrow> bool" where
  "f64_is_inf w = (f64_magnitude w = f64_inf_magnitude)"

definition f64_of_magnitude :: "bool \<Rightarrow> nat \<Rightarrow> f64" where
  "f64_of_magnitude neg m = of_nat (if neg then 2 ^ 63 + m else m)"

definition f64_nan :: f64 where
  "f64_nan = f64_of_magnitude False (2047 * 2 ^ 52 + 2 ^ 51)"

definition f64_inf :: "bool \<Rightarrow> f64" where
  "f64_inf neg = f64_of_magnitude neg f64_inf_magnitude"

definition f64_zero :: "bool \<Rightarrow> f64" where
  "f64_zero neg = f64_of_magnitude neg 0"

text \<open>The units in the number 1, and the absolute value of a finite pattern in units.\<close>

definition units_per_one :: nat where
  "units_per_one = 2 ^ 1074"

definition magnitude_units :: "nat \<Rightarrow> nat" where
  "magnitude_units m =
     (let e = m div 2 ^ 52; f = m mod 2 ^ 52 in if e = 0 then f else (2 ^ 52 + f) * 2 ^ (e - 1))"

definition f64_units :: "f64 \<Rightarrow> int" where
  "f64_units w = (if f64_negative w then - int (magnitude_units (f64_magnitude w))
     else int (magnitude_units (f64_magnitude w)))"

subsection \<open>Rounding\<close>

fun bit_length :: "nat \<Rightarrow> nat" where
  "bit_length n = (if n = 0 then 0 else Suc (bit_length (n div 2)))"

declare bit_length.simps [simp del]

text \<open>The quotient \<open>p / q\<close>, rounded to an integer, ties to even.\<close>

definition round_half_even :: "nat \<Rightarrow> nat \<Rightarrow> nat" where
  "round_half_even p q =
     (let n = p div q; r = p mod q
      in if 2 * r < q \<or> (2 * r = q \<and> even n) then n else Suc n)"

text \<open>The pattern nearest to \<open>p / q\<close> units: 53 significant bits, or the units themselves when there are fewer.\<close>

definition round_magnitude :: "nat \<Rightarrow> nat \<Rightarrow> nat" where
  "round_magnitude p q =
     (let s = bit_length (p div q) - 53
      in min f64_inf_magnitude (s * 2 ^ 52 + round_half_even p (q * 2 ^ s)))"

definition f64_round :: "bool \<Rightarrow> nat \<Rightarrow> nat \<Rightarrow> f64" where
  "f64_round neg p q = f64_of_magnitude neg (round_magnitude p q)"

subsection \<open>Operations\<close>

definition f64_neg :: "f64 \<Rightarrow> f64" where
  "f64_neg w = f64_of_magnitude (\<not> f64_negative w) (f64_magnitude w)"

definition f64_abs :: "f64 \<Rightarrow> f64" where
  "f64_abs w = f64_of_magnitude False (f64_magnitude w)"

definition f64_add :: "f64 \<Rightarrow> f64 \<Rightarrow> f64" where
  "f64_add a b =
     (if f64_is_nan a \<or> f64_is_nan b then f64_nan
      else if f64_is_inf a then (if f64_is_inf b \<and> f64_negative a \<noteq> f64_negative b then f64_nan else a)
      else if f64_is_inf b then b
      else let u = f64_units a + f64_units b
           in if u = 0 then f64_zero (f64_negative a \<and> f64_negative b)
              else f64_round (u < 0) (nat \<bar>u\<bar>) 1)"

definition f64_sub :: "f64 \<Rightarrow> f64 \<Rightarrow> f64" where
  "f64_sub a b = f64_add a (f64_neg b)"

definition f64_mul :: "f64 \<Rightarrow> f64 \<Rightarrow> f64" where
  "f64_mul a b =
     (let neg = (f64_negative a \<noteq> f64_negative b);
          u = magnitude_units (f64_magnitude a); v = magnitude_units (f64_magnitude b)
      in if f64_is_nan a \<or> f64_is_nan b then f64_nan
         else if f64_is_inf a \<or> f64_is_inf b then (if u = 0 \<or> v = 0 then f64_nan else f64_inf neg)
         else f64_round neg (u * v) units_per_one)"

definition f64_div :: "f64 \<Rightarrow> f64 \<Rightarrow> f64" where
  "f64_div a b =
     (let neg = (f64_negative a \<noteq> f64_negative b);
          u = magnitude_units (f64_magnitude a); v = magnitude_units (f64_magnitude b)
      in if f64_is_nan a \<or> f64_is_nan b then f64_nan
         else if f64_is_inf a then (if f64_is_inf b then f64_nan else f64_inf neg)
         else if f64_is_inf b then f64_zero neg
         else if v = 0 then (if u = 0 then f64_nan else f64_inf neg)
         else f64_round neg (u * units_per_one) v)"

text \<open>Comparisons go through the patterns read as signed magnitudes; a NaN is neither equal nor ordered.\<close>

definition f64_rank :: "f64 \<Rightarrow> int" where
  "f64_rank w = (if f64_negative w then - int (f64_magnitude w) else int (f64_magnitude w))"

definition f64_eq :: "f64 \<Rightarrow> f64 \<Rightarrow> bool" where
  "f64_eq a b = (\<not> f64_is_nan a \<and> \<not> f64_is_nan b \<and> f64_rank a = f64_rank b)"

definition f64_lt :: "f64 \<Rightarrow> f64 \<Rightarrow> bool" where
  "f64_lt a b = (\<not> f64_is_nan a \<and> \<not> f64_is_nan b \<and> f64_rank a < f64_rank b)"

definition f64_le :: "f64 \<Rightarrow> f64 \<Rightarrow> bool" where
  "f64_le a b = (\<not> f64_is_nan a \<and> \<not> f64_is_nan b \<and> f64_rank a \<le> f64_rank b)"

text \<open>Conversions (\<^verbatim>\<open>as f64\<close>, \<^verbatim>\<open>as i64\<close>), the constant \<^verbatim>\<open>f64::EPSILON\<close> and the test \<^verbatim>\<open>fract() == 0.0\<close>.\<close>

definition f64_of_int :: "int \<Rightarrow> f64" where
  "f64_of_int i = f64_round (i < 0) (nat \<bar>i\<bar> * units_per_one) 1"

definition f64_of_i64 :: "i64 \<Rightarrow> f64" where
  "f64_of_i64 i = f64_of_int (sint i)"

definition f64_to_i64 :: "f64 \<Rightarrow> i64" where
  "f64_to_i64 w =
     (let t = int (magnitude_units (f64_magnitude w) div units_per_one)
      in if f64_is_nan w then 0
         else if f64_negative w then of_int (max (- (2 ^ 63)) (- t))
         else of_int (min (2 ^ 63 - 1) t))"

definition f64_epsilon :: f64 where
  "f64_epsilon = f64_of_magnitude False (971 * 2 ^ 52)"

definition f64_is_integral :: "f64 \<Rightarrow> bool" where
  "f64_is_integral w =
     (f64_magnitude w < f64_inf_magnitude \<and> units_per_one dvd magnitude_units (f64_magnitude w))"

text \<open>The integers that are exact.\<close>

definition small_int :: "int \<Rightarrow> bool" where
  "small_int i = (\<bar>i\<bar> \<le> 2 ^ 53)"

subsection \<open>Lemmas: patterns\<close>

lemma f64_of_magnitude_parts [simp]:
  assumes "m < 2 ^ 63"
  shows "f64_negative (f64_of_magnitude neg m) = neg" "f64_magnitude (f64_of_magnitude neg m) = m"
proof -
  have u: "unat (f64_of_magnitude neg m) = (if neg then 2 ^ 63 + m else m)"
    using assms by (auto simp: f64_of_magnitude_def unat_of_nat)
  then show "f64_magnitude (f64_of_magnitude neg m) = m" using assms by (simp add: f64_magnitude_def)
  have "bit (f64_of_magnitude neg m) 63 = bit (unat (f64_of_magnitude neg m)) 63"
    by (simp add: bit_unsigned_iff)
  also have "\<dots> = odd (unat (f64_of_magnitude neg m) div 2 ^ 63)" by (rule bit_iff_odd)
  finally show "f64_negative (f64_of_magnitude neg m) = neg"
    using u assms div_add_self1 [of "2 ^ 63" m] by (simp add: f64_negative_def)
qed

lemma f64_magnitude_less: "f64_magnitude w < 2 ^ 63"
  by (simp add: f64_magnitude_def)

subsection \<open>Lemmas: units\<close>

lemma bit_length_zero [simp]: "bit_length 0 = 0"
  by (simp add: bit_length.simps)

lemma bit_length_bounds:
  assumes "n \<noteq> 0"
  shows "2 ^ (bit_length n - 1) \<le> n \<and> n < 2 ^ bit_length n \<and> bit_length n \<noteq> 0"
  using assms
proof (induction n rule: bit_length.induct)
  case (1 n)
  show ?case
  proof (cases "n div 2 = 0")
    case True
    then have "n = 1" using 1(2) by (cases n) auto
    then show ?thesis by (simp add: bit_length.simps)
  next
    case False
    note IH = 1(1) [OF 1(2) False]
    have l: "bit_length n = Suc (bit_length (n div 2))" using 1(2) by (simp add: bit_length.simps)
    have "2 * 2 ^ (bit_length (n div 2) - 1) = (2 :: nat) ^ bit_length (n div 2)"
      using IH by (metis power_eq_if)
    then show ?thesis using IH unfolding l by (simp; linarith)
  qed
qed

lemma bit_length_unique:
  assumes "2 ^ l \<le> n" "n < 2 ^ Suc l"
  shows "bit_length n = Suc l"
proof -
  have n: "n \<noteq> 0" using assms(1) by (metis le_zero_eq power_not_zero zero_neq_numeral)
  note b = bit_length_bounds [OF n]
  have "2 ^ (bit_length n - 1) < (2 :: nat) ^ Suc l" "2 ^ l < (2 :: nat) ^ bit_length n" using b assms by linarith+
  then have "bit_length n - 1 < Suc l" "l < bit_length n"
    by (auto intro: power_less_imp_less_exp [of "2 :: nat"] simp del: power_Suc)
  then show ?thesis by simp
qed

text \<open>A number with at most 53 significant bits is its own rounding.\<close>

lemma round_magnitude_exact:
  assumes "p < 2 ^ 2098" "2 ^ (bit_length p - 53) dvd p"
  shows "magnitude_units (round_magnitude p 1) = p" "round_magnitude p 1 < f64_inf_magnitude"
proof -
  define s where "s = bit_length p - 53"
  define r where "r = p div 2 ^ s"
  have p: "p = r * 2 ^ s" using assms(2) by (simp add: r_def s_def)
  have round: "round_half_even p (2 ^ s) = r" by (simp add: round_half_even_def p)
  have m: "magnitude_units (s * 2 ^ 52 + r) = p \<and> s * 2 ^ 52 + r < f64_inf_magnitude"
  proof (cases "s = 0")
    case True
    have "r < 2 ^ 53"
    proof (cases "p = 0")
      case False
      have "p < 2 ^ bit_length p" using bit_length_bounds [OF False] by simp
      also have "\<dots> \<le> (2 :: nat) ^ 53" using True s_def by (intro power_increasing) simp_all
      finally show ?thesis using True p by simp
    qed (use p in simp)
    moreover have "r div 2 ^ 52 = 1 \<and> r mod 2 ^ 52 = r - 2 ^ 52" if "2 ^ 52 \<le> r"
    proof -
      have "r div 2 ^ 52 = 1" using that \<open>r < 2 ^ 53\<close> by (intro div_nat_eqI) simp_all
      then show ?thesis using div_mult_mod_eq [of r "2 ^ 52"] by simp
    qed
    ultimately show ?thesis
      using True p by (cases "r < 2 ^ 52") (simp_all add: magnitude_units_def f64_inf_magnitude_def)
  next
    case False
    then have nz: "p \<noteq> 0" using bit_length_zero by (cases "p = 0") (simp_all add: s_def)
    note b = bit_length_bounds [OF nz]
    have l: "bit_length p = s + 53" using False by (simp add: s_def)
    have "2 ^ 52 * 2 ^ s \<le> r * 2 ^ s" "r * 2 ^ s < 2 ^ 53 * 2 ^ s"
      using b unfolding l p [symmetric] power_add [symmetric] by (simp_all add: add.commute)
    then have r: "2 ^ 52 \<le> r" "r < 2 ^ 53" by simp_all
    have "2 ^ (bit_length p - 1) < (2 :: nat) ^ 2098" using b assms(1) by linarith
    then have "bit_length p - 1 < 2098" by (rule power_less_imp_less_exp [rotated]) simp
    then have s: "s < 2046" using l by simp
    define f where "f = r - 2 ^ 52"
    have f: "r = 2 ^ 52 + f" "f < 2 ^ 52" using r by (simp_all add: f_def)
    have "(s * 2 ^ 52 + r) div 2 ^ 52 = Suc s" "(s * 2 ^ 52 + r) mod 2 ^ 52 = f"
      using f by simp_all
    then show ?thesis using s f by (simp add: magnitude_units_def p f64_inf_magnitude_def)
  qed
  show "magnitude_units (round_magnitude p 1) = p" "round_magnitude p 1 < f64_inf_magnitude"
    using m by (simp_all add: round_magnitude_def Let_def s_def [symmetric] round)
qed

subsection \<open>Lemmas: integers of at most 53 bits\<close>

lemma bit_length_scale:
  assumes "n \<noteq> 0"
  shows "bit_length (n * 2 ^ k) = bit_length n + k"
proof -
  note b = bit_length_bounds [OF assms]
  have "2 ^ (bit_length n - 1) * 2 ^ k \<le> n * 2 ^ k" "n * 2 ^ k < 2 ^ bit_length n * 2 ^ k" using b by simp_all
  then have "2 ^ (bit_length n - 1 + k) \<le> n * 2 ^ k" "n * 2 ^ k < 2 ^ (bit_length n + k)"
    unfolding power_add by this
  moreover have l: "bit_length n + k = Suc (bit_length n - 1 + k)" using b by simp
  ultimately show ?thesis using bit_length_unique [of "bit_length n - 1 + k" "n * 2 ^ k"] by argo
qed

lemma bit_length_less:
  assumes "n < 2 ^ k"
  shows "bit_length n \<le> k"
proof (cases "n = 0")
  case False
  note b = bit_length_bounds [OF False]
  have "2 ^ (bit_length n - 1) < (2 :: nat) ^ k" using b assms by linarith
  then have "bit_length n - 1 < k" by (rule power_less_imp_less_exp [rotated]) simp
  then show ?thesis by simp
qed simp

lemma scaled_exact:
  assumes "n \<le> 2 ^ 53" "0 < k" "k < 2045"
  shows "magnitude_units (round_magnitude (n * 2 ^ k) 1) = n * 2 ^ k"
    "round_magnitude (n * 2 ^ k) 1 < f64_inf_magnitude"
proof -
  have "n * 2 ^ k \<le> 2 ^ 53 * 2 ^ k" using assms(1) by (rule mult_le_mono1)
  also have "\<dots> < (2 :: nat) ^ 2098"
    unfolding power_add [symmetric] using assms(3) by (intro power_strict_increasing) simp_all
  finally have less: "n * 2 ^ k < 2 ^ 2098" .
  have "2 ^ (bit_length (n * 2 ^ k) - 53) dvd n * 2 ^ k"
  proof (cases "n < 2 ^ 53")
    case True
    have "bit_length (n * 2 ^ k) - 53 \<le> k"
      using bit_length_less [OF True] bit_length_scale [of n k] by (cases "n = 0") simp_all
    then have "2 ^ (bit_length (n * 2 ^ k) - 53) dvd (2 :: nat) ^ k" by (rule le_imp_power_dvd)
    then show ?thesis by (rule dvd_mult)
  next
    case False
    then have n: "n * 2 ^ k = 2 ^ (53 + k)" using assms(1) by (simp add: power_add)
    have "bit_length (2 ^ (53 + k)) = Suc (53 + k)" by (rule bit_length_unique) simp_all
    then show ?thesis unfolding n by (intro le_imp_power_dvd) simp
  qed
  from round_magnitude_exact [OF less this]
  show "magnitude_units (round_magnitude (n * 2 ^ k) 1) = n * 2 ^ k"
    "round_magnitude (n * 2 ^ k) 1 < f64_inf_magnitude" .
qed

lemmas integer_exact = scaled_exact [of _ 1074, folded units_per_one_def]

lemma units_per_one_pos [simp]: "0 < units_per_one" "units_per_one \<noteq> 0"
  unfolding units_per_one_def by (simp_all only: zero_less_power zero_less_numeral power_not_zero zero_neq_numeral [symmetric] not_False_eq_True)

lemma inf_magnitude_less: "m \<le> f64_inf_magnitude \<Longrightarrow> m < 2 ^ 63"
  by (simp add: f64_inf_magnitude_def)

lemma f64_of_int_parts:
  assumes "small_int i"
  shows "f64_negative (f64_of_int i) = (i < 0)" "f64_units (f64_of_int i) = i * int units_per_one"
    "magnitude_units (f64_magnitude (f64_of_int i)) = nat \<bar>i\<bar> * units_per_one"
    "f64_magnitude (f64_of_int i) < f64_inf_magnitude"
proof -
  have "nat \<bar>i\<bar> \<le> 2 ^ 53" using assms by (simp add: small_int_def)
  note e = integer_exact [OF this]
  have m: "round_magnitude (nat \<bar>i\<bar> * units_per_one) 1 < 2 ^ 63"
    using e(2) by (intro inf_magnitude_less less_imp_le) simp
  show n: "f64_negative (f64_of_int i) = (i < 0)"
    and u: "magnitude_units (f64_magnitude (f64_of_int i)) = nat \<bar>i\<bar> * units_per_one"
    and "f64_magnitude (f64_of_int i) < f64_inf_magnitude"
    unfolding f64_of_int_def f64_round_def f64_of_magnitude_parts [OF m] using e by simp_all
  show "f64_units (f64_of_int i) = i * int units_per_one" by (simp add: f64_units_def n u)
qed

lemma f64_of_int_finite:
  assumes "small_int i"
  shows "\<not> f64_is_nan (f64_of_int i)" "\<not> f64_is_inf (f64_of_int i)"
  using f64_of_int_parts(4) [OF assms] by (simp_all add: f64_is_nan_def f64_is_inf_def)

text \<open>Adding, converting back and testing for a fraction are exact.\<close>

lemma f64_add_of_int:
  assumes "small_int a" "small_int b"
  shows "f64_add (f64_of_int a) (f64_of_int b) = f64_of_int (a + b)"
proof -
  have u: "f64_units (f64_of_int a) + f64_units (f64_of_int b) = (a + b) * int units_per_one"
    using assms by (simp add: f64_of_int_parts distrib_right)
  have z: "f64_of_int 0 = f64_zero False"
    by (simp add: f64_of_int_def f64_round_def f64_zero_def round_magnitude_def round_half_even_def)
  have s: "((a + b) * int units_per_one = 0) = (a + b = 0)" "((a + b) * int units_per_one < 0) = (a + b < 0)"
    by (auto simp: mult_less_0_iff)
  have zero: "\<not> (a < 0 \<and> b < 0)" if "a + b = 0" using that by linarith
  have n: "nat \<bar>(a + b) * int units_per_one\<bar> = nat \<bar>a + b\<bar> * units_per_one"
    by (simp add: abs_mult nat_mult_distrib)
  have "f64_add (f64_of_int a) (f64_of_int b) =
      (if a + b = 0 then f64_zero (a < 0 \<and> b < 0) else f64_of_int (a + b))"
    using assms unfolding f64_add_def u s n Let_def f64_of_int_def [of "a + b"]
    by (simp add: f64_of_int_finite f64_of_int_parts(1))
  then show ?thesis using z zero by (cases "a + b = 0") simp_all
qed

lemma f64_to_i64_of_int:
  assumes "small_int i"
  shows "f64_to_i64 (f64_of_int i) = of_int i"
  using assms
  by (auto simp: f64_to_i64_def f64_of_int_finite f64_of_int_parts Let_def small_int_def min_def max_def abs_if)

lemma f64_is_integral_of_int:
  assumes "small_int i"
  shows "f64_is_integral (f64_of_int i)"
  using assms by (simp add: f64_is_integral_def f64_of_int_parts)

subsection \<open>Lemmas: order\<close>

lemma f64_order [simp]:
  "\<not> f64_lt a a" "f64_lt a b \<Longrightarrow> \<not> f64_lt b a" "f64_lt a b \<Longrightarrow> \<not> f64_eq a b"
  by (auto simp: f64_lt_def f64_eq_def)

lemma f64_cases:
  assumes "\<not> f64_is_nan a" "\<not> f64_is_nan b"
  shows "f64_lt a b \<or> f64_eq a b \<or> f64_lt b a"
  using assms by (auto simp: f64_lt_def f64_eq_def)

text \<open>The order of the patterns is the order of the numbers.\<close>

lemma magnitude_units_parts:
  assumes "f < 2 ^ 52"
  shows "magnitude_units (e * 2 ^ 52 + f) = (if e = 0 then f else (2 ^ 52 + f) * 2 ^ (e - 1))"
  using assms by (simp add: magnitude_units_def)

lemma magnitude_units_less:
  assumes "m < n"
  shows "magnitude_units m < magnitude_units n"
proof -
  obtain e f where m: "m = e * 2 ^ 52 + f" "f < 2 ^ 52"
    by (rule that [OF div_mult_mod_eq [symmetric]]) simp
  obtain e' f' where n: "n = e' * 2 ^ 52 + f'" "f' < 2 ^ 52"
    by (rule that [OF div_mult_mod_eq [symmetric]]) simp
  show ?thesis
  proof (cases "e = e'")
    case True
    then have "f < f'" using assms m n by simp
    then show ?thesis
      using True unfolding m(1) n(1) magnitude_units_parts [OF m(2)] magnitude_units_parts [OF n(2)] by simp
  next
    case False
    then have less: "e < e'" using assms m n by simp
    have "magnitude_units m < 2 ^ 52 * 2 ^ e"
    proof (cases "e = 0")
      case False
      have "(2 ^ 52 + f) * 2 ^ (e - 1) < 2 ^ 53 * 2 ^ (e - 1)" using m(2) by simp
      also have "\<dots> = 2 ^ 52 * 2 ^ e" using False by (simp add: power_eq_if)
      finally show ?thesis using False unfolding m(1) magnitude_units_parts [OF m(2)] by simp
    qed (use m(2) in \<open>unfold m(1) magnitude_units_parts [OF m(2)], simp\<close>)
    also have "\<dots> \<le> 2 ^ 52 * 2 ^ (e' - 1)" using less by (intro mult_le_mono2 power_increasing) simp_all
    also have "\<dots> \<le> (2 ^ 52 + f') * 2 ^ (e' - 1)" by (rule mult_le_mono1) simp
    also have "\<dots> = magnitude_units n" using less unfolding n(1) magnitude_units_parts [OF n(2)] by simp
    finally show ?thesis .
  qed
qed

lemma f64_order_units:
  assumes "\<not> f64_is_nan a" "\<not> f64_is_nan b"
  shows "f64_lt a b = (f64_units a < f64_units b)" "f64_eq a b = (f64_units a = f64_units b)"
proof -
  have m: "(magnitude_units x < magnitude_units y) = (x < y)" "(magnitude_units x = magnitude_units y) = (x = y)" for x y
    using magnitude_units_less [of x y] magnitude_units_less [of y x] by (metis less_irrefl linorder_neqE_nat less_asym)+
  have z: "magnitude_units 0 = 0" by (simp add: magnitude_units_def)
  have p: "(magnitude_units x = 0) = (x = 0)" "(0 < magnitude_units x) = (0 < x)" for x
    using m(2) [of x 0] m(1) [of 0 x] by (simp_all add: z)
  have q: "(- int x < int y) = (0 < x \<or> 0 < y)" "(- int x = int y) = (x = 0 \<and> y = 0)"
    "(int x = - int y) = (x = 0 \<and> y = 0)" for x y
    by auto
  show "f64_lt a b = (f64_units a < f64_units b)"
    using assms by (auto simp: f64_lt_def f64_rank_def f64_units_def m p q)
  show "f64_eq a b = (f64_units a = f64_units b)"
    using assms by (auto simp: f64_eq_def f64_rank_def f64_units_def m p q)
qed

lemma f64_of_int_order:
  assumes "small_int i" "small_int j"
  shows "f64_lt (f64_of_int i) (f64_of_int j) = (i < j)" "f64_eq (f64_of_int i) (f64_of_int j) = (i = j)"
  using assms by (simp_all add: f64_order_units f64_of_int_finite f64_of_int_parts)

subsection \<open>Lemmas: integers of more than 53 bits\<close>

lemma round_half_even_scale: "0 < k \<Longrightarrow> round_half_even (p * k) (q * k) = round_half_even p q"
  by (simp add: round_half_even_def Let_def mod_mult_mult2 mult.assoc [symmetric])

lemma round_magnitude_scale:
  assumes "53 \<le> bit_length n"
  shows "round_magnitude (n * 2 ^ k) 1 =
    min f64_inf_magnitude ((bit_length n - 53 + k) * 2 ^ 52 + round_half_even n (2 ^ (bit_length n - 53)))"
proof -
  have n: "n \<noteq> 0" using assms by (metis bit_length_zero not_numeral_le_zero)
  have s: "bit_length (n * 2 ^ k) - 53 = bit_length n - 53 + k" using assms bit_length_scale [OF n] by simp
  have "round_half_even (n * 2 ^ k) (2 ^ (bit_length n - 53) * 2 ^ k) = round_half_even n (2 ^ (bit_length n - 53))"
    by (rule round_half_even_scale) (rule zero_less_power, simp)
  then show ?thesis by (simp add: round_magnitude_def Let_def s power_add)
qed

lemmas round_integer = round_magnitude_scale [of _ 1074, folded units_per_one_def]

lemma round_i64_max: "round_magnitude ((2 ^ 63 - 1) * units_per_one) 1 = 1086 * 2 ^ 52"
proof -
  have "bit_length (2 ^ 63 - 1) = Suc 62" by (rule bit_length_unique) simp_all
  then show ?thesis by (subst round_integer) (simp_all add: round_half_even_def f64_inf_magnitude_def)
qed

lemma round_i64_min: "round_magnitude (2 ^ 63 * units_per_one) 1 = 1086 * 2 ^ 52"
proof -
  have "bit_length (2 ^ 63) = Suc 63" by (rule bit_length_unique) simp_all
  then show ?thesis by (subst round_integer) (simp_all add: round_half_even_def f64_inf_magnitude_def)
qed

lemma i64_max_units: "magnitude_units (1086 * 2 ^ 52) = 2 ^ 63 * units_per_one"
proof -
  have "magnitude_units (1086 * 2 ^ 52 + 0) = 2 ^ 52 * 2 ^ 1085" by (subst magnitude_units_parts) simp_all
  also have "\<dots> = 2 ^ 63 * 2 ^ 1074" unfolding power_add [symmetric] by simp
  finally show ?thesis unfolding units_per_one_def by simp
qed

text \<open>The smallest integer that is not exact.\<close>

lemma f64_of_int_inexact: "f64_of_int (2 ^ 53 + 1) = f64_of_int (2 ^ 53)"
proof -
  have "bit_length (2 ^ 53 + 1) = Suc 53" "bit_length (2 ^ 53) = Suc 53" by (rule bit_length_unique; simp)+
  then have "round_magnitude ((2 ^ 53 + 1) * units_per_one) 1 = round_magnitude (2 ^ 53 * units_per_one) 1"
    by (subst round_integer, simp, subst round_integer) (simp_all add: round_half_even_def)
  then show ?thesis by (simp add: f64_of_int_def f64_round_def)
qed

lemma small_int_in_i64_range:
  assumes "small_int i"
  shows "f64_le (f64_of_int i) (f64_of_int (2 ^ 63 - 1))" "f64_le (f64_of_int (- (2 ^ 63))) (f64_of_int i)"
proof -
  let ?M = "1086 * 2 ^ 52 :: nat"
  have mx: "f64_of_int (2 ^ 63 - 1) = f64_of_magnitude False ?M" "f64_of_int (- (2 ^ 63)) = f64_of_magnitude True ?M"
    using round_i64_max round_i64_min by (simp_all add: f64_of_int_def f64_round_def)
  have parts: "f64_negative (f64_of_magnitude neg ?M) = neg" "f64_magnitude (f64_of_magnitude neg ?M) = ?M" for neg
    by (rule f64_of_magnitude_parts; simp)+
  have nan: "\<not> f64_is_nan (f64_of_magnitude neg ?M)" for neg
    unfolding f64_is_nan_def parts by (simp add: f64_inf_magnitude_def)
  have units: "f64_units (f64_of_magnitude neg ?M) = (if neg then - (2 ^ 63) else 2 ^ 63) * int units_per_one" for neg
    unfolding f64_units_def parts i64_max_units by simp
  have le: "f64_le a b = (\<not> f64_lt b a)" if "\<not> f64_is_nan a" "\<not> f64_is_nan b" for a b
    using that by (auto simp: f64_le_def f64_lt_def)
  have i: "i \<le> 2 ^ 63" "- (2 ^ 63) \<le> i" using assms by (auto simp: small_int_def)
  show "f64_le (f64_of_int i) (f64_of_int (2 ^ 63 - 1))"
    unfolding mx le [OF f64_of_int_finite(1) [OF assms] nan] f64_order_units [OF nan f64_of_int_finite(1) [OF assms]]
      units f64_of_int_parts(2) [OF assms] using i by simp
  show "f64_le (f64_of_int (- (2 ^ 63))) (f64_of_int i)"
    unfolding mx le [OF nan f64_of_int_finite(1) [OF assms]] f64_order_units [OF f64_of_int_finite(1) [OF assms] nan]
      units f64_of_int_parts(2) [OF assms] using mult_right_mono [OF i(2), of "int units_per_one"] by simp
qed

end
