(* ===== verification/Comparators.thy ===== *)
theory Comparators
  imports Float64 "HOL-Library.Multiset"
begin

section \<open>Comparison functions and stable sorting\<close>

text \<open>
  \<^verbatim>\<open>std::cmp::Ordering\<close>, the comparisons of the basic types, and \<^verbatim>\<open>slice::sort_by\<close>, a stable sort that the
  standard library specifies for comparison functions that are total orders up to equivalence. The
  locale \<open>total_cmp\<close> states that requirement, relative to the values that occur; its lemmas give what
  the clients need: a sorted, stable permutation, and the least element of a running minimum.
\<close>

subsection \<open>Orderings\<close>

datatype Ordering = OrdLess | OrdEqual | OrdGreater

fun ord_reverse :: "Ordering \<Rightarrow> Ordering" where
  "ord_reverse OrdLess = OrdGreater"
| "ord_reverse OrdEqual = OrdEqual"
| "ord_reverse OrdGreater = OrdLess"

definition ord_cmp :: "'a::linorder \<Rightarrow> 'a \<Rightarrow> Ordering" where
  "ord_cmp a b = (if a < b then OrdLess else if a = b then OrdEqual else OrdGreater)"

text \<open>Strings are compared byte by byte.\<close>

fun str_cmp :: "string \<Rightarrow> string \<Rightarrow> Ordering" where
  "str_cmp [] [] = OrdEqual"
| "str_cmp [] (_ # _) = OrdLess"
| "str_cmp (_ # _) [] = OrdGreater"
| "str_cmp (a # as) (b # bs) =
     (case ord_cmp (of_char a :: nat) (of_char b) of OrdEqual \<Rightarrow> str_cmp as bs | r \<Rightarrow> r)"

text \<open>\<^verbatim>\<open>partial_cmp(..).unwrap_or(Equal)\<close>.\<close>

definition f64_cmp :: "f64 \<Rightarrow> f64 \<Rightarrow> Ordering" where
  "f64_cmp a b = (if f64_lt a b then OrdLess else if f64_lt b a then OrdGreater else OrdEqual)"

subsection \<open>Sorting\<close>

fun insort_by :: "('a \<Rightarrow> 'a \<Rightarrow> Ordering) \<Rightarrow> 'a \<Rightarrow> 'a list \<Rightarrow> 'a list" where
  "insort_by cmp x [] = [x]"
| "insort_by cmp x (y # ys) = (if cmp x y = OrdGreater then y # insort_by cmp x ys else x # y # ys)"

definition sort_by :: "('a \<Rightarrow> 'a \<Rightarrow> Ordering) \<Rightarrow> 'a list \<Rightarrow> 'a list" where
  "sort_by cmp xs = foldr (insort_by cmp) xs []"

lemma mset_insort_by [simp]: "mset (insort_by cmp x xs) = add_mset x (mset xs)"
  by (induction xs) auto

lemma sort_by_simps [simp]: "sort_by cmp [] = []" "sort_by cmp (x # xs) = insort_by cmp x (sort_by cmp xs)"
  by (simp_all add: sort_by_def)

lemma mset_sort_by [simp]: "mset (sort_by cmp xs) = mset xs"
  by (induction xs) auto

lemma set_sort_by [simp]: "set (sort_by cmp xs) = set xs"
  by (metis mset_sort_by set_mset_mset)

lemma length_sort_by [simp]: "length (sort_by cmp xs) = length xs"
  by (metis mset_sort_by size_mset)

subsection \<open>Total comparisons\<close>

locale total_cmp =
  fixes cmp :: "'a \<Rightarrow> 'a \<Rightarrow> Ordering" and dom :: "'a \<Rightarrow> bool"
  assumes cmp_refl: "dom a \<Longrightarrow> cmp a a = OrdEqual"
    and cmp_flip: "dom a \<Longrightarrow> dom b \<Longrightarrow> cmp b a = ord_reverse (cmp a b)"
    and cmp_trans: "dom a \<Longrightarrow> dom b \<Longrightarrow> dom c \<Longrightarrow> cmp a b \<noteq> OrdGreater \<Longrightarrow> cmp b c \<noteq> OrdGreater \<Longrightarrow>
      cmp a c \<noteq> OrdGreater"
begin

lemma not_greater: "dom a \<Longrightarrow> dom b \<Longrightarrow> cmp a b = OrdGreater \<Longrightarrow> cmp b a \<noteq> OrdGreater"
  using cmp_flip [of a b] by simp

lemma equal_trans:
  assumes "dom a" "dom b" "dom c" "cmp a b = OrdEqual"
  shows "cmp a c = cmp b c"
proof -
  have ba: "cmp b a = OrdEqual" using cmp_flip [OF assms(1,2)] assms(4) by simp
  have "(cmp a c \<noteq> OrdGreater) = (cmp b c \<noteq> OrdGreater)" "(cmp c a \<noteq> OrdGreater) = (cmp c b \<noteq> OrdGreater)"
    using cmp_trans [of a b c] cmp_trans [of b a c] cmp_trans [of c a b] cmp_trans [of c b a] assms ba by auto
  then show ?thesis
    using cmp_flip [OF assms(1,3)] cmp_flip [OF assms(2,3)] by (cases "cmp a c"; cases "cmp b c") auto
qed

lemma insort_by_sorted:
  assumes "dom x" "\<forall>y \<in> set ys. dom y" "sorted_wrt (\<lambda>a b. cmp a b \<noteq> OrdGreater) ys"
  shows "sorted_wrt (\<lambda>a b. cmp a b \<noteq> OrdGreater) (insort_by cmp x ys)"
  using assms
proof (induction ys)
  case (Cons y ys)
  have s: "set (insort_by cmp x ys) = insert x (set ys)" by (metis mset_insort_by set_mset_add_mset_insert set_mset_mset)
  show ?case
  proof (cases "cmp x y = OrdGreater")
    case True
    then show ?thesis using Cons not_greater [of x y] by (auto simp: s)
  next
    case False
    have "cmp x z \<noteq> OrdGreater" if "z \<in> set ys" for z
      using that Cons.prems False by (intro cmp_trans [of x y z]) auto
    then show ?thesis using Cons.prems False by auto
  qed
qed simp

lemma sort_by_sorted:
  assumes "\<forall>y \<in> set xs. dom y"
  shows "sorted_wrt (\<lambda>a b. cmp a b \<noteq> OrdGreater) (sort_by cmp xs)"
  using assms
proof (induction xs)
  case (Cons x xs)
  then show ?case using insort_by_sorted [of x "sort_by cmp xs"] by auto
qed simp

text \<open>Equivalent elements keep their order.\<close>

lemma insort_by_stable:
  assumes "dom a" "dom x" "\<forall>y \<in> set ys. dom y"
  shows "filter (\<lambda>y. cmp a y = OrdEqual) (insort_by cmp x ys) = filter (\<lambda>y. cmp a y = OrdEqual) (x # ys)"
  using assms
proof (induction ys)
  case (Cons y ys)
  have "cmp a y \<noteq> OrdEqual" if "cmp x y = OrdGreater" "cmp a x = OrdEqual"
    using that equal_trans [of a x y] Cons.prems by auto
  then show ?case using Cons by auto
qed simp

lemma sort_by_stable:
  assumes "dom a" "\<forall>y \<in> set xs. dom y"
  shows "filter (\<lambda>y. cmp a y = OrdEqual) (sort_by cmp xs) = filter (\<lambda>y. cmp a y = OrdEqual) xs"
  using assms
proof (induction xs)
  case (Cons x xs)
  then show ?case using insort_by_stable [of a x "sort_by cmp xs"] by simp
qed simp

text \<open>A running minimum ends at a least element.\<close>

lemma fold_least:
  assumes "dom m" "\<forall>y \<in> set ys. dom y"
  shows "let r = fold (\<lambda>v m. if cmp v m = OrdLess then v else m) ys m
    in r \<in> insert m (set ys) \<and> (\<forall>y \<in> insert m (set ys). cmp y r \<noteq> OrdLess)"
  using assms
proof (induction ys arbitrary: m)
  case Nil
  then show ?case by (simp add: cmp_refl)
next
  case (Cons y ys)
  define n where "n = (if cmp y m = OrdLess then y else m)"
  define r where "r = fold (\<lambda>v m. if cmp v m = OrdLess then v else m) ys n"
  have dn: "dom n" using Cons.prems by (simp add: n_def)
  have IH: "r \<in> insert n (set ys)" "\<forall>z \<in> insert n (set ys). cmp z r \<noteq> OrdLess"
    using Cons.IH [of n] dn Cons.prems by (simp_all add: r_def Let_def)
  have dr: "dom r" using IH(1) dn Cons.prems by auto
  have le: "cmp r z \<noteq> OrdGreater" if "z \<in> insert n (set ys)" for z
    using IH(2) that cmp_flip [of z r] dn dr Cons.prems by (cases "cmp z r") auto
  have nm: "cmp n z \<noteq> OrdGreater" if "z = m \<or> z = y" for z
    using that Cons.prems cmp_flip [of y m] cmp_refl by (cases "cmp y m") (auto simp: n_def)
  have "cmp z r \<noteq> OrdLess" if z: "z \<in> {m, y}" for z
  proof -
    have "dom z" using z Cons.prems by auto
    then have "cmp r z \<noteq> OrdGreater" using cmp_trans [OF dr dn _ le [of n] nm] z by auto
    then show ?thesis using cmp_flip [OF \<open>dom z\<close> dr] by auto
  qed
  then show ?case using IH by (auto simp: r_def [symmetric] n_def [symmetric] Let_def) (auto simp: n_def)
qed

text \<open>The reverse of a total comparison is total.\<close>

lemma reversed: "total_cmp (\<lambda>a b. ord_reverse (cmp a b)) dom"
proof
  show "ord_reverse (cmp a a) = OrdEqual" if "dom a" for a using cmp_refl [OF that] by simp
  show "ord_reverse (cmp b a) = ord_reverse (ord_reverse (cmp a b))" if "dom a" "dom b" for a b
    using cmp_flip [OF that] by simp
  show "ord_reverse (cmp a c) \<noteq> OrdGreater"
    if "dom a" "dom b" "dom c" "ord_reverse (cmp a b) \<noteq> OrdGreater" "ord_reverse (cmp b c) \<noteq> OrdGreater" for a b c
    using that cmp_trans [of c b a] cmp_flip [of a b] cmp_flip [of b c] cmp_flip [of a c] by auto
qed

end

subsection \<open>The basic types\<close>

interpretation linear: total_cmp ord_cmp "\<lambda>_. True"
  by unfold_locales (auto simp: ord_cmp_def split: if_splits)

lemma str_cmp_refl: "str_cmp a a = OrdEqual"
  by (induction a) (auto simp: ord_cmp_def)

lemma str_cmp_flip: "str_cmp b a = ord_reverse (str_cmp a b)"
  by (induction a b rule: str_cmp.induct) (auto simp: ord_cmp_def)

lemma str_cmp_equal: "str_cmp a b = OrdEqual \<longleftrightarrow> a = b"
  by (induction a b rule: str_cmp.induct) (auto simp: ord_cmp_def)

lemma str_cmp_trans: "str_cmp a b \<noteq> OrdGreater \<Longrightarrow> str_cmp b c \<noteq> OrdGreater \<Longrightarrow> str_cmp a c \<noteq> OrdGreater"
proof (induction a b arbitrary: c rule: str_cmp.induct)
  case (2 b bs)
  then show ?case by (cases c) auto
next
  case (4 a as b bs)
  then show ?case by (cases c) (auto simp: ord_cmp_def split: if_splits Ordering.splits)
qed (auto split: list.splits)

interpretation strings: total_cmp str_cmp "\<lambda>_. True"
  by unfold_locales (rule str_cmp_refl str_cmp_flip, rule str_cmp_flip, rule str_cmp_trans)

interpretation floats: total_cmp f64_cmp "\<lambda>x. \<not> f64_is_nan x"
  by unfold_locales (auto simp: f64_cmp_def f64_lt_def split: if_splits)

end
