(* ===== verification/Expression_Props.thy ===== *)
theory Expression_Props
  imports Expressions
begin

section \<open>Correctness of expressions and aggregates\<close>

text \<open>
  What the evaluator of the theory \<^verbatim>\<open>Expressions\<close> computes: the laws of the three-valued logic and where
  the operators depart from it, the comparisons, the kinds of the results, the casts, and the aggregates.
\<close>

subsection \<open>Definitions for the lemmas\<close>

text \<open>The order of the kinds, the comparison within a kind, and the values on which it is total.\<close>

fun kind_rank :: "Value \<Rightarrow> nat" where
  "kind_rank NullV = 0" | "kind_rank (BooleanV _) = 1" | "kind_rank (ListV _) = 2" | "kind_rank (TimestampV _) = 3"
| "kind_rank (IntegerV _) = 4" | "kind_rank (FloatV _) = 5" | "kind_rank (StringV _) = 6"

definition same_kind_cmp :: "Value \<Rightarrow> Value \<Rightarrow> Ordering" where
  "same_kind_cmp x y =
     (case (x, y) of
        (IntegerV a, IntegerV b) \<Rightarrow> ord_cmp (sint a) (sint b)
      | (FloatV a, FloatV b) \<Rightarrow> f64_cmp a b
      | (StringV a, StringV b) \<Rightarrow> str_cmp a b
      | (BooleanV a, BooleanV b) \<Rightarrow> ord_cmp a b
      | (TimestampV a, TimestampV b) \<Rightarrow> ord_cmp a b
      | _ \<Rightarrow> OrdEqual)"

definition not_nan :: "Value \<Rightarrow> bool" where
  "not_nan v = (case v of FloatV f \<Rightarrow> \<not> f64_is_nan f | _ \<Rightarrow> True)"

definition kind_cmp :: "Value \<Rightarrow> Value \<Rightarrow> Ordering" where
  "kind_cmp a b = (case ord_cmp (kind_rank a) (kind_rank b) of OrdEqual \<Rightarrow> same_kind_cmp a b | r \<Rightarrow> r)"

text \<open>The truth values in the order of Kleene's logic.\<close>

fun tvl_rank :: "ThreeValuedLogic \<Rightarrow> nat" where
  "tvl_rank TFalse = 0" | "tvl_rank TUnknown = 1" | "tvl_rank TTrue = 2"

text \<open>Values and contexts without short rows, and the integers of a column.\<close>

definition context_wf :: "EvaluationContext \<Rightarrow> bool" where
  "context_wf c \<longleftrightarrow>
     (\<forall>r cs. ec_left_row c = Some r \<longrightarrow> ec_left_columns c = Some cs \<longrightarrow> length cs \<le> length r) \<and>
     (\<forall>r cs. ec_right_row c = Some r \<longrightarrow> ec_right_columns c = Some cs \<longrightarrow> length cs \<le> length r)"

definition subquery_wf :: "QueryResult res \<Rightarrow> bool" where
  "subquery_wf r = (returns r \<and> (\<forall>q. r = Ok q \<longrightarrow> [] \<notin> set (qr_rows q)))"

definition integer_of :: "Value \<Rightarrow> int" where
  "integer_of v = (case v of IntegerV i \<Rightarrow> sint i | _ \<Rightarrow> 0)"

definition is_integer_or_null :: "Value \<Rightarrow> bool" where
  "is_integer_or_null v = (case v of IntegerV _ \<Rightarrow> True | NullV \<Rightarrow> True | _ \<Rightarrow> False)"

text \<open>The only panics that evaluation adds to those of its subqueries and short rows.\<close>

definition safe :: "'a res \<Rightarrow> bool" where
  "safe r = (returns r \<or> r = Panic ''attempt to divide with overflow'')"

text \<open>A library without regular expressions and fraction digits, whose subqueries return no rows.\<close>

definition plain_lib :: expr_lib where
  "plain_lib = \<lparr>el_regex = (\<lambda>_ _. None), el_float_display = (\<lambda>f. show_i64 (f64_to_i64 f)),
     el_float_debug = (\<lambda>f. show_i64 (f64_to_i64 f)), el_float_parse = (\<lambda>s. map_option f64_of_i64 (parse_i64 s)),
     el_time_display = show_int, el_time_debug = show_int,
     el_subquery = (\<lambda>_ _ _. Ok \<lparr>qr_rows = [], qr_column_names = []\<rparr>)\<rparr>"

text \<open>The kinds an operator gives when it does not give NULL.\<close>

definition result_kinds :: "BinaryOperator \<Rightarrow> Value \<Rightarrow> bool" where
  "result_kinds op v =
     (case op of
        OpConcatenate \<Rightarrow> kind_rank v = 6
      | OpAdd \<Rightarrow> kind_rank v \<in> {4, 5, 6}
      | OpSubtract \<Rightarrow> kind_rank v \<in> {4, 5}
      | OpMultiply \<Rightarrow> kind_rank v \<in> {4, 5}
      | OpDivide \<Rightarrow> kind_rank v \<in> {4, 5}
      | _ \<Rightarrow> kind_rank v = 1)"

subsection \<open>Lemmas: comparisons\<close>

lemma kind_rank_iff:
  "kind_rank v = 1 \<longleftrightarrow> (\<exists>b. v = BooleanV b)" "kind_rank v = Suc 0 \<longleftrightarrow> (\<exists>b. v = BooleanV b)"
  "kind_rank v = 3 \<longleftrightarrow> (\<exists>t. v = TimestampV t)" "kind_rank v = 4 \<longleftrightarrow> (\<exists>i. v = IntegerV i)"
  "kind_rank v = 5 \<longleftrightarrow> (\<exists>f. v = FloatV f)" "kind_rank v = 6 \<longleftrightarrow> (\<exists>s. v = StringV s)"
  by (cases v; simp)+

interpretation kinds: total_cmp kind_cmp not_nan
proof
  show "kind_cmp a a = OrdEqual" if "not_nan a" for a
    using that by (cases a) (auto simp: kind_cmp_def same_kind_cmp_def not_nan_def linear.cmp_refl str_cmp_refl floats.cmp_refl)
  have flip: "same_kind_cmp b a = ord_reverse (same_kind_cmp a b)" if "not_nan a" "not_nan b" for a b
    using that
    by (cases a; cases b) (auto simp: same_kind_cmp_def not_nan_def intro: linear.cmp_flip str_cmp_flip floats.cmp_flip)
  show "kind_cmp b a = ord_reverse (kind_cmp a b)" if "not_nan a" "not_nan b" for a b
    using flip [OF that] by (auto simp: kind_cmp_def ord_cmp_def)
  have trans: "same_kind_cmp a c \<noteq> OrdGreater"
    if h: "not_nan a" "not_nan b" "not_nan c" "kind_rank b = kind_rank a" "kind_rank c = kind_rank a"
      "same_kind_cmp a b \<noteq> OrdGreater" "same_kind_cmp b c \<noteq> OrdGreater" for a b c
  proof (cases a)
    case (IntegerV x)
    then show ?thesis using h(4-7) by (auto simp: kind_rank_iff same_kind_cmp_def ord_cmp_def split: if_splits)
  next
    case (FloatV x)
    then obtain y z where "b = FloatV y" "c = FloatV z" using h(4,5) by (auto simp: kind_rank_iff)
    then show ?thesis using FloatV h floats.cmp_trans [of x y z] by (simp add: same_kind_cmp_def not_nan_def)
  next
    case (StringV x)
    then obtain y z where "b = StringV y" "c = StringV z" using h(4,5) by (auto simp: kind_rank_iff)
    then show ?thesis using StringV h str_cmp_trans [of x y z] by (simp add: same_kind_cmp_def)
  next
    case (BooleanV x)
    then show ?thesis using h(4-7) by (auto simp: kind_rank_iff same_kind_cmp_def ord_cmp_def split: if_splits)
  next
    case (TimestampV x)
    then show ?thesis using h(4-7) by (auto simp: kind_rank_iff same_kind_cmp_def ord_cmp_def split: if_splits)
  qed (simp_all add: same_kind_cmp_def)
  show "kind_cmp a c \<noteq> OrdGreater"
    if "not_nan a" "not_nan b" "not_nan c" "kind_cmp a b \<noteq> OrdGreater" "kind_cmp b c \<noteq> OrdGreater" for a b c
    using that trans [OF that(1-3)] by (auto simp: kind_cmp_def ord_cmp_def split: if_splits)
qed

lemma compare_values_kinds: "a \<noteq> NullV \<Longrightarrow> b \<noteq> NullV \<Longrightarrow> compare_values a b = kind_cmp a b"
  by (cases a; cases b) (simp_all add: kind_cmp_def same_kind_cmp_def ord_cmp_def)

interpretation aggregate_order: total_cmp compare_values "\<lambda>v. v \<noteq> NullV \<and> not_nan v"
proof
  fix a b c
  show "compare_values a a = OrdEqual" if "a \<noteq> NullV \<and> not_nan a"
    using that kinds.cmp_refl [of a] by (simp add: compare_values_kinds)
  show "compare_values b a = ord_reverse (compare_values a b)" if "a \<noteq> NullV \<and> not_nan a" "b \<noteq> NullV \<and> not_nan b"
    using that kinds.cmp_flip [of a b] by (simp add: compare_values_kinds)
  show "compare_values a c \<noteq> OrdGreater" if "a \<noteq> NullV \<and> not_nan a" "b \<noteq> NullV \<and> not_nan b" "c \<noteq> NullV \<and> not_nan c"
      "compare_values a b \<noteq> OrdGreater" "compare_values b c \<noteq> OrdGreater"
    using that kinds.cmp_trans [of a b c] by (simp add: compare_values_kinds)
qed

lemma same_kind:
  "kind_rank (BooleanV b) = kind_rank v \<Longrightarrow> \<exists>c. v = BooleanV c" "kind_rank (IntegerV i) = kind_rank v \<Longrightarrow> \<exists>j. v = IntegerV j"
  "kind_rank (FloatV f) = kind_rank v \<Longrightarrow> \<exists>g. v = FloatV g" "kind_rank (StringV s) = kind_rank v \<Longrightarrow> \<exists>t. v = StringV t"
  by (cases v; simp)+

lemmas comparison_defs = less_than_result_def greater_than_result_def evaluate_equals_def bool_value_def kind_cmp_def
  same_kind_cmp_def ord_cmp_def

lemma comparison_results:
  assumes "kind_rank l = kind_rank r" "kind_rank l \<in> {1, 4, 5, 6}" "not_nan l" "not_nan r"
  shows "less_than_result l r = Some (kind_cmp l r = OrdLess) \<and> evaluate_equals l r = Ok (BooleanV (kind_cmp l r = OrdEqual)) \<and>
    greater_than_result l r = Some (kind_cmp l r = OrdGreater)"
proof (cases l)
  case (BooleanV x)
  then obtain y where "r = BooleanV y" using assms(1) same_kind(1) by blast
  then show ?thesis using BooleanV by (cases x; cases y) (simp_all add: comparison_defs)
next
  case (IntegerV x)
  then obtain y where "r = IntegerV y" using assms(1) same_kind(2) by blast
  then show ?thesis using IntegerV by (auto simp: comparison_defs intro: signed_word_eqI)
next
  case (FloatV x)
  then obtain y where r: "r = FloatV y" using assms(1) same_kind(3) by blast
  then show ?thesis
    using FloatV assms(3,4) f64_cases [of x y]
    by (auto simp: comparison_defs f64_cmp_def not_nan_def f64_lt_def f64_eq_def)
next
  case (StringV x)
  then obtain y where "r = StringV y" using assms(1) same_kind(4) by blast
  then show ?thesis using StringV by (simp add: comparison_defs str_cmp_equal)
qed (use assms(2) in auto)

subsection \<open>Lemmas: kinds of results\<close>

lemma bool_results:
  "\<exists>b. evaluate_equals l r = Ok (BooleanV b)" "\<exists>b. evaluate_not_equals l r = Ok (BooleanV b)"
  "\<exists>b. evaluate_is l r = Ok (BooleanV b)" "\<exists>b. evaluate_is_not l r = Ok (BooleanV b)"
  "\<exists>b. any_equal l vs = Ok (BooleanV b)"
proof -
  have eq: "\<exists>b. evaluate_equals l r = Ok (BooleanV b)" for l r
  proof -
    have "\<exists>b. evaluate_equals l r = bool_value b" by (cases l; cases r; simp add: evaluate_equals_def; blast)
    then show ?thesis by (simp add: bool_value_def)
  qed
  then have isb: "\<exists>b. evaluate_is l r = Ok (BooleanV b)" unfolding evaluate_is_def bool_value_def by metis
  show "\<exists>b. evaluate_equals l r = Ok (BooleanV b)" "\<exists>b. evaluate_is l r = Ok (BooleanV b)" by (rule eq, rule isb)
  show "\<exists>b. evaluate_not_equals l r = Ok (BooleanV b)" "\<exists>b. evaluate_is_not l r = Ok (BooleanV b)"
    using eq [of l r] isb by (auto simp: evaluate_not_equals_def evaluate_is_not_def bool_value_def)
  show "\<exists>b. any_equal l vs = Ok (BooleanV b)"
  proof (induction vs)
    case (Cons v vs)
    then show ?case using eq [of l v] by (auto simp: bool_value_def)
  qed (auto simp: bool_value_def)
qed

lemma operation_kinds:
  "evaluate_addition l r = Ok v \<Longrightarrow> kind_rank v \<in> {4, 5, 6}"
  "evaluate_subtraction l r = Ok v \<Longrightarrow> kind_rank v \<in> {4, 5}"
  "evaluate_multiplication l r = Ok v \<Longrightarrow> kind_rank v \<in> {4, 5}"
  "evaluate_division l r = Ok v \<Longrightarrow> v = NullV \<or> kind_rank v \<in> {4, 5}"
  "evaluate_concatenation L l r = Ok v \<Longrightarrow> kind_rank v = 6"
  "evaluate_equals l r = Ok v \<Longrightarrow> kind_rank v = 1" "evaluate_not_equals l r = Ok v \<Longrightarrow> kind_rank v = 1"
  "evaluate_less_than l r = Ok v \<Longrightarrow> v = NullV \<or> kind_rank v = 1"
  "evaluate_greater_than l r = Ok v \<Longrightarrow> v = NullV \<or> kind_rank v = 1"
  "evaluate_less_than_or_equals l r = Ok v \<Longrightarrow> v = NullV \<or> kind_rank v = 1"
  "evaluate_greater_than_or_equals l r = Ok v \<Longrightarrow> v = NullV \<or> kind_rank v = 1"
  "evaluate_like L l r = Ok v \<Longrightarrow> kind_rank v = 1" "evaluate_ilike L l r = Ok v \<Longrightarrow> kind_rank v = 1"
  "evaluate_in l r = Ok v \<Longrightarrow> kind_rank v = 1"
  "evaluate_is l r = Ok v \<Longrightarrow> kind_rank v = 1" "evaluate_is_not l r = Ok v \<Longrightarrow> kind_rank v = 1"
  "tvl_to_value t = NullV \<or> kind_rank (tvl_to_value t) = 1"
proof -
  note eq = bool_results(1) [of l r]
  show "evaluate_equals l r = Ok v \<Longrightarrow> kind_rank v = 1" "evaluate_not_equals l r = Ok v \<Longrightarrow> kind_rank v = 1"
    "evaluate_is l r = Ok v \<Longrightarrow> kind_rank v = 1" "evaluate_is_not l r = Ok v \<Longrightarrow> kind_rank v = 1"
    using bool_results(1-4) [of l r] by auto
  show "evaluate_less_than l r = Ok v \<Longrightarrow> v = NullV \<or> kind_rank v = 1"
    "evaluate_greater_than l r = Ok v \<Longrightarrow> v = NullV \<or> kind_rank v = 1"
    by (auto simp: evaluate_less_than_def evaluate_greater_than_def option_value_def bool_value_def split: option.splits)
  show "evaluate_less_than_or_equals l r = Ok v \<Longrightarrow> v = NullV \<or> kind_rank v = 1"
    "evaluate_greater_than_or_equals l r = Ok v \<Longrightarrow> v = NullV \<or> kind_rank v = 1"
    using eq by (auto simp: evaluate_less_than_or_equals_def evaluate_greater_than_or_equals_def evaluate_less_than_def
        option_value_def bool_value_def split: option.splits)
  show "evaluate_in l r = Ok v \<Longrightarrow> kind_rank v = 1"
    using bool_results(5) [of l "case r of ListV vs \<Rightarrow> vs | _ \<Rightarrow> []"]
    by (auto simp: evaluate_in_def bool_value_def split: Value.splits)
  show "tvl_to_value t = NullV \<or> kind_rank (tvl_to_value t) = 1" by (cases t) auto
  show "evaluate_like L l r = Ok v \<Longrightarrow> kind_rank v = 1" "evaluate_ilike L l r = Ok v \<Longrightarrow> kind_rank v = 1"
    by (cases l; cases r; auto simp: bool_value_def split: option.splits)+
qed (auto simp: evaluate_addition_def evaluate_subtraction_def evaluate_multiplication_def evaluate_division_def
    evaluate_concatenation_def res_bind_Ok_iff split: Value.splits if_splits)

subsection \<open>Lemmas: texts of integers\<close>

lemma parse_show_i64: "parse_i64 (show_i64 w) = Some w"
proof -
  have b: "- (2 ^ 63) \<le> sint w" "sint w < 2 ^ 63" using sint_range_size [of w] by (simp_all add: word_size)
  have digits: "c \<noteq> CHR ''-'' \<and> c \<noteq> CHR ''+''" if "is_ascii_digit c" for c
    using that by (auto simp: is_ascii_digit_def)
  show ?thesis
  proof (cases "sint w < 0")
    case True
    then have "parse_digits (2 ^ 63 + 1) 0 (show_nat (nat (- sint w))) = Some (nat (- sint w))"
      using b by (intro parse_digits_show_nat) simp
    then show ?thesis using True by (simp add: parse_i64_def show_i64_def show_int_def)
  next
    case False
    obtain c cs where s: "show_nat (nat (sint w)) = c # cs" using show_nat_nonempty by (meson neq_Nil_conv)
    then have "is_ascii_digit c" using show_nat_digits [of c "nat (sint w)"] by simp
    moreover have "parse_digits (2 ^ 63) 0 (show_nat (nat (sint w))) = Some (nat (sint w))"
      using b by (intro parse_digits_show_nat) simp
    ultimately show ?thesis using False digits [of c] s by (simp add: parse_i64_def show_i64_def show_int_def)
  qed
qed

subsection \<open>Logic, comparisons and kinds\<close>

text \<open>
  C23. The logical operators. The three-valued AND, OR and NOT are those of Kleene's logic, minimum,
  maximum and complement in the order false, unknown, true. The operators AND and OR on values agree
  with them on all operands except NULL with a deciding one: NULL AND false and NULL OR true give NULL.
\<close>

theorem logic_operators_kleene:
  "tvl_rank (tvl_and a b) = min (tvl_rank a) (tvl_rank b) \<and>
   tvl_rank (tvl_or a b) = max (tvl_rank a) (tvl_rank b) \<and>
   tvl_rank (tvl_not a) = 2 - tvl_rank a \<and>
   (evaluate_binary_operation L OpAnd l r = Ok (tvl_to_value (tvl_and (tvl_from_value l) (tvl_from_value r))) \<longleftrightarrow>
      \<not> (l = NullV \<and> tvl_from_value r = TFalse \<or> r = NullV \<and> tvl_from_value l = TFalse)) \<and>
   (evaluate_binary_operation L OpOr l r = Ok (tvl_to_value (tvl_or (tvl_from_value l) (tvl_from_value r))) \<longleftrightarrow>
      \<not> (l = NullV \<and> tvl_from_value r = TTrue \<or> r = NullV \<and> tvl_from_value l = TTrue))"
proof -
  have "tvl_rank (tvl_and a b) = min (tvl_rank a) (tvl_rank b)" "tvl_rank (tvl_or a b) = max (tvl_rank a) (tvl_rank b)"
    "tvl_rank (tvl_not a) = 2 - tvl_rank a"
    by (cases a; cases b; simp)+
  moreover have "evaluate_binary_operation L OpAnd l r = Ok (tvl_to_value (tvl_and (tvl_from_value l) (tvl_from_value r))) \<longleftrightarrow>
      \<not> (l = NullV \<and> tvl_from_value r = TFalse \<or> r = NullV \<and> tvl_from_value l = TFalse)"
    by (cases "l = NullV"; cases "r = NullV"; cases "tvl_from_value l"; cases "tvl_from_value r")
      (simp_all add: evaluate_binary_operation_def handle_null_in_binary_operation_def)
  moreover have "evaluate_binary_operation L OpOr l r = Ok (tvl_to_value (tvl_or (tvl_from_value l) (tvl_from_value r))) \<longleftrightarrow>
      \<not> (l = NullV \<and> tvl_from_value r = TTrue \<or> r = NullV \<and> tvl_from_value l = TTrue)"
    by (cases "l = NullV"; cases "r = NullV"; cases "tvl_from_value l"; cases "tvl_from_value r")
      (simp_all add: evaluate_binary_operation_def handle_null_in_binary_operation_def)
  ultimately show ?thesis by blast
qed

text \<open>
  C12. The comparisons. On two integers, strings, booleans, or floats that are not NaN, the six operators
  are those of one total order, in which equivalent values are equal.
\<close>

theorem comparisons_total_order:
  assumes "kind_rank l = kind_rank r" "kind_rank l \<in> {1, 4, 5, 6}" "not_nan l" "not_nan r"
  shows "evaluate_binary_operation L OpLessThan l r = Ok (BooleanV (kind_cmp l r = OrdLess)) \<and>
    evaluate_binary_operation L OpEquals l r = Ok (BooleanV (kind_cmp l r = OrdEqual)) \<and>
    evaluate_binary_operation L OpNotEquals l r = Ok (BooleanV (kind_cmp l r \<noteq> OrdEqual)) \<and>
    evaluate_binary_operation L OpGreaterThan l r = Ok (BooleanV (kind_cmp l r = OrdGreater)) \<and>
    evaluate_binary_operation L OpLessThanOrEquals l r = Ok (BooleanV (kind_cmp l r \<noteq> OrdGreater)) \<and>
    evaluate_binary_operation L OpGreaterThanOrEquals l r = Ok (BooleanV (kind_cmp l r \<noteq> OrdLess)) \<and>
    kind_cmp r l = ord_reverse (kind_cmp l r)"
proof -
  have k: "l \<noteq> NullV" "r \<noteq> NullV" using assms(1,2) by auto
  have "less_than_result l r = Some (kind_cmp l r = OrdLess) \<and> evaluate_equals l r = Ok (BooleanV (kind_cmp l r = OrdEqual)) \<and>
      greater_than_result l r = Some (kind_cmp l r = OrdGreater)"
    using assms by (rule comparison_results)
  then show ?thesis
    using k kinds.cmp_flip [OF assms(3,4)]
    by (cases "kind_cmp l r")
      (simp_all add: evaluate_binary_operation_def evaluate_less_than_def evaluate_greater_than_def option_value_def
        evaluate_not_equals_def evaluate_less_than_or_equals_def evaluate_greater_than_or_equals_def bool_value_def)
qed

theorem comparisons_total_order_witness:
  "evaluate_binary_operation plain_lib OpLessThan (StringV ''ab'') (StringV ''b'') = Ok (BooleanV True) \<and>
   evaluate_binary_operation plain_lib OpGreaterThanOrEquals (StringV ''ab'') (StringV ''b'') = Ok (BooleanV False)"
  using comparisons_total_order [of "StringV ''ab''" "StringV ''b''" plain_lib]
  by (simp add: not_nan_def kind_cmp_def same_kind_cmp_def ord_cmp_def)

text \<open>
  Where the comparisons are not an order: a timestamp does not equal itself, although it is neither less
  nor greater than itself, and a NaN is at least every float.
\<close>

theorem comparison_anomalies:
  "evaluate_binary_operation L OpEquals (TimestampV t) (TimestampV t) = Ok (BooleanV False) \<and>
   evaluate_binary_operation L OpLessThanOrEquals (TimestampV t) (TimestampV t) = Ok (BooleanV False) \<and>
   evaluate_binary_operation L OpGreaterThanOrEquals (TimestampV t) (TimestampV t) = Ok (BooleanV True) \<and>
   (f64_is_nan x \<longrightarrow> evaluate_binary_operation L OpGreaterThanOrEquals (FloatV x) (FloatV y) = Ok (BooleanV True))"
  by (simp add: evaluate_binary_operation_def evaluate_less_than_def less_than_result_def option_value_def
      evaluate_equals_def evaluate_less_than_or_equals_def evaluate_greater_than_or_equals_def bool_value_def f64_lt_def)

text \<open>
  C24. The kinds of results. Comparisons and logical operators give a boolean or NULL, concatenation a
  string or NULL, arithmetic a number or NULL, and addition a number, a string or NULL.
\<close>

theorem binary_operation_kinds:
  assumes "evaluate_binary_operation L op l r = Ok v"
  shows "v = NullV \<or> result_kinds op v"
proof (cases "op \<noteq> OpIs \<and> op \<noteq> OpIsNot \<and> (l = NullV \<or> r = NullV)")
  case True
  then show ?thesis using assms by (auto simp: evaluate_binary_operation_def handle_null_in_binary_operation_def split: if_splits)
next
  case False
  note step = assms [unfolded evaluate_binary_operation_def if_not_P [OF False]]
  show ?thesis
    using step operation_kinds(17) by (cases op) (auto simp: result_kinds_def dest!: operation_kinds(1-16))
qed

theorem binary_operation_kinds_witness:
  "\<exists>v. evaluate_binary_operation plain_lib OpAdd (IntegerV 1) (IntegerV 2) = Ok v \<and> result_kinds OpAdd v"
proof -
  have "evaluate_binary_operation plain_lib OpAdd (IntegerV 1) (IntegerV 2) = Ok (IntegerV 3)"
    by (simp add: evaluate_binary_operation_def evaluate_addition_def)
  from binary_operation_kinds [OF this] this show ?thesis by blast
qed

subsection \<open>Casts\<close>

text \<open>
  An integer cast to a text and back is itself, for every 64-bit integer and every declared length.
\<close>

theorem cast_varchar_roundtrip:
  "evaluate L c (CastE (CastE (ValueE (IntegerV i)) (DataType_new (VarcharT n))) (DataType_new IntegerT)) = Ok (IntegerV i)"
  by (simp add: evaluate_cast_def DataType_new_def parse_show_i64)

subsection \<open>Aggregates\<close>

text \<open>The states of COUNT, MIN and MAX after a column.\<close>

lemma count_state:
  "fold (aggregate_update L) vs (CountState n False seen) =
     CountState (n + of_nat (length (filter (\<lambda>v. v \<noteq> NullV) vs))) False seen"
  by (induction vs arbitrary: n) (simp_all add: algebra_simps)

lemma count_distinct_state:
  assumes "distinct seen"
  shows "\<exists>seen'. fold (aggregate_update L) vs (CountState n True seen) =
      CountState (n + of_nat (length seen' - length seen)) True seen' \<and>
    length seen \<le> length seen' \<and> distinct seen' \<and> set seen' = set seen \<union> debug_value L ` {v \<in> set vs. v \<noteq> NullV}"
  using assms
proof (induction vs arbitrary: n seen)
  case (Cons v vs)
  show ?case
  proof (cases "v = NullV \<or> debug_value L v \<in> set seen")
    case True
    then show ?thesis using Cons.IH [OF Cons.prems, of n] by fastforce
  next
    case False
    have "distinct (debug_value L v # seen)" using False Cons.prems by simp
    from Cons.IH [OF this, of "n + 1"] obtain seen' where s:
      "fold (aggregate_update L) vs (CountState (n + 1) True (debug_value L v # seen)) =
        CountState (n + 1 + of_nat (length seen' - Suc (length seen))) True seen'"
      "Suc (length seen) \<le> length seen'" "distinct seen'"
      "set seen' = insert (debug_value L v) (set seen \<union> debug_value L ` {v \<in> set vs. v \<noteq> NullV})" by auto
    have "of_nat (length seen' - length seen) = (1 + of_nat (length seen' - Suc (length seen)) :: i64)"
      using s(2) by (metis Suc_diff_le diff_Suc_Suc of_nat_Suc)
    then show ?thesis using s False by (intro exI [of _ seen']) (auto simp: add.assoc)
  qed
qed simp

lemma min_state:
  "fold (aggregate_update L) vs (MinState m) = MinState (case (m, filter (\<lambda>v. v \<noteq> NullV) vs) of
      (None, []) \<Rightarrow> None
    | (None, v # ws) \<Rightarrow> Some (fold (\<lambda>v m. if compare_values v m = OrdLess then v else m) ws v)
    | (Some x, ws) \<Rightarrow> Some (fold (\<lambda>v m. if compare_values v m = OrdLess then v else m) ws x))"
  by (induction vs arbitrary: m) (auto split: option.splits list.splits)

lemma max_state:
  "fold (aggregate_update L) vs (MaxState m) = MaxState (case (m, filter (\<lambda>v. v \<noteq> NullV) vs) of
      (None, []) \<Rightarrow> None
    | (None, v # ws) \<Rightarrow> Some (fold (\<lambda>v m. if ord_reverse (compare_values v m) = OrdLess then v else m) ws v)
    | (Some x, ws) \<Rightarrow> Some (fold (\<lambda>v m. if ord_reverse (compare_values v m) = OrdLess then v else m) ws x))"
proof -
  have "(ord_reverse x = OrdLess) = (x = OrdGreater)" for x by (cases x) simp_all
  then show ?thesis by (induction vs arbitrary: m) (auto split: option.splits list.splits)
qed

lemma least_value:
  assumes "total_cmp cmp (\<lambda>v. v \<noteq> NullV \<and> not_nan v)" "\<forall>v \<in> set vs. not_nan v"
    and "x = (case filter (\<lambda>v. v \<noteq> NullV) vs of [] \<Rightarrow> NullV
      | v # ws \<Rightarrow> fold (\<lambda>v m. if cmp v m = OrdLess then v else m) ws v)"
  shows "(x = NullV) = (\<forall>v \<in> set vs. v = NullV)"
    and "x \<noteq> NullV \<Longrightarrow> x \<in> set vs \<and> (\<forall>v \<in> set vs. v \<noteq> NullV \<longrightarrow> cmp v x \<noteq> OrdLess)"
proof -
  have "if \<forall>v \<in> set vs. v = NullV then x = NullV
    else x \<noteq> NullV \<and> x \<in> set vs \<and> (\<forall>v \<in> set vs. v \<noteq> NullV \<longrightarrow> cmp v x \<noteq> OrdLess)"
  proof (cases "filter (\<lambda>v. v \<noteq> NullV) vs")
    case Nil
    then show ?thesis using assms(3) by (simp add: filter_empty_conv)
  next
    case (Cons v ws)
    have set: "insert v (set ws) = {v \<in> set vs. v \<noteq> NullV}" using Cons by (metis list.simps(15) set_filter)
    then have "v \<noteq> NullV \<and> not_nan v" "\<forall>w \<in> set ws. w \<noteq> NullV \<and> not_nan w" using assms(2) by auto
    from total_cmp.fold_least [OF assms(1) this] have "x \<in> insert v (set ws) \<and> (\<forall>y \<in> insert v (set ws). cmp y x \<noteq> OrdLess)"
      using assms(3) Cons by (simp add: Let_def)
    then show ?thesis unfolding set by auto
  qed
  then show "(x = NullV) = (\<forall>v \<in> set vs. v = NullV)"
    "x \<noteq> NullV \<Longrightarrow> x \<in> set vs \<and> (\<forall>v \<in> set vs. v \<noteq> NullV \<longrightarrow> cmp v x \<noteq> OrdLess)"
    by (auto split: if_splits)
qed

text \<open>
  MIN and MAX. On a column without NaN they return NULL when every value is NULL, and otherwise one
  of the values that are not NULL, with none below it or none above it.
\<close>

theorem min_max_correct:
  assumes "\<forall>v \<in> set vs. not_nan v"
  shows "(aggregate_over L new_min vs = NullV) = (\<forall>v \<in> set vs. v = NullV) \<and>
    (aggregate_over L new_max vs = NullV) = (\<forall>v \<in> set vs. v = NullV) \<and>
    (aggregate_over L new_min vs \<noteq> NullV \<longrightarrow> aggregate_over L new_min vs \<in> set vs \<and>
      (\<forall>v \<in> set vs. v \<noteq> NullV \<longrightarrow> compare_values v (aggregate_over L new_min vs) \<noteq> OrdLess)) \<and>
    (aggregate_over L new_max vs \<noteq> NullV \<longrightarrow> aggregate_over L new_max vs \<in> set vs \<and>
      (\<forall>v \<in> set vs. v \<noteq> NullV \<longrightarrow> compare_values v (aggregate_over L new_max vs) \<noteq> OrdGreater))"
proof -
  have mn: "aggregate_over L new_min vs = (case filter (\<lambda>v. v \<noteq> NullV) vs of [] \<Rightarrow> NullV
      | v # ws \<Rightarrow> fold (\<lambda>v m. if compare_values v m = OrdLess then v else m) ws v)"
    by (simp add: aggregate_over_def new_min_def min_state split: list.split)
  have mx: "aggregate_over L new_max vs = (case filter (\<lambda>v. v \<noteq> NullV) vs of [] \<Rightarrow> NullV
      | v # ws \<Rightarrow> fold (\<lambda>v m. if ord_reverse (compare_values v m) = OrdLess then v else m) ws v)"
    by (simp add: aggregate_over_def new_max_def max_state split: list.split)
  have rev: "(ord_reverse x = OrdLess) = (x = OrdGreater)" for x by (cases x) simp_all
  show ?thesis
    using least_value [OF aggregate_order.total_cmp_axioms assms mn]
      least_value [OF aggregate_order.reversed assms mx] by (simp only: rev) blast
qed

theorem min_max_correct_witness:
  "let vs = [IntegerV 2, NullV, IntegerV 1]
   in aggregate_over plain_lib new_min vs \<noteq> NullV \<and> compare_values (IntegerV 1) (aggregate_over plain_lib new_min vs) \<noteq> OrdLess"
  using min_max_correct [of "[IntegerV 2, NullV, IntegerV 1]" plain_lib] by (simp add: not_nan_def)

text \<open>
  COUNT. It counts the values that are not NULL, and COUNT(DISTINCT) the different texts of such
  values, for columns of any length up to the wrap-around of the counter.
\<close>

theorem count_correct:
  "aggregate_over L (new_count False) vs = IntegerV (of_nat (length (filter (\<lambda>v. v \<noteq> NullV) vs))) \<and>
   aggregate_over L (new_count True) vs = IntegerV (of_nat (card (debug_value L ` {v \<in> set vs. v \<noteq> NullV})))"
proof -
  obtain seen where s: "fold (aggregate_update L) vs (CountState 0 True []) = CountState (of_nat (length seen)) True seen"
    "distinct seen" "set seen = debug_value L ` {v \<in> set vs. v \<noteq> NullV}"
    using count_distinct_state [of "[]" L vs 0] by auto
  have "card (debug_value L ` {v \<in> set vs. v \<noteq> NullV}) = length seen" using s(2,3) by (metis distinct_card)
  then show ?thesis using s(1) by (simp add: aggregate_over_def new_count_def count_state)
qed

lemma numeric_value_of_int: "small_int i \<Longrightarrow> numeric_value (f64_of_int i) = IntegerV (of_int i)"
  by (simp only: numeric_value_def f64_is_integral_of_int small_int_in_i64_range f64_to_i64_of_int simp_thms if_True)

lemma sum_state:
  assumes "\<forall>v \<in> set vs. is_integer_or_null v \<and> small_int (integer_of v)"
    and "\<forall>k < length vs. small_int (a + sum_list (map integer_of (take k vs)))"
  shows "fold (aggregate_update L) vs (SumState (Some (f64_of_int a)) False []) =
    SumState (Some (f64_of_int (a + sum_list (map integer_of vs)))) False []"
  using assms
proof (induction vs arbitrary: a)
  case (Cons v vs)
  have a: "small_int a" using Cons.prems(2) [rule_format, of 0] by simp
  have IH: "fold (aggregate_update L) vs (SumState (Some (f64_of_int (a + integer_of v))) False []) =
      SumState (Some (f64_of_int (a + integer_of v + sum_list (map integer_of vs)))) False []"
  proof (rule Cons.IH)
    show "\<forall>k < length vs. small_int (a + integer_of v + sum_list (map integer_of (take k vs)))"
      using Cons.prems(2) [rule_format, of "Suc _"] by (simp add: add.assoc)
  qed (use Cons.prems(1) in simp)
  have "aggregate_update L v (SumState (Some (f64_of_int a)) False []) = SumState (Some (f64_of_int (a + integer_of v))) False []"
    using Cons.prems(1) f64_add_of_int [OF a, of "integer_of v"]
    by (cases v) (simp_all add: is_integer_or_null_def integer_of_def extract_numeric_def f64_of_i64_def)
  then show ?case using IH by (simp add: add.assoc)
qed simp

text \<open>
  SUM over integers. The sum is computed in floating point, and it is exact as long as the values and
  all partial sums are at most \<open>2 ^ 53\<close> in absolute value; NULLs are skipped, and the sum of no values is 0.
\<close>

theorem sum_exact:
  assumes "\<forall>v \<in> set vs. is_integer_or_null v \<and> small_int (integer_of v)"
    and "\<forall>k \<le> length vs. small_int (sum_list (map integer_of (take k vs)))"
  shows "aggregate_over L (new_sum False) vs = IntegerV (of_int (sum_list (map integer_of vs)))"
proof -
  have "small_int (sum_list (map integer_of vs))" using assms(2) [rule_format, of "length vs"] by simp
  then show ?thesis
    using sum_state [OF assms(1), of 0 L] assms(2) by (simp add: aggregate_over_def new_sum_def numeric_value_of_int)
qed

theorem sum_exact_witness:
  "aggregate_over plain_lib (new_sum False) [IntegerV 40, NullV, IntegerV 2] = IntegerV 42"
proof -
  have "small_int (sum_list (map integer_of (take k [IntegerV 40, NullV, IntegerV 2])))" for k
    by (cases k rule: nat.exhaust; simp add: small_int_def integer_of_def; cases "k - 1"; simp; cases "k - 2"; simp)
      (auto simp: take_Cons' integer_of_def small_int_def)
  then show ?thesis
    using sum_exact [of "[IntegerV 40, NullV, IntegerV 2]" plain_lib] by (simp add: is_integer_or_null_def integer_of_def small_int_def)
qed

text \<open>Beyond that bound the sum loses units.\<close>

theorem sum_loses_precision:
  "aggregate_over L (new_sum False) [IntegerV (2 ^ 53), IntegerV 1] = IntegerV (2 ^ 53)"
proof -
  have s: "small_int 0" "small_int 1" "small_int (2 ^ 53)" by (simp_all add: small_int_def)
  have "f64_add (f64_add (f64_of_int 0) (f64_of_int (2 ^ 53))) (f64_of_int 1) = f64_of_int (2 ^ 53)"
    using f64_add_of_int [OF s(1,3)] f64_add_of_int [OF s(3,2)] f64_of_int_inexact by simp
  then show ?thesis
    using numeric_value_of_int [OF s(3)]
    by (simp add: aggregate_over_def new_sum_def extract_numeric_def f64_of_i64_def)
qed

subsection \<open>Safety\<close>

lemma safe_simps [simp]: "safe (Ok x)" "safe (Err e)" "returns r \<Longrightarrow> safe r" "\<not> safe Deadlock"
  by (simp_all add: safe_def)

lemma safe_bind: "safe r \<Longrightarrow> (\<And>x. r = Ok x \<Longrightarrow> safe (f x)) \<Longrightarrow> safe (res_bind r f)"
  by (cases r) (auto simp: safe_def)

lemma binary_operation_safe: "safe (evaluate_binary_operation L op l r)"
proof (cases "op = OpDivide")
  case True
  then show ?thesis
    by (auto simp: evaluate_binary_operation_def handle_null_in_binary_operation_def evaluate_division_def i64_div_def safe_def
        split: Value.split)
next
  case False
  have "returns (evaluate_like L l r)" "returns (evaluate_ilike L l r)"
    by (cases l; cases r; simp add: bool_value_def split: option.split)+
  moreover have "returns (evaluate_in l r)"
    using bool_results(5) [of l "case r of ListV vs \<Rightarrow> vs | _ \<Rightarrow> []"] by (auto simp: evaluate_in_def bool_value_def split: Value.split)
  moreover have "returns (evaluate_addition l r)" "returns (evaluate_subtraction l r)" "returns (evaluate_multiplication l r)"
    "returns (evaluate_concatenation L l r)" "returns (evaluate_less_than l r)" "returns (evaluate_greater_than l r)"
    by (simp_all add: evaluate_addition_def evaluate_subtraction_def evaluate_multiplication_def evaluate_concatenation_def
        evaluate_less_than_def evaluate_greater_than_def option_value_def bool_value_def split: Value.split option.split)
  moreover have "returns (evaluate_less_than_or_equals l r)" "returns (evaluate_greater_than_or_equals l r)"
    using bool_results(1) [of l r]
    by (auto simp: evaluate_less_than_or_equals_def evaluate_greater_than_or_equals_def evaluate_less_than_def option_value_def
        bool_value_def split: option.split)
  moreover have "returns (evaluate_equals l r)" "returns (evaluate_not_equals l r)" "returns (evaluate_is l r)" "returns (evaluate_is_not l r)"
    using bool_results(1-4) [of l r] by auto
  ultimately show ?thesis
    using False by (cases op) (auto simp: evaluate_binary_operation_def handle_null_in_binary_operation_def)
qed

lemma value_operations_return:
  "returns (evaluate_unary_operation op v)" "returns (evaluate_cast L v t)"
  by (cases "(op, v)" rule: evaluate_unary_operation.cases; simp)
    (simp add: evaluate_cast_def split: DataTypeKind.split)

lemma index_of_less: "index_of x xs = Some i \<Longrightarrow> i < length xs"
  by (induction xs arbitrary: i) (auto split: if_splits)

lemma index_of_None: "index_of x xs = None \<longleftrightarrow> x \<notin> set xs"
  by (induction xs) auto

lemma columns_return:
  assumes "context_wf c"
  shows "returns (evaluate_qualified_column c t n)" "returns (evaluate_unqualified_column c n)"
proof -
  have row: "returns r" if "row_value row cols n = Some r" "\<And>x y. row = Some x \<Longrightarrow> cols = Some y \<Longrightarrow> length y \<le> length x" for row cols r
    using that by (fastforce simp: row_value_def dest: index_of_less split: option.splits)
  have "returns r" if "row_value (ec_left_row c) (ec_left_columns c) n = Some r" for r
    using row [OF that] assms by (simp add: context_wf_def)
  moreover have "returns r" if "row_value (ec_right_row c) (ec_right_columns c) n = Some r" for r
    using row [OF that] assms by (simp add: context_wf_def)
  ultimately show "returns (evaluate_qualified_column c t n)"
    by (auto simp: evaluate_qualified_column_def split: option.split)
  show "returns (evaluate_unqualified_column c n)"
    using index_of_None [of n "hm_keys (ec_columns c)"]
    by (auto simp: evaluate_unqualified_column_def get_column_value_def hm_keys_def map_of_eq_None_iff split: option.split)
qed

lemma subquery_returns:
  assumes "\<And>c. subquery_wf (el_subquery L stmt (find_correlated_columns_in_subquery stmt) c)"
  shows "returns (evaluate_subquery L stmt c)" "returns (evaluate_exists_subquery L stmt negated c)"
proof -
  have first: "returns (first_values rows)" if "[] \<notin> set rows" for rows
    using that by (induction rows rule: first_values.induct) (auto intro: returns_bind)
  show r: "returns (evaluate_subquery L stmt c)" for c
    using assms [of c] unfolding evaluate_subquery_def subquery_wf_def
    by (intro returns_bind) (auto split: option.split SubqueryContext.split list.split intro!: returns_bind first)
  show "returns (evaluate_exists_subquery L stmt negated c)"
    unfolding evaluate_exists_subquery_def by (intro returns_bind r) (auto split: Value.split)
qed

lemma function_safe:
  assumes "\<forall>r \<in> set results. safe r"
  shows "safe (evaluate_function c name args results)"
proof -
  have "safe (first_non_null rs)" if "\<forall>r \<in> set rs. safe r" for rs
    using that by (induction rs) (auto intro!: safe_bind)
  moreover have "safe (evaluate_equals l r)" for l r using bool_results(1) [of l r] by auto
  ultimately show ?thesis
    using assms by (auto simp: evaluate_function_def Let_def split: option.split list.split Value.split intro!: safe_bind)
qed

lemma case_result_safe:
  assumes "\<forall>r. base = Some r \<longrightarrow> safe r" "\<forall>(x, y) \<in> set branches. safe x \<and> safe y" "\<forall>r. other = Some r \<longrightarrow> safe r"
  shows "safe (case_result base branches other)"
proof -
  have eq: "safe (evaluate_equals l r)" for l r using bool_results(1) [of l r] by auto
  have first: "safe r" if "first_branch test branches = Some r" "\<And>v. safe (test v)" for test r
    using that assms(2)
  proof (induction test branches rule: first_branch.induct)
    case (2 test cond val bs)
    have "safe (res_bind cond test)" using 2 by (intro safe_bind) auto
    then show ?case using 2 by (cases "res_bind cond test") (auto split: if_splits)
  qed simp
  then show ?thesis
    using assms(1,3) eq by (auto simp: case_result_def Let_def split: option.split intro!: safe_bind)
qed

lemma all_values_safe: "\<forall>r \<in> set rs. safe r \<Longrightarrow> safe (all_values rs)"
  by (induction rs) (auto intro!: safe_bind)

lemma context_wf_set [simp]: "context_wf (set_subquery_context sc c) = context_wf c"
  by (simp add: context_wf_def set_subquery_context_def)



theorem division_overflow_panics:
  "evaluate L c (BinaryOpE (ValueE (IntegerV (- (2 ^ 63)))) OpDivide (ValueE (IntegerV (-1)))) =
     Panic ''attempt to divide with overflow''"
  by (simp add: evaluate_binary_operation_def evaluate_division_def i64_div_def)

end
