(* ===== verification/Operators.thy ===== *)
theory Operators
  imports Expression_Props
begin

section \<open>Query operators (\<^verbatim>\<open>src/src/executor/operators.rs\<close>)\<close>

text \<open>
  The operators that transform results: filter, projection, nested-loop join, set operations, sort,
  limit and distinct. Each is a function of the results of its inputs, which the sources obtain first
  by executing the input plans; the log of the execution context is left out, and of its other fields
  the outer values of a correlated subquery and the materialized CTEs are arguments.

  The lemmas relate the loops to relational algebra: products, selections and multisets of rows.
\<close>

subsection \<open>Order of values\<close>

text \<open>NULLs first, unless they are asked for last; the other cases are those of \<open>compare_values\<close>.\<close>

definition op_compare_values :: "NullsPosition \<Rightarrow> Value \<Rightarrow> Value \<Rightarrow> Ordering" where
  "op_compare_values nulls_position a b =
     (if a = NullV \<and> b = NullV then OrdEqual
      else if a = NullV then (case nulls_position of NullsFirst \<Rightarrow> OrdLess | NullsLast \<Rightarrow> OrdGreater | NullsDefault \<Rightarrow> OrdLess)
      else if b = NullV then (case nulls_position of NullsFirst \<Rightarrow> OrdGreater | NullsLast \<Rightarrow> OrdLess | NullsDefault \<Rightarrow> OrdGreater)
      else compare_values a b)"

subsection \<open>Contexts of rows\<close>

text \<open>The names of the columns with their values, and the names qualified by the alias of the table.\<close>

fun row_columns :: "string option \<Rightarrow> string list \<Rightarrow> Value list \<Rightarrow> (string, Value) hmap \<Rightarrow> (string, Value) hmap" where
  "row_columns alias (n # ns) (v # vs) m =
     row_columns alias ns vs
       (case alias of
          Some a \<Rightarrow> hm_insert (a @ ''.'' @ n) v (hm_insert n v m)
        | None \<Rightarrow> hm_insert n v m)"
| "row_columns alias _ _ m = m"

definition insert_all_values :: "(string, Value) hmap \<Rightarrow> (string, Value) hmap \<Rightarrow> (string, Value) hmap" where
  "insert_all_values vs m = fold (\<lambda>(n, v). hm_insert n v) vs m"

record ExecutionContext =
  xc_outer_context_values :: "(string, Value) hmap option"
  xc_materialized_ctes :: "(string, QueryResult) hmap option"

definition create_evaluation_context ::
    "string option \<Rightarrow> string list \<Rightarrow> Value list \<Rightarrow> ExecutionContext \<Rightarrow> EvaluationContext" where
  "create_evaluation_context table_alias column_names row context =
     (let columns = row_columns table_alias column_names row [];
          columns1 = (case xc_outer_context_values context of
              Some outer_values \<Rightarrow> insert_all_values outer_values columns | None \<Rightarrow> columns);
          c = ec_with_columns columns1
      in case xc_materialized_ctes context of Some ctes \<Rightarrow> set_materialized_ctes ctes c | None \<Rightarrow> c)"

subsection \<open>Filter and projection\<close>

text \<open>An error that counts as NULL.\<close>

definition value_or_null :: "Value res \<Rightarrow> Value res" where
  "value_or_null r = (case r of Err _ \<Rightarrow> Ok NullV | _ \<Rightarrow> r)"

text \<open>A row passes when the condition is true; an error excludes it, a panic ends the query.\<close>

definition row_passes :: "expr_lib \<Rightarrow> expr \<Rightarrow> EvaluationContext \<Rightarrow> bool res" where
  "row_passes L condition c =
     (case evaluate L c condition of
        Ok result \<Rightarrow> Ok (tvl_from_value result = TTrue)
      | Err _ \<Rightarrow> Ok False
      | Panic m \<Rightarrow> Panic m
      | Deadlock \<Rightarrow> Deadlock)"

fun filter_rows :: "('a \<Rightarrow> bool res) \<Rightarrow> 'a list \<Rightarrow> 'a list res" where
  "filter_rows p [] = Ok []"
| "filter_rows p (x # xs) =
     res_bind (p x) (\<lambda>b. res_bind (filter_rows p xs) (\<lambda>ys. Ok (if b then x # ys else ys)))"

definition filter_execute ::
    "expr_lib \<Rightarrow> expr \<Rightarrow> string option \<Rightarrow> ExecutionContext \<Rightarrow> QueryResult \<Rightarrow> QueryResult res" where
  "filter_execute L condition table_alias context input_result =
     res_bind (filter_rows (\<lambda>row. row_passes L condition
         (create_evaluation_context table_alias (qr_column_names input_result) row context)) (qr_rows input_result))
       (\<lambda>filtered_rows. Ok (input_result\<lparr>qr_rows := filtered_rows\<rparr>))"

text \<open>A column of a projection: NULL when its expression fails.\<close>

definition project_value :: "expr_lib \<Rightarrow> EvaluationContext \<Rightarrow> expr \<Rightarrow> Value res" where
  "project_value L c e = (case evaluate L c e of Err _ \<Rightarrow> Ok NullV | r \<Rightarrow> r)"

fun map_rows :: "('a \<Rightarrow> 'b res) \<Rightarrow> 'a list \<Rightarrow> 'b list res" where
  "map_rows f [] = Ok []"
| "map_rows f (x # xs) = res_bind (f x) (\<lambda>y. res_bind (map_rows f xs) (\<lambda>ys. Ok (y # ys)))"

definition project_execute ::
    "expr_lib \<Rightarrow> (string \<times> expr) list \<Rightarrow> string option \<Rightarrow> ExecutionContext \<Rightarrow> QueryResult \<Rightarrow> QueryResult res" where
  "project_execute L columns table_alias context input_result =
     res_bind (map_rows (\<lambda>row.
         let c = create_evaluation_context table_alias (qr_column_names input_result) row context
         in map_rows (\<lambda>(_, e). project_value L c e) columns) (qr_rows input_result))
       (\<lambda>projected_rows. Ok \<lparr>qr_rows = projected_rows, qr_column_names = map fst columns\<rparr>)"

definition expand_star :: "string list \<Rightarrow> (string \<times> expr) list" where
  "expand_star input_column_names = map (\<lambda>name. (name, ColumnE None name)) input_column_names"

subsection \<open>Joins\<close>

record JoinOperator =
  jo_condition :: "expr option"
  jo_join_type :: JoinType
  jo_left_alias :: "string option"
  jo_right_alias :: "string option"

definition qualified_name :: "string \<Rightarrow> string \<Rightarrow> string" where
  "qualified_name table_name col_name =
     (if CHR ''.'' \<in> set col_name then col_name else table_name @ ''.'' @ col_name)"

definition left_table_name :: "JoinOperator \<Rightarrow> string" where
  "left_table_name J = (case jo_left_alias J of Some a \<Rightarrow> a | None \<Rightarrow> ''left'')"

definition right_table_name :: "JoinOperator \<Rightarrow> string" where
  "right_table_name J = (case jo_right_alias J of Some a \<Rightarrow> a | None \<Rightarrow> ''right'')"

fun left_columns_map :: "string \<Rightarrow> string list \<Rightarrow> Value list \<Rightarrow> (string, Value) hmap \<Rightarrow> (string, Value) hmap" where
  "left_columns_map t (n # ns) (v # vs) m =
     (let m1 = hm_insert (qualified_name t n) v m
      in left_columns_map t ns vs (if hm_contains m1 n then m1 else hm_insert n v m1))"
| "left_columns_map t _ _ m = m"

fun right_columns_map :: "string \<Rightarrow> string list \<Rightarrow> Value list \<Rightarrow> (string, Value) hmap \<Rightarrow> (string, Value) hmap" where
  "right_columns_map t (n # ns) (v # vs) m = right_columns_map t ns vs (hm_insert (qualified_name t n) v m)"
| "right_columns_map t _ _ m = m"

definition evaluate_join_condition ::
    "expr_lib \<Rightarrow> JoinOperator \<Rightarrow> string list \<Rightarrow> string list \<Rightarrow> Value list \<Rightarrow> Value list \<Rightarrow> bool res" where
  "evaluate_join_condition L J left_columns right_columns left_row right_row =
     (case jo_condition J of
        Some condition \<Rightarrow>
          (let columns = right_columns_map (right_table_name J) right_columns right_row
                 (left_columns_map (left_table_name J) left_columns left_row []);
               c = (ec_with_join_data left_row right_row left_columns right_columns)\<lparr>ec_columns := columns\<rparr>
           in res_bind (evaluate L c condition) (\<lambda>result. case result of BooleanV val \<Rightarrow> Ok val | _ \<Rightarrow> Ok False))
      | None \<Rightarrow> Ok True)"

text \<open>The nested loop, which collects the joined rows and marks the rows that found a partner.\<close>

type_synonym join_state = "Value list list \<times> bool list \<times> bool list"

fun join_right_rows ::
    "(Value list \<Rightarrow> Value list \<Rightarrow> bool res) \<Rightarrow> nat \<Rightarrow> Value list \<Rightarrow> nat \<Rightarrow> Value list list \<Rightarrow> join_state \<Rightarrow> join_state res" where
  "join_right_rows cond li l ri [] st = Ok st"
| "join_right_rows cond li l ri (r # rs) (rows, lm, rm) =
     res_bind (cond l r) (\<lambda>satisfied.
       join_right_rows cond li l (Suc ri) rs
         (if satisfied then (rows @ [l @ r], lm[li := True], rm[ri := True]) else (rows, lm, rm)))"

fun join_left_rows ::
    "(Value list \<Rightarrow> Value list \<Rightarrow> bool res) \<Rightarrow> nat \<Rightarrow> Value list list \<Rightarrow> Value list list \<Rightarrow> join_state \<Rightarrow> join_state res" where
  "join_left_rows cond li [] rights st = Ok st"
| "join_left_rows cond li (l # ls) rights st =
     res_bind (join_right_rows cond li l 0 rights st) (\<lambda>st'. join_left_rows cond (Suc li) ls rights st')"

text \<open>The rows without a partner.\<close>

definition unmatched :: "bool list \<Rightarrow> 'a list \<Rightarrow> 'a list" where
  "unmatched marks rows = map snd (filter (\<lambda>(m, _). \<not> m) (zip marks rows))"

definition execute_outer_joins ::
    "expr_lib \<Rightarrow> JoinOperator \<Rightarrow> QueryResult \<Rightarrow> QueryResult \<Rightarrow> (Value list list \<times> string list) res" where
  "execute_outer_joins L J left_result right_result =
     (let names = map (qualified_name (left_table_name J)) (qr_column_names left_result) @
                  map (qualified_name (right_table_name J)) (qr_column_names right_result);
          cond = evaluate_join_condition L J (qr_column_names left_result) (qr_column_names right_result);
          lefts = qr_rows left_result; rights = qr_rows right_result
      in res_bind (join_left_rows cond 0 lefts rights
             ([], replicate (length lefts) False, replicate (length rights) False)) (\<lambda>(rows, lm, rm).
         let left_rest = map (\<lambda>l. l @ replicate (length (qr_column_names right_result)) NullV) (unmatched lm lefts);
             right_rest = map (\<lambda>r. replicate (length (qr_column_names left_result)) NullV @ r) (unmatched rm rights)
         in Ok (case jo_join_type J of
                  LeftJoin \<Rightarrow> rows @ left_rest
                | RightJoin \<Rightarrow> rows @ right_rest
                | FullJoin \<Rightarrow> rows @ left_rest @ right_rest
                | _ \<Rightarrow> rows, names)))"

fun any_match :: "('a \<Rightarrow> bool res) \<Rightarrow> 'a list \<Rightarrow> bool res" where
  "any_match f [] = Ok False"
| "any_match f (x # xs) = res_bind (f x) (\<lambda>b. if b then Ok True else any_match f xs)"

definition execute_semi_join ::
    "expr_lib \<Rightarrow> JoinOperator \<Rightarrow> QueryResult \<Rightarrow> QueryResult \<Rightarrow> (Value list list \<times> string list) res" where
  "execute_semi_join L J left_result right_result =
     (let cond = evaluate_join_condition L J (qr_column_names left_result) (qr_column_names right_result)
      in case jo_join_type J of
           LeftSemiJoin \<Rightarrow>
             res_bind (filter_rows (\<lambda>l. any_match (\<lambda>r. cond l r) (qr_rows right_result)) (qr_rows left_result))
               (\<lambda>rows. Ok (rows, qr_column_names left_result))
         | RightSemiJoin \<Rightarrow>
             res_bind (filter_rows (\<lambda>r. any_match (\<lambda>l. cond l r) (qr_rows left_result)) (qr_rows right_result))
               (\<lambda>rows. Ok (rows, qr_column_names right_result))
         | _ \<Rightarrow> Err (InternalError ''Invalid semi-join type''))"

definition execute_anti_join ::
    "expr_lib \<Rightarrow> JoinOperator \<Rightarrow> QueryResult \<Rightarrow> QueryResult \<Rightarrow> (Value list list \<times> string list) res" where
  "execute_anti_join L J left_result right_result =
     (let cond = evaluate_join_condition L J (qr_column_names left_result) (qr_column_names right_result);
          none = (\<lambda>f xs. res_bind (any_match f xs) (\<lambda>b. Ok (\<not> b)))
      in case jo_join_type J of
           LeftAntiJoin \<Rightarrow>
             res_bind (filter_rows (\<lambda>l. none (\<lambda>r. cond l r) (qr_rows right_result)) (qr_rows left_result))
               (\<lambda>rows. Ok (rows, qr_column_names left_result))
         | RightAntiJoin \<Rightarrow>
             res_bind (filter_rows (\<lambda>r. none (\<lambda>l. cond l r) (qr_rows left_result)) (qr_rows right_result))
               (\<lambda>rows. Ok (rows, qr_column_names right_result))
         | _ \<Rightarrow> Err (InternalError ''Invalid anti-join type''))"

definition join_execute :: "expr_lib \<Rightarrow> JoinOperator \<Rightarrow> QueryResult \<Rightarrow> QueryResult \<Rightarrow> QueryResult res" where
  "join_execute L J left_result right_result =
     res_bind
       (if jo_join_type J \<in> {InnerJoin, LeftJoin, RightJoin, FullJoin, CrossJoin}
        then execute_outer_joins L J left_result right_result
        else if jo_join_type J \<in> {LeftSemiJoin, RightSemiJoin}
        then execute_semi_join L J left_result right_result
        else execute_anti_join L J left_result right_result)
       (\<lambda>(rows, names). Ok \<lparr>qr_rows = rows, qr_column_names = names\<rparr>)"

subsection \<open>Set operations\<close>

definition values_equal :: "Value \<Rightarrow> Value \<Rightarrow> bool" where
  "values_equal a b =
     (case (a, b) of
        (NullV, NullV) \<Rightarrow> True
      | (IntegerV x, IntegerV y) \<Rightarrow> x = y
      | (FloatV x, FloatV y) \<Rightarrow> f64_eq x y
      | (StringV x, StringV y) \<Rightarrow> x = y
      | (BooleanV x, BooleanV y) \<Rightarrow> x = y
      | _ \<Rightarrow> False)"

definition rows_equal :: "Value list \<Rightarrow> Value list \<Rightarrow> bool" where
  "rows_equal a b = (length a = length b \<and> list_all (\<lambda>(x, y). values_equal x y) (zip a b))"

definition rows_contains :: "Value list list \<Rightarrow> Value list \<Rightarrow> bool" where
  "rows_contains rows target = list_ex (\<lambda>row. rows_equal row target) rows"

definition count_row_occurrences :: "Value list list \<Rightarrow> Value list \<Rightarrow> nat" where
  "count_row_occurrences rows target = length (filter (\<lambda>row. rows_equal row target) rows)"

definition perform_union :: "bool \<Rightarrow> Value list list \<Rightarrow> Value list list \<Rightarrow> Value list list" where
  "perform_union all left_rows right_rows =
     (if all then left_rows @ right_rows
      else fold (\<lambda>r result. if rows_contains result r then result else result @ [r]) right_rows left_rows)"

definition perform_intersect :: "bool \<Rightarrow> Value list list \<Rightarrow> Value list list \<Rightarrow> Value list list" where
  "perform_intersect all left_rows right_rows =
     fold (\<lambda>l result.
       if all then
         (let n = min (count_row_occurrences left_rows l) (count_row_occurrences right_rows l)
          in filter (\<lambda>r. \<not> rows_equal r l) result @ replicate n l)
       else if rows_contains right_rows l \<and> \<not> rows_contains result l then result @ [l] else result) left_rows []"

definition perform_except :: "bool \<Rightarrow> Value list list \<Rightarrow> Value list list \<Rightarrow> Value list list" where
  "perform_except all left_rows right_rows =
     fold (\<lambda>l result.
       if all then
         (let left_count = count_row_occurrences left_rows l; right_count = count_row_occurrences right_rows l
          in if left_count > right_count \<and> count_row_occurrences result l < left_count - right_count
             then result @ [l] else result)
       else if \<not> rows_contains right_rows l \<and> \<not> rows_contains result l then result @ [l] else result) left_rows []"

definition set_operation_execute :: "SetOperator \<Rightarrow> bool \<Rightarrow> QueryResult \<Rightarrow> QueryResult \<Rightarrow> QueryResult res" where
  "set_operation_execute operator all left_result right_result =
     (if length (qr_column_names left_result) \<noteq> length (qr_column_names right_result)
      then Err (InternalError ''Set operations require compatible column counts'')
      else Ok (left_result\<lparr>qr_rows :=
        (case operator of
           UnionOp \<Rightarrow> perform_union all (qr_rows left_result) (qr_rows right_result)
         | IntersectOp \<Rightarrow> perform_intersect all (qr_rows left_result) (qr_rows right_result)
         | ExceptOp \<Rightarrow> perform_except all (qr_rows left_result) (qr_rows right_result))\<rparr>))"

subsection \<open>Sort, limit, distinct\<close>

text \<open>The context of a row while sorting: its columns only.\<close>

definition sort_context :: "string list \<Rightarrow> Value list \<Rightarrow> EvaluationContext" where
  "sort_context column_names row = ec_with_columns (row_columns None column_names row [])"

text \<open>The clauses in turn: one whose expression fails on either row is skipped.\<close>

fun compare_rows :: "expr_lib \<Rightarrow> string list \<Rightarrow> Statement OrderBy list \<Rightarrow> Value list \<Rightarrow> Value list \<Rightarrow> Ordering" where
  "compare_rows L names [] a b = OrdEqual"
| "compare_rows L names (OrderBy e direction nulls # obs) a b =
     (case (evaluate L (sort_context names a) e, evaluate L (sort_context names b) e) of
        (Ok x, Ok y) \<Rightarrow>
          (let comparison = op_compare_values nulls x y
           in if comparison \<noteq> OrdEqual
              then (case direction of Asc \<Rightarrow> comparison | Desc \<Rightarrow> ord_reverse comparison)
              else compare_rows L names obs a b)
      | _ \<Rightarrow> compare_rows L names obs a b)"

text \<open>
  A panic in the key of a row ends the sort, wherever the clause stands in the list. (The sources evaluate
  a later clause only for rows that tie in the earlier ones, and none for a single row.)
\<close>

definition sort_execute :: "expr_lib \<Rightarrow> Statement OrderBy list \<Rightarrow> QueryResult \<Rightarrow> QueryResult res" where
  "sort_execute L order_by input_result =
     (if qr_rows input_result = [] \<or> order_by = [] then Ok input_result
      else if list_all (\<lambda>row. list_all (\<lambda>ob.
             returns (evaluate L (sort_context (qr_column_names input_result) row) (ob_expr ob))) order_by) (qr_rows input_result)
      then Ok (input_result\<lparr>qr_rows :=
        sort_by (compare_rows L (qr_column_names input_result) order_by) (qr_rows input_result)\<rparr>)
      else Panic ''sort key'')"

definition limit_execute :: "i64 \<Rightarrow> i64 option \<Rightarrow> QueryResult \<Rightarrow> QueryResult res" where
  "limit_execute limit offset input_result =
     (let rows = qr_rows input_result;
          offset_val = sint (case offset of Some n \<Rightarrow> n | None \<Rightarrow> 0);
          start_idx = (if offset_val < 0 then 0 else nat offset_val);
          end_idx = (if sint limit < 0 then length rows else start_idx + nat (sint limit))
      in if start_idx \<ge> length rows then Ok (input_result\<lparr>qr_rows := []\<rparr>)
         else let end_idx1 = min end_idx (length rows)
              in if start_idx \<le> end_idx1 then Ok (input_result\<lparr>qr_rows := take (end_idx1 - start_idx) (drop start_idx rows)\<rparr>)
                 else Panic ''slice index starts after its end'')"

text \<open>\<^verbatim>\<open>PartialEq\<close> of values and of lists of values.\<close>

fun value_eq :: "Value \<Rightarrow> Value \<Rightarrow> bool"
and values_eq :: "Value list \<Rightarrow> Value list \<Rightarrow> bool" where
  "value_eq (FloatV a) w = (case w of FloatV b \<Rightarrow> f64_eq a b | _ \<Rightarrow> False)"
| "value_eq (ListV as) w = (case w of ListV bs \<Rightarrow> values_eq as bs | _ \<Rightarrow> False)"
| "value_eq v w = (v = w)"
| "values_eq [] bs = (bs = [])"
| "values_eq (a # as) bs = (case bs of [] \<Rightarrow> False | b # bs' \<Rightarrow> value_eq a b \<and> values_eq as bs')"

text \<open>
  Equality in a hash set: equal patterns, except that a NaN equals nothing. (The zeros of both signs are
  equal but have different hashes; whether the set finds one for the other depends on seven bits of them,
  and it is taken not to.)
\<close>

fun hash_equal :: "Value \<Rightarrow> Value \<Rightarrow> bool"
and row_hash_equal :: "Value list \<Rightarrow> Value list \<Rightarrow> bool" where
  "hash_equal (FloatV a) w = (w = FloatV a \<and> \<not> f64_is_nan a)"
| "hash_equal (ListV as) w = (case w of ListV bs \<Rightarrow> row_hash_equal as bs | _ \<Rightarrow> False)"
| "hash_equal v w = (v = w)"
| "row_hash_equal [] bs = (bs = [])"
| "row_hash_equal (a # as) bs = (case bs of [] \<Rightarrow> False | b # bs' \<Rightarrow> hash_equal a b \<and> row_hash_equal as bs')"

definition distinct_execute :: "QueryResult \<Rightarrow> QueryResult" where
  "distinct_execute input_result = input_result\<lparr>qr_rows :=
     fold (\<lambda>row seen. if list_ex (row_hash_equal row) seen then seen else seen @ [row]) (qr_rows input_result) []\<rparr>"

subsection \<open>Definitions for the lemmas\<close>

text \<open>A join in relational algebra, for a condition given as a predicate.\<close>

definition relational_join ::
    "JoinType \<Rightarrow> (Value list \<Rightarrow> Value list \<Rightarrow> bool) \<Rightarrow> nat \<Rightarrow> nat \<Rightarrow> Value list list \<Rightarrow> Value list list \<Rightarrow> Value list list" where
  "relational_join ty P lw rw lefts rights =
     (let inner = [l @ r. l \<leftarrow> lefts, r \<leftarrow> rights, P l r];
          left_rest = [l @ replicate rw NullV. l \<leftarrow> lefts, \<not> list_ex (P l) rights];
          right_rest = [replicate lw NullV @ r. r \<leftarrow> rights, \<not> list_ex (\<lambda>l. P l r) lefts]
      in case ty of
           LeftJoin \<Rightarrow> inner @ left_rest
         | RightJoin \<Rightarrow> inner @ right_rest
         | FullJoin \<Rightarrow> inner @ left_rest @ right_rest
         | LeftSemiJoin \<Rightarrow> filter (\<lambda>l. list_ex (P l) rights) lefts
         | RightSemiJoin \<Rightarrow> filter (\<lambda>r. list_ex (\<lambda>l. P l r) lefts) rights
         | LeftAntiJoin \<Rightarrow> filter (\<lambda>l. \<not> list_ex (P l) rights) lefts
         | RightAntiJoin \<Rightarrow> filter (\<lambda>r. \<not> list_ex (\<lambda>l. P l r) lefts) rights
         | _ \<Rightarrow> inner)"

text \<open>Values on which the equality of set operations and the one of hash sets are equality.\<close>

definition exact_value :: "Value \<Rightarrow> bool" where
  "exact_value v = (case v of IntegerV _ \<Rightarrow> True | StringV _ \<Rightarrow> True | BooleanV _ \<Rightarrow> True | NullV \<Rightarrow> True | _ \<Rightarrow> False)"

fun hash_exact :: "Value \<Rightarrow> bool" where
  "hash_exact (FloatV f) = (\<not> f64_is_nan f \<and> f \<noteq> 0 \<and> f \<noteq> push_bit 63 1)"
| "hash_exact (ListV vs) = list_all hash_exact vs"
| "hash_exact _ = True"

text \<open>The rows all of whose sort keys evaluate, to values other than NaN.\<close>

definition sort_keys_ok :: "expr_lib \<Rightarrow> string list \<Rightarrow> Statement OrderBy list \<Rightarrow> Value list \<Rightarrow> bool" where
  "sort_keys_ok L names obs row =
     list_all (\<lambda>ob. case evaluate L (sort_context names row) (ob_expr ob) of Ok v \<Rightarrow> not_nan v | _ \<Rightarrow> False) obs"

subsection \<open>Lemmas: filters\<close>

lemma row_passes_returns:
  "returns (evaluate L c e) \<Longrightarrow>
    row_passes L e c = Ok (case evaluate L c e of Ok v \<Rightarrow> tvl_from_value v = TTrue | _ \<Rightarrow> False)"
  by (auto simp: row_passes_def returns_def split: res.splits)

lemma and_true:
  "\<exists>v. evaluate_binary_operation L OpAnd l r = Ok v \<and>
    (tvl_from_value v = TTrue) = (tvl_from_value l = TTrue \<and> tvl_from_value r = TTrue)"
proof (cases "l = NullV \<or> r = NullV")
  case False
  then show ?thesis
    by (cases "tvl_from_value l"; cases "tvl_from_value r") (simp_all add: evaluate_binary_operation_def)
qed (auto simp: evaluate_binary_operation_def handle_null_in_binary_operation_def)

lemma row_passes_and:
  assumes "returns (evaluate L c p)" "returns (evaluate L c q)"
  shows "row_passes L (BinaryOpE p OpAnd q) c =
    Ok ((case evaluate L c p of Ok v \<Rightarrow> tvl_from_value v = TTrue | _ \<Rightarrow> False) \<and>
        (case evaluate L c q of Ok v \<Rightarrow> tvl_from_value v = TTrue | _ \<Rightarrow> False))"
  using assms
proof (cases "evaluate L c p"; cases "evaluate L c q")
  fix l r
  assume "evaluate L c p = Ok l" "evaluate L c q = Ok r"
  then show ?thesis using and_true [of L l r] by (auto simp: row_passes_def)
qed (auto simp: row_passes_def)

subsection \<open>Lemmas: joins\<close>

lemma filter_rows_ok:
  "\<forall>x \<in> set xs. p x = Ok (P x) \<Longrightarrow> filter_rows p xs = Ok (filter P xs)"
  by (induction xs) auto

lemma any_match_ok: "\<forall>x \<in> set xs. f x = Ok (P x) \<Longrightarrow> any_match f xs = Ok (list_ex P xs)"
  by (induction xs) auto

lemma join_right_rows_ok:
  assumes "\<forall>r \<in> set rs. cond l r = Ok (P l r)" "length ms = length rs"
  shows "join_right_rows cond (length lpre) l (length pre) rs (rows, lpre @ m # lrest, pre @ ms) =
    Ok (rows @ map ((@) l) (filter (P l) rs), lpre @ (m \<or> list_ex (P l) rs) # lrest, pre @ map2 (\<lambda>m r. m \<or> P l r) ms rs)"
  using assms
proof (induction rs arbitrary: pre ms rows m)
  case (Cons r rs)
  obtain k ms' where ms: "ms = k # ms'" "length ms' = length rs" using Cons.prems(2) by (cases ms) auto
  have "join_right_rows cond (length lpre) l (length (pre @ [k \<or> P l r])) rs
      (if P l r then rows @ [l @ r] else rows, lpre @ (m \<or> P l r) # lrest, (pre @ [k \<or> P l r]) @ ms') =
    Ok ((if P l r then rows @ [l @ r] else rows) @ map ((@) l) (filter (P l) rs),
      lpre @ (m \<or> P l r \<or> list_ex (P l) rs) # lrest, (pre @ [k \<or> P l r]) @ map2 (\<lambda>m r. m \<or> P l r) ms' rs)"
    using Cons.IH [of ms' "pre @ [k \<or> P l r]" _ "m \<or> P l r"] Cons.prems(1) ms(2) by (simp add: disj_assoc)
  then show ?case using Cons.prems(1) ms(1) by (cases "P l r") (auto simp: list_update_append)
qed simp

lemma join_left_rows_ok:
  assumes "\<forall>l \<in> set ls. \<forall>r \<in> set rights. cond l r = Ok (P l r)" "length rm = length rights"
  shows "join_left_rows cond (length lpre) ls rights (rows, lpre @ replicate (length ls) False, rm) =
    Ok (rows @ [l @ r. l \<leftarrow> ls, r \<leftarrow> rights, P l r], lpre @ map (\<lambda>l. list_ex (P l) rights) ls,
      map2 (\<lambda>m r. m \<or> list_ex (\<lambda>l. P l r) ls) rm rights)"
  using assms
proof (induction ls arbitrary: lpre rows rm)
  case Nil
  then show ?case by (simp add: zip_eq_conv map_fst_zip [symmetric] case_prod_unfold)
next
  case (Cons l ls)
  let ?rm = "map2 (\<lambda>m r. m \<or> P l r) rm rights"
  have one: "join_right_rows cond (length lpre) l 0 rights (rows, lpre @ False # replicate (length ls) False, rm) =
      Ok (rows @ map ((@) l) (filter (P l) rights), lpre @ list_ex (P l) rights # replicate (length ls) False, ?rm)"
    using join_right_rows_ok [of rights cond l P rm lpre "[]" rows False] Cons.prems by simp
  have rest: "map2 (\<lambda>m r. m \<or> list_ex (\<lambda>l. P l r) ls) ?rm rights = map2 (\<lambda>m r. m \<or> list_ex (\<lambda>l. P l r) (l # ls)) rm rights"
    by (rule nth_equalityI) (auto simp: Cons.prems(2))
  have inner: "map ((@) l) (filter (P l) rights) = [l @ r. r \<leftarrow> rights, P l r]" by (induction rights) auto
  show ?case
    using Cons.IH [of ?rm "lpre @ [list_ex (P l) rights]"] Cons.prems one rest inner by simp
qed

lemma unmatched_map: "map f (unmatched (map P xs) xs) = [f x. x \<leftarrow> xs, \<not> P x]"
  by (induction xs) (auto simp: unmatched_def)

lemma outer_joins_ok:
  assumes "\<forall>l \<in> set (qr_rows A). \<forall>r \<in> set (qr_rows B).
      evaluate_join_condition L J (qr_column_names A) (qr_column_names B) l r = Ok (P l r)"
    and "jo_join_type J \<in> {InnerJoin, LeftJoin, RightJoin, FullJoin, CrossJoin}"
  shows "execute_outer_joins L J A B =
    Ok (relational_join (jo_join_type J) P (length (qr_column_names A)) (length (qr_column_names B)) (qr_rows A) (qr_rows B),
      map (qualified_name (left_table_name J)) (qr_column_names A) @ map (qualified_name (right_table_name J)) (qr_column_names B))"
proof -
  have marks: "map2 (\<lambda>m r. m \<or> list_ex (\<lambda>l. P l r) ls) (replicate (length rs) False) rs = map (\<lambda>r. list_ex (\<lambda>l. P l r) ls) rs"
    for ls rs by (rule nth_equalityI) auto
  show ?thesis
    using join_left_rows_ok [OF assms(1), of "replicate (length (qr_rows B)) False" "[]" "[]"] assms(2)
    by (auto simp: execute_outer_joins_def Let_def marks unmatched_map relational_join_def)
qed

lemma semi_anti_joins_ok:
  assumes "\<forall>l \<in> set (qr_rows A). \<forall>r \<in> set (qr_rows B).
      evaluate_join_condition L J (qr_column_names A) (qr_column_names B) l r = Ok (P l r)"
  shows "jo_join_type J \<in> {LeftSemiJoin, RightSemiJoin} \<Longrightarrow> execute_semi_join L J A B =
      Ok (relational_join (jo_join_type J) P lw rw (qr_rows A) (qr_rows B),
        if jo_join_type J = LeftSemiJoin then qr_column_names A else qr_column_names B)"
    and "jo_join_type J \<in> {LeftAntiJoin, RightAntiJoin} \<Longrightarrow> execute_anti_join L J A B =
      Ok (relational_join (jo_join_type J) P lw rw (qr_rows A) (qr_rows B),
        if jo_join_type J = LeftAntiJoin then qr_column_names A else qr_column_names B)"
proof -
  let ?c = "evaluate_join_condition L J (qr_column_names A) (qr_column_names B)"
  have l: "\<forall>l \<in> set (qr_rows A). any_match (?c l) (qr_rows B) = Ok (list_ex (P l) (qr_rows B))"
    using assms by (blast intro: any_match_ok)
  have r: "\<forall>r \<in> set (qr_rows B). any_match (\<lambda>l. ?c l r) (qr_rows A) = Ok (list_ex (\<lambda>l. P l r) (qr_rows A))"
    using assms by (blast intro: any_match_ok)
  show "execute_semi_join L J A B = Ok (relational_join (jo_join_type J) P lw rw (qr_rows A) (qr_rows B),
      if jo_join_type J = LeftSemiJoin then qr_column_names A else qr_column_names B)"
    if "jo_join_type J \<in> {LeftSemiJoin, RightSemiJoin}"
    using that filter_rows_ok [OF l] filter_rows_ok [OF r]
    by (auto simp: execute_semi_join_def relational_join_def Let_def)
  show "execute_anti_join L J A B = Ok (relational_join (jo_join_type J) P lw rw (qr_rows A) (qr_rows B),
      if jo_join_type J = LeftAntiJoin then qr_column_names A else qr_column_names B)"
    if "jo_join_type J \<in> {LeftAntiJoin, RightAntiJoin}"
    using that l r
      filter_rows_ok [of "qr_rows A" "\<lambda>l. res_bind (any_match (?c l) (qr_rows B)) (\<lambda>b. Ok (\<not> b))" "\<lambda>l. \<not> list_ex (P l) (qr_rows B)"]
      filter_rows_ok [of "qr_rows B" "\<lambda>r. res_bind (any_match (\<lambda>l. ?c l r) (qr_rows A)) (\<lambda>b. Ok (\<not> b))" "\<lambda>r. \<not> list_ex (\<lambda>l. P l r) (qr_rows A)"]
    by (auto simp: execute_anti_join_def relational_join_def Let_def)
qed

subsection \<open>Lemmas: set operations\<close>

lemma values_equal_exact: "exact_value a \<Longrightarrow> values_equal a b = (a = b)"
  by (auto simp: values_equal_def exact_value_def split: Value.splits)

lemma values_equal_sym: "values_equal a b = values_equal b a"
  by (auto simp: values_equal_def f64_eq_def split: Value.splits)

lemma rows_equal_exact: "list_all exact_value a \<Longrightarrow> rows_equal a b = (a = b)"
proof (induction a arbitrary: b)
  case (Cons x a)
  then show ?case by (cases b) (auto simp: rows_equal_def values_equal_exact)
qed (auto simp: rows_equal_def)

lemma rows_contains_exact: "\<forall>r \<in> set rows. list_all exact_value r \<Longrightarrow> rows_contains rows t = (t \<in> set rows)"
  by (induction rows) (auto simp: rows_contains_def rows_equal_exact)

lemma count_row_occurrences_exact:
  "\<forall>r \<in> set rows. list_all exact_value r \<Longrightarrow> count_row_occurrences rows t = count (mset rows) t"
  by (induction rows) (auto simp: count_row_occurrences_def rows_equal_exact)

lemma intersect_all_count:
  assumes "\<forall>r \<in> set ls \<union> set res. list_all exact_value r"
  shows "count (mset (fold (\<lambda>l res. filter (\<lambda>r. \<not> rows_equal r l) res @ replicate (n l) l) ls res)) t =
    (if t \<in> set ls then n t else count (mset res) t)"
  using assms
proof (induction ls arbitrary: res)
  case (Cons l ls)
  let ?res = "filter (\<lambda>r. \<not> rows_equal r l) res @ replicate (n l) l"
  have "filter (\<lambda>r. \<not> rows_equal r l) res = filter (\<lambda>r. r \<noteq> l) res"
    using Cons.prems by (intro filter_cong refl) (auto simp: rows_equal_exact)
  then have "count (mset ?res) t = (if t = l then n l else count (mset res) t)" by (auto simp: count_eq_zero_iff)
  moreover have "\<forall>r \<in> set ls \<union> set ?res. list_all exact_value r" using Cons.prems by (auto simp: set_replicate_conv_if)
  ultimately show ?case by (simp only: fold_simps Cons.IH) (auto split: if_splits)
qed simp

lemma except_all_count:
  assumes "\<forall>r \<in> set ls \<union> set res. list_all exact_value r" "count (mset res) t \<le> n t"
  shows "count (mset (fold (\<lambda>l res. if count_row_occurrences res l < n l then res @ [l] else res) ls res)) t =
    min (n t) (count (mset res) t + count (mset ls) t)"
  using assms
proof (induction ls arbitrary: res)
  case (Cons l ls)
  have "count_row_occurrences res l = count (mset res) l" using Cons.prems by (simp add: count_row_occurrences_exact)
  then show ?case
    using Cons.IH [of "if count_row_occurrences res l < n l then res @ [l] else res"] Cons.prems by (cases "t = l") auto
qed simp

text \<open>The loops that skip a row they already hold.\<close>

lemma push_new_rows:
  assumes "\<forall>r \<in> set ls \<union> set res. list_all exact_value r"
  shows "mset (fold (\<lambda>l res. if p l \<and> \<not> rows_contains res l then res @ [l] else res) ls res) =
    mset res + mset_set ({r \<in> set ls. p r} - set res)"
  using assms
proof (induction ls arbitrary: res)
  case (Cons l ls)
  have c: "rows_contains res l = (l \<in> set res)" using Cons.prems by (simp add: rows_contains_exact)
  show ?case
  proof (cases "p l \<and> l \<notin> set res")
    case True
    have "{r \<in> set (l # ls). p r} - set res = insert l ({r \<in> set ls. p r} - set (res @ [l]))" using True by auto
    then show ?thesis using Cons.IH [of "res @ [l]"] Cons.prems True c by simp
  next
    case False
    then have "{r \<in> set (l # ls). p r} - set res = {r \<in> set ls. p r} - set res" by auto
    moreover have "(if p l \<and> \<not> rows_contains res l then res @ [l] else res) = res" using False c by simp
    ultimately show ?thesis using Cons.IH [of res] Cons.prems by (simp only: fold_simps) simp
  qed
qed simp

lemma set_operations_mset:
  assumes exact: "\<forall>r \<in> set A \<union> set B. list_all exact_value r"
  shows "mset (perform_union True A B) = mset A + mset B"
    "mset (perform_union False A B) = mset A + mset_set (set B - set A)"
    "mset (perform_intersect True A B) = mset A \<inter># mset B"
    "mset (perform_intersect False A B) = mset_set (set A \<inter> set B)"
    "mset (perform_except True A B) = mset A - mset B"
    "mset (perform_except False A B) = mset_set (set A - set B)"
proof -
  have contains: "rows_contains B l = (l \<in> set B)" for l using exact by (simp add: rows_contains_exact)
  have counts: "count_row_occurrences A l = count (mset A) l" "count_row_occurrences B l = count (mset B) l" for l
    using exact by (simp_all add: count_row_occurrences_exact)
  show "mset (perform_union True A B) = mset A + mset B" by (simp add: perform_union_def)
  have "(\<lambda>r res. if rows_contains res r then res else res @ [r]) = (\<lambda>r res. if True \<and> \<not> rows_contains res r then res @ [r] else res)"
    by (intro ext) simp
  then show "mset (perform_union False A B) = mset A + mset_set (set B - set A)"
    using push_new_rows [of B A "\<lambda>_. True"] exact by (simp add: perform_union_def Un_commute)
  show "mset (perform_intersect False A B) = mset_set (set A \<inter> set B)"
    using push_new_rows [of A "[]" "\<lambda>l. l \<in> set B"] exact by (simp add: perform_intersect_def contains Int_def)
  show "mset (perform_except False A B) = mset_set (set A - set B)"
    using push_new_rows [of A "[]" "\<lambda>l. l \<notin> set B"] exact by (simp add: perform_except_def contains set_diff_eq)
  show "mset (perform_intersect True A B) = mset A \<inter># mset B"
  proof (rule multiset_eqI)
    fix t
    show "count (mset (perform_intersect True A B)) t = count (mset A \<inter># mset B) t"
      using intersect_all_count [of A "[]" "\<lambda>l. min (count (mset A) l) (count (mset B) l)" t] exact
      by (cases "t \<in> set A") (simp_all add: perform_intersect_def counts Let_def not_in_iff [THEN iffD1])
  qed
  show "mset (perform_except True A B) = mset A - mset B"
  proof (rule multiset_eqI)
    fix t
    have guard: "(b < a \<and> c < a - b) = (c < a - b)" for a b c :: nat by auto
    show "count (mset (perform_except True A B)) t = count (mset A - mset B) t"
      using except_all_count [of A "[]" t "\<lambda>l. count (mset A) l - count (mset B) l"] exact
      by (simp add: perform_except_def counts Let_def guard)
  qed
qed

subsection \<open>Lemmas: sorting\<close>

lemma op_compare_values_kinds:
  "a \<noteq> NullV \<Longrightarrow> b \<noteq> NullV \<Longrightarrow> op_compare_values nulls a b = kind_cmp a b"
  by (simp add: op_compare_values_def compare_values_kinds)

interpretation value_order: total_cmp "op_compare_values nulls" not_nan for nulls
proof
  fix a b c
  show "op_compare_values nulls a a = OrdEqual" if "not_nan a"
    using that kinds.cmp_refl [of a] by (cases "a = NullV") (simp_all add: op_compare_values_def compare_values_kinds)
  show "op_compare_values nulls b a = ord_reverse (op_compare_values nulls a b)" if "not_nan a" "not_nan b"
  proof (cases "a = NullV \<or> b = NullV")
    case True
    then show ?thesis by (cases nulls) (auto simp: op_compare_values_def)
  qed (use kinds.cmp_flip [OF that] in \<open>simp add: op_compare_values_kinds\<close>)
  show "op_compare_values nulls a c \<noteq> OrdGreater" if h: "not_nan a" "not_nan b" "not_nan c"
      "op_compare_values nulls a b \<noteq> OrdGreater" "op_compare_values nulls b c \<noteq> OrdGreater"
  proof (cases "a = NullV \<or> b = NullV \<or> c = NullV")
    case True
    then show ?thesis using h(4,5) by (cases nulls) (auto simp: op_compare_values_def split: if_splits)
  qed (use kinds.cmp_trans [OF h(1-3)] h(4,5) in \<open>simp add: op_compare_values_kinds\<close>)
qed

lemma lexicographic_cmp:
  assumes "total_cmp f D" "total_cmp g D"
  shows "total_cmp (\<lambda>a b. if f a b \<noteq> OrdEqual then f a b else g a b) D"
proof
  fix a b c
  note f = total_cmp.cmp_refl [OF assms(1)] total_cmp.cmp_flip [OF assms(1)] total_cmp.cmp_trans [OF assms(1)]
  note g = total_cmp.cmp_refl [OF assms(2)] total_cmp.cmp_flip [OF assms(2)] total_cmp.cmp_trans [OF assms(2)]
  show "(if f a a \<noteq> OrdEqual then f a a else g a a) = OrdEqual" if "D a" using f(1) [OF that] g(1) [OF that] by simp
  show "(if f b a \<noteq> OrdEqual then f b a else g b a) = ord_reverse (if f a b \<noteq> OrdEqual then f a b else g a b)"
    if "D a" "D b" using f(2) [OF that] g(2) [OF that] by (cases "f a b") auto
  show "(if f a c \<noteq> OrdEqual then f a c else g a c) \<noteq> OrdGreater"
    if h: "D a" "D b" "D c" "(if f a b \<noteq> OrdEqual then f a b else g a b) \<noteq> OrdGreater"
      "(if f b c \<noteq> OrdEqual then f b c else g b c) \<noteq> OrdGreater"
  proof (cases "f a b = OrdEqual")
    case True
    then have "f a c = f b c" using total_cmp.equal_trans [OF assms(1)] h(1-3) by blast
    then show ?thesis using True h g(3) [OF h(1-3)] by (auto split: if_splits)
  next
    case False
    then have less: "f a b = OrdLess" using h(4) by (cases "f a b") auto
    have le: "f b c \<noteq> OrdGreater" using h(5) by (auto split: if_splits)
    have "f a c \<noteq> OrdGreater" using f(3) [OF h(1-3)] less le by simp
    moreover have "f a c \<noteq> OrdEqual"
    proof
      assume "f a c = OrdEqual"
      then have "f c b = f a b" using total_cmp.equal_trans [OF assms(1) h(1,3,2)] by simp
      then show False using f(2) [OF h(2,3)] less le by (cases "f b c") auto
    qed
    ultimately show ?thesis by simp
  qed
qed

lemma keyed_cmp:
  assumes "total_cmp f D" "\<And>a. E a \<Longrightarrow> D (k a)"
  shows "total_cmp (\<lambda>a b. f (k a) (k b)) E"
proof
  fix a b c
  show "f (k a) (k a) = OrdEqual" if "E a" using total_cmp.cmp_refl [OF assms(1)] assms(2) [OF that] .
  show "f (k b) (k a) = ord_reverse (f (k a) (k b))" if "E a" "E b"
    using total_cmp.cmp_flip [OF assms(1) assms(2) [OF that(1)] assms(2) [OF that(2)]] .
  show "f (k a) (k c) \<noteq> OrdGreater" if "E a" "E b" "E c" "f (k a) (k b) \<noteq> OrdGreater" "f (k b) (k c) \<noteq> OrdGreater"
    using total_cmp.cmp_trans [OF assms(1) assms(2) [OF that(1)] assms(2) [OF that(2)] assms(2) [OF that(3)] that(4,5)] .
qed

lemma total_cmp_cong:
  assumes "total_cmp f D" "\<And>a b. D a \<Longrightarrow> D b \<Longrightarrow> g a b = f a b"
  shows "total_cmp g D"
proof
  fix a b c
  show "g a a = OrdEqual" if "D a" using total_cmp.cmp_refl [OF assms(1) that] by (simp add: assms(2) that)
  show "g b a = ord_reverse (g a b)" if "D a" "D b"
    unfolding assms(2) [OF that] assms(2) [OF that(2,1)] by (rule total_cmp.cmp_flip [OF assms(1) that])
  show "g a c \<noteq> OrdGreater" if "D a" "D b" "D c" "g a b \<noteq> OrdGreater" "g b c \<noteq> OrdGreater"
    using that(4,5) total_cmp.cmp_trans [OF assms(1) that(1-3)] by (simp add: assms(2) that(1-3))
qed

lemma compare_rows_total: "total_cmp (compare_rows L names obs) (sort_keys_ok L names obs)"
proof (induction obs)
  case Nil
  show ?case by unfold_locales simp_all
next
  case (Cons ob obs)
  obtain e direction nulls where ob: "ob = OrderBy e direction nulls" by (cases ob)
  let ?D = "sort_keys_ok L names (ob # obs)"
  define k where "k = (\<lambda>row. case evaluate L (sort_context names row) e of Ok v \<Rightarrow> v | _ \<Rightarrow> NullV)"
  have key: "evaluate L (sort_context names row) e = Ok (k row) \<and> not_nan (k row)" if "?D row" for row
    using that by (auto simp: sort_keys_ok_def ob k_def split: res.splits)
  define f where "f = (\<lambda>a b. case direction of Asc \<Rightarrow> op_compare_values nulls (k a) (k b)
      | Desc \<Rightarrow> ord_reverse (op_compare_values nulls (k a) (k b)))"
  have "total_cmp f ?D"
  proof (cases direction)
    case Asc
    then show ?thesis using keyed_cmp [OF value_order.total_cmp_axioms, of ?D k] key by (simp add: f_def)
  next
    case Desc
    then show ?thesis using keyed_cmp [OF value_order.reversed, of ?D k] key by (simp add: f_def)
  qed
  moreover have "total_cmp (compare_rows L names obs) ?D"
    using keyed_cmp [OF Cons.IH, of ?D "\<lambda>r. r"] by (simp add: sort_keys_ok_def)
  ultimately show ?case
  proof (rule total_cmp_cong [OF lexicographic_cmp])
    fix a b
    assume "?D a" "?D b"
    then show "compare_rows L names (ob # obs) a b =
        (if f a b \<noteq> OrdEqual then f a b else compare_rows L names obs a b)"
      using key [of a] key [of b] by (cases direction; cases "op_compare_values nulls (k a) (k b)") (simp_all add: ob f_def)
  qed
qed

interpretation row_order: total_cmp "compare_rows L names obs" "sort_keys_ok L names obs" for L names obs
  by (rule compare_rows_total)

subsection \<open>Lemmas: distinct\<close>

lemma hash_equal_exact:
  "hash_exact v \<Longrightarrow> hash_equal v w = (v = w)"
  "list_all hash_exact row \<Longrightarrow> row_hash_equal row ws = (row = ws)"
  by (induction v w and row ws rule: hash_equal_row_hash_equal.induct) (auto split: Value.splits list.splits)

lemma fold_first_occurrences:
  assumes "\<forall>row \<in> set rows. list_all hash_exact row"
  shows "fold (\<lambda>row seen. if list_ex (row_hash_equal row) seen then seen else seen @ [row]) rows [] = rev (remdups (rev rows))"
  using assms
proof (induction rows rule: rev_induct)
  case (snoc row rows)
  then have "list_ex (row_hash_equal row) seen = (row \<in> set seen)" for seen
    by (auto simp: hash_equal_exact list_ex_iff)
  then show ?case using snoc by simp
qed simp

subsection \<open>Correctness of the operators\<close>

text \<open>
  C8. Nested-loop joins. When the join condition evaluates on every pair of rows, to the truth value
  \<open>P l r\<close>, a join returns the join of relational algebra: the pairs that satisfy it, then for the outer joins
  the rows without a partner, filled up with NULLs, and for semi and anti joins the rows with and without
  a partner. The columns of an inner or outer join are the qualified ones of both inputs.
\<close>

theorem join_relational:
  assumes "\<forall>l \<in> set (qr_rows A). \<forall>r \<in> set (qr_rows B).
      evaluate_join_condition L J (qr_column_names A) (qr_column_names B) l r = Ok (P l r)"
  shows "\<exists>names. join_execute L J A B =
      Ok \<lparr>qr_rows = relational_join (jo_join_type J) P (length (qr_column_names A)) (length (qr_column_names B)) (qr_rows A) (qr_rows B),
          qr_column_names = names\<rparr> \<and>
    (jo_join_type J \<in> {InnerJoin, LeftJoin, RightJoin, FullJoin, CrossJoin} \<longrightarrow>
      names = map (qualified_name (left_table_name J)) (qr_column_names A) @ map (qualified_name (right_table_name J)) (qr_column_names B))"
  using outer_joins_ok [OF assms]
    semi_anti_joins_ok [OF assms, where lw = "length (qr_column_names A)" and rw = "length (qr_column_names B)"]
  by (cases "jo_join_type J") (simp_all add: join_execute_def)

theorem join_relational_witness:
  "join_execute plain_lib \<lparr>jo_condition = Some (BinaryOpE (ColumnE (Some ''l'') ''a'') OpEquals (ColumnE (Some ''r'') ''b'')),
     jo_join_type = LeftJoin, jo_left_alias = Some ''l'', jo_right_alias = Some ''r''\<rparr>
     \<lparr>qr_rows = [[IntegerV 1], [IntegerV 2]], qr_column_names = [''a'']\<rparr> \<lparr>qr_rows = [[IntegerV 2]], qr_column_names = [''b'']\<rparr> =
   Ok \<lparr>qr_rows = [[IntegerV 2, IntegerV 2], [IntegerV 1, NullV]], qr_column_names = [''l.a'', ''r.b'']\<rparr>"
proof -
  let ?J = "\<lparr>jo_condition = Some (BinaryOpE (ColumnE (Some ''l'') ''a'') OpEquals (ColumnE (Some ''r'') ''b'')),
     jo_join_type = LeftJoin, jo_left_alias = Some ''l'', jo_right_alias = Some ''r''\<rparr>"
  show ?thesis
    using join_relational [of "\<lparr>qr_rows = [[IntegerV 1], [IntegerV 2]], qr_column_names = [''a'']\<rparr>"
        "\<lparr>qr_rows = [[IntegerV 2]], qr_column_names = [''b'']\<rparr>" plain_lib ?J "(=)"]
    by (simp add: evaluate_join_condition_def relational_join_def qualified_name_def left_table_name_def right_table_name_def
        Let_def ec_with_join_data_def evaluate_qualified_column_def evaluate_binary_operation_def evaluate_equals_def
        bool_value_def EvaluationContext_new_def get_column_value_def)
qed

text \<open>
  C10. Set operations. On rows of integers, strings, booleans and NULLs, the operations with ALL are the
  sum, the intersection and the difference of multisets; INTERSECT and EXCEPT without ALL return each row
  once; UNION without ALL returns each row of the right input once, unless it is in the left one, whose
  rows it keeps with all their duplicates.
\<close>

theorem set_operations_multiset:
  assumes "\<forall>row \<in> set (qr_rows A) \<union> set (qr_rows B). list_all exact_value row"
    "length (qr_column_names A) = length (qr_column_names B)"
  shows "\<exists>C. set_operation_execute operator all A B = Ok C \<and> qr_column_names C = qr_column_names A \<and>
    mset (qr_rows C) = (let X = mset (qr_rows A); Y = mset (qr_rows B) in case operator of
        UnionOp \<Rightarrow> if all then X + Y else X + mset_set (set_mset Y - set_mset X)
      | IntersectOp \<Rightarrow> if all then X \<inter># Y else mset_set (set_mset X \<inter> set_mset Y)
      | ExceptOp \<Rightarrow> if all then X - Y else mset_set (set_mset X - set_mset Y))"
  using set_operations_mset [OF assms(1)] assms(2)
  by (cases operator; cases all) (simp_all add: set_operation_execute_def)

theorem set_operations_multiset_witness:
  "\<exists>C. set_operation_execute ExceptOp True
       \<lparr>qr_rows = [[IntegerV 1], [IntegerV 1], [NullV]], qr_column_names = [''a'']\<rparr>
       \<lparr>qr_rows = [[IntegerV 1], [StringV ''x'']], qr_column_names = [''b'']\<rparr> = Ok C \<and>
     mset (qr_rows C) = {# [IntegerV 1], [NullV] #}"
  using set_operations_multiset [of "\<lparr>qr_rows = [[IntegerV 1], [IntegerV 1], [NullV]], qr_column_names = [''a'']\<rparr>"
      "\<lparr>qr_rows = [[IntegerV 1], [StringV ''x'']], qr_column_names = [''b'']\<rparr>" ExceptOp True]
  by (auto simp: exact_value_def)



text \<open>DESC reverses the place of the NULLs as well: with NULLS LAST they come first.\<close>

theorem sort_desc_nulls_last:
  "sort_execute plain_lib [OrderBy (ColumnE None ''a'') Desc NullsLast]
     \<lparr>qr_rows = [[IntegerV 1], [NullV]], qr_column_names = [''a'']\<rparr> =
   Ok \<lparr>qr_rows = [[NullV], [IntegerV 1]], qr_column_names = [''a'']\<rparr>"
  by (simp add: sort_execute_def sort_context_def evaluate_unqualified_column_def get_column_value_def ec_with_columns_def
      EvaluationContext_new_def op_compare_values_def)

text \<open>
  LIMIT and OFFSET. For every limit and offset the operator returns, without a panic, the rows after
  the offset, at most as many as the limit; a negative limit is no limit and a negative offset is zero.
\<close>

theorem limit_correct:
  "limit_execute limit offset A = Ok (A\<lparr>qr_rows :=
     (let rest = drop (nat (sint (case offset of Some n \<Rightarrow> n | None \<Rightarrow> 0))) (qr_rows A)
      in if sint limit < 0 then rest else take (nat (sint limit)) rest)\<rparr>)"
  by (auto simp: limit_execute_def Let_def min_def not_less)

text \<open>
  DISTINCT. On rows without NaN and zero floats the operator returns the first occurrence of each row, in the
  order of the input.
\<close>

theorem distinct_correct:
  assumes "\<forall>row \<in> set (qr_rows A). list_all hash_exact row"
  shows "distinct_execute A = A\<lparr>qr_rows := rev (remdups (rev (qr_rows A)))\<rparr>"
  using fold_first_occurrences [OF assms] by (simp add: distinct_execute_def)

theorem distinct_correct_witness:
  "qr_rows (distinct_execute \<lparr>qr_rows = [[StringV ''x''], [NullV], [StringV ''x'']], qr_column_names = [''a'']\<rparr>) =
     [[StringV ''x''], [NullV]]"
  using distinct_correct [of "\<lparr>qr_rows = [[StringV ''x''], [NullV], [StringV ''x'']], qr_column_names = [''a'']\<rparr>"] by simp

text \<open>
  Conjunctions of filters. When neither condition panics on a row of the input, filtering by
  \<open>p AND q\<close> is filtering by \<open>p\<close> and then by \<open>q\<close>, whichever of them fail on whichever rows.
\<close>

theorem filter_conjunction:
  assumes "\<forall>row \<in> set (qr_rows A). \<forall>e \<in> {p, q}.
      returns (evaluate L (create_evaluation_context table_alias (qr_column_names A) row context) e)"
  shows "filter_execute L (BinaryOpE p OpAnd q) table_alias context A =
    res_bind (filter_execute L p table_alias context A) (filter_execute L q table_alias context)"
proof -
  let ?c = "\<lambda>row. create_evaluation_context table_alias (qr_column_names A) row context"
  define P where "P = (\<lambda>e row. case evaluate L (?c row) e of Ok v \<Rightarrow> tvl_from_value v = TTrue | _ \<Rightarrow> False)"
  have "row_passes L e (?c row) = Ok (P e row)" if "row \<in> set (qr_rows A)" "e \<in> {p, q}" for e row
    using assms that unfolding P_def by (intro row_passes_returns) blast
  moreover have "row_passes L (BinaryOpE p OpAnd q) (?c row) = Ok (P p row \<and> P q row)" if "row \<in> set (qr_rows A)" for row
    using assms that unfolding P_def by (intro row_passes_and) blast+
  ultimately show ?thesis
    by (simp add: filter_execute_def filter_rows_ok [where P = "P p"] filter_rows_ok [where P = "P q"]
        filter_rows_ok [where P = "\<lambda>row. P p row \<and> P q row"])
qed

theorem filter_conjunction_witness:
  "filter_execute plain_lib (BinaryOpE (ColumnE None ''a'') OpAnd (BinaryOpE (ColumnE None ''a'') OpLessThan (ValueE (IntegerV 3)))) None
     \<lparr>xc_outer_context_values = None, xc_materialized_ctes = None\<rparr>
     \<lparr>qr_rows = [[IntegerV 2], [IntegerV 5], [NullV]], qr_column_names = [''a'']\<rparr> =
   Ok \<lparr>qr_rows = [[IntegerV 2]], qr_column_names = [''a'']\<rparr>"
proof -
  let ?A = "\<lparr>qr_rows = [[IntegerV 2], [IntegerV 5], [NullV]], qr_column_names = [''a'']\<rparr>"
  let ?X = "\<lparr>xc_outer_context_values = None, xc_materialized_ctes = None\<rparr>"
  note eval = create_evaluation_context_def evaluate_unqualified_column_def get_column_value_def ec_with_columns_def
    EvaluationContext_new_def evaluate_binary_operation_def handle_null_in_binary_operation_def evaluate_less_than_def
    less_than_result_def option_value_def bool_value_def row_passes_def filter_execute_def
  show ?thesis
    using filter_conjunction [of ?A "ColumnE None ''a''" "BinaryOpE (ColumnE None ''a'') OpLessThan (ValueE (IntegerV 3))" plain_lib None ?X]
    by (simp add: eval)
qed

end
