(* ===== verification/Physical_Operators.thy ===== *)
theory Physical_Operators
  imports Operators
begin

section \<open>Hash join, merge join and aggregation (\<^verbatim>\<open>src/src/executor/operators.rs\<close>, second part)\<close>

text \<open>
  The operators the planner may choose in the place of a nested-loop join, and the grouping of rows.
  As in the theory of the other operators each is a function of the results of its inputs. The hash
  table and the table of groups are association lists in the order of insertion, where the sources
  have a \<^verbatim>\<open>HashMap\<close>: they read the groups out in an order that is not determined.

  The lemmas relate the joins to the selection from the product of the inputs, and the groups to the
  rows that have the same key.
\<close>

subsection \<open>Hash join\<close>

definition key_part :: "expr_lib \<Rightarrow> string list \<Rightarrow> Value list \<Rightarrow> string \<Rightarrow> string list" where
  "key_part L column_names row c =
     (case index_of c column_names of
        Some i \<Rightarrow> if i < length row then [debug_value L (row ! i)] else []
      | None \<Rightarrow> [])"

definition extract_hash_key :: "expr_lib \<Rightarrow> string list \<Rightarrow> Value list \<Rightarrow> string list \<Rightarrow> string" where
  "extract_hash_key L hash_key_columns row column_names =
     join_texts ''|'' (concat (map (key_part L column_names row) hash_key_columns))"

definition push_entry :: "'k \<Rightarrow> 'a \<Rightarrow> ('k, 'a list) hmap \<Rightarrow> ('k, 'a list) hmap" where
  "push_entry k x m = hm_insert k ((case hm_get m k of Some xs \<Rightarrow> xs | None \<Rightarrow> []) @ [x]) m"

definition build_hash_table :: "expr_lib \<Rightarrow> string list \<Rightarrow> QueryResult \<Rightarrow> (string, Value list list) hmap" where
  "build_hash_table L hash_key_columns input_result =
     fold (\<lambda>row. push_entry (extract_hash_key L hash_key_columns row (qr_column_names input_result)) row)
       (qr_rows input_result) []"

text \<open>The condition, evaluated under the columns of both rows; a value that is not boolean counts as false.\<close>

definition combined_condition ::
    "expr_lib \<Rightarrow> expr option \<Rightarrow> string list \<Rightarrow> string list \<Rightarrow> Value list \<Rightarrow> Value list \<Rightarrow> bool res" where
  "combined_condition L condition left_columns right_columns left_row right_row =
     (case condition of
        Some e \<Rightarrow> res_bind (evaluate L (ec_with_columns
            (row_columns None (left_columns @ right_columns) (left_row @ right_row) [])) e)
            (\<lambda>v. case v of BooleanV b \<Rightarrow> Ok b | _ \<Rightarrow> Ok False)
      | None \<Rightarrow> Ok True)"

fun probe_matches ::
    "(Value list \<Rightarrow> bool res) \<Rightarrow> Value list \<Rightarrow> Value list list \<Rightarrow> Value list list res" where
  "probe_matches cond left_row [] = Ok []"
| "probe_matches cond left_row (r # rs) =
     res_bind (cond r) (\<lambda>b. res_bind (probe_matches cond left_row rs) (\<lambda>rows.
       Ok (if b then (left_row @ r) # rows else rows)))"

fun probe_rows ::
    "(Value list \<Rightarrow> Value list \<Rightarrow> bool res) \<Rightarrow> (Value list \<Rightarrow> Value list list) \<Rightarrow> Value list list \<Rightarrow> Value list list res" where
  "probe_rows cond lookup [] = Ok []"
| "probe_rows cond lookup (l # ls) =
     res_bind (probe_matches (cond l) l (lookup l)) (\<lambda>rows. res_bind (probe_rows cond lookup ls) (\<lambda>rest. Ok (rows @ rest)))"

definition hash_join_execute ::
    "expr_lib \<Rightarrow> expr option \<Rightarrow> string list \<Rightarrow> QueryResult \<Rightarrow> QueryResult \<Rightarrow> QueryResult res" where
  "hash_join_execute L condition hash_key_columns left_result right_result =
     (let hash_table = build_hash_table L hash_key_columns right_result;
          lookup = (\<lambda>l. case hm_get hash_table (extract_hash_key L hash_key_columns l (qr_column_names left_result)) of
             Some rows \<Rightarrow> rows | None \<Rightarrow> [])
      in res_bind (probe_rows (combined_condition L condition (qr_column_names left_result) (qr_column_names right_result))
             lookup (qr_rows left_result)) (\<lambda>rows.
         Ok \<lparr>qr_rows = rows, qr_column_names = qr_column_names left_result @ qr_column_names right_result\<rparr>))"

subsection \<open>Merge join\<close>

fun compare_at :: "(nat \<times> nat) list \<Rightarrow> Value list \<Rightarrow> Value list \<Rightarrow> Ordering" where
  "compare_at [] a b = OrdEqual"
| "compare_at ((i, j) # ps) a b =
     (let c = (if i < length a \<and> j < length b then op_compare_values NullsDefault (a ! i) (b ! j) else OrdEqual)
      in if c \<noteq> OrdEqual then c else compare_at ps a b)"

definition merge_sort_input :: "string list \<Rightarrow> QueryResult \<Rightarrow> QueryResult" where
  "merge_sort_input sort_columns r =
     (let idx = List.map_filter (\<lambda>c. index_of c (qr_column_names r)) sort_columns
      in if idx = [] then r else r\<lparr>qr_rows := sort_by (compare_at (map (\<lambda>i. (i, i)) idx)) (qr_rows r)\<rparr>)"

definition merge_compare_rows ::
    "string list \<Rightarrow> string list \<Rightarrow> string list \<Rightarrow> Value list \<Rightarrow> Value list \<Rightarrow> Ordering" where
  "merge_compare_rows sort_columns left_columns right_columns a b = compare_at
     (List.map_filter (\<lambda>c. case (index_of c left_columns, index_of c right_columns) of
         (Some i, Some j) \<Rightarrow> Some (i, j) | _ \<Rightarrow> None) sort_columns) a b"

fun combine_groups ::
    "(Value list \<Rightarrow> Value list \<Rightarrow> bool res) \<Rightarrow> Value list list \<Rightarrow> Value list list \<Rightarrow> Value list list res" where
  "combine_groups cond [] rs = Ok []"
| "combine_groups cond (l # ls) rs =
     res_bind (probe_matches (cond l) l rs) (\<lambda>rows. res_bind (combine_groups cond ls rs) (\<lambda>rest. Ok (rows @ rest)))"

lemma op_compare_self [simp]: "op_compare_values nulls v v = OrdEqual"
  by (cases v) (simp_all add: op_compare_values_def ord_cmp_def f64_cmp_def str_cmp_refl f64_lt_def)

lemma compare_at_same [simp]: "compare_at (map (\<lambda>i. (i, i)) idx) a a = OrdEqual"
  by (induction idx) simp_all

lemma merge_compare_same [simp]: "merge_compare_rows sort_columns columns columns a a = OrdEqual"
proof -
  have "compare_at (List.map_filter (\<lambda>c. case (index_of c columns, index_of c columns) of
      (Some i, Some j) \<Rightarrow> Some (i, j) | _ \<Rightarrow> None) cs) a a = OrdEqual" for cs
    by (induction cs) (auto simp: List.map_filter_simps split: option.split)
  then show ?thesis by (simp add: merge_compare_rows_def)
qed

lemma groups_shorter: "length (dropWhile P xs) + length (dropWhile Q ys) < Suc (Suc (length xs + length ys))"
  using length_dropWhile_le [of P xs] length_dropWhile_le [of Q ys] by linarith

text \<open>The rows from the two current positions on.\<close>

function merge_loop ::
    "string list \<Rightarrow> (Value list \<Rightarrow> Value list \<Rightarrow> bool res) \<Rightarrow> string list \<Rightarrow> string list \<Rightarrow>
     Value list list \<Rightarrow> Value list list \<Rightarrow> Value list list res" where
  "merge_loop cols cond lc rc [] rs = Ok []"
| "merge_loop cols cond lc rc (l # ls) [] = Ok []"
| "merge_loop cols cond lc rc (l # ls) (r # rs) =
     (case merge_compare_rows cols lc rc l r of
        OrdLess \<Rightarrow> merge_loop cols cond lc rc ls (r # rs)
      | OrdGreater \<Rightarrow> merge_loop cols cond lc rc (l # ls) rs
      | OrdEqual \<Rightarrow>
          (let same_left = (\<lambda>x. merge_compare_rows cols lc lc x l = OrdEqual);
               same_right = (\<lambda>x. merge_compare_rows cols rc rc x r = OrdEqual)
           in res_bind (cond l r) (\<lambda>b.
              res_bind (combine_groups cond (takeWhile same_left (l # ls)) (takeWhile same_right (r # rs))) (\<lambda>rows.
              res_bind (merge_loop cols cond lc rc (dropWhile same_left (l # ls)) (dropWhile same_right (r # rs))) (\<lambda>rest.
                Ok ((if b then [l @ r] else []) @ rows @ rest))))))"
  by pat_completeness auto
termination
  by (relation "measure (\<lambda>(cols, cond, lc, rc, ls, rs). length ls + length rs)")
    (auto intro!: groups_shorter)

definition merge_join_execute ::
    "expr_lib \<Rightarrow> expr option \<Rightarrow> string list \<Rightarrow> QueryResult \<Rightarrow> QueryResult \<Rightarrow> QueryResult res" where
  "merge_join_execute L condition sort_columns left_result right_result =
     (let left1 = merge_sort_input sort_columns left_result;
          right1 = merge_sort_input sort_columns right_result;
          lc = qr_column_names left1; rc = qr_column_names right1
      in res_bind (merge_loop sort_columns (combined_condition L condition lc rc) lc rc (qr_rows left1) (qr_rows right1))
         (\<lambda>rows. Ok \<lparr>qr_rows = rows, qr_column_names = lc @ rc\<rparr>))"

text \<open>What the planner asks of a join condition.\<close>

fun extract_hash_key_columns :: "expr option \<Rightarrow> string list" where
  "extract_hash_key_columns (Some (BinaryOpE (ColumnE _ a) OpEquals (ColumnE _ b))) = [a, b]"
| "extract_hash_key_columns _ = []"

fun has_equality_condition :: "expr \<Rightarrow> bool" where
  "has_equality_condition (BinaryOpE l op r) =
     (op = OpEquals \<or> has_equality_condition l \<or> has_equality_condition r)"
| "has_equality_condition _ = False"

definition is_hash_join_suitable :: "expr option \<Rightarrow> bool" where
  "is_hash_join_suitable c = (case c of Some e \<Rightarrow> has_equality_condition e | None \<Rightarrow> True)"

definition is_merge_join_suitable :: "expr option \<Rightarrow> bool" where
  "is_merge_join_suitable c = (case c of Some e \<Rightarrow> has_equality_condition e | None \<Rightarrow> True)"

fun contains_non_equi_operator :: "expr \<Rightarrow> bool" where
  "contains_non_equi_operator (BinaryOpE l op r) =
     (op \<in> {OpGreaterThan, OpGreaterThanOrEquals, OpLessThan, OpLessThanOrEquals, OpLike, OpILike} \<or>
      contains_non_equi_operator l \<or> contains_non_equi_operator r)"
| "contains_non_equi_operator _ = False"

definition is_non_equi_join :: "expr option \<Rightarrow> bool" where
  "is_non_equi_join c = (case c of Some e \<Rightarrow> contains_non_equi_operator e | None \<Rightarrow> False)"

subsection \<open>Aggregation\<close>

text \<open>A call with the same name and the same arguments, up to case.\<close>

fun expressions_match :: "expr \<Rightarrow> expr \<Rightarrow> bool"
and all_expressions_match :: "expr list \<Rightarrow> expr list \<Rightarrow> bool" where
  "expressions_match (FunctionE n1 a1 d1) e = (case e of
     FunctionE n2 a2 d2 \<Rightarrow> to_uppercase n1 = to_uppercase n2 \<and> length a1 = length a2 \<and> all_expressions_match a1 a2
   | _ \<Rightarrow> False)"
| "expressions_match (ColumnE t1 n1) e = (case e of
     ColumnE t2 n2 \<Rightarrow> to_uppercase n1 = to_uppercase n2 | _ \<Rightarrow> False)"
| "expressions_match (LiteralE v1) e = (case e of LiteralE v2 \<Rightarrow> value_eq v1 v2 | _ \<Rightarrow> False)"
| "expressions_match _ _ = False"
| "all_expressions_match [] bs = True"
| "all_expressions_match (a # as) bs =
     (case bs of [] \<Rightarrow> True | b # bs' \<Rightarrow> expressions_match a b \<and> all_expressions_match as bs')"

definition match_aggregate_in_having ::
    "expr \<Rightarrow> (string \<times> expr) list \<Rightarrow> Value list \<Rightarrow> nat \<Rightarrow> Value option" where
  "match_aggregate_in_having having_expr aggregate_functions result_row group_by_columns_len =
     (case having_expr of
        FunctionE name args _ \<Rightarrow>
          if to_uppercase name \<in> set aggregate_names
          then map_option (\<lambda>(i, _). result_row ! (group_by_columns_len + i))
                 (find (\<lambda>(i, _, agg_expr). expressions_match having_expr agg_expr \<and>
                    group_by_columns_len + i < length result_row)
                   (zip [0..<length aggregate_functions] aggregate_functions))
          else None
      | _ \<Rightarrow> None)"

definition create_aggregate_state :: "expr \<Rightarrow> AggregateState" where
  "create_aggregate_state e =
     (case e of
        FunctionE name _ dist \<Rightarrow>
          (let n = to_uppercase name
           in if n = ''COUNT'' then new_count dist
              else if n = ''SUM'' then new_sum dist
              else if n = ''AVG'' then new_avg dist
              else if n = ''MIN'' then new_min
              else if n = ''MAX'' then new_max
              else new_count False)
      | _ \<Rightarrow> new_count False)"

text \<open>The value of a row that an aggregate takes in; an error counts as NULL.\<close>

definition aggregate_argument :: "expr_lib \<Rightarrow> EvaluationContext \<Rightarrow> expr \<Rightarrow> Value res" where
  "aggregate_argument L c e =
     (case e of
        FunctionE name args _ \<Rightarrow>
          if to_uppercase name = ''COUNT'' \<and> args = [StarE] then Ok (IntegerV 1)
          else (case args of arg # _ \<Rightarrow> value_or_null (evaluate L c arg) | [] \<Rightarrow> Ok NullV)
      | _ \<Rightarrow> value_or_null (evaluate L c e))"

record AggregateOperator =
  ao_group_by_columns :: "expr list"
  ao_aggregate_functions :: "(string \<times> expr) list"
  ao_having_clause :: "expr option"

definition basic_context :: "string list \<Rightarrow> Value list \<Rightarrow> EvaluationContext" where
  "basic_context column_names row = ec_with_columns (row_columns None column_names row [])"

definition group_key_part :: "expr_lib \<Rightarrow> Value res \<Rightarrow> string res" where
  "group_key_part L r = (case r of Ok v \<Rightarrow> Ok (debug_value L v) | Err _ \<Rightarrow> Ok ''NULL'' | _ \<Rightarrow> res_cast r)"

definition group_key :: "expr_lib \<Rightarrow> AggregateOperator \<Rightarrow> EvaluationContext \<Rightarrow> string res" where
  "group_key L A c =
     (if ao_group_by_columns A = [] then Ok ''SINGLE_GROUP''
      else res_bind (map_rows (\<lambda>e. group_key_part L (evaluate L c e)) (ao_group_by_columns A))
             (\<lambda>parts. Ok (join_texts ''|'' parts)))"

definition group_values :: "expr_lib \<Rightarrow> AggregateOperator \<Rightarrow> EvaluationContext \<Rightarrow> Value list res" where
  "group_values L A c = map_rows (\<lambda>e. value_or_null (evaluate L c e)) (ao_group_by_columns A)"

definition row_arguments :: "expr_lib \<Rightarrow> AggregateOperator \<Rightarrow> EvaluationContext \<Rightarrow> Value list res" where
  "row_arguments L A c = map_rows (\<lambda>(_, e). aggregate_argument L c e) (ao_aggregate_functions A)"

type_synonym groups = "(string, Value list \<times> AggregateState list) hmap"

definition group_row :: "expr_lib \<Rightarrow> AggregateOperator \<Rightarrow> string list \<Rightarrow> Value list \<Rightarrow> groups \<Rightarrow> groups res" where
  "group_row L A column_names row groups =
     (let c = basic_context column_names row
      in res_bind (group_key L A c) (\<lambda>k.
         res_bind (case hm_get groups k of
             Some entry \<Rightarrow> Ok entry
           | None \<Rightarrow> res_bind (group_values L A c) (\<lambda>vs.
               Ok (vs, map (\<lambda>(_, e). create_aggregate_state e) (ao_aggregate_functions A)))) (\<lambda>(vs, states).
         res_bind (row_arguments L A c) (\<lambda>args.
         Ok (hm_insert k (vs, map2 (aggregate_update L) args states) groups)))))"

fun group_rows :: "expr_lib \<Rightarrow> AggregateOperator \<Rightarrow> string list \<Rightarrow> Value list list \<Rightarrow> groups \<Rightarrow> groups res" where
  "group_rows L A column_names [] groups = Ok groups"
| "group_rows L A column_names (row # rows) groups =
     res_bind (group_row L A column_names row groups) (group_rows L A column_names rows)"

text \<open>The context of HAVING: the grouping columns, the aggregates by alias, and by a text of their call.\<close>

fun having_columns :: "expr list \<Rightarrow> (string \<times> expr) list \<Rightarrow> Value list \<Rightarrow> (string, Value) hmap \<Rightarrow> (string, Value) hmap" where
  "having_columns (e # es) fs (v # vs) m =
     having_columns es fs vs (case e of ColumnE _ name \<Rightarrow> hm_insert name v m | _ \<Rightarrow> m)"
| "having_columns [] ((alias, _) # fs) (v # vs) m = having_columns [] fs vs (hm_insert alias v m)"
| "having_columns _ _ _ m = m"

fun having_aggregates :: "(string \<times> expr) list \<Rightarrow> Value list \<Rightarrow> (string, Value) hmap \<Rightarrow> (string, Value) hmap" where
  "having_aggregates ((_, e) # fs) (v # vs) m =
     having_aggregates fs vs (case e of FunctionE name args _ \<Rightarrow> hm_insert (having_key name args) v m | _ \<Rightarrow> m)"
| "having_aggregates _ _ m = m"

definition having_passes :: "expr_lib \<Rightarrow> AggregateOperator \<Rightarrow> Value list \<Rightarrow> bool res" where
  "having_passes L A result_row =
     (case ao_having_clause A of
        None \<Rightarrow> Ok True
      | Some having_expr \<Rightarrow>
          (let c = set_having_aggregates
                (having_aggregates (ao_aggregate_functions A) (drop (length (ao_group_by_columns A)) result_row) [])
                (ec_with_columns (having_columns (ao_group_by_columns A) (ao_aggregate_functions A) result_row []))
           in case evaluate L c having_expr of
                Ok v \<Rightarrow> Ok (case v of BooleanV b \<Rightarrow> b | NullV \<Rightarrow> False | _ \<Rightarrow> True)
              | Err _ \<Rightarrow> Ok True
              | Panic m \<Rightarrow> Panic m
              | Deadlock \<Rightarrow> Deadlock))"

definition group_column_name :: "expr \<Rightarrow> string" where
  "group_column_name e = (case e of ColumnE _ name \<Rightarrow> name | _ \<Rightarrow> ''group_expr'')"

definition aggregate_execute :: "expr_lib \<Rightarrow> AggregateOperator \<Rightarrow> QueryResult \<Rightarrow> QueryResult res" where
  "aggregate_execute L A input_result =
     (if qr_rows input_result = []
      then Ok \<lparr>qr_rows = (if ao_group_by_columns A = []
                 then [map (\<lambda>(_, e). aggregate_result (create_aggregate_state e)) (ao_aggregate_functions A)] else []),
               qr_column_names = map fst (ao_aggregate_functions A)\<rparr>
      else res_bind (group_rows L A (qr_column_names input_result) (qr_rows input_result) []) (\<lambda>groups.
           res_bind (filter_rows (having_passes L A)
               (map (\<lambda>(_, vs, states). vs @ map aggregate_result states) groups)) (\<lambda>rows.
           Ok \<lparr>qr_rows = rows,
               qr_column_names = map group_column_name (ao_group_by_columns A) @ map fst (ao_aggregate_functions A)\<rparr>)))"

subsection \<open>Lemmas: hash join\<close>

lemma hash_table_lookup:
  "hm_get (fold (\<lambda>x. push_entry (k x) x) xs []) key =
     (let m = filter (\<lambda>x. k x = key) xs in if m = [] then None else Some m)"
  by (induction xs rule: rev_induct) (auto simp: push_entry_def Let_def)

lemma probe_matches_ok:
  "\<forall>r \<in> set rs. cond r = Ok (P r) \<Longrightarrow> probe_matches cond l rs = Ok (map ((@) l) (filter P rs))"
  by (induction rs) auto

lemma probe_rows_ok:
  assumes "\<forall>l \<in> set ls. set (lookup l) \<subseteq> set rs" "\<forall>l \<in> set ls. \<forall>r \<in> set rs. cond l r = Ok (P l r)"
  shows "probe_rows cond lookup ls = Ok (concat (map (\<lambda>l. map ((@) l) (filter (P l) (lookup l))) ls))"
  using assms
proof (induction ls)
  case (Cons l ls)
  then have "probe_matches (cond l) l (lookup l) = Ok (map ((@) l) (filter (P l) (lookup l)))"
    by (intro probe_matches_ok) auto
  then show ?case using Cons by simp
qed simp

text \<open>The joined rows of the pairs that satisfy a predicate.\<close>

definition joined :: "(Value list \<Rightarrow> Value list \<Rightarrow> bool) \<Rightarrow> Value list list \<Rightarrow> Value list list \<Rightarrow> Value list list" where
  "joined Q ls rs = concat (map (\<lambda>l. map ((@) l) (filter (Q l) rs)) ls)"

lemma joined_relational: "(relational_join InnerJoin P lw rw ls rs) = joined P ls rs"
proof -
  have "concat (map (\<lambda>r. if P l r then [l @ r] else []) rs) = map ((@) l) (filter (P l) rs)" for l
    by (induction rs) auto
  then show ?thesis by (simp add: relational_join_def joined_def Let_def)
qed

lemma joined_cong:
  "(\<And>l r. l \<in> set ls \<Longrightarrow> r \<in> set rs \<Longrightarrow> P l r = Q l r) \<Longrightarrow> joined P ls rs = joined Q ls rs"
  unfolding joined_def by (intro arg_cong [where f = concat] map_cong refl) (auto cong: filter_cong)

subsection \<open>Lemmas: merge join\<close>

fun key_cmp :: "Value list \<Rightarrow> Value list \<Rightarrow> Ordering" where
  "key_cmp (v # vs) (w # ws) =
     (if op_compare_values NullsDefault v w \<noteq> OrdEqual then op_compare_values NullsDefault v w else key_cmp vs ws)"
| "key_cmp _ _ = OrdEqual"

definition key_of :: "string list \<Rightarrow> string list \<Rightarrow> Value list \<Rightarrow> Value list" where
  "key_of cols names row = map (\<lambda>c. row ! the (index_of c names)) cols"

text \<open>The rows that have a value, other than NaN, in every column.\<close>

definition full_row :: "string list \<Rightarrow> Value list \<Rightarrow> bool" where
  "full_row names row \<longleftrightarrow> length names \<le> length row \<and> list_all not_nan row"

lemma key_cmp_total: "total_cmp key_cmp (\<lambda>k. length k = n \<and> list_all not_nan k)"
proof (induction n)
  case 0
  show ?case by unfold_locales auto
next
  case (Suc n)
  let ?D = "\<lambda>k. length k = Suc n \<and> list_all not_nan k"
  have "total_cmp (\<lambda>a b. op_compare_values NullsDefault (hd a) (hd b)) ?D"
    by (rule keyed_cmp [OF value_order.total_cmp_axioms]) (auto simp: length_Suc_conv)
  moreover have "total_cmp (\<lambda>a b. key_cmp (tl a) (tl b)) ?D"
    by (rule keyed_cmp [OF Suc.IH]) (auto simp: length_Suc_conv)
  ultimately show ?case
    by (rule total_cmp_cong [OF lexicographic_cmp]) (auto simp: length_Suc_conv)
qed

interpretation key_order: total_cmp key_cmp "\<lambda>k. length k = n \<and> list_all not_nan k" for n
  by (rule key_cmp_total)

lemma index_of_Some: "c \<in> set names \<Longrightarrow> \<exists>i. index_of c names = Some i \<and> i < length names"
  using index_of_None [of c names] index_of_less [of c names] by (cases "index_of c names") auto

lemma full_row_key:
  assumes "full_row names row" "set cols \<subseteq> set names"
  shows "length (key_of cols names row) = length cols \<and> list_all not_nan (key_of cols names row)"
proof -
  have "not_nan (row ! the (index_of c names))" if "c \<in> set cols" for c
    using index_of_Some [of c names] that assms by (fastforce simp: full_row_def list_all_length)
  then show ?thesis by (simp add: key_of_def list_all_iff)
qed

lemma merge_compare_keys:
  assumes "full_row n1 a" "full_row n2 b" "set cols \<subseteq> set n1" "set cols \<subseteq> set n2"
  shows "merge_compare_rows cols n1 n2 a b = key_cmp (key_of cols n1 a) (key_of cols n2 b)"
  using assms(3,4)
proof (induction cols)
  case Nil
  show ?case by (simp add: merge_compare_rows_def List.map_filter_simps key_of_def)
next
  case (Cons c cols)
  obtain i j where ij: "index_of c n1 = Some i" "i < length n1" "index_of c n2 = Some j" "j < length n2"
    using index_of_Some [of c n1] index_of_Some [of c n2] Cons.prems by auto
  then show ?case
    using Cons assms(1,2) by (simp add: merge_compare_rows_def List.map_filter_simps key_of_def full_row_def Let_def)
qed

lemma sort_input_keys:
  assumes "\<forall>row \<in> set (qr_rows q). full_row (qr_column_names q) row" "set cols \<subseteq> set (qr_column_names q)"
  shows "mset (qr_rows (merge_sort_input cols q)) = mset (qr_rows q)"
    "qr_column_names (merge_sort_input cols q) = qr_column_names q"
    "sorted_wrt (\<lambda>a b. key_cmp (key_of cols (qr_column_names q) a) (key_of cols (qr_column_names q) b) \<noteq> OrdGreater)
       (qr_rows (merge_sort_input cols q))"
proof -
  let ?n = "qr_column_names q" and ?idx = "List.map_filter (\<lambda>c. index_of c (qr_column_names q)) cols"
  have cmp: "compare_at (map (\<lambda>i. (i, i)) (List.map_filter (\<lambda>c. index_of c ?n) cs)) a b = key_cmp (key_of cs ?n a) (key_of cs ?n b)"
    if "full_row ?n a" "full_row ?n b" "set cs \<subseteq> set ?n" for a b cs
    using that(3)
  proof (induction cs)
    case (Cons c cs)
    obtain i where "index_of c ?n = Some i" "i < length ?n" using index_of_Some [of c ?n] Cons.prems by auto
    then show ?case using Cons that(1,2) by (simp add: List.map_filter_simps key_of_def full_row_def Let_def)
  qed (simp add: List.map_filter_simps key_of_def)
  show "mset (qr_rows (merge_sort_input cols q)) = mset (qr_rows q)"
    "qr_column_names (merge_sort_input cols q) = ?n"
    by (simp_all add: merge_sort_input_def Let_def)
  let ?le = "\<lambda>a b. key_cmp (key_of cols ?n a) (key_of cols ?n b) \<noteq> OrdGreater"
  show "sorted_wrt ?le (qr_rows (merge_sort_input cols q))"
  proof (cases "?idx = []")
    case True
    have "cols = []"
    proof (rule ccontr)
      assume "cols \<noteq> []"
      then obtain c cs where c: "cols = c # cs" by (cases cols) auto
      then obtain i where "index_of c ?n = Some i" using index_of_Some [of c ?n] assms(2) by auto
      then show False using True c by (simp add: List.map_filter_simps)
    qed
    then show ?thesis using True by (simp add: merge_sort_input_def key_of_def sorted_wrt_true)
  next
    case False
    have "total_cmp (compare_at (map (\<lambda>i. (i, i)) ?idx)) (full_row ?n)"
      by (rule total_cmp_cong [OF keyed_cmp [OF key_cmp_total [of "length cols"], of "full_row ?n" "key_of cols ?n"]])
        (use full_row_key assms(2) cmp in auto)
    from total_cmp.sort_by_sorted [OF this, of "qr_rows q"] assms(1)
    have "sorted_wrt (\<lambda>a b. compare_at (map (\<lambda>i. (i, i)) ?idx) a b \<noteq> OrdGreater) (qr_rows (merge_sort_input cols q))"
      using False by (simp add: merge_sort_input_def Let_def)
    moreover have "set (qr_rows (merge_sort_input cols q)) = set (qr_rows q)"
      by (simp add: merge_sort_input_def Let_def)
    ultimately show ?thesis
      using assms cmp by (auto intro: sorted_wrt_mono_rel [rotated])
  qed
qed

lemma mset_joined: "mset (joined Q ls rs) = (\<Sum>l \<in># mset ls. image_mset ((@) l) (filter_mset (Q l) (mset rs)))"
  by (induction ls) (simp_all add: joined_def)

lemma joined_append:
  "joined Q (xs @ ys) rs = joined Q xs rs @ joined Q ys rs"
  "mset (joined Q ls (rs @ rs')) = mset (joined Q ls rs) + mset (joined Q ls rs')"
  by (simp_all add: joined_def) (induction ls; simp add: joined_def)

lemma joined_none: "(\<And>l r. l \<in> set ls \<Longrightarrow> r \<in> set rs \<Longrightarrow> \<not> Q l r) \<Longrightarrow> joined Q ls rs = []"
  by (auto simp: joined_def filter_empty_conv)

text \<open>In rows sorted by their keys, those with the least key come first and the others are greater.\<close>

lemma group_split:
  assumes D: "\<forall>x \<in> set (l # ls). length (k x) = n \<and> list_all not_nan (k x)"
    and s: "sorted_wrt (\<lambda>a b. key_cmp (k a) (k b) \<noteq> OrdGreater) (l # ls)"
    and y: "y \<in> set (dropWhile (\<lambda>x. key_cmp (k x) (k l) = OrdEqual) (l # ls))"
  shows "key_cmp (k l) (k y) = OrdLess"
  using assms
proof (induction ls)
  case Nil
  then show ?case using key_order.cmp_refl [of "k l" n] by simp
next
  case (Cons x xs)
  note refl = key_order.cmp_refl [of "k l" n]
  have self: "key_cmp (k l) (k l) = OrdEqual" using refl Cons.prems(1) by simp
  show ?case
  proof (cases "key_cmp (k x) (k l) = OrdEqual")
    case True
    then show ?thesis using Cons self by (auto split: if_splits)
  next
    case False
    then have less: "key_cmp (k l) (k x) = OrdLess"
      using Cons.prems(1,2) key_order.cmp_flip [of "k l" n "k x"] by (cases "key_cmp (k l) (k x)") auto
    have yx: "y \<in> set (x # xs)" using Cons.prems(3) False self by simp
    show ?thesis
    proof (cases "y = x")
      case False
      then have le: "key_cmp (k x) (k y) \<noteq> OrdGreater" using Cons.prems(2) yx by auto
      have D3: "length (k l) = n \<and> list_all not_nan (k l)" "length (k x) = n \<and> list_all not_nan (k x)"
        "length (k y) = n \<and> list_all not_nan (k y)" using Cons.prems(1) yx by auto
      have "key_cmp (k l) (k y) \<noteq> OrdGreater" using key_order.cmp_trans [OF D3] less le by simp
      moreover have "key_cmp (k l) (k y) \<noteq> OrdEqual"
      proof
        assume "key_cmp (k l) (k y) = OrdEqual"
        from key_order.equal_trans [OF D3(1,3,2) this] less have "key_cmp (k y) (k x) = OrdLess" by simp
        then show False using key_order.cmp_flip [OF D3(3,2)] le by simp
      qed
      ultimately show ?thesis by (cases "key_cmp (k l) (k y)") auto
    qed (use less in simp)
  qed
qed

lemma combine_groups_ok:
  "\<forall>l \<in> set ls. \<forall>r \<in> set rs. cond l r = Ok (P l r) \<Longrightarrow> combine_groups cond ls rs = Ok (joined P ls rs)"
proof (induction ls)
  case (Cons l ls)
  then have "probe_matches (cond l) l rs = Ok (map ((@) l) (filter (P l) rs))" by (intro probe_matches_ok) auto
  then show ?case using Cons by (simp add: joined_def)
qed (simp add: joined_def)

text \<open>The pairs a merge join should find: equal keys, and the condition holds.\<close>

definition key_match ::
    "string list \<Rightarrow> string list \<Rightarrow> string list \<Rightarrow> (Value list \<Rightarrow> Value list \<Rightarrow> bool) \<Rightarrow> Value list \<Rightarrow> Value list \<Rightarrow> bool" where
  "key_match cols lc rc P l r \<longleftrightarrow> key_cmp (key_of cols lc l) (key_of cols rc r) = OrdEqual \<and> P l r"

definition sorted_rows :: "string list \<Rightarrow> string list \<Rightarrow> Value list list \<Rightarrow> bool" where
  "sorted_rows cols names rows \<longleftrightarrow> (\<forall>row \<in> set rows. full_row names row) \<and>
     sorted_wrt (\<lambda>a b. key_cmp (key_of cols names a) (key_of cols names b) \<noteq> OrdGreater) rows"

lemma sorted_rows_Cons: "sorted_rows cols names (x # xs) \<Longrightarrow> sorted_rows cols names xs"
  by (simp add: sorted_rows_def)

lemma sorted_rows_dropWhile: "sorted_rows cols names xs \<Longrightarrow> sorted_rows cols names (dropWhile p xs)"
  using set_dropWhileD by (fastforce simp: sorted_rows_def sorted_wrt_dropWhile)

text \<open>When one first row is less than the other, no row behind the other one has its key.\<close>

lemma skip_less:
  assumes "sorted_rows cols nb (b # bs)" "full_row na a" "set cols \<subseteq> set na" "set cols \<subseteq> set nb"
    and "key_cmp (key_of cols na a) (key_of cols nb b) = OrdLess" "x \<in> set (b # bs)"
  shows "key_cmp (key_of cols na a) (key_of cols nb x) = OrdLess"
proof (cases "x = b")
  case False
  let ?n = "length cols"
  let ?a = "key_of cols na a" and ?b = "key_of cols nb b" and ?x = "key_of cols nb x"
  have D: "length ?a = ?n \<and> list_all not_nan ?a" "length ?b = ?n \<and> list_all not_nan ?b" "length ?x = ?n \<and> list_all not_nan ?x"
    using assms full_row_key by (auto simp: sorted_rows_def)
  have bx: "key_cmp ?b ?x \<noteq> OrdGreater" using assms(1,6) False by (auto simp: sorted_rows_def)
  have "key_cmp ?a ?x \<noteq> OrdGreater" using key_order.cmp_trans [OF D] assms(5) bx by simp
  moreover have "key_cmp ?a ?x \<noteq> OrdEqual"
  proof
    assume "key_cmp ?a ?x = OrdEqual"
    from key_order.equal_trans [OF D(1,3,2) this] assms(5) have "key_cmp ?x ?b = OrdLess" by simp
    then show False using key_order.cmp_flip [OF D(3,2)] bx by simp
  qed
  ultimately show ?thesis by (cases "key_cmp ?a ?x") auto
qed (use assms in simp)

lemma group_bounds:
  assumes "sorted_rows cols n (l # ls)" "set cols \<subseteq> set n"
  defines "same \<equiv> \<lambda>x. merge_compare_rows cols n n x l = OrdEqual"
  shows "\<And>x. x \<in> set (takeWhile same (l # ls)) \<Longrightarrow> x \<in> set (l # ls) \<and> key_cmp (key_of cols n x) (key_of cols n l) = OrdEqual"
    "\<And>x. x \<in> set (dropWhile same (l # ls)) \<Longrightarrow> x \<in> set (l # ls) \<and> key_cmp (key_of cols n l) (key_of cols n x) = OrdLess"
proof -
  have full: "full_row n x" if "x \<in> set (l # ls)" for x using assms(1) that by (auto simp: sorted_rows_def)
  have same: "same x \<longleftrightarrow> key_cmp (key_of cols n x) (key_of cols n l) = OrdEqual" if "x \<in> set (l # ls)" for x
    using merge_compare_keys [OF full [OF that] full assms(2,2)] by (simp add: same_def)
  show "x \<in> set (l # ls) \<and> key_cmp (key_of cols n x) (key_of cols n l) = OrdEqual" if "x \<in> set (takeWhile same (l # ls))" for x
    using set_takeWhileD [OF that] same by blast
  have "dropWhile same (l # ls) = dropWhile (\<lambda>x. key_cmp (key_of cols n x) (key_of cols n l) = OrdEqual) (l # ls)"
    using same by (intro dropWhile_cong refl) auto
  then show "x \<in> set (l # ls) \<and> key_cmp (key_of cols n l) (key_of cols n x) = OrdLess" if "x \<in> set (dropWhile same (l # ls))" for x
    using that set_dropWhileD [OF that] group_split [of l ls "key_of cols n" "length cols" x] assms(1) full_row_key [OF full assms(2)]
    by (auto simp: sorted_rows_def)
qed

lemma merge_loop_rows:
  assumes "set cols \<subseteq> set lc" "set cols \<subseteq> set rc" "sorted_rows cols lc ls" "sorted_rows cols rc rs"
    and "\<forall>l \<in> set ls. \<forall>r \<in> set rs. cond l r = Ok (P l r)"
  shows "\<exists>rows extra. merge_loop cols cond lc rc ls rs = Ok rows \<and>
    mset rows = mset (joined (key_match cols lc rc P) ls rs) + extra \<and>
    extra \<subseteq># mset (joined (key_match cols lc rc P) ls rs)"
  using assms
proof (induction cols cond lc rc ls rs rule: merge_loop.induct)
  case (1 cols cond lc rc rs)
  then show ?case by (simp add: joined_def)
next
  case (2 cols cond lc rc l ls)
  then show ?case by (simp add: joined_def)
next
  case (3 cols cond lc rc l ls r rs)
  let ?Q = "key_match cols lc rc P"
  have full: "full_row lc l" "full_row rc r" using 3(6,7) by (auto simp: sorted_rows_def)
  note cmp = merge_compare_keys [OF full 3(4,5)]
  show ?case
  proof (cases "merge_compare_rows cols lc rc l r")
    case OrdLess
    from 3(1) [OF OrdLess 3(4,5) sorted_rows_Cons [OF 3(6)] 3(7)] 3(8) obtain rows extra where IH:
      "merge_loop cols cond lc rc ls (r # rs) = Ok rows" "mset rows = mset (joined ?Q ls (r # rs)) + extra"
      "extra \<subseteq># mset (joined ?Q ls (r # rs))" by auto
    have "joined ?Q [l] (r # rs) = []"
      using skip_less [OF 3(7) full(1) 3(4,5)] OrdLess cmp by (intro joined_none) (auto simp: key_match_def)
    then have "joined ?Q (l # ls) (r # rs) = joined ?Q ls (r # rs)" using joined_append(1) [of ?Q "[l]" ls] by simp
    then show ?thesis using IH OrdLess by simp
  next
    case OrdGreater
    from 3(3) [OF OrdGreater 3(4-6) sorted_rows_Cons [OF 3(7)]] 3(8) obtain rows extra where IH:
      "merge_loop cols cond lc rc (l # ls) rs = Ok rows" "mset rows = mset (joined ?Q (l # ls) rs) + extra"
      "extra \<subseteq># mset (joined ?Q (l # ls) rs)" by auto
    have flip: "key_cmp (key_of cols lc x) (key_of cols rc r) = ord_reverse (key_cmp (key_of cols rc r) (key_of cols lc x))"
      if "x \<in> set (l # ls)" for x
      using key_order.cmp_flip full_row_key [OF full(2) 3(5)] full_row_key [of lc x cols] 3(4,6) that
      by (metis sorted_rows_def)
    have "key_cmp (key_of cols rc r) (key_of cols lc l) = OrdLess"
      using OrdGreater cmp flip [of l] by (cases "key_cmp (key_of cols rc r) (key_of cols lc l)") auto
    note less = skip_less [OF 3(6) full(2) 3(5,4) this]
    have "joined ?Q (l # ls) [r] = []"
      by (intro joined_none) (use less flip in \<open>fastforce simp: key_match_def\<close>)
    then have "mset (joined ?Q (l # ls) (r # rs)) = mset (joined ?Q (l # ls) rs)"
      using joined_append(2) [of ?Q "l # ls" "[r]" rs] by simp
    then show ?thesis using IH OrdGreater by simp
  next
    case OrdEqual
    define sl where "sl = (\<lambda>x. merge_compare_rows cols lc lc x l = OrdEqual)"
    define sr where "sr = (\<lambda>x. merge_compare_rows cols rc rc x r = OrdEqual)"
    define G where "G = takeWhile sl (l # ls)"
    define G' where "G' = dropWhile sl (l # ls)"
    define H where "H = takeWhile sr (r # rs)"
    define H' where "H' = dropWhile sr (r # rs)"
    have split: "l # ls = G @ G'" "r # rs = H @ H'" by (simp_all add: G_def G'_def H_def H'_def)
    note bl = group_bounds [OF 3(6,4), folded sl_def, folded G_def G'_def]
    note br = group_bounds [OF 3(7,5), folded sr_def, folded H_def H'_def]
    have D: "length (key_of cols lc x) = length cols \<and> list_all not_nan (key_of cols lc x)" if "x \<in> set (l # ls)" for x
      using full_row_key 3(4,6) that by (metis sorted_rows_def)
    have E: "length (key_of cols rc x) = length cols \<and> list_all not_nan (key_of cols rc x)" if "x \<in> set (r # rs)" for x
      using full_row_key 3(5,7) that by (metis sorted_rows_def)
    have lr: "key_cmp (key_of cols lc l) (key_of cols rc r) = OrdEqual" using OrdEqual cmp by simp
    have l_in: "l \<in> set (l # ls)" and r_in: "r \<in> set (r # rs)" by simp_all
    have GH: "key_cmp (key_of cols lc x) (key_of cols rc y) = OrdEqual" if "x \<in> set G" "y \<in> set H" for x y
    proof -
      note x = bl(1) [OF that(1)] and y = br(1) [OF that(2)]
      have "key_cmp (key_of cols lc x) (key_of cols rc y) = key_cmp (key_of cols lc l) (key_of cols rc y)"
        using key_order.equal_trans [OF D D E] x y l_in by blast
      also have "\<dots> = key_cmp (key_of cols rc r) (key_of cols rc y)"
        using key_order.equal_trans [OF D E E lr] y l_in r_in by blast
      also have "\<dots> = OrdEqual"
        using key_order.cmp_flip [OF E E, of y r] y r_in by simp
      finally show ?thesis .
    qed
    have GH': "key_cmp (key_of cols lc x) (key_of cols rc y) = OrdLess" if "x \<in> set G" "y \<in> set H'" for x y
    proof -
      note x = bl(1) [OF that(1)] and y = br(2) [OF that(2)]
      have "key_cmp (key_of cols lc x) (key_of cols rc y) = key_cmp (key_of cols lc l) (key_of cols rc y)"
        using key_order.equal_trans [OF D D E] x y l_in by blast
      also have "\<dots> = key_cmp (key_of cols rc r) (key_of cols rc y)"
        using key_order.equal_trans [OF D E E lr] y l_in r_in by blast
      finally show ?thesis using y by simp
    qed
    have G'H: "key_cmp (key_of cols rc y) (key_of cols lc x) = OrdLess" if "x \<in> set G'" "y \<in> set H" for x y
    proof -
      note x = bl(2) [OF that(1)] and y = br(1) [OF that(2)]
      have "key_cmp (key_of cols rc y) (key_of cols lc x) = key_cmp (key_of cols rc r) (key_of cols lc x)"
        using key_order.equal_trans [OF E E D] x y r_in by blast
      also have "\<dots> = key_cmp (key_of cols lc l) (key_of cols lc x)"
        using key_order.equal_trans [OF E D D, of r l x] key_order.cmp_flip [OF D E, of l r] lr x l_in r_in by simp
      finally show ?thesis using x by simp
    qed
    have "joined ?Q G H' = []" using GH' by (intro joined_none) (auto simp: key_match_def)
    moreover have "joined ?Q G' H = []"
    proof (rule joined_none)
      fix x y
      assume xy: "x \<in> set G'" "y \<in> set H"
      have "key_cmp (key_of cols lc x) (key_of cols rc y) = OrdGreater"
        using key_order.cmp_flip [OF E D, of y x] G'H [OF xy] bl(2) [OF xy(1)] br(1) [OF xy(2)] by simp
      then show "\<not> ?Q x y" by (simp add: key_match_def)
    qed
    ultimately have whole: "mset (joined ?Q (l # ls) (r # rs)) = mset (joined ?Q G H) + mset (joined ?Q G' H')"
      unfolding split by (simp add: joined_append)
    have PG: "joined P G H = joined ?Q G H" using GH by (intro joined_cong) (simp add: key_match_def)
    have "\<forall>x \<in> set G. \<forall>y \<in> set H. cond x y = Ok (P x y)" using 3(8) bl(1) br(1) by blast
    note groups = combine_groups_ok [OF this, unfolded PG]
    have "\<forall>x \<in> set G'. \<forall>y \<in> set H'. cond x y = Ok (P x y)" using 3(8) bl(2) br(2) by blast
    from 3(2) [OF OrdEqual refl refl 3(4,5) sorted_rows_dropWhile [OF 3(6)] sorted_rows_dropWhile [OF 3(7)],
        folded sl_def sr_def, folded G'_def H'_def, OF this]
    obtain rest extra where IH: "merge_loop cols cond lc rc G' H' = Ok rest"
      "mset rest = mset (joined ?Q G' H') + extra" "extra \<subseteq># mset (joined ?Q G' H')" by blast
    let ?first = "if P l r then [l @ r] else []"
    have run: "merge_loop cols cond lc rc (l # ls) (r # rs) = Ok (?first @ joined ?Q G H @ rest)"
      using OrdEqual 3(8) groups IH(1) by (simp add: Let_def G_def G'_def H_def H'_def sl_def sr_def)
    have "mset ?first \<subseteq># mset (joined ?Q G H)"
    proof (cases "P l r")
      case True
      have "l \<in> set G" "r \<in> set H" by (simp_all add: G_def H_def sl_def sr_def)
      then have "l @ r \<in> set (joined ?Q G H)" using GH True by (auto simp: joined_def key_match_def)
      then show ?thesis using True by simp
    qed simp
    then show ?thesis
      using run IH(2,3) whole by (intro exI [of _ "?first @ joined ?Q G H @ rest"] exI [of _ "mset ?first + extra"])
        (simp add: subset_mset.add_mono)
  qed
qed

subsection \<open>Lemmas: aggregation\<close>

lemma map_rows_ok: "\<forall>x \<in> set xs. f x = Ok (g x) \<Longrightarrow> map_rows f xs = Ok (map g xs)"
  by (induction xs) auto

text \<open>The keys in the order of their first occurrence.\<close>

definition first_keys :: "'a list \<Rightarrow> 'a list" where
  "first_keys ks = rev (remdups (rev ks))"

lemma first_keys_simps [simp]:
  "first_keys [] = []"
  "first_keys (ks @ [k]) = (if k \<in> set ks then first_keys ks else first_keys ks @ [k])"
  by (simp_all add: first_keys_def)

lemma first_keys_set [simp]: "set (first_keys ks) = set ks" "distinct (first_keys ks)"
  by (simp_all add: first_keys_def)

lemma update_map_entries:
  assumes "distinct ks"
  shows "AList.update k v (map (\<lambda>j. (j, f j)) ks) =
    (if k \<in> set ks then map (\<lambda>j. (j, if j = k then v else f j)) ks else map (\<lambda>j. (j, f j)) ks @ [(k, v)])"
  using assms by (induction ks) auto

lemma map_of_entries: "map_of (map (\<lambda>j. (j, f j)) ks) k = (if k \<in> set ks then Some (f k) else None)"
  by (induction ks) auto

text \<open>
  The groups of rows: every key with the grouping values of its first row, and the states updated with
  the rows of that key, in order.
\<close>

definition groups_of ::
    "expr_lib \<Rightarrow> AggregateOperator \<Rightarrow> (Value list \<Rightarrow> string) \<Rightarrow> (Value list \<Rightarrow> Value list) \<Rightarrow>
     (Value list \<Rightarrow> expr \<Rightarrow> Value) \<Rightarrow> Value list list \<Rightarrow> groups" where
  "groups_of L A key vals arg rows = map (\<lambda>k. let members = filter (\<lambda>row. key row = k) rows in
     (k, (vals (hd members), map (\<lambda>(_, e). fold (aggregate_update L) (map (\<lambda>row. arg row e) members) (create_aggregate_state e))
        (ao_aggregate_functions A)))) (first_keys (map key rows))"

lemma groups_of_get:
  "hm_get (groups_of L A key vals arg rows) k = (let members = filter (\<lambda>row. key row = k) rows in
     if members = [] then None
     else Some (vals (hd members), map (\<lambda>(_, e). fold (aggregate_update L) (map (\<lambda>row. arg row e) members) (create_aggregate_state e))
        (ao_aggregate_functions A)))"
  by (auto simp: groups_of_def Let_def filter_empty_conv image_iff map_of_entries)

lemma group_rows_append:
  "group_rows L A names (xs @ ys) g = res_bind (group_rows L A names xs g) (group_rows L A names ys)"
proof (induction xs arbitrary: g)
  case (Cons x xs)
  then show ?case by (cases "group_row L A names x g") auto
qed simp

lemma group_rows_groups:
  assumes "\<forall>row \<in> set rows. group_key L A (basic_context names row) = Ok (key row) \<and>
    group_values L A (basic_context names row) = Ok (vals row) \<and>
    (\<forall>(a, e) \<in> set (ao_aggregate_functions A). aggregate_argument L (basic_context names row) e = Ok (arg row e))"
  shows "group_rows L A names rows [] = Ok (groups_of L A key vals arg rows)"
  using assms
proof (induction rows rule: rev_induct)
  case (snoc row rows)
  let ?c = "basic_context names row" and ?fs = "ao_aggregate_functions A"
  have "row_arguments L A ?c = Ok (map (\<lambda>(_, e). arg row e) ?fs)"
    using snoc.prems by (auto simp: row_arguments_def intro!: map_rows_ok)
  note eval = snoc.prems [rule_format, of row, simplified] this
  have old: "group_rows L A names rows [] = Ok (groups_of L A key vals arg rows)" using snoc by simp
  let ?m = "filter (\<lambda>r. key r = key row) rows"
  let ?states = "map (\<lambda>(_, e). fold (aggregate_update L) (map (\<lambda>r. arg r e) ?m) (create_aggregate_state e)) ?fs"
  have states: "map2 (aggregate_update L) (map (\<lambda>(_, e). arg row e) fs)
      (map (\<lambda>(_, e). fold (aggregate_update L) (map (\<lambda>r. arg r e) ?m) (create_aggregate_state e)) fs) =
    map (\<lambda>(_, e). fold (aggregate_update L) (map (\<lambda>r. arg r e) (?m @ [row])) (create_aggregate_state e)) fs" for fs :: "(string \<times> expr) list"
    by (induction fs) auto
  have step: "group_row L A names row (groups_of L A key vals arg rows) =
      Ok (hm_insert (key row) (vals (hd (?m @ [row])),
        map (\<lambda>(_, e). fold (aggregate_update L) (map (\<lambda>r. arg r e) (?m @ [row])) (create_aggregate_state e)) ?fs)
        (groups_of L A key vals arg rows))"
  proof (cases "?m = []")
    case True
    then show ?thesis
      using eval states [of ?fs] by (simp add: group_row_def groups_of_get Let_def)
  next
    case False
    then show ?thesis
      using eval states [of ?fs] by (simp add: group_row_def groups_of_get Let_def)
  qed
  have "hm_insert (key row) (vals (hd (?m @ [row])),
        map (\<lambda>(_, e). fold (aggregate_update L) (map (\<lambda>r. arg r e) (?m @ [row])) (create_aggregate_state e)) ?fs)
        (groups_of L A key vals arg rows) = groups_of L A key vals arg (rows @ [row])"
    unfolding groups_of_def Let_def
    by (subst update_map_entries) (auto simp: filter_empty_conv image_iff)
  then show ?case using old step by (simp add: group_rows_append)
qed (simp add: groups_of_def)

subsection \<open>Properties\<close>

text \<open>Rows of two inputs with the same text of hash keys.\<close>

definition same_hash_key :: "expr_lib \<Rightarrow> string list \<Rightarrow> QueryResult \<Rightarrow> QueryResult \<Rightarrow> Value list \<Rightarrow> Value list \<Rightarrow> bool" where
  "same_hash_key L cols A B l r \<longleftrightarrow>
     extract_hash_key L cols l (qr_column_names A) = extract_hash_key L cols r (qr_column_names B)"

text \<open>
  C34. The hash join. When its condition evaluates on all pairs of rows, a hash join returns, in the order
  of the nested loop, the pairs that satisfy the condition and have the same text of hash keys. If the condition
  implies equal texts, this is the inner join of relational algebra.
\<close>

theorem hash_join_correct:
  assumes "\<forall>l \<in> set (qr_rows A). \<forall>r \<in> set (qr_rows B).
      combined_condition L condition (qr_column_names A) (qr_column_names B) l r = Ok (P l r)"
  shows "hash_join_execute L condition cols A B =
      Ok \<lparr>qr_rows = joined (\<lambda>l r. same_hash_key L cols A B l r \<and> P l r) (qr_rows A) (qr_rows B),
          qr_column_names = qr_column_names A @ qr_column_names B\<rparr> \<and>
    ((\<forall>l \<in> set (qr_rows A). \<forall>r \<in> set (qr_rows B). P l r \<longrightarrow> same_hash_key L cols A B l r) \<longrightarrow>
      joined (\<lambda>l r. same_hash_key L cols A B l r \<and> P l r) (qr_rows A) (qr_rows B) = relational_join InnerJoin P lw rw (qr_rows A) (qr_rows B))"
proof
  let ?lookup = "\<lambda>l. case hm_get (build_hash_table L cols B) (extract_hash_key L cols l (qr_column_names A)) of
      Some rows \<Rightarrow> rows | None \<Rightarrow> []"
  have lookup: "?lookup l = filter (same_hash_key L cols A B l) (qr_rows B)" for l
  proof -
    have "same_hash_key L cols A B l = (\<lambda>r. extract_hash_key L cols r (qr_column_names B) = extract_hash_key L cols l (qr_column_names A))"
      by (auto simp: same_hash_key_def)
    then show ?thesis by (simp add: build_hash_table_def hash_table_lookup Let_def)
  qed
  have "probe_rows (combined_condition L condition (qr_column_names A) (qr_column_names B)) ?lookup (qr_rows A)
      = Ok (concat (map (\<lambda>l. map ((@) l) (filter (P l) (?lookup l))) (qr_rows A)))"
    by (rule probe_rows_ok [of _ _ "qr_rows B"]) (use lookup assms(1) in auto)
  then show "hash_join_execute L condition cols A B =
      Ok \<lparr>qr_rows = joined (\<lambda>l r. same_hash_key L cols A B l r \<and> P l r) (qr_rows A) (qr_rows B),
          qr_column_names = qr_column_names A @ qr_column_names B\<rparr>"
    unfolding lookup by (simp add: hash_join_execute_def Let_def lookup [simplified] joined_def conj_commute)
  show "(\<forall>l \<in> set (qr_rows A). \<forall>r \<in> set (qr_rows B). P l r \<longrightarrow> same_hash_key L cols A B l r) \<longrightarrow>
      joined (\<lambda>l r. same_hash_key L cols A B l r \<and> P l r) (qr_rows A) (qr_rows B) = relational_join InnerJoin P lw rw (qr_rows A) (qr_rows B)"
    unfolding joined_relational by (intro impI joined_cong) auto
qed

lemma debug_number:
  "debug_value L (IntegerV a) = ''Value { kind: Integer('' @ show_i64 a @ '') }''"
  "debug_value L (FloatV f) = ''Value { kind: Float('' @ el_float_debug L f @ '') }''"
  by (subst debug_value.simps, simp only: Value.case append.simps append_assoc)+

lemma debug_int_eq: "debug_value L (IntegerV a) = debug_value L (IntegerV b) \<longleftrightarrow> a = b"
proof
  assume "debug_value L (IntegerV a) = debug_value L (IntegerV b)"
  then have "show_i64 a = show_i64 b" unfolding debug_number by (simp only: same_append_eq append_same_eq)
  then show "a = b" using parse_show_i64 by (metis option.inject)
qed simp

lemmas condition_eval = combined_condition_def ec_with_columns_def EvaluationContext_new_def evaluate_unqualified_column_def
  get_column_value_def evaluate_binary_operation_def evaluate_equals_def bool_value_def

theorem hash_join_correct_witness:
  "hash_join_execute plain_lib (Some (BinaryOpE (ColumnE None ''a'') OpEquals (ColumnE None ''b''))) [''a'', ''b'']
     \<lparr>qr_rows = [[IntegerV 1], [IntegerV 2]], qr_column_names = [''a'']\<rparr>
     \<lparr>qr_rows = [[IntegerV 2], [IntegerV 3]], qr_column_names = [''b'']\<rparr>
   = Ok \<lparr>qr_rows = [[IntegerV 2, IntegerV 2]], qr_column_names = [''a'', ''b'']\<rparr>"
proof -
  let ?A = "\<lparr>qr_rows = [[IntegerV 1], [IntegerV 2]], qr_column_names = [''a'']\<rparr>"
  let ?B = "\<lparr>qr_rows = [[IntegerV 2], [IntegerV 3]], qr_column_names = [''b'']\<rparr>"
  let ?key = "\<lambda>c row. extract_hash_key plain_lib [''a'', ''b''] row [c]"
  have keys: "?key ''a'' [IntegerV v] = debug_value plain_lib (IntegerV v)" "?key ''b'' [IntegerV v] = debug_value plain_lib (IntegerV v)" for v
    by (simp_all add: extract_hash_key_def key_part_def)
  have cond: "combined_condition plain_lib (Some (BinaryOpE (ColumnE None ''a'') OpEquals (ColumnE None ''b''))) [''a''] [''b'']
      [IntegerV v] [IntegerV w] = Ok (v = w)" for v w
    by (simp add: condition_eval)
  have "hash_join_execute plain_lib (Some (BinaryOpE (ColumnE None ''a'') OpEquals (ColumnE None ''b''))) [''a'', ''b''] ?A ?B =
      Ok \<lparr>qr_rows = joined (\<lambda>l r. same_hash_key plain_lib [''a'', ''b''] ?A ?B l r \<and> l = r) (qr_rows ?A) (qr_rows ?B),
          qr_column_names = qr_column_names ?A @ qr_column_names ?B\<rparr>"
    by (rule hash_join_correct [THEN conjunct1]) (auto simp: cond)
  then show ?thesis by (simp add: keys joined_def same_hash_key_def debug_int_eq)
qed

text \<open>
  The key of a hash join is a text that tells an integer from a float, so that it loses the pairs of rows
  in which an integer equals a float.
\<close>

theorem hash_key_separates_kinds:
  "extract_hash_key L [c] [IntegerV i] [c] \<noteq> extract_hash_key L [c] [FloatV f] [c]"
  by (simp add: extract_hash_key_def key_part_def debug_number)

text \<open>
  C16. The merge join. When the condition evaluates on all pairs, every sort column is a column of both
  inputs and the rows have values other than NaN in all columns, a merge join returns the pairs with equal
  keys that satisfy the condition, each once or twice, and nothing else.
\<close>

theorem merge_join_correct:
  assumes "\<forall>l \<in> set (qr_rows A). \<forall>r \<in> set (qr_rows B).
      combined_condition L condition (qr_column_names A) (qr_column_names B) l r = Ok (P l r)"
    and "set cols \<subseteq> set (qr_column_names A)" "set cols \<subseteq> set (qr_column_names B)"
    and "\<forall>row \<in> set (qr_rows A). full_row (qr_column_names A) row"
    and "\<forall>row \<in> set (qr_rows B). full_row (qr_column_names B) row"
  defines "pairs \<equiv> mset (joined (key_match cols (qr_column_names A) (qr_column_names B) P) (qr_rows A) (qr_rows B))"
  shows "\<exists>rows extra. merge_join_execute L condition cols A B =
      Ok \<lparr>qr_rows = rows, qr_column_names = qr_column_names A @ qr_column_names B\<rparr> \<and>
    mset rows = pairs + extra \<and> extra \<subseteq># pairs"
proof -
  note SA = sort_input_keys [OF assms(4,2)] and SB = sort_input_keys [OF assms(5,3)]
  note sets = mset_eq_setD [OF SA(1)] mset_eq_setD [OF SB(1)]
  have "sorted_rows cols (qr_column_names A) (qr_rows (merge_sort_input cols A))"
    "sorted_rows cols (qr_column_names B) (qr_rows (merge_sort_input cols B))"
    using SA(3) SB(3) assms(4,5) by (auto simp: sorted_rows_def sets)
  from merge_loop_rows [OF assms(2,3) this, of "combined_condition L condition (qr_column_names A) (qr_column_names B)" P] assms(1)
  show ?thesis
    by (auto simp: merge_join_execute_def Let_def SA(1,2) SB(1,2) sets pairs_def mset_joined)
qed

theorem merge_join_correct_witness:
  "\<exists>rows. merge_join_execute plain_lib None [''a'']
     \<lparr>qr_rows = [[IntegerV 2], [IntegerV 1]], qr_column_names = [''a'']\<rparr> \<lparr>qr_rows = [[IntegerV 2]], qr_column_names = [''a'']\<rparr>
   = Ok \<lparr>qr_rows = rows, qr_column_names = [''a'', ''a'']\<rparr> \<and> set rows = {[IntegerV 2, IntegerV 2]}"
proof -
  let ?A = "\<lparr>qr_rows = [[IntegerV 2], [IntegerV 1]], qr_column_names = [''a'']\<rparr>"
  let ?B = "\<lparr>qr_rows = [[IntegerV 2]], qr_column_names = [''a'']\<rparr>"
  have "joined (key_match [''a''] [''a''] [''a''] (\<lambda>_ _. True)) (qr_rows ?A) (qr_rows ?B) = [[IntegerV 2, IntegerV 2]]"
    by (simp add: joined_def key_match_def key_of_def op_compare_values_def ord_cmp_def)
  with merge_join_correct [of ?A ?B plain_lib None "\<lambda>_ _. True" "[''a'']"] obtain rows extra where
    rows: "merge_join_execute plain_lib None [''a''] ?A ?B = Ok \<lparr>qr_rows = rows, qr_column_names = [''a'', ''a'']\<rparr>"
    "mset rows = {#[IntegerV 2, IntegerV 2]#} + extra" "extra \<subseteq># {#[IntegerV 2, IntegerV 2]#}"
    by (auto simp: combined_condition_def full_row_def not_nan_def)
  have "set rows = set_mset (mset rows)" by simp
  also have "\<dots> = {[IntegerV 2, IntegerV 2]}" using rows(2) set_mset_mono [OF rows(3)] by auto
  finally show ?thesis using rows(1) by blast
qed

text \<open>The first pair of every group of equal keys is returned twice.\<close>

theorem merge_join_duplicates:
  "merge_join_execute plain_lib None [''a''] \<lparr>qr_rows = [[IntegerV 1]], qr_column_names = [''a'']\<rparr>
     \<lparr>qr_rows = [[IntegerV 1]], qr_column_names = [''a'']\<rparr> =
   Ok \<lparr>qr_rows = [[IntegerV 1, IntegerV 1], [IntegerV 1, IntegerV 1]], qr_column_names = [''a'', ''a'']\<rparr>"
  by (simp add: merge_join_execute_def merge_sort_input_def Let_def List.map_filter_simps combined_condition_def
      merge_compare_rows_def)

text \<open>
  C35. GROUP BY. On rows, when nothing panics, there is one group for every text of grouping values, in the
  order of first occurrence (which the sources do not keep). Its row has the grouping values of its first member and, for every
  aggregate, the aggregate over the arguments of its members in order; HAVING then selects groups.
\<close>

theorem aggregate_correct:
  assumes "qr_rows q \<noteq> []"
    and "\<forall>row \<in> set (qr_rows q). group_key L A (basic_context (qr_column_names q) row) = Ok (key row) \<and>
      group_values L A (basic_context (qr_column_names q) row) = Ok (vals row) \<and>
      (\<forall>(a, e) \<in> set (ao_aggregate_functions A). aggregate_argument L (basic_context (qr_column_names q) row) e = Ok (arg row e))"
  defines "result \<equiv> map (\<lambda>k. let members = filter (\<lambda>row. key row = k) (qr_rows q) in
      vals (hd members) @ map (\<lambda>(_, e). aggregate_over L (create_aggregate_state e) (map (\<lambda>row. arg row e) members))
        (ao_aggregate_functions A)) (first_keys (map key (qr_rows q)))"
  assumes "\<forall>row \<in> set result. having_passes L A row = Ok (H row)"
  shows "aggregate_execute L A q = Ok \<lparr>qr_rows = filter H result,
    qr_column_names = map group_column_name (ao_group_by_columns A) @ map fst (ao_aggregate_functions A)\<rparr>"
proof -
  have "map (\<lambda>(_, vs, states). vs @ map aggregate_result states) (groups_of L A key vals arg (qr_rows q)) = result"
    by (simp add: groups_of_def result_def Let_def aggregate_over_def comp_def split_def)
  then show ?thesis
    using assms(1) group_rows_groups [OF assms(2)] filter_rows_ok [OF assms(4)] by (simp add: aggregate_execute_def)
qed

theorem aggregate_correct_witness:
  "aggregate_execute plain_lib \<lparr>ao_group_by_columns = [ColumnE None ''k''],
      ao_aggregate_functions = [(''n'', FunctionE ''COUNT'' [StarE] False), (''m'', FunctionE ''MAX'' [ColumnE None ''v''] False)],
      ao_having_clause = None\<rparr>
    \<lparr>qr_rows = [[IntegerV 7, IntegerV 1], [IntegerV 8, IntegerV 5], [IntegerV 7, IntegerV 3]],
     qr_column_names = [''k'', ''v'']\<rparr> =
   Ok \<lparr>qr_rows = [[IntegerV 7, IntegerV 2, IntegerV 3], [IntegerV 8, IntegerV 1, IntegerV 5]],
       qr_column_names = [''k'', ''n'', ''m'']\<rparr>"
proof -
  let ?A = "\<lparr>ao_group_by_columns = [ColumnE None ''k''],
      ao_aggregate_functions = [(''n'', FunctionE ''COUNT'' [StarE] False), (''m'', FunctionE ''MAX'' [ColumnE None ''v''] False)],
      ao_having_clause = None\<rparr>"
  let ?q = "\<lparr>qr_rows = [[IntegerV 7, IntegerV 1], [IntegerV 8, IntegerV 5], [IntegerV 7, IntegerV 3]],
     qr_column_names = [''k'', ''v'']\<rparr>"
  let ?key = "\<lambda>row. debug_value plain_lib (hd row)" and ?vals = "\<lambda>row. [hd row]"
  let ?arg = "\<lambda>row e. if e = FunctionE ''COUNT'' [StarE] False then IntegerV 1 else row ! 1"
  have keys: "debug_value plain_lib (IntegerV 7) \<noteq> debug_value plain_lib (IntegerV 8)" unfolding debug_int_eq by simp
  have upper: "to_uppercase ''COUNT'' = ''COUNT''" "to_uppercase ''MAX'' = ''MAX''" by code_simp+
  note eval = group_key_def group_key_part_def group_values_def basic_context_def aggregate_argument_def value_or_null_def
    ec_with_columns_def EvaluationContext_new_def evaluate_unqualified_column_def get_column_value_def upper
  have first: "first_keys [a, b, a] = [a, b]" if "a \<noteq> b" for a b :: string using that by (simp add: first_keys_def)
  from aggregate_correct [of ?q plain_lib ?A ?key ?vals ?arg "\<lambda>_. True"] keys first [OF keys]
  show ?thesis
    by (simp add: eval having_passes_def group_column_name_def aggregate_over_def create_aggregate_state_def
        new_count_def new_max_def ord_cmp_def)
qed

text \<open>Without rows a grouped query has the columns of its aggregates only.\<close>

theorem empty_group_by_columns:
  "aggregate_execute L \<lparr>ao_group_by_columns = [ColumnE None ''k''], ao_aggregate_functions = [(''n'', FunctionE ''COUNT'' [StarE] False)],
      ao_having_clause = None\<rparr> \<lparr>qr_rows = [], qr_column_names = [''k'']\<rparr> =
   Ok \<lparr>qr_rows = [], qr_column_names = [''n'']\<rparr>"
  by (simp add: aggregate_execute_def)

end
