(* ===== verification/Windows.thy ===== *)
theory Windows
  imports Physical_Operators
begin

section \<open>Window functions (\<^verbatim>\<open>src/src/executor/operators.rs\<close>, third part)\<close>

text \<open>
  The window operator sorts its input, splits it into partitions and computes, for every window function
  and every partition, the values of the function along the partition in the function's own order, which
  it writes back to the rows by their index. The partitions stand in the order of their first row, where
  the sources read them out of a \<^verbatim>\<open>HashMap\<close>.

  The lemmas relate positions in a stable sort to numbers of smaller rows; the properties state what
  \<^verbatim>\<open>ROW_NUMBER\<close>, \<^verbatim>\<open>RANK\<close>, \<^verbatim>\<open>LAG\<close> and \<^verbatim>\<open>LEAD\<close> compute, without the sort.
\<close>

subsection \<open>Data\<close>

type_synonym window_function = "Statement WindowFunction"

datatype WindowFunctionState =
    RowNumberState (ws_count: nat)
  | RankState (ws_current_rank: nat) (ws_prev_values: "Value list option")
  | DenseRankState (ws_current_rank: nat) (ws_prev_values: "Value list option")
  | LagState (ws_buffer: "Value list")
  | LeadState (ws_buffer: "Value list")
  | AggregateWindowState AggregateState

record WindowOperator =
  wo_window_functions :: "(string \<times> window_function) list"
  wo_partition_by :: "expr list"
  wo_order_by :: "Statement OrderBy list"
  wo_window_frame :: "Statement WindowFrame option"

definition initialize_window_function :: "window_function \<Rightarrow> WindowFunctionState" where
  "initialize_window_function f =
     (let n = to_uppercase (wf_name f)
      in if n = ''ROW_NUMBER'' then RowNumberState 0
         else if n = ''RANK'' then RankState 0 None
         else if n = ''DENSE_RANK'' then DenseRankState 0 None
         else if n = ''LAG'' then LagState []
         else if n = ''LEAD'' then LeadState []
         else if n = ''COUNT'' then AggregateWindowState (new_count False)
         else if n = ''SUM'' then AggregateWindowState (new_sum False)
         else if n = ''AVG'' then AggregateWindowState (new_avg False)
         else if n = ''MIN'' then AggregateWindowState new_min
         else if n = ''MAX'' then AggregateWindowState new_max
         else RowNumberState 0)"

definition create_fresh_aggregate_state :: "string \<Rightarrow> AggregateState res" where
  "create_fresh_aggregate_state func_name =
     (let n = to_uppercase func_name
      in if n = ''COUNT'' then Ok (new_count False)
         else if n = ''SUM'' then Ok (new_sum False)
         else if n = ''AVG'' then Ok (new_avg False)
         else if n = ''MIN'' then Ok new_min
         else if n = ''MAX'' then Ok new_max
         else Err (InvalidOperationError ''Unknown aggregate function for window''))"

subsection \<open>Sorting and partitioning\<close>

text \<open>The order of the operator: unlike that of the sort operator it ends at a clause that fails.\<close>

fun window_compare :: "expr_lib \<Rightarrow> string list \<Rightarrow> Statement OrderBy list \<Rightarrow> Value list \<Rightarrow> Value list \<Rightarrow> Ordering" where
  "window_compare L names [] a b = OrdEqual"
| "window_compare L names (OrderBy e direction nulls # obs) a b =
     (case (evaluate L (sort_context names a) e, evaluate L (sort_context names b) e) of
        (Ok x, Ok y) \<Rightarrow>
          (let ordering = op_compare_values nulls x y
           in if ordering \<noteq> OrdEqual
              then (case direction of Asc \<Rightarrow> ordering | Desc \<Rightarrow> ord_reverse ordering)
              else window_compare L names obs a b)
      | _ \<Rightarrow> OrdEqual)"

definition keys_return :: "expr_lib \<Rightarrow> string list \<Rightarrow> Statement OrderBy list \<Rightarrow> Value list list \<Rightarrow> bool" where
  "keys_return L names obs rows =
     list_all (\<lambda>row. list_all (\<lambda>ob. returns (evaluate L (sort_context names row) (ob_expr ob))) obs) rows"

definition sort_input_rows :: "expr_lib \<Rightarrow> Statement OrderBy list \<Rightarrow> QueryResult \<Rightarrow> Value list list res" where
  "sort_input_rows L obs input_result =
     (if obs = [] then Ok (qr_rows input_result)
      else if keys_return L (qr_column_names input_result) obs (qr_rows input_result)
      then Ok (sort_by (window_compare L (qr_column_names input_result) obs) (qr_rows input_result))
      else Panic ''sort key'')"

definition partition_key :: "expr_lib \<Rightarrow> expr list \<Rightarrow> string list \<Rightarrow> Value list \<Rightarrow> string res" where
  "partition_key L partition_by names row =
     res_bind (map_rows (\<lambda>e. group_key_part L (evaluate L (sort_context names row) e)) partition_by)
       (\<lambda>parts. Ok (join_texts ''|'' parts))"

fun partition_groups ::
    "expr_lib \<Rightarrow> expr list \<Rightarrow> string list \<Rightarrow> Value list list \<Rightarrow> (string, Value list list) hmap \<Rightarrow>
     (string, Value list list) hmap res" where
  "partition_groups L partition_by names [] m = Ok m"
| "partition_groups L partition_by names (row # rows) m =
     res_bind (partition_key L partition_by names row) (\<lambda>k.
       partition_groups L partition_by names rows (push_entry k row m))"

definition partition_rows :: "expr_lib \<Rightarrow> expr list \<Rightarrow> Value list list \<Rightarrow> string list \<Rightarrow> Value list list list res" where
  "partition_rows L partition_by rows names =
     (if partition_by = [] then Ok [rows]
      else res_bind (partition_groups L partition_by names rows []) (\<lambda>m. Ok (hm_values m)))"

subsection \<open>Frames\<close>

definition evaluate_constant_expression :: "expr \<Rightarrow> Value res" where
  "evaluate_constant_expression e =
     (case e of ValueE v \<Rightarrow> Ok v
      | _ \<Rightarrow> Err (InvalidOperationError ''Only constant values supported for frame bounds''))"

text \<open>A constant number of rows, read as an unsigned integer; the sum with an index wraps around.\<close>

definition frame_rows :: "expr \<Rightarrow> usize res" where
  "frame_rows e =
     (case evaluate_constant_expression e of
        Ok (IntegerV n) \<Rightarrow> Ok n
      | _ \<Rightarrow> Err (InvalidOperationError ''Only constant integer expressions supported for frame bounds''))"

definition rows_back :: "nat \<Rightarrow> usize \<Rightarrow> nat" where
  "rows_back i n = (if i \<ge> unat n then i - unat n else 0)"

definition frame_start_row :: "nat \<Rightarrow> Statement WindowFrameBound \<Rightarrow> nat res" where
  "frame_start_row i b =
     (case b of
        CurrentRow \<Rightarrow> Ok i
      | UnboundedPreceding \<Rightarrow> Ok 0
      | UnboundedFollowing \<Rightarrow> Err (InvalidOperationError ''Unbounded following not supported as frame start'')
      | PrecedingBound e \<Rightarrow> res_bind (frame_rows e) (\<lambda>n. Ok (rows_back i n))
      | FollowingBound e \<Rightarrow> Err (InvalidOperationError ''Following not supported as frame start''))"

definition frame_end_row :: "nat \<Rightarrow> nat \<Rightarrow> Statement WindowFrameBound option \<Rightarrow> nat res" where
  "frame_end_row n_rows i b =
     (case b of
        None \<Rightarrow> Ok i
      | Some CurrentRow \<Rightarrow> Ok i
      | Some UnboundedPreceding \<Rightarrow> Err (InvalidOperationError ''Unbounded preceding not supported as frame end'')
      | Some UnboundedFollowing \<Rightarrow> Ok (n_rows - 1)
      | Some (PrecedingBound e) \<Rightarrow> res_bind (frame_rows e) (\<lambda>n. Ok (rows_back i n))
      | Some (FollowingBound e) \<Rightarrow> res_bind (frame_rows e) (\<lambda>n. Ok (min (unat (of_nat i + n)) (n_rows - 1))))"

definition calculate_frame_boundaries :: "nat \<Rightarrow> nat \<Rightarrow> window_function \<Rightarrow> (nat \<times> nat) res" where
  "calculate_frame_boundaries partition_size i f =
     (let bounds = (case wc_window_frame (wf_window_clause f) of
          Some frame \<Rightarrow>
            (case wfr_mode frame of
               RowsMode \<Rightarrow> res_bind (frame_start_row i (wfr_start frame)) (\<lambda>s.
                 res_bind (frame_end_row partition_size i (wfr_end frame)) (\<lambda>e. Ok (s, e)))
             | RangeMode \<Rightarrow> Err (InvalidOperationError ''RANGE mode not yet implemented for window frames''))
        | None \<Rightarrow> Ok (0, if wc_order_by (wf_window_clause f) = [] then partition_size - 1 else i))
      in res_bind bounds (\<lambda>(s, e). Ok (s, min e (partition_size - 1))))"

subsection \<open>Values of a function\<close>

definition order_values :: "expr_lib \<Rightarrow> Statement OrderBy list \<Rightarrow> string list \<Rightarrow> Value list \<Rightarrow> Value list res" where
  "order_values L obs names row = map_rows (\<lambda>ob. evaluate L (sort_context names row) (ob_expr ob)) obs"

definition window_values_equal :: "Value list \<Rightarrow> Value list \<Rightarrow> bool" where
  "window_values_equal a b \<longleftrightarrow> length a = length b \<and>
     list_all (\<lambda>(x, y). op_compare_values NullsDefault x y = OrdEqual) (zip a b)"

definition window_offset :: "expr_lib \<Rightarrow> EvaluationContext \<Rightarrow> expr list \<Rightarrow> nat res" where
  "window_offset L c args =
     (if length args < 1 \<or> length args > 2
      then Err (InvalidOperationError ''LAG and LEAD require 1 or 2 arguments'')
      else if length args = 2
      then res_bind (evaluate L c (args ! 1)) (\<lambda>v. case v of
             IntegerV n \<Rightarrow> if sint n \<le> 0 then Err (InvalidOperationError ''offset must be positive'') else Ok (unat n)
           | _ \<Rightarrow> Err (InvalidOperationError ''offset must be an integer''))
      else Ok 1)"

definition rank_step ::
    "expr_lib \<Rightarrow> window_function \<Rightarrow> string list \<Rightarrow> Value list list \<Rightarrow> nat \<Rightarrow> nat \<Rightarrow> Value list option \<Rightarrow> (nat \<Rightarrow> nat) \<Rightarrow>
     (nat \<times> Value list option) res" where
  "rank_step L f names part i current_rank prev_values next_rank =
     res_bind (order_values L (wc_order_by (wf_window_clause f)) names (part ! i)) (\<lambda>current_values.
       case prev_values of
         Some prev_vals \<Rightarrow>
           if window_values_equal current_values prev_vals then Ok (current_rank, prev_values)
           else Ok (next_rank current_rank, Some current_values)
       | None \<Rightarrow> Ok (1, Some current_values))"

definition frame_argument :: "expr_lib \<Rightarrow> window_function \<Rightarrow> string list \<Rightarrow> Value list \<Rightarrow> Value res" where
  "frame_argument L f names row =
     (case wf_args f of
        [] \<Rightarrow> Ok (IntegerV 1)
      | StarE # _ \<Rightarrow> Ok (IntegerV 1)
      | arg # _ \<Rightarrow> evaluate L (sort_context names row) arg)"

definition aggregate_frame ::
    "expr_lib \<Rightarrow> window_function \<Rightarrow> string list \<Rightarrow> Value list list \<Rightarrow> nat \<Rightarrow> Value res" where
  "aggregate_frame L f names part i =
     res_bind (create_fresh_aggregate_state (wf_name f)) (\<lambda>st.
     res_bind (calculate_frame_boundaries (length part) i f) (\<lambda>(s, e).
     res_bind (map_rows (frame_argument L f names) (take (Suc e - s) (drop s part))) (\<lambda>vs.
       Ok (aggregate_over L st vs))))"

text \<open>The value of the function at a position of the sorted partition, and the state for the next one.\<close>

definition evaluate_window_function ::
    "expr_lib \<Rightarrow> window_function \<Rightarrow> string list \<Rightarrow> Value list list \<Rightarrow> nat \<Rightarrow> WindowFunctionState \<Rightarrow>
     (Value \<times> WindowFunctionState) res" where
  "evaluate_window_function L f names part i state =
     (let n = to_uppercase (wf_name f); c = sort_context names (part ! i);
          invalid = Err (InvalidOperationError ''Invalid window function state'')
      in if n = ''ROW_NUMBER'' then
           (case state of RowNumberState n_before \<Rightarrow> Ok (IntegerV (of_nat (n_before + 1)), RowNumberState (n_before + 1)) | _ \<Rightarrow> invalid)
         else if n = ''RANK'' then
           (case state of
              RankState r prev \<Rightarrow> res_bind (rank_step L f names part i r prev (\<lambda>_. i + 1))
                (\<lambda>(r1, prev1). Ok (IntegerV (of_nat r1), RankState r1 prev1))
            | _ \<Rightarrow> invalid)
         else if n = ''DENSE_RANK'' then
           (case state of
              DenseRankState r prev \<Rightarrow> res_bind (rank_step L f names part i r prev (\<lambda>r. r + 1))
                (\<lambda>(r1, prev1). Ok (IntegerV (of_nat r1), DenseRankState r1 prev1))
            | _ \<Rightarrow> invalid)
         else if n = ''LAG'' then
           res_bind (window_offset L c (wf_args f)) (\<lambda>k.
             case state of
               LagState buffer \<Rightarrow>
                 res_bind (evaluate L c (hd (wf_args f))) (\<lambda>v.
                   Ok (if i < k then NullV else if i - k < length buffer then buffer ! (i - k) else NullV, LagState (buffer @ [v])))
             | _ \<Rightarrow> invalid)
         else if n = ''LEAD'' then
           res_bind (window_offset L c (wf_args f)) (\<lambda>k.
             if i + k \<ge> length part then Ok (NullV, state)
             else res_bind (evaluate L (sort_context names (part ! (i + k))) (hd (wf_args f))) (\<lambda>v. Ok (v, state)))
         else if n \<in> set aggregate_names then
           (case state of
              AggregateWindowState _ \<Rightarrow> res_bind (aggregate_frame L f names part i) (\<lambda>v. Ok (v, state))
            | _ \<Rightarrow> invalid)
         else Ok (NullV, state))"

fun evaluate_along ::
    "expr_lib \<Rightarrow> window_function \<Rightarrow> string list \<Rightarrow> Value list list \<Rightarrow> nat list \<Rightarrow> WindowFunctionState \<Rightarrow> Value list res" where
  "evaluate_along L f names part [] state = Ok []"
| "evaluate_along L f names part (i # idx) state =
     res_bind (evaluate_window_function L f names part i state) (\<lambda>(v, state1).
     res_bind (evaluate_along L f names part idx state1) (\<lambda>vs. Ok (v # vs)))"

subsection \<open>Values of a partition\<close>

definition sort_with_indices ::
    "expr_lib \<Rightarrow> string list \<Rightarrow> Statement OrderBy list \<Rightarrow> Value list list \<Rightarrow> (nat \<times> Value list) list" where
  "sort_with_indices L names obs part =
     (let indexed = zip [0..<length part] part
      in if obs = [] then indexed else sort_by (\<lambda>(_, a) (_, b). compare_rows L names obs a b) indexed)"

definition store_results :: "(nat \<times> Value) list \<Rightarrow> Value list \<Rightarrow> Value list" where
  "store_results ivs w = fold (\<lambda>(i, v) w. w[i := v]) ivs w"

definition function_results :: "expr_lib \<Rightarrow> string list \<Rightarrow> Value list list \<Rightarrow> window_function \<Rightarrow> Value list res" where
  "function_results L names part f =
     (let obs = wc_order_by (wf_window_clause f);
          sorted = sort_with_indices L names obs part
      in if \<not> keys_return L names obs part then Panic ''sort key''
         else res_bind (evaluate_along L f names (map snd sorted) [0..<length part] (initialize_window_function f)) (\<lambda>vs.
              Ok (store_results (zip (map fst sorted) vs) (replicate (length part) NullV))))"

definition partition_results ::
    "expr_lib \<Rightarrow> string list \<Rightarrow> (string \<times> window_function) list \<Rightarrow> Value list list \<Rightarrow> Value list list res" where
  "partition_results L names fs part =
     res_bind (map_rows (\<lambda>(_, f). function_results L names part f) fs) (\<lambda>results.
       Ok (map (\<lambda>(i, row). row @ map (\<lambda>r. r ! i) results) (zip [0..<length part] part)))"

definition apply_window_functions ::
    "expr_lib \<Rightarrow> (string \<times> window_function) list \<Rightarrow> Value list list list \<Rightarrow> string list \<Rightarrow> QueryResult res" where
  "apply_window_functions L fs parts names =
     res_bind (map_rows (partition_results L names fs) parts) (\<lambda>rows.
       Ok \<lparr>qr_rows = concat rows, qr_column_names = names @ map fst fs\<rparr>)"

definition window_execute :: "expr_lib \<Rightarrow> WindowOperator \<Rightarrow> QueryResult \<Rightarrow> QueryResult res" where
  "window_execute L W input_result =
     (if qr_rows input_result = []
      then Ok \<lparr>qr_rows = [], qr_column_names = qr_column_names input_result @ map fst (wo_window_functions W)\<rparr>
      else res_bind (sort_input_rows L (wo_order_by W) input_result) (\<lambda>sorted_rows.
           res_bind (partition_rows L (wo_partition_by W) sorted_rows (qr_column_names input_result)) (\<lambda>parts.
           apply_window_functions L (wo_window_functions W) parts (qr_column_names input_result))))"

text \<open>What \<^verbatim>\<open>PlanNode::execute\<close> makes of a list of window functions: the clause is that of the first.\<close>

fun window_exprs :: "(string \<times> expr) list \<Rightarrow> (string \<times> window_function) list" where
  "window_exprs [] = []"
| "window_exprs ((name, WindowFunctionE f) # fs) = (name, f) # window_exprs fs"
| "window_exprs (_ # fs) = window_exprs fs"

definition window_operator_of :: "(string \<times> expr) list \<Rightarrow> WindowOperator" where
  "window_operator_of fs =
     (let ws = window_exprs fs
      in case ws of
           [] \<Rightarrow> \<lparr>wo_window_functions = [], wo_partition_by = [], wo_order_by = [], wo_window_frame = None\<rparr>
         | (_, f) # _ \<Rightarrow> \<lparr>wo_window_functions = ws, wo_partition_by = wc_partition_by (wf_window_clause f),
             wo_order_by = wc_order_by (wf_window_clause f), wo_window_frame = wc_window_frame (wf_window_clause f)\<rparr>)"

subsection \<open>Lemmas: stable sorts of numbered elements\<close>

definition earlier :: "('a \<Rightarrow> 'a \<Rightarrow> Ordering) \<Rightarrow> nat \<times> 'a \<Rightarrow> nat \<times> 'a \<Rightarrow> bool" where
  "earlier cmp x y \<longleftrightarrow> cmp (snd x) (snd y) = OrdLess \<or> cmp (snd x) (snd y) = OrdEqual \<and> fst x < fst y"

context total_cmp
begin

lemma insort_of_numbered:
  assumes "dom (snd x)" "\<forall>y \<in> set ys. dom (snd y) \<and> fst x < fst y" "sorted_wrt (earlier cmp) ys"
  shows "sorted_wrt (earlier cmp) (insort_by (\<lambda>x y. cmp (snd x) (snd y)) x ys)"
  using assms
proof (induction ys)
  case (Cons y ys)
  have s: "set (insort_by (\<lambda>x y. cmp (snd x) (snd y)) x ys) = insert x (set ys)"
    by (metis mset_insort_by set_mset_add_mset_insert set_mset_mset)
  show ?case
  proof (cases "cmp (snd x) (snd y) = OrdGreater")
    case True
    then have "earlier cmp y x" using cmp_flip [of "snd x" "snd y"] Cons.prems by (simp add: earlier_def)
    then show ?thesis using Cons True by (auto simp: s)
  next
    case False
    have le: "cmp (snd x) (snd z) \<noteq> OrdGreater" if "z \<in> set ys" for z
      using that Cons.prems False by (intro cmp_trans [of "snd x" "snd y" "snd z"]) (auto simp: earlier_def)
    have "earlier cmp x z" if "z \<in> set (y # ys)" for z
      using that False Cons.prems(2) le [of z] by (cases "cmp (snd x) (snd z)") (auto simp: earlier_def)
    then show ?thesis using Cons.prems False by auto
  qed
qed simp

lemma sort_of_numbered:
  assumes "\<forall>y \<in> set xs. dom (snd y)" "sorted_wrt (<) (map fst xs)"
  shows "sorted_wrt (earlier cmp) (sort_by (\<lambda>x y. cmp (snd x) (snd y)) xs)"
  using assms
proof (induction xs)
  case (Cons x xs)
  then show ?case by (auto intro!: insort_of_numbered)
qed simp

lemma earlier_asym: "dom (snd x) \<Longrightarrow> dom (snd y) \<Longrightarrow> earlier cmp x y \<Longrightarrow> \<not> earlier cmp y x"
  using cmp_flip [of "snd x" "snd y"] by (auto simp: earlier_def)

end

text \<open>In a strictly sorted list the position of an element is the number of the elements before it.\<close>

lemma position_count:
  assumes "sorted_wrt R xs" "\<And>x y. x \<in> set xs \<Longrightarrow> y \<in> set xs \<Longrightarrow> R x y \<Longrightarrow> \<not> R y x" "i < length xs"
  shows "length (filter (\<lambda>y. R y (xs ! i)) xs) = i"
proof -
  have split: "xs = take i xs @ xs ! i # drop (Suc i) xs" using assms(3) by (simp add: id_take_nth_drop)
  have "filter (\<lambda>y. R y (xs ! i)) (take i xs) = take i xs"
    using assms(1,3) by (auto simp: filter_id_conv in_set_conv_nth sorted_wrt_iff_nth_less)
  moreover have "filter (\<lambda>y. R y (xs ! i)) (drop (Suc i) xs) = []"
  proof (clarsimp simp: filter_empty_conv in_set_conv_nth)
    fix j
    assume "j < length xs - Suc i" "R (xs ! Suc (i + j)) (xs ! i)"
    moreover from this have "R (xs ! i) (xs ! Suc (i + j))"
      using assms(1) by (simp add: sorted_wrt_iff_nth_less)
    ultimately show False using assms(2) [of "xs ! i" "xs ! Suc (i + j)"] assms(3) by auto
  qed
  moreover have "\<not> R (xs ! i) (xs ! i)" using assms(2) [of "xs ! i" "xs ! i"] assms(3) by auto
  ultimately show ?thesis using assms(3) by (subst split) simp
qed

text \<open>The sorted partition, its order, and the number of rows before a row.\<close>

definition position_of :: "expr_lib \<Rightarrow> string list \<Rightarrow> Statement OrderBy list \<Rightarrow> Value list list \<Rightarrow> nat \<Rightarrow> nat" where
  "position_of L names obs part i = length (filter (\<lambda>j. compare_rows L names obs (part ! j) (part ! i) = OrdLess \<or>
     compare_rows L names obs (part ! j) (part ! i) = OrdEqual \<and> j < i) [0..<length part])"

lemma mset_sorted_indices: "mset (sort_with_indices L names obs part) = mset (zip [0..<length part] part)"
  by (simp add: sort_with_indices_def Let_def)

lemma length_sorted_indices [simp]: "length (sort_with_indices L names obs part) = length part"
  using mset_sorted_indices [of L names obs part] by (metis length_upt length_zip min.idem minus_nat.diff_0 size_mset)

lemma sorted_indices_entry:
  assumes "(i, row) \<in> set (sort_with_indices L names obs part)"
  shows "i < length part" "row = part ! i"
proof -
  have "(i, row) \<in> set (zip [0..<length part] part)" using assms mset_sorted_indices mset_eq_setD by blast
  then show "i < length part" "row = part ! i" by (auto simp: in_set_zip)
qed

lemma sorted_indices_numbers: "mset (map fst (sort_with_indices L names obs part)) = mset [0..<length part]"
  by (metis length_upt map_fst_zip mset_map mset_sorted_indices diff_zero)

lemma sorted_indices_order:
  assumes "\<forall>row \<in> set part. sort_keys_ok L names obs row"
  shows "sorted_wrt (earlier (compare_rows L names obs)) (sort_with_indices L names obs part)"
proof (cases "obs = []")
  case True
  then show ?thesis by (auto simp: sort_with_indices_def earlier_def sorted_wrt_iff_nth_less)
next
  case False
  have "(\<lambda>(_, a) (_, b). compare_rows L names obs a b) =
      (\<lambda>(x :: nat \<times> Value list) (y :: nat \<times> Value list). compare_rows L names obs (snd x) (snd y))" by (simp add: fun_eq_iff)
  moreover have "\<forall>y \<in> set (zip [0..<length part] part). sort_keys_ok L names obs (snd y)"
    using assms by (auto simp: in_set_zip)
  ultimately show ?thesis
    using False row_order.sort_of_numbered [of "zip [0..<length part] part" L names obs]
    by (simp add: sort_with_indices_def)
qed

lemma position_sorted:
  assumes "\<forall>row \<in> set part. sort_keys_ok L names obs row" "p < length part"
  shows "position_of L names obs part (fst (sort_with_indices L names obs part ! p)) = p"
proof -
  let ?s = "sort_with_indices L names obs part" and ?e = "earlier (compare_rows L names obs)"
  let ?z = "zip [0..<length part] part"
  obtain i row where x: "?s ! p = (i, row)" by (cases "?s ! p")
  then have i: "i < length part" "row = part ! i"
    using sorted_indices_entry [of i row L names obs part] assms(2) nth_mem [of p ?s] by auto
  have dom: "sort_keys_ok L names obs (snd y)" if "y \<in> set ?s" for y
    using sorted_indices_entry [of "fst y" "snd y" L names obs part] that assms(1) by auto
  have "length (filter (\<lambda>y. ?e y (i, row)) ?s) = p"
    using position_count [OF sorted_indices_order [OF assms(1)], of p] dom row_order.earlier_asym assms(2) by (simp add: x)
  moreover have "mset (filter (\<lambda>y. ?e y (i, row)) ?s) = mset (filter (\<lambda>y. ?e y (i, row)) ?z)"
    by (simp add: mset_sorted_indices)
  ultimately have "length (filter (\<lambda>y. ?e y (i, row)) ?z) = p" by (metis size_mset)
  moreover have "?z = map (\<lambda>j. (j, part ! j)) [0..<length part]" by (rule nth_equalityI) auto
  ultimately show ?thesis by (simp add: x i position_of_def earlier_def filter_map o_def)
qed

subsection \<open>Lemmas: values along a partition\<close>

lemma store_results_other: "i \<notin> fst ` set ivs \<Longrightarrow> store_results ivs w ! i = w ! i"
  unfolding store_results_def by (induction ivs arbitrary: w) auto

lemma length_store_results [simp]: "length (store_results ivs w) = length w"
  unfolding store_results_def by (induction ivs arbitrary: w) auto

lemma store_results_nth:
  assumes "distinct (map fst ivs)" "\<forall>i \<in> fst ` set ivs. i < length w" "p < length ivs"
  shows "store_results ivs w ! fst (ivs ! p) = snd (ivs ! p)"
  using assms
proof (induction ivs arbitrary: w p)
  case (Cons iv ivs)
  obtain i v where iv: "iv = (i, v)" by (cases iv)
  have fold: "store_results (iv # ivs) w = store_results ivs (w[i := v])" by (simp add: store_results_def iv)
  show ?case
  proof (cases p)
    case 0
    then show ?thesis using Cons.prems store_results_other [of i ivs "w[i := v]"] unfolding fold by (simp add: iv)
  next
    case (Suc q)
    then show ?thesis using Cons.prems Cons.IH [of "w[i := v]" q] unfolding fold by simp
  qed
qed simp

lemma evaluate_along_steps:
  assumes "\<And>p st. p < n \<Longrightarrow> Inv p st \<Longrightarrow>
      \<exists>st1. evaluate_window_function L f names part p st = Ok (F p, st1) \<and> Inv (Suc p) st1"
    and "Inv k st"
  shows "evaluate_along L f names part [k..<n] st = Ok (map F [k..<n])"
  using assms(2)
proof (induction "n - k" arbitrary: k st)
  case (Suc d)
  then have k: "k < n" "[k..<n] = k # [Suc k..<n]" by (simp_all add: upt_conv_Cons)
  obtain st1 where "evaluate_window_function L f names part k st = Ok (F k, st1)" "Inv (Suc k) st1"
    using assms(1) [OF k(1) Suc.prems] by blast
  then show ?case using Suc.hyps(1) [of "Suc k" st1] Suc.hyps(2) k by simp
qed simp

lemma keys_ok_return: "\<forall>row \<in> set part. sort_keys_ok L names obs row \<Longrightarrow> keys_return L names obs part"
  by (auto simp: keys_return_def sort_keys_ok_def list_all_iff split: res.splits) (force simp: returns_def split: res.splits)

text \<open>Values computed along the sorted partition reach the rows by their position.\<close>

lemma function_results_positions:
  fixes L names f part
  defines "srt \<equiv> map snd (sort_with_indices L names (wc_order_by (wf_window_clause f)) part)"
  assumes keys: "\<forall>row \<in> set part. sort_keys_ok L names (wc_order_by (wf_window_clause f)) row"
    and step: "\<And>p st. p < length part \<Longrightarrow> Inv p st \<Longrightarrow>
      \<exists>st1. evaluate_window_function L f names srt p st = Ok (F p, st1) \<and> Inv (Suc p) st1"
    and "Inv 0 (initialize_window_function f)"
  shows "\<exists>ws. function_results L names part f = Ok ws \<and> length ws = length part \<and>
    (\<forall>i < length part. ws ! i = F (position_of L names (wc_order_by (wf_window_clause f)) part i))"
proof -
  let ?n = "length part" and ?obs = "wc_order_by (wf_window_clause f)"
  let ?s = "sort_with_indices L names ?obs part"
  define ivs where "ivs = zip (map fst ?s) (map F [0..<?n])"
  define ws where "ws = store_results ivs (replicate ?n NullV)"
  have numbers: "mset (map fst ?s) = mset [0..<?n]" by (rule sorted_indices_numbers)
  then have firsts: "distinct (map fst ?s)" "set (map fst ?s) = {0..<?n}"
    by (metis distinct_upt mset_eq_imp_distinct_iff, metis numbers mset_eq_setD set_upt)
  have fst_ivs: "map fst ivs = map fst ?s" by (simp add: ivs_def)
  have "evaluate_along L f names srt [0..<?n] (initialize_window_function f) = Ok (map F [0..<?n])"
    using evaluate_along_steps [OF step assms(4)] .
  then have "function_results L names part f = Ok ws"
    using keys_ok_return [OF keys] by (simp add: function_results_def srt_def ws_def ivs_def Let_def)
  moreover have "ws ! i = F (position_of L names ?obs part i)" if i: "i < ?n" for i
  proof -
    have "i \<in> set (map fst ?s)" using firsts i by simp
    then obtain p where p: "p < ?n" "fst (?s ! p) = i" by (auto simp: in_set_conv_nth)
    have range: "\<forall>j \<in> fst ` set ivs. j < length (replicate ?n NullV)"
      using fst_ivs firsts(2) by (metis atLeastLessThan_iff length_replicate list.set_map)
    have "ws ! fst (ivs ! p) = snd (ivs ! p)"
      unfolding ws_def using firsts(1) fst_ivs range p(1) by (intro store_results_nth) (simp_all add: ivs_def)
    moreover have "fst (ivs ! p) = i" "snd (ivs ! p) = F p" using p by (simp_all add: ivs_def)
    ultimately show ?thesis using position_sorted [OF keys p(1)] p(2) by simp
  qed
  ultimately show ?thesis by (intro exI [of _ ws]) (simp add: ws_def)
qed

subsection \<open>Lemmas: ranks\<close>

context total_cmp
begin

lemma less_cong:
  assumes "dom a" "dom b" "dom c" "cmp a b = OrdEqual"
  shows "cmp c a = cmp c b"
  using equal_trans [OF assms] cmp_flip [of c a] cmp_flip [of c b] assms(1-3) by (cases "cmp c a"; cases "cmp c b") auto

text \<open>An element of a sorted list that is not equivalent to its predecessor.\<close>

lemma smaller_elements:
  assumes s: "sorted_wrt (\<lambda>a b. cmp a b \<noteq> OrdGreater) s" "\<forall>y \<in> set s. dom y"
    and p: "Suc p < length s" "cmp (s ! p) (s ! Suc p) \<noteq> OrdEqual"
  shows "q < length s \<Longrightarrow> cmp (s ! q) (s ! Suc p) = OrdLess \<longleftrightarrow> q \<le> p"
    and "q < length s \<Longrightarrow> cmp (s ! q) (s ! p) \<noteq> OrdGreater \<longleftrightarrow> q \<le> p"
proof -
  have d: "dom (s ! i)" if "i < length s" for i using s(2) that by simp
  have le: "cmp (s ! i) (s ! j) \<noteq> OrdGreater" if "i \<le> j" "j < length s" for i j
    using s(1) that cmp_refl [OF d [OF that(2)]] by (cases "i = j") (auto simp: sorted_wrt_iff_nth_less)
  have less: "cmp (s ! p) (s ! Suc p) = OrdLess" using le [of p "Suc p"] p by (cases "cmp (s ! p) (s ! Suc p)") auto
  have lower: "cmp (s ! q) (s ! Suc p) = OrdLess" if q: "q \<le> p" for q
  proof -
    have "cmp (s ! q) (s ! Suc p) \<noteq> OrdEqual"
    proof
      assume "cmp (s ! q) (s ! Suc p) = OrdEqual"
      then have "cmp (s ! p) (s ! q) = cmp (s ! p) (s ! Suc p)" using less_cong d p(1) q by simp
      then have "cmp (s ! q) (s ! p) = OrdGreater" using less cmp_flip [of "s ! p" "s ! q"] d p(1) q by simp
      then show False using le [OF q] p(1) by simp
    qed
    moreover have "cmp (s ! q) (s ! Suc p) \<noteq> OrdGreater" using le [of q "Suc p"] q p(1) by simp
    ultimately show ?thesis by (cases "cmp (s ! q) (s ! Suc p)") auto
  qed
  have upper: "cmp (s ! p) (s ! q) = OrdLess" if q: "Suc p \<le> q" "q < length s" for q
  proof -
    have "cmp (s ! Suc p) (s ! q) \<noteq> OrdGreater" using le q by simp
    moreover have "cmp (s ! p) (s ! q) \<noteq> OrdEqual"
    proof
      assume "cmp (s ! p) (s ! q) = OrdEqual"
      then have "cmp (s ! Suc p) (s ! q) = cmp (s ! Suc p) (s ! p)" using less_cong [of "s ! p" "s ! q" "s ! Suc p"] d p(1) q by simp
      then show False using calculation less cmp_flip [of "s ! p" "s ! Suc p"] d p(1) by simp
    qed
    ultimately show ?thesis using le [of p q] q by (cases "cmp (s ! p) (s ! q)") auto
  qed
  show "cmp (s ! q) (s ! Suc p) = OrdLess \<longleftrightarrow> q \<le> p" if "q < length s" for q
    using lower [of q] le [of "Suc p" q] cmp_flip [of "s ! q" "s ! Suc p"] d that p(1) by (cases "q \<le> p") auto
  show "cmp (s ! q) (s ! p) \<noteq> OrdGreater \<longleftrightarrow> q \<le> p" if "q < length s" for q
    using le [of q p] upper [of q] cmp_flip [of "s ! p" "s ! q"] d that p(1) by (cases "q \<le> p") auto
qed

end

text \<open>The rank of a row, and the number of classes of rows before it.\<close>

definition rows_less :: "('a \<Rightarrow> 'a \<Rightarrow> Ordering) \<Rightarrow> 'a list \<Rightarrow> 'a \<Rightarrow> nat" where
  "rows_less cmp part row = length (filter (\<lambda>r. cmp r row = OrdLess) part)"

definition classes_less :: "('a \<Rightarrow> 'a \<Rightarrow> Ordering) \<Rightarrow> 'a list \<Rightarrow> 'a \<Rightarrow> nat" where
  "classes_less cmp part row =
     card ((\<lambda>r. {s \<in> set part. cmp r s = OrdEqual}) ` {r \<in> set part. cmp r row = OrdLess})"

lemma rows_less_mset: "mset a = mset b \<Longrightarrow> rows_less cmp a row = rows_less cmp b row"
  unfolding rows_less_def by (metis mset_filter size_mset)

lemma classes_less_set: "set a = set b \<Longrightarrow> classes_less cmp a row = classes_less cmp b row"
  by (simp add: classes_less_def)

context total_cmp
begin

lemma same_rank:
  assumes "dom a" "dom b" "\<forall>y \<in> set s. dom y" "cmp a b = OrdEqual"
  shows "rows_less cmp s a = rows_less cmp s b" "classes_less cmp s a = classes_less cmp s b"
proof -
  have "cmp r a = cmp r b" if "r \<in> set s" for r using less_cong [OF assms(1,2) _ assms(4)] assms(3) that by blast
  then show "rows_less cmp s a = rows_less cmp s b" "classes_less cmp s a = classes_less cmp s b"
    unfolding rows_less_def classes_less_def by (metis (mono_tags, lifting) filter_cong, metis (mono_tags, lifting) Collect_cong)
qed

lemma next_rank:
  assumes s: "sorted_wrt (\<lambda>a b. cmp a b \<noteq> OrdGreater) s" "\<forall>y \<in> set s. dom y"
    and p: "Suc p < length s" "cmp (s ! p) (s ! Suc p) \<noteq> OrdEqual"
  shows "rows_less cmp s (s ! Suc p) = Suc p"
    and "classes_less cmp s (s ! Suc p) = Suc (classes_less cmp s (s ! p))"
proof -
  note below = smaller_elements [OF s p]
  have d: "dom (s ! i)" if "i < length s" for i using s(2) that by simp
  have "filter (\<lambda>r. cmp r (s ! Suc p) = OrdLess) (take (Suc p) s) = take (Suc p) s"
    using below(1) by (auto simp: filter_id_conv in_set_conv_nth)
  moreover have "filter (\<lambda>r. cmp r (s ! Suc p) = OrdLess) (drop (Suc p) s) = []"
    using below(1) p(1) by (auto simp: filter_empty_conv in_set_conv_nth)
  ultimately have "filter (\<lambda>r. cmp r (s ! Suc p) = OrdLess) s = take (Suc p) s"
    by (metis append_Nil2 append_take_drop_id filter_append)
  then show "rows_less cmp s (s ! Suc p) = Suc p" using p(1) by (simp add: rows_less_def)
  let ?c = "\<lambda>r. {x \<in> set s. cmp r x = OrdEqual}"
  have sets: "{r \<in> set s. cmp r (s ! Suc p) = OrdLess} =
      {r \<in> set s. cmp r (s ! p) = OrdLess} \<union> {r \<in> set s. cmp r (s ! p) = OrdEqual}"
  proof (intro set_eqI iffI)
    fix r
    assume "r \<in> {r \<in> set s. cmp r (s ! Suc p) = OrdLess}"
    then obtain q where q: "q < length s" "r = s ! q" "cmp (s ! q) (s ! Suc p) = OrdLess" by (auto simp: in_set_conv_nth)
    then have "cmp r (s ! p) \<noteq> OrdGreater" using below by simp
    then show "r \<in> {r \<in> set s. cmp r (s ! p) = OrdLess} \<union> {r \<in> set s. cmp r (s ! p) = OrdEqual}"
      using q by (cases "cmp r (s ! p)") auto
  next
    fix r
    assume "r \<in> {r \<in> set s. cmp r (s ! p) = OrdLess} \<union> {r \<in> set s. cmp r (s ! p) = OrdEqual}"
    then obtain q where q: "q < length s" "r = s ! q" "cmp (s ! q) (s ! p) \<noteq> OrdGreater" by (auto simp: in_set_conv_nth)
    then show "r \<in> {r \<in> set s. cmp r (s ! Suc p) = OrdLess}" using below by simp
  qed
  have one_class: "?c r = ?c (s ! p)" if "r \<in> set s" "cmp r (s ! p) = OrdEqual" for r
    using equal_trans [of r "s ! p"] that d p(1) s(2) by auto
  have "{r \<in> set s. cmp r (s ! p) = OrdEqual} \<noteq> {}" using cmp_refl d p(1) by (auto intro!: exI [of _ "s ! p"])
  then have image: "?c ` {r \<in> set s. cmp r (s ! p) = OrdEqual} = {?c (s ! p)}" using one_class by auto
  have fresh: "?c (s ! p) \<notin> ?c ` {r \<in> set s. cmp r (s ! p) = OrdLess}"
  proof
    assume "?c (s ! p) \<in> ?c ` {r \<in> set s. cmp r (s ! p) = OrdLess}"
    then obtain r where "r \<in> set s" "cmp r (s ! p) = OrdLess" "?c (s ! p) = ?c r" by auto
    moreover have "s ! p \<in> ?c (s ! p)" using cmp_refl d p(1) by simp
    ultimately show False by auto
  qed
  show "classes_less cmp s (s ! Suc p) = Suc (classes_less cmp s (s ! p))"
    unfolding classes_less_def sets image_Un image using fresh by simp
qed

lemma first_rank:
  assumes "sorted_wrt (\<lambda>a b. cmp a b \<noteq> OrdGreater) s" "\<forall>y \<in> set s. dom y" "s \<noteq> []"
  shows "rows_less cmp s (s ! 0) = 0" "classes_less cmp s (s ! 0) = 0"
proof -
  have "cmp r (s ! 0) \<noteq> OrdLess" if "r \<in> set s" for r
  proof -
    have "r = s ! 0 \<or> cmp (s ! 0) r \<noteq> OrdGreater" using assms(1,3) that by (cases s) auto
    then show ?thesis using cmp_flip [of "s ! 0" r] cmp_refl [of r] assms(2,3) that
      by (cases "cmp (s ! 0) r") auto
  qed
  then show "rows_less cmp s (s ! 0) = 0" "classes_less cmp s (s ! 0) = 0"
    by (auto simp: rows_less_def classes_less_def filter_empty_conv)
qed

end

subsection \<open>Lemmas: the order of a function\<close>

definition key_values :: "expr_lib \<Rightarrow> string list \<Rightarrow> Statement OrderBy list \<Rightarrow> Value list \<Rightarrow> Value list" where
  "key_values L names obs row = map (\<lambda>ob. case evaluate L (sort_context names row) (ob_expr ob) of Ok v \<Rightarrow> v | _ \<Rightarrow> NullV) obs"

lemma order_values_ok:
  "sort_keys_ok L names obs row \<Longrightarrow> order_values L obs names row = Ok (key_values L names obs row)"
  unfolding order_values_def key_values_def
  by (rule map_rows_ok) (auto simp: sort_keys_ok_def list_all_iff split: res.splits)

lemma op_compare_equal: "op_compare_values nulls a b = OrdEqual \<longleftrightarrow> op_compare_values nulls1 a b = OrdEqual"
  by (cases "a = NullV \<or> b = NullV"; cases nulls; cases nulls1) (auto simp: op_compare_values_def)

lemma equal_keys:
  assumes "sort_keys_ok L names obs a" "sort_keys_ok L names obs b"
  shows "window_values_equal (key_values L names obs a) (key_values L names obs b) \<longleftrightarrow>
    compare_rows L names obs a b = OrdEqual"
  using assms
proof (induction obs)
  case (Cons ob obs)
  obtain e direction nulls where ob: "ob = OrderBy e direction nulls" by (cases ob)
  obtain x y where k: "evaluate L (sort_context names a) e = Ok x" "evaluate L (sort_context names b) e = Ok y"
    using Cons.prems by (auto simp: sort_keys_ok_def ob split: res.splits)
  have IH: "window_values_equal (key_values L names obs a) (key_values L names obs b) \<longleftrightarrow>
      compare_rows L names obs a b = OrdEqual"
    using Cons by (simp add: sort_keys_ok_def)
  have "window_values_equal (key_values L names (ob # obs) a) (key_values L names (ob # obs) b) \<longleftrightarrow>
      op_compare_values NullsDefault x y = OrdEqual \<and>
      window_values_equal (key_values L names obs a) (key_values L names obs b)"
    by (auto simp: window_values_equal_def key_values_def ob k)
  moreover have "compare_rows L names (ob # obs) a b = OrdEqual \<longleftrightarrow>
      op_compare_values nulls x y = OrdEqual \<and> compare_rows L names obs a b = OrdEqual"
    by (cases direction; cases "op_compare_values nulls x y") (simp_all add: ob k)
  ultimately show ?case using op_compare_equal [of NullsDefault x y nulls] IH by simp
qed (simp add: window_values_equal_def key_values_def)

definition sorted_part :: "expr_lib \<Rightarrow> string list \<Rightarrow> Statement OrderBy list \<Rightarrow> Value list list \<Rightarrow> Value list list" where
  "sorted_part L names obs part = map snd (sort_with_indices L names obs part)"

lemma sorted_part_mset [simp]: "mset (sorted_part L names obs part) = mset part"
  by (metis length_upt map_snd_zip mset_map mset_sorted_indices diff_zero sorted_part_def)

lemma sorted_part_set [simp]: "set (sorted_part L names obs part) = set part"
  using mset_eq_setD sorted_part_mset by blast

lemma length_sorted_part [simp]: "length (sorted_part L names obs part) = length part"
  by (simp add: sorted_part_def)

lemma sorted_part_sorted:
  assumes "\<forall>row \<in> set part. sort_keys_ok L names obs row"
  shows "sorted_wrt (\<lambda>a b. compare_rows L names obs a b \<noteq> OrdGreater) (sorted_part L names obs part)"
  using sorted_indices_order [OF assms] unfolding sorted_part_def sorted_wrt_map
  by (rule sorted_wrt_mono_rel [rotated]) (auto simp: earlier_def)

lemma sorted_part_position:
  assumes "\<forall>row \<in> set part. sort_keys_ok L names obs row" "i < length part"
  shows "position_of L names obs part i < length part"
    and "sorted_part L names obs part ! position_of L names obs part i = part ! i"
proof -
  let ?s = "sort_with_indices L names obs part"
  have "i \<in> set (map fst ?s)" using mset_eq_setD [OF sorted_indices_numbers [of L names obs part]] assms(2) by simp
  then obtain p where p: "p < length part" "fst (?s ! p) = i" by (auto simp: in_set_conv_nth)
  have "(i, snd (?s ! p)) \<in> set ?s" using p nth_mem [of p ?s] by (metis length_sorted_indices prod.collapse)
  then have "snd (?s ! p) = part ! i" by (rule sorted_indices_entry)
  then show "position_of L names obs part i < length part"
    "sorted_part L names obs part ! position_of L names obs part i = part ! i"
    using position_sorted [OF assms(1) p(1)] p by (simp_all add: sorted_part_def)
qed

text \<open>The state of a ranking function after the rows before a position.\<close>

definition rank_state ::
    "expr_lib \<Rightarrow> string list \<Rightarrow> Statement OrderBy list \<Rightarrow> (Value list \<Rightarrow> nat) \<Rightarrow> Value list list \<Rightarrow> nat \<Rightarrow> nat \<Rightarrow> Value list option \<Rightarrow> bool" where
  "rank_state L names obs N s p r prev \<longleftrightarrow>
     (if p = 0 then r = 0 \<and> prev = None
      else r = 1 + N (s ! (p - 1)) \<and>
        (\<exists>w \<in> set s. prev = Some (key_values L names obs w) \<and> compare_rows L names obs w (s ! (p - 1)) = OrdEqual))"

lemma rank_step_next:
  fixes L names f s N obs
  defines "obs \<equiv> wc_order_by (wf_window_clause f)"
  defines "cmp \<equiv> compare_rows L names obs"
  assumes keys: "\<forall>row \<in> set s. sort_keys_ok L names obs row" and p: "p < length s"
    and state: "rank_state L names obs N s p r prev"
    and first: "N (s ! 0) = 0"
    and same: "\<And>a b. a \<in> set s \<Longrightarrow> b \<in> set s \<Longrightarrow> cmp a b = OrdEqual \<Longrightarrow> N a = N b"
    and step: "\<And>q. p = Suc q \<Longrightarrow> cmp (s ! q) (s ! p) \<noteq> OrdEqual \<Longrightarrow> next_rank (1 + N (s ! q)) = 1 + N (s ! p)"
  shows "\<exists>prev1. rank_step L f names s p r prev next_rank = Ok (1 + N (s ! p), prev1) \<and>
    rank_state L names obs N s (Suc p) (1 + N (s ! p)) prev1"
proof -
  let ?k = "key_values L names obs"
  have row: "s ! p \<in> set s" using p by simp
  have vals: "order_values L obs names (s ! p) = Ok (?k (s ! p))" using order_values_ok keys row by blast
  have self: "cmp (s ! p) (s ! p) = OrdEqual" using row_order.cmp_refl keys row by (simp add: cmp_def)
  show ?thesis
  proof (cases p)
    case 0
    have "rank_step L f names s p r prev next_rank = Ok (1 + N (s ! p), Some (?k (s ! p)))"
      using 0 state vals first by (simp add: rank_step_def rank_state_def obs_def [symmetric])
    moreover have "rank_state L names obs N s (Suc p) (1 + N (s ! p)) (Some (?k (s ! p)))"
      using row self by (auto simp: rank_state_def cmp_def)
    ultimately show ?thesis by blast
  next
    case (Suc q)
    then obtain w where w: "r = 1 + N (s ! q)" "prev = Some (?k w)" "w \<in> set s" "cmp w (s ! q) = OrdEqual"
      using state by (auto simp: rank_state_def cmp_def)
    have q: "s ! q \<in> set s" using p Suc by simp
    have eq: "window_values_equal (?k (s ! p)) (?k w) \<longleftrightarrow> cmp (s ! p) w = OrdEqual"
      using equal_keys keys row w(3) by (simp add: cmp_def)
    have "cmp (s ! p) w = cmp (s ! p) (s ! q)"
      using row_order.less_cong [of L names obs w "s ! q" "s ! p"] keys row q w(3,4) by (simp add: cmp_def)
    moreover have "cmp (s ! q) (s ! p) = ord_reverse (cmp (s ! p) (s ! q))"
      using row_order.cmp_flip [of L names obs "s ! p" "s ! q"] keys row q by (simp add: cmp_def)
    ultimately have same_class: "window_values_equal (?k (s ! p)) (?k w) \<longleftrightarrow> cmp (s ! q) (s ! p) = OrdEqual"
      using eq by (cases "cmp (s ! p) (s ! q)") auto
    show ?thesis
    proof (cases "cmp (s ! q) (s ! p) = OrdEqual")
      case True
      have "cmp w (s ! p) = OrdEqual"
        using True w(4) row_order.equal_trans [of L names obs w "s ! q" "s ! p"] keys w(3) q row by (simp add: cmp_def)
      then have "rank_state L names obs N s (Suc p) (1 + N (s ! p)) (Some (?k w))"
        using w(3) by (auto simp: rank_state_def cmp_def)
      moreover have "rank_step L f names s p r prev next_rank = Ok (1 + N (s ! p), Some (?k w))"
        using True same_class w(1,2) vals same [OF q row True] by (simp add: rank_step_def obs_def [symmetric])
      ultimately show ?thesis by blast
    next
      case False
      have "rank_step L f names s p r prev next_rank = Ok (1 + N (s ! p), Some (?k (s ! p)))"
        using False same_class w(1,2) vals step [OF Suc False] by (simp add: rank_step_def obs_def [symmetric])
      moreover have "rank_state L names obs N s (Suc p) (1 + N (s ! p)) (Some (?k (s ! p)))"
        using row self by (auto simp: rank_state_def cmp_def)
      ultimately show ?thesis by blast
    qed
  qed
qed

subsection \<open>Lemmas: offsets, frames and partitions\<close>

definition offset_arguments :: "window_function \<Rightarrow> expr \<Rightarrow> nat \<Rightarrow> bool" where
  "offset_arguments f e k \<longleftrightarrow> wf_args f = [e] \<and> k = 1 \<or>
     (\<exists>n. wf_args f = [e, ValueE (IntegerV n)] \<and> 0 < sint n \<and> k = unat n)"

lemma offset_arguments_ok:
  assumes "offset_arguments f e k"
  shows "window_offset L c (wf_args f) = Ok k" "hd (wf_args f) = e"
  using assms by (auto simp: offset_arguments_def window_offset_def)

lemma positive_offset: "offset_arguments f e k \<Longrightarrow> 0 < k"
  by (auto simp: offset_arguments_def) (metis not_gr_zero signed_0 unat_eq_zero less_irrefl)

lemma rows_back_le: "rows_back i n \<le> i"
  by (simp add: rows_back_def)

lemma frame_start_le: "frame_start_row i b = Ok s \<Longrightarrow> s \<le> i"
  by (cases b) (auto simp: frame_start_row_def rows_back_le simp: res_bind_Ok_iff)

lemma push_entry_rows: "mset (concat (hm_values (push_entry k row m))) = add_mset row (mset (concat (hm_values m)))"
proof (induction m)
  case (Cons kv m)
  then show ?case by (cases kv) (auto simp: push_entry_def hm_values_def)
qed (simp add: push_entry_def hm_values_def)

lemma partition_groups_rows:
  "partition_groups L partition_by names rows m = Ok m1 \<Longrightarrow>
    mset (concat (hm_values m1)) = mset (concat (hm_values m)) + mset rows"
proof (induction rows arbitrary: m)
  case (Cons row rows)
  then show ?case
    by (auto simp: push_entry_rows simp: res_bind_Ok_iff)
qed simp

lemma map_rows_concat:
  assumes "map_rows f xs = Ok yss" "\<And>x ys. f x = Ok ys \<Longrightarrow> x \<in> set xs \<Longrightarrow> mset (map g ys) = mset x"
  shows "mset (map g (concat yss)) = mset (concat xs)"
  using assms
proof (induction xs arbitrary: yss)
  case (Cons x xs)
  then obtain ys zss where "f x = Ok ys" "map_rows f xs = Ok zss" "yss = ys # zss" by (auto simp: res_bind_Ok_iff)
  then show ?case using Cons.IH [of zss] Cons.prems(2) [of x ys] Cons.prems(2) by auto
qed simp

lemma map_rows_length: "map_rows f xs = Ok ys \<Longrightarrow> length ys = length xs"
  by (induction xs arbitrary: ys) (auto simp: res_bind_Ok_iff)

subsection \<open>Lemmas: ranking functions\<close>

lemma ranking_positions:
  fixes L names f part K N nxt
  defines "obs \<equiv> wc_order_by (wf_window_clause f)"
  defines "s \<equiv> sorted_part L names obs part"
  assumes keys: "\<forall>row \<in> set part. sort_keys_ok L names obs row"
    and init: "initialize_window_function f = K 0 None"
    and eval: "\<And>p r prev. evaluate_window_function L f names s p (K r prev) =
      res_bind (rank_step L f names s p r prev (nxt p)) (\<lambda>(r1, prev1). Ok (IntegerV (of_nat r1), K r1 prev1))"
    and first: "s \<noteq> [] \<Longrightarrow> N (s ! 0) = 0"
    and same: "\<And>a b. a \<in> set s \<Longrightarrow> b \<in> set s \<Longrightarrow> compare_rows L names obs a b = OrdEqual \<Longrightarrow> N a = N b"
    and step: "\<And>q. Suc q < length s \<Longrightarrow> compare_rows L names obs (s ! q) (s ! Suc q) \<noteq> OrdEqual \<Longrightarrow>
      nxt (Suc q) (1 + N (s ! q)) = 1 + N (s ! Suc q)"
  shows "\<exists>ws. function_results L names part f = Ok ws \<and> length ws = length part \<and>
    (\<forall>i < length part. ws ! i = IntegerV (of_nat (1 + N (part ! i))))"
proof -
  define Inv where "Inv = (\<lambda>p st. \<exists>r prev. st = K r prev \<and> rank_state L names obs N s p r prev)"
  have len: "length s = length part" by (simp add: s_def)
  have "\<exists>st1. evaluate_window_function L f names s p st = Ok (IntegerV (of_nat (1 + N (s ! p))), st1) \<and> Inv (Suc p) st1"
    if p: "p < length part" "Inv p st" for p st
  proof -
    obtain r prev where st: "st = K r prev" "rank_state L names obs N s p r prev" using p(2) by (auto simp: Inv_def)
    have "s \<noteq> []" using p(1) len by auto
    have "\<exists>prev1. rank_step L f names s p r prev (nxt p) = Ok (1 + N (s ! p), prev1) \<and>
        rank_state L names obs N s (Suc p) (1 + N (s ! p)) prev1"
    proof (rule rank_step_next [of s L names f p N, folded obs_def])
      show "\<forall>row \<in> set s. sort_keys_ok L names obs row" using keys by (simp add: s_def)
      show "p < length s" using p(1) len by simp
      show "rank_state L names obs N s p r prev" by (rule st(2))
      show "N (s ! 0) = 0" using first \<open>s \<noteq> []\<close> by blast
      show "N a = N b" if "a \<in> set s" "b \<in> set s" "compare_rows L names obs a b = OrdEqual" for a b using same that by blast
      show "nxt p (1 + N (s ! q)) = 1 + N (s ! p)" if "p = Suc q" "compare_rows L names obs (s ! q) (s ! p) \<noteq> OrdEqual" for q
        using step [of q] that p(1) len by simp
    qed
    then obtain prev1 where next_state: "rank_step L f names s p r prev (nxt p) = Ok (1 + N (s ! p), prev1)"
      "rank_state L names obs N s (Suc p) (1 + N (s ! p)) prev1" by blast
    have "Inv (Suc p) (K (1 + N (s ! p)) prev1)" using next_state(2) unfolding Inv_def by blast
    then show ?thesis using st(1) eval next_state(1) by simp
  qed
  moreover have "Inv 0 (initialize_window_function f)" by (simp add: Inv_def rank_state_def init)
  ultimately have "\<exists>ws. function_results L names part f = Ok ws \<and> length ws = length part \<and>
      (\<forall>i < length part. ws ! i = IntegerV (of_nat (1 + N (s ! position_of L names obs part i))))"
    using function_results_positions [where F = "\<lambda>p. IntegerV (of_nat (1 + N (s ! p)))" and Inv = Inv and
      f = f and L = L and names = names and part = part, folded obs_def, folded sorted_part_def, folded s_def] keys by blast
  then show ?thesis using sorted_part_position(2) [OF keys] by (simp add: s_def)
qed

subsection \<open>Properties\<close>

text \<open>
  \<^verbatim>\<open>ROW_NUMBER\<close>. The value for a row of a partition is one more than the number of rows before it: the
  rows that are less in the function's order, and the equal ones that stand earlier.
\<close>

theorem row_number_correct:
  assumes "\<forall>row \<in> set part. sort_keys_ok L names (wc_order_by (wf_window_clause f)) row"
    and "to_uppercase (wf_name f) = ''ROW_NUMBER''"
  shows "\<exists>ws. function_results L names part f = Ok ws \<and> length ws = length part \<and>
    (\<forall>i < length part. ws ! i = IntegerV (of_nat (position_of L names (wc_order_by (wf_window_clause f)) part i + 1)))"
  by (rule function_results_positions [where Inv = "\<lambda>p st. st = RowNumberState p" and F = "\<lambda>p. IntegerV (of_nat (p + 1))"])
    (use assms in \<open>simp_all add: evaluate_window_function_def initialize_window_function_def\<close>)

text \<open>
  C30. \<^verbatim>\<open>RANK\<close> is one more than the number of rows that are less, \<^verbatim>\<open>DENSE_RANK\<close> one more than the number of
  classes of equal rows that are less: equal rows have the same rank.
\<close>

theorem ranks_correct:
  assumes "\<forall>row \<in> set part. sort_keys_ok L names (wc_order_by (wf_window_clause f)) row"
    and "to_uppercase (wf_name f) = ''RANK'' \<and> before = rows_less \<or> to_uppercase (wf_name f) = ''DENSE_RANK'' \<and> before = classes_less"
  shows "\<exists>ws. function_results L names part f = Ok ws \<and> length ws = length part \<and>
    (\<forall>i < length part. ws ! i =
      IntegerV (of_nat (1 + before (compare_rows L names (wc_order_by (wf_window_clause f))) part (part ! i))))"
proof -
  let ?obs = "wc_order_by (wf_window_clause f)"
  let ?cmp = "compare_rows L names ?obs" and ?s = "sorted_part L names ?obs part"
  have keys: "\<forall>row \<in> set ?s. sort_keys_ok L names ?obs row" using assms(1) by simp
  note first = row_order.first_rank [OF sorted_part_sorted [OF assms(1)] keys]
    and following = row_order.next_rank [OF sorted_part_sorted [OF assms(1)] keys]
    and same = row_order.same_rank [OF bspec [OF keys] bspec [OF keys] keys]
  have before: "before ?cmp ?s = before ?cmp part"
    using assms(2) rows_less_mset [OF sorted_part_mset [of L names ?obs part]]
      classes_less_set [OF sorted_part_set [of L names ?obs part]] by (auto simp: fun_eq_iff)
  from assms(2) show ?thesis
  proof (elim disjE conjE)
    assume f: "to_uppercase (wf_name f) = ''RANK''" "before = rows_less"
    show ?thesis
      unfolding before [symmetric] unfolding f(2)
    proof (rule ranking_positions [where K = RankState and nxt = "\<lambda>p _. p + 1", OF assms(1)])
      show "initialize_window_function f = RankState 0 None" using f(1) by (simp add: initialize_window_function_def)
    qed (use f(1) first following same in \<open>simp_all add: evaluate_window_function_def\<close>)
  next
    assume f: "to_uppercase (wf_name f) = ''DENSE_RANK''" "before = classes_less"
    show ?thesis
      unfolding before [symmetric] unfolding f(2)
    proof (rule ranking_positions [where K = DenseRankState and nxt = "\<lambda>p r. r + 1", OF assms(1)])
      show "initialize_window_function f = DenseRankState 0 None" using f(1) by (simp add: initialize_window_function_def)
    qed (use f(1) first following same in \<open>simp_all add: evaluate_window_function_def\<close>)
  qed
qed

text \<open>
  C32. \<^verbatim>\<open>LAG\<close> and \<^verbatim>\<open>LEAD\<close>. When the argument evaluates on every row of the partition, the value for a row is
  that of the row a given number of positions before (after) it in the function's order, and NULL where
  there is none.
\<close>

theorem lag_lead_correct:
  assumes "\<forall>row \<in> set part. sort_keys_ok L names (wc_order_by (wf_window_clause f)) row"
    and "offset_arguments f e k" "\<forall>row \<in> set part. evaluate L (sort_context names row) e = Ok (g row)"
    and "to_uppercase (wf_name f) = ''LAG'' \<and> (\<forall>p q. apart p q \<longleftrightarrow> q + k = p) \<or>
         to_uppercase (wf_name f) = ''LEAD'' \<and> (\<forall>p q. apart p q \<longleftrightarrow> q = p + k)"
  shows "\<exists>ws. function_results L names part f = Ok ws \<and> length ws = length part \<and>
    (\<forall>i < length part. let position = position_of L names (wc_order_by (wf_window_clause f)) part in
      (\<forall>j < length part. apart (position i) (position j) \<longrightarrow> ws ! i = g (part ! j)) \<and>
      ((\<forall>j < length part. \<not> apart (position i) (position j)) \<longrightarrow> ws ! i = NullV))"
proof -
  let ?obs = "wc_order_by (wf_window_clause f)"
  let ?s = "sorted_part L names ?obs part" and ?pos = "position_of L names ?obs part"
  note args = offset_arguments_ok [OF assms(2)]
  have value_at: "evaluate L (sort_context names (?s ! p)) e = Ok (g (?s ! p))" if "p < length part" for p
    using assms(3) nth_mem [of p ?s] that by simp
  define F where "F = (\<lambda>p. if \<exists>q < length part. apart p q then g (?s ! (THE q. apart p q)) else NullV)"
  have F: "F p = g (?s ! q)" if "apart p q" "q < length part" for p q
  proof -
    have "(THE q. apart p q) = q" using that(1) assms(4) by (intro the_equality) auto
    then show ?thesis using that by (auto simp: F_def)
  qed
  have "\<exists>ws. function_results L names part f = Ok ws \<and> length ws = length part \<and> (\<forall>i < length part. ws ! i = F (?pos i))"
    using assms(4)
  proof (elim disjE conjE)
    assume f: "to_uppercase (wf_name f) = ''LAG''" "\<forall>p q. apart p q \<longleftrightarrow> q + k = p"
    have lag: "F p = (if p < k then NullV else g (?s ! (p - k)))" if "p < length part" for p
      using F [of p "p - k"] f(2) that by (auto simp: F_def)
    show ?thesis
    proof (rule function_results_positions [where Inv = "\<lambda>p st. st = LagState (map (\<lambda>q. g (?s ! q)) [0..<p])", OF assms(1),
          folded sorted_part_def])
      fix p st
      assume p: "p < length part" "st = LagState (map (\<lambda>q. g (?s ! q)) [0..<p])"
      show "\<exists>st1. evaluate_window_function L f names ?s p st = Ok (F p, st1) \<and>
          st1 = LagState (map (\<lambda>q. g (?s ! q)) [0..<Suc p])"
        using f(1) p args value_at [OF p(1)] lag [OF p(1)] positive_offset [OF assms(2)]
        by (simp add: evaluate_window_function_def)
    qed (use f(1) in \<open>simp add: initialize_window_function_def\<close>)
  next
    assume f: "to_uppercase (wf_name f) = ''LEAD''" "\<forall>p q. apart p q \<longleftrightarrow> q = p + k"
    have lead: "F p = (if p + k \<ge> length part then NullV else g (?s ! (p + k)))" for p
      using F [of p "p + k"] f(2) by (auto simp: F_def)
    show ?thesis
    proof (rule function_results_positions [where Inv = "\<lambda>p st. st = LeadState []", OF assms(1), folded sorted_part_def])
      fix p st
      assume "p < length part" "st = LeadState []"
      then show "\<exists>st1. evaluate_window_function L f names ?s p st = Ok (F p, st1) \<and> st1 = LeadState []"
        using f(1) args value_at [of "p + k"] lead [of p] by (simp add: evaluate_window_function_def)
    qed (use f(1) in \<open>simp add: initialize_window_function_def\<close>)
  qed
  then obtain ws where ws: "function_results L names part f = Ok ws" "length ws = length part"
    "\<forall>i < length part. ws ! i = F (?pos i)" by blast
  have "ws ! i = g (part ! j)" if "i < length part" "j < length part" "apart (?pos i) (?pos j)" for i j
    using ws(3) that F [OF that(3)] sorted_part_position [OF assms(1) that(2)] by simp
  moreover have "ws ! i = NullV" if i: "i < length part" "\<forall>j < length part. \<not> apart (?pos i) (?pos j)" for i
  proof -
    have "\<not> apart (?pos i) q" if "q < length part" for q
    proof -
      let ?j = "fst (sort_with_indices L names ?obs part ! q)"
      have "(?j, snd (sort_with_indices L names ?obs part ! q)) \<in> set (sort_with_indices L names ?obs part)"
        using that nth_mem [of q "sort_with_indices L names ?obs part"] by simp
      then have "?j < length part" by (rule sorted_indices_entry)
      then show ?thesis using i(2) position_sorted [OF assms(1) that] by auto
    qed
    then show ?thesis using ws(3) i(1) by (auto simp: F_def)
  qed
  ultimately show ?thesis using ws(1,2) by (intro exI [of _ ws]) (simp add: Let_def)
qed

text \<open>
  Frames. The frame of a row ends inside the partition and does not start after the row; without an
  explicit frame it is the rows up to the current one, or all rows when there is no order.
\<close>

theorem frame_in_partition:
  assumes "calculate_frame_boundaries size_of_part i f = Ok (s, e)" "i < size_of_part"
  shows "s \<le> i \<and> e < size_of_part \<and>
    (wc_window_frame (wf_window_clause f) = None \<longrightarrow>
      s = 0 \<and> e = (if wc_order_by (wf_window_clause f) = [] then size_of_part - 1 else i))"
  using assms frame_start_le
  by (auto simp: calculate_frame_boundaries_def res_bind_Ok_iff split: option.splits WindowFrameMode.splits if_splits)


text \<open>
  Rows of the input. When the operator returns, its rows are those of its input, each once, followed
  by a value for every window function.
\<close>

theorem window_rows_preserved:
  assumes "window_execute L W A = Ok R"
  shows "qr_column_names R = qr_column_names A @ map fst (wo_window_functions W) \<and>
    mset (map (\<lambda>row. take (length row - length (wo_window_functions W)) row) (qr_rows R)) = mset (qr_rows A)"
proof (cases "qr_rows A = []")
  case True
  then show ?thesis using assms by (auto simp: window_execute_def)
next
  case False
  let ?names = "qr_column_names A" and ?fs = "wo_window_functions W"
  let ?strip = "\<lambda>row :: Value list. take (length row - length ?fs) row"
  obtain rows parts yss where run: "sort_input_rows L (wo_order_by W) A = Ok rows"
    "partition_rows L (wo_partition_by W) rows ?names = Ok parts" "map_rows (partition_results L ?names ?fs) parts = Ok yss"
    "R = \<lparr>qr_rows = concat yss, qr_column_names = ?names @ map fst ?fs\<rparr>"
    using assms False by (auto simp: window_execute_def apply_window_functions_def res_bind_Ok_iff)
  have "mset rows = mset (qr_rows A)"
    using run(1) by (auto simp: sort_input_rows_def split: if_splits)
  moreover have "mset (concat parts) = mset rows"
    using run(2) partition_groups_rows by (fastforce simp: partition_rows_def res_bind_Ok_iff hm_values_def split: if_splits)
  moreover have "mset (map ?strip (concat yss)) = mset (concat parts)"
  proof (rule map_rows_concat [OF run(3)])
    fix part ys
    assume "partition_results L ?names ?fs part = Ok ys"
    then obtain results where r: "map_rows (\<lambda>(_, f). function_results L ?names part f) ?fs = Ok results"
      "ys = map (\<lambda>(i, row). row @ map (\<lambda>r. r ! i) results) (zip [0..<length part] part)"
      by (auto simp: partition_results_def res_bind_Ok_iff)
    have len: "length results = length ?fs" using map_rows_length [OF r(1)] .
    have "map ?strip ys = part" unfolding r(2) by (rule nth_equalityI) (simp_all add: len)
    then show "mset (map ?strip ys) = mset part" by simp
  qed
  ultimately show ?thesis using run(4) by simp
qed

text \<open>A table of one column, and functions over it.\<close>

definition sample_rows :: "Value list list" where
  "sample_rows = [[IntegerV 2], [IntegerV 1], [IntegerV 2]]"

definition sample_function :: "string \<Rightarrow> expr list \<Rightarrow> window_function" where
  "sample_function name args =
     WindowFunction name args (WindowClause [] [OrderBy (ColumnE None ''a'') Asc NullsDefault] None) None"

lemma sample_upper:
  "to_uppercase (wf_name (sample_function ''row_number'' args)) = ''ROW_NUMBER''"
  "to_uppercase (wf_name (sample_function ''Dense_Rank'' args)) = ''DENSE_RANK''"
  "to_uppercase (wf_name (sample_function ''lag'' args)) = ''LAG''"
  "to_uppercase (wf_name (sample_function ''count'' args)) = ''COUNT''"
  by (simp_all add: sample_function_def) code_simp+

abbreviation sample_order :: "Statement OrderBy list" where
  "sample_order \<equiv> [OrderBy (ColumnE None ''a'') Asc NullsDefault]"

lemma sample_clause [simp]:
  "wf_window_clause (sample_function name args) = WindowClause [] sample_order None"
  "wf_args (sample_function name args) = args"
  by (simp_all add: sample_function_def)

lemma sample_column [simp]: "evaluate_unqualified_column (sort_context [''a''] [v]) ''a'' = Ok v"
  by (simp add: sort_context_def ec_with_columns_def EvaluationContext_new_def evaluate_unqualified_column_def
      get_column_value_def)

lemma sample_compare [simp]:
  "compare_rows plain_lib [''a''] sample_order [IntegerV x] [IntegerV y] = ord_cmp (sint x) (sint y)"
  by (simp add: op_compare_values_kinds kind_cmp_def same_kind_cmp_def ord_cmp_def)

lemma sample_keys: "\<forall>row \<in> set sample_rows. sort_keys_ok plain_lib [''a''] sample_order row"
  by (simp add: sample_rows_def sort_keys_ok_def not_nan_def)

lemma sample_counts:
  "position_of plain_lib [''a''] sample_order sample_rows 0 = 1"
  "position_of plain_lib [''a''] sample_order sample_rows 1 = 0"
  "position_of plain_lib [''a''] sample_order sample_rows 2 = 2"
  by (simp_all add: position_of_def sample_rows_def upt_rec ord_cmp_def del: compare_rows.simps)

theorem row_number_correct_witness:
  "\<exists>ws. function_results plain_lib [''a''] sample_rows (sample_function ''row_number'' []) = Ok ws \<and>
    ws ! 0 = IntegerV 2 \<and> ws ! 1 = IntegerV 1 \<and> ws ! 2 = IntegerV 3"
proof -
  obtain ws where "function_results plain_lib [''a''] sample_rows (sample_function ''row_number'' []) = Ok ws"
    "\<forall>i < 3. ws ! i = IntegerV (of_nat (position_of plain_lib [''a''] sample_order sample_rows i + 1))"
    using row_number_correct [of sample_rows plain_lib "[''a'']" "sample_function ''row_number'' []"] sample_keys sample_upper
    by (auto simp: sample_rows_def)
  then show ?thesis using sample_counts by auto
qed

theorem ranks_correct_witness:
  "\<exists>ws. function_results plain_lib [''a''] sample_rows (sample_function ''Dense_Rank'' []) = Ok ws \<and>
    ws ! 0 = IntegerV 2 \<and> ws ! 1 = IntegerV 1 \<and> ws ! 2 = IntegerV 2"
proof -
  let ?cmp = "compare_rows plain_lib [''a''] sample_order"
  obtain ws where "function_results plain_lib [''a''] sample_rows (sample_function ''Dense_Rank'' []) = Ok ws"
    "\<forall>i < 3. ws ! i = IntegerV (of_nat (1 + classes_less ?cmp sample_rows (sample_rows ! i)))"
    using ranks_correct [of sample_rows plain_lib "[''a'']" "sample_function ''Dense_Rank'' []" classes_less] sample_keys sample_upper
    by (auto simp: sample_rows_def)
  moreover have "{r \<in> set sample_rows. ?cmp r [IntegerV 2] = OrdLess} = {[IntegerV 1]}"
    "{r \<in> set sample_rows. ?cmp r [IntegerV 1] = OrdLess} = {}"
    by (auto simp: sample_rows_def ord_cmp_def simp del: compare_rows.simps)
  then have "classes_less ?cmp sample_rows [IntegerV 2] = 1" "classes_less ?cmp sample_rows [IntegerV 1] = 0"
    by (simp_all add: classes_less_def)
  ultimately show ?thesis by (auto simp: sample_rows_def)
qed

theorem lag_lead_correct_witness:
  "\<exists>ws. function_results plain_lib [''a''] sample_rows (sample_function ''lag'' [ColumnE None ''a'']) = Ok ws \<and>
    ws ! 0 = IntegerV 1 \<and> ws ! 1 = NullV \<and> ws ! 2 = IntegerV 2"
proof -
  let ?pos = "position_of plain_lib [''a''] sample_order sample_rows"
  let ?f = "sample_function ''lag'' [ColumnE None ''a'']"
  have "offset_arguments ?f (ColumnE None ''a'') 1" by (simp add: offset_arguments_def)
  moreover have "\<forall>row \<in> set sample_rows. evaluate plain_lib (sort_context [''a''] row) (ColumnE None ''a'') = Ok (hd row)"
    by (simp add: sample_rows_def)
  moreover have len: "length sample_rows = 3" by (simp add: sample_rows_def)
  ultimately obtain ws where ws: "function_results plain_lib [''a''] sample_rows ?f = Ok ws"
    "\<forall>i < 3. (\<forall>j < 3. ?pos j + 1 = ?pos i \<longrightarrow> ws ! i = hd (sample_rows ! j)) \<and>
      ((\<forall>j < 3. ?pos j + 1 \<noteq> ?pos i) \<longrightarrow> ws ! i = NullV)"
    using lag_lead_correct [of sample_rows plain_lib "[''a'']" ?f "ColumnE None ''a''" 1 hd "\<lambda>p q. q + 1 = p"]
      sample_keys sample_upper by (auto simp: Let_def)
  have "ws ! 0 = hd (sample_rows ! 1)" "ws ! 2 = hd (sample_rows ! 0)" using ws(2) sample_counts by simp_all
  moreover have "ws ! 1 = NullV" using ws(2) sample_counts by (simp add: less_Suc_eq numeral_3_eq_3)
  ultimately show ?thesis using ws(1) by (simp add: sample_rows_def)
qed

theorem frame_in_partition_witness:
  "(1::nat) \<le> 2 \<and> (2::nat) < 3"
  using frame_in_partition [of 3 2 "WindowFunction ''SUM'' [] (WindowClause [] []
     (Some (WindowFrame RowsMode (PrecedingBound (ValueE (IntegerV 1))) (Some (FollowingBound (ValueE (IntegerV 5)))))) ) None" 1 2]
  by (simp add: calculate_frame_boundaries_def frame_start_row_def frame_end_row_def frame_rows_def
      evaluate_constant_expression_def rows_back_def)


definition numbered :: WindowOperator where
  "numbered = \<lparr>wo_window_functions = [(''n'', WindowFunction ''row_number'' [] (WindowClause [] [] None) None)],
     wo_partition_by = [], wo_order_by = [], wo_window_frame = None\<rparr>"

theorem window_rows_preserved_witness:
  "\<exists>R. window_execute plain_lib numbered \<lparr>qr_rows = [[NullV], [IntegerV 1]], qr_column_names = [''a'']\<rparr> = Ok R \<and>
    qr_column_names R = [''a'', ''n''] \<and> mset (map (take 1) (qr_rows R)) = {# [NullV], [IntegerV 1] #}"
proof -
  let ?A = "\<lparr>qr_rows = [[NullV], [IntegerV 1]], qr_column_names = [''a'']\<rparr>"
  have "window_execute plain_lib numbered ?A =
      Ok \<lparr>qr_rows = [[NullV, IntegerV 1], [IntegerV 1, IntegerV 2]], qr_column_names = [''a'', ''n'']\<rparr>"
    using sample_upper(1) [of "[]"]
    by (simp add: window_execute_def sort_input_rows_def partition_rows_def apply_window_functions_def partition_results_def
        function_results_def keys_return_def numbered_def sort_with_indices_def evaluate_window_function_def
        initialize_window_function_def store_results_def sample_function_def upt_rec numeral_2_eq_2)
  from window_rows_preserved [OF this] this show ?thesis by (simp add: numbered_def)
qed

text \<open>A negative number of rows is read as an unsigned one: back it reaches the start, forward it goes back.\<close>

theorem negative_frame_numbers:
  "calculate_frame_boundaries 3 2 (WindowFunction ''SUM'' [] (WindowClause [] []
     (Some (WindowFrame RowsMode (PrecedingBound (ValueE (IntegerV (- 1)))) (Some (FollowingBound (ValueE (IntegerV (- 1)))))))) None) =
   Ok (0, 1)"
  by (simp add: calculate_frame_boundaries_def frame_start_row_def frame_end_row_def frame_rows_def
      evaluate_constant_expression_def rows_back_def unsigned_minus_1_eq_mask mask_eq_exp_minus_1)

end
