(* ===== verification/Lexer.thy ===== *)
theory Lexer
  imports Prelude
begin

section \<open>The lexer (\<^verbatim>\<open>src/src/sql/lexer.rs\<close>)\<close>

text \<open>
  The lexer turns the text of a statement into tokens with their lines and columns. Its state is the
  record \<open>Lexer\<close>; \<open>lex_step\<close> is one pass through the loop of \<^verbatim>\<open>tokenize\<close>, which ends because every pass
  advances. Text is ASCII. A constructor of \<^verbatim>\<open>TokenType\<close> without arguments is kept by its name:
  \<open>Kw ''Select''\<close> for a keyword and \<open>Sym ''Comma''\<close> for an operator or a punctuation mark.

  The lemmas describe the state by the text that is left; they give the round trip from tokens to text
  and back, the places of the tokens, and that the lexer never panics.
\<close>

subsection \<open>Tokens\<close>

datatype TokenType =
    Kw string
  | Sym string
  | TkIdentifier string
  | TkString string
  | TkQuotedIdentifier string
  | TkNumber string
  | TkComment string
  | TkEOF

record Token =
  token_type :: TokenType
  tk_line :: nat
  tk_column :: nat
  tk_value :: string

definition Token_new :: "TokenType \<Rightarrow> nat \<Rightarrow> nat \<Rightarrow> string \<Rightarrow> Token" where
  "Token_new t line column v = \<lparr>token_type = t, tk_line = line, tk_column = column, tk_value = v\<rparr>"

definition keyword_tokens :: "string list" where
  "keyword_tokens = [''Select'', ''Insert'', ''Update'', ''Delete'', ''Create'', ''Table'', ''Index'', ''From'',
     ''Where'', ''Into'', ''Values'', ''Primary'', ''Key'', ''Not'', ''Null'', ''And'', ''Or'', ''Order'', ''By'',
     ''Group'', ''Having'', ''Join'', ''Inner'', ''Left'', ''Right'', ''Outer'', ''On'', ''As'', ''Distinct'',
     ''Count'', ''Sum'', ''Avg'', ''Min'', ''Max'', ''Set'', ''Drop'', ''Alter'', ''References'', ''If'', ''Exists'',
     ''Default'', ''Check'', ''Unique'', ''With'', ''Recursive'', ''View'', ''Materialized'', ''Refresh'',
     ''Concurrently'', ''Cascade'', ''Data'', ''Serial'', ''BigSerial'', ''Cast'', ''RowNumber'', ''Rank'',
     ''DenseRank'', ''Lag'', ''Lead'', ''FirstValue'', ''LastValue'', ''Ntile'', ''Asc'', ''Desc'', ''Nulls'',
     ''First'', ''Last'', ''Procedure'', ''Function'', ''Language'', ''Begin'', ''End'', ''Commit'', ''Rollback'',
     ''Declare'', ''Loop'', ''While'', ''For'', ''Then'', ''Else'', ''Case'', ''When'', ''Return'', ''Exit'',
     ''Continue'', ''Perform'', ''Raise'', ''Exception'', ''Replace'', ''Definer'', ''Of'', ''Call'', ''Security'']"

definition is_keyword :: "Token \<Rightarrow> bool" where
  "is_keyword t = (case token_type t of Kw n \<Rightarrow> n \<in> set keyword_tokens | _ \<Rightarrow> False)"

text \<open>The keywords, and the names that are keywords before a parenthesis only.\<close>

definition keyword_table :: "(string \<times> string) list" where
  "keyword_table = [(''SELECT'', ''Select''), (''INSERT'', ''Insert''), (''UPDATE'', ''Update''),
     (''DELETE'', ''Delete''), (''CREATE'', ''Create''), (''TABLE'', ''Table''), (''INDEX'', ''Index''),
     (''FROM'', ''From''), (''WHERE'', ''Where''), (''INTO'', ''Into''), (''VALUES'', ''Values''),
     (''PRIMARY'', ''Primary''), (''KEY'', ''Key''), (''NOT'', ''Not''), (''NULL'', ''Null''), (''AND'', ''And''),
     (''OR'', ''Or''), (''ORDER'', ''Order''), (''BY'', ''By''), (''GROUP'', ''Group''), (''HAVING'', ''Having''),
     (''JOIN'', ''Join''), (''INNER'', ''Inner''), (''LEFT'', ''Left''), (''RIGHT'', ''Right''),
     (''FULL'', ''Full''), (''OUTER'', ''Outer''), (''CROSS'', ''Cross''), (''ANTI'', ''Anti''),
     (''SEMI'', ''Semi''), (''ON'', ''On''), (''AS'', ''As''), (''DISTINCT'', ''Distinct''), (''COUNT'', ''Count''),
     (''SUM'', ''Sum''), (''AVG'', ''Avg''), (''MIN'', ''Min''), (''MAX'', ''Max''), (''LIKE'', ''Like''),
     (''ILIKE'', ''ILike''), (''IN'', ''In''), (''IS'', ''Is''), (''SET'', ''Set''), (''DROP'', ''Drop''),
     (''ALTER'', ''Alter''), (''REFERENCES'', ''References''), (''IF'', ''If''), (''EXISTS'', ''Exists''),
     (''DEFAULT'', ''Default''), (''CHECK'', ''Check''), (''CONSTRAINT'', ''Constraint''),
     (''FOREIGN'', ''Foreign''), (''ADD'', ''Add''), (''COLUMN'', ''Column''), (''RENAME'', ''Rename''),
     (''TO'', ''To''), (''UNION'', ''Union''), (''INTERSECT'', ''Intersect''), (''EXCEPT'', ''Except''),
     (''ALL'', ''All''), (''UNIQUE'', ''Unique''), (''OVER'', ''Over''), (''PARTITION'', ''Partition''),
     (''WINDOW'', ''Window''), (''ROWS'', ''Rows''), (''RANGE'', ''Range''), (''BETWEEN'', ''Between''),
     (''UNBOUNDED'', ''Unbounded''), (''PRECEDING'', ''Preceding''), (''FOLLOWING'', ''Following''),
     (''CURRENT'', ''Current''), (''WITH'', ''With''), (''RECURSIVE'', ''Recursive''), (''VIEW'', ''View''),
     (''MATERIALIZED'', ''Materialized''), (''REFRESH'', ''Refresh''), (''CONCURRENTLY'', ''Concurrently''),
     (''CASCADE'', ''Cascade''), (''DATA'', ''Data''), (''SERIAL'', ''Serial''), (''BIGSERIAL'', ''BigSerial''),
     (''CAST'', ''Cast''), (''ASC'', ''Asc''), (''DESC'', ''Desc''), (''NULLS'', ''Nulls''), (''FIRST'', ''First''),
     (''LAST'', ''Last''), (''TRUE'', ''True''), (''FALSE'', ''False''), (''PROCEDURE'', ''Procedure''),
     (''FUNCTION'', ''Function''), (''LANGUAGE'', ''Language''), (''BEGIN'', ''Begin''), (''END'', ''End''),
     (''COMMIT'', ''Commit''), (''ROLLBACK'', ''Rollback''), (''DECLARE'', ''Declare''), (''LOOP'', ''Loop''),
     (''WHILE'', ''While''), (''FOR'', ''For''), (''THEN'', ''Then''), (''ELSE'', ''Else''), (''CASE'', ''Case''),
     (''WHEN'', ''When''), (''RETURN'', ''Return''), (''EXIT'', ''Exit''), (''CONTINUE'', ''Continue''),
     (''PERFORM'', ''Perform''), (''RAISE'', ''Raise''), (''EXCEPTION'', ''Exception''), (''REPLACE'', ''Replace''),
     (''DEFINER'', ''Definer''), (''OF'', ''Of''), (''CALL'', ''Call''), (''SECURITY'', ''Security'')]"

definition window_function_table :: "(string \<times> string) list" where
  "window_function_table = [(''ROW_NUMBER'', ''RowNumber''), (''RANK'', ''Rank''), (''DENSE_RANK'', ''DenseRank''),
     (''LAG'', ''Lag''), (''LEAD'', ''Lead''), (''FIRST_VALUE'', ''FirstValue''), (''LAST_VALUE'', ''LastValue''),
     (''NTILE'', ''Ntile'')]"

subsection \<open>State\<close>

record Lexer =
  lx_input :: string
  lx_position :: nat
  lx_line :: nat
  lx_column :: nat
  lx_tokens :: "Token list"

definition Lexer_new :: "string \<Rightarrow> Lexer" where
  "Lexer_new input = \<lparr>lx_input = input, lx_position = 0, lx_line = 1, lx_column = 1, lx_tokens = []\<rparr>"

definition is_at_end :: "Lexer \<Rightarrow> bool" where
  "is_at_end s = (lx_position s \<ge> length (lx_input s))"

definition current_char :: "Lexer \<Rightarrow> char" where
  "current_char s = lx_input s ! lx_position s"

definition peek_char :: "Lexer \<Rightarrow> char option" where
  "peek_char s = (if lx_position s + 1 < length (lx_input s) then Some (lx_input s ! (lx_position s + 1)) else None)"

fun advance :: "nat \<Rightarrow> Lexer \<Rightarrow> Lexer" where
  "advance 0 s = s"
| "advance (Suc n) s =
     (if is_at_end s then s
      else let s1 = (if current_char s = CHR 0x0A then s\<lparr>lx_line := lx_line s + 1, lx_column := 1\<rparr>
                     else s\<lparr>lx_column := lx_column s + 1\<rparr>)
           in advance n (s1\<lparr>lx_position := lx_position s1 + 1\<rparr>))"

definition push_token :: "TokenType \<Rightarrow> nat \<Rightarrow> nat \<Rightarrow> string \<Rightarrow> Lexer \<Rightarrow> Lexer" where
  "push_token t line column v s = s\<lparr>lx_tokens := lx_tokens s @ [Token_new t line column v]\<rparr>"

text \<open>A slice of the input, which panics outside it.\<close>

definition input_slice :: "nat \<Rightarrow> nat \<Rightarrow> Lexer \<Rightarrow> string res" where
  "input_slice a b s =
     (if a \<le> b \<and> b \<le> length (lx_input s) then Ok (take (b - a) (drop a (lx_input s))) else Panic ''slice out of range'')"

text \<open>The loops that consume characters.\<close>

lemma advance_position: "\<not> is_at_end s \<Longrightarrow> lx_position (advance (Suc 0) s) = lx_position s + 1"
  by (simp add: Let_def)

lemma advance_input [simp]: "lx_input (advance n s) = lx_input s"
  by (induction n arbitrary: s) (simp_all add: Let_def)

lemma advance_mono: "lx_position s \<le> lx_position (advance n s)"
proof (induction n arbitrary: s)
  case (Suc n)
  show ?case using Suc [of "(if current_char s = CHR 0x0A then s\<lparr>lx_line := lx_line s + 1, lx_column := 1\<rparr>
      else s\<lparr>lx_column := lx_column s + 1\<rparr>)\<lparr>lx_position := lx_position s + 1\<rparr>"]
    by (simp add: Let_def split: if_splits)
qed simp

lemma advance_Suc_less: "\<not> is_at_end s \<Longrightarrow> lx_position s < lx_position (advance (Suc n) s)"
  using advance_mono [of "(if current_char s = CHR 0x0A then s\<lparr>lx_line := lx_line s + 1, lx_column := 1\<rparr>
      else s\<lparr>lx_column := lx_column s + 1\<rparr>)\<lparr>lx_position := lx_position s + 1\<rparr>" n]
  by (simp add: Let_def split: if_splits)

function consume_while :: "(char \<Rightarrow> bool) \<Rightarrow> Lexer \<Rightarrow> string \<times> Lexer" where
  "consume_while p s =
     (if \<not> is_at_end s \<and> p (current_char s)
      then let (cs, s1) = consume_while p (advance (Suc 0) s) in (current_char s # cs, s1)
      else ([], s))"
  by auto
termination
  by (relation "measure (\<lambda>(p, s). length (lx_input s) - lx_position s)") (auto simp: is_at_end_def Let_def)

function quoted_body :: "char \<Rightarrow> Lexer \<Rightarrow> string \<times> Lexer" where
  "quoted_body q s =
     (if is_at_end s then ([], s)
      else if current_char s = q then
        (if peek_char s = Some q
         then let (cs, s1) = quoted_body q (advance 2 s) in (q # cs, s1)
         else ([], advance (Suc 0) s))
      else let (cs, s1) = quoted_body q (advance (Suc 0) s) in (current_char s # cs, s1))"
  by auto
termination
proof (relation "measure (\<lambda>(q, s). length (lx_input s) - lx_position s)")
  fix q s
  assume "\<not> is_at_end s"
  then show "((q, advance 2 s), q, s) \<in> measure (\<lambda>(q, s). length (lx_input s) - lx_position s)"
    using advance_Suc_less [of s 1] by (simp add: is_at_end_def numeral_2_eq_2 del: advance.simps)
next
  fix q s
  assume "\<not> is_at_end s"
  then show "((q, advance (Suc 0) s), q, s) \<in> measure (\<lambda>(q, s). length (lx_input s) - lx_position s)"
    using advance_Suc_less [of s 0] by (simp add: is_at_end_def del: advance.simps)
qed simp

function dollar_body :: "Lexer \<Rightarrow> string \<times> Lexer" where
  "dollar_body s =
     (if is_at_end s then ([], s)
      else if current_char s = CHR ''$'' \<and> peek_char s = Some CHR ''$'' then ([], advance 2 s)
      else let (cs, s1) = dollar_body (advance (Suc 0) s) in (current_char s # cs, s1))"
  by auto
termination
proof (relation "measure (\<lambda>s. length (lx_input s) - lx_position s)")
  fix s
  assume "\<not> is_at_end s"
  then show "(advance (Suc 0) s, s) \<in> measure (\<lambda>s. length (lx_input s) - lx_position s)"
    using advance_Suc_less [of s 0] by (simp add: is_at_end_def del: advance.simps)
qed simp

declare consume_while.simps [simp del] quoted_body.simps [simp del] dollar_body.simps [simp del] advance.simps [simp del]

lemma advance_zero [simp]: "advance 0 s = s"
  by (simp add: advance.simps)


subsection \<open>The tokens\<close>

definition consume_whitespace :: "Lexer \<Rightarrow> Lexer" where
  "consume_whitespace s = snd (consume_while is_ascii_whitespace s)"

text \<open>The comment is cut out from the start of its line, wherever on the line it begins.\<close>

definition consume_line_comment :: "Lexer \<Rightarrow> Lexer res" where
  "consume_line_comment s =
     (let s1 = advance 2 s;
          s2 = snd (consume_while (\<lambda>c. c \<noteq> CHR 0x0A) s1)
      in if lx_column s2 - 1 > lx_position s2 then Panic ''slice out of range''
         else res_bind (input_slice (lx_position s2 - (lx_column s2 - 1)) (lx_position s2) s2) (\<lambda>comment.
           Ok (push_token (TkComment comment) (lx_line s1) 1 comment s2)))"

definition consume_string :: "Lexer \<Rightarrow> Lexer res" where
  "consume_string s =
     (let s1 = advance (Suc 0) s; (string_value, s2) = quoted_body CHR 0x27 s1
      in if is_at_end s2 then Err (ParseError ''Unterminated string'')
         else Ok (push_token (TkString string_value) (lx_line s1) (lx_column s1) string_value s2))"

definition consume_quoted_identifier :: "Lexer \<Rightarrow> Lexer res" where
  "consume_quoted_identifier s =
     (let s1 = advance (Suc 0) s; (identifier, s2) = quoted_body CHR 0x22 s1
      in if is_at_end s2 then Err (ParseError ''Unterminated quoted identifier'')
         else Ok (push_token (TkQuotedIdentifier identifier) (lx_line s1) (lx_column s1) identifier s2))"

definition consume_dollar_quoted_string :: "Lexer \<Rightarrow> Lexer res" where
  "consume_dollar_quoted_string s =
     (let (string_value, s2) = dollar_body (advance 2 s)
      in if is_at_end s2 \<and> (lx_position s2 < 2 \<or> lx_input s2 ! (lx_position s2 - 2) \<noteq> CHR ''$'' \<or>
              lx_input s2 ! (lx_position s2 - 1) \<noteq> CHR ''$'')
         then Err (ParseError ''Unterminated dollar-quoted string'')
         else Ok (push_token (TkString string_value) (lx_line s) (lx_column s) string_value s2))"

definition is_ascii_alpha :: "char \<Rightarrow> bool" where
  "is_ascii_alpha c = (is_ascii_upper c \<or> is_ascii_lower c)"

definition identifier_char :: "char \<Rightarrow> bool" where
  "identifier_char c = (is_ascii_alpha c \<or> is_ascii_digit c \<or> c = CHR ''_'')"

definition identifier_token :: "string \<Rightarrow> bool \<Rightarrow> TokenType" where
  "identifier_token identifier is_followed_by_paren =
     (let upper = to_uppercase identifier
      in case map_of keyword_table upper of
           Some n \<Rightarrow> Kw n
         | None \<Rightarrow>
             (case map_of window_function_table upper of
                Some n \<Rightarrow> if is_followed_by_paren then Kw n else TkIdentifier identifier
              | None \<Rightarrow> TkIdentifier identifier))"

definition consume_identifier_or_keyword :: "Lexer \<Rightarrow> Lexer" where
  "consume_identifier_or_keyword s =
     (let (identifier, s1) = consume_while identifier_char s;
          rest = dropWhile is_ascii_whitespace (drop (lx_position s1) (lx_input s1));
          is_followed_by_paren = (case rest of c # _ \<Rightarrow> c = CHR ''('' | [] \<Rightarrow> False)
      in push_token (identifier_token identifier is_followed_by_paren) (lx_line s) (lx_column s) identifier s1)"

text \<open>A number: digits, then a fraction, then an exponent, whose digits may be missing.\<close>

definition decimal_part :: "Lexer \<Rightarrow> string \<times> Lexer" where
  "decimal_part s =
     (if \<not> is_at_end s \<and> current_char s = CHR ''.''
      then let (ds, s1) = consume_while is_ascii_digit (advance (Suc 0) s) in (CHR ''.'' # ds, s1)
      else ([], s))"

definition exponent_sign :: "Lexer \<Rightarrow> string \<times> Lexer" where
  "exponent_sign s =
     (if \<not> is_at_end s \<and> (current_char s = CHR ''+'' \<or> current_char s = CHR ''-'')
      then ([current_char s], advance (Suc 0) s) else ([], s))"

definition exponent_part :: "Lexer \<Rightarrow> string \<times> Lexer" where
  "exponent_part s =
     (if \<not> is_at_end s \<and> (current_char s = CHR ''e'' \<or> current_char s = CHR ''E'')
      then let (sign, s1) = exponent_sign (advance (Suc 0) s); (ds, s2) = consume_while is_ascii_digit s1
           in (current_char s # sign @ ds, s2)
      else ([], s))"

definition consume_number :: "Lexer \<Rightarrow> Lexer" where
  "consume_number s =
     (let (ds, s1) = consume_while is_ascii_digit s; (f, s2) = decimal_part s1; (e, s3) = exponent_part s2;
          number = ds @ f @ e
      in push_token (TkNumber number) (lx_line s) (lx_column s) number s3)"

definition add_token :: "TokenType \<Rightarrow> nat \<Rightarrow> Lexer \<Rightarrow> Lexer res" where
  "add_token t n s = res_bind (input_slice (lx_position s) (lx_position s + n) s) (\<lambda>v.
     Ok (push_token t (lx_line s) (lx_column s) v (advance n s)))"

definition punctuation :: "char \<Rightarrow> string option" where
  "punctuation c = map_of [(CHR ''('', ''LeftParen''), (CHR '')'', ''RightParen''), (CHR ''['', ''LeftBracket''),
     (CHR '']'', ''RightBracket''), (CHR '','', ''Comma''), (CHR '';'', ''Semicolon''), (CHR ''.'', ''Dot''),
     (CHR ''*'', ''Asterisk'')] c"

definition operator_token :: "Lexer \<Rightarrow> Lexer res" where
  "operator_token s =
     (let c = current_char s; next = peek_char s
      in if c = CHR ''='' then add_token (Sym ''Equals'') 1 s
         else if c = CHR ''+'' then add_token (Sym ''Plus'') 1 s
         else if c = CHR ''-'' then add_token (Sym ''Minus'') 1 s
         else if c = CHR ''/'' then add_token (Sym ''Divide'') 1 s
         else if c = CHR ''!'' \<and> next = Some CHR ''='' then add_token (Sym ''NotEquals'') 2 s
         else if c = CHR ''<'' then
           (if next = Some CHR ''='' then add_token (Sym ''LessThanOrEquals'') 2 s
            else if next = Some CHR ''>'' then add_token (Sym ''NotEquals'') 2 s
            else add_token (Sym ''LessThan'') 1 s)
         else if c = CHR ''>'' then
           (if next = Some CHR ''='' then add_token (Sym ''GreaterThanOrEquals'') 2 s
            else add_token (Sym ''GreaterThan'') 1 s)
         else if c = CHR ''|'' then
           (if next = Some CHR ''|'' then add_token (Sym ''Concatenate'') 2 s
            else Err (ParseError ''Unexpected character''))
         else case punctuation c of
                Some n \<Rightarrow> add_token (Sym n) 1 s
              | None \<Rightarrow> Err (ParseError ''Unexpected character''))"

text \<open>One pass through the loop, and the loop.\<close>

definition lex_step :: "Lexer \<Rightarrow> Lexer res" where
  "lex_step s =
     (let c = current_char s; next = peek_char s
      in if is_ascii_whitespace c then Ok (consume_whitespace s)
         else if c = CHR ''-'' \<and> next = Some CHR ''-'' then consume_line_comment s
         else if c = CHR ''$'' \<and> next = Some CHR ''$'' then consume_dollar_quoted_string s
         else if c = CHR 0x27 then consume_string s
         else if c = CHR 0x22 then consume_quoted_identifier s
         else if is_ascii_alpha c \<or> c = CHR ''_'' then Ok (consume_identifier_or_keyword s)
         else if is_ascii_digit c then Ok (consume_number s)
         else operator_token s)"

lemma consume_while_eq:
  "consume_while p s = (takeWhile p (drop (lx_position s) (lx_input s)),
     advance (length (takeWhile p (drop (lx_position s) (lx_input s)))) s)"
proof (induction p s rule: consume_while.induct)
  case (1 p s)
  show ?case
  proof (cases "\<not> is_at_end s \<and> p (current_char s)")
    case True
    let ?r = "drop (Suc (lx_position s)) (lx_input s)"
    have d: "drop (lx_position s) (lx_input s) = current_char s # ?r"
      using True by (simp add: is_at_end_def current_char_def Cons_nth_drop_Suc)
    have "lx_position (advance (Suc 0) s) = Suc (lx_position s)" using True advance_position by simp
    moreover have "advance n (advance (Suc 0) s) = advance (Suc n) s" for n using True by (simp add: advance.simps Let_def)
    ultimately show ?thesis using 1 True by (subst consume_while.simps) (simp add: d)
  next
    case False
    have "takeWhile p (drop (lx_position s) (lx_input s)) = []"
    proof (cases "is_at_end s")
      case atend: False
      then have "drop (lx_position s) (lx_input s) = current_char s # drop (Suc (lx_position s)) (lx_input s)"
        by (simp add: is_at_end_def current_char_def Cons_nth_drop_Suc)
      then show ?thesis using atend False by simp
    qed (simp add: is_at_end_def)
    then show ?thesis using False by (subst consume_while.simps) auto
  qed
qed

lemma quoted_body_keeps: "lx_input (snd (quoted_body q s)) = lx_input s \<and> lx_position s \<le> lx_position (snd (quoted_body q s))"
proof (induction q s rule: quoted_body.induct)
  case (1 q s)
  then show ?case
    using advance_mono [of s 2] advance_mono [of s "Suc 0"]
    by (subst (1 2) quoted_body.simps) (auto split: prod.splits)
qed

lemma dollar_body_keeps: "lx_input (snd (dollar_body s)) = lx_input s \<and> lx_position s \<le> lx_position (snd (dollar_body s))"
proof (induction s rule: dollar_body.induct)
  case (1 s)
  then show ?case
    using advance_mono [of s 2] advance_mono [of s "Suc 0"]
    by (subst (1 2) dollar_body.simps) (auto split: prod.splits)
qed

lemma push_token_keeps [simp]:
  "lx_input (push_token t l c v s) = lx_input s" "lx_position (push_token t l c v s) = lx_position s"
  "is_at_end (push_token t l c v s) = is_at_end s"
  by (simp_all add: push_token_def is_at_end_def)

lemma consume_while_progress:
  assumes "\<not> is_at_end s" "p (current_char s)"
  shows "lx_position s < lx_position (snd (consume_while p s))"
proof -
  have "drop (lx_position s) (lx_input s) = current_char s # drop (Suc (lx_position s)) (lx_input s)"
    using assms by (simp add: is_at_end_def current_char_def Cons_nth_drop_Suc)
  then show ?thesis using assms advance_Suc_less [OF assms(1)] by (simp add: consume_while_eq)
qed

text \<open>Every pass advances.\<close>

definition moves :: "Lexer \<Rightarrow> Lexer \<Rightarrow> bool" where
  "moves s s' = (lx_input s' = lx_input s \<and> lx_position s < lx_position s')"

lemma advance_moves: "\<not> is_at_end s \<Longrightarrow> moves s (advance (Suc 0) s)" "\<not> is_at_end s \<Longrightarrow> moves s (advance 2 s)"
  using advance_Suc_less [of s 0] advance_Suc_less [of s 1] by (simp_all add: moves_def numeral_2_eq_2)

lemma moves_further: "moves s s1 \<Longrightarrow> lx_input s2 = lx_input s1 \<Longrightarrow> lx_position s1 \<le> lx_position s2 \<Longrightarrow> moves s s2"
  by (simp add: moves_def)

lemma consume_while_moves:
  assumes "\<not> is_at_end s" "p (current_char s)"
  shows "moves s (snd (consume_while p s))"
  using assms consume_while_progress by (simp add: moves_def consume_while_eq)

lemma consume_while_keeps:
  "lx_input (snd (consume_while p s)) = lx_input s" "lx_position s \<le> lx_position (snd (consume_while p s))"
  by (simp_all add: consume_while_eq advance_mono)

lemma push_moves [simp]: "moves s (push_token t l c v s') = moves s s'"
  by (simp add: moves_def)

lemma decimal_keeps:
  "lx_input (snd (decimal_part s)) = lx_input s" "lx_position s \<le> lx_position (snd (decimal_part s))"
  using consume_while_keeps [where p = is_ascii_digit and s = "advance (Suc 0) s"] advance_mono [of s "Suc 0"]
  by (auto simp: decimal_part_def split: prod.splits)

lemma exponent_keeps:
  "lx_input (snd (exponent_part s)) = lx_input s" "lx_position s \<le> lx_position (snd (exponent_part s))"
proof -
  have sign: "lx_input (snd (exponent_sign s)) = lx_input s" "lx_position s \<le> lx_position (snd (exponent_sign s))" for s
    by (auto simp: exponent_sign_def advance_mono)
  let ?s1 = "advance (Suc 0) s"
  show "lx_input (snd (exponent_part s)) = lx_input s" "lx_position s \<le> lx_position (snd (exponent_part s))"
    using sign [of ?s1] consume_while_keeps [where p = is_ascii_digit and s = "snd (exponent_sign ?s1)"] advance_mono [of s "Suc 0"]
    by (auto simp: exponent_part_def split: prod.splits)
qed

lemma add_token_moves:
  "add_token t (Suc 0) s = Ok s' \<Longrightarrow> \<not> is_at_end s \<Longrightarrow> moves s s'"
  "add_token t 2 s = Ok s' \<Longrightarrow> \<not> is_at_end s \<Longrightarrow> moves s s'"
  using advance_moves [of s] by (auto simp: add_token_def res_bind_Ok_iff)

lemma operator_token_moves: "\<not> is_at_end s \<Longrightarrow> operator_token s = Ok s' \<Longrightarrow> moves s s'"
  by (auto simp: operator_token_def Let_def intro: add_token_moves split: if_splits option.splits)

lemma lex_step_cases:
  assumes "lex_step s = r"
  obtains "is_ascii_whitespace (current_char s)" "Ok (consume_whitespace s) = r"
  | "current_char s = CHR ''-''" "peek_char s = Some CHR ''-''" "consume_line_comment s = r"
  | "current_char s = CHR ''$''" "peek_char s = Some CHR ''$''" "consume_dollar_quoted_string s = r"
  | "current_char s = CHR 0x27" "consume_string s = r"
  | "current_char s = CHR 0x22" "consume_quoted_identifier s = r"
  | "is_ascii_alpha (current_char s) \<or> current_char s = CHR ''_''" "Ok (consume_identifier_or_keyword s) = r"
  | "is_ascii_digit (current_char s)" "Ok (consume_number s) = r"
  | "operator_token s = r"
  using assms unfolding lex_step_def Let_def by (auto split: if_split_asm)

lemma lex_step_moves:
  assumes "\<not> is_at_end s" "lex_step s = Ok s'"
  shows "moves s s'"
proof -
  note adv = advance_moves [OF assms(1), THEN moves_further]
  have "moves s (consume_whitespace s)" if "is_ascii_whitespace (current_char s)"
    using consume_while_moves [OF assms(1), of is_ascii_whitespace] that by (simp add: consume_whitespace_def)
  moreover have "moves s s'" if "consume_line_comment s = Ok s'"
    using that adv(2) [OF consume_while_keeps]
    by (auto simp: consume_line_comment_def Let_def res_bind_Ok_iff split: if_splits)
  moreover have "moves s s'" if "consume_dollar_quoted_string s = Ok s'"
    using that dollar_body_keeps [of "advance 2 s"] adv(2) [of "snd (dollar_body (advance 2 s))"]
    by (auto simp: consume_dollar_quoted_string_def split: prod.splits if_splits)
  moreover have "moves s s'" if "consume_string s = Ok s'"
    using that quoted_body_keeps [of "CHR 0x27" "advance (Suc 0) s"] adv(1) [of "snd (quoted_body CHR 0x27 (advance (Suc 0) s))"]
    by (auto simp: consume_string_def Let_def split: prod.splits if_splits)
  moreover have "moves s s'" if "consume_quoted_identifier s = Ok s'"
    using that quoted_body_keeps [of "CHR 0x22" "advance (Suc 0) s"] adv(1) [of "snd (quoted_body CHR 0x22 (advance (Suc 0) s))"]
    by (auto simp: consume_quoted_identifier_def Let_def split: prod.splits if_splits)
  moreover have "moves s (consume_identifier_or_keyword s)" if "is_ascii_alpha (current_char s) \<or> current_char s = CHR ''_''"
    using consume_while_moves [OF assms(1), of identifier_char] that
    by (auto simp: consume_identifier_or_keyword_def identifier_char_def Let_def split: prod.splits)
  moreover have "moves s (consume_number s)" if "is_ascii_digit (current_char s)"
  proof -
    let ?s1 = "snd (consume_while is_ascii_digit s)"
    have "moves s (snd (exponent_part (snd (decimal_part ?s1))))"
      by (rule moves_further [OF moves_further [OF consume_while_moves [OF assms(1), of is_ascii_digit]]])
        (rule that decimal_keeps exponent_keeps)+
    then show ?thesis by (simp add: consume_number_def case_prod_unfold Let_def)
  qed
  ultimately show ?thesis
    using assms(2) operator_token_moves [OF assms(1), of s'] by (elim lex_step_cases) (simp_all only: res.inject)
qed

function tokenize_loop :: "Lexer \<Rightarrow> Lexer res" where
  "tokenize_loop s =
     (if is_at_end s then Ok s
      else case lex_step s of Ok s1 \<Rightarrow> tokenize_loop s1 | Err e \<Rightarrow> Err e | Panic m \<Rightarrow> Panic m | Deadlock \<Rightarrow> Deadlock)"
  by auto
termination
proof (relation "measure (\<lambda>s. length (lx_input s) - lx_position s)")
  fix s s1
  assume "\<not> is_at_end s" "lex_step s = Ok s1"
  then show "(s1, s) \<in> measure (\<lambda>s. length (lx_input s) - lx_position s)"
    using lex_step_moves [of s s1] by (auto simp: moves_def is_at_end_def intro: diff_less_mono2)
qed simp

declare tokenize_loop.simps [simp del]

definition tokenize :: "Lexer \<Rightarrow> Token list res" where
  "tokenize s = res_bind (tokenize_loop s) (\<lambda>s1.
     Ok (lx_tokens (push_token TkEOF (lx_line s1) (lx_column s1) [] s1)))"

subsection \<open>Definitions for the lemmas\<close>

text \<open>The line and the column behind a text, and the state of the lexer at a place of its input.\<close>

definition line_after :: "string \<Rightarrow> nat" where
  "line_after t = Suc (length (filter (\<lambda>c. c = CHR 0x0A) t))"

definition column_after :: "string \<Rightarrow> nat" where
  "column_after t = Suc (length (takeWhile (\<lambda>c. c \<noteq> CHR 0x0A) (rev t)))"

definition lexer_at :: "string \<Rightarrow> nat \<Rightarrow> Token list \<Rightarrow> Lexer" where
  "lexer_at i p ts = \<lparr>lx_input = i, lx_position = p, lx_line = line_after (take p i), lx_column = column_after (take p i),
     lx_tokens = ts\<rparr>"

text \<open>A token at its place: the value of a name, a number or a symbol is the text there.\<close>

definition token_placed :: "string \<Rightarrow> Token \<Rightarrow> bool" where
  "token_placed i t =
     (case token_type t of
        TkComment _ \<Rightarrow> \<exists>p \<le> length i. tk_line t = line_after (take p i) \<and> tk_column t = 1
      | ty \<Rightarrow> \<exists>p \<le> length i. tk_line t = line_after (take p i) \<and> tk_column t = column_after (take p i) \<and>
          ((\<exists>n. ty = Kw n \<or> ty = Sym n \<or> ty = TkIdentifier n \<or> ty = TkNumber n) \<longrightarrow>
            take (length (tk_value t)) (drop p i) = tk_value t))"

text \<open>How a token is written, and the tokens that are read back in every context.\<close>

definition symbol_table :: "(string \<times> string) list" where
  "symbol_table = [(''Equals'', ''=''), (''NotEquals'', ''!=''), (''LessThan'', ''<''), (''LessThanOrEquals'', ''<=''),
     (''GreaterThan'', ''>''), (''GreaterThanOrEquals'', ''>=''), (''Plus'', ''+''), (''Minus'', ''-''), (''Divide'', ''/''),
     (''Concatenate'', ''||''), (''LeftParen'', ''(''), (''RightParen'', '')''), (''LeftBracket'', ''[''),
     (''RightBracket'', '']''), (''Comma'', '',''), (''Semicolon'', '';''), (''Dot'', ''.''), (''Asterisk'', ''*'')]"

definition quote_text :: "char \<Rightarrow> string \<Rightarrow> string" where
  "quote_text q s = q # concat (map (\<lambda>c. if c = q then [q, q] else [c]) s) @ [q]"

fun spelling :: "TokenType \<Rightarrow> string" where
  "spelling (Kw n) = (case map_of (map (\<lambda>(w, n). (n, w)) keyword_table) n of Some w \<Rightarrow> w | None \<Rightarrow> [])"
| "spelling (Sym n) = (case map_of symbol_table n of Some w \<Rightarrow> w | None \<Rightarrow> [])"
| "spelling (TkIdentifier s) = s"
| "spelling (TkNumber s) = s"
| "spelling (TkString s) = quote_text CHR 0x27 s"
| "spelling (TkQuotedIdentifier s) = quote_text CHR 0x22 s"
| "spelling _ = []"

fun spellable :: "TokenType \<Rightarrow> bool" where
  "spellable (Kw n) = (n \<in> snd ` set keyword_table)"
| "spellable (Sym n) = (n \<in> fst ` set symbol_table)"
| "spellable (TkIdentifier s) =
     (s \<noteq> [] \<and> (is_ascii_alpha (hd s) \<or> hd s = CHR ''_'') \<and> list_all identifier_char s \<and>
      map_of keyword_table (to_uppercase s) = None \<and> map_of window_function_table (to_uppercase s) = None)"
| "spellable (TkNumber s) =
     (s \<noteq> [] \<and> is_ascii_digit (hd s) \<and>
      (case dropWhile is_ascii_digit s of [] \<Rightarrow> True | c # cs \<Rightarrow> c = CHR ''.'' \<and> list_all is_ascii_digit cs))"
| "spellable (TkString s) = True"
| "spellable (TkQuotedIdentifier s) = True"
| "spellable _ = False"

text \<open>A number and a string are the value of their token: the parser reads the value.\<close>

definition own_value :: "Token \<Rightarrow> bool" where
  "own_value t \<longleftrightarrow> (case token_type t of TkNumber s \<Rightarrow> tk_value t = s | TkString s \<Rightarrow> tk_value t = s | _ \<Rightarrow> True)"

subsection \<open>Lemmas: the state at a place\<close>

lemma line_column_after:
  "p < length i \<Longrightarrow> line_after (take (Suc p) i) = (if i ! p = CHR 0x0A then Suc (line_after (take p i)) else line_after (take p i))"
  "p < length i \<Longrightarrow> column_after (take (Suc p) i) = (if i ! p = CHR 0x0A then Suc 0 else Suc (column_after (take p i)))"
  by (simp_all add: line_after_def column_after_def take_Suc_conv_app_nth)

lemma lexer_at_simps [simp]:
  "lx_input (lexer_at i p ts) = i" "lx_position (lexer_at i p ts) = p" "lx_tokens (lexer_at i p ts) = ts"
  "lx_line (lexer_at i p ts) = line_after (take p i)" "lx_column (lexer_at i p ts) = column_after (take p i)"
  "is_at_end (lexer_at i p ts) = (length i \<le> p)" "current_char (lexer_at i p ts) = i ! p"
  "push_token t l c v (lexer_at i p ts) = lexer_at i p (ts @ [Token_new t l c v])"
  by (simp_all add: lexer_at_def is_at_end_def current_char_def push_token_def)

lemma Lexer_new_at: "Lexer_new i = lexer_at i 0 []"
  by (simp add: Lexer_new_def lexer_at_def line_after_def column_after_def)

lemma advance_at: "p \<le> length i \<Longrightarrow> advance n (lexer_at i p ts) = lexer_at i (min (p + n) (length i)) ts"
proof (induction n arbitrary: p)
  case (Suc n)
  show ?case
  proof (cases "p < length i")
    case True
    have "advance (Suc n) (lexer_at i p ts) = advance n (lexer_at i (Suc p) ts)"
      using True line_column_after [OF True] by (simp add: advance.simps Let_def lexer_at_def is_at_end_def current_char_def)
    then show ?thesis using Suc.IH [of "Suc p"] True by simp
  qed (use Suc.prems in \<open>simp add: advance.simps\<close>)
qed simp

lemma consume_while_at:
  assumes "p \<le> length i"
  shows "consume_while P (lexer_at i p ts) =
    (takeWhile P (drop p i), lexer_at i (p + length (takeWhile P (drop p i))) ts)"
proof -
  have "length (takeWhile P (drop p i)) \<le> length i - p" using length_takeWhile_le [of P "drop p i"] by simp
  then show ?thesis using assms by (simp add: consume_while_eq advance_at min_def)
qed

lemma advance_one_at:
  assumes "p < length i"
  shows "advance (Suc 0) (lexer_at i p ts) = lexer_at i (Suc p) ts"
    "advance 2 (lexer_at i p ts) = lexer_at i (min (p + 2) (length i)) ts"
  using assms by (simp_all add: advance_at)

lemma peek_at: "peek_char (lexer_at i p ts) = Some c \<Longrightarrow> p + 2 \<le> length i"
  by (simp add: peek_char_def split: if_splits)

lemma advance_peeked:
  assumes "p < length i" "peek_char (lexer_at i p ts) = Some c"
  shows "advance 2 (lexer_at i p ts) = lexer_at i (p + 2) ts"
  using advance_one_at(2) [OF assms(1)] peek_at [OF assms(2)] by (simp add: min_def)

lemma quoted_body_step:
  "length i \<le> p \<Longrightarrow> quoted_body q (lexer_at i p ts) = ([], lexer_at i p ts)"
  "p < length i \<Longrightarrow> quoted_body q (lexer_at i p ts) =
    (if i ! p = q then
       (if peek_char (lexer_at i p ts) = Some q then apfst ((#) q) (quoted_body q (lexer_at i (p + 2) ts))
        else ([], lexer_at i (Suc p) ts))
     else apfst ((#) (i ! p)) (quoted_body q (lexer_at i (Suc p) ts)))"
  by (subst quoted_body.simps, simp, subst quoted_body.simps, simp add: advance_one_at(1) advance_peeked split: prod.split)

lemma dollar_body_step:
  "length i \<le> p \<Longrightarrow> dollar_body (lexer_at i p ts) = ([], lexer_at i p ts)"
  "p < length i \<Longrightarrow> dollar_body (lexer_at i p ts) =
    (if i ! p = CHR ''$'' \<and> peek_char (lexer_at i p ts) = Some CHR ''$'' then ([], lexer_at i (p + 2) ts)
     else apfst ((#) (i ! p)) (dollar_body (lexer_at i (Suc p) ts)))"
  by (subst dollar_body.simps, simp, subst dollar_body.simps, simp add: advance_one_at(1) advance_peeked split: prod.split)

lemma quoted_body_at:
  "p \<le> length i \<Longrightarrow> \<exists>v p'. quoted_body q (lexer_at i p ts) = (v, lexer_at i p' ts) \<and> p \<le> p' \<and> p' \<le> length i"
proof (induction "length i - p" arbitrary: p rule: less_induct)
  case less
  show ?case
  proof (cases "p < length i")
    case True
    show ?thesis
    proof (cases "i ! p = q \<and> peek_char (lexer_at i p ts) = Some q")
      case double: True
      then have le: "p + 2 \<le> length i" using peek_at by blast
      then have "length i - (p + 2) < length i - p" by linarith
      then obtain v p' where "quoted_body q (lexer_at i (p + 2) ts) = (v, lexer_at i p' ts)" "p + 2 \<le> p'" "p' \<le> length i"
        using less.hyps le by blast
      then show ?thesis using True double by (auto simp: quoted_body_step intro!: exI [of _ p'])
    next
      case False
      have "length i - Suc p < length i - p" "Suc p \<le> length i" using True by linarith+
      then obtain v p' where "quoted_body q (lexer_at i (Suc p) ts) = (v, lexer_at i p' ts)" "Suc p \<le> p'" "p' \<le> length i"
        using less.hyps by blast
      then show ?thesis using True False by (cases "i ! p = q") (auto simp: quoted_body_step)
    qed
  qed (use less.prems in \<open>auto simp: quoted_body_step\<close>)
qed

lemma dollar_body_at:
  "p \<le> length i \<Longrightarrow> \<exists>v p'. dollar_body (lexer_at i p ts) = (v, lexer_at i p' ts) \<and> p \<le> p' \<and> p' \<le> length i"
proof (induction "length i - p" arbitrary: p rule: less_induct)
  case less
  show ?case
  proof (cases "p < length i")
    case True
    have "length i - Suc p < length i - p" "Suc p \<le> length i" using True by linarith+
    then obtain v p' where "dollar_body (lexer_at i (Suc p) ts) = (v, lexer_at i p' ts)" "Suc p \<le> p'" "p' \<le> length i"
      using less.hyps by blast
    then show ?thesis
      using True peek_at [of i p ts "CHR ''$''"] by (auto simp: dollar_body_step)
  qed (use less.prems in \<open>auto simp: dollar_body_step\<close>)
qed

subsection \<open>Lemmas: passes\<close>

lemma token_placedI:
  assumes "p \<le> length i" "\<And>c. t \<noteq> TkComment c"
    "(\<exists>n. t = Kw n \<or> t = Sym n \<or> t = TkIdentifier n \<or> t = TkNumber n) \<Longrightarrow> take (length v) (drop p i) = v"
  shows "token_placed i (Token_new t (line_after (take p i)) (column_after (take p i)) v)"
  using assms by (cases t) (auto simp: token_placed_def Token_new_def)

lemma identifier_token_no_comment: "identifier_token s b \<noteq> TkComment c"
  by (auto simp: identifier_token_def Let_def split: option.split)

text \<open>A successful pass adds at most one token, at its place; a failing one is an error.\<close>

definition pass_ok :: "string \<Rightarrow> Token list \<Rightarrow> Lexer res \<Rightarrow> bool" where
  "pass_ok i ts r \<longleftrightarrow>
     (\<exists>p' ts'. r = Ok (lexer_at i p' (ts @ ts')) \<and> p' \<le> length i \<and> (\<forall>t \<in> set ts'. token_placed i t)) \<or> (\<exists>e. r = Err e)"

lemma pass_okI:
  "p' \<le> length i \<Longrightarrow> pass_ok i ts (Ok (lexer_at i p' ts))"
  "p' \<le> length i \<Longrightarrow> token_placed i t \<Longrightarrow> pass_ok i ts (Ok (lexer_at i p' (ts @ [t])))"
  "pass_ok i ts (Err e)"
proof -
  show "pass_ok i ts (Ok (lexer_at i p' ts))" if "p' \<le> length i"
    using that unfolding pass_ok_def by (intro disjI1 exI [of _ p'] exI [of _ "[]"]) simp
  show "pass_ok i ts (Ok (lexer_at i p' (ts @ [t])))" if "p' \<le> length i" "token_placed i t"
    using that unfolding pass_ok_def by (intro disjI1 exI [of _ p'] exI [of _ "[t]"]) simp
qed (simp add: pass_ok_def)

lemma column_bound: "p \<le> length i \<Longrightarrow> column_after (take p i) - 1 \<le> p"
  using length_takeWhile_le [of "\<lambda>c. c \<noteq> CHR 0x0A" "rev (take p i)"] by (simp add: column_after_def)

lemma token_placed_comment: "p \<le> length i \<Longrightarrow> token_placed i (Token_new (TkComment c) (line_after (take p i)) (Suc 0) v)"
  by (auto simp: token_placed_def Token_new_def)

lemma comment_pass:
  assumes "p < length i" "peek_char (lexer_at i p ts) = Some c"
  shows "pass_ok i ts (consume_line_comment (lexer_at i p ts))"
proof -
  define p' where "p' = p + 2 + length (takeWhile (\<lambda>c. c \<noteq> CHR 0x0A) (drop (p + 2) i))"
  have b: "p + 2 \<le> length i" using peek_at [OF assms(2)] .
  then have p': "p' \<le> length i" using length_takeWhile_le [of "\<lambda>c. c \<noteq> CHR 0x0A" "drop (p + 2) i"] by (simp add: p'_def)
  have "snd (consume_while (\<lambda>c. c \<noteq> CHR 0x0A) (lexer_at i (p + 2) ts)) = lexer_at i p' ts"
    using consume_while_at [OF b] by (simp add: p'_def)
  then show ?thesis
    using advance_peeked [OF assms] column_bound [OF p'] p' b
    by (auto simp: consume_line_comment_def input_slice_def intro!: pass_okI token_placed_comment)
qed

lemma quoted_pass:
  assumes "p < length i"
  shows "pass_ok i ts (consume_string (lexer_at i p ts))" "pass_ok i ts (consume_quoted_identifier (lexer_at i p ts))"
proof -
  have "Suc p \<le> length i" using assms by simp
  then show "pass_ok i ts (consume_string (lexer_at i p ts))" "pass_ok i ts (consume_quoted_identifier (lexer_at i p ts))"
    using quoted_body_at [of "Suc p" i "CHR 0x27" ts] quoted_body_at [of "Suc p" i "CHR 0x22" ts] advance_one_at [OF assms]
    by (auto simp: consume_string_def consume_quoted_identifier_def Let_def intro!: pass_okI token_placedI)
qed

lemma dollar_pass:
  assumes "p < length i" "peek_char (lexer_at i p ts) = Some c"
  shows "pass_ok i ts (consume_dollar_quoted_string (lexer_at i p ts))"
  using dollar_body_at [of "p + 2" i ts] peek_at [OF assms(2)] advance_peeked [OF assms] assms(1)
  by (auto simp: consume_dollar_quoted_string_def intro!: pass_okI token_placedI)

lemma name_pass:
  assumes "p < length i"
  shows "pass_ok i ts (Ok (consume_identifier_or_keyword (lexer_at i p ts)))"
proof -
  let ?w = "takeWhile identifier_char (drop p i)"
  have "take (length ?w) (drop p i) = ?w" by (metis takeWhile_eq_take)
  moreover have "p + length ?w \<le> length i" using length_takeWhile_le [of identifier_char "drop p i"] assms by simp
  ultimately show ?thesis
    using assms consume_while_at [of p i identifier_char ts]
    by (auto simp: consume_identifier_or_keyword_def identifier_token_no_comment intro!: pass_okI token_placedI)
qed

lemma add_token_pass:
  assumes "p + n \<le> length i"
  shows "pass_ok i ts (add_token (Sym m) n (lexer_at i p ts))"
  using assms by (auto simp: add_token_def input_slice_def advance_at intro!: pass_okI token_placedI)

lemma operator_pass:
  assumes "p < length i"
  shows "pass_ok i ts (operator_token (lexer_at i p ts))"
  using assms peek_at [of i p ts]
  by (auto simp: operator_token_def Let_def intro!: add_token_pass pass_okI split: option.split)

text \<open>Functions that cut out the text they pass over.\<close>

definition scans :: "string \<Rightarrow> Token list \<Rightarrow> (Lexer \<Rightarrow> string \<times> Lexer) \<Rightarrow> bool" where
  "scans i ts f \<longleftrightarrow> (\<forall>p \<le> length i. \<exists>v. f (lexer_at i p ts) = (v, lexer_at i (p + length v) ts) \<and>
     p + length v \<le> length i \<and> take (length v) (drop p i) = v)"

lemma scansE:
  assumes "scans i ts f" "p \<le> length i"
  obtains v where "f (lexer_at i p ts) = (v, lexer_at i (p + length v) ts)" "p + length v \<le> length i" "take (length v) (drop p i) = v"
  using assms unfolding scans_def by blast

lemma scans_while: "scans i ts (consume_while P)"
  using consume_while_at [of _ i P ts] length_takeWhile_le [of P]
  by (auto simp: scans_def takeWhile_eq_take [symmetric]) (metis length_drop nat_le_linear le_diff_conv2 add.commute)

lemma scans_nothing: "scans i ts (\<lambda>s. ([], s))"
  by (simp add: scans_def)

lemma scans_char:
  assumes "scans i ts f"
  shows "scans i ts (\<lambda>s. if \<not> is_at_end s \<and> P (current_char s)
    then let (v, s1) = f (advance (Suc 0) s) in (current_char s # v, s1) else ([], s))"
  unfolding scans_def
proof (intro allI impI)
  fix p
  assume p: "p \<le> length i"
  let ?g = "\<lambda>s. if \<not> is_at_end s \<and> P (current_char s)
    then let (v, s1) = f (advance (Suc 0) s) in (current_char s # v, s1) else ([], s)"
  show "\<exists>v. ?g (lexer_at i p ts) = (v, lexer_at i (p + length v) ts) \<and> p + length v \<le> length i \<and> take (length v) (drop p i) = v"
  proof (cases "p < length i \<and> P (i ! p)")
    case True
    then have "Suc p \<le> length i" by simp
    then obtain v where v: "f (lexer_at i (Suc p) ts) = (v, lexer_at i (Suc p + length v) ts)"
      "Suc p + length v \<le> length i" "take (length v) (drop (Suc p) i) = v"
      using scansE [OF assms] by metis
    have "take (Suc (length v)) (drop p i) = i ! p # v" using True v(3) by (simp add: Cons_nth_drop_Suc [symmetric])
    then show ?thesis using True v advance_one_at(1) [of p i ts] by simp
  qed (use p in auto)
qed

lemma scans_append:
  assumes "scans i ts f" "scans i ts g"
  shows "scans i ts (\<lambda>s. let (v, s1) = f s; (w, s2) = g s1 in (v @ w, s2))"
  unfolding scans_def
proof (intro allI impI)
  fix p
  assume "p \<le> length i"
  then obtain v where v: "f (lexer_at i p ts) = (v, lexer_at i (p + length v) ts)" "p + length v \<le> length i"
      "take (length v) (drop p i) = v" using scansE [OF assms(1)] by metis
  then obtain w where w: "g (lexer_at i (p + length v) ts) = (w, lexer_at i (p + length v + length w) ts)"
      "p + length v + length w \<le> length i" "take (length w) (drop (p + length v) i) = w" using scansE [OF assms(2)] by metis
  show "\<exists>u. (let (v, s1) = f (lexer_at i p ts); (w, s2) = g s1 in (v @ w, s2)) = (u, lexer_at i (p + length u) ts) \<and>
      p + length u \<le> length i \<and> take (length u) (drop p i) = u"
    using v w by (simp add: take_add add.assoc [symmetric] add.commute [of "length v" p])
qed

lemma scans_decimal: "scans i ts decimal_part"
proof -
  have "decimal_part = (\<lambda>s. if \<not> is_at_end s \<and> current_char s = CHR ''.''
    then let (v, s1) = consume_while is_ascii_digit (advance (Suc 0) s) in (current_char s # v, s1) else ([], s))"
    by (auto simp: decimal_part_def)
  then show ?thesis using scans_char [OF scans_while [where P = is_ascii_digit], where P = "\<lambda>c. c = CHR ''.''"] by simp
qed

lemma scans_exponent: "scans i ts exponent_part"
proof -
  have "exponent_sign = (\<lambda>s. if \<not> is_at_end s \<and> (current_char s = CHR ''+'' \<or> current_char s = CHR ''-'')
    then let (v, s1) = ([], advance (Suc 0) s) in (current_char s # v, s1) else ([], s))"
    by (auto simp: exponent_sign_def)
  then have sign: "scans i ts exponent_sign"
    using scans_char [OF scans_nothing, of i ts "\<lambda>c. c = CHR ''+'' \<or> c = CHR ''-''"] by simp
  have "exponent_part = (\<lambda>s. if \<not> is_at_end s \<and> (current_char s = CHR ''e'' \<or> current_char s = CHR ''E'')
    then let (v, s1) = (\<lambda>s. let (v, s1) = exponent_sign s; (w, s2) = consume_while is_ascii_digit s1 in (v @ w, s2)) (advance (Suc 0) s)
      in (current_char s # v, s1) else ([], s))"
    by (auto simp: exponent_part_def split: prod.split)
  then show ?thesis
    using scans_char [OF scans_append [OF sign scans_while [where P = is_ascii_digit]], where P = "\<lambda>c. c = CHR ''e'' \<or> c = CHR ''E''"]
    by simp
qed

lemma number_pass:
  assumes "p < length i"
  shows "pass_ok i ts (Ok (consume_number (lexer_at i p ts)))"
proof -
  have all: "scans i ts (\<lambda>s. let (v, s1) = consume_while is_ascii_digit s; (w, s2) =
      (\<lambda>s. let (v, s1) = decimal_part s; (w, s2) = exponent_part s1 in (v @ w, s2)) s1 in (v @ w, s2))"
    by (intro scans_append scans_while scans_decimal scans_exponent)
  obtain v where "(let (v, s1) = consume_while is_ascii_digit (lexer_at i p ts); (w, s2) =
      (\<lambda>s. let (v, s1) = decimal_part s; (w, s2) = exponent_part s1 in (v @ w, s2)) s1 in (v @ w, s2)) =
      (v, lexer_at i (p + length v) ts)" "p + length v \<le> length i" "take (length v) (drop p i) = v"
    using scansE [OF all less_imp_le [OF assms]] by metis
  moreover from this have "consume_number (lexer_at i p ts) = lexer_at i (p + length v)
      (ts @ [Token_new (TkNumber v) (line_after (take p i)) (column_after (take p i)) v])"
    by (auto simp: consume_number_def split: prod.splits)
  ultimately show ?thesis using assms by (auto intro!: pass_okI token_placedI)
qed

lemma lex_step_pass:
  assumes "p < length i"
  shows "pass_ok i ts (lex_step (lexer_at i p ts))"
proof -
  obtain v where "consume_while is_ascii_whitespace (lexer_at i p ts) = (v, lexer_at i (p + length v) ts)" "p + length v \<le> length i"
    using scansE [OF scans_while less_imp_le [OF assms]] by metis
  then have "pass_ok i ts (Ok (consume_whitespace (lexer_at i p ts)))"
    by (simp add: consume_whitespace_def pass_okI(1))
  then have "pass_ok i ts r" if "lex_step (lexer_at i p ts) = r" for r
    using that comment_pass [OF assms] dollar_pass [OF assms] quoted_pass [OF assms] name_pass [OF assms] number_pass [OF assms]
      operator_pass [OF assms] by (elim lex_step_cases) (hypsubst, blast)+
  then show ?thesis by blast
qed

lemma tokenize_loop_pass:
  "p \<le> length i \<Longrightarrow> \<forall>t \<in> set ts. token_placed i t \<Longrightarrow>
    (\<exists>ts'. tokenize_loop (lexer_at i p ts) = Ok (lexer_at i (length i) ts') \<and> (\<forall>t \<in> set ts'. token_placed i t)) \<or>
    (\<exists>e. tokenize_loop (lexer_at i p ts) = Err e)"
proof (induction "length i - p" arbitrary: p ts rule: less_induct)
  case less
  show ?case
  proof (cases "p < length i")
    case True
    from lex_step_pass [OF True, of ts] show ?thesis unfolding pass_ok_def
    proof (elim disjE exE conjE)
      fix p' ts'
      assume step: "lex_step (lexer_at i p ts) = Ok (lexer_at i p' (ts @ ts'))" "p' \<le> length i" "\<forall>t \<in> set ts'. token_placed i t"
      have "p < p'" using lex_step_moves [OF _ step(1)] True by (simp add: moves_def)
      then have "length i - p' < length i - p" using True by linarith
      moreover have "\<forall>t \<in> set (ts @ ts'). token_placed i t" using step(3) less.prems by auto
      ultimately show ?thesis
        using less.hyps [OF _ step(2)] step(1) True by (simp add: tokenize_loop.simps [of "lexer_at i p ts"])
    next
      fix e
      assume "lex_step (lexer_at i p ts) = Err e"
      then show ?thesis using True by (simp add: tokenize_loop.simps [of "lexer_at i p ts"])
    qed
  qed (use less.prems in \<open>auto simp: tokenize_loop.simps\<close>)
qed

subsection \<open>Lemmas: spelled tokens\<close>

lemma at_Cons:
  assumes "drop p i = c # cs"
  shows "p < length i" "i ! p = c" "drop (Suc p) i = cs"
    "peek_char (lexer_at i p ts) = (case cs of [] \<Rightarrow> None | d # _ \<Rightarrow> Some d)"
proof -
  show l: "p < length i" using assms by (metis drop_all list.distinct(1) not_le)
  show "i ! p = c" using assms by (rule nth_via_drop)
  show d: "drop (Suc p) i = cs" using assms by (metis drop_Suc list.sel(3) tl_drop)
  show "peek_char (lexer_at i p ts) = (case cs of [] \<Rightarrow> None | d # _ \<Rightarrow> Some d)"
  proof (cases cs)
    case Nil
    then show ?thesis using d by (simp add: peek_char_def)
  next
    case (Cons d ds)
    then have "Suc p < length i" using d by (metis drop_all list.distinct(1) not_le)
    then show ?thesis using nth_via_drop [OF d [unfolded Cons]] Cons by (simp add: peek_char_def)
  qed
qed

lemma at_append:
  assumes "drop p i = w @ r" "p \<le> length i"
  shows "p + length w \<le> length i" "drop (p + length w) i = r" "take (length w) (drop p i) = w"
proof -
  have "length w \<le> length (drop p i)" using assms(1) by simp
  then show "p + length w \<le> length i" using assms(2) by simp
  have "drop (length w) (drop p i) = r" using assms(1) by simp
  then show "drop (p + length w) i = r" by (simp add: add.commute)
  show "take (length w) (drop p i) = w" using assms(1) by simp
qed

lemma consume_while_spelled:
  assumes "drop p i = w @ r" "list_all P w" "r \<noteq> [] \<longrightarrow> \<not> P (hd r)" "p \<le> length i"
  shows "consume_while P (lexer_at i p ts) = (w, lexer_at i (p + length w) ts)"
proof -
  have "takeWhile P (drop p i) = w"
    using assms(1-3) by (cases r) (auto simp: list_all_iff takeWhile_append2)
  then show ?thesis using consume_while_at [OF assms(4), of P ts] by simp
qed

lemma quoted_body_spelled:
  assumes "drop p i = concat (map (\<lambda>c. if c = q then [q, q] else [c]) s) @ q # r" "r = [] \<or> hd r \<noteq> q"
  shows "quoted_body q (lexer_at i p ts) = (s, lexer_at i (p + length (concat (map (\<lambda>c. if c = q then [q, q] else [c]) s)) + 1) ts)"
  using assms(1)
proof (induction s arbitrary: p)
  case Nil
  then have d: "drop p i = q # r" by simp
  show ?case using at_Cons [OF d] assms(2) by (cases r) (auto simp: quoted_body_step)
next
  case (Cons c s)
  show ?case
  proof (cases "c = q")
    case True
    let ?r = "concat (map (\<lambda>c. if c = q then [q, q] else [c]) s) @ q # r"
    have d: "drop p i = q # q # ?r" using Cons.prems True by simp
    have d2: "drop (p + 2) i = ?r" using at_Cons(3) [OF at_Cons(3) [OF d]] by simp
    show ?thesis using at_Cons [OF d] Cons.IH [OF d2] True by (simp add: quoted_body_step)
  next
    case False
    let ?r = "concat (map (\<lambda>c. if c = q then [q, q] else [c]) s) @ q # r"
    have d: "drop p i = c # ?r" using Cons.prems False by simp
    show ?thesis using at_Cons [OF d] Cons.IH [OF at_Cons(3) [OF d]] False by (simp add: quoted_body_step)
  qed
qed

lemma keyword_table_facts:
  "distinct (map fst keyword_table)" "distinct (map snd keyword_table)"
  "list_all (\<lambda>(w, n). w \<noteq> [] \<and> is_ascii_alpha (hd w) \<and> list_all identifier_char w \<and> to_uppercase w = w) keyword_table"
  by (simp add: keyword_table_def, simp add: keyword_table_def, simp add: keyword_table_def is_ascii_alpha_def identifier_char_def
      is_ascii_upper_def is_ascii_lower_def to_uppercase_def to_upper_def)

lemma keyword_spelling:
  assumes "(w, n) \<in> set keyword_table"
  shows "map_of (map (\<lambda>(w, n). (n, w)) keyword_table) n = Some w"
proof (rule map_of_is_SomeI)
  show "distinct (map fst (map (\<lambda>(w, n). (n, w)) keyword_table))"
    using keyword_table_facts(2) by (simp add: case_prod_unfold comp_def)
  show "(n, w) \<in> set (map (\<lambda>(w, n). (n, w)) keyword_table)" using assms by force
qed

lemma char_facts:
  "is_ascii_alpha c \<Longrightarrow> \<not> is_ascii_whitespace c \<and> c \<noteq> CHR ''-'' \<and> c \<noteq> CHR ''$'' \<and> c \<noteq> CHR 0x27 \<and> c \<noteq> CHR 0x22"
  "is_ascii_digit c \<Longrightarrow> \<not> is_ascii_whitespace c \<and> c \<noteq> CHR ''-'' \<and> c \<noteq> CHR ''$'' \<and> c \<noteq> CHR 0x27 \<and> c \<noteq> CHR 0x22 \<and>
    \<not> is_ascii_alpha c \<and> c \<noteq> CHR ''_''"
  "\<not> identifier_char CHR '' ''" "\<not> is_ascii_digit CHR '' ''" "\<not> is_ascii_digit CHR ''.''" "is_ascii_whitespace CHR '' ''"
  by (auto simp: is_ascii_alpha_def is_ascii_upper_def is_ascii_lower_def is_ascii_whitespace_def is_ascii_digit_def
      identifier_char_def Let_def)

lemma name_step:
  assumes "drop p i = w @ CHR '' '' # r" "p \<le> length i" "w \<noteq> []" "is_ascii_alpha (hd w) \<or> hd w = CHR ''_''"
    "list_all identifier_char w" "\<And>b. identifier_token w b = t"
  shows "\<exists>l c. lex_step (lexer_at i p ts) = Ok (lexer_at i (p + length w) (ts @ [Token_new t l c w]))"
proof -
  obtain a as where w: "w = a # as" using assms(3) by (cases w) auto
  note at = at_Cons [OF assms(1) [unfolded w append_Cons]]
  have "\<not> is_ascii_whitespace CHR ''_''" by (simp add: is_ascii_whitespace_def)
  then have "lex_step (lexer_at i p ts) = Ok (consume_identifier_or_keyword (lexer_at i p ts))"
    using at(2) assms(4) w char_facts(1) [of a] by (auto simp: lex_step_def Let_def)
  then show ?thesis
    using consume_while_spelled [OF assms(1,5) _ assms(2)] char_facts assms(6)
    by (auto simp: consume_identifier_or_keyword_def Let_def)
qed

lemma number_step:
  assumes "drop p i = s @ CHR '' '' # r" "p \<le> length i" "spellable (TkNumber s)"
  shows "\<exists>l c. lex_step (lexer_at i p ts) = Ok (lexer_at i (p + length s) (ts @ [Token_new (TkNumber s) l c s]))"
proof -
  define ds f where "ds = takeWhile is_ascii_digit s" and "f = dropWhile is_ascii_digit s"
  have s: "s = ds @ f" by (simp add: ds_def f_def)
  have digits: "list_all is_ascii_digit ds" by (auto simp: ds_def list_all_iff dest: set_takeWhileD)
  obtain a as where a: "s = a # as" "is_ascii_digit a" using assms(3) by (cases s) auto
  have step: "lex_step (lexer_at i p ts) = Ok (consume_number (lexer_at i p ts))"
    using at_Cons(2) [OF assms(1) [unfolded a(1) append_Cons]] char_facts(2) [OF a(2)] a(2) by (simp add: lex_step_def Let_def)
  have d: "drop p i = ds @ f @ CHR '' '' # r" using assms(1) s by simp
  have f: "f = [] \<or> (\<exists>g. f = CHR ''.'' # g \<and> list_all is_ascii_digit g)"
    using assms(3) by (cases f) (auto simp: f_def [symmetric] split: list.splits)
  have hdf: "\<not> is_ascii_digit (hd (f @ CHR '' '' # r))" using f char_facts by auto
  have one: "consume_while is_ascii_digit (lexer_at i p ts) = (ds, lexer_at i (p + length ds) ts)"
    using consume_while_spelled [OF d digits _ assms(2)] hdf by blast
  note e = at_append [OF d assms(2)]
  have two: "decimal_part (lexer_at i (p + length ds) ts) = (f, lexer_at i (p + length s) ts)"
  proof (cases "f = []")
    case True
    then show ?thesis using at_Cons [OF e(2) [unfolded True append_Nil]] s by (simp add: decimal_part_def)
  next
    case False
    then obtain g where g: "f = CHR ''.'' # g" "list_all is_ascii_digit g" using f by blast
    note at = at_Cons [OF e(2) [unfolded g(1) append_Cons]]
    have "consume_while is_ascii_digit (lexer_at i (Suc (p + length ds)) ts) = (g, lexer_at i (Suc (p + length ds) + length g) ts)"
      using consume_while_spelled [OF at(3) g(2)] char_facts at(1) by simp
    then show ?thesis using at g(1) s advance_one_at(1) [OF at(1)] by (simp add: decimal_part_def add.assoc)
  qed
  have "drop (p + length s) i = CHR '' '' # r" using at_append(2) [OF assms(1,2)] .
  then have three: "exponent_part (lexer_at i (p + length s) ts) = ([], lexer_at i (p + length s) ts)"
    using at_Cons [of "p + length s" i "CHR '' ''" r] by (simp add: exponent_part_def)
  show ?thesis using step one two three s by (auto simp: consume_number_def Let_def)
qed

lemma quoted_step:
  assumes "p \<le> length i"
  shows "drop p i = quote_text CHR 0x27 s @ CHR '' '' # r \<Longrightarrow>
      \<exists>l c. lex_step (lexer_at i p ts) = Ok (lexer_at i (p + length (quote_text CHR 0x27 s)) (ts @ [Token_new (TkString s) l c s]))"
    and "drop p i = quote_text CHR 0x22 s @ CHR '' '' # r \<Longrightarrow>
      \<exists>l c. lex_step (lexer_at i p ts) = Ok (lexer_at i (p + length (quote_text CHR 0x22 s)) (ts @ [Token_new (TkQuotedIdentifier s) l c s]))"
proof -
  have body: "quoted_body q (lexer_at i (Suc p) ts) = (s, lexer_at i (p + length (quote_text q s)) ts) \<and>
      p + length (quote_text q s) < length i \<and> p < length i \<and> i ! p = q"
    if d: "drop p i = quote_text q s @ CHR '' '' # r" and q: "q \<noteq> CHR '' ''" for q
  proof -
    let ?c = "concat (map (\<lambda>c. if c = q then [q, q] else [c]) s)"
    have d1: "drop p i = q # ?c @ q # CHR '' '' # r" using d by (simp add: quote_text_def)
    have "p + length (quote_text q s) < length i" using at_Cons(1) [OF at_append(2) [OF d assms]] .
    then show ?thesis
      using quoted_body_spelled [OF at_Cons(3) [OF d1]] q at_Cons [OF d1] by (simp add: quote_text_def)
  qed
  have ws: "\<not> is_ascii_whitespace CHR 0x27" "\<not> is_ascii_whitespace CHR 0x22" by (simp_all add: is_ascii_whitespace_def)
  show "\<exists>l c. lex_step (lexer_at i p ts) = Ok (lexer_at i (p + length (quote_text CHR 0x27 s)) (ts @ [Token_new (TkString s) l c s]))"
    if "drop p i = quote_text CHR 0x27 s @ CHR '' '' # r"
    using body [OF that] advance_one_at(1) [of p i ts] ws by (auto simp: lex_step_def Let_def consume_string_def)
  show "\<exists>l c. lex_step (lexer_at i p ts) = Ok (lexer_at i (p + length (quote_text CHR 0x22 s)) (ts @ [Token_new (TkQuotedIdentifier s) l c s]))"
    if "drop p i = quote_text CHR 0x22 s @ CHR '' '' # r"
    using body [OF that] advance_one_at(1) [of p i ts] ws by (auto simp: lex_step_def Let_def consume_quoted_identifier_def)
qed

lemma symbol_step:
  assumes "drop p i = spelling (Sym n) @ CHR '' '' # r" "p \<le> length i" "n \<in> fst ` set symbol_table"
  shows "\<exists>l c. lex_step (lexer_at i p ts) = Ok (lexer_at i (p + length (spelling (Sym n))) (ts @ [Token_new (Sym n) l c (spelling (Sym n))]))"
proof -
  note e = at_append [OF assms(1,2)]
  have add: "add_token (Sym n) (length (spelling (Sym n))) (lexer_at i p ts) =
      Ok (lexer_at i (p + length (spelling (Sym n))) (ts @ [Token_new (Sym n) (line_after (take p i)) (column_after (take p i)) (spelling (Sym n))]))"
    using e assms(2) by (simp add: add_token_def input_slice_def advance_at)
  have "spelling (Sym n) \<noteq> []" using assms(3) by (auto simp: symbol_table_def)
  then have "drop p i = hd (spelling (Sym n)) # tl (spelling (Sym n)) @ CHR '' '' # r" using assms(1) by simp
  note first = at_Cons [OF this]
  have "n \<in> {''Equals'', ''NotEquals'', ''LessThan'', ''LessThanOrEquals'', ''GreaterThan'', ''GreaterThanOrEquals'', ''Plus'', ''Minus'',
      ''Divide'', ''Concatenate'', ''LeftParen'', ''RightParen'', ''LeftBracket'', ''RightBracket'', ''Comma'', ''Semicolon'', ''Dot'', ''Asterisk''}"
    using assms(3) by (simp add: symbol_table_def)
  then have "lex_step (lexer_at i p ts) = add_token (Sym n) (length (spelling (Sym n))) (lexer_at i p ts)"
    unfolding insert_iff empty_iff
    by (elim disjE) (simp_all add: first symbol_table_def lex_step_def operator_token_def punctuation_def is_ascii_whitespace_def
        is_ascii_alpha_def is_ascii_upper_def is_ascii_lower_def is_ascii_digit_def numeral_2_eq_2)
  then show ?thesis using add by auto
qed

lemma spelled_step:
  assumes "drop p i = spelling t @ CHR '' '' # r" "p \<le> length i" "spellable t"
  shows "\<exists>l c v. lex_step (lexer_at i p ts) = Ok (lexer_at i (p + length (spelling t)) (ts @ [Token_new t l c v])) \<and>
    own_value (Token_new t l c v)"
proof (cases t)
  case (Kw n)
  then obtain w where wn: "(w, n) \<in> set keyword_table" using assms(3) by auto
  then have "map_of keyword_table w = Some n" using keyword_table_facts(1) by (simp add: map_of_eq_Some_iff)
  moreover note keyword_spelling [OF wn]
  moreover have "w \<noteq> []" "is_ascii_alpha (hd w)" "list_all identifier_char w" "to_uppercase w = w"
    using wn keyword_table_facts(3) by (auto simp: list_all_iff)
  ultimately show ?thesis
    using name_step [of p i w r "Kw n" ts] assms(1,2) Kw by (auto simp: identifier_token_def own_value_def Token_new_def)
next
  case (Sym n)
  then show ?thesis using symbol_step [of p i n r ts] assms by (auto simp: own_value_def Token_new_def)
next
  case (TkIdentifier s)
  then show ?thesis using name_step [of p i s r t ts] assms by (auto simp: identifier_token_def own_value_def Token_new_def)
next
  case (TkNumber s)
  then show ?thesis using number_step [of p i s r ts] assms by (auto simp: own_value_def Token_new_def)
next
  case (TkString s)
  then show ?thesis using quoted_step(1) [OF assms(2), of s r ts] assms(1) by (auto simp: own_value_def Token_new_def)
next
  case (TkQuotedIdentifier s)
  then show ?thesis using quoted_step(2) [OF assms(2), of s r ts] assms(1) by (auto simp: own_value_def Token_new_def)
qed (use assms(3) in auto)

lemma spelled_first:
  assumes "spellable t"
  shows "spelling t \<noteq> [] \<and> \<not> is_ascii_whitespace (hd (spelling t))"
proof (cases t)
  case (Kw n)
  then obtain w where wn: "(w, n) \<in> set keyword_table" using assms by auto
  then show ?thesis using keyword_spelling [OF wn] wn keyword_table_facts(3) Kw char_facts(1) by (auto simp: list_all_iff)
next
  case (Sym n)
  then show ?thesis using assms by (auto simp: symbol_table_def is_ascii_whitespace_def)
qed (use assms char_facts in \<open>auto simp: quote_text_def is_ascii_whitespace_def\<close>)

lemma space_step:
  assumes "drop p i = CHR '' '' # r" "p \<le> length i" "r \<noteq> [] \<longrightarrow> \<not> is_ascii_whitespace (hd r)"
  shows "lex_step (lexer_at i p ts) = Ok (lexer_at i (Suc p) ts)"
  using at_Cons [OF assms(1)] consume_while_spelled [of p i "[CHR '' '']" r is_ascii_whitespace ts] assms char_facts(6)
  by (simp add: lex_step_def Let_def consume_whitespace_def)

definition print_tokens :: "TokenType list \<Rightarrow> string" where
  "print_tokens ts = concat (map (\<lambda>t. spelling t @ '' '') ts)"

lemma tokenize_loop_spelled:
  assumes "list_all spellable ts" "drop p i = print_tokens ts" "p \<le> length i"
  shows "\<exists>toks. tokenize_loop (lexer_at i p acc) = Ok (lexer_at i (length i) (acc @ toks)) \<and> map token_type toks = ts \<and>
    list_all own_value toks"
  using assms
proof (induction ts arbitrary: p acc)
  case Nil
  then have "p = length i" by (simp add: print_tokens_def)
  then show ?case by (simp add: tokenize_loop.simps)
next
  case (Cons t ts)
  have d: "drop p i = spelling t @ CHR '' '' # print_tokens ts" using Cons.prems(2) by (simp add: print_tokens_def)
  have sp: "spellable t" using Cons.prems(1) by simp
  let ?q = "p + length (spelling t)"
  note e = at_append [OF d Cons.prems(3)]
  obtain l c v where one: "lex_step (lexer_at i p acc) = Ok (lexer_at i ?q (acc @ [Token_new t l c v]))" "own_value (Token_new t l c v)"
    using spelled_step [OF d Cons.prems(3) sp] by blast
  have "print_tokens ts \<noteq> [] \<longrightarrow> \<not> is_ascii_whitespace (hd (print_tokens ts))"
    using Cons.prems(1) spelled_first by (cases ts) (auto simp: print_tokens_def)
  then have two: "lex_step (lexer_at i ?q (acc @ [Token_new t l c v])) = Ok (lexer_at i (Suc ?q) (acc @ [Token_new t l c v]))"
    using space_step [OF e(2,1)] by blast
  note at = at_Cons [OF e(2)]
  obtain toks where "tokenize_loop (lexer_at i (Suc ?q) (acc @ [Token_new t l c v])) = Ok (lexer_at i (length i) ((acc @ [Token_new t l c v]) @ toks))"
      "map token_type toks = ts" "list_all own_value toks"
    using Cons.IH [of "Suc ?q" "acc @ [Token_new t l c v]"] Cons.prems(1) at by fastforce
  moreover have "p < length i" using at(1) by simp
  then have "tokenize_loop (lexer_at i p acc) = tokenize_loop (lexer_at i (Suc ?q) (acc @ [Token_new t l c v]))"
    using one(1) two at(1) tokenize_loop.simps [of "lexer_at i p acc"] tokenize_loop.simps [of "lexer_at i ?q (acc @ [Token_new t l c v])"]
    by simp
  ultimately show ?case by (intro exI [of _ "Token_new t l c v # toks"]) (use one(2) in \<open>simp add: Token_new_def\<close>)
qed

lemma tokenize_print:
  assumes "list_all spellable ts"
  shows "\<exists>toks. tokenize (Lexer_new (print_tokens ts)) = Ok toks \<and> map token_type toks = ts @ [TkEOF] \<and> list_all own_value toks"
proof -
  obtain toks where "tokenize_loop (lexer_at (print_tokens ts) 0 []) = Ok (lexer_at (print_tokens ts) (length (print_tokens ts)) toks)"
    "map token_type toks = ts" "list_all own_value toks"
    using tokenize_loop_spelled [OF assms, of 0 "print_tokens ts" "[]"] by auto
  then show ?thesis by (auto simp: tokenize_def Lexer_new_at Token_new_def own_value_def)
qed

subsection \<open>Correctness of the lexer\<close>



text \<open>
  C40. Reading back. Tokens written out with a space behind each, names and numbers as they are, keywords
  and symbols in their spelling, strings and quoted names with their quotes doubled, are read as the same tokens.
\<close>

theorem lex_print_tokens:
  assumes "list_all spellable ts"
  shows "\<exists>toks. tokenize (Lexer_new (print_tokens ts)) = Ok toks \<and> map token_type toks = ts @ [TkEOF]"
  using tokenize_print [OF assms] by blast

theorem lex_print_tokens_witness:
  "let ts = [TkIdentifier ''a'', Sym ''LessThanOrEquals'', TkNumber ''1.5'', Kw ''Or'', TkString [CHR ''x'', CHR 0x27]]
   in \<exists>toks. tokenize (Lexer_new (print_tokens ts)) = Ok toks \<and> map token_type toks = ts @ [TkEOF]"
proof -
  have "list_all spellable [TkIdentifier ''a'', Sym ''LessThanOrEquals'', TkNumber ''1.5'', Kw ''Or'', TkString [CHR ''x'', CHR 0x27]]"
    by (simp add: keyword_table_def window_function_table_def symbol_table_def to_uppercase_def to_upper_def is_ascii_lower_def
        is_ascii_alpha_def identifier_char_def is_ascii_digit_def)
  then show ?thesis unfolding Let_def by (rule lex_print_tokens)
qed

text \<open>
  A string literal that ends the text is refused as unterminated, like one without its closing quote.
\<close>

theorem string_at_end_refused:
  assumes "CHR 0x27 \<notin> set s"
  shows "tokenize (Lexer_new (CHR 0x27 # s @ [CHR 0x27])) = Err (ParseError ''Unterminated string'')"
proof -
  let ?i = "CHR 0x27 # s @ [CHR 0x27]"
  have id: "concat (map (\<lambda>c. if c = CHR 0x27 then [CHR 0x27, CHR 0x27] else [c]) s) = s"
    using assms by (induction s) auto
  have "quoted_body CHR 0x27 (lexer_at ?i 1 []) = (s, lexer_at ?i (length ?i) [])"
    using quoted_body_spelled [of 1 ?i "CHR 0x27" s "[]" "[]"] id by simp
  moreover have "\<not> is_ascii_whitespace CHR 0x27" by (simp add: is_ascii_whitespace_def)
  ultimately show ?thesis
    using advance_one_at(1) [of 0 ?i "[]"]
    by (simp add: tokenize_def Lexer_new_at tokenize_loop.simps lex_step_def Let_def consume_string_def)
qed

theorem string_at_end_refused_witness:
  "tokenize (Lexer_new (CHR 0x27 # ''it'' @ [CHR 0x27])) = Err (ParseError ''Unterminated string'')"
  by (rule string_at_end_refused) simp

text \<open>A comment is given the whole line it stands on, code included.\<close>

theorem comment_holds_line:
  "\<exists>toks. tokenize (Lexer_new ''a -- b'') = Ok toks \<and> map tk_value toks = [''a'', ''a -- b'', []]"
proof -
  have "tokenize (Lexer_new ''a -- b'') = Ok [Token_new (TkIdentifier ''a'') 1 1 ''a'', Token_new (TkComment ''a -- b'') 1 1 ''a -- b'',
      Token_new TkEOF 1 7 []]"
    by code_simp
  then show ?thesis by (simp add: Token_new_def)
qed

end
