(* ===== verification/Registry.thy ===== *)
theory Registry
  imports Prelude
begin

section \<open>The contract of the catalog's registries\<close>

text \<open>
  The managers of schemas, indexes, tables and views are four registries of one kind: objects are
  found by name, and a creation takes the next number of a counter; some take it also when they fail. The locale
  \<open>registry\<close> states this contract over a lookup from names to numbers; \<open>strict_registry\<close> adds that a
  name in use is refused. The lemmas show that numbers stay unique, provided they were unique and
  below the counter to begin with.
\<close>

definition ids_ok :: "(string \<Rightarrow> u64 option) \<Rightarrow> u64 \<Rightarrow> bool" where
  "ids_ok l n \<longleftrightarrow> (\<forall>a i. l a = Some i \<longrightarrow> i < n) \<and> (\<forall>a b i. l a = Some i \<longrightarrow> l b = Some i \<longrightarrow> a = b)"

locale registry =
  fixes lookup :: "'s \<Rightarrow> string \<Rightarrow> u64 option" and next_id :: "'s \<Rightarrow> u64"
    and create :: "'a \<Rightarrow> string \<Rightarrow> ('s, u64) op" and drop_obj :: "string \<Rightarrow> ('s, unit) op"
  assumes create_returns: "create a n s = (r, s') \<Longrightarrow> returns r"
    and create_Ok: "create a n s = (Ok i, s') \<Longrightarrow>
      i = next_id s \<and> next_id s' = next_id s + 1 \<and> lookup s' = (lookup s)(n \<mapsto> i)"
    and create_Err: "create a n s = (Err e, s') \<Longrightarrow>
      (next_id s' = next_id s \<or> next_id s' = next_id s + 1) \<and> lookup s' = lookup s"
    and drop_next: "drop_obj n s = (rd, s') \<Longrightarrow> next_id s' = next_id s \<and> returns rd"
    and drop_Ok: "drop_obj n s = (Ok (), s') \<Longrightarrow> lookup s' = (lookup s)(n := None)"
    and drop_Err: "drop_obj n s = (Err e, s') \<Longrightarrow> lookup s' = lookup s"
begin

lemma create_ids_ok:
  assumes "ids_ok (lookup s) (next_id s)" "next_id s \<noteq> -1" "create a n s = (r, s')"
  shows "ids_ok (lookup s') (next_id s')"
proof -
  have less: "i < next_id s \<Longrightarrow> i < next_id s + 1" for i
    using assms(2) by (rule u64_below_succ)
  show ?thesis
  proof (cases r)
    case (Ok i)
    then have "i = next_id s" "next_id s' = next_id s + 1" "lookup s' = (lookup s)(n \<mapsto> i)"
      using create_Ok assms(3) by auto
    then show ?thesis
      using assms(1,2) less u64_less_succ by (fastforce simp: ids_ok_def split: if_splits)
  next
    case (Err e)
    then show ?thesis using create_Err [of a n s e s'] assms(1,3) less by (auto simp: ids_ok_def)
  qed (use create_returns [OF assms(3)] in auto)
qed

lemma drop_ids_ok:
  assumes "ids_ok (lookup s) (next_id s)" "drop_obj n s = (r, s')"
  shows "ids_ok (lookup s') (next_id s')"
proof -
  have "next_id s' = next_id s" "returns r" using drop_next [OF assms(2)] by auto
  then show ?thesis
    using assms drop_Ok [of n s s'] drop_Err [of n s _ s']
    by (cases r) (auto simp: ids_ok_def split: if_splits)
qed

text \<open>Creating and dropping an object leaves every other name as it was.\<close>

lemma create_drop:
  assumes "create a n s = (Ok i, s1)" "drop_obj n s1 = (Ok (), s2)"
  shows "lookup s2 = (lookup s)(n := None)"
  using create_Ok [OF assms(1)] drop_Ok [OF assms(2)] by auto

end

locale strict_registry = registry +
  assumes create_exists: "lookup s n \<noteq> None \<Longrightarrow> \<exists>e s'. create a n s = (Err e, s')"
begin

lemma create_twice:
  assumes "create a n s = (Ok i, s1)"
  shows "\<exists>e s2. create b n s1 = (Err e, s2) \<and> lookup s2 = lookup s1"
proof -
  have "lookup s1 n \<noteq> None" using create_Ok [OF assms] by simp
  from create_exists [OF this, of b] obtain e s2 where "create b n s1 = (Err e, s2)" by blast
  then show ?thesis using create_Err by blast
qed

end

end
