(* ===== verification/Schema_Manager.thy ===== *)
theory Schema_Manager
  imports Registry
begin

section \<open>Schemas (\<^verbatim>\<open>src/src/catalog/schema.rs\<close>)\<close>

text \<open>
  The schema manager: a map from names to definitions and the counter of schema numbers. The two
  clock readings of a definition, which no code decides by, are left out of every catalog record.
\<close>

subsection \<open>Data and operations\<close>

record SchemaDef =
  sd_schema_id :: u64
  sd_name :: string
  sd_owner_id :: u64

record SchemaManager =
  sm_schemas :: "(string, SchemaDef) hmap"
  sm_next_schema_id :: u64

definition initialize_schemas :: "SchemaManager \<Rightarrow> SchemaManager" where
  "initialize_schemas s = s\<lparr>sm_schemas :=
     hm_insert ''public'' \<lparr>sd_schema_id = 1, sd_name = ''public'', sd_owner_id = 1\<rparr>
       (hm_insert ''pg_catalog'' \<lparr>sd_schema_id = 0, sd_name = ''pg_catalog'', sd_owner_id = 0\<rparr>
         (sm_schemas s))\<rparr>"

definition SchemaManager_new :: SchemaManager where
  "SchemaManager_new = initialize_schemas \<lparr>sm_schemas = [], sm_next_schema_id = 1\<rparr>"

definition create_schema :: "u64 \<Rightarrow> string \<Rightarrow> (SchemaManager, u64) op" where
  "create_schema owner_id name s =
     (let schema_id = sm_next_schema_id s;
          s1 = s\<lparr>sm_next_schema_id := sm_next_schema_id s + 1\<rparr>
      in if hm_contains (sm_schemas s1) name
         then (Err (AlreadyExistsError ''Schema already exists''), s1)
         else (Ok schema_id, s1\<lparr>sm_schemas := hm_insert name
                 \<lparr>sd_schema_id = schema_id, sd_name = name, sd_owner_id = owner_id\<rparr> (sm_schemas s1)\<rparr>))"

definition drop_schema :: "bool \<Rightarrow> string \<Rightarrow> (SchemaManager, unit) op" where
  "drop_schema cascade name s =
     (if name = ''pg_catalog'' \<or> name = ''public'' \<and> \<not> cascade
      then (Err (InvalidOperationError ''Cannot drop system schema''), s)
      else (Ok (), s\<lparr>sm_schemas := hm_remove name (sm_schemas s)\<rparr>))"

definition get_schema :: "string \<Rightarrow> SchemaManager \<Rightarrow> SchemaDef option" where
  "get_schema name s = hm_get (sm_schemas s) name"

definition get_schema_by_id :: "u64 \<Rightarrow> SchemaManager \<Rightarrow> SchemaDef option" where
  "get_schema_by_id schema_id s = find (\<lambda>d. sd_schema_id d = schema_id) (hm_values (sm_schemas s))"

definition list_schemas :: "SchemaManager \<Rightarrow> SchemaDef list" where
  "list_schemas s = hm_values (sm_schemas s)"

definition get_public_schema_id :: u64 where
  "get_public_schema_id = 1"

definition get_system_schema_id :: u64 where
  "get_system_schema_id = 0"

definition schema_exists :: "string \<Rightarrow> SchemaManager \<Rightarrow> bool" where
  "schema_exists name s = hm_contains (sm_schemas s) name"

definition schema_id_of :: "SchemaManager \<Rightarrow> string \<Rightarrow> u64 option" where
  "schema_id_of s name = map_option sd_schema_id (get_schema name s)"

subsection \<open>The registry of schemas\<close>

interpretation schemas: strict_registry schema_id_of sm_next_schema_id create_schema "drop_schema cascade"
  by unfold_locales
    (auto simp: create_schema_def drop_schema_def schema_id_of_def get_schema_def Let_def fun_eq_iff
      hm_contains_get simp del: hm_contains_iff split: if_splits)

lemma new_schemas [simp]:
  "get_schema ''public'' SchemaManager_new = Some \<lparr>sd_schema_id = 1, sd_name = ''public'', sd_owner_id = 1\<rparr>"
  "sm_next_schema_id SchemaManager_new = 1"
  by (simp_all add: SchemaManager_new_def initialize_schemas_def get_schema_def)

subsection \<open>Properties\<close>

text \<open>
  Schema numbers collide with the public schema. The counter of a new manager starts at 1, the
  fixed number of the schema \<^verbatim>\<open>public\<close>: the first schema a user creates, whatever its name and owner,
  gets the number of \<^verbatim>\<open>public\<close>. Starting from numbers that are distinct and below the counter, every
  further creation and removal keeps them distinct.
\<close>

theorem schema_ids:
  assumes "name \<notin> {''public'', ''pg_catalog''}"
  shows "(\<exists>s. create_schema owner name SchemaManager_new = (Ok 1, s) \<and>
      schema_id_of s name = Some 1 \<and> schema_id_of s ''public'' = Some 1) \<and>
    (\<forall>s a n r s'. ids_ok (schema_id_of s) (sm_next_schema_id s) \<and> sm_next_schema_id s \<noteq> -1 \<and>
      (create_schema a n s = (r, s') \<or> (\<exists>c rd. drop_schema c n s = (rd, s'))) \<longrightarrow>
      ids_ok (schema_id_of s') (sm_next_schema_id s'))"
proof -
  have "\<exists>s. create_schema owner name SchemaManager_new = (Ok 1, s) \<and>
      schema_id_of s name = Some 1 \<and> schema_id_of s ''public'' = Some 1"
    using assms by (auto simp: create_schema_def SchemaManager_new_def initialize_schemas_def Let_def
        schema_id_of_def get_schema_def)
  then show ?thesis using schemas.create_ids_ok schemas.drop_ids_ok by blast
qed

theorem schema_ids_witness:
  "\<exists>s. create_schema 7 ''sales'' SchemaManager_new = (Ok 1, s) \<and>
     schema_id_of s ''sales'' = Some 1 \<and> schema_id_of s ''public'' = Some 1"
  using schema_ids [of "''sales''" 7] by simp

end
