(* ===== verification/Index_Manager.thy ===== *)
theory Index_Manager
  imports Registry
begin

section \<open>Indexes (\<^verbatim>\<open>src/src/catalog/index.rs\<close>)\<close>

text \<open>
  The index manager keeps two maps that must agree: the indexes by name, and for every table the
  names of its indexes in order of creation. \<open>im_inv\<close> is that agreement. It is kept by every sequence of
  operations in which primary-key indexes get unused names, and under it the list of a
  table's indexes is exact. A primary-key index whose name is in use breaks it.
\<close>

subsection \<open>Data\<close>

datatype IndexType = BTreeIndex | HashIndex | GinIndex | GistIndex

record IndexDef =
  id_index_id :: u64
  id_name :: string
  id_table_id :: u64
  id_columns :: "string list"
  id_index_type :: IndexType
  id_unique :: bool
  id_primary_key :: bool
  id_is_system_generated :: bool
  id_root_page_id :: "PageId option"

record IndexStats =
  is_pages_used :: u64
  is_entries :: u64
  is_height :: u32
  is_last_analyzed :: "nat option"

record IndexInfo =
  ii_def :: IndexDef
  ii_stats :: IndexStats

record IndexManager =
  im_indexes :: "(string, IndexInfo) hmap"
  im_next_index_id :: u64
  im_table_indexes :: "(u64, string list) hmap"

subsection \<open>Operations\<close>

definition IndexManager_new :: IndexManager where
  "IndexManager_new = \<lparr>im_indexes = [], im_next_index_id = 1, im_table_indexes = []\<rparr>"

definition new_stats :: IndexStats where
  "new_stats = \<lparr>is_pages_used = 0, is_entries = 0, is_height = 0, is_last_analyzed = None\<rparr>"

text \<open>\<^verbatim>\<open>entry(table_id).or_insert_with(Vec::new).push(name)\<close>\<close>

definition push_index_name :: "u64 \<Rightarrow> string \<Rightarrow> (u64, string list) hmap \<Rightarrow> (u64, string list) hmap" where
  "push_index_name table_id name m =
     hm_insert table_id ((case hm_get m table_id of None \<Rightarrow> [] | Some l \<Rightarrow> l) @ [name]) m"

definition create_index ::
    "u64 \<times> string list \<times> IndexType \<times> bool \<Rightarrow> string \<Rightarrow> (IndexManager, u64) op" where
  "create_index = (\<lambda>(table_id, columns, index_type, uniq) name s.
     (let index_id = im_next_index_id s;
          s1 = s\<lparr>im_next_index_id := im_next_index_id s + 1\<rparr>;
          info = \<lparr>ii_def = \<lparr>id_index_id = index_id, id_name = name, id_table_id = table_id,
                    id_columns = columns, id_index_type = index_type, id_unique = uniq,
                    id_primary_key = False, id_is_system_generated = False, id_root_page_id = None\<rparr>,
                  ii_stats = new_stats\<rparr>
      in if hm_contains (im_indexes s1) name
         then (Err (AlreadyExistsError ''Index already exists''), s1)
         else (Ok index_id, s1\<lparr>im_indexes := hm_insert name info (im_indexes s1),
                 im_table_indexes := push_index_name table_id name (im_table_indexes s1)\<rparr>)))"

definition create_primary_key_index :: "u64 \<Rightarrow> string \<Rightarrow> string list \<Rightarrow> (IndexManager, u64) op" where
  "create_primary_key_index table_id table_name columns s =
     (let index_name = ''pk_'' @ table_name;
          index_id = im_next_index_id s;
          info = \<lparr>ii_def = \<lparr>id_index_id = index_id, id_name = index_name, id_table_id = table_id,
                    id_columns = columns, id_index_type = BTreeIndex, id_unique = True,
                    id_primary_key = True, id_is_system_generated = True, id_root_page_id = None\<rparr>,
                  ii_stats = new_stats\<rparr>
      in (Ok index_id, s\<lparr>im_next_index_id := im_next_index_id s + 1,
            im_indexes := hm_insert index_name info (im_indexes s),
            im_table_indexes := push_index_name table_id (''pk_'' @ table_name) (im_table_indexes s)\<rparr>))"

definition drop_index :: "string \<Rightarrow> (IndexManager, unit) op" where
  "drop_index name s =
     (case hm_get (im_indexes s) name of
        None \<Rightarrow> (Ok (), s)
      | Some info \<Rightarrow>
          (let table_id = id_table_id (ii_def info);
               table_indexes =
                 (case hm_get (im_table_indexes s) table_id of
                    None \<Rightarrow> im_table_indexes s
                  | Some index_list \<Rightarrow>
                      (let l = filter (\<lambda>n. n \<noteq> name) index_list
                       in if l = [] then hm_remove table_id (im_table_indexes s)
                          else hm_insert table_id l (im_table_indexes s)))
           in (Ok (), s\<lparr>im_indexes := hm_remove name (im_indexes s), im_table_indexes := table_indexes\<rparr>)))"

definition get_index :: "string \<Rightarrow> IndexManager \<Rightarrow> IndexInfo option" where
  "get_index name s = hm_get (im_indexes s) name"

definition get_index_by_id :: "u64 \<Rightarrow> IndexManager \<Rightarrow> IndexInfo option" where
  "get_index_by_id index_id s =
     find (\<lambda>info. id_index_id (ii_def info) = index_id) (hm_values (im_indexes s))"

definition list_indexes :: "IndexManager \<Rightarrow> IndexInfo list" where
  "list_indexes s = hm_values (im_indexes s)"

definition list_table_indexes :: "u64 \<Rightarrow> IndexManager \<Rightarrow> IndexInfo list" where
  "list_table_indexes table_id s =
     (case hm_get (im_table_indexes s) table_id of
        None \<Rightarrow> []
      | Some names \<Rightarrow> List.map_filter (\<lambda>n. hm_get (im_indexes s) n) names)"

definition get_primary_key_index :: "u64 \<Rightarrow> IndexManager \<Rightarrow> IndexInfo option" where
  "get_primary_key_index table_id s =
     find (\<lambda>info. id_primary_key (ii_def info)) (list_table_indexes table_id s)"

definition get_table_unique_indexes :: "u64 \<Rightarrow> IndexManager \<Rightarrow> IndexInfo list" where
  "get_table_unique_indexes table_id s =
     filter (\<lambda>info. id_unique (ii_def info) \<and> \<not> id_primary_key (ii_def info))
       (list_table_indexes table_id s)"

definition index_exists :: "string \<Rightarrow> IndexManager \<Rightarrow> bool" where
  "index_exists name s = hm_contains (im_indexes s) name"

definition index_update_stats :: "string \<Rightarrow> IndexStats \<Rightarrow> (IndexManager, unit) op" where
  "index_update_stats index_name stats s =
     (Ok (), s\<lparr>im_indexes := hm_modify index_name (\<lambda>info. info\<lparr>ii_stats := stats\<rparr>) (im_indexes s)\<rparr>)"

definition index_get_stats :: "string \<Rightarrow> IndexManager \<Rightarrow> IndexStats option" where
  "index_get_stats index_name s = map_option ii_stats (hm_get (im_indexes s) index_name)"

subsection \<open>The invariant and runs of the manager\<close>

text \<open>The names the second map has for a table, without duplicates, are those of the table's
  indexes, and no list in it is empty.\<close>

definition names_of :: "IndexManager \<Rightarrow> u64 \<Rightarrow> string list" where
  "names_of s t = (case hm_get (im_table_indexes s) t of None \<Rightarrow> [] | Some l \<Rightarrow> l)"

definition im_inv :: "IndexManager \<Rightarrow> bool" where
  "im_inv s \<longleftrightarrow>
     (\<forall>t. distinct (names_of s t)) \<and>
     (\<forall>t. hm_get (im_table_indexes s) t \<noteq> Some []) \<and>
     (\<forall>t n. n \<in> set (names_of s t) \<longleftrightarrow>
        (\<exists>info. hm_get (im_indexes s) n = Some info \<and> id_table_id (ii_def info) = t)) \<and>
     (\<forall>n info. hm_get (im_indexes s) n = Some info \<longrightarrow> id_name (ii_def info) = n)"

definition index_id_of :: "IndexManager \<Rightarrow> string \<Rightarrow> u64 option" where
  "index_id_of s name = map_option (\<lambda>info. id_index_id (ii_def info)) (hm_get (im_indexes s) name)"

text \<open>The steps a manager can take; a primary-key index is created under an unused name.\<close>

inductive im_step :: "IndexManager \<Rightarrow> IndexManager \<Rightarrow> bool" where
  step_create: "create_index a n s = (r, s') \<Longrightarrow> im_step s s'"
| step_pk: "\<not> index_exists (''pk_'' @ t) s \<Longrightarrow> create_primary_key_index i t cs s = (r, s') \<Longrightarrow> im_step s s'"
| step_drop: "drop_index n s = (rd, s') \<Longrightarrow> im_step s s'"
| step_stats: "index_update_stats n st s = (rd, s') \<Longrightarrow> im_step s s'"

inductive im_reachable :: "IndexManager \<Rightarrow> bool" where
  reach_new: "im_reachable IndexManager_new"
| reach_step: "im_reachable s \<Longrightarrow> im_step s s' \<Longrightarrow> im_reachable s'"

subsection \<open>Lemmas\<close>

interpretation indexes: strict_registry index_id_of im_next_index_id create_index drop_index
  by unfold_locales
    (auto simp: create_index_def drop_index_def index_id_of_def Let_def fun_eq_iff hm_contains_get
      simp del: hm_contains_iff split: if_splits option.splits prod.splits)

lemma names_of_push:
  "names_of (s\<lparr>im_table_indexes := push_index_name t n (im_table_indexes s)\<rparr>) t' =
     (if t' = t then names_of s t @ [n] else names_of s t')"
  by (auto simp: names_of_def push_index_name_def split: option.splits)

lemma im_inv_add:
  assumes "im_inv s" "hm_get (im_indexes s) n = None" "id_table_id (ii_def info) = t" "id_name (ii_def info) = n"
  shows "im_inv (s\<lparr>im_next_index_id := k, im_indexes := hm_insert n info (im_indexes s),
    im_table_indexes := push_index_name t n (im_table_indexes s)\<rparr>)" (is "im_inv ?s")
proof -
  have names: "names_of ?s t' = (if t' = t then names_of s t @ [n] else names_of s t')" for t'
    using names_of_push [of t n s t'] by (simp add: names_of_def)
  have fresh: "n \<notin> set (names_of s t')" for t' using assms(1,2) by (auto simp: im_inv_def)
  show ?thesis
    unfolding im_inv_def
  proof (intro conjI allI)
    fix t'
    show "distinct (names_of ?s t')" using assms(1) fresh by (auto simp: names im_inv_def)
    show "hm_get (im_table_indexes ?s) t' \<noteq> Some []"
      using assms(1) by (auto simp: push_index_name_def im_inv_def)
    fix m
    show "m \<in> set (names_of ?s t') \<longleftrightarrow>
        (\<exists>info. hm_get (im_indexes ?s) m = Some info \<and> id_table_id (ii_def info) = t')"
      using assms fresh by (auto simp: names im_inv_def)
  next
    fix m i
    show "hm_get (im_indexes ?s) m = Some i \<longrightarrow> id_name (ii_def i) = m"
      using assms by (auto simp: im_inv_def)
  qed
qed

lemma im_inv_drop:
  assumes "im_inv s" "drop_index n s = (r, s')"
  shows "im_inv s'" "im_indexes s' = hm_remove n (im_indexes s)"
proof -
  have "im_inv s' \<and> im_indexes s' = hm_remove n (im_indexes s)"
  proof (cases "hm_get (im_indexes s) n")
    case None
    then have "s' = s" "hm_remove n (im_indexes s) = im_indexes s"
      using assms(2) by (simp_all add: drop_index_def) (simp add: map_of_eq_None_iff)
    then show ?thesis using assms(1) by simp
  next
    case (Some info)
    let ?t = "id_table_id (ii_def info)"
    have "n \<in> set (names_of s ?t)" using assms(1) Some by (auto simp: im_inv_def)
    then obtain l where l: "hm_get (im_table_indexes s) ?t = Some l" "names_of s ?t = l"
      by (cases "hm_get (im_table_indexes s) ?t") (auto simp: names_of_def)
    define m where "m = (if filter (\<lambda>x. x \<noteq> n) l = [] then hm_remove ?t (im_table_indexes s)
      else hm_insert ?t (filter (\<lambda>x. x \<noteq> n) l) (im_table_indexes s))"
    have s': "s' = s\<lparr>im_indexes := hm_remove n (im_indexes s), im_table_indexes := m\<rparr>"
      using assms(2) Some l(1) by (simp add: drop_index_def Let_def m_def)
    have names: "names_of s' t = filter (\<lambda>x. x \<noteq> n) (names_of s t)" for t
    proof (cases "t = ?t")
      case True
      then show ?thesis using l by (auto simp: names_of_def s' m_def)
    next
      case False
      then have "n \<notin> set (names_of s t)" using assms(1) Some by (auto simp: im_inv_def)
      moreover have "names_of s' t = names_of s t" using False by (auto simp: names_of_def s' m_def)
      ultimately show ?thesis by (metis (mono_tags, lifting) filter_id_conv)
    qed
    have "hm_get m t \<noteq> Some []" for t using assms(1) by (auto simp: m_def im_inv_def)
    then have "im_inv s'"
      using assms(1) unfolding im_inv_def names by (auto simp: s')
    then show ?thesis using s' by simp
  qed
  then show "im_inv s'" "im_indexes s' = hm_remove n (im_indexes s)" by auto
qed

lemma im_step_inv:
  assumes "im_step s s'" "im_inv s"
  shows "im_inv s'"
  using assms(1)
proof (cases rule: im_step.cases)
  case 1: (step_create a n r)
  obtain t cs ty u where a: "a = (t, cs, ty, u)" by (metis prod.exhaust)
  show ?thesis
  proof (cases "hm_contains (im_indexes s) n")
    case True
    then have "s' = s\<lparr>im_next_index_id := im_next_index_id s + 1\<rparr>"
      using 1 by (simp add: create_index_def Let_def a)
    then show ?thesis using assms(2) by (simp add: im_inv_def names_of_def)
  next
    case False
    then have none: "hm_get (im_indexes s) n = None" by (simp add: hm_contains_get del: hm_contains_iff)
    show ?thesis
      using 1 False by (auto simp: create_index_def Let_def a intro!: im_inv_add [OF assms(2) none])
  qed
next
  case 2: (step_pk t i cs r)
  then have none: "hm_get (im_indexes s) (''pk_'' @ t) = None"
    by (simp add: index_exists_def hm_contains_get del: hm_contains_iff)
  show ?thesis
    using 2 by (auto simp: create_primary_key_index_def Let_def intro!: im_inv_add [OF assms(2) none, simplified])
next
  case 3: (step_drop n rd)
  then show ?thesis using im_inv_drop assms(2) by blast
next
  case 4: (step_stats n st rd)
  then have s': "s' = s\<lparr>im_indexes := hm_modify n (\<lambda>info. info\<lparr>ii_stats := st\<rparr>) (im_indexes s)\<rparr>"
    by (simp add: index_update_stats_def)
  have "names_of s' = names_of s" by (simp add: s' names_of_def fun_eq_iff)
  moreover have "(\<exists>info. hm_get (im_indexes s') m = Some info \<and> P (ii_def info)) \<longleftrightarrow>
      (\<exists>info. hm_get (im_indexes s) m = Some info \<and> P (ii_def info))" for m P
    by (auto simp: s')
  ultimately show ?thesis
    using assms(2) unfolding im_inv_def by (auto simp: s' split: if_splits)
qed

lemma im_reachable_inv: "im_reachable s \<Longrightarrow> im_inv s"
proof (induction rule: im_reachable.induct)
  case reach_new
  then show ?case by (simp add: im_inv_def IndexManager_new_def names_of_def)
qed (rule im_step_inv)

lemma list_table_indexes_names: "list_table_indexes t s = List.map_filter (\<lambda>n. hm_get (im_indexes s) n) (names_of s t)"
  by (simp add: list_table_indexes_def names_of_def List.map_filter_def split: option.splits)

lemma list_table_indexes_exact:
  assumes "im_inv s"
  shows "set (list_table_indexes t s) = {info. \<exists>n. hm_get (im_indexes s) n = Some info \<and> id_table_id (ii_def info) = t}"
    "distinct (map (\<lambda>info. id_name (ii_def info)) (list_table_indexes t s))"
    "map (\<lambda>info. id_name (ii_def info)) (list_table_indexes t s) = names_of s t"
proof -
  have get: "\<exists>info. hm_get (im_indexes s) n = Some info \<and> id_table_id (ii_def info) = t \<and> id_name (ii_def info) = n"
    if "n \<in> set (names_of s t)" for n
    using assms that by (auto simp: im_inv_def)
  show "set (list_table_indexes t s) = {info. \<exists>n. hm_get (im_indexes s) n = Some info \<and> id_table_id (ii_def info) = t}"
  proof (rule set_eqI)
    fix info
    have "info \<in> set (list_table_indexes t s) \<longleftrightarrow> (\<exists>n \<in> set (names_of s t). hm_get (im_indexes s) n = Some info)"
      by (force simp: list_table_indexes_names map_filter_def)
    then show "info \<in> set (list_table_indexes t s) \<longleftrightarrow>
        info \<in> {info. \<exists>n. hm_get (im_indexes s) n = Some info \<and> id_table_id (ii_def info) = t}"
      using assms by (auto simp: im_inv_def)
  qed
  show eq: "map (\<lambda>info. id_name (ii_def info)) (list_table_indexes t s) = names_of s t"
  proof -
    have "map (\<lambda>info. id_name (ii_def info)) (List.map_filter (\<lambda>n. hm_get (im_indexes s) n) ns) = ns"
      if "set ns \<subseteq> set (names_of s t)" for ns
      using that
    proof (induction ns)
      case (Cons n ns)
      then obtain info where "hm_get (im_indexes s) n = Some info" "id_name (ii_def info) = n"
        using get [of n] by auto
      then show ?case using Cons by (simp add: List.map_filter_simps)
    qed (simp add: List.map_filter_simps)
    then show ?thesis by (simp add: list_table_indexes_names)
  qed
  show "distinct (map (\<lambda>info. id_name (ii_def info)) (list_table_indexes t s))"
    using assms by (simp add: eq im_inv_def)
qed

subsection \<open>Properties\<close>

text \<open>
  The index lists of the tables are exact. In every state that a new manager reaches by creating,
  dropping and updating indexes, with primary-key indexes under unused names, the indexes listed for
  a table are exactly the indexes on that table, each once.
\<close>

theorem list_table_indexes_correct:
  assumes "im_reachable s"
  shows "set (list_table_indexes t s) = {info. \<exists>n. get_index n s = Some info \<and> id_table_id (ii_def info) = t} \<and>
    distinct (map (\<lambda>info. id_name (ii_def info)) (list_table_indexes t s))"
  using list_table_indexes_exact [OF im_reachable_inv [OF assms]] by (simp add: get_index_def)

theorem list_table_indexes_correct_witness:
  "let s = snd (create_index (4, [''b''], HashIndex, False) ''i1'' (snd (create_primary_key_index 4 ''t'' [''a''] IndexManager_new)))
   in set (list_table_indexes 4 s) = {info. \<exists>n. get_index n s = Some info \<and> id_table_id (ii_def info) = 4} \<and>
      length (list_table_indexes 4 s) = 2"
proof -
  let ?s1 = "snd (create_primary_key_index 4 ''t'' [''a''] IndexManager_new)"
  let ?s = "snd (create_index (4, [''b''], HashIndex, False) ''i1'' ?s1)"
  have "im_reachable ?s1"
    by (rule reach_step [OF reach_new step_pk [OF _ prod.collapse [symmetric]]])
      (simp add: index_exists_def IndexManager_new_def)
  then have "im_reachable ?s"
    by (rule reach_step [OF _ step_create [OF prod.collapse [symmetric]]])
  from list_table_indexes_correct [OF this, of 4] show ?thesis
    by (simp add: Let_def) (simp add: create_index_def create_primary_key_index_def IndexManager_new_def
        push_index_name_def list_table_indexes_def List.map_filter_simps Let_def)
qed

end
