(* ===== verification/Bincode.thy ===== *)
theory Bincode
  imports Prelude
begin

section \<open>The binary encoding the storage layer relies on\<close>

text \<open>
  The sources encode their headers and records with the crate \<^verbatim>\<open>bincode\<close> 1.3, which is not part of
  the repository. Every definition that encodes or decodes takes the two functions as a parameter,
  and the locale \<open>bincode\<close> is the contract its callers rely on: decoding reads a value from a prefix
  of the bytes and ignores what follows, an encoding has the documented fixed width (an \<^verbatim>\<open>Option\<close> is
  one tag byte and its content, an enum tag four bytes), and decoding fails when the bytes end before
  the value does.

  The rest of the theory shows that the contract can be met. The locale \<open>codec\<close> is the stronger one of
  a decoder that also returns the bytes it leaves; it is closed under pairs, options and renaming, so
  that the headers of the storage layer get an instance each from the fixed-width little-endian
  integers, and every \<open>codec\<close> is a \<open>bincode\<close>.
\<close>

subsection \<open>Definitions\<close>

type_synonym 'a encoder = "'a \<Rightarrow> bytes"
type_synonym 'a decoder = "bytes \<Rightarrow> ('a \<times> bytes) option"

definition le_encode :: "'w::len word \<Rightarrow> bytes" where
  "le_encode w = map (\<lambda>i. ucast (drop_bit (8 * i) w)) [0..<LENGTH('w) div 8]"

fun le_value :: "bytes \<Rightarrow> nat" where
  "le_value [] = 0"
| "le_value (b # bs) = unat b + 256 * le_value bs"

definition le_decode :: "'w::len word decoder" where
  "le_decode bs =
     (let n = LENGTH('w) div 8
      in if length bs < n then None else Some (of_nat (le_value (take n bs)), drop n bs))"

definition pair_encode :: "'a encoder \<Rightarrow> 'b encoder \<Rightarrow> ('a \<times> 'b) encoder" where
  "pair_encode ea eb = (\<lambda>(a, b). ea a @ eb b)"

definition pair_decode :: "'a decoder \<Rightarrow> 'b decoder \<Rightarrow> ('a \<times> 'b) decoder" where
  "pair_decode da db bs =
     (case da bs of None \<Rightarrow> None
      | Some (a, r) \<Rightarrow> (case db r of None \<Rightarrow> None | Some (b, r') \<Rightarrow> Some ((a, b), r')))"

definition option_encode :: "'a encoder \<Rightarrow> 'a option encoder" where
  "option_encode e = (\<lambda>v. case v of None \<Rightarrow> [0] | Some x \<Rightarrow> 1 # e x)"

definition option_decode :: "'a decoder \<Rightarrow> 'a option decoder" where
  "option_decode d bs =
     (case bs of [] \<Rightarrow> None
      | t # r \<Rightarrow> if t = 0 then Some (None, r)
                else if t = 1 then map_option (\<lambda>(x, r'). (Some x, r')) (d r) else None)"

definition iso_encode :: "('b \<Rightarrow> 'a) \<Rightarrow> 'a encoder \<Rightarrow> 'b encoder" where
  "iso_encode f e = (\<lambda>x. e (f x))"

definition iso_decode :: "('a \<Rightarrow> 'b option) \<Rightarrow> 'a decoder \<Rightarrow> 'b decoder" where
  "iso_decode g d bs =
     (case d bs of None \<Rightarrow> None | Some (a, r) \<Rightarrow> map_option (\<lambda>b. (b, r)) (g a))"

definition opt_size :: "nat \<Rightarrow> 'a option \<Rightarrow> nat" where
  "opt_size n v = (case v of None \<Rightarrow> 1 | Some _ \<Rightarrow> Suc n)"

definition prefix_value :: "'a decoder \<Rightarrow> bytes \<Rightarrow> 'a option" where
  "prefix_value d bs = map_option fst (d bs)"

subsection \<open>The contracts\<close>

locale bincode =
  fixes ser :: "'a \<Rightarrow> bytes" and de :: "bytes \<Rightarrow> 'a option" and width :: "'a \<Rightarrow> nat"
  assumes de_ser_append: "de (ser x @ rest) = Some x"
    and length_ser: "length (ser x) = width x"
    and de_short: "n < width x \<Longrightarrow> de (take n (ser x)) = None"
begin

lemma de_ser [simp]: "de (ser x) = Some x"
  using de_ser_append [of x "[]"] by simp

lemma ser_inj: "ser x @ r = ser y @ s \<Longrightarrow> x = y"
  by (metis de_ser_append option.inject)

lemma de_take: "width x \<le> n \<Longrightarrow> de (take n (ser x @ rest)) = Some x"
  by (simp add: length_ser de_ser_append)

lemma de_cut: "n < width x \<Longrightarrow> de (take n (ser x @ rest)) = None"
  by (simp add: length_ser de_short)

end

locale codec =
  fixes enc :: "'a encoder" and dec :: "'a decoder" and width :: "'a \<Rightarrow> nat"
  assumes dec_enc: "dec (enc x @ rest) = Some (x, rest)"
    and length_enc: "length (enc x) = width x"
    and dec_short: "n < width x \<Longrightarrow> dec (take n (enc x)) = None"

sublocale codec \<subseteq> bc: bincode enc "prefix_value dec" width
  by unfold_locales (simp_all add: prefix_value_def dec_enc length_enc dec_short)

context codec
begin

lemma is_bincode: "bincode enc (prefix_value dec) width"
  by (rule bc.bincode_axioms)

end

subsection \<open>Instances\<close>

lemma le_value_take_word:
  "le_value (map (\<lambda>i. ucast (drop_bit (8 * i) (w::'w::len word)) :: u8) [k..<k + n])
     = unat (take_bit (8 * n) (drop_bit (8 * k) w))"
proof (induction n arbitrary: k)
  case 0
  then show ?case by simp
next
  case (Suc n)
  let ?d = "\<lambda>k. unat (drop_bit (8 * k) w)"
  have "[k..<k + Suc n] = k # [Suc k..<Suc k + n]"
    by (simp add: upt_conv_Cons del: upt_Suc)
  then have "le_value (map (\<lambda>i. ucast (drop_bit (8 * i) w) :: u8) [k..<k + Suc n])
      = unat (ucast (drop_bit (8 * k) w) :: u8)
        + 256 * unat (take_bit (8 * n) (drop_bit (8 * Suc k) w))"
    by (simp only: list.map le_value.simps Suc)
  also have "\<dots> = ?d k mod 256 + 256 * (?d (Suc k) mod 2 ^ (8 * n))"
    unfolding unsigned_take_bit_eq by (simp add: take_bit_eq_mod unsigned_ucast_eq)
  also have "?d (Suc k) = ?d k div 256"
    unfolding unsigned_drop_bit_eq by (simp add: drop_bit_eq_div power_add mult.commute flip: div_mult2_eq)
  also have "?d k mod 256 + 256 * (?d k div 256 mod 2 ^ (8 * n)) = ?d k mod (256 * 2 ^ (8 * n))"
    by (simp add: mod_mult2_eq)
  also have "256 * 2 ^ (8 * n) = (2::nat) ^ (8 * Suc n)"
    by (simp add: power_add)
  finally show ?case
    unfolding unsigned_take_bit_eq by (simp add: take_bit_eq_mod)
qed

lemma length_le_encode [simp]: "length (le_encode (w::'w::len word)) = LENGTH('w) div 8"
  by (simp add: le_encode_def)

lemma le_codec:
  assumes "8 * (LENGTH('w) div 8) = LENGTH('w)"
  shows "codec le_encode (le_decode :: 'w::len word decoder) (\<lambda>_. LENGTH('w) div 8)"
proof
  fix x :: "'w word" and rest :: bytes and n
  have "le_value (le_encode x) = unat x"
    using le_value_take_word [of x 0 "LENGTH('w) div 8"] assms
    by (simp add: le_encode_def)
  then show "le_decode (le_encode x @ rest) = Some (x, rest)"
    by (simp add: le_decode_def)
  show "length (le_encode x) = LENGTH('w) div 8" by simp
  show "n < LENGTH('w) div 8 \<Longrightarrow> le_decode (take n (le_encode x)) = (None :: ('w word \<times> bytes) option)"
    by (simp add: le_decode_def)
qed

interpretation u64: codec le_encode "le_decode :: u64 decoder" "\<lambda>_. 8"
  using le_codec [where 'w = 64] by simp

interpretation u32: codec le_encode "le_decode :: u32 decoder" "\<lambda>_. 4"
  using le_codec [where 'w = 32] by simp

lemma codec_pair:
  assumes "codec ea da wa" and "codec eb db wb"
  shows "codec (pair_encode ea eb) (pair_decode da db) (\<lambda>(a, b). wa a + wb b)"
proof -
  note A = codec.dec_enc [OF assms(1)] codec.length_enc [OF assms(1)] codec.dec_short [OF assms(1)]
  note B = codec.dec_enc [OF assms(2)] codec.length_enc [OF assms(2)] codec.dec_short [OF assms(2)]
  have "pair_decode da db (take n (ea a @ eb b)) = None" if "n < wa a + wb b" for a b n
    using that A B by (cases "n < wa a") (auto simp: pair_decode_def)
  then show ?thesis
    by unfold_locales (auto simp: pair_encode_def pair_decode_def A B)
qed

lemma codec_option:
  assumes "codec e d (\<lambda>_. w)"
  shows "codec (option_encode e) (option_decode d) (opt_size w)"
proof -
  note A = codec.dec_enc [OF assms] codec.length_enc [OF assms] codec.dec_short [OF assms]
  have "option_decode d (take n (option_encode e v)) = None" if "n < opt_size w v" for n v
    using that A by (cases n; cases v) (auto simp: option_decode_def option_encode_def opt_size_def)
  then show ?thesis
    by unfold_locales
      (auto simp: option_encode_def option_decode_def opt_size_def A split: option.splits)
qed

lemma codec_iso:
  assumes "codec e d w" and "\<And>x. g (f x) = Some x"
  shows "codec (iso_encode f e) (iso_decode g d) (\<lambda>x. w (f x))"
proof -
  note A = codec.dec_enc [OF assms(1)] codec.length_enc [OF assms(1)] codec.dec_short [OF assms(1)]
  show ?thesis
    by unfold_locales (simp_all add: iso_encode_def iso_decode_def A assms(2))
qed

lemma codec_bincode: "codec e d w \<Longrightarrow> bincode e (prefix_value d) w"
  by (rule codec.is_bincode)

end
