(* ===== verification/Page.thy ===== *)
theory Page
  imports Bincode
begin

section \<open>Pages (\<^verbatim>\<open>src/src/storage/page.rs\<close>)\<close>

text \<open>
  A page is a header and its data bytes. The crate stores it as the \<^verbatim>\<open>bincode\<close> encoding of the
  header followed by the data, cut or padded to the page size, under a CRC-32 checksum. The two
  libraries are a parameter of the model, the record \<open>page_lib\<close>; what the code relies on is the
  predicate \<open>page_lib_ok\<close>, the contract \<open>bincode\<close> at the width of a header. Nothing is assumed of the
  checksum function. \<open>le_page_lib\<close> is a library that meets the contract.

  The lemmas show that a page is always stored in exactly one page size, that it verifies after
  its checksum is updated, what comes back when it is read again, and that the space reserved in
  a page never overlaps.
\<close>

subsection \<open>Data\<close>

datatype PageType = HeaderPage | BTreeInternalPage | BTreeLeafPage | DataPage | WALPage | FreePage

record PageHeader =
  ph_page_id :: PageId
  ph_page_type :: PageType
  ph_prev :: "PageId option"
  ph_next :: "PageId option"
  ph_free_bytes :: usize
  ph_checksum :: u32

record Page =
  pg_header :: PageHeader
  pg_data :: bytes

record page_lib =
  lib_serialize :: "PageHeader \<Rightarrow> bytes"
  lib_deserialize :: "bytes \<Rightarrow> PageHeader option"
  lib_crc :: "bytes \<Rightarrow> u32"

text \<open>The width of an encoded header: eight bytes of page number, four of page type, the two links,
  eight of free bytes, four of checksum.\<close>

definition header_width :: "PageHeader \<Rightarrow> nat" where
  "header_width h = 24 + opt_size 8 (ph_prev h) + opt_size 8 (ph_next h)"

definition page_lib_ok :: "page_lib \<Rightarrow> bool" where
  "page_lib_ok L = bincode (lib_serialize L) (lib_deserialize L) header_width"

text \<open>A layout of that width, and a library that meets the contract.\<close>

fun page_type_tag :: "PageType \<Rightarrow> u32" where
  "page_type_tag HeaderPage = 0"
| "page_type_tag BTreeInternalPage = 1"
| "page_type_tag BTreeLeafPage = 2"
| "page_type_tag DataPage = 3"
| "page_type_tag WALPage = 4"
| "page_type_tag FreePage = 5"

definition page_type_of_tag :: "u32 \<Rightarrow> PageType option" where
  "page_type_of_tag t =
     map_of (map (\<lambda>p. (page_type_tag p, p))
       [HeaderPage, BTreeInternalPage, BTreeLeafPage, DataPage, WALPage, FreePage]) t"

definition header_tuple ::
    "PageHeader \<Rightarrow> u64 \<times> u32 \<times> u64 option \<times> u64 option \<times> u64 \<times> u32" where
  "header_tuple h = (ph_page_id h, page_type_tag (ph_page_type h), ph_prev h, ph_next h,
     ph_free_bytes h, ph_checksum h)"

definition tuple_header ::
    "u64 \<times> u32 \<times> u64 option \<times> u64 option \<times> u64 \<times> u32 \<Rightarrow> PageHeader option" where
  "tuple_header = (\<lambda>(i, t, p, n, f, c). map_option (\<lambda>ty. \<lparr>ph_page_id = i, ph_page_type = ty,
     ph_prev = p, ph_next = n, ph_free_bytes = f, ph_checksum = c\<rparr>) (page_type_of_tag t))"

definition header_encode :: "PageHeader encoder" where
  "header_encode = iso_encode header_tuple
     (pair_encode le_encode (pair_encode le_encode (pair_encode (option_encode le_encode)
       (pair_encode (option_encode le_encode) (pair_encode le_encode le_encode)))))"

definition header_decode :: "PageHeader decoder" where
  "header_decode = iso_decode tuple_header
     (pair_decode le_decode (pair_decode le_decode (pair_decode (option_decode le_decode)
       (pair_decode (option_decode le_decode) (pair_decode le_decode le_decode)))))"

definition byte_sum :: "bytes \<Rightarrow> u32" where
  "byte_sum bs = foldl (\<lambda>a b. 31 * a + ucast b) 7 bs"

definition le_page_lib :: page_lib where
  "le_page_lib = \<lparr>lib_serialize = header_encode, lib_deserialize = prefix_value header_decode,
     lib_crc = byte_sum\<rparr>"

subsection \<open>Operations\<close>

definition Page_new :: "PageId \<Rightarrow> PageType \<Rightarrow> nat \<Rightarrow> Page" where
  "Page_new pid ty page_size =
     \<lparr>pg_header = \<lparr>ph_page_id = pid, ph_page_type = ty, ph_prev = None, ph_next = None,
                    ph_free_bytes = of_nat page_size, ph_checksum = 0\<rparr>,
      pg_data = replicate page_size 0\<rparr>"

text \<open>The page's bytes: the header, the data, cut or padded with zeros to the page size.\<close>

definition page_bytes :: "page_lib \<Rightarrow> PageHeader \<Rightarrow> bytes \<Rightarrow> nat \<Rightarrow> bytes" where
  "page_bytes L h d page_size = vec_resize page_size 0 (lib_serialize L h @ d)"

definition calculate_checksum :: "page_lib \<Rightarrow> Page \<Rightarrow> nat \<Rightarrow> u32" where
  "calculate_checksum L p page_size =
     lib_crc L (page_bytes L ((pg_header p)\<lparr>ph_checksum := 0\<rparr>) (pg_data p) page_size)"

definition verify :: "page_lib \<Rightarrow> Page \<Rightarrow> nat \<Rightarrow> bool" where
  "verify L p page_size = (calculate_checksum L p page_size = ph_checksum (pg_header p))"

definition update_checksum :: "page_lib \<Rightarrow> Page \<Rightarrow> nat \<Rightarrow> Page" where
  "update_checksum L p page_size =
     p\<lparr>pg_header := (pg_header p)\<lparr>ph_checksum := calculate_checksum L p page_size\<rparr>\<rparr>"

definition free_space :: "Page \<Rightarrow> usize" where
  "free_space p = ph_free_bytes (pg_header p)"

definition reserve_space :: "Page \<Rightarrow> usize \<Rightarrow> usize \<Rightarrow> usize res \<times> Page" where
  "reserve_space p sz page_size =
     (if sz > ph_free_bytes (pg_header p)
      then (Err (StorageError ''Not enough space in page''), p)
      else (Ok (page_size - ph_free_bytes (pg_header p)),
            p\<lparr>pg_header := (pg_header p)\<lparr>ph_free_bytes := ph_free_bytes (pg_header p) - sz\<rparr>\<rparr>))"

definition to_bytes :: "page_lib \<Rightarrow> Page \<Rightarrow> nat \<Rightarrow> bytes res" where
  "to_bytes L p page_size = Ok (page_bytes L (pg_header p) (pg_data p) page_size)"

definition dummy_header :: PageHeader where
  "dummy_header = \<lparr>ph_page_id = 0, ph_page_type = DataPage, ph_prev = None, ph_next = None,
     ph_free_bytes = 0, ph_checksum = 0\<rparr>"

definition from_bytes :: "page_lib \<Rightarrow> bytes \<Rightarrow> Page res" where
  "from_bytes L bs =
     (let header_size = length (lib_serialize L dummy_header)
      in if length bs < header_size then Panic ''slice index''
         else (case lib_deserialize L (take header_size bs) of
                 None \<Rightarrow> Err (SerializationError ''bincode'')
               | Some h \<Rightarrow> Ok \<lparr>pg_header = h, pg_data = drop header_size bs\<rparr>))"

text \<open>Reserving several blocks one after the other.\<close>

fun reserve_all :: "Page \<Rightarrow> usize list \<Rightarrow> usize \<Rightarrow> usize res list \<times> Page" where
  "reserve_all p [] page_size = ([], p)"
| "reserve_all p (n # ns) page_size =
     (case reserve_space p n page_size of (r, p1) \<Rightarrow>
        (case reserve_all p1 ns page_size of (rs, p2) \<Rightarrow> (r # rs, p2)))"

text \<open>The page that reading a stored page gives: its data cut to what fits after the header.\<close>

definition stored_page :: "page_lib \<Rightarrow> Page \<Rightarrow> nat \<Rightarrow> Page" where
  "stored_page L p page_size = p\<lparr>pg_data := vec_resize (page_size - 26) 0 (pg_data p)\<rparr>"

subsection \<open>Lemmas\<close>

lemma page_type_of_tag [simp]: "page_type_of_tag (page_type_tag t) = Some t"
  by (cases t) (simp_all add: page_type_of_tag_def)

lemma tuple_header [simp]: "tuple_header (header_tuple h) = Some h"
  by (simp add: tuple_header_def header_tuple_def)

lemma header_codec: "codec header_encode header_decode header_width"
proof -
  note u64 = u64.codec_axioms and u32 = u32.codec_axioms
  note opt = codec_option [OF u64]
  note all = codec_pair [OF u64 codec_pair [OF u32 codec_pair [OF opt codec_pair [OF opt
    codec_pair [OF u64 u32]]]]]
  show ?thesis
    using codec_iso [OF all tuple_header]
    by (simp add: header_encode_def header_decode_def header_tuple_def [abs_def]
        header_width_def [abs_def]        add.assoc)
qed

interpretation page_header: codec header_encode header_decode header_width
  by (rule header_codec)

lemma le_page_lib_ok [simp]: "page_lib_ok le_page_lib"
  using page_header.is_bincode by (simp add: page_lib_ok_def le_page_lib_def)

lemma page_libD:
  assumes "page_lib_ok L"
  shows "lib_deserialize L (lib_serialize L h @ rest) = Some h"
    "length (lib_serialize L h) = header_width h"
    "n < header_width h \<Longrightarrow> lib_deserialize L (take n (lib_serialize L h @ rest)) = None"
  using bincode.de_ser_append [OF assms [unfolded page_lib_ok_def]]
    bincode.length_ser [OF assms [unfolded page_lib_ok_def]]
    bincode.de_cut [OF assms [unfolded page_lib_ok_def]]
  by simp_all

lemma dummy_size [simp]: "page_lib_ok L \<Longrightarrow> length (lib_serialize L dummy_header) = 26"
  by (simp add: page_libD(2) dummy_header_def header_width_def opt_size_def)

lemma length_page_bytes [simp]: "length (page_bytes L h d n) = n"
  by (simp add: page_bytes_def)

lemma vec_resize_append:
  "length xs \<le> n \<Longrightarrow> vec_resize n x (xs @ ys) = xs @ vec_resize (n - length xs) x ys"
  by (simp add: vec_resize_def)

lemma header_size_plain:
  "page_lib_ok L \<Longrightarrow> ph_prev h = None \<Longrightarrow> ph_next h = None \<Longrightarrow> length (lib_serialize L h) = 26"
  by (simp add: page_libD(2) header_width_def opt_size_def)

lemma page_bytes_plain:
  assumes "page_lib_ok L" "ph_prev h = None" "ph_next h = None" "26 \<le> n"
  shows "page_bytes L h d n = lib_serialize L h @ vec_resize (n - 26) 0 d"
  using assms by (simp add: page_bytes_def vec_resize_append header_size_plain)

lemma update_checksum_simps [simp]:
  "ph_prev (pg_header (update_checksum L p n)) = ph_prev (pg_header p)"
  "ph_next (pg_header (update_checksum L p n)) = ph_next (pg_header p)"
  "ph_page_id (pg_header (update_checksum L p n)) = ph_page_id (pg_header p)"
  "ph_page_type (pg_header (update_checksum L p n)) = ph_page_type (pg_header p)"
  "ph_free_bytes (pg_header (update_checksum L p n)) = ph_free_bytes (pg_header p)"
  "pg_data (update_checksum L p n) = pg_data p"
  by (simp_all add: update_checksum_def)

lemma verify_update_checksum: "verify L (update_checksum L p n) n"
  by (simp add: verify_def update_checksum_def calculate_checksum_def)

lemma from_bytes_page_bytes:
  assumes "page_lib_ok L" "ph_prev (pg_header p) = None" "ph_next (pg_header p) = None" "26 \<le> n"
  shows "from_bytes L (page_bytes L (pg_header p) (pg_data p) n) = Ok (stored_page L p n)"
  using assms page_libD(1) [of L "pg_header p" "[]"]
  by (simp add: from_bytes_def page_bytes_plain header_size_plain stored_page_def Let_def)

lemma checksum_stored:
  assumes "page_lib_ok L" "ph_prev (pg_header p) = None" "ph_next (pg_header p) = None" "26 \<le> n"
  shows "calculate_checksum L (stored_page L p n) n = calculate_checksum L p n"
  using assms by (simp add: calculate_checksum_def stored_page_def page_bytes_plain)

lemma verify_stored:
  assumes "page_lib_ok L" "ph_prev (pg_header p) = None" "ph_next (pg_header p) = None" "26 \<le> n"
  shows "verify L (stored_page L p n) n = verify L p n"
  using checksum_stored [OF assms] by (simp add: verify_def) (simp add: stored_page_def)

lemma reserve_space_cases:
  obtains (full) "sz > ph_free_bytes (pg_header p)"
      "reserve_space p sz n = (Err (StorageError ''Not enough space in page''), p)"
  | (ok) q where "sz \<le> ph_free_bytes (pg_header p)"
      "reserve_space p sz n = (Ok (n - ph_free_bytes (pg_header p)), q)"
      "ph_free_bytes (pg_header q) = ph_free_bytes (pg_header p) - sz"
  by (cases "sz > ph_free_bytes (pg_header p)") (auto simp: reserve_space_def)

lemma reserve_all_bounds:
  assumes "reserve_all p ns n = (rs, q)" "ph_free_bytes (pg_header p) \<le> n"
    "i < length ns" "rs ! i = Ok a"
  shows "unat n - unat (ph_free_bytes (pg_header p)) \<le> unat a \<and> unat a + unat (ns ! i) \<le> unat n"
  using assms
proof (induction ns arbitrary: p rs i)
  case Nil
  then show ?case by simp
next
  case (Cons k ns)
  let ?f = "ph_free_bytes (pg_header p)"
  from Cons.prems(1) obtain r p1 rs' where *: "reserve_space p k n = (r, p1)"
      "reserve_all p1 ns n = (rs', q)" "rs = r # rs'"
    by (auto split: prod.splits)
  show ?case
  proof (cases rule: reserve_space_cases [of p k n])
    case full
    then show ?thesis using * Cons.prems Cons.IH [of p1 rs'] by (cases i) auto
  next
    case (ok q')
    then have f: "ph_free_bytes (pg_header p1) = ?f - k" "r = Ok (n - ?f)" using * by auto
    have k: "unat (?f - k) = unat ?f - unat k" "unat k \<le> unat ?f" "unat (n - ?f) = unat n - unat ?f"
      "unat ?f \<le> unat n"
      using ok(1) Cons.prems(2) by (simp_all add: unat_sub word_le_nat_alt)
    show ?thesis
    proof (cases i)
      case 0
      then show ?thesis using Cons.prems * f k by auto
    next
      case (Suc j)
      then have "unat n - unat (?f - k) \<le> unat a \<and> unat a + unat (ns ! j) \<le> unat n"
        using Cons.IH [OF *(2), of j] Cons.prems * f k by (auto simp: word_le_nat_alt)
      then show ?thesis using Suc k by auto
    qed
  qed
qed

lemma reserve_all_disjoint:
  assumes "reserve_all p ns n = (rs, q)" "ph_free_bytes (pg_header p) \<le> n"
    "i < j" "j < length ns" "rs ! i = Ok a" "rs ! j = Ok b"
  shows "unat a + unat (ns ! i) \<le> unat b"
  using assms
proof (induction ns arbitrary: p rs i j)
  case Nil
  then show ?case by simp
next
  case (Cons k ns)
  let ?f = "ph_free_bytes (pg_header p)"
  from Cons.prems(1) obtain r p1 rs' where *: "reserve_space p k n = (r, p1)"
      "reserve_all p1 ns n = (rs', q)" "rs = r # rs'"
    by (auto split: prod.splits)
  obtain j' where j: "j = Suc j'" "j' < length ns" using Cons.prems by (cases j) auto
  show ?case
  proof (cases rule: reserve_space_cases [of p k n])
    case full
    then show ?thesis using * j Cons.prems Cons.IH [of p1 rs' "i - 1" j'] by (cases i) auto
  next
    case (ok q')
    then have f: "ph_free_bytes (pg_header p1) = ?f - k" "r = Ok (n - ?f)" using * by auto
    have k: "unat (?f - k) = unat ?f - unat k" "unat k \<le> unat ?f" "unat (n - ?f) = unat n - unat ?f"
      "unat ?f \<le> unat n"
      using ok(1) Cons.prems(2) by (simp_all add: unat_sub word_le_nat_alt)
    have le: "ph_free_bytes (pg_header p1) \<le> n"
      using f k by (simp add: word_le_nat_alt)
    show ?thesis
      using Cons.IH [OF *(2) le, of "i - 1" j'] reserve_all_bounds [OF *(2) le, of j' b]
        Cons.prems * f k j
      by (cases i) auto
  qed
qed

lemma reserve_all_length: "reserve_all p ns n = (rs, q) \<Longrightarrow> length rs = length ns"
  by (induction ns arbitrary: p rs) (auto split: prod.splits)

lemma linked_page_from_bytes:
  assumes "page_lib_ok L" "ph_prev (pg_header p) \<noteq> None \<or> ph_next (pg_header p) \<noteq> None" "26 \<le> n"
  shows "from_bytes L (page_bytes L (pg_header p) (pg_data p) n) = Err (SerializationError ''bincode'')"
proof -
  have "26 < header_width (pg_header p)"
    using assms(2) by (auto simp: header_width_def opt_size_def split: option.splits)
  moreover from this have "take 26 (page_bytes L (pg_header p) (pg_data p) n)
      = take 26 (lib_serialize L (pg_header p))"
    using assms(3) page_libD(2) [OF assms(1)] by (simp add: page_bytes_def vec_resize_def)
  ultimately show ?thesis
    using assms(1,3) page_libD(3) [OF assms(1), of 26 "pg_header p" "[]"]
    by (simp add: from_bytes_def)
qed

subsection \<open>Properties\<close>

text \<open>
  C22. Storing a page and reading it back. For every page without links and every page size that has
  room for the header, the bytes of the page after \<^verbatim>\<open>update_checksum\<close> fill exactly one page, and
  \<^verbatim>\<open>from_bytes\<close> returns the same header, checksum included, and the data cut or padded to the 26 bytes
  fewer that fit behind it; the page read passes \<^verbatim>\<open>verify\<close>.
\<close>

theorem page_store_roundtrip:
  assumes "page_lib_ok L" "ph_prev (pg_header p) = None" "ph_next (pg_header p) = None" "26 \<le> n"
  shows "\<exists>bs q. to_bytes L (update_checksum L p n) n = Ok bs \<and> length bs = n \<and>
    from_bytes L bs = Ok q \<and> pg_header q = pg_header (update_checksum L p n) \<and>
    pg_data q = vec_resize (n - 26) 0 (pg_data p) \<and> verify L q n"
proof -
  have "from_bytes L (page_bytes L (pg_header (update_checksum L p n)) (pg_data p) n)
      = Ok (stored_page L (update_checksum L p n) n)"
    using from_bytes_page_bytes [of L "update_checksum L p n" n] assms by simp
  moreover have "verify L (stored_page L (update_checksum L p n) n) n"
    using verify_stored [of L "update_checksum L p n" n] verify_update_checksum assms by simp
  ultimately show ?thesis by (auto simp: to_bytes_def stored_page_def)
qed

theorem page_store_roundtrip_witness:
  "\<exists>bs q. to_bytes le_page_lib (update_checksum le_page_lib (Page_new 7 DataPage 32) 32) 32 = Ok bs \<and>
    length bs = 32 \<and> from_bytes le_page_lib bs = Ok q \<and>
    pg_header q = pg_header (update_checksum le_page_lib (Page_new 7 DataPage 32) 32) \<and>
    pg_data q = [0, 0, 0, 0, 0, 0] \<and> verify le_page_lib q 32"
  using page_store_roundtrip [of le_page_lib "Page_new 7 DataPage 32" 32]
  by (simp add: Page_new_def vec_resize_def numeral_eq_Suc)

text \<open>
  A page that has a link cannot be read back. \<^verbatim>\<open>from_bytes\<close> takes the header's width from a
  dummy header without links, so the encoding of a header with a previous or a next page is cut
  before its end, and every such page, whatever its contents and the page size, comes back as a
  serialization error.
\<close>

theorem linked_page_unreadable:
  assumes "page_lib_ok L" "ph_prev (pg_header p) \<noteq> None \<or> ph_next (pg_header p) \<noteq> None" "26 \<le> n"
  shows "res_bind (to_bytes L p n) (from_bytes L) = Err (SerializationError ''bincode'')"
  using linked_page_from_bytes [OF assms] by (simp add: to_bytes_def)

theorem linked_page_unreadable_witness:
  "res_bind (to_bytes le_page_lib ((Page_new 7 FreePage 64)\<lparr>pg_header :=
      (pg_header (Page_new 7 FreePage 64))\<lparr>ph_next := Some 3\<rparr>\<rparr>) 64) (from_bytes le_page_lib)
   = Err (SerializationError ''bincode'')"
  by (rule linked_page_unreadable) simp_all

text \<open>
  Reserved space never overlaps. After any sequence of reservations in a new page, each of which
  may succeed or fail, every block granted lies inside the page and behind all the blocks granted
  before it.
\<close>

theorem reserved_blocks_disjoint:
  assumes "reserve_all (Page_new pid ty n) ns (of_nat n) = (rs, q)" "n < 2 ^ 64"
    "j < length ns" "rs ! j = Ok b"
  shows "unat b + unat (ns ! j) \<le> n \<and>
    (\<forall>i a. i < j \<longrightarrow> rs ! i = Ok a \<longrightarrow> unat a + unat (ns ! i) \<le> unat b)"
proof -
  have "unat (of_nat n :: usize) = n" using assms(2) by (simp add: take_bit_nat_eq_self unsigned_of_nat)
  then show ?thesis
    using reserve_all_bounds [OF assms(1) _ assms(3,4)]
      reserve_all_disjoint [OF assms(1) _ _ assms(3) _ assms(4)]
    by (simp add: Page_new_def)
qed

theorem reserved_blocks_disjoint_witness:
  "fst (reserve_all (Page_new 1 DataPage 100) [60, 50, 40] 100)
     = [Ok 0, Err (StorageError ''Not enough space in page''), Ok 60] \<and>
   unat (60::usize) + unat ([60, 50, 40::usize] ! 2) \<le> 100"
proof -
  obtain q where q: "reserve_all (Page_new 1 DataPage 100) [60, 50, 40] 100
     = ([Ok 0, Err (StorageError ''Not enough space in page''), Ok 60], q)"
    by (simp add: reserve_space_def Page_new_def)
  then show ?thesis
    using reserved_blocks_disjoint [of 1 DataPage 100 "[60, 50, 40]" _ q 2 60] by simp
qed

end
