(* ===== verification/File_Manager.thy ===== *)
theory File_Manager
  imports Page
begin

section \<open>The database file (\<^verbatim>\<open>src/src/storage/file_manager.rs\<close>, \<^verbatim>\<open>test_utils.rs\<close>)\<close>

text \<open>
  The state of \<^verbatim>\<open>DefaultFileManager\<close> is the file's bytes, the database header behind its mutex and
  the page size. \<open>fm_held\<close> records whether the running call holds the header's mutex, so that locking
  it again is visible as a deadlock; the mutex of the file is never taken twice. The environment is the script
  \<open>fm_io\<close>, the outcomes of the coming calls to the operating system: a call succeeds or fails, and a
  write that fails may have written some of its bytes first. When the script ends, every call
  succeeds. A read of a regular file returns all the bytes there are.

  The locale \<open>file_manager\<close> is what the buffer pool relies on: what a write leaves on the disk, that
  nothing else changes, and that an allocated page is new.
\<close>

subsection \<open>Data\<close>

record DatabaseHeader =
  dh_magic_number :: u64
  dh_version :: u32
  dh_page_size :: u32
  dh_total_pages :: u64
  dh_free_pages :: u64
  dh_first_free_page :: "PageId option"
  dh_checksum :: u32

record DefaultFileManager =
  fm_file :: bytes
  fm_header :: DatabaseHeader
  fm_page_size :: nat
  fm_held :: bool
  fm_io :: "io_outcome list"

record DatabaseStats =
  ds_total_pages :: u64
  ds_free_pages :: u64
  ds_used_pages :: u64

record fm_lib =
  fl_page :: page_lib
  fl_serialize :: "DatabaseHeader \<Rightarrow> bytes"
  fl_deserialize :: "bytes \<Rightarrow> DatabaseHeader option"

type_synonym 'a fm_op = "(DefaultFileManager, 'a) op"

text \<open>What the file manager relies on: the page library, the layout of the database header, and that
  its last field, the checksum, is in the last four bytes.\<close>

definition db_header_width :: "DatabaseHeader \<Rightarrow> nat" where
  "db_header_width h = 36 + opt_size 8 (dh_first_free_page h)"

definition fm_lib_ok :: "fm_lib \<Rightarrow> bool" where
  "fm_lib_ok L \<longleftrightarrow> page_lib_ok (fl_page L) \<and>
     bincode (fl_serialize L) (fl_deserialize L) db_header_width \<and>
     (\<forall>h c. take (db_header_width h - 4) (fl_serialize L (h\<lparr>dh_checksum := c\<rparr>))
          = take (db_header_width h - 4) (fl_serialize L h))"

subsection \<open>The database header\<close>

definition DatabaseHeader_new :: "u32 \<Rightarrow> DatabaseHeader" where
  "DatabaseHeader_new page_size =
     \<lparr>dh_magic_number = 0x5253514C44544142, dh_version = 1, dh_page_size = page_size,
      dh_total_pages = 1, dh_free_pages = 0, dh_first_free_page = None, dh_checksum = 0\<rparr>"

definition dh_crc :: "fm_lib \<Rightarrow> DatabaseHeader \<Rightarrow> u32" where
  "dh_crc L h = (let bs = fl_serialize L h in lib_crc (fl_page L) (take (length bs - 4) bs))"

definition dh_update_checksum :: "fm_lib \<Rightarrow> DatabaseHeader \<Rightarrow> DatabaseHeader" where
  "dh_update_checksum L h = h\<lparr>dh_checksum := dh_crc L (h\<lparr>dh_checksum := 0\<rparr>)\<rparr>"

definition dh_verify :: "fm_lib \<Rightarrow> DatabaseHeader \<Rightarrow> bool" where
  "dh_verify L h = (dh_crc L h = dh_checksum h)"

subsection \<open>The file and the header's mutex\<close>

definition next_io :: "DefaultFileManager \<Rightarrow> io_outcome \<times> DefaultFileManager" where
  "next_io s = (case fm_io s of [] \<Rightarrow> (IoDone, s) | x # xs \<Rightarrow> (x, s\<lparr>fm_io := xs\<rparr>))"

definition file_write_at :: "nat \<Rightarrow> bytes \<Rightarrow> bytes \<Rightarrow> bytes" where
  "file_write_at off bs f =
     (if bs = [] then f
      else take off (f @ replicate (off - length f) 0) @ bs @ drop (off + length bs) f)"

text \<open>A call that leaves the file's bytes alone: \<^verbatim>\<open>seek\<close>, \<^verbatim>\<open>flush\<close>, \<^verbatim>\<open>sync_all\<close>.\<close>

definition io_call :: "db_error \<Rightarrow> unit fm_op" where
  "io_call e s = (case next_io s of (IoDone, s1) \<Rightarrow> (Ok (), s1) | (IoFail _, s1) \<Rightarrow> (Err e, s1))"

definition io_read :: "db_error \<Rightarrow> nat \<Rightarrow> nat \<Rightarrow> bytes fm_op" where
  "io_read e off n s =
     (case next_io s of (IoDone, s1) \<Rightarrow> (Ok (take n (drop off (fm_file s1))), s1)
      | (IoFail _, s1) \<Rightarrow> (Err e, s1))"

definition io_write_all :: "db_error \<Rightarrow> nat \<Rightarrow> bytes \<Rightarrow> unit fm_op" where
  "io_write_all e off bs s =
     (case next_io s of
        (IoDone, s1) \<Rightarrow> (Ok (), s1\<lparr>fm_file := file_write_at off bs (fm_file s1)\<rparr>)
      | (IoFail k, s1) \<Rightarrow> (Err e, s1\<lparr>fm_file := file_write_at off (take k bs) (fm_file s1)\<rparr>))"

definition lock_header :: "unit fm_op" where
  "lock_header s = (if fm_held s then (Deadlock, s) else (Ok (), s\<lparr>fm_held := True\<rparr>))"

text \<open>A block that runs with the guard of the mutex: leaving it by any return drops the guard.\<close>

definition drop_header :: "'a fm_op \<Rightarrow> 'a fm_op" where
  "drop_header m s = (case m s of (r, s1) \<Rightarrow> (r, s1\<lparr>fm_held := False\<rparr>))"

definition with_header :: "'a fm_op \<Rightarrow> 'a fm_op" where
  "with_header m = st_bind lock_header (\<lambda>_. drop_header m)"

definition set_header :: "(DatabaseHeader \<Rightarrow> DatabaseHeader) \<Rightarrow> unit fm_op" where
  "set_header f = st_update (\<lambda>s. s\<lparr>fm_header := f (fm_header s)\<rparr>)"

subsection \<open>Operations of \<^verbatim>\<open>DefaultFileManager\<close>\<close>

definition write_header :: "fm_lib \<Rightarrow> unit fm_op" where
  "write_header L = with_header
     (st_bind (set_header (dh_update_checksum L)) (\<lambda>_ s.
        (let header_bytes = fl_serialize L (fm_header s)
         in st_bind (io_call (IoError ''seek'')) (\<lambda>_.
            st_bind (io_write_all (IoError ''write'') 0 header_bytes) (\<lambda>_.
            io_call (IoError ''flush''))) s)))"

definition read_header :: "fm_lib \<Rightarrow> unit fm_op" where
  "read_header L =
     st_bind (io_call (IoError ''seek'')) (\<lambda>_.
     st_bind (io_read (IoError ''read'') 0 1024) (\<lambda>header_bytes.
       if header_bytes = [] then st_fail (StorageError ''Empty database file'')
       else case fl_deserialize L header_bytes of
          None \<Rightarrow> st_fail (SerializationError ''bincode'')
        | Some header \<Rightarrow>
            if \<not> dh_verify L header then st_fail (CorruptionError ''Invalid header checksum'')
            else if dh_magic_number header \<noteq> dh_magic_number (DatabaseHeader_new 0)
            then st_fail (CorruptionError ''Invalid magic number'')
            else st_update (\<lambda>s. s\<lparr>fm_header := header, fm_page_size := unat (dh_page_size header)\<rparr>)))"

text \<open>\<^verbatim>\<open>open\<close> on the bytes of an existing file, \<^verbatim>\<open>create\<close> on a truncated one; both keep the script of
  the system calls that follow.\<close>

definition fm_open :: "fm_lib \<Rightarrow> bytes \<Rightarrow> io_outcome list \<Rightarrow> unit res \<times> DefaultFileManager" where
  "fm_open L file io =
     st_bind (io_call (IoError ''open'')) (\<lambda>_. read_header L)
       \<lparr>fm_file = file, fm_header = DatabaseHeader_new 8192, fm_page_size = 8192,
        fm_held = False, fm_io = io\<rparr>"

definition fm_create :: "fm_lib \<Rightarrow> u32 \<Rightarrow> io_outcome list \<Rightarrow> unit res \<times> DefaultFileManager" where
  "fm_create L page_size io =
     st_bind (io_call (IoError ''open'')) (\<lambda>_. write_header L)
       \<lparr>fm_file = [], fm_header = dh_update_checksum L (DatabaseHeader_new page_size),
        fm_page_size = unat page_size, fm_held = False, fm_io = io\<rparr>"

definition page_offset :: "fm_lib \<Rightarrow> PageId \<Rightarrow> u64 fm_op" where
  "page_offset L page_id = with_header (\<lambda>s.
     (if page_id = 0
      then (Err (StorageError ''Cannot access header page through read_page''), s)
      else if fm_page_size s = 0 then (Panic ''attempt to divide by zero'', s)
      else let header_size = length (fl_serialize L (fm_header s));
               header_pages = (header_size + fm_page_size s - 1) div fm_page_size s
           in (Ok ((of_nat header_pages + (page_id - 1)) * of_nat (fm_page_size s)), s)))"

definition fm_read_page :: "fm_lib \<Rightarrow> PageId \<Rightarrow> Page fm_op" where
  "fm_read_page L page_id =
     st_bind (page_offset L page_id) (\<lambda>off.
     st_bind (io_call (IoError ''seek'')) (\<lambda>_ s.
       st_bind (io_read (StorageError ''Failed to read page'') (unat off) (fm_page_size s))
         (\<lambda>bs.
            if length bs \<noteq> fm_page_size s
            then st_fail (StorageError ''Incomplete read for page'')
            else (\<lambda>s. case from_bytes (fl_page L) bs of
                Ok page \<Rightarrow>
                  if verify (fl_page L) page (fm_page_size s) then (Ok page, s)
                  else (Err (CorruptionError ''Page failed checksum verification''), s)
              | Err e \<Rightarrow> (Err (CorruptionError ''Failed to deserialize page''), s)
              | Panic t \<Rightarrow> (Panic t, s)
              | Deadlock \<Rightarrow> (Deadlock, s))) s))"

definition fm_write_page :: "fm_lib \<Rightarrow> PageId \<Rightarrow> Page \<Rightarrow> unit fm_op" where
  "fm_write_page L page_id page0 =
     st_bind (page_offset L page_id) (\<lambda>off s.
       (let page = update_checksum (fl_page L) page0 (fm_page_size s)
        in st_bind (io_call (StorageError ''Failed to seek to page offset'')) (\<lambda>_.
           (case to_bytes (fl_page L) page (fm_page_size s) of
              Ok bs \<Rightarrow>
                if length bs \<noteq> fm_page_size s
                then st_fail (StorageError ''Page serialization produced wrong size'')
                else st_bind (io_write_all (StorageError ''Failed to write page'') (unat off) bs)
                  (\<lambda>_. st_bind (io_call (StorageError ''Failed to flush page''))
                  (\<lambda>_. io_call (StorageError ''Failed to sync page'')))
            | Err e \<Rightarrow> st_fail (StorageError ''Failed to serialize page'')
            | Panic t \<Rightarrow> (\<lambda>s. (Panic t, s))
            | Deadlock \<Rightarrow> (\<lambda>s. (Deadlock, s)))) s))"

text \<open>\<^verbatim>\<open>allocate_page\<close>: reuse the first free page, or append one. The guard of the header is held
  while the free page is read, and dropped before anything is written.\<close>

definition release_header :: "unit fm_op" where
  "release_header = st_update (\<lambda>s. s\<lparr>fm_held := False\<rparr>)"

definition opt_without :: "'a \<Rightarrow> 'a option \<Rightarrow> 'a option" where
  "opt_without x v = (case v of None \<Rightarrow> None | Some y \<Rightarrow> if y \<noteq> x then Some y else None)"

definition allocate_at_end :: "fm_lib \<Rightarrow> PageType \<Rightarrow> PageId fm_op" where
  "allocate_at_end L page_type s =
     (let new_page_id = dh_total_pages (fm_header s)
      in st_bind (set_header (\<lambda>h. h\<lparr>dh_total_pages := dh_total_pages h + 1\<rparr>)) (\<lambda>_.
         st_bind release_header (\<lambda>_ s.
           (let new_page = update_checksum (fl_page L)
                  (Page_new new_page_id page_type (fm_page_size s)) (fm_page_size s)
            in st_try (fm_write_page L new_page_id new_page)
                 (\<lambda>_. st_bind (write_header L) (\<lambda>_. st_return new_page_id))
                 (\<lambda>e. st_bind (with_header (set_header (\<lambda>h. h\<lparr>dh_total_pages := dh_total_pages h - 1\<rparr>)))
                        (\<lambda>_. st_fail e)) s))) s)"

definition reuse_page :: "fm_lib \<Rightarrow> PageType \<Rightarrow> PageId \<Rightarrow> Page \<Rightarrow> PageId fm_op" where
  "reuse_page L page_type free_page_id page =
     st_bind (set_header (\<lambda>h. h\<lparr>dh_first_free_page := ph_next (pg_header page),
                                dh_free_pages := dh_free_pages h - 1\<rparr>)) (\<lambda>_.
     st_bind release_header (\<lambda>_.
       (let allocated_page = page\<lparr>pg_header := (pg_header page)\<lparr>ph_page_type := page_type,
                                                                ph_next := None\<rparr>\<rparr>
        in st_try (fm_write_page L free_page_id allocated_page)
             (\<lambda>_. st_bind (write_header L) (\<lambda>_. st_return free_page_id))
             (\<lambda>e. st_bind (with_header (set_header (\<lambda>h. h\<lparr>dh_first_free_page := Some free_page_id,
                                                         dh_free_pages := dh_free_pages h + 1\<rparr>)))
                    (\<lambda>_. st_fail e)))))"

function allocate_page :: "fm_lib \<Rightarrow> PageType \<Rightarrow> PageId fm_op" where
  "allocate_page L page_type s =
     (case lock_header s of
        (Ok _, s1) \<Rightarrow>
          (case dh_first_free_page (fm_header s1) of
             None \<Rightarrow> allocate_at_end L page_type s1
           | Some free_page_id \<Rightarrow>
               (case fm_read_page L free_page_id s1 of
                  (Ok page, s2) \<Rightarrow> reuse_page L page_type free_page_id page s2
                | (Err e, s2) \<Rightarrow>
                    allocate_page L page_type (s2\<lparr>fm_header := (fm_header s1)\<lparr>dh_first_free_page :=
                      opt_without free_page_id (dh_first_free_page (fm_header s1))\<rparr>, fm_held := False\<rparr>)
                | (Panic t, s2) \<Rightarrow> (Panic t, s2)
                | (Deadlock, s2) \<Rightarrow> (Deadlock, s2)))
      | (Err e, s1) \<Rightarrow> (Err e, s1)
      | (Panic t, s1) \<Rightarrow> (Panic t, s1)
      | (Deadlock, s1) \<Rightarrow> (Deadlock, s1))"
  by pat_completeness auto
termination
  by (relation "measure (\<lambda>(L, t, s). case dh_first_free_page (fm_header s) of None \<Rightarrow> 0 | Some _ \<Rightarrow> 1)")
    (auto simp: opt_without_def lock_header_def split: if_splits)

definition deallocate_page :: "fm_lib \<Rightarrow> PageId \<Rightarrow> unit fm_op" where
  "deallocate_page L page_id =
     st_bind lock_header (\<lambda>_ s.
       if page_id \<ge> dh_total_pages (fm_header s)
       then drop_header (st_fail (StorageError ''Invalid page ID for deallocation'')) s
       else
         (let finish = (\<lambda>page0 s.
            (let page = page0\<lparr>pg_header := (pg_header page0)\<lparr>ph_page_type := FreePage,
                          ph_next := dh_first_free_page (fm_header s)\<rparr>\<rparr>
             in st_bind (set_header (\<lambda>h. h\<lparr>dh_first_free_page := Some page_id,
                                           dh_free_pages := dh_free_pages h + 1\<rparr>)) (\<lambda>_.
                st_bind release_header (\<lambda>_.
                st_try (fm_write_page L page_id page)
                  (\<lambda>_. write_header L)
                  (\<lambda>e. st_bind (with_header (set_header (\<lambda>h. h\<lparr>
                           dh_first_free_page := opt_without page_id (dh_first_free_page h),
                           dh_free_pages := dh_free_pages h - 1\<rparr>)))
                         (\<lambda>_. st_fail e)))) s))
          in st_try (fm_read_page L page_id) finish
               (\<lambda>e s. finish (Page_new page_id FreePage (fm_page_size s)) s) s))"

definition fm_sync :: "unit fm_op" where
  "fm_sync = st_bind (io_call (IoError ''flush'')) (\<lambda>_. io_call (IoError ''sync''))"

definition fm_get_stats :: "DatabaseStats fm_op" where
  "fm_get_stats = with_header (\<lambda>s.
     (Ok \<lparr>ds_total_pages = dh_total_pages (fm_header s), ds_free_pages = dh_free_pages (fm_header s),
          ds_used_pages = dh_total_pages (fm_header s) - dh_free_pages (fm_header s)\<rparr>, s))"

subsection \<open>\<^verbatim>\<open>MockFileManager\<close>\<close>

record MockFileManager =
  mk_pages :: "(PageId, Page) hmap"
  mk_next_page_id :: PageId

definition MockFileManager_new :: MockFileManager where
  "MockFileManager_new = \<lparr>mk_pages = [], mk_next_page_id = 1\<rparr>"

definition mock_read_page :: "PageId \<Rightarrow> (MockFileManager, Page) op" where
  "mock_read_page page_id s =
     (case hm_get (mk_pages s) page_id of Some page \<Rightarrow> (Ok page, s) | None \<Rightarrow> (Err (PageNotFound page_id), s))"

definition mock_write_page :: "PageId \<Rightarrow> Page \<Rightarrow> (MockFileManager, unit) op" where
  "mock_write_page page_id page s = (Ok (), s\<lparr>mk_pages := hm_insert page_id page (mk_pages s)\<rparr>)"

definition mock_allocate_page :: "PageType \<Rightarrow> (MockFileManager, PageId) op" where
  "mock_allocate_page page_type s =
     (let page_id = mk_next_page_id s
      in (Ok page_id, s\<lparr>mk_next_page_id := mk_next_page_id s + 1,
            mk_pages := hm_insert page_id (Page_new page_id page_type 8192) (mk_pages s)\<rparr>))"

definition mock_deallocate_page :: "PageId \<Rightarrow> (MockFileManager, unit) op" where
  "mock_deallocate_page page_id s = (Ok (), s\<lparr>mk_pages := hm_remove page_id (mk_pages s)\<rparr>)"

definition mock_get_stats :: "(MockFileManager, DatabaseStats) op" where
  "mock_get_stats s =
     (Ok \<lparr>ds_total_pages = of_nat (length (mk_pages s)), ds_free_pages = 0,
          ds_used_pages = of_nat (length (mk_pages s))\<rparr>, s)"

subsection \<open>What the disk holds\<close>

text \<open>The byte at which a page starts while the free list is empty, the page a read returns, the pages
  handed out so far, and the invariant of a database whose pages are all in use.\<close>

definition fm_region :: "nat \<Rightarrow> PageId \<Rightarrow> nat" where
  "fm_region ps p = ((36 + ps) div ps + unat p - 1) * ps"

definition page_at :: "fm_lib \<Rightarrow> nat \<Rightarrow> bytes \<Rightarrow> PageId \<Rightarrow> Page option" where
  "page_at L ps f p =
     (let bs = take ps (drop (fm_region ps p) f)
      in if length bs \<noteq> ps then None
         else case from_bytes (fl_page L) bs of
             Ok page \<Rightarrow> if verify (fl_page L) page ps then Some page else None
           | _ \<Rightarrow> None)"

definition fm_disk :: "fm_lib \<Rightarrow> DefaultFileManager \<Rightarrow> PageId \<Rightarrow> Page option" where
  "fm_disk L s p = page_at L (fm_page_size s) (fm_file s) p"

definition fm_used :: "DefaultFileManager \<Rightarrow> PageId \<Rightarrow> bool" where
  "fm_used s p = (p \<noteq> 0 \<and> p < dh_total_pages (fm_header s))"

definition fm_ready :: "nat \<Rightarrow> DefaultFileManager \<Rightarrow> bool" where
  "fm_ready ps s \<longleftrightarrow> fm_page_size s = ps \<and> 26 \<le> ps \<and> \<not> fm_held s \<and>
     dh_first_free_page (fm_header s) = None"

definition fm_inv :: "nat \<Rightarrow> DefaultFileManager \<Rightarrow> bool" where
  "fm_inv ps s \<longleftrightarrow> fm_ready ps s \<and> dh_total_pages (fm_header s) \<noteq> 0 \<and>
     fm_region ps (dh_total_pages (fm_header s)) < 2 ^ 64 \<and>
     (dh_total_pages (fm_header s) \<noteq> 1 \<longrightarrow>
        fm_region ps (dh_total_pages (fm_header s)) \<le> length (fm_file s))"

text \<open>There is room for one more page at the end of the file.\<close>

definition fm_room :: "nat \<Rightarrow> DefaultFileManager \<Rightarrow> bool" where
  "fm_room ps s \<longleftrightarrow> dh_total_pages (fm_header s) \<noteq> -1 \<and>
     fm_region ps (dh_total_pages (fm_header s) + 1) < 2 ^ 64"

definition fm_norm :: "fm_lib \<Rightarrow> nat \<Rightarrow> Page \<Rightarrow> Page option" where
  "fm_norm L ps page =
     (if ph_prev (pg_header page) = None \<and> ph_next (pg_header page) = None
      then Some (stored_page (fl_page L) (update_checksum (fl_page L) page ps) ps) else None)"

subsection \<open>The interface of a file manager\<close>

locale file_manager =
  fixes inv :: "'s \<Rightarrow> bool" and used :: "'s \<Rightarrow> PageId \<Rightarrow> bool" and room :: "'s \<Rightarrow> bool"
    and disk :: "'s \<Rightarrow> PageId \<Rightarrow> Page option" and norm :: "Page \<Rightarrow> Page option"
    and read :: "PageId \<Rightarrow> ('s, Page) op" and "write" :: "PageId \<Rightarrow> Page \<Rightarrow> ('s, unit) op"
    and alloc :: "PageType \<Rightarrow> ('s, PageId) op"
  assumes read_keeps: "inv s \<Longrightarrow> used s p \<Longrightarrow> read p s = (r, s') \<Longrightarrow>
      inv s' \<and> disk s' = disk s \<and> used s' = used s \<and> returns r"
    and read_ok: "inv s \<Longrightarrow> used s p \<Longrightarrow> read p s = (Ok pg, s') \<Longrightarrow> disk s p = Some pg"
    and write_keeps: "inv s \<Longrightarrow> used s p \<Longrightarrow> write p pg s = (rw, s') \<Longrightarrow>
      inv s' \<and> used s' = used s \<and> returns rw \<and> (\<forall>q. used s q \<longrightarrow> q \<noteq> p \<longrightarrow> disk s' q = disk s q)"
    and write_ok: "inv s \<Longrightarrow> used s p \<Longrightarrow> write p pg s = (Ok (), s') \<Longrightarrow> disk s' p = norm pg"
    and alloc_keeps: "inv s \<Longrightarrow> room s \<Longrightarrow> alloc t s = (ra, s') \<Longrightarrow>
      inv s' \<and> returns ra \<and> (\<forall>q. used s q \<longrightarrow> used s' q \<and> disk s' q = disk s q)"
    and alloc_ok: "inv s \<Longrightarrow> room s \<Longrightarrow> alloc t s = (Ok p, s') \<Longrightarrow>
      \<not> used s p \<and> used s' p \<and> (\<exists>pg. disk s' p = Some pg \<and> ph_page_id (pg_header pg) = p \<and>
        ph_page_type (pg_header pg) = t)"

subsection \<open>Lemmas: bytes of the file\<close>

lemma file_write_at_Nil [simp]: "file_write_at off [] f = f"
  by (simp add: file_write_at_def)

lemma length_file_write_at:
  "length (file_write_at off bs f) = (if bs = [] then length f else max (length f) (off + length bs))"
  by (auto simp: file_write_at_def)

lemma file_write_at_same:
  "bs \<noteq> [] \<Longrightarrow> take (length bs) (drop off (file_write_at off bs f)) = bs"
  by (simp add: file_write_at_def)

lemma file_write_at_before:
  "o1 + n \<le> off \<Longrightarrow> o1 + n \<le> length f \<Longrightarrow> take n (drop o1 (file_write_at off bs f)) = take n (drop o1 f)"
  by (simp add: file_write_at_def take_drop min_def)

lemma file_write_at_after:
  assumes "off + length bs \<le> o1"
  shows "take n (drop o1 (file_write_at off bs f)) = take n (drop o1 f)"
proof (cases "off \<le> length f")
  case True
  then have "drop o1 (file_write_at off bs f) = drop o1 f" if "bs \<noteq> []"
    using that assms by (simp add: file_write_at_def)
  then show ?thesis by (cases "bs = []") simp_all
next
  case False
  then have "drop o1 (file_write_at off bs f) = drop o1 f"
    using assms by (cases "bs = []") (simp_all add: file_write_at_def)
  then show ?thesis by simp
qed

subsection \<open>Lemmas: single operations\<close>

lemma fm_libD:
  assumes "fm_lib_ok L"
  shows "page_lib_ok (fl_page L)"
    "fl_deserialize L (fl_serialize L h @ rest) = Some h"
    "length (fl_serialize L h) = db_header_width h"
    "take (db_header_width h - 4) (fl_serialize L (h\<lparr>dh_checksum := c\<rparr>))
       = take (db_header_width h - 4) (fl_serialize L h)"
proof -
  have bin: "bincode (fl_serialize L) (fl_deserialize L) db_header_width"
    using assms by (simp add: fm_lib_ok_def)
  show "fl_deserialize L (fl_serialize L h @ rest) = Some h"
    by (rule bincode.de_ser_append [OF bin])
  show "length (fl_serialize L h) = db_header_width h"
    by (rule bincode.length_ser [OF bin])
qed (use assms in \<open>simp_all add: fm_lib_ok_def\<close>)

text \<open>The states that differ from a given one only in the script of system calls.\<close>

definition same_fm :: "DefaultFileManager \<Rightarrow> DefaultFileManager \<Rightarrow> bool" where
  "same_fm s s' \<longleftrightarrow> fm_file s' = fm_file s \<and> fm_header s' = fm_header s \<and>
     fm_page_size s' = fm_page_size s \<and> fm_held s' = fm_held s \<and> (fm_io s = [] \<longrightarrow> fm_io s' = [])"

lemma same_fm_simps:
  assumes "same_fm s s'"
  shows "fm_file s' = fm_file s" "fm_header s' = fm_header s" "fm_page_size s' = fm_page_size s"
    "fm_held s' = fm_held s" "fm_disk L s' = fm_disk L s" "fm_used s' = fm_used s"
    "fm_inv ps s' = fm_inv ps s"
  using assms by (auto simp: same_fm_def fm_disk_def fm_used_def fm_inv_def fm_ready_def fun_eq_iff)

lemma same_fm_trans [trans]: "same_fm s s1 \<Longrightarrow> same_fm s1 s2 \<Longrightarrow> same_fm s s2"
  by (simp add: same_fm_def)

lemma same_fm_refl [simp]: "same_fm s s"
  by (simp add: same_fm_def)

lemma next_io_result: "next_io s = (x, s') \<Longrightarrow> same_fm s s' \<and> (fm_io s = [] \<longrightarrow> x = IoDone)"
  by (auto simp: next_io_def same_fm_def split: list.splits)

lemma io_call_result:
  "io_call e s = (r, s') \<Longrightarrow> same_fm s s' \<and> (r = Ok () \<or> r = Err e \<and> fm_io s \<noteq> [])"
  by (auto simp: io_call_def split: prod.splits io_outcome.splits dest: next_io_result)

lemma io_read_result:
  "io_read e off n s = (r, s') \<Longrightarrow> same_fm s s' \<and>
     (r = Ok (take n (drop off (fm_file s))) \<or> r = Err e \<and> fm_io s \<noteq> [])"
  by (auto simp: io_read_def same_fm_simps split: prod.splits io_outcome.splits dest: next_io_result)

lemma io_write_all_result:
  assumes "io_write_all e off bs s = (r, s')"
  shows "\<exists>k. fm_file s' = file_write_at off (take k bs) (fm_file s) \<and> same_fm s (s'\<lparr>fm_file := fm_file s\<rparr>) \<and>
     (r = Ok () \<and> length bs \<le> k \<or> r = Err e \<and> fm_io s \<noteq> [])"
proof -
  obtain x s1 where "next_io s = (x, s1)" by fastforce
  then show ?thesis
    using assms next_io_result [of s x s1]
    by (cases x) (auto simp: io_write_all_def same_fm_def intro: exI [of _ "length bs"])
qed

text \<open>The two writers of the file share one pattern: seek, write all the bytes, then calls that only
  flush.\<close>

definition flushing :: "unit fm_op \<Rightarrow> bool" where
  "flushing m \<longleftrightarrow> (\<forall>s r s'. m s = (r, s') \<longrightarrow> same_fm s s' \<and> returns r \<and> (fm_io s = [] \<longrightarrow> r = Ok ()))"

lemma flushing_io_call [simp]: "flushing (io_call e)"
  by (auto simp: flushing_def dest: io_call_result)

lemma flushingD:
  "flushing m \<Longrightarrow> m s = (r, s') \<Longrightarrow> same_fm s s' \<and> returns r \<and> (fm_io s = [] \<longrightarrow> r = Ok ())"
  unfolding flushing_def by blast

lemma flushing_bind:
  assumes "flushing m" "flushing n"
  shows "flushing (st_bind m (\<lambda>_. n))"
  unfolding flushing_def
proof (intro allI impI)
  fix s r s'
  assume "st_bind m (\<lambda>_. n) s = (r, s')"
  then show "same_fm s s' \<and> returns r \<and> (fm_io s = [] \<longrightarrow> r = Ok ())"
    by (cases rule: st_bind_cases) (auto dest!: flushingD [OF assms(1)] flushingD [OF assms(2)]
        dest: same_fm_trans simp: same_fm_def)
qed

lemma write_sequence:
  assumes "flushing m"
    and "st_bind (io_call e1) (\<lambda>_. st_bind (io_write_all e2 off bs) (\<lambda>_. m)) s = (r, s')"
  shows "\<exists>k. fm_file s' = file_write_at off (take k bs) (fm_file s) \<and>
    same_fm s (s'\<lparr>fm_file := fm_file s\<rparr>) \<and> returns r \<and> (r = Ok () \<longrightarrow> length bs \<le> k) \<and>
    (fm_io s = [] \<longrightarrow> r = Ok ())"
proof -
  obtain r1 s1 where io1: "io_call e1 s = (r1, s1)" by fastforce
  note r1 = io_call_result [OF io1]
  obtain r2 s2 where io2: "io_write_all e2 off bs s1 = (r2, s2)" by fastforce
  obtain k where k: "fm_file s2 = file_write_at off (take k bs) (fm_file s1)"
      "same_fm s1 (s2\<lparr>fm_file := fm_file s1\<rparr>)"
      "r2 = Ok () \<and> length bs \<le> k \<or> r2 = Err e2 \<and> fm_io s1 \<noteq> []"
    using io_write_all_result [OF io2] by auto
  obtain r3 s3 where io3: "m s2 = (r3, s3)" by fastforce
  have s3: "same_fm s2 s3 \<and> returns r3 \<and> (fm_io s2 = [] \<longrightarrow> r3 = Ok ())"
    using assms(1) io3 unfolding flushing_def by blast
  have run: "(r, s') = (if r1 \<noteq> Ok () then (r1, s1) else if r2 \<noteq> Ok () then (r2, s2) else (r3, s3))"
    using assms(2) io1 io2 io3 r1 k(3) by auto
  show ?thesis
  proof (cases "r1 = Ok ()")
    case False
    then show ?thesis using run r1 by (intro exI [of _ 0]) (auto simp: same_fm_def)
  next
    case True
    then show ?thesis
      using run r1 k s3 by (intro exI [of _ k]) (auto simp: same_fm_def split: if_splits)
  qed
qed

lemma with_header_free:
  "\<not> fm_held s \<Longrightarrow> with_header m s = (case m (s\<lparr>fm_held := True\<rparr>) of (r, s1) \<Rightarrow> (r, s1\<lparr>fm_held := False\<rparr>))"
  by (simp add: with_header_def lock_header_def drop_header_def)

lemma with_header_held: "fm_held s \<Longrightarrow> with_header m s = (Deadlock, s)"
  by (simp add: with_header_def lock_header_def)

lemma region_word:
  "p \<noteq> 0 \<Longrightarrow> (of_nat ((36 + ps) div ps) + (p - 1)) * of_nat ps = (of_nat (fm_region ps p) :: u64)"
proof -
  assume "p \<noteq> 0"
  then have "1 \<le> unat p" by (simp add: Suc_le_eq unat_gt_0)
  then have "(of_nat (unat p - 1) :: u64) = p - 1"
    by (simp add: of_nat_diff)
  moreover have "(36 + ps) div ps + unat p - 1 = (36 + ps) div ps + (unat p - 1)"
    using \<open>1 \<le> unat p\<close> by simp
  ultimately show ?thesis by (simp add: fm_region_def del: of_nat_diff)
qed

lemma fm_inv_width:
  "fm_lib_ok L \<Longrightarrow> dh_first_free_page (fm_header s) = None \<Longrightarrow> length (fl_serialize L (fm_header s)) = 37"
  by (simp add: fm_libD db_header_width_def opt_size_def)

lemma page_offset_ok:
  assumes "fm_lib_ok L" "dh_first_free_page (fm_header s) = None" "\<not> fm_held s"
    "fm_page_size s \<noteq> 0" "p \<noteq> 0"
  shows "page_offset L p s = (Ok (of_nat (fm_region (fm_page_size s) p)), s)"
  using assms region_word [of p "fm_page_size s"]
  by (simp add: page_offset_def with_header_free fm_inv_width Let_def)

lemma unat_region: "fm_region ps p < 2 ^ 64 \<Longrightarrow> unat (of_nat (fm_region ps p) :: u64) = fm_region ps p"
  by (simp add: take_bit_nat_eq_self unsigned_of_nat)

lemma fm_region_mono: "p \<le> q \<Longrightarrow> fm_region ps p \<le> fm_region ps q"
  unfolding fm_region_def by (rule mult_right_mono) (auto simp: word_le_nat_alt)

lemma fm_region_step:
  assumes "p < q" "p \<noteq> 0"
  shows "fm_region ps p + ps \<le> fm_region ps q"
proof -
  have "unat p < unat q" using assms by (simp add: word_less_nat_alt)
  moreover have "1 \<le> unat p" using assms by (simp add: Suc_le_eq unat_gt_0)
  ultimately have "Suc ((36 + ps) div ps + unat p - 1) * ps \<le> ((36 + ps) div ps + unat q - 1) * ps"
    by (intro mult_right_mono) auto
  then show ?thesis by (simp add: fm_region_def)
qed

lemma fm_region_header: "0 < ps \<Longrightarrow> p \<noteq> 0 \<Longrightarrow> 37 \<le> fm_region ps p"
proof -
  assume "0 < ps" "p \<noteq> 0"
  then have "(36 + ps) div ps \<le> (36 + ps) div ps + unat p - 1"
    by (metis Nat.add_diff_assoc le_add1 Suc_le_eq One_nat_def unat_gt_0)
  then have "((36 + ps) div ps) * ps \<le> fm_region ps p"
    unfolding fm_region_def by (rule mult_right_mono) simp
  moreover have "36 + ps - ps < ((36 + ps) div ps) * ps"
    using \<open>0 < ps\<close> by (metis add.commute add_diff_cancel_left' dividend_less_div_times
        less_diff_conv2 nat_less_le add_diff_cancel_right' le_add1 diff_less_mono2 div_mult_mod_eq
        less_add_eq_less mod_less_divisor)
  ultimately show ?thesis by simp
qed

lemma fm_used_region:
  assumes "fm_inv ps s" "fm_used s p"
  shows "fm_region ps p + ps \<le> fm_region ps (dh_total_pages (fm_header s))"
    "fm_region ps p + ps \<le> length (fm_file s)" "fm_region ps p < 2 ^ 64"
proof -
  show *: "fm_region ps p + ps \<le> fm_region ps (dh_total_pages (fm_header s))"
    using assms fm_region_step by (auto simp: fm_used_def)
  have "dh_total_pages (fm_header s) \<noteq> 1"
    using assms(2) by (auto simp: fm_used_def word_less_nat_alt unat_gt_0 unat_eq_0)
  then show "fm_region ps p + ps \<le> length (fm_file s)" "fm_region ps p < 2 ^ 64"
    using * assms(1) by (auto simp: fm_inv_def)
qed

text \<open>Reading: only the script moves, and a page that comes back is the page on the disk.\<close>

lemma from_bytes_returns: "26 \<le> length bs \<Longrightarrow> page_lib_ok L \<Longrightarrow> returns (from_bytes L bs)"
  by (simp add: from_bytes_def split: option.splits)

lemma fm_read_page_result:
  assumes "fm_lib_ok L" "fm_ready ps s" "p \<noteq> 0" "fm_region ps p < 2 ^ 64"
    and "fm_read_page L p s = (r, s')"
  shows "same_fm s s' \<and> returns r \<and> (\<forall>pg. r = Ok pg \<longrightarrow> fm_disk L s p = Some pg) \<and>
    (\<forall>pg. fm_io s = [] \<longrightarrow> fm_disk L s p = Some pg \<longrightarrow> r = Ok pg)"
proof -
  let ?off = "of_nat (fm_region ps p) :: u64"
  let ?bs = "take ps (drop (fm_region ps p) (fm_file s))"
  have ps: "fm_page_size s = ps" "26 \<le> ps" using assms(2) by (auto simp: fm_ready_def)
  have off: "page_offset L p s = (Ok ?off, s)" "unat ?off = fm_region ps p"
    using assms page_offset_ok [of L s p] unat_region [of ps p] by (auto simp: fm_ready_def)
  obtain r1 s1 where io1: "io_call (IoError ''seek'') s = (r1, s1)" by fastforce
  note r1 = io_call_result [OF io1]
  show ?thesis
  proof (cases "r1 = Ok ()")
    case False
    then show ?thesis using r1 io1 off assms(5) by (auto simp: fm_read_page_def)
  next
    case True
    have s1: "fm_page_size s1 = ps" "fm_file s1 = fm_file s" "fm_io s = [] \<Longrightarrow> fm_io s1 = []"
      using r1 ps by (auto simp: same_fm_def)
    obtain r2 s2 where io2: "io_read (StorageError ''Failed to read page'') (unat ?off) ps s1 = (r2, s2)"
      by fastforce
    note r2 = io_read_result [OF io2]
    have same: "same_fm s s2" using r1 r2 same_fm_trans by blast
    show ?thesis
    proof (cases "r2 = Ok ?bs")
      case False
      then show ?thesis
        using True r2 s1 same io1 io2 off assms(5) by (auto simp: fm_read_page_def)
    next
      case ok: True
      let ?chk = "\<lambda>s. case from_bytes (fl_page L) ?bs of
          Ok page \<Rightarrow> if verify (fl_page L) page (fm_page_size s) then (Ok page, s)
             else (Err (CorruptionError ''Page failed checksum verification''), s)
        | Err e \<Rightarrow> (Err (CorruptionError ''Failed to deserialize page''), s)
        | Panic t \<Rightarrow> (Panic t, s) | Deadlock \<Rightarrow> (Deadlock, s)"
      have "(r, s') = (if length ?bs \<noteq> ps then (Err (StorageError ''Incomplete read for page''), s2)
                      else ?chk s2)"
        using assms(5) True io1 io2 ok off s1
        by (cases "length ?bs = ps") (simp_all add: fm_read_page_def del: length_take length_drop)
      moreover have "length ?bs = ps \<Longrightarrow> returns (from_bytes (fl_page L) ?bs)"
        using from_bytes_returns fm_libD(1) [OF assms(1)] ps by metis
      moreover have "fm_page_size s2 = ps" using same ps by (simp add: same_fm_simps)
      ultimately show ?thesis
        using same ps by (auto simp: fm_disk_def page_at_def Let_def split: res.splits if_splits)
    qed
  qed
qed

text \<open>Writing: the page's region of the file gets a prefix of the encoded page, all of it on success.\<close>

definition written :: "fm_lib \<Rightarrow> nat \<Rightarrow> Page \<Rightarrow> bytes" where
  "written L ps pg = page_bytes (fl_page L) (pg_header (update_checksum (fl_page L) pg ps)) (pg_data pg) ps"

lemma length_written [simp]: "length (written L ps pg) = ps"
  by (simp add: written_def)

lemma fm_write_page_result:
  assumes "fm_lib_ok L" "fm_ready ps s" "p \<noteq> 0" "fm_region ps p < 2 ^ 64"
    and "fm_write_page L p pg s = (r, s')"
  shows "\<exists>k. fm_file s' = file_write_at (fm_region ps p) (take k (written L ps pg)) (fm_file s) \<and>
    same_fm s (s'\<lparr>fm_file := fm_file s\<rparr>) \<and> returns r \<and> (r = Ok () \<longrightarrow> ps \<le> k) \<and>
    (fm_io s = [] \<longrightarrow> r = Ok ())"
proof -
  let ?off = "of_nat (fm_region ps p) :: u64"
  have ps: "fm_page_size s = ps" using assms(2) by (auto simp: fm_ready_def)
  have off: "page_offset L p s = (Ok ?off, s)" "unat ?off = fm_region ps p"
    using assms page_offset_ok [of L s p] unat_region [of ps p] by (auto simp: fm_ready_def)
  have "st_bind (io_call (StorageError ''Failed to seek to page offset'')) (\<lambda>_.
      st_bind (io_write_all (StorageError ''Failed to write page'') (fm_region ps p) (written L ps pg)) (\<lambda>_.
      st_bind (io_call (StorageError ''Failed to flush page''))
        (\<lambda>_. io_call (StorageError ''Failed to sync page'')))) s = (r, s')"
    using assms(5) off ps by (simp add: fm_write_page_def to_bytes_def written_def Let_def)
  from write_sequence [OF _ this] show ?thesis by (simp add: flushing_bind)
qed

text \<open>What a write leaves to read.\<close>

lemma page_at_other:
  assumes "p \<noteq> 0" "q \<noteq> 0" "q \<noteq> p" "length bs \<le> ps" "fm_region ps q + ps \<le> length f"
  shows "page_at L ps (file_write_at (fm_region ps p) bs f) q = page_at L ps f q"
proof (cases "q < p")
  case True
  then have "fm_region ps q + ps \<le> fm_region ps p" using assms fm_region_step by blast
  then show ?thesis using assms by (simp add: page_at_def file_write_at_before)
next
  case False
  then have "fm_region ps p + length bs \<le> fm_region ps q"
    using assms fm_region_step [of p q ps] by fastforce
  then show ?thesis by (simp add: page_at_def file_write_at_after)
qed

lemma page_at_written:
  assumes "fm_lib_ok L" "26 \<le> ps"
  shows "page_at L ps (file_write_at (fm_region ps p) (written L ps pg) f) p = fm_norm L ps pg"
proof -
  let ?P = "fl_page L" and ?u = "update_checksum (fl_page L) pg ps"
  have "written L ps pg \<noteq> []" using assms(2) by (metis length_written list.size(3) not_numeral_le_zero)
  then have region: "take ps (drop (fm_region ps p) (file_write_at (fm_region ps p) (written L ps pg) f))
      = written L ps pg"
    using file_write_at_same [of "written L ps pg"] by simp
  note ok = fm_libD(1) [OF assms(1)]
  show ?thesis
  proof (cases "ph_prev (pg_header pg) = None \<and> ph_next (pg_header pg) = None")
    case True
    then show ?thesis
      using region assms ok from_bytes_page_bytes [OF ok, of ?u ps] verify_stored [OF ok, of ?u ps]
        verify_update_checksum [of ?P pg ps]
      by (simp add: page_at_def fm_norm_def written_def)
  next
    case False
    then have "from_bytes ?P (written L ps pg) = Err (SerializationError ''bincode'')"
      using linked_page_from_bytes [OF ok, of ?u ps] assms(2) by (simp add: written_def)
    then show ?thesis using region False by (auto simp: page_at_def fm_norm_def)
  qed
qed

lemma fm_inv_ready: "fm_inv ps s \<Longrightarrow> fm_ready ps s"
  by (simp add: fm_inv_def)

lemma fm_write_keeps:
  assumes "fm_lib_ok L" "fm_inv ps s" "fm_used s p" "fm_write_page L p pg s = (r, s')"
  shows "fm_inv ps s' \<and> fm_used s' = fm_used s \<and> returns r \<and> fm_header s' = fm_header s \<and>
    (\<forall>q. fm_used s q \<longrightarrow> q \<noteq> p \<longrightarrow> fm_disk L s' q = fm_disk L s q) \<and>
    (r = Ok () \<longrightarrow> fm_disk L s' p = fm_norm L ps pg) \<and> (fm_io s = [] \<longrightarrow> r = Ok () \<and> fm_io s' = [])"
proof -
  have p: "p \<noteq> 0" "fm_region ps p < 2 ^ 64"
    using assms fm_used_region [of ps s p] by (auto simp: fm_used_def)
  obtain k where k: "fm_file s' = file_write_at (fm_region ps p) (take k (written L ps pg)) (fm_file s)"
      "same_fm s (s'\<lparr>fm_file := fm_file s\<rparr>)" "returns r" "r = Ok () \<longrightarrow> ps \<le> k"
      "fm_io s = [] \<longrightarrow> r = Ok ()"
    using fm_write_page_result [OF assms(1) fm_inv_ready [OF assms(2)] p assms(4)] by blast
  have same: "fm_header s' = fm_header s" "fm_page_size s' = ps" "fm_held s' = fm_held s" "26 \<le> ps"
      "fm_io s = [] \<longrightarrow> fm_io s' = []" "fm_page_size s = ps"
    using k(2) assms(2) by (auto simp: same_fm_def fm_inv_def fm_ready_def)
  have "length (fm_file s) \<le> length (fm_file s')" by (simp add: k(1) length_file_write_at)
  then have "fm_inv ps s'" using assms(2) same by (auto simp: fm_inv_def fm_ready_def)
  moreover have "fm_disk L s' q = fm_disk L s q" if "fm_used s q" "q \<noteq> p" for q
    using that fm_used_region(2) [OF assms(2) that(1)] p same
    by (simp add: fm_disk_def k(1) fm_used_def page_at_other)
  moreover have "fm_disk L s' p = fm_norm L ps pg" if "r = Ok ()"
    using that k same page_at_written [OF assms(1) same(4)] by (simp add: fm_disk_def)
  ultimately show ?thesis using k same by (auto simp: fm_used_def fun_eq_iff)
qed

text \<open>The header goes to the first bytes of the file, before every page.\<close>

lemma dh_update_checksum_simps [simp]:
  "dh_total_pages (dh_update_checksum L h) = dh_total_pages h"
  "dh_free_pages (dh_update_checksum L h) = dh_free_pages h"
  "dh_first_free_page (dh_update_checksum L h) = dh_first_free_page h"
  "dh_page_size (dh_update_checksum L h) = dh_page_size h"
  "dh_magic_number (dh_update_checksum L h) = dh_magic_number h"
  "dh_version (dh_update_checksum L h) = dh_version h"
  by (simp_all add: dh_update_checksum_def)

lemma write_header_result:
  assumes "\<not> fm_held s" "write_header L s = (r, s')"
  shows "\<exists>k. fm_file s' = file_write_at 0 (take k (fl_serialize L (fm_header s'))) (fm_file s) \<and>
    fm_header s' = dh_update_checksum L (fm_header s) \<and> fm_page_size s' = fm_page_size s \<and>
    \<not> fm_held s' \<and> returns r \<and> (r = Ok () \<longrightarrow> length (fl_serialize L (fm_header s')) \<le> k) \<and>
    (fm_io s = [] \<longrightarrow> r = Ok () \<and> fm_io s' = [])"
proof -
  let ?h = "dh_update_checksum L (fm_header s)"
  let ?s0 = "s\<lparr>fm_held := True, fm_header := ?h\<rparr>"
  let ?m = "st_bind (io_call (IoError ''seek'')) (\<lambda>_.
            st_bind (io_write_all (IoError ''write'') 0 (fl_serialize L ?h)) (\<lambda>_.
            io_call (IoError ''flush'')))"
  obtain s1 where run: "?m ?s0 = (r, s1)" "s' = s1\<lparr>fm_held := False\<rparr>"
    using assms by (auto simp: write_header_def with_header_free set_header_def Let_def split: prod.splits)
  obtain k where "fm_file s1 = file_write_at 0 (take k (fl_serialize L ?h)) (fm_file ?s0)"
      "same_fm ?s0 (s1\<lparr>fm_file := fm_file ?s0\<rparr>)" "returns r"
      "r = Ok () \<longrightarrow> length (fl_serialize L ?h) \<le> k" "fm_io ?s0 = [] \<longrightarrow> r = Ok ()"
    using write_sequence [OF _ run(1)] by auto
  then show ?thesis using run(2) by (intro exI [of _ k]) (auto simp: same_fm_def)
qed

lemma write_header_prefix:
  assumes "fm_lib_ok L" "\<not> fm_held s" "write_header L s = (Ok (), s')"
  shows "take (length (fl_serialize L (fm_header s'))) (fm_file s') = fl_serialize L (fm_header s')"
proof -
  have "fl_serialize L (fm_header s') \<noteq> []"
    using fm_libD(3) [OF assms(1)] by (metis add_is_0 db_header_width_def list.size(3) zero_neq_numeral)
  then show ?thesis
    using write_header_result [OF assms(2,3)] file_write_at_same [of "fl_serialize L (fm_header s')" 0]
    by auto
qed

lemma page_at_header_write:
  assumes "length bs \<le> 37" "0 < ps" "q \<noteq> 0"
  shows "page_at L ps (file_write_at 0 bs f) q = page_at L ps f q"
  using assms fm_region_header [of ps q] by (simp add: page_at_def file_write_at_after)

text \<open>Appending a page.\<close>

lemma allocate_page_free_list_empty:
  "\<not> fm_held s \<Longrightarrow> dh_first_free_page (fm_header s) = None \<Longrightarrow>
    allocate_page L t s = allocate_at_end L t (s\<lparr>fm_held := True\<rparr>)"
  by (simp add: lock_header_def)

declare allocate_page.simps [simp del]

lemma fm_region_Suc:
  assumes "p \<noteq> 0" "p \<noteq> -1"
  shows "fm_region ps (p + 1) = fm_region ps p + ps"
proof -
  have "1 \<le> unat p" using assms by (simp add: Suc_le_eq unat_gt_0)
  then have "(36 + ps) div ps + unat (p + 1) - 1 = Suc ((36 + ps) div ps + unat p - 1)"
    using assms by (simp add: u64_succ_unat)
  then show ?thesis by (simp add: fm_region_def)
qed

lemma fm_norm_new:
  "\<exists>pg. fm_norm L ps (update_checksum (fl_page L) (Page_new p t ps) ps) = Some pg \<and>
     ph_page_id (pg_header pg) = p \<and> ph_page_type (pg_header pg) = t"
  by (simp add: fm_norm_def stored_page_def) (simp add: Page_new_def)

text \<open>Once the new page is written: the state in front of \<^verbatim>\<open>write_header\<close>.\<close>

lemma write_new_page:
  assumes "fm_lib_ok L" "fm_inv ps s" "fm_room ps s" and p: "p = dh_total_pages (fm_header s)"
    and s1: "s1 = s\<lparr>fm_header := (fm_header s)\<lparr>dh_total_pages := p + 1\<rparr>\<rparr>"
    and "fm_write_page L p pg s1 = (r, s2)"
  shows "returns r" "fm_io s = [] \<Longrightarrow> r = Ok () \<and> fm_io s2 = []"
    "fm_header s2 = fm_header s1" "fm_ready ps s2" "length (fm_file s) \<le> length (fm_file s2)"
    "fm_used s q \<Longrightarrow> fm_disk L s2 q = fm_disk L s q"
    "r = Ok () \<Longrightarrow> fm_inv ps s2 \<and> fm_disk L s2 p = fm_norm L ps pg"
proof -
  have ready: "fm_ready ps s1" and ps: "26 \<le> ps" "fm_page_size s = ps"
    and p0: "p \<noteq> 0" "fm_region ps p < 2 ^ 64" "p \<noteq> -1" "p + 1 \<noteq> 0"
    using assms(2,3) s1 p by (auto simp: fm_inv_def fm_ready_def fm_room_def u64_succ_nonzero)
  obtain k where k: "fm_file s2 = file_write_at (fm_region ps p) (take k (written L ps pg)) (fm_file s1)"
      "same_fm s1 (s2\<lparr>fm_file := fm_file s1\<rparr>)" "returns r" "r = Ok () \<longrightarrow> ps \<le> k"
      "fm_io s1 = [] \<longrightarrow> r = Ok ()"
    using fm_write_page_result [OF assms(1) ready p0(1,2) assms(6)] by blast
  show "returns r" by (rule k)
  show "fm_io s = [] \<Longrightarrow> r = Ok () \<and> fm_io s2 = []"
    using k s1 by (simp add: same_fm_def)
  show h: "fm_header s2 = fm_header s1" using k(2) by (simp add: same_fm_def)
  show r2: "fm_ready ps s2" using k(2) ready by (auto simp: same_fm_def fm_ready_def)
  show len: "length (fm_file s) \<le> length (fm_file s2)" by (simp add: k(1) length_file_write_at s1)
  show "fm_used s q \<Longrightarrow> fm_disk L s2 q = fm_disk L s q"
    using fm_used_region(2) [OF assms(2), of q] p0 k r2 ps s1 p
    by (auto simp: fm_disk_def fm_used_def fm_ready_def page_at_other)
  assume "r = Ok ()"
  then have fl: "fm_file s2 = file_write_at (fm_region ps p) (written L ps pg) (fm_file s)"
    using k s1 by simp
  moreover have "written L ps pg \<noteq> []" using ps by (metis length_written list.size(3) not_numeral_le_zero)
  ultimately have "fm_region ps (p + 1) \<le> length (fm_file s2)"
    using p0 by (simp add: length_file_write_at fm_region_Suc)
  then show "fm_inv ps s2 \<and> fm_disk L s2 p = fm_norm L ps pg"
    using r2 h s1 assms(3) p p0 fl page_at_written [OF assms(1) ps(1)]
    by (simp add: fm_inv_def fm_room_def fm_disk_def fm_ready_def)
qed

lemma write_header_keeps:
  assumes "fm_lib_ok L" "fm_inv ps s" "write_header L s = (r, s')"
  shows "fm_inv ps s' \<and> returns r \<and> fm_used s' = fm_used s \<and> (\<forall>q. q \<noteq> 0 \<longrightarrow> fm_disk L s' q = fm_disk L s q) \<and>
    fm_header s' = dh_update_checksum L (fm_header s) \<and> (fm_io s = [] \<longrightarrow> r = Ok () \<and> fm_io s' = [])"
proof -
  have free: "\<not> fm_held s" "fm_page_size s = ps" "26 \<le> ps" "dh_first_free_page (fm_header s) = None"
    using assms(2) by (auto simp: fm_inv_def fm_ready_def)
  obtain k where k: "fm_file s' = file_write_at 0 (take k (fl_serialize L (fm_header s'))) (fm_file s)"
    "fm_header s' = dh_update_checksum L (fm_header s)" "fm_page_size s' = fm_page_size s" "\<not> fm_held s'"
    "returns r" "fm_io s = [] \<longrightarrow> r = Ok () \<and> fm_io s' = []"
    using write_header_result [OF free(1) assms(3)] by blast
  have "length (take k (fl_serialize L (fm_header s'))) \<le> 37"
    using k(2) free fm_inv_width [OF assms(1), of s'] by simp
  then have "fm_disk L s' q = fm_disk L s q" if "q \<noteq> 0" for q
    using that free k(1,3) by (simp add: fm_disk_def page_at_header_write)
  moreover have "length (fm_file s) \<le> length (fm_file s')" by (simp add: k(1) length_file_write_at)
  ultimately show ?thesis
    using k assms(2) by (auto simp: fm_inv_def fm_ready_def fm_used_def fun_eq_iff)
qed

lemma allocate_page_result:
  assumes "fm_lib_ok L" "fm_inv ps s" "fm_room ps s" "allocate_page L t s = (r, s')"
  shows "fm_inv ps s' \<and> returns r \<and>
    (\<forall>q. fm_used s q \<longrightarrow> fm_used s' q \<and> fm_disk L s' q = fm_disk L s q) \<and>
    (\<forall>p. r = Ok p \<longrightarrow> p = dh_total_pages (fm_header s) \<and> fm_used s' p \<and>
       fm_disk L s' p = fm_norm L ps (update_checksum (fl_page L) (Page_new p t ps) ps) \<and>
       fm_header s' = dh_update_checksum L ((fm_header s)\<lparr>dh_total_pages := p + 1\<rparr>) \<and>
       take 37 (fm_file s') = fl_serialize L (fm_header s')) \<and>
    (fm_io s = [] \<longrightarrow> is_ok r \<and> fm_io s' = [])"
proof -
  let ?p = "dh_total_pages (fm_header s)"
  let ?pg = "update_checksum (fl_page L) (Page_new ?p t ps) ps"
  define s1 where "s1 = s\<lparr>fm_header := (fm_header s)\<lparr>dh_total_pages := ?p + 1\<rparr>\<rparr>"
  have free: "\<not> fm_held s" "fm_page_size s = ps" "dh_first_free_page (fm_header s) = None" "?p \<noteq> 0"
    "?p \<noteq> -1" "?p < ?p + 1"
    using assms(2,3) u64_less_succ by (auto simp: fm_inv_def fm_ready_def fm_room_def)
  obtain r2 s2 where wp: "fm_write_page L ?p ?pg s1 = (r2, s2)" by fastforce
  note w = write_new_page [OF assms(1-3) refl s1_def wp]
  have s1: "s1 = s\<lparr>fm_header := (fm_header s)\<lparr>dh_total_pages := ?p + 1\<rparr>, fm_held := False\<rparr>"
    using free(1) by (simp add: s1_def)
  have used: "fm_used s2 = (\<lambda>q. fm_used s q \<or> q = ?p)"
    using w(3) free by (auto simp: fm_used_def s1_def fun_eq_iff u64_less_succ_iff)
  have run: "(r, s') = st_try (fm_write_page L ?p ?pg)
      (\<lambda>_. st_bind (write_header L) (\<lambda>_. st_return ?p))
      (\<lambda>e. st_bind (with_header (set_header (\<lambda>h. h\<lparr>dh_total_pages := dh_total_pages h - 1\<rparr>)))
             (\<lambda>_. st_fail e)) s1"
    using assms(4) allocate_page_free_list_empty [OF free(1,3), of L t] free(2)
    by (simp add: allocate_at_end_def set_header_def release_header_def Let_def s1)
  show ?thesis
  proof (cases r2)
    case (Ok u)
    obtain r3 s3 where wh: "write_header L s2 = (r3, s3)" by fastforce
    have inv2: "fm_inv ps s2" using w(7) Ok by simp
    note h = write_header_keeps [OF assms(1) inv2 wh]
    have w37: "length (fl_serialize L (fm_header s3)) = 37"
      using h w(3) free by (intro fm_inv_width assms(1)) (simp add: s1_def)
    have "take 37 (fm_file s3) = fl_serialize L (fm_header s3)" if "r3 = Ok ()"
      using write_header_prefix [OF assms(1) _ wh [unfolded that]] inv2 w37
      by (simp add: fm_inv_def fm_ready_def)
    moreover
    have "fm_disk L s3 ?p = fm_norm L ps ?pg" using h w(7) Ok free by simp
    moreover have "fm_disk L s3 q = fm_disk L s q" if "fm_used s q" for q
      using that h w(6) by (simp add: fm_used_def)
    moreover have "(r, s') = (case r3 of Ok _ \<Rightarrow> Ok ?p | _ \<Rightarrow> res_cast r3, s3)"
      using run wp Ok wh by (cases r3) simp_all
    ultimately show ?thesis
      using h w(2,3) used free wh by (cases r3) (auto simp: s1_def)
  next
    case (Err e)
    have "(r, s') = (Err e, s2\<lparr>fm_header := fm_header s\<rparr>)"
      using run wp Err w(3,4)
      by (simp add: with_header_free set_header_def fm_ready_def s1_def)
    then show ?thesis
      using Err w(2,4-6) assms(2)
      by (auto simp: fm_inv_def fm_ready_def fm_used_def fm_disk_def)
  qed (use w(1) in auto)
qed

subsection \<open>The two file managers meet the interface\<close>

locale default_file_manager =
  fixes L :: fm_lib and ps :: nat
  assumes lib: "fm_lib_ok L"

sublocale default_file_manager \<subseteq> fm: file_manager "fm_inv ps" fm_used "fm_room ps" "fm_disk L"
    "fm_norm L ps" "fm_read_page L" "fm_write_page L" "allocate_page L"
proof
  fix s s' p pg t and r :: "Page res" and rw :: "unit res" and ra :: "PageId res"
  assume inv: "fm_inv ps s"
  { assume "fm_used s p"
    then have p: "p \<noteq> 0" "fm_region ps p < 2 ^ 64"
      using fm_used_region(3) [OF inv] by (auto simp: fm_used_def)
    note rd = fm_read_page_result [OF lib fm_inv_ready [OF inv] p]
    note wr = fm_write_keeps [OF lib inv \<open>fm_used s p\<close>]
    show "fm_read_page L p s = (r, s') \<Longrightarrow>
        fm_inv ps s' \<and> fm_disk L s' = fm_disk L s \<and> fm_used s' = fm_used s \<and> returns r"
      using rd inv same_fm_simps by metis
    show "fm_read_page L p s = (Ok pg, s') \<Longrightarrow> fm_disk L s p = Some pg"
      using rd by blast
    show "fm_write_page L p pg s = (rw, s') \<Longrightarrow> fm_inv ps s' \<and> fm_used s' = fm_used s \<and> returns rw \<and>
        (\<forall>q. fm_used s q \<longrightarrow> q \<noteq> p \<longrightarrow> fm_disk L s' q = fm_disk L s q)"
      using wr by blast
    show "fm_write_page L p pg s = (Ok (), s') \<Longrightarrow> fm_disk L s' p = fm_norm L ps pg"
      using wr by blast
  }
  assume room: "fm_room ps s"
  note al = allocate_page_result [OF lib inv room]
  show "allocate_page L t s = (ra, s') \<Longrightarrow> fm_inv ps s' \<and> returns ra \<and>
      (\<forall>q. fm_used s q \<longrightarrow> fm_used s' q \<and> fm_disk L s' q = fm_disk L s q)"
    using al by blast
  show "allocate_page L t s = (Ok p, s') \<Longrightarrow> \<not> fm_used s p \<and> fm_used s' p \<and>
      (\<exists>pg. fm_disk L s' p = Some pg \<and> ph_page_id (pg_header pg) = p \<and> ph_page_type (pg_header pg) = t)"
    using al fm_norm_new [of L ps] by (metis fm_used_def order_less_irrefl)
qed

context default_file_manager
begin

lemma alloc_law:
  assumes "fm_inv ps s" "fm_room ps s" "allocate_page L t s = (r, s')"
  shows "fm_inv ps s' \<and> returns r \<and>
    (\<forall>q. fm_used s q \<longrightarrow> fm_used s' q \<and> fm_disk L s' q = fm_disk L s q) \<and>
    (\<forall>p. r = Ok p \<longrightarrow> \<not> fm_used s p \<and> fm_used s' p \<and>
       (\<exists>pg. fm_disk L s' p = Some pg \<and> ph_page_id (pg_header pg) = p \<and> ph_page_type (pg_header pg) = t))"
  using fm.alloc_keeps [OF assms] fm.alloc_ok [OF assms(1,2)] assms(3) by auto

end

text \<open>The mock keeps every page in memory; its pages are those below the next number.\<close>

definition mock_used :: "MockFileManager \<Rightarrow> PageId \<Rightarrow> bool" where
  "mock_used s p = (p < mk_next_page_id s)"

definition mock_disk :: "MockFileManager \<Rightarrow> PageId \<Rightarrow> Page option" where
  "mock_disk s p = hm_get (mk_pages s) p"

interpretation mock: file_manager "\<lambda>_. True" mock_used "\<lambda>s. mk_next_page_id s \<noteq> -1" mock_disk Some
    mock_read_page mock_write_page mock_allocate_page
  by unfold_locales
    (auto simp: mock_read_page_def mock_write_page_def mock_allocate_page_def mock_used_def
      mock_disk_def Page_new_def Let_def u64_less_succ u64_below_succ fun_eq_iff split: option.splits)

subsection \<open>A library that meets the contract\<close>

type_synonym db_tuple = "(u64 \<times> u32 \<times> u32 \<times> u64 \<times> u64 \<times> u64 option) \<times> u32"

definition db_header_tuple :: "DatabaseHeader \<Rightarrow> db_tuple" where
  "db_header_tuple h = ((dh_magic_number h, dh_version h, dh_page_size h, dh_total_pages h,
     dh_free_pages h, dh_first_free_page h), dh_checksum h)"

definition tuple_db_header :: "db_tuple \<Rightarrow> DatabaseHeader option" where
  "tuple_db_header = (\<lambda>((m, v, ps, t, f, ff), c). Some \<lparr>dh_magic_number = m, dh_version = v,
     dh_page_size = ps, dh_total_pages = t, dh_free_pages = f, dh_first_free_page = ff,
     dh_checksum = c\<rparr>)"

definition db_header_encode :: "DatabaseHeader encoder" where
  "db_header_encode = iso_encode db_header_tuple
     (pair_encode (pair_encode le_encode (pair_encode le_encode (pair_encode le_encode
        (pair_encode le_encode (pair_encode le_encode (option_encode le_encode)))))) le_encode)"

definition db_header_decode :: "DatabaseHeader decoder" where
  "db_header_decode = iso_decode tuple_db_header
     (pair_decode (pair_decode le_decode (pair_decode le_decode (pair_decode le_decode
        (pair_decode le_decode (pair_decode le_decode (option_decode le_decode)))))) le_decode)"

definition le_fm_lib :: fm_lib where
  "le_fm_lib = \<lparr>fl_page = le_page_lib, fl_serialize = db_header_encode,
     fl_deserialize = prefix_value db_header_decode\<rparr>"

lemma tuple_db_header [simp]: "tuple_db_header (db_header_tuple h) = Some h"
  by (simp add: tuple_db_header_def db_header_tuple_def)

lemma db_header_codec: "codec db_header_encode db_header_decode db_header_width"
proof -
  note u64 = u64.codec_axioms and u32 = u32.codec_axioms
  note all = codec_pair [OF codec_pair [OF u64 codec_pair [OF u32 codec_pair [OF u32
    codec_pair [OF u64 codec_pair [OF u64 codec_option [OF u64]]]]]] u32]
  show ?thesis
    using codec_iso [OF all tuple_db_header]
    by (simp add: db_header_encode_def db_header_decode_def db_header_tuple_def [abs_def]
        db_header_width_def [abs_def] add.assoc add.commute)
qed

interpretation db_header: codec db_header_encode db_header_decode db_header_width
  by (rule db_header_codec)

lemma db_header_checksum_last:
  "take (db_header_width h - 4) (db_header_encode (h\<lparr>dh_checksum := c\<rparr>))
     = take (db_header_width h - 4) (db_header_encode h)"
  by (simp add: db_header_encode_def iso_encode_def pair_encode_def db_header_tuple_def
      db_header_width_def option_encode_def opt_size_def split: option.split)

lemma le_fm_lib_ok [simp]: "fm_lib_ok le_fm_lib"
  using db_header.is_bincode db_header_checksum_last
  by (simp add: fm_lib_ok_def le_fm_lib_def)

interpretation le_fm: default_file_manager le_fm_lib 8192
  by unfold_locales simp

subsection \<open>Opening what was written\<close>

lemma dh_crc_checksum:
  assumes "fm_lib_ok L"
  shows "dh_crc L (h\<lparr>dh_checksum := c\<rparr>) = dh_crc L h"
  using fm_libD(3,4) [OF assms] by (simp add: dh_crc_def Let_def db_header_width_def)

lemma dh_verify_update: "fm_lib_ok L \<Longrightarrow> dh_verify L (dh_update_checksum L h)"
  by (simp add: dh_verify_def dh_update_checksum_def dh_crc_checksum)

lemma fm_open_ok:
  assumes "fm_lib_ok L" "dh_verify L h" "dh_magic_number h = 0x5253514C44544142"
    "take n f = fl_serialize L h" "n \<le> 1024"
  shows "\<exists>s. fm_open L f [] = (Ok (), s) \<and> fm_header s = h \<and> fm_page_size s = unat (dh_page_size h) \<and>
    fm_file s = f \<and> fm_io s = [] \<and> \<not> fm_held s"
proof -
  have "take 1024 f = fl_serialize L h @ drop n (take 1024 f)"
    using assms(4,5) append_take_drop_id [of n "take 1024 f"] by (simp add: min_def)
  moreover have "fl_serialize L h \<noteq> []"
    using fm_libD(3) [OF assms(1), of h] by (auto simp: db_header_width_def)
  ultimately have "take 1024 f \<noteq> []" "fl_deserialize L (take 1024 f) = Some h"
    using fm_libD(2) [OF assms(1)] by (metis append_is_Nil_conv)+
  then show ?thesis
    using assms(2,3)
    by (simp add: fm_open_def io_call_def next_io_def read_header_def io_read_def DatabaseHeader_new_def)
qed

lemma fm_create_ok:
  assumes "fm_lib_ok L" "26 \<le> unat ps"
  shows "\<exists>s. fm_create L ps [] = (Ok (), s) \<and> fm_inv (unat ps) s \<and> fm_io s = [] \<and>
    fm_header s = dh_update_checksum L (dh_update_checksum L (DatabaseHeader_new ps)) \<and>
    take 37 (fm_file s) = fl_serialize L (fm_header s)"
proof -
  define s0 where "s0 = \<lparr>fm_file = [], fm_header = dh_update_checksum L (DatabaseHeader_new ps),
        fm_page_size = unat ps, fm_held = False, fm_io = []\<rparr>"
  obtain r s where wh: "write_header L s0 = (r, s)" by fastforce
  have s0: "\<not> fm_held s0" "fm_io s0 = []" "fm_page_size s0 = unat ps"
      "fm_header s0 = dh_update_checksum L (DatabaseHeader_new ps)"
    by (simp_all add: s0_def)
  have len: "unat ps < 2 ^ 32" using unsigned_less [of ps] by simp
  have "fm_region (unat ps) 1 = (36 + unat ps) div unat ps * unat ps"
    by (simp add: fm_region_def)
  also have "\<dots> \<le> 36 + unat ps" by simp
  finally have reg: "fm_region (unat ps) 1 < 2 ^ 64" using len by simp
  have res: "fm_create L ps [] = (r, s)"
    using wh by (simp add: fm_create_def io_call_def next_io_def s0_def)
  from write_header_result [OF s0(1) wh] have
    facts: "fm_header s = dh_update_checksum L (fm_header s0)" "fm_page_size s = unat ps" "\<not> fm_held s"
      "r = Ok ()" "fm_io s = []"
    using s0 by auto
  then have "fm_inv (unat ps) s"
    using reg assms(2) by (simp add: fm_inv_def fm_ready_def s0(4) DatabaseHeader_new_def)
  moreover have "length (fl_serialize L (fm_header s)) = 37"
    using assms(1) facts(1) by (intro fm_inv_width) (simp_all add: s0(4) DatabaseHeader_new_def)
  then have "take 37 (fm_file s) = fl_serialize L (fm_header s)"
    using write_header_prefix [OF assms(1) s0(1), of s] wh facts(4) by simp
  ultimately show ?thesis using res facts s0(4) by auto
qed

lemma fm_create_room:
  assumes "fm_inv (unat (ps :: u32)) s"
    and h: "fm_header s = dh_update_checksum L (dh_update_checksum L (DatabaseHeader_new ps))"
  shows "fm_room (unat ps) s"
proof -
  have "fm_region (unat ps) 2 = fm_region (unat ps) 1 + unat ps"
    using fm_region_Suc [of 1 "unat ps"] by simp
  moreover have "fm_region (unat ps) 1 \<le> 36 + unat ps"
    by (simp add: fm_region_def)
  moreover have "unat ps < 2 ^ 32" using unsigned_less [of ps, where 'a = nat] by simp
  ultimately have "fm_region (unat ps) 2 < 2 ^ 64" by simp
  then show ?thesis by (simp add: fm_room_def h DatabaseHeader_new_def)
qed

lemma create_allocate:
  assumes "fm_lib_ok L" "26 \<le> unat (ps :: u32)"
  shows "fm_inv (unat ps) (snd (fm_create L ps []))" "fm_room (unat ps) (snd (fm_create L ps []))"
    "fm_inv (unat ps) (snd (allocate_page L t (snd (fm_create L ps []))))"
    "fm_used (snd (allocate_page L t (snd (fm_create L ps [])))) 1"
    "fm_io (snd (allocate_page L t (snd (fm_create L ps [])))) = []"
proof -
  obtain s where s: "fm_create L ps [] = (Ok (), s)" "fm_inv (unat ps) s" "fm_io s = []"
    "fm_header s = dh_update_checksum L (dh_update_checksum L (DatabaseHeader_new ps))"
    using fm_create_ok [OF assms] by auto
  note room = fm_create_room [OF s(2,4)]
  obtain r s' where al: "allocate_page L t s = (r, s')" by fastforce
  note res = allocate_page_result [OF assms(1) s(2) room al]
  then obtain p where "r = Ok p" using s(3) by (auto simp: is_ok_iff)
  moreover from this have "p = 1" using res s(4) by (simp add: DatabaseHeader_new_def)
  ultimately show "fm_inv (unat ps) (snd (fm_create L ps []))" "fm_room (unat ps) (snd (fm_create L ps []))"
    "fm_inv (unat ps) (snd (allocate_page L t (snd (fm_create L ps []))))"
    "fm_used (snd (allocate_page L t (snd (fm_create L ps [])))) 1"
    "fm_io (snd (allocate_page L t (snd (fm_create L ps [])))) = []"
    using res s al room by auto
qed

subsection \<open>Properties\<close>

text \<open>
  Read after write on the database file. In a database without free pages, and while the
  operating system reports no error, writing a page without links to an allocated page number
  succeeds, reading that number then returns the page with its new checksum and its data cut to the
  room behind the header, and every other allocated page that could be read before is read with the
  same contents.
\<close>

theorem file_read_after_write:
  assumes "fm_lib_ok L" "fm_inv ps s" "fm_used s p" "fm_io s = []"
    "ph_prev (pg_header pg) = None" "ph_next (pg_header pg) = None"
  shows "\<exists>s1. fm_write_page L p pg s = (Ok (), s1) \<and>
    (\<exists>s2. fm_read_page L p s1 =
       (Ok (stored_page (fl_page L) (update_checksum (fl_page L) pg ps) ps), s2)) \<and>
    (\<forall>q pg'. fm_used s q \<and> q \<noteq> p \<and> fst (fm_read_page L q s) = Ok pg' \<longrightarrow>
       fst (fm_read_page L q s1) = Ok pg')"
proof -
  obtain r s1 where w: "fm_write_page L p pg s = (r, s1)" by fastforce
  note k = fm_write_keeps [OF assms(1-3) w]
  have inv1: "fm_inv ps s1" and io: "fm_io s1 = []" and r: "r = Ok ()" using k assms(4) by auto
  have rd: "fst (fm_read_page L q s') = Ok pg' \<longleftrightarrow> fm_disk L s' q = Some pg'"
    if "fm_inv ps s'" "fm_io s' = []" "fm_used s' q" for q pg' s'
  proof -
    have "q \<noteq> 0" "fm_region ps q < 2 ^ 64"
      using that fm_used_region(3) [OF that(1,3)] by (auto simp: fm_used_def)
    from fm_read_page_result [OF assms(1) fm_inv_ready [OF that(1)] this]
    show ?thesis using that(2) by (metis prod.collapse)
  qed
  have "fst (fm_read_page L p s1) = Ok (stored_page (fl_page L) (update_checksum (fl_page L) pg ps) ps)"
    using rd [OF inv1 io, of p] k assms r by (simp add: fm_norm_def)
  moreover have "fst (fm_read_page L q s1) = Ok pg'"
    if "fm_used s q" "q \<noteq> p" "fst (fm_read_page L q s) = Ok pg'" for q pg'
    using that rd [OF inv1 io, of q] rd [OF assms(2,4), of q] k by metis
  ultimately show ?thesis using w r by (metis prod.collapse)
qed

theorem file_read_after_write_witness:
  "let s = snd (allocate_page le_fm_lib DataPage (snd (fm_create le_fm_lib 64 [])));
       pg = (Page_new 1 DataPage 64)\<lparr>pg_data := [1, 2, 3]\<rparr>
   in \<exists>s1. fm_write_page le_fm_lib 1 pg s = (Ok (), s1) \<and>
        (\<exists>s2. fm_read_page le_fm_lib 1 s1 =
           (Ok (stored_page le_page_lib (update_checksum le_page_lib pg 64) 64), s2))"
proof -
  let ?s = "snd (allocate_page le_fm_lib DataPage (snd (fm_create le_fm_lib 64 [])))"
  have "fm_inv 64 ?s" "fm_used ?s 1" "fm_io ?s = []"
    using create_allocate [OF le_fm_lib_ok, of 64] by simp_all
  from file_read_after_write [OF le_fm_lib_ok this, of "(Page_new 1 DataPage 64)\<lparr>pg_data := [1, 2, 3]\<rparr>"]
  show ?thesis by (auto simp: Let_def Page_new_def le_fm_lib_def)
qed

text \<open>
  A database that was created and whose pages were then allocated can be opened again. Creating
  a file with any page size that holds a header succeeds, and after one more allocation of any type,
  opening the resulting bytes gives the header, the page count included, and the page size back.
\<close>

theorem create_allocate_open:
  assumes "fm_lib_ok L" "26 \<le> unat ps" "fm_create L ps [] = (r, s)" "allocate_page L t s = (r', s')"
  shows "r = Ok () \<and> r' = Ok 1 \<and>
    (\<exists>s''. fm_open L (fm_file s') [] = (Ok (), s'') \<and> fm_header s'' = fm_header s' \<and>
       dh_total_pages (fm_header s'') = 2 \<and> fm_page_size s'' = unat ps)"
proof -
  have inv: "fm_inv (unat ps) s" "fm_io s = []" and r: "r = Ok ()"
    and h: "fm_header s = dh_update_checksum L (dh_update_checksum L (DatabaseHeader_new ps))"
    using fm_create_ok [OF assms(1,2)] assms(3) by auto
  note room = fm_create_room [OF inv(1) h]
  note al = allocate_page_result [OF assms(1) inv(1) room assms(4)]
  then obtain p where p: "r' = Ok p" using inv(2) by (auto simp: is_ok_iff)
  then have total: "p = 1" "fm_header s' = dh_update_checksum L ((fm_header s)\<lparr>dh_total_pages := 2\<rparr>)"
      "take 37 (fm_file s') = fl_serialize L (fm_header s')"
    using al by (auto simp: h DatabaseHeader_new_def)
  from fm_open_ok [OF assms(1) _ _ total(3)]
  show ?thesis
    using r p total h dh_verify_update [OF assms(1), of "(fm_header s)\<lparr>dh_total_pages := 2\<rparr>"]
    by (auto simp: DatabaseHeader_new_def)
qed

theorem create_allocate_open_witness:
  "fst (fm_create le_fm_lib 8192 []) = Ok () \<and>
   fst (allocate_page le_fm_lib DataPage (snd (fm_create le_fm_lib 8192 []))) = Ok 1"
  using create_allocate_open [OF le_fm_lib_ok, of 8192 "fst (fm_create le_fm_lib 8192 [])"
      "snd (fm_create le_fm_lib 8192 [])" DataPage
      "fst (allocate_page le_fm_lib DataPage (snd (fm_create le_fm_lib 8192 [])))"
      "snd (allocate_page le_fm_lib DataPage (snd (fm_create le_fm_lib 8192 [])))"] by simp

text \<open>
  Freeing a page never returns. \<^verbatim>\<open>deallocate_page\<close> still holds the mutex of the header when it calls
  \<^verbatim>\<open>read_page\<close>, which locks it again: for every page number below the page count, whatever the file
  holds, the call deadlocks. Likewise an allocation in a database whose free list is not empty.
\<close>

theorem free_list_deadlocks:
  assumes "\<not> fm_held s"
  shows "(p < dh_total_pages (fm_header s) \<longrightarrow> fst (deallocate_page L p s) = Deadlock) \<and>
    (dh_first_free_page (fm_header s) \<noteq> None \<longrightarrow> fst (allocate_page L t s) = Deadlock)"
proof -
  have "fm_read_page L q (s\<lparr>fm_held := True\<rparr>) = (Deadlock, s\<lparr>fm_held := True\<rparr>)" for q
    by (simp add: fm_read_page_def page_offset_def with_header_held)
  then show ?thesis
    using assms by (auto simp: deallocate_page_def allocate_page.simps lock_header_def Let_def)
qed

theorem free_list_deadlocks_witness:
  "fst (deallocate_page le_fm_lib 1 \<lparr>fm_file = [], fm_header = (DatabaseHeader_new 64)\<lparr>dh_total_pages := 2\<rparr>,
      fm_page_size = 64, fm_held = False, fm_io = []\<rparr>) = Deadlock"
  using free_list_deadlocks [of "\<lparr>fm_file = [], fm_header = (DatabaseHeader_new 64)\<lparr>dh_total_pages := 2\<rparr>,
      fm_page_size = 64, fm_held = False, fm_io = []\<rparr>" 1 le_fm_lib] by simp

text \<open>
  Allocation is safe under failures of the operating system. Whatever calls fail, and however
  much of a failing write reached the file, \<^verbatim>\<open>allocate_page\<close> returns, the database stays well formed
  and every page that was allocated before keeps its contents. When it succeeds, it returns a page
  number not in use so far, under which a page with that number and the requested type can be read.
\<close>

theorem allocate_page_safe:
  assumes "fm_lib_ok L" "fm_inv ps s" "fm_room ps s" "allocate_page L t s = (r, s')"
  shows "returns r \<and> fm_inv ps s' \<and>
    (\<forall>q. fm_used s q \<longrightarrow> fm_used s' q \<and> fm_disk L s' q = fm_disk L s q) \<and>
    (\<forall>p. r = Ok p \<longrightarrow> \<not> fm_used s p \<and> fm_used s' p \<and>
       (\<exists>pg. fm_disk L s' p = Some pg \<and> ph_page_id (pg_header pg) = p \<and> ph_page_type (pg_header pg) = t))"
proof -
  have fm: "default_file_manager L" using assms(1) by unfold_locales
  show ?thesis
    using default_file_manager.alloc_law [OF fm assms(2-4)] by blast
qed

theorem allocate_page_safe_witness:
  "let s = (snd (fm_create le_fm_lib 64 []))\<lparr>fm_io := [IoDone, IoFail 5]\<rparr>
   in returns (fst (allocate_page le_fm_lib DataPage s)) \<and>
      fm_inv 64 (snd (allocate_page le_fm_lib DataPage s))"
proof -
  let ?s = "(snd (fm_create le_fm_lib 64 []))\<lparr>fm_io := [IoDone, IoFail 5]\<rparr>"
  have "fm_inv 64 ?s" "fm_room 64 ?s"
    using create_allocate(1,2) [OF le_fm_lib_ok, of 64]
    by (simp_all add: fm_inv_def fm_ready_def fm_room_def)
  from allocate_page_safe [OF le_fm_lib_ok this, of DataPage] show ?thesis
    by (metis prod.collapse)
qed

end
