(* ===== verification/Buffer_Pool.thy ===== *)
theory Buffer_Pool
  imports File_Manager
begin

section \<open>The buffer pool (\<^verbatim>\<open>src/src/storage/buffer.rs\<close>)\<close>

text \<open>
  The pool holds frames, the two maps between page numbers and frame indices and the LRU list. A
  page in memory is an \<^verbatim>\<open>Arc<Mutex<Page>>\<close> that its holders share and change in place, so the model
  has an explicit store \<open>bp_heap\<close>: an \<^verbatim>\<open>Arc\<close> is an index into it. The file manager is any
  implementation of the trait, a record of operations over its own state.

  The lemmas are proved once, in the locale \<open>buffer_pool\<close>, for every file manager that meets the
  interface of \<^verbatim>\<open>File_Manager\<close>, and hold for \<^verbatim>\<open>DefaultFileManager\<close> and for the mock: the pool is
  transparent, that is, a fetch returns the current contents of the page, from memory or disk, and
  changes the contents of no page.
\<close>

subsection \<open>Data\<close>

record BufferFrame =
  bf_page :: "nat option"
  bf_page_id :: "PageId option"
  bf_pin_count :: u32
  bf_dirty :: bool
  bf_lru_index :: "nat option"

record 'fm BufferPoolManager =
  bp_frames :: "BufferFrame list"
  bp_lru_list :: "PageId list"
  bp_page_to_frame :: "(PageId, nat) hmap"
  bp_frame_to_page :: "(nat, PageId) hmap"
  bp_heap :: "Page list"
  bp_file_manager :: 'fm

record 'fm fm_ops =
  op_read_page :: "PageId \<Rightarrow> ('fm, Page) op"
  op_write_page :: "PageId \<Rightarrow> Page \<Rightarrow> ('fm, unit) op"
  op_allocate_page :: "PageType \<Rightarrow> ('fm, PageId) op"
  op_deallocate_page :: "PageId \<Rightarrow> ('fm, unit) op"
  op_page_size :: "'fm \<Rightarrow> nat"

type_synonym ('fm, 'a) bp_op = "('fm BufferPoolManager, 'a) op"

definition mock_ops :: "MockFileManager fm_ops" where
  "mock_ops = \<lparr>op_read_page = mock_read_page, op_write_page = mock_write_page,
     op_allocate_page = mock_allocate_page, op_deallocate_page = mock_deallocate_page,
     op_page_size = (\<lambda>_. 8192)\<rparr>"

definition default_ops :: "fm_lib \<Rightarrow> DefaultFileManager fm_ops" where
  "default_ops L = \<lparr>op_read_page = fm_read_page L, op_write_page = fm_write_page L,
     op_allocate_page = allocate_page L, op_deallocate_page = deallocate_page L,
     op_page_size = fm_page_size\<rparr>"

subsection \<open>Frames\<close>

definition BufferFrame_new :: BufferFrame where
  "BufferFrame_new = \<lparr>bf_page = None, bf_page_id = None, bf_pin_count = 0, bf_dirty = False,
     bf_lru_index = None\<rparr>"

definition pin :: "BufferFrame \<Rightarrow> BufferFrame" where
  "pin f = f\<lparr>bf_pin_count := bf_pin_count f + 1\<rparr>"

definition unpin :: "BufferFrame \<Rightarrow> unit res \<times> BufferFrame" where
  "unpin f =
     (if bf_pin_count f = 0 then (Err (InternalError ''Attempt to unpin page with pin_count = 0''), f)
      else (Ok (), f\<lparr>bf_pin_count := bf_pin_count f - 1\<rparr>))"

definition is_evictable :: "BufferFrame \<Rightarrow> bool" where
  "is_evictable f = (bf_pin_count f = 0)"

subsection \<open>The pool\<close>

definition BufferPoolManager_new :: "nat \<Rightarrow> 'fm \<Rightarrow> 'fm BufferPoolManager" where
  "BufferPoolManager_new capacity fm =
     \<lparr>bp_frames = replicate capacity BufferFrame_new, bp_lru_list = [], bp_page_to_frame = [],
      bp_frame_to_page = [], bp_heap = [], bp_file_manager = fm\<rparr>"

definition bp_capacity :: "'fm BufferPoolManager \<Rightarrow> nat" where
  "bp_capacity s = length (bp_frames s)"

definition bp_size :: "'fm BufferPoolManager \<Rightarrow> nat" where
  "bp_size s = length (bp_page_to_frame s)"

fun first_empty :: "BufferFrame list \<Rightarrow> nat option" where
  "first_empty [] = None"
| "first_empty (f # fs) = (if bf_page_id f = None then Some 0 else map_option Suc (first_empty fs))"

text \<open>The eviction loop: the least recently used page whose frame is not pinned; every page in front
  of it leaves the list.\<close>

fun evict_lru :: "BufferFrame list \<Rightarrow> (PageId, nat) hmap \<Rightarrow> PageId list \<Rightarrow> nat res \<times> PageId list" where
  "evict_lru frames m [] = (Err (StorageError ''No available buffer frames''), [])"
| "evict_lru frames m (p # ps) =
     (case hm_get m p of
        None \<Rightarrow> evict_lru frames m ps
      | Some i \<Rightarrow>
          if length frames \<le> i then (Panic ''index out of bounds'', p # ps)
          else if is_evictable (frames ! i) then (Ok i, ps) else evict_lru frames m ps)"

definition find_available_frame :: "('fm, nat) bp_op" where
  "find_available_frame s =
     (case first_empty (bp_frames s) of
        Some i \<Rightarrow> (Ok i, s)
      | None \<Rightarrow> (case evict_lru (bp_frames s) (bp_page_to_frame s) (bp_lru_list s) of
            (r, lru) \<Rightarrow> (r, s\<lparr>bp_lru_list := lru\<rparr>)))"

definition update_lru :: "PageId \<Rightarrow> 'fm BufferPoolManager \<Rightarrow> 'fm BufferPoolManager" where
  "update_lru page_id s =
     s\<lparr>bp_lru_list := filter (\<lambda>p. p \<noteq> page_id) (bp_lru_list s) @ [page_id]\<rparr>"

definition set_frame :: "nat \<Rightarrow> BufferFrame \<Rightarrow> 'fm BufferPoolManager \<Rightarrow> 'fm BufferPoolManager" where
  "set_frame i f s = s\<lparr>bp_frames := (bp_frames s)[i := f]\<rparr>"

definition with_fm :: "('fm, 'a) op \<Rightarrow> ('fm, 'a) bp_op" where
  "with_fm m s = (case m (bp_file_manager s) of (r, fm) \<Rightarrow> (r, s\<lparr>bp_file_manager := fm\<rparr>))"

subsection \<open>Operations of the manager\<close>

definition write_back :: "'fm fm_ops \<Rightarrow> BufferFrame \<Rightarrow> ('fm, unit) bp_op" where
  "write_back F f s =
     (if bf_dirty f
      then (case (bf_page_id f, bf_page f) of
              (Some old_page_id, Some old_page) \<Rightarrow>
                with_fm (op_write_page F old_page_id (bp_heap s ! old_page)) s
            | _ \<Rightarrow> (Ok (), s))
      else (Ok (), s))"

definition remap :: "nat \<Rightarrow> BufferFrame \<Rightarrow> PageId \<Rightarrow> 'fm BufferPoolManager \<Rightarrow> 'fm BufferPoolManager" where
  "remap i f page_id s =
     (let p2f = (case bf_page_id f of Some old \<Rightarrow> hm_remove old (bp_page_to_frame s)
                                     | None \<Rightarrow> bp_page_to_frame s);
          f2p = (case bf_page_id f of Some old \<Rightarrow> hm_remove i (bp_frame_to_page s)
                                     | None \<Rightarrow> bp_frame_to_page s)
      in s\<lparr>bp_page_to_frame := hm_insert page_id i p2f, bp_frame_to_page := hm_insert i page_id f2p\<rparr>)"

definition load_frame :: "nat \<Rightarrow> BufferFrame \<Rightarrow> PageId \<Rightarrow> Page \<Rightarrow> ('fm, nat) bp_op" where
  "load_frame i f page_id page s =
     (let page_arc = length (bp_heap s)
      in (Ok page_arc,
          update_lru page_id (set_frame i
            ((pin (f\<lparr>bf_page := Some page_arc, bf_page_id := Some page_id\<rparr>))\<lparr>bf_dirty := False\<rparr>)
            (s\<lparr>bp_heap := bp_heap s @ [page]\<rparr>))))"

definition fetch_miss :: "'fm fm_ops \<Rightarrow> PageId \<Rightarrow> ('fm, nat) bp_op" where
  "fetch_miss F page_id =
     st_bind find_available_frame (\<lambda>i s.
       (let f = bp_frames s ! i
        in st_bind (write_back F f) (\<lambda>_.
           st_bind (st_update (remap i f page_id)) (\<lambda>_.
           st_bind (with_fm (op_read_page F page_id)) (\<lambda>page.
           load_frame i f page_id page))) s))"

definition fetch_page :: "'fm fm_ops \<Rightarrow> PageId \<Rightarrow> ('fm, nat) bp_op" where
  "fetch_page F page_id s =
     (case hm_get (bp_page_to_frame s) page_id of
        None \<Rightarrow> fetch_miss F page_id s
      | Some i \<Rightarrow>
          if length (bp_frames s) \<le> i then (Panic ''index out of bounds'', s)
          else (let f = bp_frames s ! i; s1 = update_lru page_id (set_frame i (pin f) s)
                in case bf_page f of Some page \<Rightarrow> (Ok page, s1) | None \<Rightarrow> fetch_miss F page_id s1))"

definition unpin_page :: "PageId \<Rightarrow> bool \<Rightarrow> ('fm, unit) bp_op" where
  "unpin_page page_id dirty s =
     (case hm_get (bp_page_to_frame s) page_id of
        None \<Rightarrow> (Err (PageNotFound page_id), s)
      | Some i \<Rightarrow>
          if length (bp_frames s) \<le> i then (Panic ''index out of bounds'', s)
          else (case unpin (bp_frames s ! i) of
                  (Ok _, f) \<Rightarrow> (Ok (), set_frame i (f\<lparr>bf_dirty := bf_dirty f \<or> dirty\<rparr>) s)
                | (r, f) \<Rightarrow> (r, s)))"

fun flush_frames :: "'fm fm_ops \<Rightarrow> (nat \<times> PageId) list \<Rightarrow> ('fm, unit) bp_op" where
  "flush_frames F [] s = (Ok (), s)"
| "flush_frames F ((i, page_id) # rest) s =
     (if length (bp_frames s) \<le> i then (Panic ''index out of bounds'', s)
      else let f = bp_frames s ! i
           in case bf_page f of
                Some page \<Rightarrow>
                  if bf_dirty f
                  then st_bind (with_fm (op_write_page F page_id (bp_heap s ! page)))
                         (\<lambda>_. flush_frames F rest) s
                  else flush_frames F rest s
              | None \<Rightarrow> flush_frames F rest s)"

definition flush_all_pages :: "'fm fm_ops \<Rightarrow> ('fm, unit) bp_op" where
  "flush_all_pages F s = flush_frames F (bp_frame_to_page s) s"

definition new_page :: "'fm fm_ops \<Rightarrow> PageType \<Rightarrow> ('fm, PageId) bp_op" where
  "new_page F page_type =
     st_bind (with_fm (op_allocate_page F page_type)) (\<lambda>page_id.
     st_bind (fetch_page F page_id) (\<lambda>_. st_return page_id))"

definition delete_page :: "'fm fm_ops \<Rightarrow> PageId \<Rightarrow> ('fm, unit) bp_op" where
  "delete_page F page_id s =
     (case hm_get (bp_page_to_frame s) page_id of
        None \<Rightarrow> with_fm (op_deallocate_page F page_id) s
      | Some i \<Rightarrow>
          if length (bp_frames s) \<le> i then (Panic ''index out of bounds'', s)
          else with_fm (op_deallocate_page F page_id)
            (s\<lparr>bp_page_to_frame := hm_remove page_id (bp_page_to_frame s),
               bp_frame_to_page := hm_remove i (bp_frame_to_page s),
               bp_frames := (bp_frames s)[i := (bp_frames s ! i)\<lparr>bf_page := None, bf_page_id := None,
                                                bf_dirty := False, bf_pin_count := 0\<rparr>]\<rparr>))"

definition bp_page_size :: "'fm fm_ops \<Rightarrow> 'fm BufferPoolManager \<Rightarrow> nat" where
  "bp_page_size F s = op_page_size F (bp_file_manager s)"

text \<open>What a holder of the \<^verbatim>\<open>Arc\<close> does: lock it and store a new page.\<close>

definition arc_write :: "nat \<Rightarrow> Page \<Rightarrow> 'fm BufferPoolManager \<Rightarrow> 'fm BufferPoolManager" where
  "arc_write a page s = s\<lparr>bp_heap := (bp_heap s)[a := page]\<rparr>"

subsection \<open>Contents of a page and the invariant\<close>

definition bp_view ::
    "('fm \<Rightarrow> PageId \<Rightarrow> Page option) \<Rightarrow> 'fm BufferPoolManager \<Rightarrow> PageId \<Rightarrow> Page option" where
  "bp_view disk s p =
     (case hm_get (bp_page_to_frame s) p of
        None \<Rightarrow> disk (bp_file_manager s) p
      | Some i \<Rightarrow> map_option (\<lambda>a. bp_heap s ! a) (bf_page (bp_frames s ! i)))"

definition frame_ok ::
    "('fm \<Rightarrow> PageId \<Rightarrow> Page option) \<Rightarrow> 'fm BufferPoolManager \<Rightarrow> nat \<Rightarrow> PageId \<Rightarrow> bool" where
  "frame_ok disk s i p \<longleftrightarrow> (\<exists>a. bf_page (bp_frames s ! i) = Some a \<and> a < length (bp_heap s) \<and>
     (bf_dirty (bp_frames s ! i) \<or> bf_pin_count (bp_frames s ! i) \<noteq> 0 \<or>
      disk (bp_file_manager s) p = Some (bp_heap s ! a)))"

definition bp_inv ::
    "('fm \<Rightarrow> bool) \<Rightarrow> ('fm \<Rightarrow> PageId \<Rightarrow> bool) \<Rightarrow> ('fm \<Rightarrow> PageId \<Rightarrow> Page option) \<Rightarrow>
     'fm BufferPoolManager \<Rightarrow> bool" where
  "bp_inv I used disk s \<longleftrightarrow>
     I (bp_file_manager s) \<and>
     (\<forall>p i. hm_get (bp_page_to_frame s) p = Some i \<longrightarrow>
        i < length (bp_frames s) \<and> bf_page_id (bp_frames s ! i) = Some p \<and>
        used (bp_file_manager s) p \<and> frame_ok disk s i p) \<and>
     (\<forall>i p. i < length (bp_frames s) \<longrightarrow> bf_page_id (bp_frames s ! i) = Some p \<longrightarrow>
        hm_get (bp_page_to_frame s) p = Some i) \<and>
     (\<forall>i. i < length (bp_frames s) \<longrightarrow> bf_page_id (bp_frames s ! i) = None \<longrightarrow>
        bf_pin_count (bp_frames s ! i) = 0) \<and>
     (\<forall>i j. i < length (bp_frames s) \<longrightarrow> j < length (bp_frames s) \<longrightarrow>
        bf_page_id (bp_frames s ! i) \<noteq> None \<longrightarrow> bf_page (bp_frames s ! i) = bf_page (bp_frames s ! j) \<longrightarrow>
        bf_page_id (bp_frames s ! j) \<noteq> None \<longrightarrow> i = j) \<and>
     hm_wf (bp_frame_to_page s) \<and>
     (\<forall>i p. hm_get (bp_frame_to_page s) i = Some p \<longleftrightarrow> hm_get (bp_page_to_frame s) p = Some i)"

subsection \<open>Lemmas: the invariant\<close>

lemma bp_invD:
  assumes "bp_inv I used disk s"
  shows "I (bp_file_manager s)"
    "hm_get (bp_page_to_frame s) p = Some i \<Longrightarrow> i < length (bp_frames s)"
    "hm_get (bp_page_to_frame s) p = Some i \<Longrightarrow> bf_page_id (bp_frames s ! i) = Some p"
    "hm_get (bp_page_to_frame s) p = Some i \<Longrightarrow> used (bp_file_manager s) p"
    "hm_get (bp_page_to_frame s) p = Some i \<Longrightarrow> frame_ok disk s i p"
    "i < length (bp_frames s) \<Longrightarrow> bf_page_id (bp_frames s ! i) = Some p \<Longrightarrow>
       hm_get (bp_page_to_frame s) p = Some i"
    "i < length (bp_frames s) \<Longrightarrow> bf_page_id (bp_frames s ! i) = None \<Longrightarrow>
       bf_pin_count (bp_frames s ! i) = 0"
    "i < length (bp_frames s) \<Longrightarrow> j < length (bp_frames s) \<Longrightarrow> bf_page_id (bp_frames s ! i) \<noteq> None \<Longrightarrow>
       bf_page_id (bp_frames s ! j) \<noteq> None \<Longrightarrow> bf_page (bp_frames s ! i) = bf_page (bp_frames s ! j) \<Longrightarrow>
       i = j"
    "hm_wf (bp_frame_to_page s)"
    "hm_get (bp_frame_to_page s) i = Some p \<longleftrightarrow> hm_get (bp_page_to_frame s) p = Some i"
  using assms unfolding bp_inv_def by - (elim conjE, blast)+

lemma bp_invI:
  assumes "I (bp_file_manager s)"
    "\<And>p i. hm_get (bp_page_to_frame s) p = Some i \<Longrightarrow> i < length (bp_frames s) \<and>
       bf_page_id (bp_frames s ! i) = Some p \<and> used (bp_file_manager s) p \<and> frame_ok disk s i p"
    "\<And>i p. i < length (bp_frames s) \<Longrightarrow> bf_page_id (bp_frames s ! i) = Some p \<Longrightarrow>
       hm_get (bp_page_to_frame s) p = Some i"
    "\<And>i. i < length (bp_frames s) \<Longrightarrow> bf_page_id (bp_frames s ! i) = None \<Longrightarrow>
       bf_pin_count (bp_frames s ! i) = 0"
    "\<And>i j. i < length (bp_frames s) \<Longrightarrow> j < length (bp_frames s) \<Longrightarrow>
       bf_page_id (bp_frames s ! i) \<noteq> None \<Longrightarrow> bf_page_id (bp_frames s ! j) \<noteq> None \<Longrightarrow>
       bf_page (bp_frames s ! i) = bf_page (bp_frames s ! j) \<Longrightarrow> i = j"
    "hm_wf (bp_frame_to_page s)"
    "\<And>i p. hm_get (bp_frame_to_page s) i = Some p \<longleftrightarrow> hm_get (bp_page_to_frame s) p = Some i"
  shows "bp_inv I used disk s"
  unfolding bp_inv_def using assms by blast

lemma frame_okD:
  "frame_ok disk s i p \<Longrightarrow> \<exists>a. bf_page (bp_frames s ! i) = Some a \<and> a < length (bp_heap s)"
  by (auto simp: frame_ok_def)

lemma bp_inv_new: "I fm \<Longrightarrow> bp_inv I used disk (BufferPoolManager_new n fm)"
  by (simp add: bp_inv_def BufferPoolManager_new_def BufferFrame_new_def)

lemma bp_inv_lru [simp]: "bp_inv I used disk (s\<lparr>bp_lru_list := l\<rparr>) = bp_inv I used disk s"
  by (simp add: bp_inv_def frame_ok_def)

lemma update_lru_simps [simp]:
  "bp_inv I used disk (update_lru p s) = bp_inv I used disk s"
  "bp_view disk (update_lru p s) = bp_view disk s"
  "bp_frames (update_lru p s) = bp_frames s" "bp_heap (update_lru p s) = bp_heap s"
  "bp_page_to_frame (update_lru p s) = bp_page_to_frame s"
  "bp_frame_to_page (update_lru p s) = bp_frame_to_page s"
  "bp_file_manager (update_lru p s) = bp_file_manager s"
  by (auto simp: update_lru_def fun_eq_iff bp_view_def split: option.splits)

text \<open>A frame that changes only its pin count and dirty flag.\<close>

lemma bp_inv_set_frame:
  assumes inv: "bp_inv I used disk s" and i: "hm_get (bp_page_to_frame s) p = Some i"
    and f: "bf_page f = bf_page (bp_frames s ! i)" "bf_page_id f = bf_page_id (bp_frames s ! i)"
      "bf_dirty f \<or> bf_pin_count f \<noteq> 0 \<or> bp_view disk s p = disk (bp_file_manager s) p"
  shows "bp_inv I used disk (set_frame i f s)" "bp_view disk (set_frame i f s) q = bp_view disk s q"
proof -
  let ?s = "set_frame i f s"
  note D = bp_invD [OF inv]
  have len: "i < length (bp_frames s)" "bf_page_id (bp_frames s ! i) = Some p"
    using D(2) [OF i] D(3) [OF i] by auto
  have same: "bf_page (bp_frames ?s ! j) = bf_page (bp_frames s ! j)"
    "bf_page_id (bp_frames ?s ! j) = bf_page_id (bp_frames s ! j)" for j
    using len(1) f(1,2) by (cases "j = i"; simp add: set_frame_def)+
  have fok: "frame_ok disk ?s j q" if "hm_get (bp_page_to_frame s) q = Some j" for j q
  proof (cases "j = i")
    case True
    then have "q = p" using D(3) [OF that] len by simp
    then show ?thesis
      using True f(1,3) i len frame_okD [OF D(5) [OF i]]
      by (auto simp: frame_ok_def set_frame_def bp_view_def)
  next
    case False
    then show ?thesis using D(5) [OF that] by (simp add: frame_ok_def set_frame_def)
  qed
  have pin0: "bf_pin_count (bp_frames ?s ! j) = 0"
    if "j < length (bp_frames s)" "bf_page_id (bp_frames s ! j) = None" for j
    using that len D(7) [of j] by (auto simp: set_frame_def nth_list_update)
  have rest: "bp_heap ?s = bp_heap s" "bp_page_to_frame ?s = bp_page_to_frame s"
      "bp_file_manager ?s = bp_file_manager s" "length (bp_frames ?s) = length (bp_frames s)"
      "bp_frame_to_page ?s = bp_frame_to_page s"
    by (simp_all add: set_frame_def)
  show "bp_inv I used disk ?s"
  proof (rule bp_invI, unfold rest same, goal_cases)
    case (2 q j)
    then show ?case using D(2-4) fok by blast
  qed (fact D(1) pin0 D(6-10))+
  show "bp_view disk ?s q = bp_view disk s q"
    using same rest by (auto simp: bp_view_def split: option.split)
qed

text \<open>The frame that will take a page: empty, or unpinned.\<close>

lemma first_empty_Some:
  "first_empty fs = Some i \<Longrightarrow> i < length fs \<and> bf_page_id (fs ! i) = None"
  by (induction fs arbitrary: i) (auto split: if_splits)

lemma evict_lru_result:
  assumes "\<And>p i. hm_get m p = Some i \<Longrightarrow> i < length fs" and "evict_lru fs m ps = (r, lru)"
  shows "returns r \<and> (\<forall>i. r = Ok i \<longrightarrow> i < length fs \<and> bf_pin_count (fs ! i) = 0)"
  using assms(2)
proof (induction ps)
  case (Cons p ps)
  then show ?case
    using assms(1) by (fastforce simp: is_evictable_def split: option.splits if_splits)
qed auto

lemma find_available_frame_result:
  assumes "bp_inv I used disk s" "find_available_frame s = (r, s')"
  shows "(\<exists>lru. s' = s\<lparr>bp_lru_list := lru\<rparr>) \<and> returns r \<and>
    (\<forall>i. r = Ok i \<longrightarrow> i < length (bp_frames s) \<and> bf_pin_count (bp_frames s ! i) = 0)"
proof (cases "first_empty (bp_frames s)")
  case None
  then show ?thesis
    using assms(2) evict_lru_result [of "bp_page_to_frame s" "bp_frames s"] bp_invD(2) [OF assms(1)]
    by (fastforce simp: find_available_frame_def split: prod.splits)
next
  case (Some i)
  then have "s' = s\<lparr>bp_lru_list := bp_lru_list s\<rparr>"
    using assms(2) by (simp add: find_available_frame_def)
  then show ?thesis
    using Some assms first_empty_Some [OF Some] bp_invD(7) [OF assms(1)]
    by (auto simp: find_available_frame_def intro!: exI [of _ "bp_lru_list s"])
qed

subsection \<open>Lemmas: loading a page\<close>

text \<open>The state after a miss: frame \<open>i\<close>, which was empty or unpinned, holds page \<open>p\<close> under a new
  address, and the file manager is in the state \<open>fm\<close>.\<close>

definition loaded ::
    "nat \<Rightarrow> PageId \<Rightarrow> Page \<Rightarrow> 'fm \<Rightarrow> 'fm BufferPoolManager \<Rightarrow> 'fm BufferPoolManager" where
  "loaded i p pg fm s =
     snd (load_frame i (bp_frames s ! i) p pg ((remap i (bp_frames s ! i) p s)\<lparr>bp_file_manager := fm\<rparr>))"

lemma remap_fm:
  "remap i f p (s\<lparr>bp_file_manager := fm\<rparr>) = (remap i f p s)\<lparr>bp_file_manager := fm\<rparr>"
  "bp_file_manager (remap i f p s) = bp_file_manager s"
  by (auto simp: remap_def Let_def split: option.splits)

lemma loaded_simps:
  "bp_frames (loaded i p pg fm s) = (bp_frames s)[i := (bp_frames s ! i)\<lparr>bf_page := Some (length (bp_heap s)),
     bf_page_id := Some p, bf_pin_count := bf_pin_count (bp_frames s ! i) + 1, bf_dirty := False\<rparr>]"
  "bp_heap (loaded i p pg fm s) = bp_heap s @ [pg]" "bp_file_manager (loaded i p pg fm s) = fm"
  by (simp_all add: loaded_def load_frame_def remap_def set_frame_def pin_def Let_def)

lemma loaded_maps:
  assumes "bp_inv I used disk s" "hm_get (bp_page_to_frame s) p = None" "i < length (bp_frames s)"
  shows "hm_get (bp_page_to_frame (loaded i p pg fm s)) q =
      (if q = p then Some i else if bf_page_id (bp_frames s ! i) = Some q then None
       else hm_get (bp_page_to_frame s) q)"
    "hm_get (bp_frame_to_page (loaded i p pg fm s)) j =
      (if j = i then Some p else hm_get (bp_frame_to_page s) j)"
    "hm_wf (bp_frame_to_page (loaded i p pg fm s))"
  using bp_invD(9) [OF assms(1)]
  by (auto simp: loaded_def load_frame_def remap_def set_frame_def Let_def split: option.splits)

lemma loaded_inv:
  assumes inv: "bp_inv I used disk s" and p: "hm_get (bp_page_to_frame s) p = None"
    and i: "i < length (bp_frames s)" "bf_pin_count (bp_frames s ! i) = 0"
    and fm: "I fm" "used fm = used (bp_file_manager s)" "used fm p" "disk fm p = Some pg"
      "\<And>q. used fm q \<Longrightarrow> bf_page_id (bp_frames s ! i) \<noteq> Some q \<Longrightarrow> disk fm q = disk (bp_file_manager s) q"
  shows "bp_inv I used disk (loaded i p pg fm s)"
proof -
  let ?s = "loaded i p pg fm s"
  note D = bp_invD [OF inv] and M = loaded_maps [OF inv p i(1), of pg fm] and L = loaded_simps
  have other: "j \<noteq> i" if "hm_get (bp_page_to_frame s) q = Some j" "bf_page_id (bp_frames s ! i) \<noteq> Some q" for q j
    using D(3) [OF that(1)] that(2) by auto
  have addr: "bf_page (bp_frames s ! j) \<noteq> Some (length (bp_heap s))"
    if "j < length (bp_frames s)" "bf_page_id (bp_frames s ! j) = Some q" for j q
    using frame_okD [OF D(5) [OF D(6) [OF that]]] by auto
  have fok: "frame_ok disk ?s j q" if "hm_get (bp_page_to_frame s) q = Some j"
    "bf_page_id (bp_frames s ! i) \<noteq> Some q" for q j
    using D(5) [OF that(1)] other [OF that] fm(2,5) D(4) [OF that(1)] that(2)
    by (auto simp: frame_ok_def L nth_append)
  have new: "frame_ok disk ?s i p" using i fm(4) by (simp add: frame_ok_def L)
  show ?thesis
  proof (rule bp_invI, goal_cases)
    case 1 then show ?case by (simp add: L fm)
  next
    case (2 q j)
    show ?case
    proof (cases "q = p")
      case True
      then show ?thesis using 2 i fm new by (auto simp: M L)
    next
      case False
      then have q: "hm_get (bp_page_to_frame s) q = Some j" "bf_page_id (bp_frames s ! i) \<noteq> Some q"
        using 2 by (auto simp: M split: if_splits)
      then show ?thesis
        using D(2-4) [OF q(1)] fok [OF q] other [OF q] fm(2) by (auto simp: L)
    qed
  next
    case (3 j q)
    show ?case
    proof (cases "j = i")
      case True
      then have "q = p" using 3 i by (simp add: L)
      then show ?thesis using True M(1) [of p] by simp
    next
      case False
      then have j: "j < length (bp_frames s)" "bf_page_id (bp_frames s ! j) = Some q"
        using 3 by (auto simp: L)
      then have "hm_get (bp_page_to_frame s) q = Some j" by (rule D(6))
      moreover have "bf_page_id (bp_frames s ! i) \<noteq> Some q" "q \<noteq> p"
        using calculation False D(6) [OF i(1), of q] p by auto
      ultimately show ?thesis by (simp add: M)
    qed
  next
    case (4 j)
    then show ?case using D(7) [of j] i by (cases "j = i") (auto simp: L)
  next
    case (5 j k)
    then show ?case
      using D(8) [of j k] addr [of j] addr [of k] i by (cases "j = i"; cases "k = i") (auto simp: L)
  next
    case 6 then show ?case by (rule M)
  next
    case (7 j q)
    then show ?case
      using D(10) [of j q] D(3) [of q j] D(6) [OF i(1), of q] p by (auto simp: M)
  qed
qed

subsection \<open>The pool over any file manager\<close>

locale buffer_pool =
  file_manager I used room disk norm "op_read_page F" "op_write_page F" "op_allocate_page F"
  for I :: "'s \<Rightarrow> bool" and used and room and disk and norm and F :: "'s fm_ops"
begin

abbreviation binv where "binv \<equiv> bp_inv I used disk"
abbreviation view where "view \<equiv> bp_view disk"

text \<open>Writing a frame back changes the disk for its page alone.\<close>

lemma write_back_result:
  assumes "binv s" "i < length (bp_frames s)" "write_back F (bp_frames s ! i) s = (r, s')"
  shows "\<exists>fm. s' = s\<lparr>bp_file_manager := fm\<rparr> \<and> returns r \<and> I fm \<and> used fm = used (bp_file_manager s) \<and>
    (\<forall>q. used fm q \<longrightarrow> bf_page_id (bp_frames s ! i) \<noteq> Some q \<longrightarrow> disk fm q = disk (bp_file_manager s) q) \<and>
    (\<forall>q. r = Ok () \<longrightarrow> bf_page_id (bp_frames s ! i) = Some q \<longrightarrow> disk fm q =
      (if bf_dirty (bp_frames s ! i) then Option.bind (view s q) norm else disk (bp_file_manager s) q))"
proof (cases "bf_page_id (bp_frames s ! i)")
  case None
  then show ?thesis
    using assms bp_invD(1) [OF assms(1)]
    by (auto simp: write_back_def intro!: exI [of _ "bp_file_manager s"] split: if_splits)
next
  case (Some q)
  have m: "hm_get (bp_page_to_frame s) q = Some i" by (rule bp_invD(6) [OF assms(1,2) Some])
  obtain a where a: "bf_page (bp_frames s ! i) = Some a"
    using frame_okD [OF bp_invD(5) [OF assms(1) m]] by blast
  have v: "view s q = Some (bp_heap s ! a)" using m a by (simp add: bp_view_def)
  note I = bp_invD(1) [OF assms(1)] and u = bp_invD(4) [OF assms(1) m]
  show ?thesis
  proof (cases "bf_dirty (bp_frames s ! i)")
    case False
    then show ?thesis
      using assms I Some by (auto simp: write_back_def intro!: exI [of _ "bp_file_manager s"])
  next
    case True
    obtain rw fm where w: "op_write_page F q (bp_heap s ! a) (bp_file_manager s) = (rw, fm)" by fastforce
    then have "r = rw" "s' = s\<lparr>bp_file_manager := fm\<rparr>"
      using assms(3) True Some a by (auto simp: write_back_def with_fm_def)
    then show ?thesis
      using write_keeps [OF I u w] write_ok [OF I u, of "bp_heap s ! a" fm] w Some True v
      by (intro exI [of _ fm]) auto
  qed
qed

text \<open>A miss: on success the page of the disk is loaded.\<close>

lemma fetch_miss_result:
  assumes inv: "binv s" and p: "hm_get (bp_page_to_frame s) p = None" "used (bp_file_manager s) p"
    and run: "fetch_miss F p s = (Ok a, s')"
  shows "\<exists>i pg fm s1 lru. i < length (bp_frames s) \<and> bf_pin_count (bp_frames s ! i) = 0 \<and>
    s1 = s\<lparr>bp_lru_list := lru\<rparr> \<and> s' = loaded i p pg fm s1 \<and> a = length (bp_heap s) \<and>
    I fm \<and> used fm = used (bp_file_manager s) \<and> disk fm p = Some pg \<and> disk (bp_file_manager s) p = Some pg \<and>
    (\<forall>q. used fm q \<longrightarrow> bf_page_id (bp_frames s ! i) \<noteq> Some q \<longrightarrow> disk fm q = disk (bp_file_manager s) q) \<and>
    (\<forall>q. bf_page_id (bp_frames s ! i) = Some q \<longrightarrow> disk fm q =
      (if bf_dirty (bp_frames s ! i) then Option.bind (view s q) norm else disk (bp_file_manager s) q))"
proof -
  from run obtain i s1 where find: "find_available_frame s = (Ok i, s1)"
    and rest: "st_bind (write_back F (bp_frames s1 ! i)) (\<lambda>_.
       st_bind (st_update (remap i (bp_frames s1 ! i) p)) (\<lambda>_.
       st_bind (with_fm (op_read_page F p)) (\<lambda>page.
       load_frame i (bp_frames s1 ! i) p page))) s1 = (Ok a, s')"
    by (auto simp: fetch_miss_def st_bind_Ok_iff Let_def)
  obtain lru where s1: "s1 = s\<lparr>bp_lru_list := lru\<rparr>" and i: "i < length (bp_frames s)"
    "bf_pin_count (bp_frames s ! i) = 0"
    using find_available_frame_result [OF inv find] by auto
  have fr: "bp_frames s1 ! i = bp_frames s ! i" "view s1 = view s" "bp_file_manager s1 = bp_file_manager s"
    by (auto simp: s1 bp_view_def fun_eq_iff split: option.splits)
  have inv1: "binv s1" using inv s1 by simp
  from rest obtain s2 where wb: "write_back F (bp_frames s1 ! i) s1 = (Ok (), s2)"
    and rd: "st_bind (with_fm (op_read_page F p)) (load_frame i (bp_frames s1 ! i) p)
      (remap i (bp_frames s1 ! i) p s2) = (Ok a, s')"
    by (auto simp: st_bind_Ok_iff)
  obtain fm where fm: "s2 = s1\<lparr>bp_file_manager := fm\<rparr>" "I fm" "used fm = used (bp_file_manager s)"
    "\<And>q. used fm q \<Longrightarrow> bf_page_id (bp_frames s ! i) \<noteq> Some q \<Longrightarrow> disk fm q = disk (bp_file_manager s) q"
    "\<And>q. bf_page_id (bp_frames s ! i) = Some q \<Longrightarrow> disk fm q =
      (if bf_dirty (bp_frames s ! i) then Option.bind (view s q) norm else disk (bp_file_manager s) q)"
    using write_back_result [OF inv1 _ wb] i(1) fr s1 by auto
  obtain pg fm2 where r: "op_read_page F p fm = (Ok pg, fm2)"
    and l: "load_frame i (bp_frames s1 ! i) p pg ((remap i (bp_frames s1 ! i) p s1)\<lparr>bp_file_manager := fm2\<rparr>) = (Ok a, s')"
    using rd fm(1) by (auto simp: st_bind_Ok_iff with_fm_def remap_fm split: prod.splits)
  have up: "used fm p" using fm(3) p(2) by simp
  have d: "disk fm p = Some pg" by (rule read_ok [OF fm(2) up r])
  have keep: "I fm2" "disk fm2 = disk fm" "used fm2 = used fm"
    using read_keeps [OF fm(2) up r] by auto
  have "bf_page_id (bp_frames s ! i) \<noteq> Some p"
    using bp_invD(6) [OF inv i(1), of p] p(1) by auto
  then have "disk (bp_file_manager s) p = Some pg" using fm(4) [OF up] d by simp
  moreover have "s' = loaded i p pg fm2 s1" "a = length (bp_heap s)"
    using l s1 by (auto simp: loaded_def load_frame_def remap_def Let_def)
  ultimately show ?thesis
    using i s1 keep d fm by (intro exI [of _ i] exI [of _ pg] exI [of _ fm2] exI [of _ s1]) auto
qed

text \<open>The pool is transparent.\<close>

lemma fetch_page_transparent:
  assumes inv: "binv s" and u: "used (bp_file_manager s) p"
    and pins: "\<And>i. i < length (bp_frames s) \<Longrightarrow> bf_pin_count (bp_frames s ! i) \<noteq> -1"
    and run: "fetch_page F p s = (Ok a, s')"
  shows "binv s'" "a < length (bp_heap s')" "view s p = Some (bp_heap s' ! a)"
    "\<exists>i. hm_get (bp_page_to_frame s') p = Some i \<and> bf_page (bp_frames s' ! i) = Some a \<and>
       bf_pin_count (bp_frames s' ! i) \<noteq> 0"
    "used (bp_file_manager s) q \<Longrightarrow> view s' q = view s q \<or>
       (\<exists>i. hm_get (bp_page_to_frame s) q = Some i \<and> bf_dirty (bp_frames s ! i)) \<and>
       hm_get (bp_page_to_frame s') q = None \<and> view s' q = Option.bind (view s q) norm"
proof -
  have "binv s' \<and> a < length (bp_heap s') \<and> view s p = Some (bp_heap s' ! a) \<and>
    (\<exists>i. hm_get (bp_page_to_frame s') p = Some i \<and> bf_page (bp_frames s' ! i) = Some a \<and>
       bf_pin_count (bp_frames s' ! i) \<noteq> 0) \<and>
    (\<forall>q. used (bp_file_manager s) q \<longrightarrow> view s' q = view s q \<or>
       (\<exists>i. hm_get (bp_page_to_frame s) q = Some i \<and> bf_dirty (bp_frames s ! i)) \<and>
       hm_get (bp_page_to_frame s') q = None \<and> view s' q = Option.bind (view s q) norm)"
  proof (cases "hm_get (bp_page_to_frame s) p")
    case (Some i)
    have i: "i < length (bp_frames s)" by (rule bp_invD(2) [OF inv Some])
    obtain b where b: "bf_page (bp_frames s ! i) = Some b" "b < length (bp_heap s)"
      using frame_okD [OF bp_invD(5) [OF inv Some]] by auto
    have pin: "bf_pin_count (bp_frames s ! i) + 1 \<noteq> 0"
      using pins [OF i] by (simp add: eq_neg_iff_add_eq_0)
    have s': "s' = update_lru p (set_frame i (pin (bp_frames s ! i)) s)" "a = b"
      using run Some i b by (auto simp: fetch_page_def Let_def)
    note set = bp_inv_set_frame [OF inv Some, of "pin (bp_frames s ! i)"]
    have "binv (set_frame i (pin (bp_frames s ! i)) s)"
      "\<And>q. view (set_frame i (pin (bp_frames s ! i)) s) q = view s q"
      using set pin by (simp_all add: pin_def)
    then show ?thesis
      using s' Some i b pin by (auto simp: bp_view_def set_frame_def pin_def)
  next
    case None
    have "fetch_miss F p s = (Ok a, s')" using run None by (simp add: fetch_page_def)
    from fetch_miss_result [OF inv None u this]
    obtain i pg fm s1 lru where i: "i < length (bp_frames s)" "bf_pin_count (bp_frames s ! i) = 0"
      and s1: "s1 = s\<lparr>bp_lru_list := lru\<rparr>" and s': "s' = loaded i p pg fm s1" and a: "a = length (bp_heap s)"
      and fm: "I fm" "used fm = used (bp_file_manager s)" "disk fm p = Some pg"
        "disk (bp_file_manager s) p = Some pg"
      and other: "\<And>q. used fm q \<Longrightarrow> bf_page_id (bp_frames s ! i) \<noteq> Some q \<Longrightarrow>
          disk fm q = disk (bp_file_manager s) q"
      and old: "\<And>q. bf_page_id (bp_frames s ! i) = Some q \<Longrightarrow> disk fm q =
          (if bf_dirty (bp_frames s ! i) then Option.bind (view s q) norm else disk (bp_file_manager s) q)"
      by blast
    have inv1: "binv s1" and none1: "hm_get (bp_page_to_frame s1) p = None"
      and i1: "i < length (bp_frames s1)" using inv s1 None i by auto
    have "binv s'"
      unfolding s' by (rule loaded_inv [OF inv1 none1 i1]) (use i fm other u s1 in auto)
    moreover have "a < length (bp_heap s') \<and> view s p = Some (bp_heap s' ! a)"
      using None fm s1 by (simp add: s' a loaded_simps bp_view_def)
    moreover note M = loaded_maps [OF inv1 none1 i1, of pg fm]
    have "hm_get (bp_page_to_frame s') p = Some i \<and> bf_page (bp_frames s' ! i) = Some a \<and>
       bf_pin_count (bp_frames s' ! i) \<noteq> 0"
      using M(1) [of p] i s1 by (simp add: s' a loaded_simps)
    moreover have "view s' q = view s q \<or>
       (\<exists>i. hm_get (bp_page_to_frame s) q = Some i \<and> bf_dirty (bp_frames s ! i)) \<and>
       hm_get (bp_page_to_frame s') q = None \<and> view s' q = Option.bind (view s q) norm"
      if uq: "used (bp_file_manager s) q" for q
    proof (cases "q = p")
      case True
      then show ?thesis using M(1) [of p] i s1 None fm by (simp add: s' a loaded_simps bp_view_def)
    next
      case qp: False
      show ?thesis
      proof (cases "bf_page_id (bp_frames s ! i) = Some q")
        case True
        have m: "hm_get (bp_page_to_frame s) q = Some i" by (rule bp_invD(6) [OF inv i(1) True])
        have gone: "hm_get (bp_page_to_frame s') q = None" using M(1) [of q] qp True s1 by (simp add: s')
        have "bf_dirty (bp_frames s ! i) \<or> view s q = disk (bp_file_manager s) q"
          using bp_invD(5) [OF inv m] i m by (auto simp: frame_ok_def bp_view_def)
        then show ?thesis
          using old [OF True] gone m by (auto simp: bp_view_def s' loaded_simps split: if_splits)
      next
        case False
        then have m: "hm_get (bp_page_to_frame s') q = hm_get (bp_page_to_frame s) q"
          using M(1) [of q] qp s1 by (simp add: s')
        show ?thesis
        proof (cases "hm_get (bp_page_to_frame s) q")
          case None
          then show ?thesis
            using m other [of q] uq fm(2) False by (simp add: bp_view_def s' loaded_simps)
        next
          case (Some j)
          then have "j \<noteq> i" using bp_invD(3) [OF inv Some] False by auto
          moreover obtain b where "bf_page (bp_frames s ! j) = Some b" "b < length (bp_heap s)"
            using frame_okD [OF bp_invD(5) [OF inv Some]] by auto
          ultimately show ?thesis
            using m Some s1 by (simp add: bp_view_def s' loaded_simps nth_append)
        qed
      qed
    qed
    ultimately show ?thesis by blast
  qed
  then show "binv s'" "a < length (bp_heap s')" "view s p = Some (bp_heap s' ! a)"
    "\<exists>i. hm_get (bp_page_to_frame s') p = Some i \<and> bf_page (bp_frames s' ! i) = Some a \<and>
       bf_pin_count (bp_frames s' ! i) \<noteq> 0"
    "used (bp_file_manager s) q \<Longrightarrow> view s' q = view s q \<or>
       (\<exists>i. hm_get (bp_page_to_frame s) q = Some i \<and> bf_dirty (bp_frames s ! i)) \<and>
       hm_get (bp_page_to_frame s') q = None \<and> view s' q = Option.bind (view s q) norm"
    by blast+
qed

text \<open>Changing a page that is pinned, and giving it back.\<close>

lemma arc_write_result:
  assumes inv: "binv s" and m: "hm_get (bp_page_to_frame s) p = Some i" "bf_page (bp_frames s ! i) = Some a"
    and pin: "bf_pin_count (bp_frames s ! i) \<noteq> 0"
  shows "binv (arc_write a pg s)" "view (arc_write a pg s) q = (if q = p then Some pg else view s q)"
proof -
  let ?s = "arc_write a pg s"
  note D = bp_invD [OF inv]
  have rest: "bp_frames ?s = bp_frames s" "bp_page_to_frame ?s = bp_page_to_frame s"
      "bp_frame_to_page ?s = bp_frame_to_page s" "bp_file_manager ?s = bp_file_manager s"
    by (simp_all add: arc_write_def)
  have a: "a < length (bp_heap s)" using frame_okD [OF D(5) [OF m(1)]] m(2) by simp
  have addr: "bf_page (bp_frames s ! j) \<noteq> Some a" if "hm_get (bp_page_to_frame s) q = Some j" "q \<noteq> p" for q j
  proof -
    have "j \<noteq> i" using D(3) [OF that(1)] D(3) [OF m(1)] that(2) by auto
    then show ?thesis
      using D(8) [OF D(2) [OF that(1)] D(2) [OF m(1)]] D(3) [OF that(1)] D(3) [OF m(1)] m(2) by auto
  qed
  have fok: "frame_ok disk ?s j q" if mq: "hm_get (bp_page_to_frame s) q = Some j" for q j
  proof (cases "q = p")
    case True
    then show ?thesis using mq m pin a by (simp add: frame_ok_def arc_write_def)
  next
    case False
    then show ?thesis
      using D(5) [OF mq] addr [OF mq False] by (auto simp: frame_ok_def arc_write_def nth_list_update)
  qed
  show "binv ?s"
  proof (rule bp_invI, unfold rest, goal_cases)
    case (2 q j)
    then show ?case using D(2-4) fok by blast
  qed (fact D(1) D(6-10))+
  show "view ?s q = (if q = p then Some pg else view s q)"
  proof (cases "q = p")
    case True
    then show ?thesis using m a by (simp add: bp_view_def arc_write_def)
  next
    case False
    show ?thesis
    proof (cases "hm_get (bp_page_to_frame s) q")
      case None
      then show ?thesis using False by (simp add: bp_view_def arc_write_def)
    next
      case (Some j)
      obtain b where "bf_page (bp_frames s ! j) = Some b" using frame_okD [OF D(5) [OF Some]] by blast
      then show ?thesis
        using False Some addr [OF Some False] by (auto simp: bp_view_def arc_write_def)
    qed
  qed
qed

lemma unpin_page_result:
  assumes inv: "binv s" and m: "hm_get (bp_page_to_frame s) p = Some i"
    and pin: "bf_pin_count (bp_frames s ! i) \<noteq> 0"
    and clean: "dirty \<or> bf_dirty (bp_frames s ! i) \<or> bf_pin_count (bp_frames s ! i) \<noteq> 1 \<or>
      view s p = disk (bp_file_manager s) p"
  shows "\<exists>s'. unpin_page p dirty s = (Ok (), s') \<and> binv s' \<and> (\<forall>q. view s' q = view s q) \<and>
    bp_file_manager s' = bp_file_manager s \<and> hm_get (bp_page_to_frame s') p = Some i \<and>
    bf_dirty (bp_frames s' ! i) = (bf_dirty (bp_frames s ! i) \<or> dirty)"
proof -
  let ?f = "bp_frames s ! i"
  let ?g = "?f\<lparr>bf_pin_count := bf_pin_count ?f - 1, bf_dirty := bf_dirty ?f \<or> dirty\<rparr>"
  have i: "i < length (bp_frames s)" by (rule bp_invD(2) [OF inv m])
  have "binv (set_frame i ?g s)" "\<And>q. view (set_frame i ?g s) q = view s q"
    using bp_inv_set_frame [OF inv m, of ?g] clean by auto
  moreover have "unpin_page p dirty s = (Ok (), set_frame i ?g s)"
    using m i pin by (simp add: unpin_page_def unpin_def)
  ultimately show ?thesis using m i by (simp add: set_frame_def)
qed

text \<open>Flushing: every dirty page in the pool reaches the disk.\<close>

lemma binv_fm:
  assumes inv: "binv s" and "I fm" "used fm = used (bp_file_manager s)"
    and "\<And>q i. hm_get (bp_page_to_frame s) q = Some i \<Longrightarrow> \<not> bf_dirty (bp_frames s ! i) \<Longrightarrow>
      disk fm q = disk (bp_file_manager s) q"
  shows "binv (s\<lparr>bp_file_manager := fm\<rparr>)" "hm_get (bp_page_to_frame s) q = Some i \<Longrightarrow>
    view (s\<lparr>bp_file_manager := fm\<rparr>) q = view s q"
proof -
  let ?s = "s\<lparr>bp_file_manager := fm\<rparr>"
  note D = bp_invD [OF inv]
  have fok: "frame_ok disk ?s j q" if mq: "hm_get (bp_page_to_frame s) q = Some j" for q j
    using D(5) [OF mq] assms(4) [OF mq] by (cases "bf_dirty (bp_frames s ! j)") (simp_all add: frame_ok_def)
  have rest: "bp_frames ?s = bp_frames s" "bp_page_to_frame ?s = bp_page_to_frame s"
      "bp_frame_to_page ?s = bp_frame_to_page s" "bp_file_manager ?s = fm"
    by simp_all
  show "binv ?s"
  proof (rule bp_invI, unfold rest, goal_cases)
    case (2 q j)
    then show ?case using D(2-4) fok assms(3) by simp
  qed (fact assms(2) D(6-10))+
  show "hm_get (bp_page_to_frame s) q = Some i \<Longrightarrow> view ?s q = view s q"
    by (simp add: bp_view_def)
qed

lemma flush_frames_result:
  assumes "binv s" "set l \<subseteq> set (bp_frame_to_page s)" "flush_frames F l s = (r, s')"
  shows "\<exists>fm. s' = s\<lparr>bp_file_manager := fm\<rparr> \<and> returns r \<and> binv s' \<and>
    (\<forall>q. used (bp_file_manager s) q \<longrightarrow> q \<notin> snd ` set l \<longrightarrow> disk fm q = disk (bp_file_manager s) q) \<and>
    (r = Ok () \<longrightarrow> (\<forall>i q. (i, q) \<in> set l \<longrightarrow> disk fm q =
      (if bf_dirty (bp_frames s ! i) then Option.bind (view s q) norm else disk (bp_file_manager s) q)))"
  using assms
proof (induction l arbitrary: s)
  case Nil
  then show ?case by (auto intro!: exI [of _ "bp_file_manager s"])
next
  case (Cons x l)
  obtain i p where x: "x = (i, p)" by force
  note inv = Cons.prems(1) and D = bp_invD [OF Cons.prems(1)]
  have f2p: "(j, q) \<in> set (bp_frame_to_page s) \<Longrightarrow> hm_get (bp_page_to_frame s) q = Some j" for j q
    using hm_get_iff [OF D(9)] D(10) by blast
  have m: "hm_get (bp_page_to_frame s) p = Some i" using f2p Cons.prems(2) x by simp
  have i: "i < length (bp_frames s)" by (rule D(2) [OF m])
  obtain a where a: "bf_page (bp_frames s ! i) = Some a" using frame_okD [OF D(5) [OF m]] by blast
  have v: "view s p = Some (bp_heap s ! a)" using m a by (simp add: bp_view_def)
  show ?case
  proof (cases "bf_dirty (bp_frames s ! i)")
    case False
    then have "flush_frames F l s = (r, s')" using Cons.prems(3) x i a by simp
    from Cons.IH [OF inv _ this] obtain fm where fm: "s' = s\<lparr>bp_file_manager := fm\<rparr>" "returns r" "binv s'"
      "\<forall>q. used (bp_file_manager s) q \<longrightarrow> q \<notin> snd ` set l \<longrightarrow> disk fm q = disk (bp_file_manager s) q"
      "r = Ok () \<longrightarrow> (\<forall>i q. (i, q) \<in> set l \<longrightarrow> disk fm q =
        (if bf_dirty (bp_frames s ! i) then Option.bind (view s q) norm else disk (bp_file_manager s) q))"
      using Cons.prems(2) by auto
    have "disk fm p = disk (bp_file_manager s) p" if "r = Ok ()"
    proof (cases "p \<in> snd ` set l")
      case True
      then obtain j where "(j, p) \<in> set l" by force
      moreover have "j = i" using f2p [of j p] m calculation Cons.prems(2) by auto
      ultimately show ?thesis using fm(5) that False by auto
    qed (use fm(4) D(4) [OF m] in auto)
    then show ?thesis using fm x False by (intro exI [of _ fm]) auto
  next
    case True
    obtain rw fm1 where w: "op_write_page F p (bp_heap s ! a) (bp_file_manager s) = (rw, fm1)" by fastforce
    note k = write_keeps [OF D(1) D(4) [OF m] w]
    have other: "disk fm1 q = disk (bp_file_manager s) q" if "used (bp_file_manager s) q" "q \<noteq> p" for q
      using k that by blast
    let ?s1 = "s\<lparr>bp_file_manager := fm1\<rparr>"
    have inv1: "binv ?s1"
    proof (rule binv_fm [OF inv])
      fix q j assume mq: "hm_get (bp_page_to_frame s) q = Some j" "\<not> bf_dirty (bp_frames s ! j)"
      then have "q \<noteq> p" using m True by auto
      then show "disk fm1 q = disk (bp_file_manager s) q" using other D(4) [OF mq(1)] by blast
    qed (use k in auto)
    have run: "(r, s') = (if rw = Ok () then flush_frames F l ?s1 else (rw, ?s1))"
      using Cons.prems(3) x i a True w k
      by (cases rw) (auto simp: with_fm_def)
    show ?thesis
    proof (cases "rw = Ok ()")
      case False
      then show ?thesis using run k inv1 other x by (intro exI [of _ fm1]) auto
    next
      case ok: True
      have vs: "hm_get (bp_page_to_frame s) q = Some j \<Longrightarrow> view ?s1 q = view s q" for q j
        by (simp add: bp_view_def)
      have dp: "disk fm1 p = Option.bind (view s p) norm"
        using write_ok [OF D(1) D(4) [OF m], of "bp_heap s ! a" fm1] w ok v by simp
      have "flush_frames F l ?s1 = (r, s')" using run ok by simp
      from Cons.IH [OF inv1 _ this] obtain fm where fm: "s' = ?s1\<lparr>bp_file_manager := fm\<rparr>" "returns r" "binv s'"
        "\<forall>q. used fm1 q \<longrightarrow> q \<notin> snd ` set l \<longrightarrow> disk fm q = disk fm1 q"
        "r = Ok () \<longrightarrow> (\<forall>i q. (i, q) \<in> set l \<longrightarrow> disk fm q =
          (if bf_dirty (bp_frames s ! i) then Option.bind (view ?s1 q) norm else disk fm1 q))"
        using Cons.prems(2) by auto
      have tail: "disk fm q = (if bf_dirty (bp_frames s ! j) then Option.bind (view s q) norm
            else disk (bp_file_manager s) q)" if "r = Ok ()" "(j, q) \<in> set l" for j q
      proof -
        have mq: "hm_get (bp_page_to_frame s) q = Some j" using that(2) f2p Cons.prems(2) by auto
        then have "\<not> bf_dirty (bp_frames s ! j) \<Longrightarrow> q \<noteq> p" using m True by auto
        then show ?thesis using fm(5) that vs [OF mq] other [OF D(4) [OF mq]] by auto
      qed
      moreover have "disk fm p = Option.bind (view s p) norm" if "r = Ok ()"
      proof (cases "p \<in> snd ` set l")
        case True
        then obtain j where j: "(j, p) \<in> set l" by force
        moreover have "j = i" using f2p [of j p] m calculation Cons.prems(2) by auto
        ultimately show ?thesis using tail [OF that j] \<open>bf_dirty (bp_frames s ! i)\<close> by simp
      qed (use fm(4) D(4) [OF m] k dp in auto)
      ultimately show ?thesis
        using fm x True k other by (intro exI [of _ fm]) auto
    qed
  qed
qed

end

subsection \<open>The two instances\<close>

interpretation mock_pool: buffer_pool "\<lambda>_. True" mock_used "\<lambda>s. mk_next_page_id s \<noteq> -1" mock_disk Some mock_ops
  using mock.file_manager_axioms by (simp add: buffer_pool_def mock_ops_def)

sublocale default_file_manager \<subseteq> pool: buffer_pool "fm_inv ps" fm_used "fm_room ps" "fm_disk L"
    "fm_norm L ps" "default_ops L"
  using fm.file_manager_axioms by (simp add: buffer_pool_def default_ops_def)

context default_file_manager
begin

lemmas pool_fetch = pool.fetch_page_transparent
lemmas pool_arc_write = pool.arc_write_result
lemmas pool_unpin = pool.unpin_page_result
lemmas pool_flush = pool.flush_frames_result

end

subsection \<open>Lemmas: frames that are lost\<close>

lemma first_empty_None: "first_empty fs = None \<longleftrightarrow> (\<forall>f \<in> set fs. bf_page_id f \<noteq> None)"
  by (induction fs) auto

lemma evict_all_pinned:
  assumes "\<And>p i. hm_get m p = Some i \<Longrightarrow> i < length fs" "\<forall>f \<in> set fs. bf_pin_count f \<noteq> 0"
  shows "evict_lru fs m ps = (Err (StorageError ''No available buffer frames''), [])"
proof (induction ps)
  case (Cons p ps)
  then show ?case
    using assms(1) [of p] assms(2) by (fastforce simp: is_evictable_def split: option.splits)
qed simp

text \<open>Giving back any number of pins leaves the maps and the list as they are.\<close>

definition unpin_all :: "PageId list \<Rightarrow> 'fm BufferPoolManager \<Rightarrow> 'fm BufferPoolManager" where
  "unpin_all ps s = fold (\<lambda>p s. snd (unpin_page p False s)) ps s"

lemma unpin_page_keeps:
  "bp_lru_list (snd (unpin_page p d s)) = bp_lru_list s"
  "bp_page_to_frame (snd (unpin_page p d s)) = bp_page_to_frame s"
  "map bf_page_id (bp_frames (snd (unpin_page p d s))) = map bf_page_id (bp_frames s)"
  by (auto simp: unpin_page_def unpin_def set_frame_def map_update list_update_same_conv
      split: option.splits if_splits)

lemma unpin_all_keeps:
  "bp_lru_list (unpin_all ps s) = bp_lru_list s"
  "bp_page_to_frame (unpin_all ps s) = bp_page_to_frame s"
  "map bf_page_id (bp_frames (unpin_all ps s)) = map bf_page_id (bp_frames s)"
  by (induction ps arbitrary: s) (simp_all add: unpin_all_def unpin_page_keeps)

lemma first_empty_map: "first_empty fs = None \<longleftrightarrow> None \<notin> set (map bf_page_id fs)"
  by (induction fs) auto

lemma find_available_frame_lru:
  assumes "find_available_frame s = (r, s')"
  shows "\<exists>lru. s' = s\<lparr>bp_lru_list := lru\<rparr>"
proof (cases "first_empty (bp_frames s)")
  case None
  then show ?thesis using assms by (auto simp: find_available_frame_def split: prod.splits)
next
  case (Some i)
  then show ?thesis
    using assms by (auto simp: find_available_frame_def intro!: exI [of _ "bp_lru_list s"])
qed

subsection \<open>A pool with one page\<close>

text \<open>A pool of one frame over any file manager, holding page 1, modified, with the given pin count.\<close>

definition one_page_pool :: "u32 \<Rightarrow> Page \<Rightarrow> 'fm \<Rightarrow> 'fm BufferPoolManager" where
  "one_page_pool pins pg fm =
     \<lparr>bp_frames = [\<lparr>bf_page = Some 0, bf_page_id = Some 1, bf_pin_count = pins, bf_dirty = True,
        bf_lru_index = None\<rparr>],
      bp_lru_list = [1], bp_page_to_frame = [(1, 0)], bp_frame_to_page = [(0, 1)], bp_heap = [pg],
      bp_file_manager = fm\<rparr>"

definition demo_db :: DefaultFileManager where
  "demo_db = snd (allocate_page le_fm_lib DataPage (snd (fm_create le_fm_lib 64 [])))"

lemma demo_db: "fm_inv 64 demo_db" "fm_used demo_db 1" "fm_io demo_db = []"
  using create_allocate(3-5) [OF le_fm_lib_ok, of 64 DataPage] by (simp_all add: demo_db_def)

lemma one_page_pool_inv: "I fm \<Longrightarrow> used fm 1 \<Longrightarrow> bp_inv I used disk (one_page_pool pins pg fm)"
  by (simp add: bp_inv_def one_page_pool_def frame_ok_def hm_wf_def)

lemma fetch_one_page_pool:
  "fetch_page F 1 (one_page_pool pins pg fm) = (Ok 0, one_page_pool (pins + 1) pg fm)"
  by (simp add: fetch_page_def one_page_pool_def update_lru_def set_frame_def pin_def)

subsection \<open>Properties\<close>



text \<open>
  A change made through the pool is kept. After fetching an allocated page, storing a new page
  through the returned \<^verbatim>\<open>Arc\<close> and unpinning it as dirty, the contents of that page are the new page,
  the frame is marked dirty, and the invariant holds.
\<close>

theorem modify_page_through_pool:
  assumes "fm_lib_ok L" "bp_inv (fm_inv ps) fm_used (fm_disk L) s" "fm_used (bp_file_manager s) p"
    and "\<forall>f \<in> set (bp_frames s). bf_pin_count f \<noteq> -1"
    and "fetch_page (default_ops L) p s = (Ok a, s1)"
  shows "\<exists>s2 i. unpin_page p True (arc_write a pg s1) = (Ok (), s2) \<and>
    bp_view (fm_disk L) s2 p = Some pg \<and> bp_inv (fm_inv ps) fm_used (fm_disk L) s2 \<and>
    hm_get (bp_page_to_frame s2) p = Some i \<and> bf_dirty (bp_frames s2 ! i)"
proof -
  have fm: "default_file_manager L" using assms(1) by unfold_locales
  have pins: "\<And>i. i < length (bp_frames s) \<Longrightarrow> bf_pin_count (bp_frames s ! i) \<noteq> -1"
    using assms(4) by simp
  note R = default_file_manager.pool_fetch [OF fm assms(2,3) pins assms(5)]
  obtain i where i: "hm_get (bp_page_to_frame s1) p = Some i" "bf_page (bp_frames s1 ! i) = Some a"
      "bf_pin_count (bp_frames s1 ! i) \<noteq> 0"
    using R(4) by blast
  note W = default_file_manager.pool_arc_write [OF fm R(1) i, of pg]
  have "hm_get (bp_page_to_frame (arc_write a pg s1)) p = Some i"
      "bf_pin_count (bp_frames (arc_write a pg s1) ! i) \<noteq> 0"
    using i by (simp_all add: arc_write_def)
  from default_file_manager.pool_unpin [OF fm W(1) this, of True] show ?thesis
    using W(2) [of p] by auto
qed

theorem modify_page_through_pool_witness:
  "\<exists>s2. unpin_page 1 True (arc_write 0 (Page_new 1 DataPage 64)
      (one_page_pool 1 (Page_new 1 FreePage 64) demo_db)) = (Ok (), s2) \<and>
    bp_view (fm_disk le_fm_lib) s2 1 = Some (Page_new 1 DataPage 64)"
proof -
  let ?s = "one_page_pool 0 (Page_new 1 FreePage 64) demo_db"
  have "bp_inv (fm_inv 64) fm_used (fm_disk le_fm_lib) ?s"
    using demo_db by (intro one_page_pool_inv) simp_all
  moreover have "fm_used (bp_file_manager ?s) 1" "\<forall>f \<in> set (bp_frames ?s). bf_pin_count f \<noteq> -1"
    using demo_db by (simp_all add: one_page_pool_def)
  moreover have "fetch_page (default_ops le_fm_lib) 1 ?s = (Ok 0, one_page_pool 1 (Page_new 1 FreePage 64) demo_db)"
    by (simp add: fetch_one_page_pool)
  ultimately show ?thesis
    using modify_page_through_pool [OF le_fm_lib_ok] by blast
qed

text \<open>
  Flushing makes the disk current. When \<^verbatim>\<open>flush_all_pages\<close> succeeds on a pool over the database
  file, the disk holds, for every dirty page in the pool, what the file keeps of its contents in
  memory, and nothing else on the disk or in the pool has changed.
\<close>

theorem flush_all_pages_persists:
  assumes "fm_lib_ok L" "bp_inv (fm_inv ps) fm_used (fm_disk L) s"
    and "flush_all_pages (default_ops L) s = (Ok (), s')"
  shows "(\<forall>p i. hm_get (bp_page_to_frame s) p = Some i \<and> bf_dirty (bp_frames s ! i) \<longrightarrow>
      fm_disk L (bp_file_manager s') p = Option.bind (bp_view (fm_disk L) s p) (fm_norm L ps)) \<and>
    (\<forall>p. fm_used (bp_file_manager s) p \<and>
       (\<forall>i. hm_get (bp_page_to_frame s) p = Some i \<longrightarrow> \<not> bf_dirty (bp_frames s ! i)) \<longrightarrow>
       fm_disk L (bp_file_manager s') p = fm_disk L (bp_file_manager s) p) \<and>
    bp_frames s' = bp_frames s \<and> bp_heap s' = bp_heap s \<and>
    bp_inv (fm_inv ps) fm_used (fm_disk L) s'"
proof -
  have fm: "default_file_manager L" using assms(1) by unfold_locales
  note D = bp_invD [OF assms(2)]
  have f2p: "(i, p) \<in> set (bp_frame_to_page s) \<longleftrightarrow> hm_get (bp_page_to_frame s) p = Some i" for i p
    using hm_get_iff [OF D(9)] D(10) by blast
  have "flush_frames (default_ops L) (bp_frame_to_page s) s = (Ok (), s')"
    using assms(3) by (simp add: flush_all_pages_def)
  from default_file_manager.pool_flush [OF fm assms(2) order_refl this]
  obtain fm where s': "s' = s\<lparr>bp_file_manager := fm\<rparr>" "bp_inv (fm_inv ps) fm_used (fm_disk L) s'"
    and out: "\<And>q. fm_used (bp_file_manager s) q \<Longrightarrow> q \<notin> snd ` set (bp_frame_to_page s) \<Longrightarrow>
        fm_disk L fm q = fm_disk L (bp_file_manager s) q"
    and inn: "\<And>i q. (i, q) \<in> set (bp_frame_to_page s) \<Longrightarrow> fm_disk L fm q =
      (if bf_dirty (bp_frames s ! i) then Option.bind (bp_view (fm_disk L) s q) (fm_norm L ps)
       else fm_disk L (bp_file_manager s) q)"
    by blast
  have "fm_disk L fm p = fm_disk L (bp_file_manager s) p"
    if "fm_used (bp_file_manager s) p" "\<forall>i. hm_get (bp_page_to_frame s) p = Some i \<longrightarrow> \<not> bf_dirty (bp_frames s ! i)" for p
  proof (cases "p \<in> snd ` set (bp_frame_to_page s)")
    case True
    then obtain i where i: "(i, p) \<in> set (bp_frame_to_page s)" by force
    then show ?thesis using inn [OF i] that(2) f2p by simp
  qed (use out that(1) in blast)
  then show ?thesis using s' inn f2p by auto
qed

theorem flush_all_pages_persists_witness:
  "fm_disk le_fm_lib (bp_file_manager (snd (flush_all_pages (default_ops le_fm_lib)
      (one_page_pool 0 (Page_new 1 DataPage 64) demo_db)))) 1
   = fm_norm le_fm_lib 64 (Page_new 1 DataPage 64)"
proof -
  let ?s = "one_page_pool 0 (Page_new 1 DataPage 64) demo_db"
  obtain r fm where w: "fm_write_page le_fm_lib 1 (Page_new 1 DataPage 64) demo_db = (r, fm)" by fastforce
  then have "r = Ok ()" using fm_write_keeps [OF le_fm_lib_ok demo_db(1,2) w] demo_db(3) by blast
  then have run: "flush_all_pages (default_ops le_fm_lib) ?s = (Ok (), ?s\<lparr>bp_file_manager := fm\<rparr>)"
    using w by (simp add: flush_all_pages_def one_page_pool_def default_ops_def with_fm_def)
  have "bp_inv (fm_inv 64) fm_used (fm_disk le_fm_lib) ?s"
    using demo_db by (intro one_page_pool_inv) simp_all
  from flush_all_pages_persists [OF le_fm_lib_ok this run, THEN conjunct1, THEN spec, THEN spec, of 1 0]
  show ?thesis using run by (simp add: one_page_pool_def bp_view_def)
qed

text \<open>
  A failed fetch corrupts the pool. \<^verbatim>\<open>fetch_page\<close> changes the maps before it reads the page. On a
  pool over the mock, when the chosen frame holds some page with address \<open>a\<close> and the requested page
  does not exist, the fetch reports the missing page, and the next fetch of the same missing page
  succeeds and returns \<open>a\<close>, the contents of a different page.
\<close>

theorem failed_fetch_then_wrong_page:
  assumes "hm_get (bp_page_to_frame s) p = None" "mock_disk (bp_file_manager s) p = None"
    and "find_available_frame s = (Ok i, s1)" "i < length (bp_frames s)"
    and "bf_page (bp_frames s ! i) = Some a" "bf_page_id (bp_frames s ! i) = Some q" "q \<noteq> p"
  shows "fst (fetch_page mock_ops p s) = Err (PageNotFound p) \<and>
    fst (fetch_page mock_ops p (snd (fetch_page mock_ops p s))) = Ok a"
proof -
  obtain lru where s1: "s1 = s\<lparr>bp_lru_list := lru\<rparr>"
    using find_available_frame_lru [OF assms(3)] by blast
  obtain u s2 where wb: "write_back mock_ops (bp_frames s ! i) s1 = (Ok u, s2)"
      "bp_frames s2 = bp_frames s" "mock_disk (bp_file_manager s2) p = None"
    using assms(2,5-7) s1
    by (cases "bf_dirty (bp_frames s ! i)")
      (auto simp: write_back_def with_fm_def mock_ops_def mock_write_page_def mock_disk_def)
  let ?s3 = "remap i (bp_frames s ! i) p s2"
  have s3: "bp_frames ?s3 = bp_frames s" "hm_get (bp_page_to_frame ?s3) p = Some i"
    using wb by (auto simp: remap_def Let_def)
  have "fetch_page mock_ops p s = (Err (PageNotFound p), ?s3)"
    using assms(1,3) wb s1
    by (simp add: fetch_page_def fetch_miss_def with_fm_def mock_ops_def mock_read_page_def
        mock_disk_def remap_fm Let_def)
  then show ?thesis using s3 assms(4,5) by (simp add: fetch_page_def Let_def)
qed

theorem failed_fetch_then_wrong_page_witness:
  "let s = one_page_pool 0 (Page_new 1 DataPage 8192) MockFileManager_new
   in fst (fetch_page mock_ops 9 s) = Err (PageNotFound 9) \<and>
      fst (fetch_page mock_ops 9 (snd (fetch_page mock_ops 9 s))) = Ok 0"
proof -
  let ?s = "one_page_pool 0 (Page_new 1 DataPage 8192) MockFileManager_new"
  have "find_available_frame ?s = (Ok 0, ?s\<lparr>bp_lru_list := []\<rparr>)"
    by (simp add: find_available_frame_def one_page_pool_def is_evictable_def)
  from failed_fetch_then_wrong_page [OF _ _ this, of 9 0 1] show ?thesis
    by (simp add: one_page_pool_def MockFileManager_new_def mock_disk_def)
qed

text \<open>
  Frames are lost when the pool is full of pinned pages. The eviction loop removes every pinned
  page it passes from the LRU list and nothing puts it back when it is unpinned. If every frame holds
  a pinned page, one fetch of a page that is not in the pool fails, and from then on, whichever
  pages are unpinned, every fetch of a page not in the pool fails, although all its frames may be free.
\<close>

theorem pinned_pool_never_recovers:
  assumes "bp_inv I used disk s"
    and "\<forall>f \<in> set (bp_frames s). bf_page_id f \<noteq> None \<and> bf_pin_count f \<noteq> 0"
    and "hm_get (bp_page_to_frame s) p = None" "hm_get (bp_page_to_frame s) q = None"
  shows "fst (fetch_page F p s) = Err (StorageError ''No available buffer frames'') \<and>
    fst (fetch_page F q (unpin_all ps (snd (fetch_page F p s))))
      = Err (StorageError ''No available buffer frames'')"
proof -
  let ?e = "Err (StorageError ''No available buffer frames'')"
  have full: "first_empty (bp_frames s) = None" using assms(2) by (simp add: first_empty_None)
  have "evict_lru (bp_frames s) (bp_page_to_frame s) (bp_lru_list s) = (?e, [])"
    using assms(2) bp_invD(2) [OF assms(1)] by (intro evict_all_pinned) auto
  then have run: "fetch_page F p s = (?e, s\<lparr>bp_lru_list := []\<rparr>)"
    using full assms(3) by (simp add: fetch_page_def fetch_miss_def find_available_frame_def)
  define t where "t = unpin_all ps (s\<lparr>bp_lru_list := []\<rparr>)"
  have t: "bp_lru_list t = []" "bp_page_to_frame t = bp_page_to_frame s"
      "map bf_page_id (bp_frames t) = map bf_page_id (bp_frames s)"
    by (simp_all add: t_def unpin_all_keeps)
  then have "first_empty (bp_frames t) = None" using full by (simp add: first_empty_map)
  then have "fst (fetch_page F q t) = ?e"
    using t assms(4) by (simp add: fetch_page_def fetch_miss_def find_available_frame_def)
  then show ?thesis using run t_def by simp
qed

theorem pinned_pool_never_recovers_witness:
  "fst (fetch_page mock_ops 9 (unpin_all [1] (snd (fetch_page mock_ops 8
     (one_page_pool 1 (Page_new 1 DataPage 8192) MockFileManager_new)))))
   = Err (StorageError ''No available buffer frames'')"
proof -
  let ?s = "one_page_pool 1 (Page_new 1 DataPage 8192) MockFileManager_new"
  have "bp_inv (\<lambda>_. True) (\<lambda>_ _. True) mock_disk ?s" by (rule one_page_pool_inv) simp_all
  from pinned_pool_never_recovers [OF this, of 8 9 mock_ops "[1]"] show ?thesis
    by (simp add: one_page_pool_def)
qed

end
