(* ===== verification/Table_Manager.thy ===== *)
theory Table_Manager
  imports Data_Types Buffer_Pool Registry
begin

section \<open>Tables (\<^verbatim>\<open>src/src/catalog/table.rs\<close>)\<close>

text \<open>
  The table manager keeps every table's definition and rows in memory, and writes a copy of each
  inserted or updated row to a page of its own when a buffer pool is set. The pool, the page library
  and the encoding of rows are parameters, bundled in \<open>tm_lib\<close>. The lemmas show what the row operations do
  to the rows, and that the catalog tables follow a changed definition.
\<close>

subsection \<open>Data\<close>

record ColumnDef =
  cd_column_id :: u64
  cd_name :: string
  cd_data_type :: DataType
  cd_nullable :: bool
  cd_default_value :: "Value option"
  cd_primary_key :: bool
  cd_unique :: bool
  cd_check_constraint :: "string option"

datatype TableConstraint =
    PrimaryKeyC "string list"
  | ForeignKeyC "string list" string "string list"
  | UniqueC "string list"
  | CheckC string
  | NotNullC string

record TableDef =
  td_table_id :: u64
  td_name :: string
  td_schema_id :: u64
  td_columns :: "ColumnDef list"
  td_constraints :: "TableConstraint list"
  td_storage_engine :: string
  td_root_page_id :: "PageId option"

type_synonym row = "Value list"

record SystemTable =
  st_def :: TableDef
  st_data :: "row list"

record 'fm SystemTableManager =
  tm_tables :: "(string, SystemTable) hmap"
  tm_next_table_id :: u64
  tm_next_column_id :: u64
  tm_buffer_manager :: "'fm BufferPoolManager option"

record 'fm tm_lib =
  tl_ops :: "'fm fm_ops"
  tl_page :: page_lib
  tl_row :: "row \<Rightarrow> bytes"

type_synonym ('fm, 'a) tm_op = "('fm SystemTableManager, 'a) op"

subsection \<open>Creation and lookup\<close>

definition catalog_column :: "u64 \<Rightarrow> string \<Rightarrow> DataTypeKind \<Rightarrow> bool \<Rightarrow> bool \<Rightarrow> ColumnDef" where
  "catalog_column i name kind pk uniq =
     \<lparr>cd_column_id = i, cd_name = name, cd_data_type = with_nullable (DataType_new kind) False,
      cd_nullable = False, cd_default_value = None, cd_primary_key = pk, cd_unique = uniq,
      cd_check_constraint = None\<rparr>"

definition catalog_table :: "u64 \<Rightarrow> string \<Rightarrow> ColumnDef list \<Rightarrow> SystemTable" where
  "catalog_table i name cols =
     \<lparr>st_def = \<lparr>td_table_id = i, td_name = name, td_schema_id = 0, td_columns = cols,
        td_constraints = [], td_storage_engine = ''btree'', td_root_page_id = None\<rparr>, st_data = []\<rparr>"

definition initialize_system_tables :: "'fm SystemTableManager \<Rightarrow> 'fm SystemTableManager" where
  "initialize_system_tables s = s\<lparr>tm_tables :=
     hm_insert ''pg_column'' (catalog_table 1 ''pg_column''
         [catalog_column 0 ''column_id'' IntegerT True False,
          catalog_column 1 ''table_id'' IntegerT False False,
          catalog_column 2 ''column_name'' TextT False False])
       (hm_insert ''pg_table'' (catalog_table 0 ''pg_table''
         [catalog_column 0 ''table_id'' IntegerT True False,
          catalog_column 1 ''table_name'' TextT False True,
          catalog_column 2 ''schema_id'' IntegerT False False]) (tm_tables s))\<rparr>"

definition SystemTableManager_new :: "'fm SystemTableManager" where
  "SystemTableManager_new = initialize_system_tables
     \<lparr>tm_tables = [], tm_next_table_id = 1, tm_next_column_id = 1, tm_buffer_manager = None\<rparr>"

definition tm_set_buffer_manager ::
    "'fm BufferPoolManager \<Rightarrow> 'fm SystemTableManager \<Rightarrow> 'fm SystemTableManager" where
  "tm_set_buffer_manager b s = s\<lparr>tm_buffer_manager := Some b\<rparr>"

definition push_row :: "row \<Rightarrow> SystemTable \<Rightarrow> SystemTable" where
  "push_row r t = t\<lparr>st_data := st_data t @ [r]\<rparr>"

definition column_rows :: "u64 \<Rightarrow> string list \<Rightarrow> row list" where
  "column_rows table_id names =
     map (\<lambda>(i, n). [IntegerV (of_nat i), IntegerV table_id, StringV n]) (zip [0..<length names] names)"

definition create_table :: "ColumnDef list \<Rightarrow> string \<Rightarrow> ('fm, u64) tm_op" where
  "create_table columns name s =
     (let table_id = tm_next_table_id s;
          def = \<lparr>td_table_id = table_id, td_name = name, td_schema_id = 1, td_columns = columns,
                 td_constraints = [], td_storage_engine = ''btree'', td_root_page_id = None\<rparr>;
          tables1 = hm_insert name \<lparr>st_def = def, st_data = []\<rparr> (tm_tables s);
          tables2 = hm_modify ''pg_table''
            (push_row [IntegerV table_id, StringV name, IntegerV 1]) tables1;
          tables3 = hm_modify ''pg_column''
            (\<lambda>t. t\<lparr>st_data := st_data t @ column_rows table_id (map cd_name columns)\<rparr>) tables2
      in (Ok table_id, s\<lparr>tm_next_table_id := tm_next_table_id s + 1, tm_tables := tables3\<rparr>))"

definition drop_table :: "string \<Rightarrow> ('fm, unit) tm_op" where
  "drop_table name s = (Ok (), s\<lparr>tm_tables := hm_remove name (tm_tables s)\<rparr>)"

definition get_table :: "string \<Rightarrow> 'fm SystemTableManager \<Rightarrow> TableDef option" where
  "get_table name s = map_option st_def (hm_get (tm_tables s) name)"

definition get_table_by_id :: "u64 \<Rightarrow> 'fm SystemTableManager \<Rightarrow> TableDef option" where
  "get_table_by_id table_id s =
     find (\<lambda>d. td_table_id d = table_id) (map st_def (hm_values (tm_tables s)))"

definition list_tables :: "'fm SystemTableManager \<Rightarrow> TableDef list" where
  "list_tables s = map st_def (hm_values (tm_tables s))"

subsection \<open>Rows\<close>

definition get_all_rows :: "string \<Rightarrow> 'fm SystemTableManager \<Rightarrow> row list res" where
  "get_all_rows name s = (case hm_get (tm_tables s) name of Some t \<Rightarrow> Ok (st_data t) | None \<Rightarrow> Ok [])"

definition set_rows :: "string \<Rightarrow> row list \<Rightarrow> 'fm SystemTableManager \<Rightarrow> 'fm SystemTableManager" where
  "set_rows name rows s = s\<lparr>tm_tables := hm_modify name (\<lambda>t. t\<lparr>st_data := rows\<rparr>) (tm_tables s)\<rparr>"

definition persist_row_to_disk :: "'fm tm_lib \<Rightarrow> row \<Rightarrow> ('fm, unit) bp_op" where
  "persist_row_to_disk E row =
     (let row_bytes = tl_row E row
      in st_bind (new_page (tl_ops E) DataPage) (\<lambda>page_id.
         st_bind (fetch_page (tl_ops E) page_id) (\<lambda>a s.
           (let page = bp_heap s ! a
            in if length row_bytes > length (pg_data page)
               then (Err (StorageError ''Row too large for page''), s)
               else (let data = row_bytes @ drop (length row_bytes) (pg_data page);
                         page1 = page\<lparr>pg_data := data, pg_header := (pg_header page)\<lparr>ph_free_bytes :=
                            of_nat (length data) - of_nat (length row_bytes)\<rparr>\<rparr>;
                         page2 = update_checksum (tl_page E) page1 (bp_page_size (tl_ops E) s)
                     in unpin_page page_id True (arc_write a page2 s))))))"

text \<open>What runs on the pool when one is set.\<close>

definition with_buffer :: "('fm, unit) bp_op \<Rightarrow> ('fm, unit) tm_op" where
  "with_buffer m s =
     (case tm_buffer_manager s of
        None \<Rightarrow> (Ok (), s)
      | Some b \<Rightarrow> (case m b of (r, b1) \<Rightarrow> (r, s\<lparr>tm_buffer_manager := Some b1\<rparr>)))"

definition tm_insert :: "'fm tm_lib \<Rightarrow> string \<Rightarrow> row \<Rightarrow> ('fm, unit) tm_op" where
  "tm_insert E table_name row s =
     (case hm_get (tm_tables s) table_name of
        Some t \<Rightarrow> with_buffer (persist_row_to_disk E row) (set_rows table_name (st_data t @ [row]) s)
      | None \<Rightarrow> (Ok (), s))"

definition update_row :: "'fm tm_lib \<Rightarrow> string \<Rightarrow> nat \<Rightarrow> row \<Rightarrow> ('fm, unit) tm_op" where
  "update_row E table_name row_index new_row s =
     (case hm_get (tm_tables s) table_name of
        Some t \<Rightarrow>
          if row_index \<ge> length (st_data t) then (Err (NotFoundError ''Row index not found''), s)
          else with_buffer (persist_row_to_disk E new_row)
                 (set_rows table_name ((st_data t)[row_index := new_row]) s)
      | None \<Rightarrow> (Err (NotFoundError ''Table not found''), s))"

definition get_row :: "string \<Rightarrow> nat \<Rightarrow> 'fm SystemTableManager \<Rightarrow> row option res" where
  "get_row table_name row_index s =
     (case hm_get (tm_tables s) table_name of
        Some t \<Rightarrow> if row_index \<ge> length (st_data t) then Ok None else Ok (Some (st_data t ! row_index))
      | None \<Rightarrow> Err (NotFoundError ''Table not found''))"

definition restore_row :: "string \<Rightarrow> nat \<Rightarrow> row \<Rightarrow> ('fm, unit) tm_op" where
  "restore_row table_name row_index row_data s =
     (case hm_get (tm_tables s) table_name of
        Some t \<Rightarrow>
          (let padded = st_data t @ replicate (Suc row_index - length (st_data t)) []
           in (Ok (), set_rows table_name (vec_insert row_index row_data padded) s))
      | None \<Rightarrow> (Err (NotFoundError ''Table not found''), s))"

definition delete_row :: "'fm tm_lib \<Rightarrow> string \<Rightarrow> nat \<Rightarrow> ('fm, row option) tm_op" where
  "delete_row E table_name row_index s =
     (case hm_get (tm_tables s) table_name of
        Some t \<Rightarrow>
          if row_index \<ge> length (st_data t) then (Err (NotFoundError ''Row index not found''), s)
          else st_bind (with_buffer (flush_all_pages (tl_ops E)))
                 (\<lambda>_. st_return (Some (st_data t ! row_index)))
                 (set_rows table_name (vec_remove row_index (st_data t)) s)
      | None \<Rightarrow> (Err (NotFoundError ''Table not found''), s))"

definition tm_select :: "string \<Rightarrow> 'fm SystemTableManager \<Rightarrow> row list res" where
  "tm_select table_name s =
     (case hm_get (tm_tables s) table_name of
        Some t \<Rightarrow> Ok (st_data t) | None \<Rightarrow> Err (NotFoundError ''Table not found''))"

subsection \<open>Definitions\<close>

definition update_table_root_page :: "string \<Rightarrow> PageId \<Rightarrow> ('fm, unit) tm_op" where
  "update_table_root_page table_name root_page_id s =
     (if hm_contains (tm_tables s) table_name
      then (Ok (), s\<lparr>tm_tables := hm_modify table_name
              (\<lambda>t. t\<lparr>st_def := (st_def t)\<lparr>td_root_page_id := Some root_page_id\<rparr>\<rparr>) (tm_tables s)\<rparr>)
      else (Err (NotFoundError ''Table not found''), s))"

definition other_table_row :: "u64 \<Rightarrow> row \<Rightarrow> bool" where
  "other_table_row table_id row = (case row ! 1 of IntegerV tid \<Rightarrow> tid \<noteq> table_id | _ \<Rightarrow> True)"

definition update_table_definition :: "string \<Rightarrow> TableDef \<Rightarrow> ('fm, unit) tm_op" where
  "update_table_definition table_name new_def s =
     (case hm_get (tm_tables s) table_name of
        None \<Rightarrow> (Err (NotFoundError ''Table not found''), s)
      | Some table \<Rightarrow>
          (let table_id = td_table_id (st_def table);
               def1 = new_def\<lparr>td_table_id := table_id, td_root_page_id := td_root_page_id (st_def table)\<rparr>;
               tables1 = hm_modify table_name (\<lambda>t. t\<lparr>st_def := def1\<rparr>) (tm_tables s);
               s1 = s\<lparr>tm_tables := tables1\<rparr>
           in case hm_get tables1 ''pg_column'' of
                None \<Rightarrow> (Ok (), s1)
              | Some pg_column \<Rightarrow>
                  if \<exists>row \<in> set (st_data pg_column). length row \<le> 1
                  then (Panic ''index out of bounds'', s1)
                  else (Ok (), set_rows ''pg_column''
                          (filter (other_table_row table_id) (st_data pg_column) @
                           column_rows table_id (map cd_name (td_columns def1))) s1)))"

definition get_column_names :: "string \<Rightarrow> 'fm SystemTableManager \<Rightarrow> string list res" where
  "get_column_names table_name s =
     (case hm_get (tm_tables s) table_name of
        Some t \<Rightarrow> Ok (map cd_name (td_columns (st_def t)))
      | None \<Rightarrow> Err (NotFoundError ''Table not found''))"

definition table_id_of :: "'fm SystemTableManager \<Rightarrow> string \<Rightarrow> u64 option" where
  "table_id_of s name = map_option td_table_id (get_table name s)"

subsection \<open>Runs of the manager and the invariant\<close>

text \<open>
  A run uses tables other than the two catalog tables. The invariant \<open>tm_inv\<close> says that the rows
  \<^verbatim>\<open>pg_column\<close> has for a table's number are those of its definition and that numbers are unique.
\<close>

definition user_table :: "string \<Rightarrow> bool" where
  "user_table n \<longleftrightarrow> n \<noteq> ''pg_table'' \<and> n \<noteq> ''pg_column''"

definition pg_columns :: "'fm SystemTableManager \<Rightarrow> row list" where
  "pg_columns s = (case hm_get (tm_tables s) ''pg_column'' of None \<Rightarrow> [] | Some t \<Rightarrow> st_data t)"

definition rows_of :: "u64 \<Rightarrow> row list \<Rightarrow> row list" where
  "rows_of table_id rows = filter (\<lambda>row. row ! 1 = IntegerV table_id) rows"

definition column_row_below :: "u64 \<Rightarrow> row \<Rightarrow> bool" where
  "column_row_below k row \<longleftrightarrow> (\<exists>i t n. row = [IntegerV i, IntegerV t, StringV n] \<and> t < k)"

definition tm_inv :: "'fm SystemTableManager \<Rightarrow> bool" where
  "tm_inv s \<longleftrightarrow>
     hm_get (tm_tables s) ''pg_column'' \<noteq> None \<and>
     (\<forall>row \<in> set (pg_columns s). column_row_below (tm_next_table_id s) row) \<and>
     (\<forall>n d. user_table n \<longrightarrow> get_table n s = Some d \<longrightarrow> td_table_id d < tm_next_table_id s \<and>
        rows_of (td_table_id d) (pg_columns s) = column_rows (td_table_id d) (map cd_name (td_columns d))) \<and>
     (\<forall>n m d e. user_table n \<longrightarrow> user_table m \<longrightarrow> get_table n s = Some d \<longrightarrow> get_table m s = Some e \<longrightarrow>
        td_table_id d = td_table_id e \<longrightarrow> n = m)"

inductive tm_step :: "'fm tm_lib \<Rightarrow> 'fm SystemTableManager \<Rightarrow> 'fm SystemTableManager \<Rightarrow> bool" for E where
  step_create: "user_table n \<Longrightarrow> tm_next_table_id s \<noteq> -1 \<Longrightarrow> create_table cols n s = (r, s') \<Longrightarrow> tm_step E s s'"
| step_drop: "user_table n \<Longrightarrow> drop_table n s = (r, s') \<Longrightarrow> tm_step E s s'"
| step_define: "user_table n \<Longrightarrow> update_table_definition n def s = (r, s') \<Longrightarrow> tm_step E s s'"
| step_root: "user_table n \<Longrightarrow> update_table_root_page n p s = (r, s') \<Longrightarrow> tm_step E s s'"
| step_insert: "user_table n \<Longrightarrow> tm_insert E n row s = (r, s') \<Longrightarrow> tm_step E s s'"
| step_update: "user_table n \<Longrightarrow> update_row E n i row s = (r, s') \<Longrightarrow> tm_step E s s'"
| step_delete: "user_table n \<Longrightarrow> delete_row E n i s = (r, s') \<Longrightarrow> tm_step E s s'"
| step_restore: "user_table n \<Longrightarrow> restore_row n i row s = (r, s') \<Longrightarrow> tm_step E s s'"

inductive tm_reachable :: "'fm tm_lib \<Rightarrow> 'fm SystemTableManager \<Rightarrow> bool" for E where
  reach_new: "tm_reachable E SystemTableManager_new"
| reach_buffer: "tm_reachable E s \<Longrightarrow> tm_reachable E (tm_set_buffer_manager b s)"
| reach_step: "tm_reachable E s \<Longrightarrow> tm_step E s s' \<Longrightarrow> tm_reachable E s'"

subsection \<open>Inserting many rows\<close>

text \<open>Inserts in sequence, with the result of each; a pool in which every used frame is pinned.\<close>

fun insert_all ::
    "'fm tm_lib \<Rightarrow> string \<Rightarrow> row list \<Rightarrow> 'fm SystemTableManager \<Rightarrow>
     unit res list \<times> 'fm SystemTableManager" where
  "insert_all E name [] s = ([], s)"
| "insert_all E name (row # rows) s =
     (case tm_insert E name row s of (r, s1) \<Rightarrow>
        case insert_all E name rows s1 of (rs, s2) \<Rightarrow> (r # rs, s2))"

definition leaky :: "MockFileManager BufferPoolManager \<Rightarrow> bool" where
  "leaky b \<longleftrightarrow> (\<forall>f \<in> set (bp_frames b). bf_page_id f = None \<longleftrightarrow> bf_pin_count f = 0) \<and>
     (\<forall>p i. hm_get (bp_page_to_frame b) p = Some i \<longrightarrow> i < length (bp_frames b) \<and>
        bf_page_id (bp_frames b ! i) \<noteq> None \<and> p < mk_next_page_id (bp_file_manager b))"

definition empty_frames :: "'fm BufferPoolManager \<Rightarrow> nat" where
  "empty_frames b = length (filter (\<lambda>f. bf_page_id f = None) (bp_frames b))"

text \<open>The mock, the page encoding of the theory \<^verbatim>\<open>Page\<close> and an encoding of rows as zeros.\<close>

definition mock_tm_lib :: "MockFileManager tm_lib" where
  "mock_tm_lib = \<lparr>tl_ops = mock_ops, tl_page = le_page_lib, tl_row = (\<lambda>row. replicate (length row) 0)\<rparr>"

subsection \<open>Lemmas: rows\<close>

interpretation tables: registry table_id_of tm_next_table_id create_table drop_table
  by unfold_locales
    (auto simp: create_table_def drop_table_def table_id_of_def get_table_def Let_def fun_eq_iff
      push_row_def option.map_comp comp_def)

lemma set_rows_get:
  "hm_get (tm_tables (set_rows n rows s)) m =
     (if m = n then map_option (\<lambda>t. t\<lparr>st_data := rows\<rparr>) (hm_get (tm_tables s) n) else hm_get (tm_tables s) m)"
  by (simp add: set_rows_def)

lemma with_buffer_tables: "tm_tables (snd (with_buffer m s)) = tm_tables s"
  by (simp add: with_buffer_def split: option.split prod.split)

lemma tm_insert_rows:
  assumes "tm_select name s = Ok rows" "tm_insert E name row s = (r, s')"
  shows "tm_select name s' = Ok (rows @ [row])" "m \<noteq> name \<Longrightarrow> tm_select m s' = tm_select m s"
    "get_table m s' = get_table m s"
proof -
  obtain t where t: "hm_get (tm_tables s) name = Some t" "rows = st_data t"
    using assms(1) by (auto simp: tm_select_def split: option.splits)
  then have s': "tm_tables s' = tm_tables (set_rows name (st_data t @ [row]) s)"
    using assms(2) with_buffer_tables [of "persist_row_to_disk E row"] by (simp add: tm_insert_def)
       (metis snd_conv)
  show "tm_select name s' = Ok (rows @ [row])"
    by (simp add: tm_select_def s' set_rows_get t)
  show "m \<noteq> name \<Longrightarrow> tm_select m s' = tm_select m s"
    by (simp add: tm_select_def s' set_rows_get)
  show "get_table m s' = get_table m s"
    by (simp add: get_table_def s' set_rows_get t)
qed

lemma delete_row_rows:
  assumes "tm_select name s = Ok rows" "i < length rows" "delete_row E name i s = (r, s')"
  shows "\<And>x. r = Ok x \<Longrightarrow> x = Some (rows ! i)" "tm_select name s' = Ok (vec_remove i rows)"
    "m \<noteq> name \<Longrightarrow> tm_select m s' = tm_select m s"
proof -
  obtain t where t: "hm_get (tm_tables s) name = Some t" "rows = st_data t"
    using assms(1) by (auto simp: tm_select_def split: option.splits)
  obtain r1 s1 where b: "with_buffer (flush_all_pages (tl_ops E)) (set_rows name (vec_remove i rows) s) = (r1, s1)"
    by fastforce
  have d: "s' = s1" "\<And>x. r = Ok x \<Longrightarrow> x = Some (rows ! i)"
    using assms(2,3) t b by (cases r1; auto simp: delete_row_def st_bind_def st_try_def)+
  have s': "tm_tables s' = tm_tables (set_rows name (vec_remove i rows) s)"
    using with_buffer_tables [of "flush_all_pages (tl_ops E)"] b d by (metis snd_conv)
  show "\<And>x. r = Ok x \<Longrightarrow> x = Some (rows ! i)" by (rule d)
  show "tm_select name s' = Ok (vec_remove i rows)" by (simp add: tm_select_def s' set_rows_get t)
  show "m \<noteq> name \<Longrightarrow> tm_select m s' = tm_select m s" by (simp add: tm_select_def s' set_rows_get)
qed

lemma restore_row_rows:
  assumes "tm_select name s = Ok rows" "restore_row name i row s = (r, s')"
  shows "r = Ok ()" "tm_select name s' =
      Ok (vec_insert i row (rows @ replicate (Suc i - length rows) []))"
    "m \<noteq> name \<Longrightarrow> tm_select m s' = tm_select m s"
  using assms by (auto simp: tm_select_def restore_row_def set_rows_get Let_def split: option.splits)

lemma vec_insert_last: "vec_insert (length xs) x (xs @ ys) = xs @ x # ys"
  by (simp add: vec_insert_def)

text \<open>Putting a removed element back, in a list first filled up to its index.\<close>

lemma vec_restore:
  assumes "i < length rows"
  shows "vec_insert i (rows ! i) (vec_remove i rows @ replicate (Suc i - length (vec_remove i rows)) d)
    = (if Suc i = length rows then rows @ [d] else rows)"
proof (cases "Suc i = length rows")
  case True
  then have "vec_remove i rows = take i rows" "rows = take i rows @ [rows ! i]" "length (take i rows) = i"
    using id_take_nth_drop [OF assms] by (simp_all add: vec_remove_def)
  moreover from this have "rows @ [d] = take i rows @ [rows ! i, d]"
    by (metis append.assoc append_Cons append_Nil)
  moreover have "Suc i - length (vec_remove i rows) = 1" using True assms by simp
  ultimately show ?thesis
    using vec_insert_last [of "take i rows" "rows ! i" "[d]"] True by simp
next
  case False
  then show ?thesis using assms vec_insert_remove [of i rows] by simp
qed

subsection \<open>Lemmas: the invariant\<close>

inductive_cases tm_stepE: "tm_step E s s'"

lemma rows_of_column_rows [simp]:
  "rows_of i (column_rows t names) = (if i = t then column_rows t names else [])"
  by (auto simp: rows_of_def column_rows_def filter_map comp_def split_def filter_empty_conv)

lemma rows_of_append [simp]: "rows_of i (xs @ ys) = rows_of i xs @ rows_of i ys"
  by (simp add: rows_of_def)

lemma rows_of_below: "\<forall>row \<in> set rows. column_row_below k row \<Longrightarrow> rows_of k rows = []"
  by (fastforce simp: rows_of_def column_row_below_def filter_empty_conv)

lemma rows_of_others:
  assumes "\<forall>row \<in> set rows. column_row_below k row"
  shows "rows_of i (filter (other_table_row t) rows) = (if i = t then [] else rows_of i rows)"
  using assms unfolding rows_of_def
  by (induction rows) (auto simp: column_row_below_def other_table_row_def)

lemma column_rows_below: "row \<in> set (column_rows t names) \<Longrightarrow> t < k \<Longrightarrow> column_row_below k row"
  by (auto simp: column_rows_def column_row_below_def)

lemma column_row_below_mono: "column_row_below k row \<Longrightarrow> k \<noteq> -1 \<Longrightarrow> column_row_below (k + 1) row"
  using u64_below_succ by (fastforce simp: column_row_below_def)

lemma tm_inv_new: "tm_inv SystemTableManager_new"
  by (simp add: tm_inv_def SystemTableManager_new_def initialize_system_tables_def pg_columns_def
      catalog_table_def get_table_def user_table_def)

text \<open>Steps that keep the definitions and the rows of \<open>pg_column\<close>.\<close>

lemma tm_inv_same:
  assumes "tm_inv s" "\<And>m. map_option (\<lambda>t. (td_table_id (st_def t), td_columns (st_def t))) (hm_get (tm_tables s') m)
      = map_option (\<lambda>t. (td_table_id (st_def t), td_columns (st_def t))) (hm_get (tm_tables s) m)"
    "hm_get (tm_tables s') ''pg_column'' = hm_get (tm_tables s) ''pg_column''"
    "tm_next_table_id s' = tm_next_table_id s"
  shows "tm_inv s'"
proof -
  have pg: "pg_columns s' = pg_columns s" by (simp add: pg_columns_def assms(3))
  have "\<exists>d'. get_table m s = Some d' \<and> td_table_id d' = td_table_id d \<and> td_columns d' = td_columns d"
    if "get_table m s' = Some d" for m d
    using assms(2) [of m] that by (auto simp: get_table_def map_option_case split: option.splits)
  then show ?thesis
    using assms(1,3,4) unfolding tm_inv_def pg by simp metis
qed


lemma with_buffer_next: "tm_next_table_id (snd (with_buffer m s)) = tm_next_table_id s"
  by (simp add: with_buffer_def split: option.split prod.split)

lemma tm_inv_set_rows: "tm_inv s \<Longrightarrow> user_table n \<Longrightarrow> tm_inv (set_rows n rows s)"
  by (erule tm_inv_same) (auto simp: set_rows_def user_table_def option.map_comp comp_def)

lemma tm_inv_with_buffer: "tm_inv s \<Longrightarrow> with_buffer m s = (r, s') \<Longrightarrow> tm_inv s'"
  using with_buffer_tables [of m s] with_buffer_next [of m s] by (auto elim!: tm_inv_same)

lemma tm_inv_create:
  assumes "tm_inv s" "user_table n" "tm_next_table_id s \<noteq> -1" "create_table cols n s = (r, s')"
  shows "tm_inv s'"
proof -
  let ?k = "tm_next_table_id s"
  obtain pg where pg: "hm_get (tm_tables s) ''pg_column'' = Some pg" "pg_columns s = st_data pg"
    using assms(1) by (auto simp: tm_inv_def pg_columns_def)
  have next': "tm_next_table_id s' = ?k + 1"
    using assms(4) by (auto simp: create_table_def Let_def)
  have cols: "hm_get (tm_tables s') ''pg_column'' \<noteq> None"
      "pg_columns s' = pg_columns s @ column_rows ?k (map cd_name cols)"
    using assms(2,4) pg by (auto simp: create_table_def Let_def pg_columns_def user_table_def)
  have get: "get_table m s' = (if m = n then Some \<lparr>td_table_id = ?k, td_name = n, td_schema_id = 1,
      td_columns = cols, td_constraints = [], td_storage_engine = ''btree'', td_root_page_id = None\<rparr>
      else get_table m s)" if "user_table m" for m
    using assms(2,4) that by (auto simp: create_table_def Let_def get_table_def user_table_def)
  have less: "x < ?k \<Longrightarrow> x < ?k + 1" "?k < ?k + 1" for x
    using u64_below_succ u64_less_succ assms(3) by auto
  have below: "\<forall>row \<in> set (pg_columns s). column_row_below ?k row"
    and old: "\<And>m d. user_table m \<Longrightarrow> get_table m s = Some d \<Longrightarrow> td_table_id d < ?k \<and>
        rows_of (td_table_id d) (pg_columns s) = column_rows (td_table_id d) (map cd_name (td_columns d))"
    and uniq: "\<And>m m' d e. user_table m \<Longrightarrow> user_table m' \<Longrightarrow> get_table m s = Some d \<Longrightarrow>
        get_table m' s = Some e \<Longrightarrow> td_table_id d = td_table_id e \<Longrightarrow> m = m'"
    using assms(1) unfolding tm_inv_def by blast+
  have B: "\<forall>row \<in> set (pg_columns s'). column_row_below (tm_next_table_id s') row"
    using below less column_row_below_mono [OF _ assms(3)] column_rows_below by (auto simp: cols next')
  have O: "td_table_id d < tm_next_table_id s' \<and> rows_of (td_table_id d) (pg_columns s')
      = column_rows (td_table_id d) (map cd_name (td_columns d))" if "user_table m" "get_table m s' = Some d" for m d
    using that old [of m d] less rows_of_below [OF below] by (auto simp: cols next' get split: if_splits)
  have U: "m = m'" if "user_table m" "user_table m'" "get_table m s' = Some d" "get_table m' s' = Some e"
      "td_table_id d = td_table_id e" for m m' d e
  proof (cases "m = n"; cases "m' = n")
    assume "m = n" "m' \<noteq> n"
    then show ?thesis using that get [OF that(1)] get [OF that(2)] old [of m' e] by auto
  next
    assume "m \<noteq> n" "m' = n"
    then show ?thesis using that get [OF that(1)] get [OF that(2)] old [of m d] by auto
  qed (use that get [OF that(1)] get [OF that(2)] uniq [of m m' d e] in auto)
  show ?thesis unfolding tm_inv_def using cols(1) B O U by blast
qed

lemma tm_inv_define:
  assumes "tm_inv s" "user_table n" "update_table_definition n def s = (r, s')"
  shows "tm_inv s' \<and> (get_table n s \<noteq> None \<longrightarrow> r = Ok ())"
proof (cases "hm_get (tm_tables s) n")
  case None
  then show ?thesis using assms by (simp add: update_table_definition_def get_table_def)
next
  case (Some t)
  let ?k = "tm_next_table_id s" and ?i = "td_table_id (st_def t)"
  let ?d = "def\<lparr>td_table_id := ?i, td_root_page_id := td_root_page_id (st_def t)\<rparr>"
  obtain pg where pg: "hm_get (tm_tables s) ''pg_column'' = Some pg" "pg_columns s = st_data pg"
    using assms(1) by (auto simp: tm_inv_def pg_columns_def)
  have below: "\<forall>row \<in> set (pg_columns s). column_row_below ?k row"
    and old: "\<And>m d. user_table m \<Longrightarrow> get_table m s = Some d \<Longrightarrow> td_table_id d < ?k \<and>
        rows_of (td_table_id d) (pg_columns s) = column_rows (td_table_id d) (map cd_name (td_columns d))"
    and uniq: "\<And>m m' d e. user_table m \<Longrightarrow> user_table m' \<Longrightarrow> get_table m s = Some d \<Longrightarrow>
        get_table m' s = Some e \<Longrightarrow> td_table_id d = td_table_id e \<Longrightarrow> m = m'"
    using assms(1) unfolding tm_inv_def by blast+
  have long: "\<not> (\<exists>row \<in> set (st_data pg). length row \<le> 1)"
    using below by (fastforce simp: pg column_row_below_def)
  have n: "n \<noteq> ''pg_column''" using assms(2) by (simp add: user_table_def)
  have r: "r = Ok ()" and s': "s' = set_rows ''pg_column'' (filter (other_table_row ?i) (st_data pg) @
      column_rows ?i (map cd_name (td_columns ?d))) (s\<lparr>tm_tables := hm_modify n (\<lambda>t. t\<lparr>st_def := ?d\<rparr>) (tm_tables s)\<rparr>)"
    using assms(3) Some pg n long by (simp_all add: update_table_definition_def Let_def)
  have cols: "hm_get (tm_tables s') ''pg_column'' \<noteq> None" "tm_next_table_id s' = ?k"
      "pg_columns s' = filter (other_table_row ?i) (pg_columns s) @ column_rows ?i (map cd_name (td_columns def))"
    using pg n by (simp_all add: s' set_rows_def pg_columns_def)
  have get: "get_table m s' = (if m = n then Some ?d else get_table m s)" for m
    using Some n pg by (auto simp: s' get_table_def set_rows_get)
  have gn: "get_table n s = Some (st_def t)" using Some by (simp add: get_table_def)
  have B: "\<forall>row \<in> set (pg_columns s'). column_row_below (tm_next_table_id s') row"
    using below column_rows_below old [OF assms(2) gn] by (auto simp: cols)
  have O: "td_table_id d < tm_next_table_id s' \<and> rows_of (td_table_id d) (pg_columns s')
      = column_rows (td_table_id d) (map cd_name (td_columns d))" if "user_table m" "get_table m s' = Some d" for m d
  proof (cases "m = n")
    case True
    then show ?thesis using that old [OF assms(2) gn] rows_of_others [OF below] by (auto simp: cols get)
  next
    case False
    then have "td_table_id d \<noteq> ?i" using uniq [OF that(1) assms(2) _ gn, of d] that(2) get by auto
    then show ?thesis using False that old [of m d] rows_of_others [OF below] by (simp add: cols get)
  qed
  have U: "m = m'" if "user_table m" "user_table m'" "get_table m s' = Some d" "get_table m' s' = Some e"
      "td_table_id d = td_table_id e" for m m' d e
    using that uniq [of m m' d e] uniq [OF that(1) assms(2) _ gn, of d] uniq [OF assms(2) that(2) gn, of e]
    by (auto simp: get split: if_splits)
  show ?thesis using cols(1) B O U r unfolding tm_inv_def by blast
qed

lemma tm_inv_drop:
  assumes "tm_inv s" "user_table n" "drop_table n s = (r, s')"
  shows "tm_inv s'"
proof -
  have "get_table m s' = (if m = n then None else get_table m s)" "tm_next_table_id s' = tm_next_table_id s"
      "hm_get (tm_tables s') ''pg_column'' = hm_get (tm_tables s) ''pg_column''" for m
    using assms(2,3) by (auto simp: drop_table_def get_table_def user_table_def)
  then show ?thesis using assms(1) unfolding tm_inv_def pg_columns_def by (auto split: if_splits)
qed

lemma tm_inv_step: "tm_step E s s' \<Longrightarrow> tm_inv s \<Longrightarrow> tm_inv s'"
proof (erule tm_stepE, goal_cases)
  case 3 then show ?case using tm_inv_define by blast
next
  case (4 n p r)
  then show ?case
    by (auto simp: update_table_root_page_def user_table_def option.map_comp comp_def elim!: tm_inv_same split: if_splits)
next
  case (5 n row r)
  then show ?case
    by (auto simp: tm_insert_def split: option.splits intro: tm_inv_with_buffer tm_inv_set_rows)
next
  case (6 n i row r)
  then show ?case
    by (auto simp: update_row_def split: option.splits if_splits intro: tm_inv_with_buffer tm_inv_set_rows)
next
  case (7 n i r)
  then show ?case
    by (auto simp: delete_row_def st_return_def split: option.splits if_splits elim!: st_bind_cases
        intro: tm_inv_with_buffer tm_inv_set_rows)
next
  case (8 n i row r)
  then show ?case
    by (auto simp: restore_row_def Let_def split: option.splits intro: tm_inv_set_rows)
qed (blast intro: tm_inv_create tm_inv_drop)+

lemma tm_reachable_inv: "tm_reachable E s \<Longrightarrow> tm_inv s"
proof (induction rule: tm_reachable.induct)
  case (reach_buffer s b)
  then show ?case by (auto simp: tm_set_buffer_manager_def elim: tm_inv_same)
qed (auto intro: tm_inv_new tm_inv_step)

subsection \<open>Lemmas: pins that are never given back\<close>

lemma fetch_empty_frame:
  assumes "first_empty (bp_frames b) = Some i" "hm_get (bp_page_to_frame b) p = None"
    and "hm_get (mk_pages (bp_file_manager b)) p = Some pg"
  shows "fetch_page mock_ops p b = (Ok (length (bp_heap b)), loaded i p pg (bp_file_manager b) b)"
proof -
  have f: "find_available_frame b = (Ok i, b)" using assms(1) by (simp add: find_available_frame_def)
  have "bf_page_id (bp_frames b ! i) = None" using first_empty_Some [OF assms(1)] by simp
  then have w: "write_back mock_ops (bp_frames b ! i) b = (Ok (), b)" by (simp add: write_back_def)
  let ?b = "remap i (bp_frames b ! i) p b"
  have "with_fm (op_read_page mock_ops p) ?b = (Ok pg, ?b)"
    using assms(3) by (simp add: with_fm_def mock_ops_def mock_read_page_def remap_fm)
  moreover have "?b = ?b\<lparr>bp_file_manager := bp_file_manager b\<rparr>" by (simp add: remap_fm)
  moreover have "fst (load_frame i (bp_frames b ! i) p pg ?b) = Ok (length (bp_heap b))"
    by (simp add: load_frame_def remap_def Let_def)
  ultimately show ?thesis
    using f w assms(2) by (simp add: fetch_page_def fetch_miss_def loaded_def st_update_def Let_def prod_eq_iff)
qed


lemma length_filter_update:
  assumes "i < length xs" "P (xs ! i)" "\<not> P y"
  shows "Suc (length (filter P (xs[i := y]))) = length (filter P xs)"
  using assms by (simp add: upd_conv_take_nth_drop) (subst (3) id_take_nth_drop [OF assms(1)], simp)

lemma loaded_empty_frame:
  assumes "bf_page_id (bp_frames b ! i) = None"
  shows "hm_get (bp_page_to_frame (loaded i p pg fm b)) q = (if q = p then Some i else hm_get (bp_page_to_frame b) q)"
  using assms by (simp add: loaded_def load_frame_def remap_def set_frame_def Let_def)

lemma leaky_fresh: "leaky b \<Longrightarrow> hm_get (bp_page_to_frame b) (mk_next_page_id (bp_file_manager b)) = None"
  by (cases "hm_get (bp_page_to_frame b) (mk_next_page_id (bp_file_manager b))") (auto simp: leaky_def)

text \<open>The page of a fresh row stays pinned.\<close>

lemma persist_empty_frame:
  assumes "leaky b" "first_empty (bp_frames b) = Some i" "mk_next_page_id (bp_file_manager b) \<noteq> -1"
    and "tl_ops E = mock_ops" "length (tl_row E row) \<le> 8192"
  shows "\<exists>b'. persist_row_to_disk E row b = (Ok (), b') \<and> leaky b' \<and>
    Suc (empty_frames b') = empty_frames b \<and>
    mk_next_page_id (bp_file_manager b') = mk_next_page_id (bp_file_manager b) + 1"
proof -
  define p where "p = mk_next_page_id (bp_file_manager b)"
  define pg where "pg = Page_new p DataPage 8192"
  define fm where "fm = (bp_file_manager b)\<lparr>mk_next_page_id := p + 1,
    mk_pages := hm_insert p pg (mk_pages (bp_file_manager b))\<rparr>"
  define b1 where "b1 = b\<lparr>bp_file_manager := fm\<rparr>"
  define a where "a = length (bp_heap b)"
  define b2 where "b2 = loaded i p pg fm b1"
  define f where "f = (bp_frames b ! i)\<lparr>bf_page := Some a, bf_page_id := Some p, bf_pin_count := 1, bf_dirty := False\<rparr>"
  define b3 where "b3 = update_lru p (set_frame i (pin f) b2)"
  have i: "i < length (bp_frames b)" "bf_page_id (bp_frames b ! i) = None"
    using first_empty_Some [OF assms(2)] by auto
  then have pc: "bf_pin_count (bp_frames b ! i) = 0" using assms(1) by (simp add: leaky_def)
  have alloc: "with_fm (op_allocate_page mock_ops DataPage) b = (Ok p, b1)"
    by (simp add: with_fm_def mock_ops_def mock_allocate_page_def Let_def b1_def fm_def p_def pg_def)
  have fetch1: "fetch_page mock_ops p b1 = (Ok a, b2)"
    using fetch_empty_frame [of b1 i p pg] assms(2) leaky_fresh [OF assms(1)]
    by (simp add: b1_def b2_def a_def fm_def p_def)
  have b2: "bp_frames b2 = (bp_frames b)[i := f]" "bp_heap b2 = bp_heap b @ [pg]" "bp_file_manager b2 = fm"
      "hm_get (bp_page_to_frame b2) q = (if q = p then Some i else hm_get (bp_page_to_frame b) q)" for q
    using pc i by (simp_all add: b2_def loaded_simps loaded_empty_frame b1_def f_def a_def)
  have fetch2: "fetch_page mock_ops p b2 = (Ok a, b3)"
    using i by (simp add: fetch_page_def b2 b3_def Let_def) (simp add: f_def)
  have b3: "bp_frames b3 = (bp_frames b)[i := pin f]" "bp_heap b3 ! a = pg" "bp_file_manager b3 = fm"
      "bp_page_to_frame b3 = bp_page_to_frame b2"
    by (simp_all add: b3_def set_frame_def b2 a_def)
  obtain pg' b' where run: "persist_row_to_disk E row b = unpin_page p True (arc_write a pg' b3)"
    using alloc fetch1 fetch2 assms(4,5)
    by (auto simp: persist_row_to_disk_def new_page_def st_return_def b3 Let_def) (simp add: pg_def Page_new_def)
  define f' where "f' = (pin f)\<lparr>bf_pin_count := 1, bf_dirty := True\<rparr>"
  have u: "unpin_page p True (arc_write a pg' b3) = (Ok (), set_frame i f' (arc_write a pg' b3))"
    using i by (simp add: unpin_page_def unpin_def arc_write_def b3 b2) (simp add: f'_def f_def pin_def)
  let ?b = "set_frame i f' (arc_write a pg' b3)"
  have B: "bp_frames ?b = (bp_frames b)[i := f']" "bp_file_manager ?b = fm"
      "hm_get (bp_page_to_frame ?b) q = (if q = p then Some i else hm_get (bp_page_to_frame b) q)" for q
    by (simp_all add: set_frame_def arc_write_def b3 b2)
  have f': "bf_page_id f' = Some p" "bf_pin_count f' = 1" by (simp_all add: f'_def f_def pin_def)
  have "x < p \<Longrightarrow> x < p + 1" "p < p + 1" for x
    using u64_below_succ u64_less_succ assms(3) by (auto simp: p_def)
  then have "leaky ?b"
    using assms(1) i f' unfolding leaky_def B
    by (auto simp: fm_def p_def nth_list_update dest!: subsetD [OF set_update_subset_insert])
  moreover have "Suc (empty_frames ?b) = empty_frames b"
    using length_filter_update [OF i(1), of "\<lambda>f. bf_page_id f = None" f'] i f' by (simp add: empty_frames_def B)
  moreover have "mk_next_page_id (bp_file_manager ?b) = mk_next_page_id (bp_file_manager b) + 1"
    by (simp add: B fm_def p_def)
  ultimately show ?thesis using run u by simp
qed

lemma persist_full_pool:
  assumes "leaky b" "first_empty (bp_frames b) = None" "tl_ops E = mock_ops"
  shows "fst (persist_row_to_disk E row b) = Err (StorageError ''No available buffer frames'')"
proof -
  let ?p = "mk_next_page_id (bp_file_manager b)"
  obtain fm where alloc: "with_fm (op_allocate_page mock_ops DataPage) b = (Ok ?p, b\<lparr>bp_file_manager := fm\<rparr>)"
    by (simp add: with_fm_def mock_ops_def mock_allocate_page_def Let_def)
  have "evict_lru (bp_frames b) (bp_page_to_frame b) (bp_lru_list b) = (Err (StorageError ''No available buffer frames''), [])"
    using assms(1,2) by (intro evict_all_pinned) (auto simp: leaky_def first_empty_None)
  then show ?thesis
    using alloc assms(2,3) leaky_fresh [OF assms(1)]
    by (simp add: persist_row_to_disk_def new_page_def fetch_page_def fetch_miss_def find_available_frame_def Let_def)
qed


lemma insert_with_buffer:
  assumes "tm_select name s = Ok old" "tm_buffer_manager s = Some b" "persist_row_to_disk E row b = (r, b')"
  shows "\<exists>s1. tm_insert E name row s = (r, s1) \<and> tm_buffer_manager s1 = Some b' \<and> tm_select name s1 = Ok (old @ [row])"
proof -
  obtain t where t: "hm_get (tm_tables s) name = Some t"
    using assms(1) by (auto simp: tm_select_def split: option.splits)
  obtain s1 where s1: "tm_insert E name row s = (r, s1)" "tm_buffer_manager s1 = Some b'"
    using t assms(2,3) by (simp add: tm_insert_def with_buffer_def set_rows_def)
  then show ?thesis using tm_insert_rows(1) [OF assms(1) s1(1)] by blast
qed

lemma empty_frames_0: "empty_frames b = 0 \<longleftrightarrow> first_empty (bp_frames b) = None"
  by (simp add: empty_frames_def first_empty_None filter_empty_conv)

lemma insert_all_exhausts:
  assumes "tl_ops E = mock_ops" "\<forall>row \<in> set rows. length (tl_row E row) \<le> 8192"
    and "tm_select name s = Ok old" "tm_buffer_manager s = Some b" "leaky b" "empty_frames b = c"
    and "length rows = Suc c" "unat (mk_next_page_id (bp_file_manager b)) + c < 2 ^ 64"
  shows "fst (insert_all E name rows s) =
      replicate c (Ok ()) @ [Err (StorageError ''No available buffer frames'')] \<and>
    tm_select name (snd (insert_all E name rows s)) = Ok (old @ rows)"
  using assms(2-)
proof (induction rows arbitrary: s old b c)
  case (Cons row rows)
  show ?case
  proof (cases c)
    case 0
    then have "rows = []" "first_empty (bp_frames b) = None"
      using Cons.prems by (auto simp: empty_frames_0)
    then show ?thesis
      using 0 insert_with_buffer [OF Cons.prems(2,3) prod.collapse [symmetric], of E row]
        persist_full_pool [OF Cons.prems(4) _ assms(1), of row] by (auto split: prod.split)
  next
    case (Suc c')
    let ?n = "mk_next_page_id (bp_file_manager b)"
    have "first_empty (bp_frames b) \<noteq> None"
      using Suc Cons.prems(5) empty_frames_0 [of b] by auto
    then obtain i where i: "first_empty (bp_frames b) = Some i" by auto
    have n: "?n \<noteq> -1" using Cons.prems(7) Suc by (auto simp: unsigned_minus_1_eq_mask mask_eq_exp_minus_1)
    from persist_empty_frame [OF Cons.prems(4) i n assms(1), of row] Cons.prems(1)
    obtain b' where b': "persist_row_to_disk E row b = (Ok (), b')" "leaky b'" "empty_frames b' = c'"
        "mk_next_page_id (bp_file_manager b') = ?n + 1"
      using Cons.prems(5) Suc by auto
    from insert_with_buffer [OF Cons.prems(2,3) b'(1)] obtain s1 where s1: "tm_insert E name row s = (Ok (), s1)"
      "tm_buffer_manager s1 = Some b'" "tm_select name s1 = Ok (old @ [row])" by auto
    have "unat (?n + 1) = Suc (unat ?n)" using n by (rule u64_succ_unat)
    then show ?thesis
      using Cons.IH [OF _ s1(3,2) b'(2,3)] Cons.prems(1,6,7) Suc s1(1) b'(4)
      by (auto split: prod.split)
  qed
qed simp

subsection \<open>Properties\<close>

text \<open>
  The catalog describes the tables. After any run of creations, removals, changed definitions
  and row operations on user tables, with or without a pool and whether or not its operations
  succeed, the rows \<^verbatim>\<open>pg_column\<close> has for the number of a table are those of the columns in its
  definition, in order, and no other user table has that number.
\<close>

theorem catalog_columns_agree:
  assumes "tm_reachable E s" "user_table n" "get_table n s = Some d"
  shows "rows_of (td_table_id d) (pg_columns s) = column_rows (td_table_id d) (map cd_name (td_columns d)) \<and>
    get_column_names n s = Ok (map cd_name (td_columns d)) \<and>
    (\<forall>m e. user_table m \<and> get_table m s = Some e \<and> td_table_id e = td_table_id d \<longrightarrow> m = n)"
proof -
  have "get_column_names n s = Ok (map cd_name (td_columns d))"
    using assms(3) by (auto simp: get_table_def get_column_names_def)
  then show ?thesis using tm_reachable_inv [OF assms(1)] assms(2,3) unfolding tm_inv_def by blast
qed

theorem catalog_columns_agree_witness:
  "let s = snd (create_table [catalog_column 0 ''id'' IntegerT True False, catalog_column 1 ''v'' TextT False False]
       ''t'' (SystemTableManager_new :: MockFileManager SystemTableManager))
   in rows_of 1 (pg_columns s) = [[IntegerV 0, IntegerV 1, StringV ''id''], [IntegerV 1, IntegerV 1, StringV ''v'']]"
proof -
  let ?cols = "[catalog_column 0 ''id'' IntegerT True False, catalog_column 1 ''v'' TextT False False]"
  let ?s0 = "SystemTableManager_new :: MockFileManager SystemTableManager"
  let ?s = "snd (create_table ?cols ''t'' ?s0)"
  have "tm_reachable mock_tm_lib ?s"
    by (rule reach_step [OF reach_new step_create [OF _ _ prod.collapse [symmetric]]])
      (simp_all add: user_table_def SystemTableManager_new_def initialize_system_tables_def)
  moreover obtain d where "get_table ''t'' ?s = Some d" "td_table_id d = 1" "td_columns d = ?cols"
    by (simp add: create_table_def Let_def get_table_def SystemTableManager_new_def initialize_system_tables_def)
  ultimately show ?thesis
    using catalog_columns_agree [of mock_tm_lib ?s "''t''" d]
    by (simp add: user_table_def column_rows_def catalog_column_def)
qed

text \<open>
  Dropping a table leaves it in the catalog. After dropping a user table the table is gone, but
  \<^verbatim>\<open>pg_column\<close> still has the rows of all its columns.
\<close>

theorem drop_table_leaves_columns:
  assumes "tm_reachable E s" "user_table n" "get_table n s = Some d" "drop_table n s = (r, s')"
  shows "get_table n s' = None \<and>
    rows_of (td_table_id d) (pg_columns s') = column_rows (td_table_id d) (map cd_name (td_columns d))"
proof -
  have "get_table n s' = None" "pg_columns s' = pg_columns s"
    using assms(2,4) by (auto simp: drop_table_def get_table_def pg_columns_def user_table_def)
  then show ?thesis using tm_reachable_inv [OF assms(1)] assms(2,3) unfolding tm_inv_def by simp
qed

theorem drop_table_leaves_columns_witness:
  "let s = snd (drop_table ''t'' (snd (create_table [catalog_column 0 ''id'' IntegerT True False] ''t''
       (SystemTableManager_new :: MockFileManager SystemTableManager))))
   in get_table ''t'' s = None \<and> rows_of 1 (pg_columns s) = [[IntegerV 0, IntegerV 1, StringV ''id'']]"
proof -
  let ?cols = "[catalog_column 0 ''id'' IntegerT True False]"
  let ?s = "snd (create_table ?cols ''t'' (SystemTableManager_new :: MockFileManager SystemTableManager))"
  have "tm_reachable mock_tm_lib ?s"
    by (rule reach_step [OF reach_new step_create [OF _ _ prod.collapse [symmetric]]])
      (simp_all add: user_table_def SystemTableManager_new_def initialize_system_tables_def)
  moreover obtain d where "get_table ''t'' ?s = Some d" "td_table_id d = 1" "td_columns d = ?cols"
    by (simp add: create_table_def Let_def get_table_def SystemTableManager_new_def initialize_system_tables_def)
  ultimately show ?thesis
    using drop_table_leaves_columns [OF _ _ _ prod.collapse [symmetric], of mock_tm_lib ?s "''t''" d]
    by (simp add: user_table_def column_rows_def catalog_column_def)
qed

text \<open>
  Creating a table again empties it. \<^verbatim>\<open>create_table\<close> of a name in use reports no error: it
  returns a new number, and the table of that name has no rows; every other user table keeps its rows.
\<close>

theorem recreate_table_loses_rows:
  assumes "user_table n"
  shows "\<exists>s'. create_table cols n s = (Ok (tm_next_table_id s), s') \<and> tm_select n s' = Ok [] \<and>
    (\<forall>m. user_table m \<and> m \<noteq> n \<longrightarrow> tm_select m s' = tm_select m s)"
  using assms by (simp add: create_table_def Let_def tm_select_def user_table_def)

theorem recreate_table_loses_rows_witness:
  "let s = snd (tm_insert mock_tm_lib ''t'' [IntegerV 7] (snd (create_table [] ''t'' SystemTableManager_new)))
   in tm_select ''t'' s = Ok [[IntegerV 7]] \<and> (\<exists>s'. create_table [] ''t'' s = (Ok 2, s') \<and> tm_select ''t'' s' = Ok [])"
proof -
  let ?s = "snd (tm_insert mock_tm_lib ''t'' [IntegerV 7] (snd (create_table [] ''t'' SystemTableManager_new)))"
  have "tm_select ''t'' ?s = Ok [[IntegerV 7]]" "tm_next_table_id ?s = 2"
    by (simp_all add: tm_insert_def with_buffer_def set_rows_def create_table_def Let_def tm_select_def
        SystemTableManager_new_def initialize_system_tables_def)
  then show ?thesis using recreate_table_loses_rows [of "''t''" "[]" ?s] by (auto simp: user_table_def)
qed

text \<open>
  Restoring a deleted row. Deleting row \<open>i\<close> removes it from memory, whether or not the pool can be
  flushed. Restoring it at the same index gives back the table as it was, unless it was the last
  row: then an empty row is left behind it. No other table changes.
\<close>

theorem delete_then_restore:
  assumes "tm_select name s = Ok rows" "i < length rows"
    and "delete_row E name i s = (r, s1)" "restore_row name i (rows ! i) s1 = (r2, s2)"
  shows "(\<forall>x. r = Ok x \<longrightarrow> x = Some (rows ! i)) \<and> r2 = Ok () \<and>
    tm_select name s2 = Ok (if Suc i = length rows then rows @ [[]] else rows) \<and>
    (\<forall>m. m \<noteq> name \<longrightarrow> tm_select m s2 = tm_select m s)"
proof -
  note D = delete_row_rows [OF assms(1-3)] and R = restore_row_rows [OF _ assms(4)]
  from vec_restore [OF assms(2), where d = "[]"] show ?thesis using D(1,3) R(1) [OF D(2)] R(2) [OF D(2)] R(3) [OF D(2)] by simp
qed


theorem delete_then_restore_witness:
  "let s = snd (tm_insert mock_tm_lib ''t'' [IntegerV 7] (snd (create_table [] ''t'' SystemTableManager_new)))
   in tm_select ''t'' (snd (restore_row ''t'' 0 [IntegerV 7] (snd (delete_row mock_tm_lib ''t'' 0 s))))
      = Ok [[IntegerV 7], []]"
proof -
  let ?s = "snd (tm_insert mock_tm_lib ''t'' [IntegerV 7] (snd (create_table [] ''t'' SystemTableManager_new)))"
  have "tm_select ''t'' ?s = Ok [[IntegerV 7]]"
    by (simp add: tm_insert_def with_buffer_def set_rows_def create_table_def Let_def tm_select_def
        SystemTableManager_new_def initialize_system_tables_def)
  from delete_then_restore [OF this _ prod.collapse [symmetric] prod.collapse [symmetric], of 0 mock_tm_lib]
  show ?thesis by simp
qed

text \<open>
  Every insert leaks a buffer frame. Storing a row pins its new page twice and unpins it once. On
  a table manager with a fresh pool of \<open>c\<close> frames over the mock file manager, the first \<open>c\<close> inserts
  of rows that fit a page succeed and the next one fails for lack of frames; the rows of all \<open>c + 1\<close>
  inserts, the failed one included, are in the table.
\<close>

theorem inserts_exhaust_pool:
  assumes "tl_ops E = mock_ops" "\<forall>row \<in> set rows. length (tl_row E row) \<le> 8192"
    and "tm_select name s = Ok old"
    and "tm_buffer_manager s = Some (BufferPoolManager_new c MockFileManager_new)"
    and "length rows = Suc c" "c < 2 ^ 64 - 1"
  shows "fst (insert_all E name rows s) =
      replicate c (Ok ()) @ [Err (StorageError ''No available buffer frames'')] \<and>
    tm_select name (snd (insert_all E name rows s)) = Ok (old @ rows)"
  by (rule insert_all_exhausts [OF assms(1-4)])
    (use assms(5,6) in \<open>auto simp: leaky_def empty_frames_def BufferPoolManager_new_def BufferFrame_new_def MockFileManager_new_def\<close>)

theorem inserts_exhaust_pool_witness:
  "fst (insert_all mock_tm_lib ''t'' [[IntegerV 1], [IntegerV 2]]
     (tm_set_buffer_manager (BufferPoolManager_new 1 MockFileManager_new)
       (snd (create_table [] ''t'' SystemTableManager_new))))
   = [Ok (), Err (StorageError ''No available buffer frames'')]"
  using inserts_exhaust_pool [of mock_tm_lib "[[IntegerV 1], [IntegerV 2]]" "''t''"
      "tm_set_buffer_manager (BufferPoolManager_new 1 MockFileManager_new)
         (snd (create_table [] ''t'' SystemTableManager_new))" "[]" 1]
  by (simp add: mock_tm_lib_def tm_set_buffer_manager_def create_table_def Let_def tm_select_def
      SystemTableManager_new_def initialize_system_tables_def)

end
