(* ===== verification/View_Manager.thy ===== *)
theory View_Manager
  imports Registry
begin

section \<open>Views (\<^verbatim>\<open>src/src/catalog/view.rs\<close>)\<close>

text \<open>
  The view manager keeps the views by name, a dependency graph as two maps that must be inverse to
  each other, the refresh status of every view, schedules and a log of table changes. A clock reading
  is an argument \<open>now\<close>, the same during one operation; a \<^verbatim>\<open>HashSet\<close> is a list whose order
  stands for the iteration order. The two depth-first searches take the depth of the call stack as
  fuel; \<open>Suc\<close> of the number of keys is proved to be enough for every graph.

  The lemmas show that the two maps of the graph agree with the views after every run, what a table
  change and a refresh do to the status of the views, and that the search for cycles is correct.
\<close>

subsection \<open>Data\<close>

type_synonym time = nat

datatype ViewDataType =
    VInteger | VBigInt | VText | VVarchar u32 | VBoolean | VDecimal | VReal | VDate | VTimestamp | VTime

datatype RefreshType = ManualRefresh | OnCommit | OnDemand | Scheduled nat

datatype RefreshStatus = Fresh | Stale | Refreshing | RefreshFailed string

datatype ChangeType = InsertChange | UpdateChange | DeleteChange | TruncateChange | SchemaChange

datatype DependencyType = ReadDep | WriteDep | AutoDep

record ViewColumnDef =
  vc_column_id :: u64
  vc_name :: string
  vc_data_type :: ViewDataType
  vc_nullable :: bool
  vc_default_value :: "string option"

record TableDependency =
  dep_table_id :: u64
  dep_table_name :: string
  dep_schema_id :: u64
  dep_schema_name :: string
  dep_type :: DependencyType

record ViewDef =
  vd_view_id :: u64
  vd_name :: string
  vd_schema_id :: u64
  vd_columns :: "ViewColumnDef list"
  vd_query :: string
  vd_materialized :: bool
  vd_refresh_type :: RefreshType
  vd_last_refreshed :: "time option"
  vd_data_table_id :: "u64 option"
  vd_dependencies :: "TableDependency list"
  vd_created_at :: time
  vd_modified_at :: time

record DependencyChange =
  dc_table_name :: string
  dc_change_type :: ChangeType
  dc_timestamp :: time
  dc_affected_rows :: u64

record RefreshSchedule =
  rs_interval :: nat
  rs_next_refresh :: time
  rs_last_refresh :: "time option"
  rs_active :: bool

type_synonym names_map = "(string, string list) hmap"

record DependencyGraph =
  dg_table_to_views :: names_map
  dg_view_to_tables :: names_map
  dg_view_dependencies :: names_map

record ViewManager =
  vm_views :: "(string, ViewDef) hmap"
  vm_next_view_id :: u64
  vm_next_column_id :: u64
  vm_graph :: DependencyGraph
  vm_change_log :: "DependencyChange list"
  vm_schedules :: "(string, RefreshSchedule) hmap"
  vm_status :: "(string, RefreshStatus) hmap"

record DependencyInfo =
  di_view_name :: string
  di_table_dependencies :: "string list"
  di_view_dependencies :: "string list"
  di_dependent_views :: "string list"
  di_dependency_depth :: nat

record ViewStats =
  vs_total_views :: nat
  vs_materialized_count :: nat
  vs_regular_count :: nat
  vs_stale_views :: nat
  vs_refreshing_views :: nat
  vs_failed_views :: nat

type_synonym 'a vm_op = "(ViewManager, 'a) op"

subsection \<open>The dependency graph\<close>

fun str_contains :: "string \<Rightarrow> string \<Rightarrow> bool" where
  "str_contains p [] = (p = [])"
| "str_contains p (c # cs) = (starts_with p (c # cs) \<or> str_contains p cs)"

definition common_tables :: "string list" where
  "common_tables = [''users'', ''orders'', ''products'', ''customers'', ''items'']"

definition extract_dependencies :: "string \<Rightarrow> TableDependency list" where
  "extract_dependencies query =
     (let query_lower = to_lowercase query
      in map (\<lambda>t. \<lparr>dep_table_id = 0, dep_table_name = t, dep_schema_id = 1,
                 dep_schema_name = ''public'', dep_type = ReadDep\<rparr>)
           (filter (\<lambda>t. str_contains ('' from '' @ t) query_lower \<or>
                        str_contains ('' join '' @ t) query_lower \<or>
                        str_contains ('' '' @ t @ '' '') query_lower) common_tables))"

definition names_in :: "names_map \<Rightarrow> string \<Rightarrow> string list" where
  "names_in m k = (case hm_get m k of None \<Rightarrow> [] | Some l \<Rightarrow> l)"

text \<open>Taking a view out of the sets of the given tables; a set that becomes empty is removed.\<close>

definition detach_table :: "string \<Rightarrow> string \<Rightarrow> names_map \<Rightarrow> names_map" where
  "detach_table view_name table m =
     (case hm_get m table of
        None \<Rightarrow> m
      | Some views \<Rightarrow>
          (let views' = removeAll view_name views
           in if views' = [] then hm_remove table m else hm_insert table views' m))"

definition attach_table :: "string \<Rightarrow> string \<Rightarrow> names_map \<Rightarrow> names_map" where
  "attach_table view_name table m = hm_insert table (List.insert view_name (names_in m table)) m"

definition update_dependency_graph ::
    "string \<Rightarrow> TableDependency list \<Rightarrow> DependencyGraph \<Rightarrow> DependencyGraph" where
  "update_dependency_graph view_name dependencies g =
     (let old_tables = names_in (dg_view_to_tables g) view_name;
          tables = map dep_table_name dependencies
      in g\<lparr>dg_table_to_views :=
             fold (attach_table view_name) tables
               (fold (detach_table view_name) old_tables (dg_table_to_views g)),
           dg_view_to_tables :=
             hm_insert view_name (fold List.insert tables []) (hm_remove view_name (dg_view_to_tables g))\<rparr>)"

definition remove_from_dependency_graph :: "string \<Rightarrow> DependencyGraph \<Rightarrow> DependencyGraph" where
  "remove_from_dependency_graph view_name g =
     (let tables = names_in (dg_view_to_tables g) view_name
      in g\<lparr>dg_table_to_views := fold (detach_table view_name) tables (dg_table_to_views g),
           dg_view_to_tables := hm_remove view_name (dg_view_to_tables g),
           dg_view_dependencies :=
             hm_map_values (removeAll view_name) (hm_remove view_name (dg_view_dependencies g))\<rparr>)"

subsection \<open>Views\<close>

definition ViewManager_new :: ViewManager where
  "ViewManager_new = \<lparr>vm_views = [], vm_next_view_id = 1, vm_next_column_id = 1,
     vm_graph = \<lparr>dg_table_to_views = [], dg_view_to_tables = [], dg_view_dependencies = []\<rparr>,
     vm_change_log = [], vm_schedules = [], vm_status = []\<rparr>"

definition view_columns :: "u64 \<Rightarrow> (string \<times> ViewDataType) list \<Rightarrow> ViewColumnDef list" where
  "view_columns next_id columns =
     map (\<lambda>(i, (n, t)). \<lparr>vc_column_id = next_id + of_nat i, vc_name = n, vc_data_type = t,
            vc_nullable = True, vc_default_value = None\<rparr>) (zip [0..<length columns] columns)"

definition create_view ::
    "time \<Rightarrow> u64 \<times> (string \<times> ViewDataType) list \<times> string \<times> bool \<Rightarrow> string \<Rightarrow> u64 vm_op" where
  "create_view now = (\<lambda>(schema_id, columns, query, materialized) name s.
     (if hm_contains (vm_views s) name
      then (Err (AlreadyExistsError ''View already exists''), s)
      else (let view_id = vm_next_view_id s;
                dependencies = extract_dependencies query;
                def = \<lparr>vd_view_id = view_id, vd_name = name, vd_schema_id = schema_id,
                       vd_columns = view_columns (vm_next_column_id s) columns, vd_query = query,
                       vd_materialized = materialized, vd_refresh_type = ManualRefresh,
                       vd_last_refreshed = (if materialized then None else Some now),
                       vd_data_table_id = None, vd_dependencies = dependencies,
                       vd_created_at = now, vd_modified_at = now\<rparr>
            in (Ok view_id, s\<lparr>vm_next_view_id := vm_next_view_id s + 1,
                  vm_next_column_id := vm_next_column_id s + of_nat (length columns),
                  vm_graph := update_dependency_graph name dependencies (vm_graph s),
                  vm_status := hm_insert name (if materialized then Stale else Fresh) (vm_status s),
                  vm_views := hm_insert name def (vm_views s)\<rparr>))))"

definition depends_on :: "string \<Rightarrow> ViewDef \<Rightarrow> bool" where
  "depends_on table_name view = list_ex (\<lambda>dep. dep_table_name dep = table_name) (vd_dependencies view)"

definition drop_view :: "bool \<Rightarrow> string \<Rightarrow> unit vm_op" where
  "drop_view cascade name s =
     (if \<not> hm_contains (vm_views s) name then (Err (NotFoundError ''View not found''), s)
      else if \<not> cascade \<and> list_ex (\<lambda>other. vd_name other \<noteq> name \<and> depends_on name other) (hm_values (vm_views s))
      then (Err (DependentObjectsError ''Cannot drop view because view depends on it''), s)
      else (Ok (), s\<lparr>vm_views := hm_remove name (vm_views s),
              vm_graph := remove_from_dependency_graph name (vm_graph s),
              vm_schedules := hm_remove name (vm_schedules s),
              vm_status := hm_remove name (vm_status s)\<rparr>))"

definition get_view :: "string \<Rightarrow> ViewManager \<Rightarrow> ViewDef option" where
  "get_view name s = hm_get (vm_views s) name"

definition view_list_in_schema :: "u64 \<Rightarrow> ViewManager \<Rightarrow> ViewDef list" where
  "view_list_in_schema schema_id s = filter (\<lambda>v. vd_schema_id v = schema_id) (hm_values (vm_views s))"

definition list_views :: "ViewManager \<Rightarrow> ViewDef list" where
  "list_views s = hm_values (vm_views s)"

definition list_materialized_views :: "ViewManager \<Rightarrow> ViewDef list" where
  "list_materialized_views s = filter vd_materialized (hm_values (vm_views s))"

definition view_exists :: "string \<Rightarrow> ViewManager \<Rightarrow> bool" where
  "view_exists name s = hm_contains (vm_views s) name"

definition get_dependent_views :: "string \<Rightarrow> ViewManager \<Rightarrow> ViewDef list" where
  "get_dependent_views table_name s = filter (depends_on table_name) (hm_values (vm_views s))"

subsection \<open>Refreshing\<close>

definition refresh_materialized_view :: "time \<Rightarrow> string \<Rightarrow> bool \<Rightarrow> unit vm_op" where
  "refresh_materialized_view now name with_data s =
     (case hm_get (vm_views s) name of
        None \<Rightarrow> (Err (NotFoundError ''View not found''), s)
      | Some view \<Rightarrow>
          if \<not> vd_materialized view then (Err (InvalidOperationError ''is not a materialized view''), s)
          else (Ok (), s\<lparr>vm_views := hm_modify name
                   (\<lambda>v. v\<lparr>vd_last_refreshed := Some now, vd_modified_at := now\<rparr>) (vm_views s),
                 vm_status := hm_insert name Fresh (hm_insert name Refreshing (vm_status s))\<rparr>))"

definition schedule_refresh :: "time \<Rightarrow> string \<Rightarrow> nat \<Rightarrow> unit vm_op" where
  "schedule_refresh now name interval s =
     (case hm_get (vm_views s) name of
        None \<Rightarrow> (Err (NotFoundError ''View not found''), s)
      | Some view \<Rightarrow>
          if \<not> vd_materialized view
          then (Err (InvalidOperationError ''Cannot schedule refresh for non-materialized view''), s)
          else (Ok (), s\<lparr>vm_schedules := hm_insert name \<lparr>rs_interval = interval,
                   rs_next_refresh = now + interval, rs_last_refresh = None, rs_active = True\<rparr>
                 (vm_schedules s)\<rparr>))"

definition schedule_due :: "time \<Rightarrow> string \<Rightarrow> ViewManager \<Rightarrow> bool" where
  "schedule_due now name s =
     (case hm_get (vm_schedules s) name of
        None \<Rightarrow> False
      | Some schedule \<Rightarrow> rs_active schedule \<and> now \<ge> rs_next_refresh schedule)"

definition needs_refresh :: "time \<Rightarrow> string \<Rightarrow> ViewManager \<Rightarrow> bool res" where
  "needs_refresh now name s =
     (case hm_get (vm_views s) name of
        None \<Rightarrow> Err (NotFoundError ''View not found'')
      | Some view \<Rightarrow>
          if \<not> vd_materialized view then Ok False
          else (case hm_get (vm_status s) name of
                  None \<Rightarrow> Ok True
                | Some Fresh \<Rightarrow> Ok (schedule_due now name s)
                | Some Stale \<Rightarrow> Ok True
                | Some (RefreshFailed _) \<Rightarrow> Ok True
                | Some Refreshing \<Rightarrow> Ok False))"

definition get_refresh_status :: "string \<Rightarrow> ViewManager \<Rightarrow> RefreshStatus res" where
  "get_refresh_status name s =
     (case hm_get (vm_status s) name of
        None \<Rightarrow> Err (NotFoundError ''View not found'') | Some st \<Rightarrow> Ok st)"

definition mark_stale :: "string \<Rightarrow> (string, RefreshStatus) hmap \<Rightarrow> (string, RefreshStatus) hmap" where
  "mark_stale view_name status =
     (case hm_get status view_name of
        Some Fresh \<Rightarrow> hm_insert view_name Stale status
      | Some (RefreshFailed _) \<Rightarrow> hm_insert view_name Stale status
      | _ \<Rightarrow> status)"

definition mark_dependent_views_stale :: "string \<Rightarrow> ViewManager \<Rightarrow> ViewManager" where
  "mark_dependent_views_stale table_name s =
     s\<lparr>vm_status := fold mark_stale (names_in (dg_table_to_views (vm_graph s)) table_name) (vm_status s)\<rparr>"

definition record_table_change :: "time \<Rightarrow> string \<Rightarrow> ChangeType \<Rightarrow> u64 \<Rightarrow> unit vm_op" where
  "record_table_change now table_name change_type affected_rows s =
     (let change_log = vm_change_log s @ [\<lparr>dc_table_name = table_name, dc_change_type = change_type,
            dc_timestamp = now, dc_affected_rows = affected_rows\<rparr>];
          s1 = mark_dependent_views_stale table_name s
      in (Ok (), s1\<lparr>vm_change_log :=
            (if length change_log > 1000 then drop (length change_log - 1000) change_log else change_log)\<rparr>))"

definition view_needs_refresh :: "time \<Rightarrow> ViewManager \<Rightarrow> string \<times> ViewDef \<Rightarrow> bool" where
  "view_needs_refresh now s = (\<lambda>(name, view). vd_materialized view \<and>
     (case hm_get (vm_status s) name of
        Some Fresh \<Rightarrow> schedule_due now name s
      | Some Stale \<Rightarrow> True
      | Some (RefreshFailed _) \<Rightarrow> True
      | Some Refreshing \<Rightarrow> False
      | None \<Rightarrow> True))"

definition get_views_needing_refresh :: "time \<Rightarrow> ViewManager \<Rightarrow> string list" where
  "get_views_needing_refresh now s = map fst (filter (view_needs_refresh now s) (vm_views s))"

definition update_refresh_schedule :: "time \<Rightarrow> string \<Rightarrow> ViewManager \<Rightarrow> ViewManager" where
  "update_refresh_schedule now view_name s =
     s\<lparr>vm_schedules := hm_modify view_name
        (\<lambda>sch. sch\<lparr>rs_last_refresh := Some now, rs_next_refresh := now + rs_interval sch\<rparr>) (vm_schedules s)\<rparr>"

fun refresh_views :: "time \<Rightarrow> string list \<Rightarrow> string list \<Rightarrow> string list vm_op" where
  "refresh_views now [] refreshed s = (Ok refreshed, s)"
| "refresh_views now (n # ns) refreshed s =
     (case refresh_materialized_view now n True s of
        (Ok _, s1) \<Rightarrow> refresh_views now ns (refreshed @ [n]) (update_refresh_schedule now n s1)
      | (Err e, s1) \<Rightarrow> refresh_views now ns refreshed
            (s1\<lparr>vm_status := hm_insert n (RefreshFailed (error_text e)) (vm_status s1)\<rparr>)
      | (r, s1) \<Rightarrow> (res_cast r, s1))"

definition refresh_all_stale_views :: "time \<Rightarrow> string list vm_op" where
  "refresh_all_stale_views now s = refresh_views now (get_views_needing_refresh now s) [] s"

definition get_recent_changes :: "time \<Rightarrow> string \<Rightarrow> time option \<Rightarrow> ViewManager \<Rightarrow> DependencyChange list" where
  "get_recent_changes now view_name since s =
     (let view_tables = names_in (dg_view_to_tables (vm_graph s)) view_name;
          cutoff_time = (case since of None \<Rightarrow> now - 3600 | Some t \<Rightarrow> t)
      in filter (\<lambda>c. dc_table_name c \<in> set view_tables \<and> dc_timestamp c \<ge> cutoff_time) (vm_change_log s))"

definition get_view_stats :: "ViewManager \<Rightarrow> ViewStats" where
  "get_view_stats s =
     (let mats = filter (\<lambda>(n, v). vd_materialized v) (vm_views s);
          count = (\<lambda>P. length (filter (\<lambda>(n, v). P (hm_get (vm_status s) n)) mats))
      in \<lparr>vs_total_views = length (vm_views s), vs_materialized_count = length mats,
          vs_regular_count = length (vm_views s) - length mats,
          vs_stale_views = count (\<lambda>st. st = None \<or> st = Some Stale),
          vs_refreshing_views = count (\<lambda>st. st = Some Refreshing),
          vs_failed_views = count (\<lambda>st. case st of Some (RefreshFailed _) \<Rightarrow> True | _ \<Rightarrow> False)\<rparr>)"

subsection \<open>Searching the graph\<close>

fun calculate_depth_dfs :: "nat \<Rightarrow> names_map \<Rightarrow> string \<Rightarrow> (string list, nat) op"
  and calculate_depth_deps :: "nat \<Rightarrow> names_map \<Rightarrow> string list \<Rightarrow> nat \<Rightarrow> (string list, nat) op" where
  "calculate_depth_dfs 0 deps view_name visited = (Panic ''stack overflow'', visited)"
| "calculate_depth_dfs (Suc n) deps view_name visited =
     (if view_name \<in> set visited
      then (Err (InvalidOperationError ''Circular dependency detected''), visited)
      else st_bind
             (case hm_get deps view_name of
                None \<Rightarrow> st_return 0
              | Some dependencies \<Rightarrow> calculate_depth_deps n deps dependencies 0)
             (\<lambda>max_depth. st_bind (st_update (removeAll view_name)) (\<lambda>_. st_return (max_depth + 1)))
             (List.insert view_name visited))"
| "calculate_depth_deps n deps [] acc visited = (Ok acc, visited)"
| "calculate_depth_deps n deps (d # ds) acc visited =
     (case calculate_depth_dfs n deps d visited of
        (Ok depth, visited1) \<Rightarrow> calculate_depth_deps n deps ds (max acc depth) visited1
      | (r, visited1) \<Rightarrow> (r, visited1))"

definition calculate_dependency_depth :: "string \<Rightarrow> ViewManager \<Rightarrow> nat res" where
  "calculate_dependency_depth view_name s =
     (let deps = dg_view_dependencies (vm_graph s)
      in fst (calculate_depth_dfs (Suc (length deps)) deps view_name []))"

definition get_dependency_info :: "string \<Rightarrow> ViewManager \<Rightarrow> DependencyInfo res" where
  "get_dependency_info name s =
     (case hm_get (vm_views s) name of
        None \<Rightarrow> Err (NotFoundError ''View not found'')
      | Some _ \<Rightarrow> res_bind (calculate_dependency_depth name s) (\<lambda>depth.
          Ok \<lparr>di_view_name = name,
              di_table_dependencies = names_in (dg_view_to_tables (vm_graph s)) name,
              di_view_dependencies = names_in (dg_view_dependencies (vm_graph s)) name,
              di_dependent_views = names_in (dg_table_to_views (vm_graph s)) name,
              di_dependency_depth = depth\<rparr>))"

text \<open>The state of the search for cycles: the visited views and the recursion stack.\<close>

type_synonym cycle_state = "string list \<times> string list"

fun detect_cycle_dfs :: "nat \<Rightarrow> names_map \<Rightarrow> string \<Rightarrow> (cycle_state, string option) op"
  and detect_cycle_deps :: "nat \<Rightarrow> names_map \<Rightarrow> string list \<Rightarrow> (cycle_state, string option) op" where
  "detect_cycle_dfs 0 deps view_name st = (Panic ''stack overflow'', st)"
| "detect_cycle_dfs (Suc n) deps view_name (visited, stack) =
     (case (case hm_get deps view_name of
              None \<Rightarrow> (Ok None, (List.insert view_name visited, List.insert view_name stack))
            | Some dependencies \<Rightarrow> detect_cycle_deps n deps dependencies
                (List.insert view_name visited, List.insert view_name stack)) of
        (Ok None, (visited1, stack1)) \<Rightarrow> (Ok None, (visited1, removeAll view_name stack1))
      | r \<Rightarrow> r)"
| "detect_cycle_deps n deps [] st = (Ok None, st)"
| "detect_cycle_deps n deps (d # ds) (visited, stack) =
     (if d \<notin> set visited
      then (case detect_cycle_dfs n deps d (visited, stack) of
              (Ok None, st1) \<Rightarrow> detect_cycle_deps n deps ds st1
            | r \<Rightarrow> r)
      else if d \<in> set stack then (Ok (Some (''Cycle detected involving view: '' @ d)), (visited, stack))
      else detect_cycle_deps n deps ds (visited, stack))"

fun validate_views :: "nat \<Rightarrow> names_map \<Rightarrow> string list \<Rightarrow> string list \<Rightarrow> (cycle_state, string list) op" where
  "validate_views n deps [] cycles st = (Ok cycles, st)"
| "validate_views n deps (v # vs) cycles st =
     (if v \<in> set (fst st) then validate_views n deps vs cycles st
      else st_bind (detect_cycle_dfs n deps v)
             (\<lambda>c. validate_views n deps vs (case c of None \<Rightarrow> cycles | Some m \<Rightarrow> cycles @ [m])) st)"

definition validate_dependencies :: "ViewManager \<Rightarrow> string list res" where
  "validate_dependencies s =
     (let deps = dg_view_dependencies (vm_graph s)
      in fst (validate_views (Suc (length deps)) deps (hm_keys deps) [] ([], [])))"

definition view_id_of :: "ViewManager \<Rightarrow> string \<Rightarrow> u64 option" where
  "view_id_of s name = map_option vd_view_id (get_view name s)"

subsection \<open>Runs of the manager and the invariant\<close>

definition dep_names :: "ViewDef \<Rightarrow> string set" where
  "dep_names v = dep_table_name ` set (vd_dependencies v)"

text \<open>What is recorded about one view agrees with its definition.\<close>

definition vm_inv :: "ViewManager \<Rightarrow> bool" where
  "vm_inv s \<longleftrightarrow>
     hm_wf (vm_views s) \<and>
     (\<forall>n v. hm_get (vm_views s) n = Some v \<longrightarrow> vd_name v = n \<and> dep_names v \<subseteq> set common_tables) \<and>
     (\<forall>n. set (names_in (dg_view_to_tables (vm_graph s)) n) =
        (case hm_get (vm_views s) n of None \<Rightarrow> {} | Some v \<Rightarrow> dep_names v)) \<and>
     (\<forall>t n. n \<in> set (names_in (dg_table_to_views (vm_graph s)) t) \<longleftrightarrow>
        (\<exists>v. hm_get (vm_views s) n = Some v \<and> t \<in> dep_names v)) \<and>
     dg_view_dependencies (vm_graph s) = [] \<and>
     (\<forall>n. hm_get (vm_views s) n = None \<longrightarrow> hm_get (vm_status s) n = None \<and> hm_get (vm_schedules s) n = None) \<and>
     (\<forall>n v. hm_get (vm_views s) n = Some v \<longrightarrow> hm_get (vm_status s) n \<in> {Some Fresh, Some Stale})"

inductive vm_step :: "ViewManager \<Rightarrow> ViewManager \<Rightarrow> bool" where
  view_create: "create_view now a n s = (r, s') \<Longrightarrow> vm_step s s'"
| view_drop: "drop_view c n s = (rd, s') \<Longrightarrow> vm_step s s'"
| view_refresh: "refresh_materialized_view now n d s = (rd, s') \<Longrightarrow> vm_step s s'"
| view_schedule: "schedule_refresh now n i s = (rd, s') \<Longrightarrow> vm_step s s'"
| view_change: "record_table_change now t ty k s = (rd, s') \<Longrightarrow> vm_step s s'"
| view_refresh_all: "refresh_all_stale_views now s = (rl, s') \<Longrightarrow> vm_step s s'"

inductive vm_reachable :: "ViewManager \<Rightarrow> bool" where
  view_new: "vm_reachable ViewManager_new"
| view_step: "vm_reachable s \<Longrightarrow> vm_step s s' \<Longrightarrow> vm_reachable s'"

definition staled :: "RefreshStatus \<Rightarrow> RefreshStatus" where
  "staled st = (case st of Refreshing \<Rightarrow> Refreshing | _ \<Rightarrow> Stale)"

subsection \<open>Paths in a dependency graph\<close>

definition deps_rel :: "names_map \<Rightarrow> (string \<times> string) set" where
  "deps_rel deps = {(u, v). v \<in> set (names_in deps u)}"

definition dfs_done :: "cycle_state \<Rightarrow> string set" where
  "dfs_done st = set (fst st) - set (snd st)"

text \<open>The views whose search is over are closed under dependencies and on no cycle.\<close>

definition dfs_inv :: "names_map \<Rightarrow> cycle_state \<Rightarrow> bool" where
  "dfs_inv deps st \<longleftrightarrow> set (snd st) \<subseteq> set (fst st) \<and>
     deps_rel deps `` dfs_done st \<subseteq> dfs_done st \<and> (\<forall>v \<in> dfs_done st. (v, v) \<notin> (deps_rel deps)\<^sup>+)"

definition unvisited :: "names_map \<Rightarrow> cycle_state \<Rightarrow> nat" where
  "unvisited deps st = card (fst ` set deps - set (fst st))"

definition on_cycle :: "names_map \<Rightarrow> bool" where
  "on_cycle deps \<longleftrightarrow> (\<exists>v. (v, v) \<in> (deps_rel deps)\<^sup>+)"

definition cycle_below :: "names_map \<Rightarrow> string \<Rightarrow> bool" where
  "cycle_below deps v \<longleftrightarrow> (\<exists>w. (v, w) \<in> (deps_rel deps)\<^sup>* \<and> (w, w) \<in> (deps_rel deps)\<^sup>+)"

text \<open>One more than the length of the longest path.\<close>

definition depth_is :: "names_map \<Rightarrow> string \<Rightarrow> nat \<Rightarrow> bool" where
  "depth_is deps v d \<longleftrightarrow> (\<forall>k w. (v, w) \<in> deps_rel deps ^^ k \<longrightarrow> k < d) \<and>
     (\<exists>k w. d = Suc k \<and> (v, w) \<in> deps_rel deps ^^ k)"

definition deps_max :: "names_map \<Rightarrow> string list \<Rightarrow> nat \<Rightarrow> nat \<Rightarrow> bool" where
  "deps_max deps ds acc m \<longleftrightarrow> acc \<le> m \<and> (\<forall>d \<in> set ds. \<exists>k \<le> m. depth_is deps d k) \<and>
     (m = acc \<or> (\<exists>d \<in> set ds. depth_is deps d m))"

subsection \<open>The registry of views\<close>

interpretation views: strict_registry view_id_of vm_next_view_id "create_view now" "drop_view cascade"
  by unfold_locales
    (auto simp: create_view_def drop_view_def view_id_of_def get_view_def Let_def fun_eq_iff hm_contains_get
      simp del: hm_contains_iff split: if_splits prod.splits)

subsection \<open>Lemmas: the invariant\<close>

lemma names_in_simps [simp]:
  "names_in [] k = []"
  "names_in (hm_insert k l m) k' = (if k' = k then l else names_in m k')"
  "names_in (hm_remove k m) k' = (if k' = k then [] else names_in m k')"
  by (simp_all add: names_in_def)

lemma removeAll_Nil: "removeAll v xs = [] \<Longrightarrow> set xs \<subseteq> {v}"
  by (induction xs) (auto split: if_splits)

lemma detach_table_set:
  "set (names_in (detach_table v t m) t') = set (names_in m t') - (if t' = t then {v} else {})"
proof (cases "hm_get m t")
  case (Some views)
  have "set (removeAll v views) = set views - {v}" by simp
  then show ?thesis
    using Some removeAll_Nil [of v views] by (auto simp: detach_table_def Let_def names_in_def)
qed (auto simp: detach_table_def names_in_def)

lemma detach_tables_set:
  "set (names_in (fold (detach_table v) ts m) t') = set (names_in m t') - (if t' \<in> set ts then {v} else {})"
  by (induction ts arbitrary: m) (auto simp: detach_table_set)

lemma attach_tables_set:
  "set (names_in (fold (attach_table v) ts m) t') = set (names_in m t') \<union> (if t' \<in> set ts then {v} else {})"
  by (induction ts arbitrary: m) (auto simp: attach_table_def)

lemma set_fold_insert [simp]: "set (fold List.insert xs ys) = set xs \<union> set ys"
  by (induction xs arbitrary: ys) auto

lemma extract_dependencies_common: "dep_table_name ` set (extract_dependencies q) \<subseteq> set common_tables"
  by (auto simp: extract_dependencies_def Let_def)

lemma mark_stale_get:
  "hm_get (mark_stale v m) n = (if n = v then map_option staled (hm_get m n) else hm_get m n)"
  by (auto simp: mark_stale_def staled_def split: option.splits RefreshStatus.splits)

lemma staled_staled [simp]: "staled (staled st) = staled st"
  by (cases st) (simp_all add: staled_def)

lemma mark_stales_get:
  "hm_get (fold mark_stale vs m) n = (if n \<in> set vs then map_option staled (hm_get m n) else hm_get m n)"
  by (induction vs arbitrary: m) (auto simp: mark_stale_get option.map_comp comp_def)

lemma vm_inv_new: "vm_inv ViewManager_new"
  by (simp add: vm_inv_def ViewManager_new_def)

lemma vm_invD:
  assumes "vm_inv s"
  shows "hm_wf (vm_views s)"
    "hm_get (vm_views s) n = Some v \<Longrightarrow> vd_name v = n"
    "hm_get (vm_views s) n = Some v \<Longrightarrow> dep_names v \<subseteq> set common_tables"
    "set (names_in (dg_view_to_tables (vm_graph s)) n) = (case hm_get (vm_views s) n of None \<Rightarrow> {} | Some v \<Rightarrow> dep_names v)"
    "n \<in> set (names_in (dg_table_to_views (vm_graph s)) t) \<longleftrightarrow> (\<exists>v. hm_get (vm_views s) n = Some v \<and> t \<in> dep_names v)"
    "dg_view_dependencies (vm_graph s) = []"
    "hm_get (vm_views s) n = None \<Longrightarrow> hm_get (vm_status s) n = None"
    "hm_get (vm_views s) n = Some v \<Longrightarrow> hm_get (vm_status s) n = Some Fresh \<or> hm_get (vm_status s) n = Some Stale"
    "hm_get (vm_views s) n = None \<Longrightarrow> hm_get (vm_schedules s) n = None"
  using assms unfolding vm_inv_def by simp_all

lemma vm_invI:
  assumes "hm_wf (vm_views s)"
    "\<And>n v. hm_get (vm_views s) n = Some v \<Longrightarrow> vd_name v = n \<and> dep_names v \<subseteq> set common_tables"
    "\<And>n. set (names_in (dg_view_to_tables (vm_graph s)) n) = (case hm_get (vm_views s) n of None \<Rightarrow> {} | Some v \<Rightarrow> dep_names v)"
    "\<And>t n. n \<in> set (names_in (dg_table_to_views (vm_graph s)) t) \<longleftrightarrow> (\<exists>v. hm_get (vm_views s) n = Some v \<and> t \<in> dep_names v)"
    "dg_view_dependencies (vm_graph s) = []"
    "\<And>n. hm_get (vm_views s) n = None \<Longrightarrow> hm_get (vm_status s) n = None \<and> hm_get (vm_schedules s) n = None"
    "\<And>n v. hm_get (vm_views s) n = Some v \<Longrightarrow> hm_get (vm_status s) n \<in> {Some Fresh, Some Stale}"
  shows "vm_inv s"
  unfolding vm_inv_def using assms by blast

lemma vm_inv_create:
  assumes "vm_inv s" "create_view now a n s = (r, s')"
  shows "vm_inv s'"
proof (cases "hm_get (vm_views s) n")
  case None
  note D = vm_invD [OF assms(1)]
  obtain sid cols q mat where a: "a = (sid, cols, q, mat)" by (metis prod.exhaust)
  define v where "v = \<lparr>vd_view_id = vm_next_view_id s, vd_name = n, vd_schema_id = sid,
     vd_columns = view_columns (vm_next_column_id s) cols, vd_query = q, vd_materialized = mat,
     vd_refresh_type = ManualRefresh, vd_last_refreshed = (if mat then None else Some now),
     vd_data_table_id = None, vd_dependencies = extract_dependencies q, vd_created_at = now, vd_modified_at = now\<rparr>"
  have s': "vm_views s' = hm_insert n v (vm_views s)"
      "vm_graph s' = update_dependency_graph n (extract_dependencies q) (vm_graph s)"
      "vm_status s' = hm_insert n (if mat then Stale else Fresh) (vm_status s)" "vm_schedules s' = vm_schedules s"
    using assms(2) None by (auto simp: create_view_def a Let_def hm_contains_get v_def simp del: hm_contains_iff)
  have dn: "dep_names v = dep_table_name ` set (extract_dependencies q)" by (simp add: dep_names_def v_def)
  have t2v: "set (names_in (dg_table_to_views (vm_graph s')) t) =
      set (names_in (dg_table_to_views (vm_graph s)) t) \<union> (if t \<in> dep_names v then {n} else {})" for t
    using D(4) [of n] None by (simp add: s' update_dependency_graph_def Let_def attach_tables_set dn)
  have v2t: "set (names_in (dg_view_to_tables (vm_graph s')) m) =
      (if m = n then dep_names v else set (names_in (dg_view_to_tables (vm_graph s)) m))" for m
    by (simp add: s' update_dependency_graph_def Let_def dn)
  have dd: "dg_view_dependencies (vm_graph s') = []" using D(6) by (simp add: s' update_dependency_graph_def Let_def)
  have vn: "vd_name v = n" by (simp add: v_def)
  show ?thesis
  proof (rule vm_invI, goal_cases)
    case (2 m w)
    then show ?case
      using D(2,3) [of m w] vn dn extract_dependencies_common [of q] by (cases "m = n") (simp_all add: s')
  next
    case (4 t m)
    then show ?case using D(5) [of m t] None by (auto simp: s'(1) t2v)
  next
    case (6 m)
    then show ?case using D(7,9) [of m] by (auto simp: s' split: if_splits)
  next
    case (7 m w)
    then show ?case using D(8) [of m w] by (auto simp: s' split: if_splits)
  qed (use D(1,4) None in \<open>auto simp: s'(1) v2t dd\<close>)
next
  case (Some v)
  then have "s' = s" using assms(2)
    by (auto simp: create_view_def Let_def hm_contains_get simp del: hm_contains_iff split: prod.splits)
  then show ?thesis using assms(1) by simp
qed


lemma remove_graph:
  "set (names_in (dg_table_to_views (remove_from_dependency_graph n g)) t) =
     set (names_in (dg_table_to_views g) t) - (if t \<in> set (names_in (dg_view_to_tables g) n) then {n} else {})"
  "names_in (dg_view_to_tables (remove_from_dependency_graph n g)) m =
     (if m = n then [] else names_in (dg_view_to_tables g) m)"
  "dg_view_dependencies g = [] \<Longrightarrow> dg_view_dependencies (remove_from_dependency_graph n g) = []"
  by (simp_all add: remove_from_dependency_graph_def Let_def detach_tables_set hm_map_values_def)

lemma vm_inv_drop:
  assumes "vm_inv s" "drop_view c n s = (r, s')"
  shows "vm_inv s'"
proof (cases "s' = s")
  case False
  note D = vm_invD [OF assms(1)]
  have s': "s' = s\<lparr>vm_views := hm_remove n (vm_views s),
              vm_graph := remove_from_dependency_graph n (vm_graph s),
              vm_schedules := hm_remove n (vm_schedules s),
              vm_status := hm_remove n (vm_status s)\<rparr>"
    using assms(2) False by (auto simp: drop_view_def split: if_splits)
  show ?thesis
  proof (rule vm_invI, goal_cases)
    case (4 t m)
    then show ?case using D(4) [of n] D(5) [of m t] by (auto simp: s' remove_graph split: option.splits)
  next
    case (6 m)
    then show ?case using D(7,9) [of m] by (auto simp: s' split: if_splits)
  next
    case (7 m w)
    then show ?case using D(8) [of m w] by (auto simp: s' split: if_splits)
  qed (use D(1-4,6) in \<open>auto simp: s' remove_graph split: if_splits\<close>)
qed (use assms in simp)

text \<open>Changes of the status and of fields of the views other than those the graph is made of.\<close>

lemma vm_inv_update:
  assumes "vm_inv s" "vm_graph s' = vm_graph s" "map fst (vm_views s') = map fst (vm_views s)"
    "\<And>n. map_option (\<lambda>v. (vd_name v, vd_dependencies v)) (hm_get (vm_views s') n)
       = map_option (\<lambda>v. (vd_name v, vd_dependencies v)) (hm_get (vm_views s) n)"
    "\<And>n. hm_get (vm_views s) n = None \<Longrightarrow> hm_get (vm_status s') n = None \<and> hm_get (vm_schedules s') n = None"
    "\<And>n v. hm_get (vm_views s) n = Some v \<Longrightarrow> hm_get (vm_status s') n \<in> {Some Fresh, Some Stale}"
  shows "vm_inv s'"
proof -
  note D = vm_invD [OF assms(1)]
  have none: "hm_get (vm_views s') n = None \<longleftrightarrow> hm_get (vm_views s) n = None" for n
    using assms(4) [of n] by (cases "hm_get (vm_views s') n"; cases "hm_get (vm_views s) n") auto
  have some': "\<exists>w. hm_get (vm_views s') n = Some w \<and> dep_names w = dep_names v"
    if "hm_get (vm_views s) n = Some v" for n v
    using assms(4) [of n] that by (cases "hm_get (vm_views s') n") (auto simp: dep_names_def)
  have some: "\<exists>w. hm_get (vm_views s) n = Some w \<and> vd_name w = vd_name v \<and> dep_names w = dep_names v"
    if "hm_get (vm_views s') n = Some v" for n v
    using assms(4) [of n] that by (cases "hm_get (vm_views s) n") (auto simp: dep_names_def)
  show ?thesis
  proof (rule vm_invI, goal_cases)
    case 1
    then show ?case using D(1) assms(3) by (simp add: hm_wf_def)
  next
    case (2 n v)
    then obtain w where "hm_get (vm_views s) n = Some w" "vd_name w = vd_name v" "dep_names w = dep_names v"
      using some by blast
    then show ?case using D(2,3) [of n w] by simp
  next
    case (3 n)
    then show ?case
      using D(4) [of n] none [of n] some [of n] by (cases "hm_get (vm_views s') n") (auto simp: assms(2))
  next
    case (4 t n)
    show ?case unfolding assms(2) D(5) using some [of n] some' [of n] by blast
  next
    case (6 n)
    then show ?case using assms(5) [of n] none [of n] by simp
  next
    case (7 n v)
    then show ?case using some assms(6) by blast
  qed (use D(6) assms(2) in simp)
qed

lemma vm_inv_refresh:
  assumes "vm_inv s" "refresh_materialized_view now n d s = (r, s')"
  shows "vm_inv s'"
proof (cases "s' = s")
  case False
  note D = vm_invD [OF assms(1)]
  obtain v where v: "hm_get (vm_views s) n = Some v"
    and s': "s' = s\<lparr>vm_views := hm_modify n
                   (\<lambda>v. v\<lparr>vd_last_refreshed := Some now, vd_modified_at := now\<rparr>) (vm_views s),
                 vm_status := hm_insert n Fresh (hm_insert n Refreshing (vm_status s))\<rparr>"
    using assms(2) False by (auto simp: refresh_materialized_view_def split: option.splits if_splits)
  show ?thesis
    by (rule vm_inv_update [OF assms(1)])
      (use v D(7,8) vm_invD(9) [OF assms(1)] in \<open>auto simp: s' option.map_comp comp_def\<close>)
qed (use assms in simp)


lemma vm_inv_schedule:
  assumes "vm_inv s" "schedule_refresh now n i s = (r, s')"
  shows "vm_inv s'"
proof (cases "s' = s")
  case False
  note D = vm_invD [OF assms(1)]
  obtain v sch where v: "hm_get (vm_views s) n = Some v"
    and s': "s' = s\<lparr>vm_schedules := hm_insert n sch (vm_schedules s)\<rparr>"
    using assms(2) False by (auto simp: schedule_refresh_def split: option.splits if_splits)
  show ?thesis
    by (rule vm_inv_update [OF assms(1)]) (use v D(7,8,9) in \<open>auto simp: s'\<close>)
qed (use assms in simp)

lemma vm_inv_change:
  assumes "vm_inv s" "record_table_change now t ty k s = (r, s')"
  shows "vm_inv s'"
proof -
  note D = vm_invD [OF assms(1)]
  have s': "vm_graph s' = vm_graph s" "vm_views s' = vm_views s" "vm_schedules s' = vm_schedules s"
      "vm_status s' = fold mark_stale (names_in (dg_table_to_views (vm_graph s)) t) (vm_status s)"
    using assms(2) by (auto simp: record_table_change_def mark_dependent_views_stale_def Let_def)
  have "hm_get (vm_status s') n \<in> {Some Fresh, Some Stale}" if "hm_get (vm_views s) n = Some v" for n v
    using D(8) [OF that] by (auto simp: s' mark_stales_get staled_def)
  then show ?thesis
    by (intro vm_inv_update [OF assms(1)]) (use D(7,9) in \<open>auto simp: s' mark_stales_get\<close>)
qed

text \<open>The refresh of a list of materialized views.\<close>

lemma refresh_views_result:
  assumes "\<forall>n \<in> set ns. \<exists>v. hm_get (vm_views s) n = Some v \<and> vd_materialized v"
  shows "\<exists>s'. refresh_views now ns acc s = (Ok (acc @ ns), s') \<and> vm_graph s' = vm_graph s \<and>
    map (\<lambda>(n, v). (n, vd_materialized v, vd_name v, vd_dependencies v)) (vm_views s') =
      map (\<lambda>(n, v). (n, vd_materialized v, vd_name v, vd_dependencies v)) (vm_views s) \<and>
    (\<forall>n. hm_get (vm_status s') n = (if n \<in> set ns then Some Fresh else hm_get (vm_status s) n)) \<and>
    (\<forall>n. hm_get (vm_schedules s') n = (if n \<in> set ns then map_option (\<lambda>sch. sch\<lparr>rs_last_refresh := Some now,
        rs_next_refresh := now + rs_interval sch\<rparr>) (hm_get (vm_schedules s) n) else hm_get (vm_schedules s) n))"
  using assms
proof (induction ns arbitrary: acc s)
  case (Cons n ns)
  obtain v where v: "hm_get (vm_views s) n = Some v" "vd_materialized v" using Cons.prems by auto
  let ?f = "\<lambda>v. v\<lparr>vd_last_refreshed := Some now, vd_modified_at := now\<rparr>"
  let ?s = "update_refresh_schedule now n (s\<lparr>vm_views := hm_modify n ?f (vm_views s),
    vm_status := hm_insert n Fresh (hm_insert n Refreshing (vm_status s))\<rparr>)"
  have run: "refresh_views now (n # ns) acc s = refresh_views now ns (acc @ [n]) ?s"
    using v by (simp add: refresh_materialized_view_def)
  have "\<forall>m \<in> set ns. \<exists>v. hm_get (vm_views ?s) m = Some v \<and> vd_materialized v"
    using Cons.prems v by (auto simp: update_refresh_schedule_def)
  from Cons.IH [OF this, of "acc @ [n]"] obtain s' where s':
    "refresh_views now ns (acc @ [n]) ?s = (Ok (acc @ n # ns), s')" "vm_graph s' = vm_graph s"
    "map (\<lambda>(n, v). (n, vd_materialized v, vd_name v, vd_dependencies v)) (vm_views s') =
      map (\<lambda>(n, v). (n, vd_materialized v, vd_name v, vd_dependencies v)) (vm_views ?s)"
    "\<And>m. hm_get (vm_status s') m = (if m \<in> set ns then Some Fresh else hm_get (vm_status ?s) m)"
    "\<And>m. hm_get (vm_schedules s') m = (if m \<in> set ns then map_option (\<lambda>sch. sch\<lparr>rs_last_refresh := Some now,
        rs_next_refresh := now + rs_interval sch\<rparr>) (hm_get (vm_schedules ?s) m) else hm_get (vm_schedules ?s) m)"
    by (auto simp: update_refresh_schedule_def)
  have views: "map (\<lambda>(n, v). (n, vd_materialized v, vd_name v, vd_dependencies v)) (vm_views ?s) =
      map (\<lambda>(n, v). (n, vd_materialized v, vd_name v, vd_dependencies v)) (vm_views s)"
    by (auto simp: update_refresh_schedule_def hm_modify_def split: if_splits)
  have "hm_get (vm_schedules s') m = (if m \<in> set (n # ns) then map_option (\<lambda>sch. sch\<lparr>rs_last_refresh := Some now,
        rs_next_refresh := now + rs_interval sch\<rparr>) (hm_get (vm_schedules s) m) else hm_get (vm_schedules s) m)" for m
    by (auto simp: s'(5) update_refresh_schedule_def option.map_comp comp_def)
  moreover have "hm_get (vm_status s') m = (if m \<in> set (n # ns) then Some Fresh else hm_get (vm_status s) m)" for m
    by (simp add: s'(4) update_refresh_schedule_def)
  ultimately show ?case using run s'(1,2,3) views by auto
qed auto

lemma views_map_get:
  assumes "map (\<lambda>(n, v). (n, g v)) xs = map (\<lambda>(n, v). (n, g v)) ys"
  shows "map_option g (hm_get xs n) = map_option g (hm_get ys n)"
  using arg_cong [OF assms, of "\<lambda>l. map_of l n"] by (simp add: map_of_map)

lemma views_needing_refresh_iff:
  assumes "hm_wf (vm_views s)"
  shows "n \<in> set (get_views_needing_refresh now s) \<longleftrightarrow> needs_refresh now n s = Ok True"
proof -
  have "n \<in> set (get_views_needing_refresh now s) \<longleftrightarrow>
      (\<exists>v. hm_get (vm_views s) n = Some v \<and> view_needs_refresh now s (n, v))"
    using hm_get_iff [OF assms] by (force simp: get_views_needing_refresh_def)
  then show ?thesis
    by (auto simp: needs_refresh_def view_needs_refresh_def split: option.splits RefreshStatus.splits)
qed

lemma refresh_all_result:
  assumes "vm_inv s"
  shows "\<exists>s'. refresh_all_stale_views now s = (Ok (get_views_needing_refresh now s), s') \<and> vm_inv s' \<and>
    map (\<lambda>(n, v). (n, vd_materialized v)) (vm_views s') = map (\<lambda>(n, v). (n, vd_materialized v)) (vm_views s) \<and>
    (\<forall>n. hm_get (vm_status s') n =
       (if n \<in> set (get_views_needing_refresh now s) then Some Fresh else hm_get (vm_status s) n)) \<and>
    (\<forall>n. hm_get (vm_schedules s') n = (if n \<in> set (get_views_needing_refresh now s)
       then map_option (\<lambda>sch. sch\<lparr>rs_last_refresh := Some now, rs_next_refresh := now + rs_interval sch\<rparr>)
              (hm_get (vm_schedules s) n) else hm_get (vm_schedules s) n))"
proof -
  note D = vm_invD [OF assms]
  let ?ns = "get_views_needing_refresh now s"
  have ns: "\<exists>v. hm_get (vm_views s) n = Some v \<and> vd_materialized v" if "n \<in> set ?ns" for n
    using that views_needing_refresh_iff [OF D(1), of n now]
    by (auto simp: needs_refresh_def split: option.splits if_splits)
  obtain s' where s': "refresh_views now ?ns [] s = (Ok ?ns, s')" "vm_graph s' = vm_graph s"
    "map (\<lambda>(n, v). (n, vd_materialized v, vd_name v, vd_dependencies v)) (vm_views s') =
      map (\<lambda>(n, v). (n, vd_materialized v, vd_name v, vd_dependencies v)) (vm_views s)"
    "\<And>n. hm_get (vm_status s') n = (if n \<in> set ?ns then Some Fresh else hm_get (vm_status s) n)"
    "\<And>n. hm_get (vm_schedules s') n = (if n \<in> set ?ns then map_option (\<lambda>sch. sch\<lparr>rs_last_refresh := Some now,
        rs_next_refresh := now + rs_interval sch\<rparr>) (hm_get (vm_schedules s) n) else hm_get (vm_schedules s) n)"
    using refresh_views_result [of ?ns s now "[]"] ns by auto
  have views: "map (\<lambda>(n, v). (n, vd_materialized v)) (vm_views s') = map (\<lambda>(n, v). (n, vd_materialized v)) (vm_views s)"
      "map fst (vm_views s') = map fst (vm_views s)"
    using arg_cong [OF s'(3), of "map (\<lambda>(n, m, _). (n, m))"] arg_cong [OF s'(3), of "map fst"]
    by (simp_all add: comp_def split_def)
  have "map_option (\<lambda>v. (vd_name v, vd_dependencies v)) (hm_get (vm_views s') n)
      = map_option (\<lambda>v. (vd_name v, vd_dependencies v)) (hm_get (vm_views s) n)" for n
    using arg_cong [OF views_map_get [OF s'(3), of n], of "map_option snd"] by (simp add: option.map_comp comp_def)
  then have "vm_inv s'"
    by (intro vm_inv_update [OF assms s'(2) views(2)]) (use ns D(7,8,9) in \<open>fastforce simp: s'(4,5)\<close>)+
  then show ?thesis using s' views by (auto simp: refresh_all_stale_views_def)
qed

lemma vm_inv_step:
  assumes "vm_step s s'" "vm_inv s"
  shows "vm_inv s'"
  using assms(1)
proof (cases rule: vm_step.cases)
  case (view_refresh_all now rl)
  obtain s'' where "refresh_all_stale_views now s = (Ok (get_views_needing_refresh now s), s'')" "vm_inv s''"
    using refresh_all_result [OF assms(2), of now] by blast
  then show ?thesis using view_refresh_all by simp
qed (fact vm_inv_create [OF assms(2)] vm_inv_drop [OF assms(2)] vm_inv_refresh [OF assms(2)]
    vm_inv_schedule [OF assms(2)] vm_inv_change [OF assms(2)])+

lemma vm_reachable_inv: "vm_reachable s \<Longrightarrow> vm_inv s"
  by (induction rule: vm_reachable.induct) (auto intro: vm_inv_new vm_inv_step)


subsection \<open>Lemmas: the searches\<close>

lemma unvisited_insert:
  assumes "hm_get deps v = Some ds" "v \<notin> set visited"
  shows "Suc (unvisited deps (List.insert v visited, stack')) = unvisited deps (visited, stack)"
proof -
  have "v \<in> fst ` set deps - set visited" using assms by (force dest: map_of_SomeD)
  moreover have "fst ` set deps - set (List.insert v visited) = (fst ` set deps - set visited) - {v}" by auto
  ultimately show ?thesis unfolding unvisited_def fst_conv by (metis card_Suc_Diff1 finite_Diff finite_imageI finite_set)
qed

lemma unvisited_mono: "set (fst st) \<subseteq> set (fst st') \<Longrightarrow> unvisited deps st' \<le> unvisited deps st"
  unfolding unvisited_def by (intro card_mono) auto

text \<open>Enough fuel: the search ends.\<close>

lemma detect_cycle_total:
  "v \<notin> set (fst st) \<Longrightarrow> unvisited deps st < n \<Longrightarrow>
     \<exists>r st'. detect_cycle_dfs n deps v st = (Ok r, st') \<and> set (fst st) \<subseteq> set (fst st')"
  "unvisited deps st < n \<Longrightarrow>
     \<exists>r st'. detect_cycle_deps n deps ds st = (Ok r, st') \<and> set (fst st) \<subseteq> set (fst st')"
proof (induction n deps v st and n deps ds st rule: detect_cycle_dfs_detect_cycle_deps.induct)
  case (2 n deps v visited stack)
  show ?case
  proof (cases "hm_get deps v")
    case None
    then show ?thesis by auto
  next
    case (Some ds)
    let ?st = "(List.insert v visited, List.insert v stack)"
    have "unvisited deps ?st < n"
      using unvisited_insert [OF Some, of visited "List.insert v stack" stack] 2 by simp
    then obtain r st' where "detect_cycle_deps n deps ds ?st = (Ok r, st')" "set (fst ?st) \<subseteq> set (fst st')"
      using "2.IH" [OF Some] by blast
    then show ?thesis using Some by (cases st'; cases r) auto
  qed
next
  case (4 n deps d ds visited stack)
  show ?case
  proof (cases "d \<in> set visited")
    case False
    then obtain r st1 where r: "detect_cycle_dfs n deps d (visited, stack) = (Ok r, st1)" "set visited \<subseteq> set (fst st1)"
      using "4.IH"(1) "4.prems" by auto
    have "unvisited deps st1 < n"
      using unvisited_mono [of "(visited, stack)" st1 deps] r(2) "4.prems" by simp
    then show ?thesis
      using False r "4.IH"(2) [OF False r(1) [symmetric]] by (cases r) force+
  qed (use 4 in auto)
qed auto


lemma deps_rel_iff [simp]: "(u, v) \<in> deps_rel deps \<longleftrightarrow> v \<in> set (names_in deps u)"
  by (simp add: deps_rel_def)

text \<open>Finishing a view all of whose dependencies are done.\<close>

lemma dfs_inv_finish:
  assumes "dfs_inv deps (visited, stack)" "v \<in> set stack" "set (names_in deps v) \<subseteq> dfs_done (visited, stack)"
  shows "dfs_inv deps (visited, removeAll v stack)" "dfs_done (visited, removeAll v stack) = insert v (dfs_done (visited, stack))"
proof -
  let ?D = "dfs_done (visited, stack)" and ?E = "deps_rel deps"
  have sub: "set stack \<subseteq> set visited" and closed: "?E `` ?D \<subseteq> ?D" and acyc: "\<forall>u \<in> ?D. (u, u) \<notin> ?E\<^sup>+"
    using assms(1) by (auto simp: dfs_inv_def)
  show D: "dfs_done (visited, removeAll v stack) = insert v ?D"
    using assms(2) sub by (auto simp: dfs_done_def)
  have reach: "y \<in> ?D" if "(x, y) \<in> ?E\<^sup>*" "x \<in> ?D" for x y
    using that by (induction rule: rtrancl_induct) (use closed in blast)+
  have "(v, v) \<notin> ?E\<^sup>+"
  proof
    assume "(v, v) \<in> ?E\<^sup>+"
    then obtain x where "(v, x) \<in> ?E" "(x, v) \<in> ?E\<^sup>*" by (meson tranclD)
    then have "v \<in> ?D" using reach [of x v] assms(3) by auto
    then show False using assms(2) by (simp add: dfs_done_def)
  qed
  then show "dfs_inv deps (visited, removeAll v stack)"
    using sub closed acyc assms(3) unfolding dfs_inv_def D by auto
qed

lemma detect_cycle_result:
  "dfs_inv deps st \<Longrightarrow> v \<notin> set (fst st) \<Longrightarrow> (\<forall>u \<in> set (snd st). (u, v) \<in> (deps_rel deps)\<^sup>*) \<Longrightarrow>
     detect_cycle_dfs n deps v st = (Ok r, st') \<Longrightarrow>
     (case r of Some _ \<Rightarrow> on_cycle deps
      | None \<Rightarrow> dfs_inv deps st' \<and> set (snd st') = set (snd st) \<and> insert v (dfs_done st) \<subseteq> dfs_done st')"
  "dfs_inv deps st \<Longrightarrow> w \<in> set (snd st) \<Longrightarrow> (\<forall>u \<in> set (snd st). (u, w) \<in> (deps_rel deps)\<^sup>*) \<Longrightarrow>
     set ds \<subseteq> set (names_in deps w) \<Longrightarrow> detect_cycle_deps n deps ds st = (Ok r, st') \<Longrightarrow>
     (case r of Some _ \<Rightarrow> on_cycle deps
      | None \<Rightarrow> dfs_inv deps st' \<and> set (snd st') = set (snd st) \<and> set ds \<union> dfs_done st \<subseteq> dfs_done st')"
proof (induction n deps v st and n deps ds st arbitrary: r st' and w r st' rule: detect_cycle_dfs_detect_cycle_deps.induct)
  case (2 n deps v visited stack)
  let ?st = "(List.insert v visited, List.insert v stack)"
  have vs: "v \<notin> set stack" using "2.prems"(1,2) by (auto simp: dfs_inv_def)
  have inv: "dfs_inv deps ?st" and D: "dfs_done ?st = dfs_done (visited, stack)"
    using "2.prems"(1,2) by (auto simp: dfs_inv_def dfs_done_def)
  have path: "\<forall>u \<in> set (snd ?st). (u, v) \<in> (deps_rel deps)\<^sup>*" using "2.prems"(3) by auto
  define m where "m = (case hm_get deps v of None \<Rightarrow> (Ok None, ?st) | Some ds \<Rightarrow> detect_cycle_deps n deps ds ?st)"
  have m: "(case r of Some _ \<Rightarrow> on_cycle deps
      | None \<Rightarrow> dfs_inv deps st' \<and> set (snd st') = set (snd ?st) \<and> set (names_in deps v) \<union> dfs_done ?st \<subseteq> dfs_done st')"
    if "m = (Ok r, st')" for r st'
  proof (cases "hm_get deps v")
    case None
    then show ?thesis using that inv by (auto simp: m_def names_in_def)
  next
    case (Some ds)
    then have "names_in deps v = ds" "m = detect_cycle_deps n deps ds ?st" by (simp_all add: m_def names_in_def)
    then show ?thesis using that "2.IH" [OF Some inv _ path, of r st'] by (cases r) simp_all
  qed
  have run: "(case m of (Ok None, (visited1, stack1)) \<Rightarrow> (Ok None, (visited1, removeAll v stack1)) | r \<Rightarrow> r) = (Ok r, st')"
    using "2.prems"(4) by (simp add: m_def)
  show ?case
  proof (cases r)
    case (Some x)
    then have "m = (Ok (Some x), st')" using run by (auto split: prod.splits res.splits option.splits)
    then show ?thesis using m [of r st'] Some by simp
  next
    case None
    then obtain visited1 stack1 where m1: "m = (Ok None, (visited1, stack1))" "st' = (visited1, removeAll v stack1)"
      using run by (auto split: prod.splits res.splits option.splits)
    have M: "dfs_inv deps (visited1, stack1)" "set stack1 = insert v (set stack)"
      "set (names_in deps v) \<subseteq> dfs_done (visited1, stack1)" "dfs_done (visited, stack) \<subseteq> dfs_done (visited1, stack1)"
      using m [OF m1(1)] D by auto
    from dfs_inv_finish [OF M(1) _ M(3)] M(2,4) vs show ?thesis
      using None m1(2) by auto
  qed
next
  case (4 n deps d ds visited stack)
  have edge: "(w, d) \<in> deps_rel deps" using "4.prems"(4) by simp
  show ?case
  proof (cases "d \<in> set visited")
    case True
    show ?thesis
    proof (cases "d \<in> set stack")
      case s: True
      then have "(d, d) \<in> (deps_rel deps)\<^sup>+"
        using "4.prems"(3) edge by (auto intro: rtrancl_into_trancl1)
      moreover have "r \<noteq> None" using "4.prems"(5) True s by auto
      ultimately show ?thesis by (auto simp: on_cycle_def)
    next
      case False
      then have "d \<in> dfs_done (visited, stack)" using True by (simp add: dfs_done_def)
      then show ?thesis
        using "4.IH"(3) [OF _ False "4.prems"(1,2,3)] "4.prems"(4,5) True False
        by (auto split: option.splits)
    qed
  next
    case False
    have path: "\<forall>u \<in> set stack. (u, d) \<in> (deps_rel deps)\<^sup>*"
      using "4.prems"(3) edge by (auto intro: rtrancl_into_rtrancl)
    obtain r1 st1 where d: "detect_cycle_dfs n deps d (visited, stack) = (r1, st1)"
      by (rule prod.exhaust)
    show ?thesis
    proof (cases "r1 = Ok None")
      case True
      then have R: "dfs_inv deps st1" "set (snd st1) = set stack" "insert d (dfs_done (visited, stack)) \<subseteq> dfs_done st1"
        using "4.IH"(1) [OF False "4.prems"(1)] False path d by auto
      have "detect_cycle_deps n deps ds st1 = (Ok r, st')"
        using "4.prems"(5) d True False by simp
      from "4.IH"(2) [OF False d [symmetric] True refl R(1) _ _ _ this, of w] show ?thesis
        using R "4.prems"(2-4) by (cases r) auto
    next
      case r1: False
      then have "r1 = Ok r" "st1 = st'"
        using "4.prems"(5) d False by (auto split: res.splits option.splits)
      moreover from this r1 obtain x where "r = Some x" by auto
      ultimately show ?thesis
        using "4.IH"(1) [OF False "4.prems"(1), of r st'] False path d by auto
    qed
  qed
qed auto


lemma validate_views_total:
  "unvisited deps st < n \<Longrightarrow> \<exists>cs st'. validate_views n deps vs cycles st = (Ok (cycles @ cs), st')"
proof (induction vs arbitrary: cycles st)
  case (Cons v vs)
  show ?case
  proof (cases "v \<in> set (fst st)")
    case False
    obtain r st1 where d: "detect_cycle_dfs n deps v st = (Ok r, st1)" "set (fst st) \<subseteq> set (fst st1)"
      using detect_cycle_total(1) [OF False Cons.prems] by blast
    then have "unvisited deps st1 < n" using unvisited_mono [OF d(2), of deps] Cons.prems by simp
    from Cons.IH [OF this, of "case r of None \<Rightarrow> cycles | Some m \<Rightarrow> cycles @ [m]"] show ?thesis
      using False d(1) by (cases r) auto
  qed (use Cons in simp)
qed simp

lemma validate_views_result:
  "dfs_inv deps st \<Longrightarrow> snd st = [] \<Longrightarrow> unvisited deps st < n \<Longrightarrow>
   validate_views n deps vs cycles st = (Ok (cycles @ cs), st') \<Longrightarrow>
   (if cs = [] then dfs_inv deps st' \<and> set vs \<union> dfs_done st \<subseteq> dfs_done st' else on_cycle deps)"
proof (induction vs arbitrary: cycles cs st)
  case (Cons v vs)
  show ?case
  proof (cases "v \<in> set (fst st)")
    case True
    then have "v \<in> dfs_done st" using Cons.prems(2) by (simp add: dfs_done_def)
    moreover have "validate_views n deps vs cycles st = (Ok (cycles @ cs), st')" using True Cons.prems(4) by simp
    ultimately show ?thesis using Cons.IH [OF Cons.prems(1,2,3), of cycles cs] by (auto split: if_splits)
  next
    case False
    obtain r st1 where d: "detect_cycle_dfs n deps v st = (Ok r, st1)" "set (fst st) \<subseteq> set (fst st1)"
      using detect_cycle_total(1) [OF False Cons.prems(3)] by blast
    then have u: "unvisited deps st1 < n" using unvisited_mono [OF d(2), of deps] Cons.prems by simp
    note R = detect_cycle_result(1) [OF Cons.prems(1) False _ d(1)]
    show ?thesis
    proof (cases r)
      case None
      then have "dfs_inv deps st1" "snd st1 = []" "insert v (dfs_done st) \<subseteq> dfs_done st1"
        using R Cons.prems(2) by auto
      then show ?thesis
        using Cons.IH [of st1 cycles cs] u Cons.prems(4) False d(1) None by (auto split: if_splits)
    next
      case (Some m)
      then have "on_cycle deps" using R Cons.prems(2) by simp
      moreover obtain cs' where "cs = m # cs'"
        using validate_views_total [OF u, of vs "cycles @ [m]"] Cons.prems(4) False d(1) Some by auto
      ultimately show ?thesis by simp
    qed
  qed
qed auto

lemma depth_is_Suc:
  assumes "deps_max deps (names_in deps v) 0 m"
  shows "depth_is deps v (Suc m)"
  unfolding depth_is_def
proof (intro conjI allI impI)
  fix k w
  assume p: "(v, w) \<in> deps_rel deps ^^ k"
  show "k < Suc m"
  proof (cases k)
    case (Suc k')
    with p obtain x where x: "(v, x) \<in> deps_rel deps" "(x, w) \<in> deps_rel deps ^^ k'" by (meson relpow_Suc_D2)
    then obtain d where "d \<le> m" "depth_is deps x d" using assms by (auto simp: deps_max_def)
    then have "k' < d" using x(2) by (auto simp: depth_is_def)
    then show ?thesis using Suc \<open>d \<le> m\<close> by simp
  qed simp
next
  have "\<exists>w. (v, w) \<in> deps_rel deps ^^ m"
  proof (cases m)
    case (Suc m')
    then obtain x where x: "x \<in> set (names_in deps v)" "depth_is deps x m" using assms by (auto simp: deps_max_def)
    then obtain w where "(x, w) \<in> deps_rel deps ^^ m'" using Suc by (auto simp: depth_is_def)
    then show ?thesis using relpow_Suc_I2 [of v x "deps_rel deps" w m'] x(1) Suc by auto
  qed auto
  then show "\<exists>k w. Suc m = Suc k \<and> (v, w) \<in> deps_rel deps ^^ k" by auto
qed

lemma calculate_depth_result:
  "unvisited deps (visited, []) < n \<Longrightarrow> \<forall>u \<in> set visited. (u, v) \<in> (deps_rel deps)\<^sup>+ \<Longrightarrow>
     (\<exists>d. calculate_depth_dfs n deps v visited = (Ok d, visited) \<and> depth_is deps v d) \<or>
     (\<exists>e visited'. calculate_depth_dfs n deps v visited = (Err e, visited') \<and> cycle_below deps v)"
  "unvisited deps (visited, []) < n \<Longrightarrow> \<forall>u \<in> set visited. \<forall>d \<in> set ds. (u, d) \<in> (deps_rel deps)\<^sup>+ \<Longrightarrow>
     (\<exists>m. calculate_depth_deps n deps ds acc visited = (Ok m, visited) \<and> deps_max deps ds acc m) \<or>
     (\<exists>e visited'. calculate_depth_deps n deps ds acc visited = (Err e, visited') \<and> (\<exists>d \<in> set ds. cycle_below deps d))"
proof (induction n deps v visited and n deps ds acc visited rule: calculate_depth_dfs_calculate_depth_deps.induct)
  case (2 n deps v visited)
  show ?case
  proof (cases "v \<in> set visited")
    case True
    then have "cycle_below deps v" using "2.prems"(2) by (auto simp: cycle_below_def)
    then show ?thesis using True by simp
  next
    case False
    let ?m = "case hm_get deps v of None \<Rightarrow> st_return 0 | Some ds \<Rightarrow> calculate_depth_deps n deps ds 0"
    have ins: "List.insert v visited = v # visited" "removeAll v (v # visited) = visited"
      using False by (simp_all add: List.insert_def)
    have "(\<exists>m. ?m (v # visited) = (Ok m, v # visited) \<and> deps_max deps (names_in deps v) 0 m) \<or>
      (\<exists>e visited'. ?m (v # visited) = (Err e, visited') \<and> (\<exists>d \<in> set (names_in deps v). cycle_below deps d))"
    proof (cases "hm_get deps v")
      case None
      then show ?thesis by (simp add: st_return_def deps_max_def names_in_def)
    next
      case (Some ds)
      have "unvisited deps (v # visited, []) < n"
        using unvisited_insert [OF Some False, of "[]" "[]"] "2.prems"(1) ins by simp
      moreover have "\<forall>u \<in> set (v # visited). \<forall>d \<in> set ds. (u, d) \<in> (deps_rel deps)\<^sup>+"
        using "2.prems"(2) Some by (auto simp: names_in_def intro: trancl_into_trancl)
      ultimately show ?thesis using "2.IH" [OF False Some] Some ins by (simp add: names_in_def)
    qed
    then show ?thesis
    proof (elim disjE exE conjE)
      fix m assume m: "?m (v # visited) = (Ok m, v # visited)" "deps_max deps (names_in deps v) 0 m"
      then have "calculate_depth_dfs (Suc n) deps v visited = (Ok (Suc m), visited)"
        using False ins by (simp add: st_update_def st_return_def)
      then show ?thesis using depth_is_Suc [OF m(2)] by blast
    next
      fix e visited' assume e: "?m (v # visited) = (Err e, visited')" "\<exists>d \<in> set (names_in deps v). cycle_below deps d"
      then have "calculate_depth_dfs (Suc n) deps v visited = (Err e, visited')" using False ins by simp
      moreover have "cycle_below deps v"
        using e(2) unfolding cycle_below_def by (meson converse_rtrancl_into_rtrancl deps_rel_iff)
      ultimately show ?thesis by blast
    qed
  qed
next
  case (3 n deps acc visited)
  then show ?case by (simp add: deps_max_def)
next
  case (4 n deps d ds acc visited)
  have "\<forall>u \<in> set visited. (u, d) \<in> (deps_rel deps)\<^sup>+" using "4.prems"(2) by simp
  from "4.IH"(1) [OF "4.prems"(1) this] show ?case
  proof (elim disjE exE conjE)
    fix k assume k: "calculate_depth_dfs n deps d visited = (Ok k, visited)" "depth_is deps d k"
    have "deps_max deps (d # ds) acc m" if "deps_max deps ds (max acc k) m" for m
    proof -
      have "acc \<le> m" "k \<le> m" using that by (auto simp: deps_max_def)
      moreover from this have "\<exists>j \<le> m. depth_is deps d j" using k(2) by blast
      ultimately show ?thesis using that k(2) unfolding deps_max_def by (auto simp: max_def split: if_splits)
    qed
    then show ?thesis
      using "4.IH"(2) [OF k(1) [symmetric] refl "4.prems"(1)] "4.prems"(2) k(1) by auto
  qed auto
qed auto

subsection \<open>Properties\<close>



text \<open>
  A table change makes the views on the table stale. After recording a change of table \<open>t\<close>, every
  materialized view that reads \<open>t\<close> needs a refresh, and the status of every view that does not read it
  is unchanged.
\<close>

theorem table_change_marks_stale:
  assumes "vm_reachable s" "record_table_change now t ty k s = (r, s')" "get_view n s = Some v"
  shows "r = Ok () \<and> (if depends_on t v then vd_materialized v \<longrightarrow> (\<forall>now'. needs_refresh now' n s' = Ok True)
    else get_refresh_status n s' = get_refresh_status n s)"
proof -
  note D = vm_invD [OF vm_reachable_inv [OF assms(1)]]
  have v: "hm_get (vm_views s) n = Some v" using assms(3) by (simp add: get_view_def)
  have s': "r = Ok ()" "vm_views s' = vm_views s"
      "vm_status s' = fold mark_stale (names_in (dg_table_to_views (vm_graph s)) t) (vm_status s)"
    using assms(2) by (auto simp: record_table_change_def mark_dependent_views_stale_def Let_def)
  have dep: "n \<in> set (names_in (dg_table_to_views (vm_graph s)) t) \<longleftrightarrow> depends_on t v"
    unfolding D(5) using v by (auto simp: depends_on_def dep_names_def list_ex_iff)
  then have "hm_get (vm_status s') n = (if depends_on t v then Some Stale else hm_get (vm_status s) n)"
    using D(8) [OF v] by (auto simp: s' mark_stales_get staled_def)
  then show ?thesis using v by (auto simp: s' needs_refresh_def get_refresh_status_def)
qed

theorem table_change_marks_stale_witness:
  "let s = snd (refresh_materialized_view 1 ''v'' True (snd (create_view 0 (1, [], ''select id from users'', True) ''v''
     ViewManager_new)))
   in needs_refresh 5 ''v'' s = Ok False \<and>
      needs_refresh 5 ''v'' (snd (record_table_change 2 ''users'' InsertChange 1 s)) = Ok True"
proof -
  let ?s0 = "snd (create_view 0 (1, [], ''select id from users'', True) ''v'' ViewManager_new)"
  let ?s = "snd (refresh_materialized_view 1 ''v'' True ?s0)"
  have "vm_reachable ?s"
    by (rule view_step [OF view_step [OF view_new view_create [OF prod.collapse [symmetric]]]
          view_refresh [OF prod.collapse [symmetric]]])
  moreover have "needs_refresh 5 ''v'' ?s = Ok False" "\<exists>v. get_view ''v'' ?s = Some v \<and> depends_on ''users'' v \<and> vd_materialized v"
    by (simp_all add: create_view_def ViewManager_new_def refresh_materialized_view_def get_view_def needs_refresh_def
        depends_on_def Let_def extract_dependencies_def common_tables_def to_lowercase_def to_lower_def is_ascii_upper_def
        starts_with_def schedule_due_def)
  ultimately show ?thesis
    using table_change_marks_stale [OF _ prod.collapse [symmetric], of ?s "''v''" _ 2 "''users''" InsertChange 1]
    unfolding Let_def by auto
qed

text \<open>
  Refreshing everything leaves nothing to refresh. When every schedule has a positive interval,
  \<^verbatim>\<open>refresh_all_stale_views\<close> succeeds for exactly the views \<^verbatim>\<open>get_views_needing_refresh\<close> reports, which
  are those for which \<^verbatim>\<open>needs_refresh\<close> holds, and afterwards none is left; the status of all other views is unchanged.
\<close>

theorem refresh_all_completes:
  assumes "vm_reachable s" "\<forall>n sch. hm_get (vm_schedules s) n = Some sch \<longrightarrow> 0 < rs_interval sch"
  shows "(\<forall>n. n \<in> set (get_views_needing_refresh now s) \<longleftrightarrow> needs_refresh now n s = Ok True) \<and>
    (\<exists>s'. refresh_all_stale_views now s = (Ok (get_views_needing_refresh now s), s') \<and>
       get_views_needing_refresh now s' = [] \<and>
       (\<forall>n. n \<notin> set (get_views_needing_refresh now s) \<longrightarrow> get_refresh_status n s' = get_refresh_status n s))"
proof -
  have vi: "vm_inv s" by (rule vm_reachable_inv [OF assms(1)])
  from refresh_all_result [OF vi, of now] obtain s' where s':
    "refresh_all_stale_views now s = (Ok (get_views_needing_refresh now s), s')" "vm_inv s'"
    "map (\<lambda>(n, v). (n, vd_materialized v)) (vm_views s') = map (\<lambda>(n, v). (n, vd_materialized v)) (vm_views s)"
    "\<And>n. hm_get (vm_status s') n =
       (if n \<in> set (get_views_needing_refresh now s) then Some Fresh else hm_get (vm_status s) n)"
    "\<And>n. hm_get (vm_schedules s') n = (if n \<in> set (get_views_needing_refresh now s)
       then map_option (\<lambda>sch. sch\<lparr>rs_last_refresh := Some now, rs_next_refresh := now + rs_interval sch\<rparr>)
              (hm_get (vm_schedules s) n) else hm_get (vm_schedules s) n)"
    by blast
  note need = views_needing_refresh_iff [OF vm_invD(1) [OF vi]]
  have "needs_refresh now n s' \<noteq> Ok True" for n
  proof (cases "n \<in> set (get_views_needing_refresh now s)")
    case True
    have "\<not> schedule_due now n s'"
      using assms(2) True by (auto simp: schedule_due_def s'(5) split: option.splits)
    then show ?thesis using True by (auto simp: needs_refresh_def s'(4) split: option.splits)
  next
    case False
    then have "needs_refresh now n s \<noteq> Ok True" using need by blast
    moreover have "schedule_due now n s' = schedule_due now n s" using False by (simp add: schedule_due_def s'(5))
    moreover have "map_option vd_materialized (hm_get (vm_views s') n) = map_option vd_materialized (hm_get (vm_views s) n)"
      by (rule views_map_get [OF s'(3)])
    ultimately have "needs_refresh now n s' = needs_refresh now n s"
      using False by (cases "hm_get (vm_views s') n"; cases "hm_get (vm_views s) n")
        (simp_all add: needs_refresh_def s'(4) split: option.split RefreshStatus.split)
    then show ?thesis using \<open>needs_refresh now n s \<noteq> Ok True\<close> by simp
  qed
  then have "set (get_views_needing_refresh now s') = {}"
    by (intro equals0I) (simp only: views_needing_refresh_iff [OF vm_invD(1) [OF s'(2)]] not_False_eq_True)
  then show ?thesis using need s'(1,4) by (auto simp: get_refresh_status_def)
qed

theorem refresh_all_completes_witness:
  "let s = snd (create_view 0 (1, [], ''q'', True) ''v'' ViewManager_new)
   in get_views_needing_refresh 3 s = [''v''] \<and>
      get_views_needing_refresh 3 (snd (refresh_all_stale_views 3 s)) = []"
proof -
  let ?s = "snd (create_view 0 (1, [], ''q'', True) ''v'' ViewManager_new)"
  have "vm_reachable ?s" by (rule view_step [OF view_new view_create [OF prod.collapse [symmetric]]])
  moreover have "get_views_needing_refresh 3 ?s = [''v'']" "vm_schedules ?s = []"
    by (simp_all add: create_view_def ViewManager_new_def get_views_needing_refresh_def view_needs_refresh_def Let_def)
  ultimately obtain s' where "refresh_all_stale_views 3 ?s = (Ok [''v''], s')" "get_views_needing_refresh 3 s' = []"
    using refresh_all_completes [of ?s 3] by force
  then show ?thesis using \<open>get_views_needing_refresh 3 ?s = [''v'']\<close> by (simp add: Let_def)
qed

text \<open>
  Dependencies between views are not tracked. Queries are searched for five fixed table names only,
  so no view is ever recorded as depending on another one: a view that is not called like one of these
  tables can be dropped without \<^verbatim>\<open>CASCADE\<close> whatever the queries of the other views say, every view has
  depth 1 and the search for cycles reports none.
\<close>

theorem view_on_view_untracked:
  assumes "vm_reachable s" "view_exists n s" "n \<notin> set common_tables"
  shows "fst (drop_view False n s) = Ok () \<and> calculate_dependency_depth n s = Ok 1 \<and> validate_dependencies s = Ok []"
proof -
  note D = vm_invD [OF vm_reachable_inv [OF assms(1)]]
  have "\<not> depends_on n v" if v: "v \<in> set (hm_values (vm_views s))" for v
  proof -
    obtain m where "hm_get (vm_views s) m = Some v"
      using v hm_get_iff [OF D(1)] by (auto simp: hm_values_def)
    then show ?thesis using D(3) assms(3) by (auto simp: depends_on_def dep_names_def list_ex_iff)
  qed
  then have "fst (drop_view False n s) = Ok ()"
    using assms(2) by (auto simp: drop_view_def view_exists_def list_ex_iff simp del: hm_contains_iff)
  then show ?thesis
    using D(6) by (simp add: calculate_dependency_depth_def validate_dependencies_def Let_def hm_keys_def
        st_return_def st_update_def)
qed

theorem view_on_view_untracked_witness:
  "fst (drop_view False ''base'' (snd (create_view 1 (1, [], ''select a from base'', True) ''top''
     (snd (create_view 0 (1, [], ''select a from users'', True) ''base'' ViewManager_new))))) = Ok ()"
proof -
  let ?s1 = "snd (create_view 0 (1, [], ''select a from users'', True) ''base'' ViewManager_new)"
  let ?s = "snd (create_view 1 (1, [], ''select a from base'', True) ''top'' ?s1)"
  have "vm_reachable ?s"
    by (rule view_step [OF view_step [OF view_new view_create [OF prod.collapse [symmetric]]]
          view_create [OF prod.collapse [symmetric]]])
  moreover have "view_exists ''base'' ?s"
    by (simp add: create_view_def ViewManager_new_def view_exists_def Let_def)
  ultimately show ?thesis using view_on_view_untracked [of ?s "''base''"] by (simp add: common_tables_def)
qed

text \<open>
  C7. The search for cycles is correct on every graph. \<^verbatim>\<open>validate_dependencies\<close> ends with a list of
  messages, and the list is empty exactly when no view depends on itself, directly or through others.
\<close>

theorem cycle_check_correct:
  "\<exists>cs. validate_dependencies s = Ok cs \<and>
     (cs = [] \<longleftrightarrow> acyclic (deps_rel (dg_view_dependencies (vm_graph s))))"
proof -
  define deps where "deps = dg_view_dependencies (vm_graph s)"
  let ?st = "([], []) :: cycle_state"
  have "card (fst ` set deps) \<le> length deps" by (metis card_length length_map set_map)
  then have u: "unvisited deps ?st < Suc (length deps)" by (simp add: unvisited_def)
  have inv0: "dfs_inv deps ?st" by (simp add: dfs_inv_def dfs_done_def)
  obtain cs st' where v: "validate_views (Suc (length deps)) deps (hm_keys deps) [] ?st = (Ok cs, st')"
    using validate_views_total [OF u, of "hm_keys deps" "[]"] by auto
  have R: "if cs = [] then dfs_inv deps st' \<and> fst ` set deps \<subseteq> dfs_done st' else on_cycle deps"
    using validate_views_result [OF inv0 _ u, of "hm_keys deps" "[]" cs st'] v
    by (auto simp: hm_keys_def split: if_splits)
  have key: "v \<in> fst ` set deps" if c: "(v, v) \<in> (deps_rel deps)\<^sup>+" for v
  proof -
    obtain w where "(v, w) \<in> deps_rel deps" using tranclD [OF c] by blast
    then have "hm_get deps v \<noteq> None" by (cases "hm_get deps v") (auto simp: names_in_def)
    then show ?thesis by (simp add: map_of_eq_None_iff)
  qed
  have "cs = [] \<longleftrightarrow> acyclic (deps_rel deps)"
    using R key unfolding acyclic_def on_cycle_def dfs_inv_def by (metis subsetD)
  then show ?thesis using v by (auto simp: validate_dependencies_def Let_def deps_def)
qed

text \<open>
  The depth of a view is that of its longest chain of dependencies, counted in views; the
  computation ends on every graph, with an error only when a cycle can be reached from the view.
\<close>

theorem dependency_depth_correct:
  "let deps = dg_view_dependencies (vm_graph s)
   in (\<exists>d. calculate_dependency_depth v s = Ok d \<and> depth_is deps v d) \<or>
      (\<exists>e. calculate_dependency_depth v s = Err e \<and> cycle_below deps v)"
proof -
  define deps where "deps = dg_view_dependencies (vm_graph s)"
  have "card (fst ` set deps) \<le> length deps" by (metis card_length length_map set_map)
  then have "unvisited deps ([], []) < Suc (length deps)" by (simp add: unvisited_def)
  from calculate_depth_result(1) [OF this, of v] show ?thesis
    by (auto simp: calculate_dependency_depth_def Let_def deps_def)
qed

end
