(* ===== verification/Catalog.thy ===== *)
theory Catalog
  imports Schema_Manager Index_Manager Table_Manager View_Manager
begin

section \<open>The catalog (\<^verbatim>\<open>src/src/catalog/mod.rs\<close>)\<close>

text \<open>
  \<^verbatim>\<open>CatalogManager\<close> holds the managers of tables, schemas, indexes and views and combines their
  operations: creating a table also creates the indexes of its key columns, dropping it drops them,
  and the schema of a table or view is resolved by name. Each manager's operation is lifted to the
  catalog's state. The lemmas show what creating and dropping a table do to the indexes.
\<close>

subsection \<open>Data\<close>

record 'fm CatalogManager =
  cm_table_manager :: "'fm SystemTableManager"
  cm_schema_manager :: SchemaManager
  cm_index_manager :: IndexManager
  cm_view_manager :: ViewManager
  cm_buffer_manager :: "'fm BufferPoolManager option"

record CatalogStats =
  cs_table_count :: nat
  cs_schema_count :: nat
  cs_index_count :: nat
  cs_view_count :: nat

type_synonym ('fm, 'a) cm_op = "('fm CatalogManager, 'a) op"

definition on_tables :: "('fm SystemTableManager, 'a) op \<Rightarrow> ('fm, 'a) cm_op" where
  "on_tables m s = (case m (cm_table_manager s) of (r, t) \<Rightarrow> (r, s\<lparr>cm_table_manager := t\<rparr>))"

definition on_schemas :: "(SchemaManager, 'a) op \<Rightarrow> ('fm, 'a) cm_op" where
  "on_schemas m s = (case m (cm_schema_manager s) of (r, t) \<Rightarrow> (r, s\<lparr>cm_schema_manager := t\<rparr>))"

definition on_indexes :: "(IndexManager, 'a) op \<Rightarrow> ('fm, 'a) cm_op" where
  "on_indexes m s = (case m (cm_index_manager s) of (r, t) \<Rightarrow> (r, s\<lparr>cm_index_manager := t\<rparr>))"

definition on_views :: "(ViewManager, 'a) op \<Rightarrow> ('fm, 'a) cm_op" where
  "on_views m s = (case m (cm_view_manager s) of (r, t) \<Rightarrow> (r, s\<lparr>cm_view_manager := t\<rparr>))"

subsection \<open>Tables\<close>

definition CatalogManager_new :: "'fm CatalogManager" where
  "CatalogManager_new = \<lparr>cm_table_manager = SystemTableManager_new, cm_schema_manager = SchemaManager_new,
     cm_index_manager = IndexManager_new, cm_view_manager = ViewManager_new, cm_buffer_manager = None\<rparr>"

definition catalog_set_buffer_manager ::
    "'fm BufferPoolManager \<Rightarrow> 'fm CatalogManager \<Rightarrow> 'fm CatalogManager" where
  "catalog_set_buffer_manager b s = s\<lparr>cm_buffer_manager := Some b,
     cm_table_manager := tm_set_buffer_manager b (cm_table_manager s)\<rparr>"

text \<open>The loop over the columns of a new table.\<close>

fun create_key_indexes :: "u64 \<Rightarrow> string \<Rightarrow> ColumnDef list \<Rightarrow> (IndexManager, unit) op" where
  "create_key_indexes table_id name [] = st_return ()"
| "create_key_indexes table_id name (column # columns) =
     st_bind
       (if cd_primary_key column
        then create_primary_key_index table_id name [cd_name column]
        else if cd_unique column
        then create_index (table_id, [cd_name column], BTreeIndex, True) (''unique_'' @ name @ ''_'' @ cd_name column)
        else st_return 0)
       (\<lambda>_. create_key_indexes table_id name columns)"

definition catalog_create_table :: "string \<Rightarrow> ColumnDef list \<Rightarrow> ('fm, u64) cm_op" where
  "catalog_create_table name columns =
     st_bind (on_tables (create_table columns name)) (\<lambda>table_id.
     st_bind (on_indexes (create_key_indexes table_id name columns)) (\<lambda>_. st_return table_id))"

fun drop_indexes :: "IndexInfo list \<Rightarrow> (IndexManager, unit) op" where
  "drop_indexes [] = st_return ()"
| "drop_indexes (index # indexes) =
     st_bind (drop_index (id_name (ii_def index))) (\<lambda>_. drop_indexes indexes)"

definition catalog_drop_table :: "string \<Rightarrow> ('fm, unit) cm_op" where
  "catalog_drop_table name s =
     (case get_table name (cm_table_manager s) of
        None \<Rightarrow> (Ok (), s)
      | Some table_def \<Rightarrow>
          st_bind (on_indexes (\<lambda>im. drop_indexes (list_table_indexes (td_table_id table_def) im) im))
            (\<lambda>_. on_tables (drop_table name)) s)"

definition catalog_get_table :: "string \<Rightarrow> 'fm CatalogManager \<Rightarrow> TableDef option" where
  "catalog_get_table name s = get_table name (cm_table_manager s)"

definition catalog_update_table_definition :: "string \<Rightarrow> TableDef \<Rightarrow> ('fm, unit) cm_op" where
  "catalog_update_table_definition table_name new_def = on_tables (update_table_definition table_name new_def)"

definition list_tables_in_schema :: "string \<Rightarrow> 'fm CatalogManager \<Rightarrow> TableDef list res" where
  "list_tables_in_schema schema_name s =
     (case get_schema schema_name (cm_schema_manager s) of
        None \<Rightarrow> Err (NotFoundError ''Schema not found'')
      | Some schema_def \<Rightarrow>
          Ok (filter (\<lambda>t. td_schema_id t = sd_schema_id schema_def) (list_tables (cm_table_manager s))))"

definition get_table_with_indexes :: "string \<Rightarrow> 'fm CatalogManager \<Rightarrow> (TableDef \<times> IndexInfo list) option" where
  "get_table_with_indexes name s =
     map_option (\<lambda>d. (d, list_table_indexes (td_table_id d) (cm_index_manager s)))
       (get_table name (cm_table_manager s))"

definition get_schema_with_tables ::
    "string \<Rightarrow> 'fm CatalogManager \<Rightarrow> (SchemaDef \<times> TableDef list) option res" where
  "get_schema_with_tables name s =
     (case get_schema name (cm_schema_manager s) of
        None \<Rightarrow> Ok None
      | Some schema_def \<Rightarrow> res_bind (list_tables_in_schema name s) (\<lambda>tables. Ok (Some (schema_def, tables))))"

definition validate_table_in_schema :: "string \<Rightarrow> string \<Rightarrow> 'fm CatalogManager \<Rightarrow> bool" where
  "validate_table_in_schema table_name schema_name s =
     (case get_schema schema_name (cm_schema_manager s) of
        None \<Rightarrow> False
      | Some schema_def \<Rightarrow>
          (case get_table table_name (cm_table_manager s) of
             None \<Rightarrow> False | Some table_def \<Rightarrow> td_schema_id table_def = sd_schema_id schema_def))"

definition resolve_table_reference :: "string \<Rightarrow> (string \<times> string) res" where
  "resolve_table_reference table_ref =
     (if CHR ''.'' \<in> set table_ref
      then (case split_on CHR ''.'' table_ref of
              [schema, table] \<Rightarrow> Ok (schema, table)
            | _ \<Rightarrow> Err (ParseError ''Invalid table reference''))
      else Ok (''public'', table_ref))"

definition get_catalog_stats :: "'fm CatalogManager \<Rightarrow> CatalogStats" where
  "get_catalog_stats s =
     \<lparr>cs_table_count = length (list_tables (cm_table_manager s)),
      cs_schema_count = length (list_schemas (cm_schema_manager s)),
      cs_index_count = length (list_indexes (cm_index_manager s)),
      cs_view_count = length (list_views (cm_view_manager s))\<rparr>"

definition ensure_schema :: "string \<Rightarrow> u64 \<Rightarrow> ('fm, u64) cm_op" where
  "ensure_schema name owner_id s =
     (if schema_exists name (cm_schema_manager s)
      then (case get_schema name (cm_schema_manager s) of
              Some schema_def \<Rightarrow> (Ok (sd_schema_id schema_def), s)
            | None \<Rightarrow> (Err (InternalError ''Schema exists but not found''), s))
      else on_schemas (create_schema owner_id name) s)"

subsection \<open>Views\<close>

definition catalog_create_view ::
    "time \<Rightarrow> string \<Rightarrow> string \<Rightarrow> (string \<times> ViewDataType) list \<Rightarrow> string \<Rightarrow> bool \<Rightarrow> ('fm, u64) cm_op" where
  "catalog_create_view now name schema_name columns query materialized s =
     (case get_schema schema_name (cm_schema_manager s) of
        None \<Rightarrow> (Err (NotFoundError ''Schema not found''), s)
      | Some schema_def \<Rightarrow>
          on_views (create_view now (sd_schema_id schema_def, columns, query, materialized) name) s)"

definition catalog_drop_view :: "string \<Rightarrow> bool \<Rightarrow> ('fm, unit) cm_op" where
  "catalog_drop_view name cascade = on_views (drop_view cascade name)"

definition catalog_get_view :: "string \<Rightarrow> 'fm CatalogManager \<Rightarrow> ViewDef option" where
  "catalog_get_view name s = get_view name (cm_view_manager s)"

definition catalog_list_views :: "'fm CatalogManager \<Rightarrow> ViewDef list" where
  "catalog_list_views s = list_views (cm_view_manager s)"

definition list_views_in_schema :: "string \<Rightarrow> 'fm CatalogManager \<Rightarrow> ViewDef list res" where
  "list_views_in_schema schema_name s =
     (case get_schema schema_name (cm_schema_manager s) of
        None \<Rightarrow> Err (NotFoundError ''Schema not found'')
      | Some schema_def \<Rightarrow> Ok (view_list_in_schema (sd_schema_id schema_def) (cm_view_manager s)))"

definition catalog_refresh_materialized_view :: "time \<Rightarrow> string \<Rightarrow> bool \<Rightarrow> ('fm, unit) cm_op" where
  "catalog_refresh_materialized_view now name with_data = on_views (refresh_materialized_view now name with_data)"

definition catalog_view_exists :: "string \<Rightarrow> 'fm CatalogManager \<Rightarrow> bool" where
  "catalog_view_exists name s = view_exists name (cm_view_manager s)"

definition catalog_get_dependent_views :: "string \<Rightarrow> 'fm CatalogManager \<Rightarrow> ViewDef list" where
  "catalog_get_dependent_views table_name s = get_dependent_views table_name (cm_view_manager s)"

subsection \<open>The names of the indexes of a table\<close>

text \<open>The names a new table's indexes get, in order.\<close>

fun key_index_names :: "string \<Rightarrow> ColumnDef list \<Rightarrow> string list" where
  "key_index_names name [] = []"
| "key_index_names name (c # cs) =
     (if cd_primary_key c then (''pk_'' @ name) # key_index_names name cs
      else if cd_unique c then (''unique_'' @ name @ ''_'' @ cd_name c) # key_index_names name cs
      else key_index_names name cs)"

subsection \<open>Lemmas\<close>

lemma drop_index_Ok: "\<exists>s'. drop_index n s = (Ok (), s')"
  by (auto simp: drop_index_def Let_def split: option.splits)

lemma drop_indexes_result:
  assumes "im_inv im"
  shows "\<exists>im'. drop_indexes infos im = (Ok (), im') \<and> im_inv im' \<and>
    (\<forall>n. get_index n im' = (if n \<in> (\<lambda>i. id_name (ii_def i)) ` set infos then None else get_index n im))"
  using assms
proof (induction infos arbitrary: im)
  case (Cons i infos)
  obtain im1 where im1: "drop_index (id_name (ii_def i)) im = (Ok (), im1)" using drop_index_Ok by blast
  note D = im_inv_drop [OF Cons.prems im1]
  from Cons.IH [OF D(1)] obtain im' where "drop_indexes infos im1 = (Ok (), im')" "im_inv im'"
    "\<forall>n. get_index n im' = (if n \<in> (\<lambda>i. id_name (ii_def i)) ` set infos then None else get_index n im1)"
    by blast
  then show ?case using im1 D(2) by (auto simp: get_index_def)
qed (simp add: st_return_def)

lemma create_index_fresh:
  assumes "im_inv im" "\<not> index_exists n im"
  shows "\<exists>i im' info. create_index (t, cs, ty, u) n im = (Ok i, im') \<and> im_inv im' \<and>
    id_table_id (ii_def info) = t \<and> (\<forall>m. get_index m im' = (if m = n then Some info else get_index m im))"
proof -
  obtain r im' where run: "create_index (t, cs, ty, u) n im = (r, im')" by fastforce
  then have "im_inv im'" using im_step_inv [OF im_step.step_create assms(1)] by blast
  moreover have "\<exists>i info. r = Ok i \<and> id_table_id (ii_def info) = t \<and>
      (\<forall>m. get_index m im' = (if m = n then Some info else get_index m im))"
    using run assms(2)
    by (auto simp: create_index_def Let_def index_exists_def get_index_def simp del: hm_contains_iff)
  ultimately show ?thesis using run by blast
qed

lemma create_pk_fresh:
  assumes "im_inv im" "\<not> index_exists (''pk_'' @ n) im"
  shows "\<exists>i im' info. create_primary_key_index t n cs im = (Ok i, im') \<and> im_inv im' \<and>
    id_table_id (ii_def info) = t \<and> (\<forall>m. get_index m im' = (if m = ''pk_'' @ n then Some info else get_index m im))"
proof -
  obtain r im' where run: "create_primary_key_index t n cs im = (r, im')" by fastforce
  then have "im_inv im'" using im_step_inv [OF im_step.step_pk [OF assms(2)] assms(1)] by blast
  moreover have "\<exists>i info. r = Ok i \<and> id_table_id (ii_def info) = t \<and>
      (\<forall>m. get_index m im' = (if m = ''pk_'' @ n then Some info else get_index m im))"
    using run by (auto simp: create_primary_key_index_def Let_def get_index_def)
  ultimately show ?thesis using run by blast
qed

text \<open>Creating the indexes of a table whose names are unused and distinct.\<close>

lemma create_key_indexes_result:
  assumes "im_inv im" "distinct (key_index_names name cols)"
    and "\<forall>n \<in> set (key_index_names name cols). \<not> index_exists n im"
  shows "\<exists>im'. create_key_indexes t name cols im = (Ok (), im') \<and> im_inv im' \<and>
    (\<forall>n. if n \<in> set (key_index_names name cols)
         then \<exists>info. get_index n im' = Some info \<and> id_table_id (ii_def info) = t
         else get_index n im' = get_index n im)"
  using assms
proof (induction cols arbitrary: im)
  case (Cons c cols)
  let ?step = "if cd_primary_key c then create_primary_key_index t name [cd_name c]
    else if cd_unique c then create_index (t, [cd_name c], BTreeIndex, True) (''unique_'' @ name @ ''_'' @ cd_name c)
    else st_return 0"
  have exists: "index_exists n im' \<longleftrightarrow> get_index n im' \<noteq> None" for n im'
    by (simp add: index_exists_def get_index_def hm_contains_get del: hm_contains_iff)
  show ?case
  proof (cases "cd_primary_key c \<or> cd_unique c")
    case True
    define n where "n = (if cd_primary_key c then ''pk_'' @ name else ''unique_'' @ name @ ''_'' @ cd_name c)"
    have names: "key_index_names name (c # cols) = n # key_index_names name cols" using True by (auto simp: n_def)
    have fresh: "\<not> index_exists n im" using Cons.prems(3) names by auto
    obtain i im1 info where im1: "?step im = (Ok i, im1)" "im_inv im1" "id_table_id (ii_def info) = t"
      "\<And>m. get_index m im1 = (if m = n then Some info else get_index m im)"
    proof (cases "cd_primary_key c")
      case pk: True
      then show ?thesis
        using create_pk_fresh [OF Cons.prems(1), of name t "[cd_name c]"] fresh that by (auto simp: n_def)
    next
      case pk: False
      then show ?thesis
        using True create_index_fresh [OF Cons.prems(1), of n t "[cd_name c]" BTreeIndex True] fresh that
        by (auto simp: n_def)
    qed
    have "distinct (key_index_names name cols)" "\<forall>m \<in> set (key_index_names name cols). \<not> index_exists m im1"
      using Cons.prems(2,3) names by (auto simp: exists im1(4))
    from Cons.IH [OF im1(2) this] obtain im' where im': "create_key_indexes t name cols im1 = (Ok (), im')" "im_inv im'"
      "\<And>m. if m \<in> set (key_index_names name cols)
         then \<exists>info. get_index m im' = Some info \<and> id_table_id (ii_def info) = t
         else get_index m im' = get_index m im1" by blast
    have "create_key_indexes t name (c # cols) im = (Ok (), im')" using im1(1) im'(1) by simp
    moreover have "if m \<in> set (key_index_names name (c # cols))
         then \<exists>info. get_index m im' = Some info \<and> id_table_id (ii_def info) = t
         else get_index m im' = get_index m im" for m
      using im'(3) [of m] im1(3,4) Cons.prems(2) unfolding names by (auto split: if_splits)
    ultimately show ?thesis using im'(2) by blast
  next
    case False
    then show ?thesis using Cons by (simp add: st_return_def)
  qed
qed (simp add: st_return_def)

lemma create_table_user:
  assumes "user_table n"
  shows "\<exists>t. create_table cols n s = (Ok (tm_next_table_id s), t) \<and> tm_select n t = Ok [] \<and>
    (\<exists>d. get_table n t = Some d \<and> td_table_id d = tm_next_table_id s \<and> td_columns d = cols)"
  using assms by (simp add: create_table_def Let_def tm_select_def get_table_def user_table_def)

lemma split_on_two:
  assumes "c \<notin> set a" "c \<notin> set b"
  shows "split_on c (a @ c # b) = [a, b]"
  using assms by (simp add: split_on_append split_on_plain)

lemma in_set_filter_length: "length (filter (\<lambda>x. x = c) s) \<noteq> 0 \<Longrightarrow> c \<in> set s"
  by (auto simp: filter_empty_conv)

lemma split_on_length: "length (split_on c s) = Suc (length (filter (\<lambda>x. x = c) s))"
proof (induction s)
  case (Cons x s)
  then show ?case by (cases "split_on c s") auto
qed simp

subsection \<open>Properties\<close>





text \<open>
  A key of two columns is not indexed. The index of a primary-key column is named after the table
  alone, so the index of the second key column replaces that of the first: the table's list names it
  twice and the index covers the second column only.
\<close>

theorem composite_key_index_lost:
  assumes "cd_primary_key c" "cd_primary_key d" "list_table_indexes t im = []" "names_of im t = []"
  shows "\<exists>im' info. create_key_indexes t name [c, d] im = (Ok (), im') \<and>
    list_table_indexes t im' = [info, info] \<and> id_columns (ii_def info) = [cd_name d] \<and> id_unique (ii_def info)"
  using assms
  by (simp add: create_primary_key_index_def Let_def st_return_def list_table_indexes_names names_of_def
      push_index_name_def List.map_filter_simps)

theorem composite_key_index_lost_witness:
  "\<exists>im' info. create_key_indexes 1 ''t'' [catalog_column 0 ''a'' IntegerT True False,
      catalog_column 1 ''b'' IntegerT True False] IndexManager_new = (Ok (), im') \<and>
    list_table_indexes 1 im' = [info, info] \<and> id_columns (ii_def info) = [''b'']"
  using composite_key_index_lost [of "catalog_column 0 ''a'' IntegerT True False"
      "catalog_column 1 ''b'' IntegerT True False" 1 IndexManager_new "''t''"]
  by (auto simp: catalog_column_def IndexManager_new_def list_table_indexes_def names_of_def)

text \<open>
  A refused creation has already replaced the table. When the name of the first unique index of a
  table is in use, \<^verbatim>\<open>create_table\<close> reports that the index exists, but the table of that name is now the
  new one, without rows.
\<close>

theorem failed_create_replaces_table:
  assumes "user_table name" "\<not> cd_primary_key c" "cd_unique c"
    and "index_exists (''unique_'' @ name @ ''_'' @ cd_name c) (cm_index_manager s)"
  shows "\<exists>s'. catalog_create_table name (c # cols) s = (Err (AlreadyExistsError ''Index already exists''), s') \<and>
    tm_select name (cm_table_manager s') = Ok []"
proof -
  obtain t where t: "create_table (c # cols) name (cm_table_manager s) = (Ok (tm_next_table_id (cm_table_manager s)), t)"
      "tm_select name t = Ok []"
    using create_table_user [OF assms(1), of "c # cols" "cm_table_manager s"] by blast
  have "\<exists>im. create_key_indexes i name (c # cols) (cm_index_manager s) =
      (Err (AlreadyExistsError ''Index already exists''), im)" for i
    using assms(2-4) by (simp add: create_index_def Let_def index_exists_def del: hm_contains_iff)
  then obtain im where "create_key_indexes (tm_next_table_id (cm_table_manager s)) name (c # cols) (cm_index_manager s) =
      (Err (AlreadyExistsError ''Index already exists''), im)" by blast
  then have "catalog_create_table name (c # cols) s = (Err (AlreadyExistsError ''Index already exists''),
      s\<lparr>cm_table_manager := t, cm_index_manager := im\<rparr>)"
    using t(1) by (simp add: catalog_create_table_def on_tables_def on_indexes_def del: create_key_indexes.simps)
  then show ?thesis using t(2) by simp
qed

theorem failed_create_replaces_table_witness:
  "let c = catalog_column 0 ''e'' TextT False True;
       s = snd (catalog_create_table ''t'' [c] (CatalogManager_new :: MockFileManager CatalogManager))
   in \<exists>s'. catalog_create_table ''t'' [c] s = (Err (AlreadyExistsError ''Index already exists''), s') \<and>
        tm_select ''t'' (cm_table_manager s') = Ok []"
proof -
  let ?c = "catalog_column 0 ''e'' TextT False True"
  let ?s = "snd (catalog_create_table ''t'' [?c] (CatalogManager_new :: MockFileManager CatalogManager))"
  have "index_exists ''unique_t_e'' (cm_index_manager ?s)"
    by (simp add: catalog_create_table_def on_tables_def on_indexes_def create_table_def CatalogManager_new_def
        SystemTableManager_new_def initialize_system_tables_def Let_def catalog_column_def st_return_def
        create_index_def IndexManager_new_def index_exists_def)
  then show ?thesis
    using failed_create_replaces_table [of "''t''" ?c ?s "[]"]
    by (simp add: Let_def user_table_def) (simp add: catalog_column_def)
qed

text \<open>
  The first schema a user creates shows the tables of \<^verbatim>\<open>public\<close>. In a catalog whose schemas are
  still those of a new manager, the schema created first lists the same tables as \<^verbatim>\<open>public\<close>, whatever
  tables there are.
\<close>

theorem first_schema_lists_public_tables:
  assumes "cm_schema_manager s = SchemaManager_new" "name \<notin> {''public'', ''pg_catalog''}"
  shows "\<exists>s'. ensure_schema name owner s = (Ok 1, s') \<and>
    list_tables_in_schema name s' = list_tables_in_schema ''public'' s'"
  using assms
  by (auto simp: ensure_schema_def on_schemas_def schema_exists_def create_schema_def SchemaManager_new_def
      initialize_schemas_def Let_def list_tables_in_schema_def get_schema_def)

theorem first_schema_lists_public_tables_witness:
  "\<exists>s'. ensure_schema ''sales'' 7 (CatalogManager_new :: MockFileManager CatalogManager) = (Ok 1, s') \<and>
    list_tables_in_schema ''sales'' s' = list_tables_in_schema ''public'' s'"
  by (rule first_schema_lists_public_tables) (simp_all add: CatalogManager_new_def)

text \<open>
  Table references. A name without a dot is resolved in the schema \<^verbatim>\<open>public\<close>; two parts joined by
  a dot are resolved to themselves; a reference with more than one dot is a parse error.
\<close>

theorem resolve_table_reference_parts:
  "resolve_table_reference ref =
     (case length (filter (\<lambda>c. c = CHR ''.'') ref) of
        0 \<Rightarrow> Ok (''public'', ref)
      | Suc 0 \<Rightarrow> Ok (takeWhile (\<lambda>c. c \<noteq> CHR ''.'') ref, tl (dropWhile (\<lambda>c. c \<noteq> CHR ''.'') ref))
      | _ \<Rightarrow> Err (ParseError ''Invalid table reference''))"
proof -
  let ?dots = "length (filter (\<lambda>c. c = CHR ''.'') ref)"
  consider (none) "?dots = 0" | (one) "?dots = 1" | (more) k where "?dots = Suc (Suc k)"
    by (cases ?dots; cases "?dots - 1") auto
  then show ?thesis
  proof cases
    case none
    then have "CHR ''.'' \<notin> set ref" by (auto simp: filter_empty_conv)
    then show ?thesis using none by (simp add: resolve_table_reference_def)
  next
    case one
    then have "CHR ''.'' \<in> set ref" by (intro in_set_filter_length) simp
    then obtain a b where ref: "ref = a @ CHR ''.'' # b" "CHR ''.'' \<notin> set a"
      using split_list_first by fast
    then have "length (filter (\<lambda>c. c = CHR ''.'') b) = 0" using one by auto
    then have "CHR ''.'' \<notin> set b" by (auto simp: filter_empty_conv)
    moreover have "takeWhile (\<lambda>c. c \<noteq> CHR ''.'') ref = a" "dropWhile (\<lambda>c. c \<noteq> CHR ''.'') ref = CHR ''.'' # b"
      using ref by (auto simp: takeWhile_append dropWhile_append)
    ultimately show ?thesis using ref one by (simp add: resolve_table_reference_def split_on_two)
  next
    case more
    then have "CHR ''.'' \<in> set ref" by (intro in_set_filter_length) simp
    moreover have "length (split_on CHR ''.'' ref) = Suc (Suc (Suc k))" using more by (simp add: split_on_length)
    then obtain x y z zs where "split_on CHR ''.'' ref = x # y # z # zs" by (auto simp: length_Suc_conv)
    ultimately show ?thesis using more by (simp add: resolve_table_reference_def)
  qed
qed

end
