(* ===== verification/Planner.thy ===== *)
theory Planner
  imports Windows Lexer Catalog
begin

section \<open>Query planner (\<^verbatim>\<open>src/src/executor/planner.rs\<close>)\<close>

text \<open>
  The planner turns a statement into a tree of plan nodes. A table of the FROM clause is a materialized
  common table expression, a view, whose query is read from the catalog, tokenized, parsed and planned in
  its place, or a table to scan. Views can name views: the fuel of the planner bounds their nesting, and
  planning that runs out of it counts as not returning, as a cycle of views has no plan in the sources.

  The parser is an argument of the definitions.
\<close>

subsection \<open>Plans\<close>

datatype PlanNode =
    ScanNode (pn_table_name: string) (pn_scan_columns: "string list") (pn_alias: "string option")
  | IndexScanNode (pn_table_name: string) (pn_index_name: string) (pn_index_condition: "expr option")
      (pn_scan_columns: "string list")
  | IndexOnlyScanNode (pn_table_name: string) (pn_index_name: string) (pn_index_condition: "expr option")
      (pn_scan_columns: "string list")
  | FilterNode (pn_input: PlanNode) (pn_condition: expr)
  | ProjectNode (pn_input: PlanNode) (pn_project_columns: "(string \<times> expr) list")
      (pn_table_aliases: "(string \<times> string) list") (pn_left_columns: "string list option")
      (pn_right_columns: "string list option")
  | JoinNode (pn_left: PlanNode) (pn_right: PlanNode) (pn_join_condition: "expr option") (pn_join_type: JoinType)
      (pn_left_alias: "string option") (pn_right_alias: "string option")
  | HashJoinNode (pn_left: PlanNode) (pn_right: PlanNode) (pn_join_condition: "expr option") (pn_join_type: JoinType)
      (pn_hash_key_columns: "string list")
  | MergeJoinNode (pn_left: PlanNode) (pn_right: PlanNode) (pn_join_condition: "expr option") (pn_join_type: JoinType)
      (pn_sort_columns: "string list")
  | ParallelScanNode (pn_table_name: string) (pn_scan_columns: "string list")
  | ParallelHashJoinNode (pn_left: PlanNode) (pn_right: PlanNode) (pn_join_condition: "expr option")
      (pn_join_type: JoinType) (pn_hash_key_columns: "string list")
  | ParallelAggregateNode (pn_input: PlanNode) (pn_group_by_columns: "expr list")
      (pn_aggregate_functions: "(string \<times> expr) list") (pn_having_clause: "expr option")
  | InsertNode (pn_table_name: string) (pn_insert_columns: "string list") (pn_insert_values: "expr list list")
  | UpdateNode (pn_table_name: string) (pn_assignments: "(string \<times> expr) list") (pn_where: "expr option")
  | DeleteNode (pn_table_name: string) (pn_where: "expr option")
  | AggregateNode (pn_input: PlanNode) (pn_group_by_columns: "expr list")
      (pn_aggregate_functions: "(string \<times> expr) list") (pn_having_clause: "expr option")
  | WindowNode (pn_input: PlanNode) (pn_window_functions: "(string \<times> expr) list")
  | SetOperationNode (pn_operator: SetOperator) (pn_left: PlanNode) (pn_right: PlanNode) (pn_all: bool)
  | SubqueryNode (pn_query: Statement) (pn_correlated_columns: "string list")
  | ValuesNode (pn_rows: "Value list list") (pn_column_names: "string list")
  | CTENode (pn_with_clause: "Statement WithClause") (pn_main_query: Statement)
  | CTEScanNode (pn_cte_name: string) (pn_alias: "string option")
  | SortNode (pn_input: PlanNode) (pn_order_by: "Statement OrderBy list")
  | LimitNode (pn_input: PlanNode) (pn_limit: i64) (pn_offset: "i64 option")
  | DistinctNode (pn_input: PlanNode)

record ExecutionPlan =
  ep_root :: PlanNode
  ep_output_schema :: "(string \<times> DataType) list"

type_synonym ctes = "(string, QueryResult) hmap"

record 'fm QueryPlanner =
  qp_catalog :: "'fm CatalogManager option"
  qp_materialized_ctes :: ctes

definition QueryPlanner_with_ctes :: "'fm CatalogManager option \<Rightarrow> ctes \<Rightarrow> 'fm QueryPlanner" where
  "QueryPlanner_with_ctes catalog ctes = \<lparr>qp_catalog = catalog, qp_materialized_ctes = ctes\<rparr>"

definition QueryPlanner_with_catalog :: "'fm CatalogManager \<Rightarrow> 'fm QueryPlanner" where
  "QueryPlanner_with_catalog catalog = \<lparr>qp_catalog = Some catalog, qp_materialized_ctes = []\<rparr>"

definition QueryPlanner_new :: "'fm QueryPlanner" where
  "QueryPlanner_new = \<lparr>qp_catalog = None, qp_materialized_ctes = []\<rparr>"

record plan_lib =
  pl_expr :: expr_lib
  pl_parse :: "Token list \<Rightarrow> Statement list res"

subsection \<open>Aggregates in expressions\<close>

definition is_aggregate_function :: "expr \<Rightarrow> bool" where
  "is_aggregate_function e = (case e of FunctionE name _ _ \<Rightarrow> to_uppercase name \<in> set aggregate_names | _ \<Rightarrow> False)"

fun contains_aggregate :: "expr \<Rightarrow> bool" where
  "contains_aggregate (FunctionE name args d) = (is_aggregate_function (FunctionE name args d) \<or> list_ex contains_aggregate args)"
| "contains_aggregate (BinaryOpE left op right) = (contains_aggregate left \<or> contains_aggregate right)"
| "contains_aggregate _ = False"

definition has_aggregate_functions :: "expr list \<Rightarrow> bool" where
  "has_aggregate_functions es = list_ex contains_aggregate es"

fun expression_contains_aggregate :: "expr \<Rightarrow> bool" where
  "expression_contains_aggregate (FunctionE name args d) = (to_uppercase name \<in> set aggregate_names)"
| "expression_contains_aggregate (BinaryOpE left op right) =
     (expression_contains_aggregate left \<or> expression_contains_aggregate right)"
| "expression_contains_aggregate (UnaryOpE op e) = expression_contains_aggregate e"
| "expression_contains_aggregate _ = False"

definition expressions_equal :: "expr_lib \<Rightarrow> expr \<Rightarrow> expr \<Rightarrow> bool" where
  "expressions_equal L a b =
     (case (a, b) of
        (ColumnE _ name_a, ColumnE _ name_b) \<Rightarrow> name_a = name_b
      | (ValueE val_a, ValueE val_b) \<Rightarrow> debug_value L val_a = debug_value L val_b
      | (FunctionE name_a args_a _, FunctionE name_b args_b _) \<Rightarrow> name_a = name_b \<and> length args_a = length args_b
      | _ \<Rightarrow> False)"

text \<open>The name under which an aggregate of the list of columns is known to the nodes above.\<close>

definition aggregate_alias :: "nat \<Rightarrow> Statement ColumnSpec \<Rightarrow> string" where
  "aggregate_alias i col_spec =
     (case cs_alias col_spec of
        Some alias \<Rightarrow> alias
      | None \<Rightarrow> (case cs_expr col_spec of
          FunctionE name _ _ \<Rightarrow> to_lowercase name @ ''_'' @ show_nat i
        | SubqueryE _ \<Rightarrow> ''subquery_agg_'' @ show_nat i
        | _ \<Rightarrow> ''aggregate'' @ show_nat i))"

definition count_star :: expr where
  "count_star = FunctionE ''COUNT'' [StarE] False"

definition star_alias :: "nat \<Rightarrow> Statement ColumnSpec \<Rightarrow> string" where
  "star_alias i col_spec = (case cs_alias col_spec of Some alias \<Rightarrow> alias | None \<Rightarrow> ''count_star_'' @ show_nat i)"

definition implicit_group_columns :: "expr_lib \<Rightarrow> expr list \<Rightarrow> Statement ColumnSpec list \<Rightarrow> expr list" where
  "implicit_group_columns L group_by columns =
     filter (\<lambda>e. \<not> is_aggregate_function e \<and> e \<noteq> StarE \<and> \<not> list_ex (\<lambda>g. expressions_equal L g e) group_by)
       (map cs_expr columns)"

definition listed_aggregates :: "expr list \<Rightarrow> Statement ColumnSpec list \<Rightarrow> (string \<times> expr) list" where
  "listed_aggregates group_by columns =
     concat (map (\<lambda>(i, col_spec).
       if is_aggregate_function (cs_expr col_spec) then [(aggregate_alias i col_spec, cs_expr col_spec)]
       else if cs_expr col_spec = StarE \<and> group_by \<noteq> [] then [(star_alias i col_spec, count_star)]
       else []) (zip [0..<length columns] columns))"

definition plan_aggregation ::
    "expr_lib \<Rightarrow> PlanNode \<Rightarrow> expr list \<Rightarrow> Statement ColumnSpec list \<Rightarrow> expr option \<Rightarrow> PlanNode" where
  "plan_aggregation L input group_by columns having =
     (let extra = (if map cs_expr columns = [StarE] \<and> group_by = [] then [(''count'', count_star)] else [])
      in AggregateNode input (group_by @ implicit_group_columns L group_by columns)
           (listed_aggregates group_by columns @ extra) having)"

subsection \<open>Subqueries in expressions\<close>

fun plan_subqueries_in_expression :: "expr \<Rightarrow> expr res"
and plan_subqueries_in_list :: "expr list \<Rightarrow> expr list res" where
  "plan_subqueries_in_expression (BinaryOpE left op right) =
     res_bind (plan_subqueries_in_expression left) (\<lambda>left_planned.
     res_bind (plan_subqueries_in_expression right) (\<lambda>right_planned. Ok (BinaryOpE left_planned op right_planned)))"
| "plan_subqueries_in_expression (FunctionE name args d) =
     res_bind (plan_subqueries_in_list args) (\<lambda>planned_args. Ok (FunctionE name planned_args d))"
| "plan_subqueries_in_expression (UnaryOpE op e) =
     res_bind (plan_subqueries_in_expression e) (\<lambda>planned_expr. Ok (UnaryOpE op planned_expr))"
| "plan_subqueries_in_expression e = Ok e"
| "plan_subqueries_in_list [] = Ok []"
| "plan_subqueries_in_list (e # es) =
     res_bind (plan_subqueries_in_expression e) (\<lambda>x. res_bind (plan_subqueries_in_list es) (\<lambda>xs. Ok (x # xs)))"

fun contains_subquery :: "expr \<Rightarrow> bool" where
  "contains_subquery (SubqueryE _) = True"
| "contains_subquery (BinaryOpE left op right) = (contains_subquery left \<or> contains_subquery right)"
| "contains_subquery (FunctionE name args d) = list_ex contains_subquery args"
| "contains_subquery (UnaryOpE op e) = contains_subquery e"
| "contains_subquery _ = False"

subsection \<open>Window functions in expressions\<close>

lemma size_of_elements:
  "e \<in> set es \<Longrightarrow> size_Expression size e \<le> size_list (size_Expression size) es"
  "b \<in> set bs \<Longrightarrow> size_CaseBranch size b \<le> size_list (size_CaseBranch size) bs"
  "c \<in> set cs \<Longrightarrow> size_Expression size (cs_expr c) \<le> size_list (size_ColumnSpec size) cs"
  "ob \<in> set obs \<Longrightarrow> size_Expression size (ob_expr ob) \<le> size_list (size_OrderBy size) obs"
proof -
  show "c \<in> set cs \<Longrightarrow> size_Expression size (cs_expr c) \<le> size_list (size_ColumnSpec size) cs"
    by (erule size_list_estimation') (cases c, simp)
  show "ob \<in> set obs \<Longrightarrow> size_Expression size (ob_expr ob) \<le> size_list (size_OrderBy size) obs"
    by (erule size_list_estimation') (cases ob, simp)
qed (erule size_list_estimation', simp)+

function (sequential) contains_window_functions :: "expr \<Rightarrow> bool"
and branch_contains_window_functions :: "Statement CaseBranch \<Rightarrow> bool"
and statement_contains_window_functions :: "Statement \<Rightarrow> bool"
and select_contains_window_functions :: "Statement SelectStatement \<Rightarrow> bool" where
  "contains_window_functions (WindowFunctionE w) = True"
| "contains_window_functions (BinaryOpE left op right) = (contains_window_functions left \<or> contains_window_functions right)"
| "contains_window_functions (UnaryOpE op e) = contains_window_functions e"
| "contains_window_functions (FunctionE name args d) = list_ex contains_window_functions args"
| "contains_window_functions (CastE e t) = contains_window_functions e"
| "contains_window_functions (CaseE base branches else_result) =
     ((case base of Some e \<Rightarrow> contains_window_functions e | None \<Rightarrow> False) \<or>
      list_ex branch_contains_window_functions branches \<or>
      (case else_result of Some e \<Rightarrow> contains_window_functions e | None \<Rightarrow> False))"
| "contains_window_functions (ListE es) = list_ex contains_window_functions es"
| "contains_window_functions (ExistsE subquery negated) = statement_contains_window_functions subquery"
| "contains_window_functions (SubqueryE subquery) = statement_contains_window_functions subquery"
| "contains_window_functions _ = False"
| "branch_contains_window_functions (CaseBranch condition result) =
     (contains_window_functions condition \<or> contains_window_functions result)"
| "statement_contains_window_functions (SelectS s) = select_contains_window_functions s"
| "statement_contains_window_functions _ = False"
| "select_contains_window_functions (SimpleSelect _ _ columns _ _ where_clause _ having order_by _ _ _) =
     (list_ex (\<lambda>col. contains_window_functions (cs_expr col)) columns \<or>
      (case where_clause of Some e \<Rightarrow> contains_window_functions e | None \<Rightarrow> False) \<or>
      (case having of Some e \<Rightarrow> contains_window_functions e | None \<Rightarrow> False) \<or>
      list_ex (\<lambda>ob. contains_window_functions (ob_expr ob)) order_by)"
| "select_contains_window_functions (SetSelect (SetOperation op left right all)) =
     (select_contains_window_functions left \<or> select_contains_window_functions right)"
  by pat_completeness auto

termination
  by (relation "measure (case_sum (case_sum (size_Expression size) (size_CaseBranch size))
      (case_sum size (size_SelectStatement size)))")
    (auto split: option.splits dest: size_of_elements)

definition has_window_functions :: "expr list \<Rightarrow> bool" where
  "has_window_functions es = list_ex contains_window_functions es"

text \<open>Extraction: the functions in the order of the text, each named by the counter, and what is left.\<close>

fun extract_window_functions :: "expr \<Rightarrow> nat \<Rightarrow> (string \<times> expr) list \<times> expr \<times> nat"
and extract_from_option :: "expr option \<Rightarrow> nat \<Rightarrow> (string \<times> expr) list \<times> expr option \<times> nat"
and extract_from_list :: "expr list \<Rightarrow> nat \<Rightarrow> (string \<times> expr) list \<times> expr list \<times> nat"
and extract_from_branches ::
    "Statement CaseBranch list \<Rightarrow> nat \<Rightarrow> (string \<times> expr) list \<times> Statement CaseBranch list \<times> nat" where
  "extract_window_functions (WindowFunctionE w) n =
     (let generated_name = ''win_func_'' @ show_nat n
      in ([(generated_name, WindowFunctionE w)], ColumnE None generated_name, n + 1))"
| "extract_window_functions (BinaryOpE left op right) n =
     (let (left_funcs, left_replacement, n1) = extract_window_functions left n;
          (right_funcs, right_replacement, n2) = extract_window_functions right n1
      in (left_funcs @ right_funcs, BinaryOpE left_replacement op right_replacement, n2))"
| "extract_window_functions (UnaryOpE op e) n =
     (let (funcs, replacement, n1) = extract_window_functions e n in (funcs, UnaryOpE op replacement, n1))"
| "extract_window_functions (FunctionE name args d) n =
     (let (funcs, modified_args, n1) = extract_from_list args n in (funcs, FunctionE name modified_args d, n1))"
| "extract_window_functions (CastE e t) n =
     (let (funcs, replacement, n1) = extract_window_functions e n in (funcs, CastE replacement t, n1))"
| "extract_window_functions (CaseE base branches else_result) n =
     (let (base_funcs, base1, n1) = extract_from_option base n;
          (branch_funcs, branches1, n2) = extract_from_branches branches n1;
          (else_funcs, else1, n3) = extract_from_option else_result n2
      in (base_funcs @ branch_funcs @ else_funcs, CaseE base1 branches1 else1, n3))"
| "extract_window_functions (ListE es) n =
     (let (funcs, modified_exprs, n1) = extract_from_list es n in (funcs, ListE modified_exprs, n1))"
| "extract_window_functions e n = ([], e, n)"
| "extract_from_option None n = ([], None, n)"
| "extract_from_option (Some e) n =
     (let (funcs, replacement, n1) = extract_window_functions e n in (funcs, Some replacement, n1))"
| "extract_from_list [] n = ([], [], n)"
| "extract_from_list (e # es) n =
     (let (funcs, replacement, n1) = extract_window_functions e n;
          (rest_funcs, rest, n2) = extract_from_list es n1
      in (funcs @ rest_funcs, replacement # rest, n2))"
| "extract_from_branches [] n = ([], [], n)"
| "extract_from_branches (CaseBranch condition result # bs) n =
     (let (condition_funcs, condition_replacement, n1) = extract_window_functions condition n;
          (result_funcs, result_replacement, n2) = extract_window_functions result n1;
          (rest_funcs, rest, n3) = extract_from_branches bs n2
      in (condition_funcs @ result_funcs @ rest_funcs, CaseBranch condition_replacement result_replacement # rest, n3))"

fun replace_column_reference :: "string \<Rightarrow> string \<Rightarrow> expr \<Rightarrow> expr"
and replace_in_branch :: "string \<Rightarrow> string \<Rightarrow> Statement CaseBranch \<Rightarrow> Statement CaseBranch" where
  "replace_column_reference old_name new_name (ColumnE table name) =
     (if name = old_name then ColumnE table new_name else ColumnE table name)"
| "replace_column_reference old_name new_name (BinaryOpE left op right) =
     BinaryOpE (replace_column_reference old_name new_name left) op (replace_column_reference old_name new_name right)"
| "replace_column_reference old_name new_name (UnaryOpE op e) = UnaryOpE op (replace_column_reference old_name new_name e)"
| "replace_column_reference old_name new_name (FunctionE name args d) =
     FunctionE name (map (replace_column_reference old_name new_name) args) d"
| "replace_column_reference old_name new_name (CastE e t) = CastE (replace_column_reference old_name new_name e) t"
| "replace_column_reference old_name new_name (CaseE base branches else_result) =
     CaseE (map_option (replace_column_reference old_name new_name) base)
       (map (replace_in_branch old_name new_name) branches)
       (map_option (replace_column_reference old_name new_name) else_result)"
| "replace_column_reference old_name new_name (ListE es) = ListE (map (replace_column_reference old_name new_name) es)"
| "replace_column_reference old_name new_name e = e"
| "replace_in_branch old_name new_name (CaseBranch condition result) =
     CaseBranch (replace_column_reference old_name new_name condition) (replace_column_reference old_name new_name result)"

text \<open>The aliases of the direct window functions, by the names that the first pass generates.\<close>

definition is_window_function :: "expr \<Rightarrow> bool" where
  "is_window_function e = (case e of WindowFunctionE _ \<Rightarrow> True | _ \<Rightarrow> False)"

fun window_func_aliases :: "(string \<times> expr) list \<Rightarrow> nat \<Rightarrow> (string, string) hmap \<Rightarrow> (string, string) hmap" where
  "window_func_aliases [] n m = m"
| "window_func_aliases ((name, e) # ps) n m =
     (if contains_window_functions e
      then (let (extracted_funcs, _, n1) = extract_window_functions e n
            in window_func_aliases ps n1
                 (if is_window_function e then fold (\<lambda>(g, _). hm_insert g name) extracted_funcs m else m))
      else window_func_aliases ps n m)"

definition get_columns_from_from_clause :: "'fm QueryPlanner \<Rightarrow> Statement TableRef list \<Rightarrow> string list" where
  "get_columns_from_from_clause P from =
     concat (map (\<lambda>t. case t of
         TableName name alias \<Rightarrow>
           (case hm_get (qp_materialized_ctes P) name of
              Some cte_result \<Rightarrow> qr_column_names cte_result
            | None \<Rightarrow> (case qp_catalog P of
                Some catalog \<Rightarrow> (case get_table name (cm_table_manager catalog) of
                  Some table_def \<Rightarrow> map cd_name (td_columns table_def) | None \<Rightarrow> [])
              | None \<Rightarrow> []))
       | TableSubquery _ _ \<Rightarrow> []) from)"

definition corrected_expr :: "(string, string) hmap \<Rightarrow> (string \<times> expr) list \<Rightarrow> expr \<Rightarrow> expr" where
  "corrected_expr aliases extracted_funcs e =
     fold (\<lambda>(g, _) e. case hm_get aliases g of Some alias \<Rightarrow> replace_column_reference g alias e | None \<Rightarrow> e)
       extracted_funcs e"

text \<open>Base columns, window functions, and computed columns over window functions.\<close>

fun separate_projections ::
    "string list \<Rightarrow> (string, string) hmap \<Rightarrow> (string \<times> expr) list \<Rightarrow> nat \<Rightarrow>
     (string \<times> expr) list \<times> (string \<times> expr) list \<times> (string \<times> expr) list" where
  "separate_projections from_columns aliases [] n = ([], [], [])"
| "separate_projections from_columns aliases ((name, e) # ps) n =
     (if contains_window_functions e
      then (let (extracted_funcs, modified_expr, n1) = extract_window_functions e n;
                (base, windows, computed) = separate_projections from_columns aliases ps n1
            in if is_window_function e
               then (base, map (\<lambda>(_, w). (name, w)) extracted_funcs @ windows, computed)
               else (base, extracted_funcs @ windows, (name, corrected_expr aliases extracted_funcs modified_expr) # computed))
      else (let (base, windows, computed) = separate_projections from_columns aliases ps n
            in if e = StarE then (map (\<lambda>c. (c, ColumnE None c)) from_columns @ base, windows, computed)
               else ((name, e) # base, windows, computed)))"

definition extract_and_replace_window_functions ::
    "'fm QueryPlanner \<Rightarrow> (string \<times> expr) list \<Rightarrow> Statement TableRef list \<Rightarrow>
     (string \<times> expr) list \<times> (string \<times> expr) list \<times> (string \<times> expr) list" where
  "extract_and_replace_window_functions P projections from =
     separate_projections (get_columns_from_from_clause P from) (window_func_aliases projections 0 []) projections 0"

subsection \<open>Tables\<close>

fun extract_alias_from_plan :: "PlanNode \<Rightarrow> string option" where
  "extract_alias_from_plan (ScanNode _ _ alias) = alias"
| "extract_alias_from_plan (CTEScanNode name alias) = (case alias of Some a \<Rightarrow> Some a | None \<Rightarrow> Some name)"
| "extract_alias_from_plan (JoinNode _ _ _ _ left_alias _) = left_alias"
| "extract_alias_from_plan (FilterNode input _) = extract_alias_from_plan input"
| "extract_alias_from_plan (AggregateNode input _ _ _) = extract_alias_from_plan input"
| "extract_alias_from_plan (SortNode input _) = extract_alias_from_plan input"
| "extract_alias_from_plan (LimitNode input _ _) = extract_alias_from_plan input"
| "extract_alias_from_plan (ProjectNode input _ _ _ _) = extract_alias_from_plan input"
| "extract_alias_from_plan _ = None"

type_synonym table_planner = "string \<Rightarrow> string option \<Rightarrow> PlanNode res"

definition plan_table_ref :: "table_planner \<Rightarrow> Statement TableRef \<Rightarrow> PlanNode res" where
  "plan_table_ref scan t =
     (case t of TableName name alias \<Rightarrow> scan name alias | TableSubquery subquery alias \<Rightarrow> Ok (SubqueryNode subquery []))"

fun plan_cross_joins :: "table_planner \<Rightarrow> PlanNode \<Rightarrow> Statement TableRef list \<Rightarrow> PlanNode res" where
  "plan_cross_joins scan plan [] = Ok plan"
| "plan_cross_joins scan plan (t # ts) =
     res_bind (plan_table_ref scan t) (\<lambda>right_plan.
       plan_cross_joins scan (JoinNode plan right_plan None InnerJoin (extract_alias_from_plan plan) (tr_alias t)) ts)"

definition plan_from_clause :: "table_planner \<Rightarrow> Statement TableRef list \<Rightarrow> PlanNode res" where
  "plan_from_clause scan from =
     (case from of
        [] \<Rightarrow> Err (ParseError ''No tables in FROM clause'')
      | t # ts \<Rightarrow> res_bind (plan_table_ref scan t) (\<lambda>plan. plan_cross_joins scan plan ts))"

fun plan_joins :: "table_planner \<Rightarrow> PlanNode \<Rightarrow> Statement JoinCondition list \<Rightarrow> PlanNode res" where
  "plan_joins scan plan [] = Ok plan"
| "plan_joins scan plan (j # js) =
     res_bind (plan_table_ref scan (jc_table j)) (\<lambda>right_plan.
       plan_joins scan (JoinNode plan right_plan (jc_condition j) (jc_join_type j) (extract_alias_from_plan plan)
         (tr_alias (jc_table j))) js)"

subsection \<open>Projection\<close>

definition projection_expr :: "expr list \<Rightarrow> bool \<Rightarrow> nat \<Rightarrow> Statement ColumnSpec \<Rightarrow> expr \<Rightarrow> expr" where
  "projection_expr group_by has_aggregation i col_spec planned =
     (if \<not> has_aggregation \<or> is_subquery planned then planned
      else if is_aggregate_function planned then ColumnE None (aggregate_alias i col_spec)
      else if planned = StarE \<and> group_by \<noteq> [] then ColumnE None (star_alias i col_spec)
      else planned)"

definition projection_name :: "nat \<Rightarrow> Statement ColumnSpec \<Rightarrow> string" where
  "projection_name i col_spec =
     (case cs_alias col_spec of
        Some alias \<Rightarrow> alias
      | None \<Rightarrow> (case cs_expr col_spec of
          ColumnE _ name \<Rightarrow> name
        | StarE \<Rightarrow> ''*''
        | SubqueryE _ \<Rightarrow> ''subquery'' @ show_nat i
        | _ \<Rightarrow> ''col'' @ show_nat i))"

fun plan_projections ::
    "expr list \<Rightarrow> bool \<Rightarrow> nat \<Rightarrow> Statement ColumnSpec list \<Rightarrow> (string \<times> expr) list res" where
  "plan_projections group_by has_aggregation i [] = Ok []"
| "plan_projections group_by has_aggregation i (c # cs) =
     res_bind (plan_subqueries_in_expression (cs_expr c)) (\<lambda>planned_expr.
     res_bind (plan_projections group_by has_aggregation (Suc i) cs) (\<lambda>rest.
       Ok ((projection_name i c, projection_expr group_by has_aggregation i c planned_expr) # rest)))"

definition project_node :: "PlanNode \<Rightarrow> (string \<times> expr) list \<Rightarrow> PlanNode" where
  "project_node plan columns = ProjectNode plan columns [] None None"

definition plan_projection :: "'fm QueryPlanner \<Rightarrow> Statement TableRef list \<Rightarrow> (string \<times> expr) list \<Rightarrow> PlanNode \<Rightarrow> PlanNode" where
  "plan_projection P from all_projections plan =
     (if \<not> has_window_functions (map snd all_projections) then project_node plan all_projections
      else (let (base_columns, window_functions, computed_columns) =
                  extract_and_replace_window_functions P all_projections from;
                plan1 = (if base_columns = [] then plan else project_node plan base_columns);
                plan2 = (if window_functions = [] then plan1 else WindowNode plan1 window_functions)
            in project_node plan2
                 (map (\<lambda>(name, _). (name, ColumnE None name)) (base_columns @ window_functions) @ computed_columns)))"

subsection \<open>Select\<close>

fun strip_with_clause :: "Statement SelectStatement \<Rightarrow> Statement SelectStatement" where
  "strip_with_clause (SimpleSelect with_clause dist columns from joins where_clause group_by having order_by limit offset named_windows) =
     SimpleSelect None dist columns from joins where_clause group_by having order_by limit offset named_windows"
| "strip_with_clause (SetSelect (SetOperation op left right all)) =
     SetSelect (SetOperation op (strip_with_clause left) (strip_with_clause right) all)"

definition plan_cte_select :: "Statement WithClause \<Rightarrow> Statement SelectStatement \<Rightarrow> ExecutionPlan" where
  "plan_cte_select with_clause select =
     \<lparr>ep_root = CTENode with_clause (SelectS (strip_with_clause select)), ep_output_schema = []\<rparr>"

definition output_schema_of :: "PlanNode \<Rightarrow> (string \<times> DataType) list" where
  "output_schema_of plan =
     (case plan of
        ScanNode _ _ _ \<Rightarrow> [(''column1'', DataType_new TextT)]
      | ProjectNode _ columns _ _ _ \<Rightarrow> map (\<lambda>(name, _). (name, DataType_new TextT)) columns
      | _ \<Rightarrow> [])"

definition plan_filter :: "expr option \<Rightarrow> PlanNode \<Rightarrow> PlanNode res" where
  "plan_filter condition plan =
     (case condition of
        None \<Rightarrow> Ok plan
      | Some c \<Rightarrow> res_bind (plan_subqueries_in_expression c) (\<lambda>planned. Ok (FilterNode plan planned)))"

definition finish_plan ::
    "expr option \<Rightarrow> Statement OrderBy list \<Rightarrow> i64 option \<Rightarrow> i64 option \<Rightarrow> bool \<Rightarrow> PlanNode \<Rightarrow> ExecutionPlan res" where
  "finish_plan having order_by limit offset dist plan =
     res_bind (plan_filter having plan) (\<lambda>plan.
       let plan = (if order_by = [] then plan else SortNode plan order_by);
           plan = (case limit of Some limit_val \<Rightarrow> LimitNode plan limit_val offset | None \<Rightarrow> plan);
           plan = (if dist then DistinctNode plan else plan)
       in Ok \<lparr>ep_root = plan, ep_output_schema = output_schema_of plan\<rparr>)"

fun plan_select_with :: "expr_lib \<Rightarrow> 'fm QueryPlanner \<Rightarrow> table_planner \<Rightarrow> Statement SelectStatement \<Rightarrow> ExecutionPlan res" where
  "plan_select_with L P scan
     (SimpleSelect with_clause dist columns from joins where_clause group_by having order_by limit offset named_windows) =
     (case with_clause of
        Some w \<Rightarrow> Ok (plan_cte_select w
          (SimpleSelect with_clause dist columns from joins where_clause group_by having order_by limit offset named_windows))
      | None \<Rightarrow>
        let has_aggregation = (group_by \<noteq> [] \<or> has_aggregate_functions (map cs_expr columns))
        in res_bind (plan_from_clause scan from) (\<lambda>plan.
           res_bind (plan_joins scan plan joins) (\<lambda>plan.
           res_bind (plan_filter where_clause plan) (\<lambda>plan.
           let plan = (if has_aggregation then plan_aggregation L plan group_by columns having else plan)
           in res_bind (if map cs_expr columns = [StarE] then Ok plan
                else res_bind (plan_projections group_by has_aggregation 0 columns) (\<lambda>all_projections.
                  Ok (plan_projection P from all_projections plan))) (\<lambda>plan.
           finish_plan having order_by limit offset dist plan)))))"
| "plan_select_with L P scan (SetSelect (SetOperation op left right all)) =
     res_bind (plan_select_with L P scan left) (\<lambda>left_plan.
     res_bind (plan_select_with L P scan right) (\<lambda>right_plan.
       Ok \<lparr>ep_root = SetOperationNode op (ep_root left_plan) (ep_root right_plan) all,
           ep_output_schema = ep_output_schema left_plan\<rparr>))"

text \<open>The name of a table: a common table expression, a view or a table.\<close>

definition view_select :: "plan_lib \<Rightarrow> ViewDef \<Rightarrow> Statement SelectStatement res" where
  "view_select E view_def =
     res_bind (tokenize (Lexer_new (vd_query view_def))) (\<lambda>tokens.
     res_bind (pl_parse E tokens) (\<lambda>parsed_statements.
       case parsed_statements of
         [] \<Rightarrow> Err (ParseError ''View has empty query'')
       | SelectS select_stmt # _ \<Rightarrow> Ok select_stmt
       | _ # _ \<Rightarrow> Err (InternalError ''View query is not a SELECT statement'')))"

definition view_of :: "'fm QueryPlanner \<Rightarrow> string \<Rightarrow> ViewDef option" where
  "view_of P name = (case qp_catalog P of Some catalog \<Rightarrow> catalog_get_view name catalog | None \<Rightarrow> None)"

fun plan_table_scan :: "plan_lib \<Rightarrow> nat \<Rightarrow> 'fm QueryPlanner \<Rightarrow> table_planner" where
  "plan_table_scan E n P table_name alias =
     (if hm_contains (qp_materialized_ctes P) table_name then Ok (CTEScanNode table_name alias)
      else case view_of P table_name of
        None \<Rightarrow> Ok (ScanNode table_name [] alias)
      | Some view_def \<Rightarrow>
          (case n of
             0 \<Rightarrow> Deadlock
           | Suc m \<Rightarrow> res_bind (view_select E view_def) (\<lambda>select_stmt.
               res_bind (plan_select_with (pl_expr E) P (plan_table_scan E m P) select_stmt) (\<lambda>view_plan.
                 Ok (ep_root view_plan)))))"

definition plan_select :: "plan_lib \<Rightarrow> nat \<Rightarrow> 'fm QueryPlanner \<Rightarrow> Statement SelectStatement \<Rightarrow> ExecutionPlan res" where
  "plan_select E n P select = plan_select_with (pl_expr E) P (plan_table_scan E n P) select"

subsection \<open>Statements that change a table\<close>

definition statement_table :: "string \<Rightarrow> Statement TableRef \<Rightarrow> string res" where
  "statement_table message t = (case t of TableName name _ \<Rightarrow> Ok name | TableSubquery _ _ \<Rightarrow> Err (ParseError message))"

definition plan_insert :: "Statement InsertStatement \<Rightarrow> ExecutionPlan res" where
  "plan_insert ins =
     res_bind (statement_table ''INSERT into subquery is not supported'' (ins_table ins)) (\<lambda>table_name.
       Ok \<lparr>ep_root = InsertNode table_name (ins_columns ins) (ins_values ins), ep_output_schema = []\<rparr>)"

definition plan_update :: "Statement UpdateStatement \<Rightarrow> ExecutionPlan res" where
  "plan_update upd =
     res_bind (statement_table ''UPDATE subquery is not supported'' (upd_table upd)) (\<lambda>table_name.
       Ok \<lparr>ep_root = UpdateNode table_name (upd_assignments upd) (upd_where_clause upd), ep_output_schema = []\<rparr>)"

definition plan_delete :: "Statement DeleteStatement \<Rightarrow> ExecutionPlan res" where
  "plan_delete del =
     res_bind (statement_table ''DELETE from subquery is not supported'' (del_table del)) (\<lambda>table_name.
       Ok \<lparr>ep_root = DeleteNode table_name (del_where_clause del), ep_output_schema = []\<rparr>)"

subsection \<open>Lemmas: expressions\<close>

lemma plan_subqueries_ok [simp]:
  "plan_subqueries_in_expression e = Ok e"
  "plan_subqueries_in_list es = Ok es"
  by (induction e and es rule: plan_subqueries_in_expression_plan_subqueries_in_list.induct) simp_all

definition projections_of :: "expr list \<Rightarrow> bool \<Rightarrow> nat \<Rightarrow> Statement ColumnSpec list \<Rightarrow> (string \<times> expr) list" where
  "projections_of group_by has_aggregation i cs =
     map (\<lambda>(j, c). (projection_name j c, projection_expr group_by has_aggregation j c (cs_expr c))) (zip [i..<i + length cs] cs)"

lemma plan_projections_ok: "plan_projections group_by has_aggregation i cs = Ok (projections_of group_by has_aggregation i cs)"
proof (induction cs arbitrary: i)
  case (Cons c cs)
  have "[i..<i + length (c # cs)] = i # [Suc i..<Suc i + length cs]" by (simp add: upt_rec)
  then show ?case by (simp only: projections_of_def) (simp add: Cons projections_of_def)
qed (simp add: projections_of_def)

text \<open>
  The window functions of an expression outside its subqueries, in the order of the text, its column
  names, and the expression with functions in the place of names.
\<close>

fun window_functions_of :: "expr \<Rightarrow> expr list"
and window_functions_of_branch :: "Statement CaseBranch \<Rightarrow> expr list" where
  "window_functions_of (WindowFunctionE w) = [WindowFunctionE w]"
| "window_functions_of (BinaryOpE left op right) = window_functions_of left @ window_functions_of right"
| "window_functions_of (UnaryOpE op e) = window_functions_of e"
| "window_functions_of (FunctionE name args d) = concat (map window_functions_of args)"
| "window_functions_of (CastE e t) = window_functions_of e"
| "window_functions_of (CaseE base branches else_result) =
     (case base of Some e \<Rightarrow> window_functions_of e | None \<Rightarrow> []) @ concat (map window_functions_of_branch branches) @
     (case else_result of Some e \<Rightarrow> window_functions_of e | None \<Rightarrow> [])"
| "window_functions_of (ListE es) = concat (map window_functions_of es)"
| "window_functions_of _ = []"
| "window_functions_of_branch (CaseBranch condition result) = window_functions_of condition @ window_functions_of result"

fun unqualified_names :: "expr \<Rightarrow> string list"
and unqualified_names_of_branch :: "Statement CaseBranch \<Rightarrow> string list" where
  "unqualified_names (ColumnE None name) = [name]"
| "unqualified_names (BinaryOpE left op right) = unqualified_names left @ unqualified_names right"
| "unqualified_names (UnaryOpE op e) = unqualified_names e"
| "unqualified_names (FunctionE name args d) = concat (map unqualified_names args)"
| "unqualified_names (CastE e t) = unqualified_names e"
| "unqualified_names (CaseE base branches else_result) =
     (case base of Some e \<Rightarrow> unqualified_names e | None \<Rightarrow> []) @ concat (map unqualified_names_of_branch branches) @
     (case else_result of Some e \<Rightarrow> unqualified_names e | None \<Rightarrow> [])"
| "unqualified_names (ListE es) = concat (map unqualified_names es)"
| "unqualified_names _ = []"
| "unqualified_names_of_branch (CaseBranch condition result) = unqualified_names condition @ unqualified_names result"

fun restore_functions :: "(string \<Rightarrow> expr option) \<Rightarrow> expr \<Rightarrow> expr"
and restore_in_branch :: "(string \<Rightarrow> expr option) \<Rightarrow> Statement CaseBranch \<Rightarrow> Statement CaseBranch" where
  "restore_functions m (ColumnE None name) = (case m name of Some w \<Rightarrow> w | None \<Rightarrow> ColumnE None name)"
| "restore_functions m (BinaryOpE left op right) = BinaryOpE (restore_functions m left) op (restore_functions m right)"
| "restore_functions m (UnaryOpE op e) = UnaryOpE op (restore_functions m e)"
| "restore_functions m (FunctionE name args d) = FunctionE name (map (restore_functions m) args) d"
| "restore_functions m (CastE e t) = CastE (restore_functions m e) t"
| "restore_functions m (CaseE base branches else_result) =
     CaseE (map_option (restore_functions m) base) (map (restore_in_branch m) branches)
       (map_option (restore_functions m) else_result)"
| "restore_functions m (ListE es) = ListE (map (restore_functions m) es)"
| "restore_functions m e = e"
| "restore_in_branch m (CaseBranch condition result) =
     CaseBranch (restore_functions m condition) (restore_functions m result)"

definition window_name :: "nat \<Rightarrow> string" where
  "window_name k = ''win_func_'' @ show_nat k"

definition extracts :: "nat \<Rightarrow> (string \<times> expr) list \<Rightarrow> nat \<Rightarrow> expr list \<Rightarrow> bool" where
  "extracts n fs n1 ws \<longleftrightarrow> n \<le> n1 \<and> map fst fs = map window_name [n..<n1] \<and> map snd fs = ws"

lemma extracts_append:
  assumes "extracts n fs n1 ws" "extracts n1 gs n2 vs"
  shows "extracts n (fs @ gs) n2 (ws @ vs)"
proof -
  have "[n..<n2] = [n..<n1] @ [n1..<n2]" using assms upt_add_eq_append [of n n1 "n2 - n1"] by (simp add: extracts_def)
  then show ?thesis using assms by (auto simp: extracts_def)
qed

lemma extracts_nil: "extracts n [] n []"
  by (simp add: extracts_def)

lemma extracts_append3:
  "extracts n fs n1 ws \<Longrightarrow> extracts n1 gs n2 vs \<Longrightarrow> extracts n2 hs n3 us \<Longrightarrow> extracts n (fs @ gs @ hs) n3 (ws @ vs @ us)"
  using extracts_append by blast

lemma extracts_one: "extracts n [(''win_func_'' @ show_nat n, w)] (Suc n) [w]"
  by (simp add: extracts_def window_name_def)

lemma extraction:
  "case extract_window_functions e n of (fs, e1, n1) \<Rightarrow>
     extracts n fs n1 (window_functions_of e) \<and> window_functions_of e1 = []"
  "case extract_from_option b n of (fs, b1, n1) \<Rightarrow>
     extracts n fs n1 (case b of Some e \<Rightarrow> window_functions_of e | None \<Rightarrow> []) \<and>
     (case b1 of Some e \<Rightarrow> window_functions_of e | None \<Rightarrow> []) = []"
  "case extract_from_list es n of (fs, es1, n1) \<Rightarrow>
     extracts n fs n1 (concat (map window_functions_of es)) \<and> concat (map window_functions_of es1) = []"
  "case extract_from_branches bs n of (fs, bs1, n1) \<Rightarrow>
     extracts n fs n1 (concat (map window_functions_of_branch bs)) \<and> concat (map window_functions_of_branch bs1) = []"
proof (induction e n and b n and es n and bs n
    rule: extract_window_functions_extract_from_option_extract_from_list_extract_from_branches.induct)
  case (6 base branches else_result n)
  obtain fs1 b1 n1 where 1: "extract_from_option base n = (fs1, b1, n1)" by (metis prod_cases3)
  obtain fs2 b2 n2 where 2: "extract_from_branches branches n1 = (fs2, b2, n2)" by (metis prod_cases3)
  obtain fs3 b3 n3 where 3: "extract_from_option else_result n2 = (fs3, b3, n3)" by (metis prod_cases3)
  show ?case using 6(1) 6(2) [OF 1 [symmetric] refl refl] 6(3) [OF 1 [symmetric] refl refl 2 [symmetric] refl refl]
    by (auto simp: 1 2 3 intro: extracts_append3)
next
  case (14 condition result bs n)
  obtain fs1 e1 n1 where 1: "extract_window_functions condition n = (fs1, e1, n1)" by (metis prod_cases3)
  obtain fs2 e2 n2 where 2: "extract_window_functions result n1 = (fs2, e2, n2)" by (metis prod_cases3)
  obtain fs3 b3 n3 where 3: "extract_from_branches bs n2 = (fs3, b3, n3)" by (metis prod_cases3)
  show ?case using 14(1) 14(2) [OF 1 [symmetric] refl refl] 14(3) [OF 1 [symmetric] refl refl 2 [symmetric] refl refl]
    by (auto simp: 1 2 3 intro: extracts_append3)
qed (auto split: prod.splits simp: extracts_nil extracts_one [simplified] Let_def intro: extracts_append)

lemma case_extraction:
  "extract_window_functions e n = (fs, e1, n1) \<Longrightarrow> extracts n fs n1 (window_functions_of e) \<and> window_functions_of e1 = []"
  using extraction(1) [where e = e and n = n] by simp

text \<open>Putting the functions back. The names of the expression must not be generated ones.\<close>

definition names_apart :: "(string \<Rightarrow> expr option) \<Rightarrow> string list \<Rightarrow> bool" where
  "names_apart m names \<longleftrightarrow> (\<forall>name \<in> set names. m name = None)"

lemma names_apart_simps [simp]:
  "names_apart m []" "names_apart m (a @ b) \<longleftrightarrow> names_apart m a \<and> names_apart m b"
  "names_apart m (name # b) \<longleftrightarrow> m name = None \<and> names_apart m b"
  "names_apart m (concat xss) \<longleftrightarrow> (\<forall>xs \<in> set xss. names_apart m xs)"
  by (auto simp: names_apart_def)

definition agrees :: "(string \<Rightarrow> expr option) \<Rightarrow> (string \<times> expr) list \<Rightarrow> bool" where
  "agrees m fs \<longleftrightarrow> (\<forall>(g, w) \<in> set fs. m g = Some w)"

lemma agrees_simps [simp]: "agrees m []" "agrees m (a @ b) \<longleftrightarrow> agrees m a \<and> agrees m b"
  "agrees m ((g, w) # b) \<longleftrightarrow> m g = Some w \<and> agrees m b"
  by (auto simp: agrees_def)

lemma column_restored: "names_apart m (unqualified_names (ColumnE t name)) \<Longrightarrow> restore_functions m (ColumnE t name) = ColumnE t name"
  by (cases t) auto

lemma restoration:
  "case extract_window_functions e n of (fs, e1, n1) \<Rightarrow>
     agrees m fs \<and> names_apart m (unqualified_names e) \<longrightarrow> restore_functions m e1 = e"
  "case extract_from_option b n of (fs, b1, n1) \<Rightarrow>
     agrees m fs \<and> names_apart m (case b of Some e \<Rightarrow> unqualified_names e | None \<Rightarrow> []) \<longrightarrow> map_option (restore_functions m) b1 = b"
  "case extract_from_list es n of (fs, es1, n1) \<Rightarrow>
     agrees m fs \<and> names_apart m (concat (map unqualified_names es)) \<longrightarrow> map (restore_functions m) es1 = es"
  "case extract_from_branches bs n of (fs, bs1, n1) \<Rightarrow>
     agrees m fs \<and> names_apart m (concat (map unqualified_names_of_branch bs)) \<longrightarrow> map (restore_in_branch m) bs1 = bs"
proof (induction e n and b n and es n and bs n
    rule: extract_window_functions_extract_from_option_extract_from_list_extract_from_branches.induct)
  case (6 base branches else_result n)
  obtain fs1 b1 n1 where 1: "extract_from_option base n = (fs1, b1, n1)" by (metis prod_cases3)
  obtain fs2 b2 n2 where 2: "extract_from_branches branches n1 = (fs2, b2, n2)" by (metis prod_cases3)
  obtain fs3 b3 n3 where 3: "extract_from_option else_result n2 = (fs3, b3, n3)" by (metis prod_cases3)
  show ?case using 6(1) 6(2) [OF 1 [symmetric] refl refl] 6(3) [OF 1 [symmetric] refl refl 2 [symmetric] refl refl]
    by (simp add: 1 2 3)
next
  case (14 condition result bs n)
  obtain fs1 e1 n1 where 1: "extract_window_functions condition n = (fs1, e1, n1)" by (metis prod_cases3)
  obtain fs2 e2 n2 where 2: "extract_window_functions result n1 = (fs2, e2, n2)" by (metis prod_cases3)
  obtain fs3 b3 n3 where 3: "extract_from_branches bs n2 = (fs3, b3, n3)" by (metis prod_cases3)
  show ?case using 14(1) 14(2) [OF 1 [symmetric] refl refl] 14(3) [OF 1 [symmetric] refl refl 2 [symmetric] refl refl]
    by (simp add: 1 2 3)
qed (auto split: prod.splits option.splits simp: Let_def column_restored)

lemma show_nat_inj: "show_nat a = show_nat b \<longleftrightarrow> a = b"
proof
  assume eq: "show_nat a = show_nat b"
  define lim where "lim = Suc (a + b)"
  have "parse_digits lim 0 (show_nat a) = Some a" by (rule parse_digits_show_nat) (simp add: lim_def)
  moreover have "parse_digits lim 0 (show_nat a) = Some b"
    unfolding eq by (rule parse_digits_show_nat) (simp add: lim_def)
  ultimately have "Some a = Some b" by (rule trans [OF sym])
  then show "a = b" by (rule option.inject [THEN iffD1])
qed simp

lemma window_name_inj: "window_name a = window_name b \<longleftrightarrow> a = b"
  using show_nat_inj [of a b] by (auto simp: window_name_def)

lemma extracts_agrees:
  assumes "extracts n fs n1 ws"
  shows "agrees (map_of fs) fs"
proof -
  have "distinct (map fst fs)" using assms by (auto simp: extracts_def distinct_map inj_on_def window_name_inj)
  then show ?thesis by (auto simp: agrees_def)
qed

lemma names_apart_extracts:
  assumes "extracts n fs n1 ws" "\<And>name. name \<in> set names \<Longrightarrow> take 9 name \<noteq> ''win_func_''"
  shows "names_apart (map_of fs) names"
proof -
  have "name \<notin> fst ` set fs" if "name \<in> set names" for name
  proof
    assume "name \<in> fst ` set fs"
    then have "name \<in> set (map fst fs)" by simp
    moreover have "map fst fs = map window_name [n..<n1]" using assms(1) by (simp add: extracts_def)
    ultimately have "name \<in> set (map window_name [n..<n1])" by (simp only:)
    then show False using assms(2) [OF that] by (auto simp: window_name_def)
  qed
  then show ?thesis by (auto simp: names_apart_def map_of_eq_None_iff)
qed

subsection \<open>Lemmas: views\<close>

text \<open>The tables that are looked up when a query is planned: those of its subqueries are not.\<close>

definition ref_names :: "Statement TableRef list \<Rightarrow> string list" where
  "ref_names ts = concat (map (\<lambda>t. case t of TableName name _ \<Rightarrow> [name] | TableSubquery _ _ \<Rightarrow> []) ts)"

fun planned_tables :: "Statement SelectStatement \<Rightarrow> string list" where
  "planned_tables (SimpleSelect with_clause dist columns from joins where_clause group_by having order_by limit offset named_windows) =
     (if with_clause = None then ref_names (from @ map jc_table joins) else [])"
| "planned_tables (SetSelect (SetOperation op left right all)) = planned_tables left @ planned_tables right"

lemma ref_names_simps [simp]:
  "ref_names [] = []" "ref_names (TableName name alias # ts) = name # ref_names ts"
  "ref_names (TableSubquery q alias # ts) = ref_names ts" "ref_names (a @ b) = ref_names a @ ref_names b"
  by (simp_all add: ref_names_def)

text \<open>Results that are the same and return; two ways to plan tables that agree on the tables of a query.\<close>

definition same_result :: "'a res \<Rightarrow> 'a res \<Rightarrow> bool" where
  "same_result r q \<longleftrightarrow> r = q \<and> returns q"

lemma same_result_simps [simp]: "same_result (Ok x) (Ok y) \<longleftrightarrow> x = y" "same_result (Err e) (Err e)"
  by (auto simp: same_result_def)

lemma same_bind:
  "same_result r q \<Longrightarrow> (\<And>x. same_result (f x) (g x)) \<Longrightarrow> same_result (res_bind r f) (res_bind q g)"
  by (cases q) (auto simp: same_result_def)

definition agree_on :: "table_planner \<Rightarrow> table_planner \<Rightarrow> string list \<Rightarrow> bool" where
  "agree_on f g names \<longleftrightarrow> (\<forall>name \<in> set names. \<forall>al. same_result (f name al) (g name al))"

lemma agree_on_simps [simp]:
  "agree_on f g []" "agree_on f g (a @ b) \<longleftrightarrow> agree_on f g a \<and> agree_on f g b"
  "agree_on f g (name # b) \<longleftrightarrow> (\<forall>al. same_result (f name al) (g name al)) \<and> agree_on f g b"
  by (auto simp: agree_on_def)

definition agree_on_ref :: "table_planner \<Rightarrow> table_planner \<Rightarrow> Statement TableRef \<Rightarrow> bool" where
  "agree_on_ref f g t \<longleftrightarrow> agree_on f g (ref_names [t])"

lemma plan_table_ref_agree: "agree_on_ref f g t \<Longrightarrow> same_result (plan_table_ref f t) (plan_table_ref g t)"
  by (cases t) (simp_all add: plan_table_ref_def agree_on_ref_def)

lemma agree_on_Cons: "agree_on f g (ref_names (t # ts)) \<longleftrightarrow> agree_on_ref f g t \<and> agree_on f g (ref_names ts)"
  by (cases t) (simp_all add: agree_on_ref_def)

lemma plan_cross_joins_agree:
  "agree_on f g (ref_names ts) \<Longrightarrow> same_result (plan_cross_joins f plan ts) (plan_cross_joins g plan ts)"
  by (induction ts arbitrary: plan) (auto simp: agree_on_Cons intro!: same_bind plan_table_ref_agree)

lemma plan_from_clause_agree:
  "agree_on f g (ref_names ts) \<Longrightarrow> same_result (plan_from_clause f ts) (plan_from_clause g ts)"
  by (cases ts) (auto simp: plan_from_clause_def agree_on_Cons intro!: same_bind plan_table_ref_agree plan_cross_joins_agree)

lemma plan_joins_agree:
  "agree_on f g (ref_names (map jc_table js)) \<Longrightarrow> same_result (plan_joins f plan js) (plan_joins g plan js)"
  by (induction js arbitrary: plan) (auto simp: agree_on_Cons intro!: same_bind plan_table_ref_agree)

lemma plan_filter_ok [simp]:
  "plan_filter c plan = Ok (case c of None \<Rightarrow> plan | Some e \<Rightarrow> FilterNode plan e)"
  by (cases c) (simp_all add: plan_filter_def)

lemma plan_select_with_agree:
  "agree_on f g (planned_tables s) \<Longrightarrow> same_result (plan_select_with L P f s) (plan_select_with L P g s)"
proof (induction L P f s rule: plan_select_with.induct)
  case (1 L P f w d cols frm joins wh gb hv ob lim off nw)
  show ?case
  proof (cases w)
    case None
    have names: "agree_on f g (ref_names frm)" "agree_on f g (ref_names (map jc_table joins))"
      using 1 None by simp_all
    show ?thesis
      using plan_from_clause_agree [OF names(1)] plan_joins_agree [OF names(2)]
      by (auto simp: None Let_def plan_projections_ok finish_plan_def simp del: plan_joins.simps intro!: same_bind)
  qed simp
next
  case (2 L P f op l r all)
  then show ?case by (auto intro!: same_bind)
qed

subsection \<open>Properties\<close>

text \<open>
  C15. Window functions of a column. They are taken out in the order of the text under distinct generated
  names, none is left outside the subqueries, and putting them back in the place of their names gives the
  expression again, unless the expression has names of that form itself.
\<close>

theorem window_extraction:
  assumes "extract_window_functions e n = (fs, e1, n1)"
    and "\<forall>name \<in> set (unqualified_names e). take 9 name \<noteq> ''win_func_''"
  shows "map snd fs = window_functions_of e \<and> distinct (map fst fs) \<and> n1 = n + length fs \<and>
    window_functions_of e1 = [] \<and> restore_functions (map_of fs) e1 = e"
proof -
  have ex: "extracts n fs n1 (window_functions_of e)" "window_functions_of e1 = []"
    using case_extraction [OF assms(1)] by simp_all
  have "names_apart (map_of fs) (unqualified_names e)" using names_apart_extracts [OF ex(1)] assms(2) by blast
  then have "restore_functions (map_of fs) e1 = e"
    using restoration(1) [where e = e and n = n and m = "map_of fs"] extracts_agrees [OF ex(1)] assms(1) by simp
  moreover have "distinct (map fst fs)" "n \<le> n1"
    using ex(1) by (auto simp: extracts_def distinct_map inj_on_def window_name_inj)
  moreover have "length fs = n1 - n"
    using ex(1) unfolding extracts_def by (metis length_map length_upt)
  ultimately show ?thesis using ex by (simp add: extracts_def)
qed

text \<open>
  C18. Planning ends. When every view names only views of smaller rank, and its text can be parsed or is
  refused, then planning returns, with a plan or an error, and the result does not depend on the fuel once
  that exceeds the ranks of the views the query names.
\<close>

theorem planning_returns:
  fixes rank :: "string \<Rightarrow> nat"
  assumes views: "\<And>name v. view_of P name = Some v \<Longrightarrow> returns (view_select E v) \<and>
      (\<forall>s. view_select E v = Ok s \<longrightarrow>
        (\<forall>t \<in> set (planned_tables s). view_of P t \<noteq> None \<longrightarrow> rank t < rank name))"
    and fuel: "\<forall>t \<in> set (planned_tables select). view_of P t \<noteq> None \<longrightarrow> rank t < n"
  shows "returns (plan_select E n P select) \<and> (\<forall>m \<ge> n. plan_select E m P select = plan_select E n P select)"
proof -
  have scan: "same_result (plan_table_scan E m P t al) (plan_table_scan E n P t al)"
    if "view_of P t \<noteq> None \<longrightarrow> rank t < n" "n \<le> m" for n m t al
    using that
  proof (induction n arbitrary: m t al)
    case 0
    then have "view_of P t = None" by auto
    then show ?case by simp
  next
    case (Suc n)
    then obtain m1 where m: "m = Suc m1" "n \<le> m1" by (cases m) auto
    show ?case
    proof (cases "view_of P t")
      case (Some v)
      show ?thesis
      proof (cases "view_select E v")
        case (Ok s)
        have "view_of P u \<noteq> None \<longrightarrow> rank u < n" if "u \<in> set (planned_tables s)" for u
          using views [OF Some] Ok Suc.prems(1) Some that by fastforce
        then have "agree_on (plan_table_scan E m1 P) (plan_table_scan E n P) (planned_tables s)"
          using Suc.IH m(2) unfolding agree_on_def by blast
        from plan_select_with_agree [OF this]
        show ?thesis by (auto simp: m Some Ok intro!: same_bind)
      qed (use views [OF Some] in \<open>auto simp: m Some same_result_def\<close>)
    qed (simp add: m)
  qed
  have "same_result (plan_select E m P select) (plan_select E n P select)" if "n \<le> m" for m
    unfolding plan_select_def
    by (rule plan_select_with_agree) (use scan [of _ n m] fuel that in \<open>auto simp: agree_on_def\<close>)
  then show ?thesis unfolding same_result_def by blast
qed

text \<open>A catalog with a view \<^verbatim>\<open>v\<close>, and a parser that knows its query: all rows of a table \<^verbatim>\<open>t\<close>.\<close>

definition select_all :: "string \<Rightarrow> Statement SelectStatement" where
  "select_all name = SimpleSelect None False [ColumnSpec StarE None] [TableName name None] [] None [] None [] None None []"

definition sample_planner :: "MockFileManager QueryPlanner" where
  "sample_planner = QueryPlanner_with_catalog (CatalogManager_new\<lparr>cm_view_manager :=
     snd (create_view 0 (1, [], '''', False) ''v'' ViewManager_new)\<rparr>)"

definition sample_plan_lib :: plan_lib where
  "sample_plan_lib = \<lparr>pl_expr = plain_lib, pl_parse = (\<lambda>_. Ok [SelectS (select_all ''t'')])\<rparr>"

lemma sample_views:
  "view_of sample_planner name \<noteq> None \<longleftrightarrow> name = ''v''"
  "view_of sample_planner ''v'' = Some v \<Longrightarrow> vd_query v = ''''"
  by (auto simp: view_of_def sample_planner_def QueryPlanner_with_catalog_def catalog_get_view_def get_view_def
      create_view_def ViewManager_new_def Let_def)

lemma sample_view_select: "vd_query v = '''' \<Longrightarrow> view_select sample_plan_lib v = Ok (select_all ''t'')"
  by (simp add: view_select_def tokenize_def Lexer_new_def tokenize_loop.simps is_at_end_def sample_plan_lib_def)

lemma planner_texts [simp]: "show_nat 0 = ''0''" "to_uppercase ''COUNT'' \<in> set aggregate_names"
  by code_simp+

theorem window_extraction_witness:
  "let w = WindowFunctionE (sample_function ''rank'' [])
   in restore_functions (map_of [(''win_func_0'', w)]) (BinaryOpE (ColumnE None ''win_func_0'') OpAdd (ColumnE None ''a'')) =
      BinaryOpE w OpAdd (ColumnE None ''a'')"
proof -
  let ?w = "WindowFunctionE (sample_function ''rank'' [])"
  have "extract_window_functions (BinaryOpE ?w OpAdd (ColumnE None ''a'')) 0 =
      ([(''win_func_0'', ?w)], BinaryOpE (ColumnE None ''win_func_0'') OpAdd (ColumnE None ''a''), 1)"
    by (simp add: Let_def)
  from window_extraction [OF this] show ?thesis by (simp add: Let_def)
qed

theorem planning_returns_witness:
  "\<exists>r. returns r \<and> (\<forall>m \<ge> 1. plan_select sample_plan_lib m sample_planner (select_all ''v'') = r)"
proof -
  have "returns (plan_select sample_plan_lib 1 sample_planner (select_all ''v'')) \<and>
    (\<forall>m \<ge> 1. plan_select sample_plan_lib m sample_planner (select_all ''v'') =
      plan_select sample_plan_lib 1 sample_planner (select_all ''v''))"
  proof (rule planning_returns [where rank = "\<lambda>_. 0"])
    fix name v
    assume v: "view_of sample_planner name = Some v"
    then have "name = ''v''" using sample_views(1) [of name] by simp
    then have "view_select sample_plan_lib v = Ok (select_all ''t'')" using v sample_views(2) sample_view_select by blast
    then show "returns (view_select sample_plan_lib v) \<and> (\<forall>s. view_select sample_plan_lib v = Ok s \<longrightarrow>
        (\<forall>t \<in> set (planned_tables s). view_of sample_planner t \<noteq> None \<longrightarrow> (0::nat) < 0))"
      using sample_views(1) by (auto simp: select_all_def)
  qed simp
  then show ?thesis by blast
qed

text \<open>The offset of a query that has no limit is ignored.\<close>

theorem offset_without_limit:
  "plan_select E n P (SimpleSelect None d cols tables joins wh gb hv ob None off nw) =
   plan_select E n P (SimpleSelect None d cols tables joins wh gb hv ob None None nw)"
proof -
  have "finish_plan hv ob None off d = finish_plan hv ob None None d" by (simp add: fun_eq_iff finish_plan_def)
  then show ?thesis by (simp add: plan_select_def)
qed

text \<open>The limit of a query is applied before its duplicates are removed.\<close>

theorem limit_before_distinct:
  "plan_select E n QueryPlanner_new (SimpleSelect None True [ColumnSpec StarE None] [TableName t None] [] None [] None [] (Some k) None []) =
   Ok \<lparr>ep_root = DistinctNode (LimitNode (ScanNode t [] None) k None), ep_output_schema = []\<rparr>"
  by (simp add: plan_select_def finish_plan_def plan_from_clause_def plan_table_ref_def QueryPlanner_new_def view_of_def hm_contains_def
      has_aggregate_functions_def output_schema_of_def)

text \<open>An expression over an aggregate is taken for a column to group by.\<close>

theorem aggregate_in_expression_grouped:
  "let e = BinaryOpE count_star OpAdd (ValueE (IntegerV 1))
   in plan_select E n QueryPlanner_new (SimpleSelect None False [ColumnSpec e None] [TableName t None] [] None [] None [] None None []) =
      Ok \<lparr>ep_root = project_node (AggregateNode (ScanNode t [] None) [e] [] None) [(''col0'', e)],
          ep_output_schema = [(''col0'', DataType_new TextT)]\<rparr>"
  by (simp add: plan_select_def finish_plan_def plan_from_clause_def plan_table_ref_def QueryPlanner_new_def view_of_def hm_contains_def
      has_aggregate_functions_def output_schema_of_def count_star_def is_aggregate_function_def plan_aggregation_def
      implicit_group_columns_def listed_aggregates_def projection_name_def projection_expr_def plan_projection_def
      has_window_functions_def project_node_def is_subquery_def Let_def)

text \<open>
  The columns that only a window function needs are projected away before it is computed: here it is
  computed over rows without the column it orders by.
\<close>

theorem window_input_projected:
  "let w = WindowFunctionE (WindowFunction ''rank'' [] (WindowClause [] [OrderBy (ColumnE None ''b'') Asc NullsDefault] None) None)
   in map_option ep_root (case plan_select E n QueryPlanner_new (SimpleSelect None False
        [ColumnSpec (ColumnE None ''a'') None, ColumnSpec w (Some ''r'')] [TableName t None] [] None [] None [] None None [])
        of Ok p \<Rightarrow> Some p | _ \<Rightarrow> None) =
      Some (project_node (WindowNode (project_node (ScanNode t [] None) [(''a'', ColumnE None ''a'')]) [(''r'', w)])
        [(''a'', ColumnE None ''a''), (''r'', ColumnE None ''r'')])"
  by (simp add: plan_select_def finish_plan_def plan_from_clause_def plan_table_ref_def QueryPlanner_new_def view_of_def hm_contains_def
      has_aggregate_functions_def is_aggregate_function_def projection_name_def projection_expr_def plan_projection_def
      has_window_functions_def project_node_def extract_and_replace_window_functions_def is_window_function_def Let_def)

end
