(* ===== verification/BTree.thy ===== *)
theory BTree
  imports Buffer_Pool "HOL-Library.List_Lexorder"
begin

section \<open>The B-tree (\<^verbatim>\<open>src/src/storage/btree.rs\<close>)\<close>

text \<open>
  Nodes are records with the source's fields. Keys are byte strings in lexicographic order, the order
  of \<^verbatim>\<open>Vec<u8>\<close>. The tree's operations run on the buffer pool: a node is loaded from the data of a page
  and saved back into it, encoded by \<^verbatim>\<open>bincode\<close>, which is a parameter. The recursive operations follow
  page numbers, which nothing in the code bounds, so they take the depth of the call stack as fuel and
  running out of it is the panic of a stack overflow.

  The lemmas are about the node operations: the binary search, insertion, removal and splitting.
\<close>

subsection \<open>Data\<close>

type_synonym BTreeKey = bytes
type_synonym BTreeValue = PageId

record BTreeEntry =
  be_key :: BTreeKey
  be_value :: BTreeValue

datatype BTreeNodeType = LeafNode | InternalNode

record BTreeNode =
  bn_node_type :: BTreeNodeType
  bn_entry_count :: usize
  bn_entries :: "BTreeEntry list"
  bn_children :: "PageId list"
  bn_prev_leaf :: "PageId option"
  bn_next_leaf :: "PageId option"

record bt_lib =
  bl_page :: page_lib
  bl_serialize :: "BTreeNode \<Rightarrow> bytes"
  bl_deserialize :: "bytes \<Rightarrow> BTreeNode option"

record 'fm BTree =
  bt_root_page_id :: PageId
  bt_pool :: "'fm BufferPoolManager"

type_synonym ('fm, 'a) bt_op = "('fm BTree, 'a) op"

definition MAX_KEYS :: nat where
  "MAX_KEYS = 100"

definition MIN_KEYS :: nat where
  "MIN_KEYS = MAX_KEYS div 2"

subsection \<open>Nodes\<close>

definition BTreeNode_new :: "BTreeNodeType \<Rightarrow> BTreeNode" where
  "BTreeNode_new t = \<lparr>bn_node_type = t, bn_entry_count = 0, bn_entries = [], bn_children = [],
     bn_prev_leaf = None, bn_next_leaf = None\<rparr>"

definition is_full :: "BTreeNode \<Rightarrow> bool" where
  "is_full n = (bn_entry_count n \<ge> of_nat MAX_KEYS)"

definition node_is_empty :: "BTreeNode \<Rightarrow> bool" where
  "node_is_empty n = (bn_entry_count n = 0)"

definition is_underflow :: "BTreeNode \<Rightarrow> bool" where
  "is_underflow n = (bn_entry_count n < of_nat MIN_KEYS)"

text \<open>\<^verbatim>\<open>slice::binary_search_by\<close> on the entries' keys: the range \<open>[lo, hi)\<close> is halved until the key is
  found (\<open>Inr\<close>) or the range is empty (\<open>Inl\<close>, the position to insert at).\<close>

function bsearch :: "BTreeEntry list \<Rightarrow> BTreeKey \<Rightarrow> nat \<Rightarrow> nat \<Rightarrow> nat + nat" where
  "bsearch es key lo hi =
     (if hi \<le> lo then Inl lo
      else let mid = lo + (hi - lo) div 2; k = be_key (es ! mid)
           in if k = key then Inr mid
              else if k < key then bsearch es key (Suc mid) hi else bsearch es key lo mid)"
  by pat_completeness auto
termination
  by (relation "measure (\<lambda>(es, key, lo, hi). hi - lo)") auto

declare bsearch.simps [simp del]

definition binary_search_by :: "BTreeEntry list \<Rightarrow> BTreeKey \<Rightarrow> nat + nat" where
  "binary_search_by es key = bsearch es key 0 (length es)"

definition find_insert_position :: "BTreeNode \<Rightarrow> BTreeKey \<Rightarrow> nat" where
  "find_insert_position n key =
     (case binary_search_by (bn_entries n) key of Inr i \<Rightarrow> i | Inl pos \<Rightarrow> pos)"

definition find_key :: "BTreeNode \<Rightarrow> BTreeKey \<Rightarrow> nat option" where
  "find_key n key = (case binary_search_by (bn_entries n) key of Inr i \<Rightarrow> Some i | Inl _ \<Rightarrow> None)"

definition insert_entry :: "BTreeNode \<Rightarrow> BTreeEntry \<Rightarrow> unit res \<times> BTreeNode" where
  "insert_entry n entry =
     (if is_full n then (Err (IndexError ''Node is full''), n)
      else (Ok (), n\<lparr>bn_entries := vec_insert (find_insert_position n (be_key entry)) entry (bn_entries n),
                     bn_entry_count := bn_entry_count n + 1\<rparr>))"

definition remove_entry :: "BTreeNode \<Rightarrow> BTreeKey \<Rightarrow> BTreeEntry res \<times> BTreeNode" where
  "remove_entry n key =
     (case find_key n key of
        None \<Rightarrow> (Err (IndexError ''Key not found''), n)
      | Some pos \<Rightarrow> (Ok (bn_entries n ! pos),
          n\<lparr>bn_entries := vec_remove pos (bn_entries n), bn_entry_count := bn_entry_count n - 1\<rparr>))"

definition min_key :: "BTreeNode \<Rightarrow> BTreeKey option" where
  "min_key n = (case bn_entries n of [] \<Rightarrow> None | e # _ \<Rightarrow> Some (be_key e))"

definition max_key :: "BTreeNode \<Rightarrow> BTreeKey option" where
  "max_key n = (case bn_entries n of [] \<Rightarrow> None | _ \<Rightarrow> Some (be_key (last (bn_entries n))))"

text \<open>\<^verbatim>\<open>split\<close> returns the right node and the separator, and leaves the left node in place.\<close>

definition split_node :: "BTreeNode \<Rightarrow> (BTreeNode \<times> BTreeEntry \<times> BTreeNode) res" where
  "split_node n =
     (let split_pos = unat (bn_entry_count n div 2);
          right_entries = drop split_pos (bn_entries n);
          move = bn_node_type n = InternalNode \<and> bn_children n \<noteq> [] \<and>
                 split_pos + 1 \<le> length (bn_children n);
          right_children = (if move then drop (split_pos + 1) (bn_children n) else []);
          left_children = (if move then take (split_pos + 1) (bn_children n) else bn_children n)
      in if split_pos > length (bn_entries n) then Panic ''split_off out of bounds''
         else case right_entries of
             [] \<Rightarrow> Panic ''removal index out of bounds''
           | separator # rest \<Rightarrow>
               Ok ((BTreeNode_new (bn_node_type n))\<lparr>bn_entries := rest, bn_children := right_children,
                      bn_entry_count := of_nat (length rest)\<rparr>,
                   separator,
                   n\<lparr>bn_entries := take split_pos (bn_entries n), bn_children := left_children,
                     bn_entry_count := of_nat (length (take split_pos (bn_entries n)))\<rparr>))"

subsection \<open>Nodes on pages\<close>

definition copy_into :: "bytes \<Rightarrow> bytes \<Rightarrow> bytes" where
  "copy_into src dst = src @ drop (length src) dst"

definition load_node :: "'fm fm_ops \<Rightarrow> bt_lib \<Rightarrow> PageId \<Rightarrow> ('fm, PageId \<times> BTreeNode) bp_op" where
  "load_node F B page_id =
     st_bind (fetch_page F page_id) (\<lambda>a s.
       (let page = bp_heap s ! a;
            node_size = of_nat (length (pg_data page)) - ph_free_bytes (pg_header page);
            node_bytes = take (unat node_size) (pg_data page)
        in if node_size = 0 \<or> node_size > of_nat (length (pg_data page))
           then (Ok (page_id, BTreeNode_new LeafNode), s)
           else if node_bytes = [] \<or> (\<forall>b \<in> set node_bytes. b = 0)
           then (Ok (page_id, BTreeNode_new LeafNode), s)
           else (case bl_deserialize B node_bytes of
                   None \<Rightarrow> (Err (SerializationError ''bincode''), s)
                 | Some node \<Rightarrow> (Ok (page_id, node), s))))"

definition save_node :: "'fm fm_ops \<Rightarrow> bt_lib \<Rightarrow> PageId \<Rightarrow> BTreeNode \<Rightarrow> ('fm, unit) bp_op" where
  "save_node F B page_id node =
     st_bind (fetch_page F page_id) (\<lambda>a s.
       (let page = bp_heap s ! a; node_bytes = bl_serialize B node
        in if length node_bytes > length (pg_data page)
           then (Err (StorageError ''B-Tree node too large for page''), s)
           else (let data = copy_into node_bytes (replicate (length (pg_data page)) 0);
                     page1 = page\<lparr>pg_data := data, pg_header := (pg_header page)\<lparr>ph_free_bytes :=
                        of_nat (length data) - of_nat (length node_bytes)\<rparr>\<rparr>;
                     page2 = update_checksum (bl_page B) page1 (bp_page_size F s)
                 in unpin_page page_id True (arc_write a page2 s))))"

definition with_pool :: "('fm, 'a) bp_op \<Rightarrow> ('fm, 'a) bt_op" where
  "with_pool m t = (case m (bt_pool t) of (r, s) \<Rightarrow> (r, t\<lparr>bt_pool := s\<rparr>))"

subsection \<open>Operations of the tree\<close>

definition BTree_new :: "'fm fm_ops \<Rightarrow> bt_lib \<Rightarrow> ('fm, PageId) bp_op" where
  "BTree_new F B =
     st_bind (new_page F BTreeInternalPage) (\<lambda>root_page_id.
     st_bind (fetch_page F root_page_id) (\<lambda>a s.
       (let root = bp_heap s ! a; node_bytes = bl_serialize B (BTreeNode_new LeafNode)
        in if length node_bytes > length (pg_data root) then (Panic ''range end out of bounds'', s)
           else (let data = copy_into node_bytes (pg_data root);
                     root1 = root\<lparr>pg_data := data, pg_header := (pg_header root)\<lparr>ph_free_bytes :=
                        of_nat (length data) - of_nat (length node_bytes)\<rparr>\<rparr>
                 in st_bind (unpin_page root_page_id True) (\<lambda>_. st_return root_page_id)
                      (arc_write a root1 s)))))"

definition BTree_load :: "PageId \<Rightarrow> 'fm BufferPoolManager \<Rightarrow> 'fm BTree" where
  "BTree_load root_page_id s = \<lparr>bt_root_page_id = root_page_id, bt_pool = s\<rparr>"

definition lift_res :: "'a res \<Rightarrow> ('s, 'a) op" where
  "lift_res r s = (r, s)"

text \<open>Splitting a full child and entering its separator in the parent; the result is the parent, the
  new left child, the separator, the number of the new page and the right child.\<close>

definition split_child ::
    "'fm fm_ops \<Rightarrow> bt_lib \<Rightarrow> BTreeNode \<Rightarrow> nat \<Rightarrow> PageId \<Rightarrow> BTreeNode \<Rightarrow>
     ('fm, BTreeNode \<times> BTreeNode \<times> BTreeEntry \<times> PageId \<times> BTreeNode) bt_op" where
  "split_child F B node child_idx child_id child_node =
     st_bind (lift_res (split_node child_node)) (\<lambda>(right_node, separator, left_node).
     st_bind (with_pool (save_node F B child_id left_node)) (\<lambda>_.
     st_bind (with_pool (new_page F (if bn_node_type right_node = LeafNode then BTreeLeafPage
                                     else BTreeInternalPage))) (\<lambda>right_page_id.
     st_bind (with_pool (save_node F B right_page_id right_node)) (\<lambda>_.
     st_return (node\<lparr>bn_entries := vec_insert child_idx separator (bn_entries node),
                      bn_children := vec_insert (child_idx + 1) right_page_id (bn_children node),
                      bn_entry_count := bn_entry_count node + 1\<rparr>,
                left_node, separator, right_page_id, right_node)))))"

fun insert_into_node ::
    "nat \<Rightarrow> 'fm fm_ops \<Rightarrow> bt_lib \<Rightarrow> PageId \<Rightarrow> BTreeNode \<Rightarrow> BTreeKey \<Rightarrow> BTreeValue \<Rightarrow> ('fm, unit) bt_op" where
  "insert_into_node 0 F B node_id node key val t = (Panic ''stack overflow'', t)"
| "insert_into_node (Suc depth) F B node_id node key val t =
     (case bn_node_type node of
        LeafNode \<Rightarrow>
          (case insert_entry node \<lparr>be_key = key, be_value = val\<rparr> of
             (Ok _, node1) \<Rightarrow> with_pool (save_node F B node_id node1) t
           | (r, node1) \<Rightarrow> (r, t))
      | InternalNode \<Rightarrow>
          (let child_idx = find_insert_position node key
           in if child_idx \<ge> length (bn_children node)
              then (Err (IndexError ''B-Tree internal node corruption''), t)
              else st_bind (with_pool (load_node F B (bn_children node ! child_idx)))
                (\<lambda>(child_id, child_node).
                   if is_full child_node
                   then st_bind (split_child F B node child_idx child_id child_node)
                     (\<lambda>(node1, left_node, separator, right_page_id, right_node).
                        (let target_child_id = (if key < be_key separator then child_id else right_page_id)
                         in st_bind (with_pool (save_node F B node_id node1)) (\<lambda>_.
                              if target_child_id = child_id
                              then insert_into_node depth F B child_id left_node key val
                              else insert_into_node depth F B right_page_id right_node key val)))
                   else st_bind (with_pool (save_node F B node_id node)) (\<lambda>_.
                          insert_into_node depth F B child_id child_node key val)) t))"

definition btree_insert :: "nat \<Rightarrow> 'fm fm_ops \<Rightarrow> bt_lib \<Rightarrow> BTreeKey \<Rightarrow> BTreeValue \<Rightarrow> ('fm, unit) bt_op" where
  "btree_insert depth F B key val t0 =
     st_bind (with_pool (load_node F B (bt_root_page_id t0))) (\<lambda>(root_id, root_node).
       if is_full root_node
       then st_bind (with_pool (new_page F BTreeInternalPage)) (\<lambda>new_root_id.
            st_bind (lift_res (split_node root_node)) (\<lambda>(right_node, separator, left_node).
            st_bind (with_pool (save_node F B root_id left_node)) (\<lambda>_.
            st_bind (with_pool (new_page F BTreeLeafPage)) (\<lambda>right_page_id.
            st_bind (with_pool (save_node F B right_page_id right_node)) (\<lambda>_.
              (let new_root_node = (BTreeNode_new InternalNode)\<lparr>bn_children := [root_id, right_page_id],
                     bn_entries := [separator], bn_entry_count := 1\<rparr>
               in st_bind (with_pool (save_node F B new_root_id new_root_node)) (\<lambda>_.
                  st_bind (st_update (\<lambda>t. t\<lparr>bt_root_page_id := new_root_id\<rparr>)) (\<lambda>_.
                  insert_into_node depth F B new_root_id new_root_node key val))))))))
       else insert_into_node depth F B root_id root_node key val) t0"

fun search_in_node ::
    "nat \<Rightarrow> 'fm fm_ops \<Rightarrow> bt_lib \<Rightarrow> BTreeNode \<Rightarrow> BTreeKey \<Rightarrow> ('fm, BTreeValue option) bt_op" where
  "search_in_node 0 F B node key t = (Panic ''stack overflow'', t)"
| "search_in_node (Suc depth) F B node key t =
     (case bn_node_type node of
        LeafNode \<Rightarrow> (Ok (map_option (\<lambda>idx. be_value (bn_entries node ! idx)) (find_key node key)), t)
      | InternalNode \<Rightarrow>
          (let child_idx = find_insert_position node key
           in if child_idx \<ge> length (bn_children node)
              then (Err (IndexError ''B-Tree search: child_idx out of range''), t)
              else st_bind (with_pool (load_node F B (bn_children node ! child_idx)))
                     (\<lambda>(_, child_node). search_in_node depth F B child_node key) t))"

definition btree_search :: "nat \<Rightarrow> 'fm fm_ops \<Rightarrow> bt_lib \<Rightarrow> BTreeKey \<Rightarrow> ('fm, BTreeValue option) bt_op" where
  "btree_search depth F B key t =
     st_bind (with_pool (load_node F B (bt_root_page_id t)))
       (\<lambda>(_, node). search_in_node depth F B node key) t"

text \<open>Underflow: borrowing and merging are not implemented in the source, they return \<^verbatim>\<open>false\<close>.\<close>

definition borrow_from_left :: "BTreeNode \<Rightarrow> nat \<Rightarrow> bool res" where
  "borrow_from_left node child_idx = Ok False"

definition borrow_from_right :: "BTreeNode \<Rightarrow> nat \<Rightarrow> bool res" where
  "borrow_from_right node child_idx = Ok False"

definition merge_with_left :: "BTreeNode \<Rightarrow> nat \<Rightarrow> bool res" where
  "merge_with_left node child_idx = Ok False"

definition merge_with_right :: "BTreeNode \<Rightarrow> nat \<Rightarrow> bool res" where
  "merge_with_right node child_idx = Ok False"

definition handle_underflow :: "'fm fm_ops \<Rightarrow> bt_lib \<Rightarrow> BTreeNode \<Rightarrow> nat \<Rightarrow> ('fm, bool) bt_op" where
  "handle_underflow F B node child_idx =
     (let merge = lift_res (if child_idx > 0 then merge_with_left node child_idx
                            else merge_with_right node child_idx);
          try_right = (if child_idx < length (bn_children node) - 1
            then st_bind (with_pool (load_node F B (bn_children node ! (child_idx + 1))))
                   (\<lambda>(_, right_child). if bn_entry_count right_child > of_nat MIN_KEYS
                      then lift_res (borrow_from_right node child_idx) else merge)
            else merge)
      in if child_idx > 0
         then st_bind (with_pool (load_node F B (bn_children node ! (child_idx - 1))))
                (\<lambda>(_, left_child). if bn_entry_count left_child > of_nat MIN_KEYS
                   then lift_res (borrow_from_left node child_idx) else try_right)
         else try_right)"

fun delete_from_node ::
    "nat \<Rightarrow> 'fm fm_ops \<Rightarrow> bt_lib \<Rightarrow> PageId \<Rightarrow> BTreeNode \<Rightarrow> BTreeKey \<Rightarrow>
     ('fm, (BTreeValue option \<times> bool) \<times> BTreeNode) bt_op" where
  "delete_from_node 0 F B node_id node key t = (Panic ''stack overflow'', t)"
| "delete_from_node (Suc depth) F B node_id node key t =
     (case bn_node_type node of
        LeafNode \<Rightarrow>
          (case find_key node key of
             Some idx \<Rightarrow>
               (let node1 = node\<lparr>bn_entries := vec_remove idx (bn_entries node),
                                 bn_entry_count := bn_entry_count node - 1\<rparr>
                in st_bind (with_pool (save_node F B node_id node1)) (\<lambda>_.
                   st_return ((Some (be_value (bn_entries node ! idx)), node_is_empty node1), node1)) t)
           | None \<Rightarrow> (Ok ((None, False), node), t))
      | InternalNode \<Rightarrow>
          (let child_idx = find_insert_position node key
           in if child_idx \<ge> length (bn_children node)
              then (Err (IndexError ''B-Tree delete: child_idx out of range''), t)
              else (let child_id = bn_children node ! child_idx
                in st_bind (with_pool (load_node F B child_id)) (\<lambda>(_, child_node).
                   st_bind (delete_from_node depth F B child_id child_node key)
                     (\<lambda>((deleted_value, child_needs_merge), child_node1).
                        if child_needs_merge
                        then st_bind (handle_underflow F B node child_idx) (\<lambda>should_merge_root.
                             st_bind (with_pool (save_node F B node_id node)) (\<lambda>_.
                             st_return ((deleted_value, should_merge_root), node)))
                        else st_bind (with_pool (save_node F B child_id child_node1)) (\<lambda>_.
                             st_return ((deleted_value, False), node)))) t)))"

definition btree_delete :: "nat \<Rightarrow> 'fm fm_ops \<Rightarrow> bt_lib \<Rightarrow> BTreeKey \<Rightarrow> ('fm, BTreeValue option) bt_op" where
  "btree_delete depth F B key t0 =
     st_bind (with_pool (load_node F B (bt_root_page_id t0))) (\<lambda>(_, root_node).
     st_bind (delete_from_node depth F B (bt_root_page_id t0) root_node key)
       (\<lambda>((deleted_value, should_merge_root), root_node1).
          if should_merge_root \<and> bn_children root_node1 \<noteq> []
          then st_bind (with_pool (delete_page F (bt_root_page_id t0))) (\<lambda>_.
               st_bind (st_update (\<lambda>t. t\<lparr>bt_root_page_id := hd (bn_children root_node1)\<rparr>)) (\<lambda>_.
               st_return deleted_value))
          else st_return deleted_value)) t0"

subsection \<open>The iterator\<close>

type_synonym iter_stack = "(PageId \<times> BTreeNode \<times> usize) list"

text \<open>The last element of the list is the top of the stack.\<close>

fun descend_left :: "nat \<Rightarrow> 'fm fm_ops \<Rightarrow> bt_lib \<Rightarrow> PageId \<Rightarrow> BTreeNode \<Rightarrow> iter_stack \<Rightarrow> ('fm, iter_stack) bt_op" where
  "descend_left 0 F B current_id node stack t = (Panic ''no progress'', t)"
| "descend_left (Suc depth) F B current_id node stack t =
     (if bn_node_type node = InternalNode
      then (let stack1 = stack @ [(current_id, node, 0)]
            in case bn_children node of
                 [] \<Rightarrow> (Ok (stack1 @ [(current_id, node, 0)]), t)
               | child # _ \<Rightarrow> st_bind (with_pool (load_node F B child))
                     (\<lambda>(_, node1). descend_left depth F B child node1 stack1) t)
      else (Ok (stack @ [(current_id, node, 0)]), t))"

definition BTreeIterator_new :: "nat \<Rightarrow> 'fm fm_ops \<Rightarrow> bt_lib \<Rightarrow> ('fm, iter_stack) bt_op" where
  "BTreeIterator_new depth F B t =
     st_bind (with_pool (load_node F B (bt_root_page_id t)))
       (\<lambda>(root_id, root_node). descend_left depth F B root_id root_node []) t"

definition BTreeIterator_seek :: "nat \<Rightarrow> 'fm fm_ops \<Rightarrow> bt_lib \<Rightarrow> BTreeKey \<Rightarrow> ('fm, iter_stack) bt_op" where
  "BTreeIterator_seek depth F B key = BTreeIterator_new depth F B"

text \<open>\<^verbatim>\<open>next\<close>: the stack is threaded with the file manager, from which the iterator reads directly. The
  fuel bounds the nodes visited before the next entry.\<close>

fun iterator_next ::
    "nat \<Rightarrow> 'fm fm_ops \<Rightarrow> bt_lib \<Rightarrow> ('fm \<times> iter_stack, (BTreeKey \<times> BTreeValue) res option) op" where
  "iterator_next 0 F B st = (Panic ''no progress'', st)"
| "iterator_next (Suc n) F B (fm, stack) =
     (if stack = [] then (Ok None, (fm, []))
      else (case last stack of (page_id, node, entry_idx) \<Rightarrow>
        if entry_idx < bn_entry_count node
        then (if unat entry_idx < length (bn_entries node)
              then (let entry = bn_entries node ! unat entry_idx
                    in (Ok (Some (Ok (be_key entry, be_value entry))),
                        (fm, butlast stack @ [(page_id, node, entry_idx + 1)])))
              else (Panic ''index out of bounds'', (fm, butlast stack)))
        else if bn_node_type node = InternalNode \<and> unat (entry_idx - 1) < length (bn_children node)
        then (let child_id = bn_children node ! unat (entry_idx - 1)
              in case op_read_page F child_id fm of
                   (Ok page, fm1) \<Rightarrow>
                     (let node_size = of_nat (length (pg_data page)) - ph_free_bytes (pg_header page)
                      in if node_size > of_nat (length (pg_data page))
                         then (Panic ''range end out of bounds'', (fm1, butlast stack))
                         else case bl_deserialize B (take (unat node_size) (pg_data page)) of
                             Some child_node \<Rightarrow>
                               iterator_next n F B (fm1, butlast stack @ [(child_id, child_node, 0)])
                           | None \<Rightarrow> (Ok (Some (Err (SerializationError ''bincode''))), (fm1, butlast stack)))
                 | (Err e, fm1) \<Rightarrow> (Ok (Some (Err e)), (fm1, butlast stack))
                 | (Panic m, fm1) \<Rightarrow> (Panic m, (fm1, butlast stack))
                 | (Deadlock, fm1) \<Rightarrow> (Deadlock, (fm1, butlast stack)))
        else iterator_next n F B (fm, butlast stack)))"

subsection \<open>Well-formed nodes\<close>

abbreviation node_keys :: "BTreeNode \<Rightarrow> BTreeKey list" where
  "node_keys n \<equiv> map be_key (bn_entries n)"

definition node_wf :: "BTreeNode \<Rightarrow> bool" where
  "node_wf n \<longleftrightarrow> sorted_wrt (<) (node_keys n) \<and> bn_entry_count n = of_nat (length (bn_entries n)) \<and>
     length (bn_entries n) \<le> MAX_KEYS \<and>
     (bn_node_type n = LeafNode \<longrightarrow> bn_children n = []) \<and>
     (bn_node_type n = InternalNode \<longrightarrow> length (bn_children n) = length (bn_entries n) + 1)"

text \<open>What a node stores, and what looking a key up in it returns.\<close>

definition node_map :: "BTreeNode \<Rightarrow> BTreeKey \<rightharpoonup> BTreeValue" where
  "node_map n = map_of (map (\<lambda>e. (be_key e, be_value e)) (bn_entries n))"

definition node_lookup :: "BTreeNode \<Rightarrow> BTreeKey \<rightharpoonup> BTreeValue" where
  "node_lookup n key = map_option (\<lambda>idx. be_value (bn_entries n ! idx)) (find_key n key)"

text \<open>A leaf with a hundred entries, and a page library for one stored node.\<close>

definition full_leaf :: BTreeNode where
  "full_leaf = (BTreeNode_new LeafNode)\<lparr>bn_entries := map (\<lambda>i. \<lparr>be_key = [of_nat i], be_value = of_nat i\<rparr>) [0..<100],
     bn_entry_count := 100\<rparr>"

definition one_node_lib :: "BTreeNode \<Rightarrow> bt_lib" where
  "one_node_lib n = \<lparr>bl_page = le_page_lib, bl_serialize = (\<lambda>_. [1]), bl_deserialize = (\<lambda>_. Some n)\<rparr>"

definition one_node_page :: Page where
  "one_node_page = \<lparr>pg_header = dummy_header, pg_data = [1]\<rparr>"

subsection \<open>Lemmas: the binary search\<close>

lemma bsearch_result:
  assumes "sorted_wrt (<) (map be_key es)" "lo \<le> hi" "hi \<le> length es"
    "\<And>i. i < lo \<Longrightarrow> be_key (es ! i) < key" "\<And>i. hi \<le> i \<Longrightarrow> i < length es \<Longrightarrow> key < be_key (es ! i)"
  shows "case bsearch es key lo hi of
      Inr i \<Rightarrow> i < length es \<and> be_key (es ! i) = key
    | Inl p \<Rightarrow> p \<le> length es \<and> (\<forall>i < p. be_key (es ! i) < key) \<and>
        (\<forall>i. p \<le> i \<longrightarrow> i < length es \<longrightarrow> key < be_key (es ! i))"
  using assms
proof (induction es key lo hi rule: bsearch.induct)
  case (1 es key lo hi)
  have less: "be_key (es ! i) < be_key (es ! j)" if "i < j" "j < length es" for i j
    using sorted_wrt_nth_less [OF 1(3), of i j] that by simp
  show ?case
  proof (cases "hi \<le> lo")
    case True
    then show ?thesis using 1(4-) by (subst bsearch.simps) auto
  next
    case False
    let ?mid = "lo + (hi - lo) div 2"
    have mid: "lo \<le> ?mid" "?mid < hi" using False by auto
    consider "be_key (es ! ?mid) = key" | "be_key (es ! ?mid) < key" | "key < be_key (es ! ?mid)"
      by (meson linorder_neqE)
    then show ?thesis
    proof cases
      case 1
      then show ?thesis using False mid \<open>hi \<le> length es\<close> by (subst bsearch.simps) (simp add: Let_def)
    next
      case 2
      have "be_key (es ! i) < key" if "i < Suc ?mid" for i
        using 2 less [of i ?mid] that mid \<open>hi \<le> length es\<close> by (cases "i = ?mid") force+
      then have "case bsearch es key (Suc ?mid) hi of
          Inr i \<Rightarrow> i < length es \<and> be_key (es ! i) = key
        | Inl p \<Rightarrow> p \<le> length es \<and> (\<forall>i < p. be_key (es ! i) < key) \<and>
            (\<forall>i. p \<le> i \<longrightarrow> i < length es \<longrightarrow> key < be_key (es ! i))"
        using 1(1) [OF False refl refl] less_imp_neq [OF 2] 2 mid 1(3,5,7) by (simp add: Let_def)
      then show ?thesis
        using False 2 less_imp_neq [OF 2] by (subst bsearch.simps) (simp add: Let_def)
    next
      case 3
      have "key < be_key (es ! i)" if "?mid \<le> i" "i < length es" for i
        using 3 less [of ?mid i] that by (cases "i = ?mid") force+
      then have "case bsearch es key lo ?mid of
          Inr i \<Rightarrow> i < length es \<and> be_key (es ! i) = key
        | Inl p \<Rightarrow> p \<le> length es \<and> (\<forall>i < p. be_key (es ! i) < key) \<and>
            (\<forall>i. p \<le> i \<longrightarrow> i < length es \<longrightarrow> key < be_key (es ! i))"
        using 1(2) [OF False refl refl] less_imp_neq [OF 3, symmetric] less_not_sym [OF 3] mid 1(3,5,6)
        by (simp add: Let_def)
      then show ?thesis
        using False 3 by (subst bsearch.simps) (auto simp: Let_def dest: less_asym)
    qed
  qed
qed

lemma binary_search_by_result:
  assumes "sorted_wrt (<) (map be_key es)"
  shows "(\<exists>i. binary_search_by es key = Inr i \<and> i < length es \<and> be_key (es ! i) = key) \<or>
    (\<exists>p. binary_search_by es key = Inl p \<and> p \<le> length es \<and> (\<forall>i < p. be_key (es ! i) < key) \<and>
      (\<forall>i. p \<le> i \<longrightarrow> i < length es \<longrightarrow> key < be_key (es ! i)))"
  using bsearch_result [OF assms, of 0 "length es" key]
  by (auto simp: binary_search_by_def split: sum.splits)

lemma find_key_iff:
  assumes "sorted_wrt (<) (node_keys n)"
  shows "find_key n key = Some i \<longleftrightarrow> i < length (bn_entries n) \<and> be_key (bn_entries n ! i) = key"
proof -
  have inj: "i = j" if "i < length (bn_entries n)" "j < length (bn_entries n)"
    "be_key (bn_entries n ! i) = be_key (bn_entries n ! j)" for i j
    using that nth_eq_iff_index_eq [of "node_keys n" i j] strict_sorted_iff [THEN iffD1, OF assms] by simp
  show ?thesis
    using binary_search_by_result [OF assms, of key] inj
    by (auto simp: find_key_def dest: less_imp_neq) (metis leI less_irrefl)+
qed

lemma find_key_None:
  assumes "sorted_wrt (<) (node_keys n)"
  shows "find_key n key = None \<longleftrightarrow> key \<notin> set (node_keys n)"
proof -
  have "key \<in> set (node_keys n) \<longleftrightarrow> (\<exists>i < length (bn_entries n). be_key (bn_entries n ! i) = key)"
    by (simp only: in_set_conv_nth length_map) (auto simp: nth_map)
  then show ?thesis using find_key_iff [OF assms, of key] by (cases "find_key n key") auto
qed

lemma find_insert_position_split:
  assumes "sorted_wrt (<) (node_keys n)" "key \<notin> set (node_keys n)"
  shows "find_insert_position n key \<le> length (bn_entries n)"
    "\<forall>e \<in> set (take (find_insert_position n key) (bn_entries n)). be_key e < key"
    "\<forall>e \<in> set (drop (find_insert_position n key) (bn_entries n)). key < be_key e"
proof -
  have "\<not> (\<exists>i. i < length (bn_entries n) \<and> be_key (bn_entries n ! i) = key)"
    using assms(2) by auto
  then obtain p where p: "find_insert_position n key = p" "p \<le> length (bn_entries n)"
    "\<forall>i < p. be_key (bn_entries n ! i) < key"
    "\<forall>i. p \<le> i \<longrightarrow> i < length (bn_entries n) \<longrightarrow> key < be_key (bn_entries n ! i)"
    using binary_search_by_result [OF assms(1), of key] by (auto simp: find_insert_position_def)
  then show "find_insert_position n key \<le> length (bn_entries n)"
    "\<forall>e \<in> set (take (find_insert_position n key) (bn_entries n)). be_key e < key"
    "\<forall>e \<in> set (drop (find_insert_position n key) (bn_entries n)). key < be_key e"
    by (auto simp: in_set_conv_nth)
qed

lemma node_lookup_map:
  assumes "sorted_wrt (<) (node_keys n)"
  shows "node_lookup n = node_map n"
proof
  fix key
  have "distinct (node_keys n)" using assms strict_sorted_iff by blast
  then have d: "distinct (map fst (map (\<lambda>e. (be_key e, be_value e)) (bn_entries n)))"
    by (simp add: comp_def)
  show "node_lookup n key = node_map n key"
  proof (cases "find_key n key")
    case None
    then have "key \<notin> set (node_keys n)" using find_key_None [OF assms] by simp
    then have "node_map n key = None" by (auto simp: node_map_def map_of_eq_None_iff)
    then show ?thesis using None by (simp add: node_lookup_def)
  next
    case (Some i)
    then have "i < length (bn_entries n)" "be_key (bn_entries n ! i) = key"
      using find_key_iff [OF assms] by auto
    then have "(key, be_value (bn_entries n ! i)) \<in> set (map (\<lambda>e. (be_key e, be_value e)) (bn_entries n))"
      by (auto intro!: image_eqI [of _ _ "bn_entries n ! i"])
    then show ?thesis using Some d by (simp add: node_lookup_def node_map_def)
  qed
qed

subsection \<open>Lemmas: insertion, removal, splitting\<close>

lemma is_full_iff: "node_wf n \<Longrightarrow> is_full n \<longleftrightarrow> length (bn_entries n) = MAX_KEYS"
  by (auto simp: node_wf_def is_full_def MAX_KEYS_def word_le_nat_alt unat_of_nat)

lemma insert_entry_sorted:
  assumes "sorted_wrt (<) (node_keys n)" "be_key e \<notin> set (node_keys n)"
  shows "sorted_wrt (<) (map be_key (vec_insert (find_insert_position n (be_key e)) e (bn_entries n)))"
proof -
  let ?p = "find_insert_position n (be_key e)" and ?es = "bn_entries n"
  note F = find_insert_position_split [OF assms]
  have "sorted_wrt (<) (map be_key (take ?p ?es @ drop ?p ?es))" using assms(1) by simp
  then have "sorted_wrt (<) (map be_key (take ?p ?es))" "sorted_wrt (<) (map be_key (drop ?p ?es))"
    by (simp_all only: map_append sorted_wrt_append)
  moreover have "\<forall>x \<in> set (take ?p ?es). \<forall>y \<in> set (drop ?p ?es). be_key x < be_key y"
    using F(2,3) by (meson order.strict_trans)
  ultimately show ?thesis
    using F(2,3) by (auto simp: vec_insert_def sorted_wrt_append)
qed

lemma map_of_vec_insert:
  assumes "k \<notin> fst ` set xs"
  shows "map_of (vec_insert i (k, v) xs) = (map_of xs)(k \<mapsto> v)"
proof -
  have "set (take i xs) \<subseteq> set xs" by (rule set_take_subset)
  then have "k \<notin> fst ` set (take i xs)" using assms by auto
  then have "map_of (take i xs) k = None" by (simp add: map_of_eq_None_iff)
  moreover have "map_of xs = map_of (take i xs @ drop i xs)" by simp
  ultimately show ?thesis
    by (auto simp: vec_insert_def map_add_def fun_eq_iff split: option.splits simp del: append_take_drop_id)
qed

lemma map_vec_insert: "map f (vec_insert i x xs) = vec_insert i (f x) (map f xs)"
  by (simp add: vec_insert_def take_map drop_map)

lemma map_vec_remove: "map f (vec_remove i xs) = vec_remove i (map f xs)"
  by (simp add: vec_remove_def take_map drop_map)

lemma insert_entry_result:
  assumes "node_wf n" "bn_node_type n = LeafNode" "\<not> is_full n" "key \<notin> set (node_keys n)"
  shows "\<exists>n'. insert_entry n \<lparr>be_key = key, be_value = v\<rparr> = (Ok (), n') \<and> node_wf n' \<and>
    node_map n' = (node_map n)(key \<mapsto> v) \<and> bn_node_type n' = LeafNode \<and>
    length (bn_entries n') = Suc (length (bn_entries n))"
proof -
  let ?e = "\<lparr>be_key = key, be_value = v\<rparr>" and ?p = "find_insert_position n key"
  have s: "sorted_wrt (<) (node_keys n)" using assms(1) by (simp add: node_wf_def)
  have len: "length (bn_entries n) < MAX_KEYS"
    using assms(1,3) is_full_iff [OF assms(1)] by (auto simp: node_wf_def)
  have p: "?p \<le> length (bn_entries n)" by (rule find_insert_position_split(1) [OF s assms(4)])
  have k: "key \<notin> fst ` set (map (\<lambda>e. (be_key e, be_value e)) (bn_entries n))"
    using assms(4) by auto
  have "sorted_wrt (<) (map be_key (vec_insert ?p ?e (bn_entries n)))"
    using insert_entry_sorted [OF s, of ?e] assms(4) by simp
  moreover have "map_of (map (\<lambda>e. (be_key e, be_value e)) (vec_insert ?p ?e (bn_entries n)))
      = (node_map n)(key \<mapsto> v)"
    using map_of_vec_insert [OF k, of ?p v] by (simp add: map_vec_insert node_map_def)
  ultimately show ?thesis
    using assms p len by (simp add: insert_entry_def node_wf_def node_map_def)
qed

lemma remove_entry_result:
  assumes "node_wf n" "bn_node_type n = LeafNode" "node_map n key = Some v"
  shows "\<exists>n'. remove_entry n key = (Ok \<lparr>be_key = key, be_value = v\<rparr>, n') \<and> node_wf n' \<and>
    node_map n' = (node_map n)(key := None)"
proof -
  let ?es = "bn_entries n" and ?f = "\<lambda>e. (be_key e, be_value e)"
  have s: "sorted_wrt (<) (node_keys n)" using assms(1) by (simp add: node_wf_def)
  have d: "distinct (node_keys n)" using s strict_sorted_iff by blast
  obtain i where i: "find_key n key = Some i" "be_value (?es ! i) = v"
    using assms(3) by (auto simp: node_lookup_def simp flip: node_lookup_map [OF s])
  then have len: "i < length ?es" "be_key (?es ! i) = key" using find_key_iff [OF s] by auto
  have es: "?es = take i ?es @ ?es ! i # drop (Suc i) ?es" using len by (simp add: id_take_nth_drop)
  then have "node_keys n = map be_key (take i ?es) @ key # map be_key (drop (Suc i) ?es)"
    using len(2) by (metis (no_types, lifting) list.simps(9) map_append)
  then have notin: "key \<notin> set (map be_key (take i ?es))" "key \<notin> set (map be_key (drop (Suc i) ?es))"
    and srt: "sorted_wrt (<) (map be_key (take i ?es @ drop (Suc i) ?es))"
    using d s by (auto simp: sorted_wrt_append)
  have "map_of (map ?f ?es) = map_of (map ?f (take i ?es) @ (key, v) # map ?f (drop (Suc i) ?es))"
    using es len(2) i(2) by (metis (mono_tags, lifting) list.simps(9) map_append)
  moreover have "map_of (map ?f (take i ?es)) key = None" "map_of (map ?f (drop (Suc i) ?es)) key = None"
    using notin by (auto simp: map_of_eq_None_iff)
  ultimately have "map_of (map ?f (vec_remove i ?es)) = (node_map n)(key := None)"
    by (auto simp: vec_remove_def node_map_def map_add_def fun_eq_iff split: option.splits)
  moreover have "?es ! i = \<lparr>be_key = key, be_value = v\<rparr>" using len(2) i(2) by simp
  ultimately show ?thesis
    using assms i len srt by (auto simp: remove_entry_def node_wf_def node_map_def vec_remove_def of_nat_diff)
qed

lemma split_node_result:
  assumes "node_wf n" "is_full n"
  shows "\<exists>right sep left. split_node n = Ok (right, sep, left) \<and>
    bn_entries left @ sep # bn_entries right = bn_entries n \<and>
    length (bn_entries left) = 50 \<and> length (bn_entries right) = 49 \<and>
    bn_children left @ bn_children right = bn_children n \<and>
    node_wf left \<and> node_wf right \<and> bn_node_type left = bn_node_type n \<and> bn_node_type right = bn_node_type n"
proof -
  have len: "length (bn_entries n) = 100" using is_full_iff [OF assms(1)] assms(2) by (simp add: MAX_KEYS_def)
  then have pos: "unat (bn_entry_count n div 2) = 50"
    using assms(1) by (simp add: node_wf_def unat_div)
  obtain sep rest where d: "drop 50 (bn_entries n) = sep # rest"
    using len by (cases "drop 50 (bn_entries n)") auto
  have rest: "length rest = 49" using arg_cong [OF d, of length] len by simp
  have es: "take 50 (bn_entries n) @ sep # rest = bn_entries n" using d append_take_drop_id by metis
  have "sorted_wrt (<) (map be_key (take 50 (bn_entries n) @ sep # rest))"
    using assms(1) es by (simp add: node_wf_def)
  then have "sorted_wrt (<) (map be_key (take 50 (bn_entries n)))" "sorted_wrt (<) (map be_key rest)"
    by (auto simp: sorted_wrt_append)
  moreover have "bn_node_type n = InternalNode \<Longrightarrow> length (bn_children n) = 101"
    "bn_node_type n = LeafNode \<Longrightarrow> bn_children n = []"
    using assms(1) len by (auto simp: node_wf_def)
  ultimately show ?thesis
    using pos d rest es len
    by (cases "bn_node_type n")
      (auto simp: split_node_def Let_def node_wf_def BTreeNode_new_def MAX_KEYS_def)
qed

text \<open>Loading a node that is in the pool pins its frame once more.\<close>

lemma load_node_cached:
  assumes "hm_get (bp_page_to_frame s) p = Some i" "i < length (bp_frames s)"
    "bf_page (bp_frames s ! i) = Some a" "load_node F B p s = (Ok (q, node), s')"
  shows "bf_pin_count (bp_frames s' ! i) = bf_pin_count (bp_frames s ! i) + 1"
proof -
  have f: "fetch_page F p s = (Ok a, update_lru p (set_frame i (pin (bp_frames s ! i)) s))"
    using assms(1-3) by (simp add: fetch_page_def Let_def)
  have "s' = update_lru p (set_frame i (pin (bp_frames s ! i)) s)"
    using assms(4) f by (auto simp: load_node_def Let_def split: if_splits option.splits)
  then show ?thesis using assms(2) by (simp add: set_frame_def pin_def)
qed

lemma full_leaf: "node_wf full_leaf" "is_full full_leaf" "bn_node_type full_leaf = LeafNode"
proof -
  have "(of_nat i :: u8) < of_nat j" if "i < j" "j < 100" for i j
    using that by (simp add: word_less_nat_alt unat_of_nat)
  then have "sorted_wrt (\<lambda>i j. [of_nat i :: u8] < [of_nat j]) [0..<100]"
    by (subst sorted_wrt_iff_nth_less) auto
  then show "node_wf full_leaf"
    by (simp add: node_wf_def full_leaf_def BTreeNode_new_def MAX_KEYS_def sorted_wrt_map comp_def)
qed (simp_all add: is_full_def full_leaf_def MAX_KEYS_def BTreeNode_new_def)

subsection \<open>Properties\<close>

text \<open>
  C13. The binary search of a node finds exactly the keys it holds. On a node whose keys are strictly
  increasing, looking a key up returns the value stored with it, and nothing for any other key.
\<close>

theorem find_key_correct:
  assumes "sorted_wrt (<) (node_keys n)"
  shows "map_option (\<lambda>i. be_value (bn_entries n ! i)) (find_key n key) =
    map_of (map (\<lambda>e. (be_key e, be_value e)) (bn_entries n)) key"
  using node_lookup_map [OF assms] by (metis node_lookup_def node_map_def)

theorem find_key_correct_witness:
  "map_option (\<lambda>i. be_value ([\<lparr>be_key = [1], be_value = 10\<rparr>, \<lparr>be_key = [1, 0], be_value = 20\<rparr>] ! i))
     (find_key ((BTreeNode_new LeafNode)\<lparr>bn_entries := [\<lparr>be_key = [1], be_value = 10\<rparr>,
        \<lparr>be_key = [1, 0], be_value = 20\<rparr>]\<rparr>) [1, 0]) = Some 20"
  using find_key_correct [of "(BTreeNode_new LeafNode)\<lparr>bn_entries := [\<lparr>be_key = [1], be_value = 10\<rparr>,
        \<lparr>be_key = [1, 0], be_value = 20\<rparr>]\<rparr>" "[1, 0]"] by simp

text \<open>
  Insertion into and removal from a leaf. A new key goes into a leaf that is not full: the leaf
  stays well formed (strictly sorted, count equal to the number of entries, at most 100 entries), it
  then maps the key to the value and every other key as before, and removing the key again returns
  the entry and leaves a well-formed leaf with the original mapping. A full leaf refuses with an error
  and is not changed.
\<close>

theorem leaf_insert_remove:
  assumes "node_wf n" "bn_node_type n = LeafNode" "key \<notin> set (node_keys n)"
  shows "if is_full n
    then insert_entry n \<lparr>be_key = key, be_value = v\<rparr> = (Err (IndexError ''Node is full''), n)
    else \<exists>n1 n2. insert_entry n \<lparr>be_key = key, be_value = v\<rparr> = (Ok (), n1) \<and> node_wf n1 \<and>
      node_lookup n1 = (node_lookup n)(key \<mapsto> v) \<and>
      remove_entry n1 key = (Ok \<lparr>be_key = key, be_value = v\<rparr>, n2) \<and> node_wf n2 \<and>
      node_lookup n2 = node_lookup n"
proof (cases "is_full n")
  case True
  then show ?thesis by (simp add: insert_entry_def)
next
  case False
  obtain n1 where n1: "insert_entry n \<lparr>be_key = key, be_value = v\<rparr> = (Ok (), n1)" "node_wf n1"
    "node_map n1 = (node_map n)(key \<mapsto> v)" "bn_node_type n1 = LeafNode"
    using insert_entry_result [OF assms(1,2) False assms(3)] by blast
  then obtain n2 where n2: "remove_entry n1 key = (Ok \<lparr>be_key = key, be_value = v\<rparr>, n2)" "node_wf n2"
    "node_map n2 = (node_map n1)(key := None)"
    using remove_entry_result [OF n1(2,4), of key v] by auto
  have "node_map n key = None" using assms(3) by (auto simp: node_map_def map_of_eq_None_iff)
  then have "node_map n2 = node_map n" using n1(3) n2(3) by auto
  moreover have "node_lookup m = node_map m" if "node_wf m" for m
    using that node_lookup_map by (simp add: node_wf_def)
  ultimately show ?thesis using n1 n2 assms(1) False by simp
qed

theorem leaf_insert_remove_witness:
  "\<exists>n1. insert_entry (BTreeNode_new LeafNode) \<lparr>be_key = [7], be_value = 42\<rparr> = (Ok (), n1) \<and>
     node_lookup n1 [7] = Some 42"
proof -
  have "\<not> is_full (BTreeNode_new LeafNode)" by (simp add: is_full_def BTreeNode_new_def MAX_KEYS_def)
  then show ?thesis
    using leaf_insert_remove [of "BTreeNode_new LeafNode" "[7]" 42]
    by (auto simp: node_wf_def BTreeNode_new_def)
qed



text \<open>
  Splitting a leaf loses a key. When a full leaf is split under a new root, as \<^verbatim>\<open>insert\<close> does, its
  separator moves to the root and \<^verbatim>\<open>search\<close> looks for keys in leaves only: searching the
  separator's key descends to the left leaf, which no longer has it, and reports that the key does not exist, although it was
  stored in the leaf before the split.
\<close>

theorem leaf_split_loses_separator:
  assumes "node_wf n" "is_full n" "bn_node_type n = LeafNode" "split_node n = Ok (right, sep, left)"
    and "with_pool (load_node F B left_id) t = (Ok (left_id, left), t')"
  shows "node_lookup n (be_key sep) = Some (be_value sep) \<and>
    search_in_node (Suc (Suc d)) F B ((BTreeNode_new InternalNode)\<lparr>bn_entries := [sep],
      bn_children := [left_id, right_id], bn_entry_count := 1\<rparr>) (be_key sep) t = (Ok None, t')"
proof -
  have *: "bn_entries left @ sep # bn_entries right = bn_entries n" "node_wf left"
      "bn_node_type left = LeafNode"
    using split_node_result [OF assms(1,2)] assms(3,4) by auto
  have s: "sorted_wrt (<) (node_keys n)" using assms(1) by (simp add: node_wf_def)
  then have s': "sorted_wrt (<) (node_keys left @ be_key sep # node_keys right)"
    using *(1) by (metis list.simps(9) map_append)
  then have out: "be_key sep \<notin> set (node_keys left)" by (auto simp: sorted_wrt_append)
  then have none: "find_key left (be_key sep) = None"
    using find_key_None *(2) by (auto simp: node_wf_def)
  have "node_map n (be_key sep) = Some (be_value sep)"
  proof -
    have "map_of (map (\<lambda>e. (be_key e, be_value e)) (bn_entries left)) (be_key sep) = None"
      using out by (auto simp: map_of_eq_None_iff)
    then show ?thesis by (simp add: node_map_def map_add_def flip: *(1))
  qed
  then have "node_lookup n (be_key sep) = Some (be_value sep)" using node_lookup_map [OF s] by simp
  moreover have "find_insert_position ((BTreeNode_new InternalNode)\<lparr>bn_entries := [sep],
      bn_children := [left_id, right_id], bn_entry_count := 1\<rparr>) (be_key sep) = 0"
    by (simp add: find_insert_position_def binary_search_by_def bsearch.simps)
  ultimately show ?thesis using none assms(5) *(3) by (simp add: BTreeNode_new_def)
qed

theorem leaf_split_loses_separator_witness:
  "\<exists>right sep left t'. split_node full_leaf = Ok (right, sep, left) \<and>
    search_in_node 2 mock_ops (one_node_lib left) ((BTreeNode_new InternalNode)\<lparr>bn_entries := [sep],
      bn_children := [1, 2], bn_entry_count := 1\<rparr>) (be_key sep)
      (BTree_load 3 (one_page_pool 0 one_node_page MockFileManager_new)) = (Ok None, t')"
proof -
  obtain right sep left where s: "split_node full_leaf = Ok (right, sep, left)"
    using split_node_result [OF full_leaf(1,2)] by blast
  let ?t = "BTree_load 3 (one_page_pool 0 one_node_page MockFileManager_new)"
  have "with_pool (load_node mock_ops (one_node_lib left) 1) ?t
      = (Ok (1, left), ?t\<lparr>bt_pool := one_page_pool 1 one_node_page MockFileManager_new\<rparr>)"
    by (simp add: with_pool_def BTree_load_def load_node_def fetch_one_page_pool)
      (simp add: one_page_pool_def one_node_page_def one_node_lib_def dummy_header_def)
  from leaf_split_loses_separator [OF full_leaf s this, of 0 2] s show ?thesis
    by (auto simp: numeral_2_eq_2)
qed

text \<open>
  Loading a node leaks a pin. \<^verbatim>\<open>load_node\<close> fetches the page, which pins it, and never unpins it: for a
  node in the pool every successful load leaves the pin count of its frame one higher, so that the
  frames of every node visited by a search, an insertion or a deletion can no longer be evicted.
\<close>

theorem load_node_leaks_pin:
  assumes "bp_inv I used disk s" "hm_get (bp_page_to_frame s) p = Some i"
    and "load_node F B p s = (Ok (q, node), s')"
  shows "bf_pin_count (bp_frames s' ! i) = bf_pin_count (bp_frames s ! i) + 1"
proof -
  obtain a where "bf_page (bp_frames s ! i) = Some a"
    using frame_okD [OF bp_invD(5) [OF assms(1,2)]] by blast
  then show ?thesis
    using load_node_cached [OF assms(2) bp_invD(2) [OF assms(1,2)]] assms(3) by blast
qed

theorem load_node_leaks_pin_witness:
  "bf_pin_count (bp_frames (snd (load_node mock_ops (one_node_lib full_leaf) 1
     (one_page_pool 3 one_node_page MockFileManager_new))) ! 0) = 4"
proof -
  let ?s = "one_page_pool 3 one_node_page MockFileManager_new"
  have "bp_inv (\<lambda>_. True) (\<lambda>_ _. True) mock_disk ?s" by (rule one_page_pool_inv) simp_all
  moreover have "hm_get (bp_page_to_frame ?s) 1 = Some 0" by (simp add: one_page_pool_def)
  moreover have "load_node mock_ops (one_node_lib full_leaf) 1 ?s
      = (Ok (1, full_leaf), one_page_pool 4 one_node_page MockFileManager_new)"
    by (simp add: load_node_def fetch_one_page_pool)
      (simp add: one_page_pool_def one_node_page_def one_node_lib_def dummy_header_def)
  ultimately show ?thesis
    using load_node_leaks_pin by (fastforce simp: one_page_pool_def)
qed

end
