(* ===== verification/Mvcc.thy ===== *)
theory Mvcc
  imports Prelude
begin

section \<open>Multi-version concurrency control (\<^verbatim>\<open>src/src/transaction/mvcc.rs\<close>)\<close>

text \<open>
  Versions of a record carry the transaction that created and the one that deleted them, with
  timestamps drawn from one global counter. A \<open>VersionChain\<close> holds the versions of a record in
  the order they were added, the \<open>MVCCManager\<close> the chains of all records, the counter and the
  active transactions. Each operation takes the manager and returns its result with the manager
  as it leaves it; the mutexes of the manager are never nested on themselves, so a call is one
  atomic step.

  The lemmas give the exact effect of each operation on each chain, the invariant that bounds
  every timestamp by the counter, and what a snapshot sees before and after a commit.
\<close>

subsection \<open>Versions\<close>

record VisibilityInfo =
  creator_id :: TransactionId
  deleter_id :: "TransactionId option"
  commit_ts :: u64
  delete_ts :: "u64 option"

definition VisibilityInfo_new :: "TransactionId \<Rightarrow> u64 \<Rightarrow> VisibilityInfo" where
  "VisibilityInfo_new t ts =
     \<lparr>creator_id = t, deleter_id = None, commit_ts = ts, delete_ts = None\<rparr>"

definition mark_deleted :: "VisibilityInfo \<Rightarrow> TransactionId \<Rightarrow> u64 \<Rightarrow> VisibilityInfo" where
  "mark_deleted vi t ts = vi\<lparr>deleter_id := Some t, delete_ts := Some ts\<rparr>"

definition is_visible :: "VisibilityInfo \<Rightarrow> TransactionId \<Rightarrow> u64 \<Rightarrow> bool" where
  "is_visible vi t snapshot_ts =
     (if commit_ts vi > snapshot_ts then False
      else if (case delete_ts vi of Some d \<Rightarrow> d \<le> snapshot_ts | None \<Rightarrow> False) then False
      else if creator_id vi = t then False
      else True)"

definition can_modify :: "VisibilityInfo \<Rightarrow> TransactionId \<Rightarrow> bool" where
  "can_modify vi t = (case deleter_id vi of Some d \<Rightarrow> d = t | None \<Rightarrow> True)"

record RecordVersion =
  rv_data :: bytes
  visibility :: VisibilityInfo
  rv_version :: u32
  rv_size :: u32

definition RecordVersion_new :: "bytes \<Rightarrow> TransactionId \<Rightarrow> u64 \<Rightarrow> u32 \<Rightarrow> RecordVersion" where
  "RecordVersion_new d t ts n =
     \<lparr>rv_data = d, visibility = VisibilityInfo_new t ts, rv_version = n,
      rv_size = of_nat (length d)\<rparr>"

subsection \<open>Version chains\<close>

record VersionChain =
  versions :: "RecordVersion list"
  latest_committed :: "nat option"

definition VersionChain_new :: VersionChain where
  "VersionChain_new = \<lparr>versions = [], latest_committed = None\<rparr>"

definition add_version :: "RecordVersion \<Rightarrow> VersionChain \<Rightarrow> VersionChain" where
  "add_version v c =
     (let vs = versions c @ [v]
      in c\<lparr>versions := vs, latest_committed := Some (length vs - 1)\<rparr>)"

definition get_visible_version ::
  "VersionChain \<Rightarrow> TransactionId \<Rightarrow> u64 \<Rightarrow> RecordVersion option" where
  "get_visible_version c t ts = find (\<lambda>v. is_visible (visibility v) t ts) (rev (versions c))"

definition get_latest_committed :: "VersionChain \<Rightarrow> RecordVersion option" where
  "get_latest_committed c =
     (case latest_committed c of
        None \<Rightarrow> None
      | Some i \<Rightarrow> if i < length (versions c) then Some (versions c ! i) else None)"

fun delete_first ::
  "TransactionId \<Rightarrow> u64 \<Rightarrow> u32 \<Rightarrow> RecordVersion list \<Rightarrow> unit res \<times> RecordVersion list" where
  "delete_first t ts n [] = (Err (TransactionError ''Version not found''), [])"
| "delete_first t ts n (v # vs) =
     (if rv_version v = n then
        if \<not> can_modify (visibility v) t
        then (Err (TransactionError ''Cannot delete version modified by another transaction''), v # vs)
        else (Ok (), v\<lparr>visibility := mark_deleted (visibility v) t ts\<rparr> # vs)
      else (case delete_first t ts n vs of (r, vs') \<Rightarrow> (r, v # vs')))"

definition chain_delete_version ::
  "TransactionId \<Rightarrow> u64 \<Rightarrow> u32 \<Rightarrow> VersionChain \<Rightarrow> unit res \<times> VersionChain" where
  "chain_delete_version t ts n c =
     (case delete_first t ts n (versions c) of (r, vs) \<Rightarrow> (r, c\<lparr>versions := vs\<rparr>))"

definition has_visible_version :: "VersionChain \<Rightarrow> TransactionId \<Rightarrow> u64 \<Rightarrow> bool" where
  "has_visible_version c t ts = (get_visible_version c t ts \<noteq> None)"

subsection \<open>The manager\<close>

record Snapshot =
  snap_transaction_id :: TransactionId
  snap_timestamp :: u64
  snap_active :: "TransactionId set"

definition was_active :: "Snapshot \<Rightarrow> TransactionId \<Rightarrow> bool" where
  "was_active sn t = (t \<in> snap_active sn)"

record MVCCManager =
  version_chains :: "(u64, VersionChain) hmap"
  global_timestamp :: u64
  mvcc_active :: "TransactionId set"

definition MVCCManager_new :: MVCCManager where
  "MVCCManager_new = \<lparr>version_chains = [], global_timestamp = 1, mvcc_active = {}\<rparr>"

text \<open>Each operation that needs a timestamp reads the counter and increments it.\<close>

definition next_timestamp :: "MVCCManager \<Rightarrow> u64 \<times> MVCCManager" where
  "next_timestamp m = (global_timestamp m, m\<lparr>global_timestamp := global_timestamp m + 1\<rparr>)"

definition mvcc_begin :: "TransactionId \<Rightarrow> MVCCManager \<Rightarrow> Snapshot \<times> MVCCManager" where
  "mvcc_begin t m =
     (case next_timestamp m of (ts, m1) \<Rightarrow>
        let m2 = m1\<lparr>mvcc_active := insert t (mvcc_active m1)\<rparr>
        in (\<lparr>snap_transaction_id = t, snap_timestamp = ts, snap_active = mvcc_active m2\<rparr>, m2))"

definition set_commit_ts :: "TransactionId \<Rightarrow> u64 \<Rightarrow> RecordVersion \<Rightarrow> RecordVersion" where
  "set_commit_ts t ts v =
     (if creator_id (visibility v) = t
      then v\<lparr>visibility := (visibility v)\<lparr>commit_ts := ts\<rparr>\<rparr> else v)"

definition mvcc_commit :: "TransactionId \<Rightarrow> u64 \<Rightarrow> MVCCManager \<Rightarrow> u64 \<times> MVCCManager" where
  "mvcc_commit t snapshot_ts m =
     (case next_timestamp m of (ts, m1) \<Rightarrow>
        (ts, m1\<lparr>version_chains :=
                  hm_map_values (\<lambda>c. c\<lparr>versions := map (set_commit_ts t ts) (versions c)\<rparr>)
                    (version_chains m1),
                mvcc_active := mvcc_active m1 - {t}\<rparr>))"

definition drop_empty_chains :: "(u64, VersionChain) hmap \<Rightarrow> (u64, VersionChain) hmap" where
  "drop_empty_chains cs = hm_retain (\<lambda>_ c. versions c \<noteq> []) cs"

definition retain_versions ::
  "(RecordVersion \<Rightarrow> bool) \<Rightarrow> (u64, VersionChain) hmap \<Rightarrow> (u64, VersionChain) hmap" where
  "retain_versions P cs = hm_map_values (\<lambda>c. c\<lparr>versions := filter P (versions c)\<rparr>) cs"

definition mvcc_abort :: "TransactionId \<Rightarrow> MVCCManager \<Rightarrow> MVCCManager" where
  "mvcc_abort t m =
     m\<lparr>version_chains :=
         drop_empty_chains
           (retain_versions (\<lambda>v. creator_id (visibility v) \<noteq> t) (version_chains m)),
       mvcc_active := mvcc_active m - {t}\<rparr>"

text \<open>\<^verbatim>\<open>chains.entry(record_id).or_insert_with(VersionChain::new).add_version(v)\<close>.\<close>

definition push_version :: "u64 \<Rightarrow> RecordVersion \<Rightarrow> MVCCManager \<Rightarrow> MVCCManager" where
  "push_version rid v m =
     (let c = (case hm_get (version_chains m) rid of Some c \<Rightarrow> c | None \<Rightarrow> VersionChain_new)
      in m\<lparr>version_chains := hm_insert rid (add_version v c) (version_chains m)\<rparr>)"

definition insert_version ::
  "u64 \<Rightarrow> bytes \<Rightarrow> TransactionId \<Rightarrow> u32 \<Rightarrow> MVCCManager \<Rightarrow> unit res \<times> MVCCManager" where
  "insert_version rid d t n m = (Ok (), push_version rid (RecordVersion_new d t 0 n) m)"

definition update_version ::
  "u64 \<Rightarrow> bytes \<Rightarrow> TransactionId \<Rightarrow> u32 \<Rightarrow> MVCCManager \<Rightarrow> unit res \<times> MVCCManager" where
  "update_version rid d t n m = (Ok (), push_version rid (RecordVersion_new d t 0 n) m)"

definition mvcc_delete_version ::
  "u64 \<Rightarrow> TransactionId \<Rightarrow> u32 \<Rightarrow> MVCCManager \<Rightarrow> unit res \<times> MVCCManager" where
  "mvcc_delete_version rid t n m =
     (case hm_get (version_chains m) rid of
        Some c \<Rightarrow>
          (case next_timestamp m of (ts, m1) \<Rightarrow>
             (case chain_delete_version t ts n c of (r, c') \<Rightarrow>
                (r, m1\<lparr>version_chains := hm_modify rid (\<lambda>_. c') (version_chains m1)\<rparr>)))
      | None \<Rightarrow> (Ok (), m))"

definition read_record :: "u64 \<Rightarrow> Snapshot \<Rightarrow> MVCCManager \<Rightarrow> bytes option res" where
  "read_record rid sn m =
     (case hm_get (version_chains m) rid of
        Some c \<Rightarrow>
          (case get_visible_version c (snap_transaction_id sn) (snap_timestamp sn) of
             Some v \<Rightarrow> Ok (Some (rv_data v))
           | None \<Rightarrow> Ok None)
      | None \<Rightarrow> Ok None)"

definition record_exists :: "u64 \<Rightarrow> Snapshot \<Rightarrow> MVCCManager \<Rightarrow> bool" where
  "record_exists rid sn m =
     (case hm_get (version_chains m) rid of
        Some c \<Rightarrow> has_visible_version c (snap_transaction_id sn) (snap_timestamp sn)
      | None \<Rightarrow> False)"

definition get_latest_version :: "u64 \<Rightarrow> MVCCManager \<Rightarrow> bytes option" where
  "get_latest_version rid m =
     (case hm_get (version_chains m) rid of
        Some c \<Rightarrow> map_option rv_data (get_latest_committed c)
      | None \<Rightarrow> None)"

definition vacuum_keeps :: "u64 \<Rightarrow> MVCCManager \<Rightarrow> RecordVersion \<Rightarrow> bool" where
  "vacuum_keeps before m v =
     (commit_ts (visibility v) \<ge> before \<or> creator_id (visibility v) \<in> mvcc_active m)"

definition vacuum :: "u64 \<Rightarrow> MVCCManager \<Rightarrow> nat res \<times> MVCCManager" where
  "vacuum before m =
     (let cs = retain_versions (vacuum_keeps before m) (version_chains m);
          removed = sum_list (map (\<lambda>(_, c). length (versions c) -
                                     length (filter (vacuum_keeps before m) (versions c)))
                                (version_chains m))
      in (Ok removed, m\<lparr>version_chains := drop_empty_chains cs\<rparr>))"

record MVCCStats =
  total_records :: nat
  total_versions :: nat
  stat_active_transactions :: nat
  current_timestamp :: u64

definition mvcc_get_stats :: "MVCCManager \<Rightarrow> MVCCStats" where
  "mvcc_get_stats m =
     \<lparr>total_records = length (version_chains m),
      total_versions = sum_list (map (\<lambda>(_, c). length (versions c)) (version_chains m)),
      stat_active_transactions = card (mvcc_active m),
      current_timestamp = global_timestamp m\<rparr>"

subsection \<open>Runs of the manager\<close>

datatype mvcc_op =
    MvBegin TransactionId
  | MvCommit TransactionId u64
  | MvAbort TransactionId
  | MvInsertVersion u64 bytes TransactionId u32
  | MvUpdateVersion u64 bytes TransactionId u32
  | MvDeleteVersion u64 TransactionId u32
  | MvVacuum u64

fun mvcc_step :: "mvcc_op \<Rightarrow> MVCCManager \<Rightarrow> MVCCManager" where
  "mvcc_step (MvBegin t) m = snd (mvcc_begin t m)"
| "mvcc_step (MvCommit t ts) m = snd (mvcc_commit t ts m)"
| "mvcc_step (MvAbort t) m = mvcc_abort t m"
| "mvcc_step (MvInsertVersion rid d t n) m = snd (insert_version rid d t n m)"
| "mvcc_step (MvUpdateVersion rid d t n) m = snd (update_version rid d t n m)"
| "mvcc_step (MvDeleteVersion rid t n) m = snd (mvcc_delete_version rid t n m)"
| "mvcc_step (MvVacuum before) m = snd (vacuum before m)"

fun mvcc_run :: "mvcc_op list \<Rightarrow> MVCCManager \<Rightarrow> MVCCManager" where
  "mvcc_run [] m = m"
| "mvcc_run (op # ops) m = mvcc_run ops (mvcc_step op m)"

text \<open>
  The invariant of the manager: the keys of the chains are distinct, no chain is empty, and every
  timestamp in a version is below the counter.
\<close>

definition version_bounded :: "u64 \<Rightarrow> RecordVersion \<Rightarrow> bool" where
  "version_bounded g v =
     (commit_ts (visibility v) < g \<and>
      (case delete_ts (visibility v) of None \<Rightarrow> True | Some d \<Rightarrow> d < g))"

definition chain_bounded :: "u64 \<Rightarrow> VersionChain \<Rightarrow> bool" where
  "chain_bounded g c = (versions c \<noteq> [] \<and> list_all (version_bounded g) (versions c))"

definition mvcc_inv :: "MVCCManager \<Rightarrow> bool" where
  "mvcc_inv m =
     (hm_wf (version_chains m) \<and> 0 < global_timestamp m \<and>
      list_all (\<lambda>(_, c). chain_bounded (global_timestamp m) c) (version_chains m))"

subsection \<open>What the newest visible version is\<close>

lemma find_rev_last:
  "find P (rev xs) = Some v \<longleftrightarrow>
     (\<exists>i < length xs. xs ! i = v \<and> P v \<and> (\<forall>j. i < j \<and> j < length xs \<longrightarrow> \<not> P (xs ! j)))"
proof (induction xs rule: rev_induct)
  case Nil
  then show ?case by simp
next
  case (snoc x xs)
  show ?case
  proof (cases "P x")
    case True
    then show ?thesis
      by (auto simp: nth_append less_Suc_eq intro!: exI [of _ "length xs"])
  next
    case False
    then show ?thesis
      using snoc by (auto simp: nth_append less_Suc_eq)
  qed
qed

lemma get_visible_version_Some:
  "get_visible_version c t ts = Some v \<Longrightarrow> v \<in> set (versions c) \<and> is_visible (visibility v) t ts"
  by (auto simp: get_visible_version_def find_rev_last)

lemma get_visible_version_None:
  "get_visible_version c t ts = None \<longleftrightarrow> (\<forall>v \<in> set (versions c). \<not> is_visible (visibility v) t ts)"
  by (auto simp: get_visible_version_def find_None_iff)

lemma get_visible_add:
  "get_visible_version (add_version v c) t ts =
     (if is_visible (visibility v) t ts then Some v else get_visible_version c t ts)"
  by (simp add: get_visible_version_def add_version_def Let_def)

lemma is_visible_iff:
  "is_visible vi t ts \<longleftrightarrow>
     commit_ts vi \<le> ts \<and> (\<forall>d. delete_ts vi = Some d \<longrightarrow> ts < d) \<and> creator_id vi \<noteq> t"
  by (auto simp: is_visible_def not_le split: option.splits)

subsection \<open>Reading the chains after each operation\<close>

lemma chains_commit:
  "hm_get (version_chains (snd (mvcc_commit t s m))) rid =
     map_option (\<lambda>c. c\<lparr>versions := map (set_commit_ts t (global_timestamp m)) (versions c)\<rparr>)
       (hm_get (version_chains m) rid)"
  by (simp add: mvcc_commit_def next_timestamp_def)

lemma set_commit_ts_simps [simp]:
  "creator_id (visibility (set_commit_ts t ts v)) = creator_id (visibility v)"
  "commit_ts (visibility (set_commit_ts t ts v)) =
     (if creator_id (visibility v) = t then ts else commit_ts (visibility v))"
  by (simp_all add: set_commit_ts_def)

lemma committed_timestamp:
  assumes "hm_get (version_chains (snd (mvcc_commit t s m))) rid = Some c"
    and "v \<in> set (versions c)" "creator_id (visibility v) = t"
  shows "commit_ts (visibility v) = global_timestamp m"
proof -
  obtain c0 where "c = c0\<lparr>versions := map (set_commit_ts t (global_timestamp m)) (versions c0)\<rparr>"
    using assms(1) by (auto simp: chains_commit)
  then have "versions c = map (set_commit_ts t (global_timestamp m)) (versions c0)" by simp
  then obtain v0 where "v = set_commit_ts t (global_timestamp m) v0"
    using assms(2) by auto
  with assms(3) show ?thesis by simp
qed

lemma chains_retain:
  assumes "hm_wf cs"
  shows "hm_get (drop_empty_chains (retain_versions P cs)) rid =
    (case hm_get cs rid of
       None \<Rightarrow> None
     | Some c \<Rightarrow> if filter P (versions c) = [] then None
                 else Some (c\<lparr>versions := filter P (versions c)\<rparr>))"
  using assms
  by (auto simp: drop_empty_chains_def retain_versions_def hm_get_retain split: option.splits)

lemma chains_push:
  "hm_get (version_chains (push_version rid v m)) rid' =
     (if rid' = rid
      then Some (add_version v (case hm_get (version_chains m) rid of
                                  Some c \<Rightarrow> c | None \<Rightarrow> VersionChain_new))
      else hm_get (version_chains m) rid')"
  by (simp add: push_version_def Let_def)

lemma chains_begin [simp]: "version_chains (snd (mvcc_begin t m)) = version_chains m"
  by (simp add: mvcc_begin_def next_timestamp_def Let_def)

lemmas timestamp_simps =
  mvcc_begin_def next_timestamp_def mvcc_commit_def mvcc_abort_def vacuum_def Let_def

lemma timestamp_step:
  "global_timestamp (mvcc_step op m) = global_timestamp m \<or>
   global_timestamp (mvcc_step op m) = global_timestamp m + 1"
  by (cases op) (auto simp: timestamp_simps insert_version_def update_version_def push_version_def
      mvcc_delete_version_def split: option.splits prod.splits)

subsection \<open>The invariant\<close>

lemma mvcc_inv_iff:
  "mvcc_inv m \<longleftrightarrow>
     hm_wf (version_chains m) \<and> 0 < global_timestamp m \<and>
     (\<forall>rid c. hm_get (version_chains m) rid = Some c \<longrightarrow> chain_bounded (global_timestamp m) c)"
  unfolding mvcc_inv_def list_all_iff by (auto simp: hm_get_iff dest: hm_get_set)

lemma version_bounded_mono: "version_bounded g v \<Longrightarrow> g \<le> g' \<Longrightarrow> version_bounded g' v"
  by (auto simp: version_bounded_def split: option.splits)

lemma chain_bounded_mono: "chain_bounded g c \<Longrightarrow> g \<le> g' \<Longrightarrow> chain_bounded g' c"
  by (auto simp: chain_bounded_def list_all_iff intro: version_bounded_mono)

lemma mvcc_invD:
  "mvcc_inv m \<Longrightarrow> hm_get (version_chains m) rid = Some c \<Longrightarrow> chain_bounded (global_timestamp m) c"
  by (simp add: mvcc_inv_iff)

lemma succ_pos: "(g::u64) \<noteq> -1 \<Longrightarrow> 0 < g + 1"
  using u64_less_succ [of g] by (metis word_gt_0 word_not_simps(1))

lemma mvcc_inv_new: "mvcc_inv MVCCManager_new"
  by (simp add: mvcc_inv_def MVCCManager_new_def)

lemma mvcc_inv_begin:
  assumes "mvcc_inv m" "global_timestamp m \<noteq> -1"
  shows "mvcc_inv (snd (mvcc_begin t m))"
  using assms succ_pos [OF assms(2)]
  by (auto simp: mvcc_inv_iff timestamp_simps intro: chain_bounded_mono u64_le_succ)

lemma bounded_set_commit_ts:
  "version_bounded g v \<Longrightarrow> g \<noteq> -1 \<Longrightarrow> version_bounded (g + 1) (set_commit_ts t g v)"
  by (auto simp: version_bounded_def set_commit_ts_def u64_simps split: option.splits)

lemma mvcc_inv_commit:
  assumes "mvcc_inv m" "global_timestamp m \<noteq> -1"
  shows "mvcc_inv (snd (mvcc_commit t ts m))"
  using assms succ_pos [OF assms(2)]
  by (auto simp: mvcc_inv_iff timestamp_simps chain_bounded_def list_all_iff bounded_set_commit_ts)

lemma mvcc_inv_retain:
  assumes "mvcc_inv m"
  shows "mvcc_inv (m\<lparr>version_chains := drop_empty_chains (retain_versions P (version_chains m)),
                    mvcc_active := A\<rparr>)"
proof -
  have wf: "hm_wf (version_chains m)" using assms by (simp add: mvcc_inv_iff)
  have "hm_wf (drop_empty_chains (retain_versions P (version_chains m)))"
    using wf by (simp add: drop_empty_chains_def retain_versions_def)
  then show ?thesis
    using assms
    by (auto simp: mvcc_inv_iff chains_retain [OF wf] chain_bounded_def list_all_iff
        split: option.splits if_splits)
qed

lemma mvcc_inv_abort: "mvcc_inv m \<Longrightarrow> mvcc_inv (mvcc_abort t m)"
  unfolding mvcc_abort_def by (rule mvcc_inv_retain)

lemma mvcc_inv_vacuum: "mvcc_inv m \<Longrightarrow> mvcc_inv (snd (vacuum before m))"
  using mvcc_inv_retain [of m "mvcc_active m" "vacuum_keeps before m"]
  by (simp add: vacuum_def Let_def)

lemma mvcc_inv_push:
  assumes "mvcc_inv m" "version_bounded (global_timestamp m) v"
  shows "mvcc_inv (push_version rid v m)"
  using assms
  by (auto simp: mvcc_inv_iff push_version_def Let_def chain_bounded_def add_version_def
      VersionChain_new_def list_all_iff split: option.splits)

lemma new_version_bounded: "0 < g \<Longrightarrow> version_bounded g (RecordVersion_new d t 0 n)"
  by (simp add: version_bounded_def RecordVersion_new_def VisibilityInfo_new_def)

lemma delete_first_bounded:
  assumes "list_all (version_bounded g) vs" "g \<noteq> -1"
  shows "list_all (version_bounded (g + 1)) (snd (delete_first t g n vs))"
  using assms
proof (induction vs)
  case (Cons v vs)
  have "version_bounded (g + 1) v" "list_all (version_bounded (g + 1)) vs"
    using Cons.prems u64_less_succ [of g]
    by (auto simp: list_all_iff intro: version_bounded_mono)
  moreover have "version_bounded (g + 1) (v\<lparr>visibility := mark_deleted (visibility v) t g\<rparr>)"
    using calculation(1) Cons.prems(2) by (simp add: version_bounded_def mark_deleted_def u64_simps)
  ultimately show ?case using Cons by (auto split: prod.splits)
qed simp

lemma length_delete_first: "length (snd (delete_first t ts n vs)) = length vs"
  by (induction vs) (auto split: prod.splits)

lemma chain_delete_bounded:
  assumes "chain_bounded g c" "g \<noteq> -1"
  shows "chain_bounded (g + 1) (snd (chain_delete_version t g n c))"
  using assms delete_first_bounded [of g "versions c" t n] length_delete_first [of t g n "versions c"]
  by (auto simp: chain_bounded_def chain_delete_version_def split: prod.splits)

lemma mvcc_inv_delete:
  assumes "mvcc_inv m" "global_timestamp m \<noteq> -1"
  shows "mvcc_inv (snd (mvcc_delete_version rid t n m))"
proof (cases "hm_get (version_chains m) rid")
  case None
  with assms show ?thesis by (simp add: mvcc_delete_version_def)
next
  case (Some c)
  have up: "global_timestamp m \<le> global_timestamp m + 1"
    using u64_less_succ [OF assms(2)] by simp
  from Some assms have "chain_bounded (global_timestamp m + 1)
      (snd (chain_delete_version t (global_timestamp m) n c))"
    by (auto intro: chain_delete_bounded mvcc_invD)
  with Some assms succ_pos [OF assms(2)] show ?thesis
    by (auto simp: mvcc_delete_version_def next_timestamp_def mvcc_inv_iff split: prod.splits if_splits
        intro: chain_bounded_mono [OF _ up])
qed

lemma mvcc_inv_step:
  assumes "mvcc_inv m" "global_timestamp m \<noteq> -1"
  shows "mvcc_inv (mvcc_step op m)"
  using assms
  by (cases op) (auto simp: insert_version_def update_version_def new_version_bounded
      intro!: mvcc_inv_begin mvcc_inv_commit mvcc_inv_abort mvcc_inv_vacuum mvcc_inv_push
        mvcc_inv_delete simp: mvcc_inv_iff [of m])

lemma timestamp_step_bounds:
  assumes "global_timestamp m \<noteq> -1"
  shows "global_timestamp m \<le> global_timestamp (mvcc_step op m)"
    "unat (global_timestamp (mvcc_step op m)) \<le> Suc (unat (global_timestamp m))"
  using timestamp_step [of op m] assms by (auto simp: u64_simps)

lemma unat_not_max: "unat (g::u64) + n < 2 ^ 64 - 1 \<Longrightarrow> g \<noteq> -1"
  by (auto simp: unsigned_minus_1_eq_mask mask_eq_exp_minus_1)

lemma mvcc_run_bounds:
  assumes "unat (global_timestamp m) + length ops < 2 ^ 64 - 1" "mvcc_inv m"
  shows "mvcc_inv (mvcc_run ops m)" "global_timestamp m \<le> global_timestamp (mvcc_run ops m)"
    "unat (global_timestamp (mvcc_run ops m)) \<le> unat (global_timestamp m) + length ops"
proof -
  have "mvcc_inv (mvcc_run ops m) \<and> global_timestamp m \<le> global_timestamp (mvcc_run ops m) \<and>
      unat (global_timestamp (mvcc_run ops m)) \<le> unat (global_timestamp m) + length ops"
    using assms
  proof (induction ops arbitrary: m)
    case (Cons op ops)
    have ne: "global_timestamp m \<noteq> -1" using Cons.prems(1) by (rule unat_not_max)
    note step = timestamp_step_bounds [OF ne, of op]
    have "unat (global_timestamp (mvcc_step op m)) + length ops < 2 ^ 64 - 1"
      using step(2) Cons.prems(1) by simp
    from Cons.IH [OF this mvcc_inv_step [OF Cons.prems(2) ne]] step show ?case
      by (auto intro: order_trans)
  qed simp
  then show "mvcc_inv (mvcc_run ops m)" "global_timestamp m \<le> global_timestamp (mvcc_run ops m)"
    "unat (global_timestamp (mvcc_run ops m)) \<le> unat (global_timestamp m) + length ops"
    by auto
qed

subsection \<open>Properties\<close>

text \<open>
  The version a snapshot reads is the newest one it may see: \<^verbatim>\<open>get_visible_version\<close> returns a
  version exactly when that version is visible to the transaction at the snapshot timestamp and
  no version added after it is.
\<close>

theorem get_visible_version_newest:
  "get_visible_version c t ts = Some v \<longleftrightarrow>
     (\<exists>i < length (versions c). versions c ! i = v \<and> is_visible (visibility v) t ts \<and>
        (\<forall>j. i < j \<and> j < length (versions c) \<longrightarrow> \<not> is_visible (visibility (versions c ! j)) t ts))"
  by (simp add: get_visible_version_def find_rev_last)

theorem get_visible_version_newest_witness:
  "get_visible_version
     (add_version (RecordVersion_new [2] 1 9 2)
        (add_version (RecordVersion_new [1] 1 3 1) VersionChain_new)) 2 5 =
     Some (RecordVersion_new [1] 1 3 1)"
  unfolding get_visible_version_newest
  by (rule exI [of _ 0])
    (auto simp: add_version_def VersionChain_new_def RecordVersion_new_def VisibilityInfo_new_def
      is_visible_def less_Suc_eq)



text \<open>
  C2. Snapshots are stable under later commits: once a snapshot has been taken, no version created
  by a transaction that commits afterwards is visible to it, whatever happened in between.
\<close>

theorem commit_after_snapshot_invisible:
  assumes "mvcc_inv m" "mvcc_begin u m = (sn, m1)" "mvcc_commit t ts (mvcc_run ops m1) = (cts, m2)"
    and "unat (global_timestamp m) + length ops + 1 < 2 ^ 64 - 1"
    and "hm_get (version_chains m2) rid = Some c" "v \<in> set (versions c)"
    and "creator_id (visibility v) = t"
  shows "\<not> is_visible (visibility v) r (snap_timestamp sn)"
proof -
  have ne: "global_timestamp m \<noteq> -1" using assms(4) by (intro unat_not_max [of _ "Suc (length ops)"]) simp
  have m1: "m1 = snd (mvcc_begin u m)" and m2: "m2 = snd (mvcc_commit t ts (mvcc_run ops m1))"
    using assms(2,3) by auto
  have g1: "global_timestamp m1 = global_timestamp m + 1" and sn: "snap_timestamp sn = global_timestamp m"
    using assms(2) by (auto simp: timestamp_simps)
  have "mvcc_inv m1" using assms(1) ne by (simp add: m1 mvcc_inv_begin)
  then have "global_timestamp m1 \<le> global_timestamp (mvcc_run ops m1)"
    using assms(4) u64_succ_unat [OF ne] by (intro mvcc_run_bounds) (simp_all add: g1)
  then have late: "snap_timestamp sn < global_timestamp (mvcc_run ops m1)"
    using u64_less_succ [OF ne] by (simp add: g1 sn)
  have "commit_ts (visibility v) = global_timestamp (mvcc_run ops m1)"
    using assms(5-7) unfolding m2 by (rule committed_timestamp)
  with late show ?thesis by (simp add: is_visible_def)
qed

theorem commit_after_snapshot_invisible_witness:
  "\<not> is_visible (visibility (RecordVersion_new [65] 1 3 1)) 5
      (snap_timestamp (fst (mvcc_begin 2 MVCCManager_new)))"
proof -
  let ?m1 = "snd (mvcc_begin 2 MVCCManager_new)"
  let ?ops = "[MvBegin 1, MvInsertVersion 7 [65] 1 1]"
  have "hm_get (version_chains (snd (mvcc_commit 1 2 (mvcc_run ?ops ?m1)))) 7 =
      Some \<lparr>versions = [RecordVersion_new [65] 1 3 1], latest_committed = Some 0\<rparr>"
    by (simp add: timestamp_simps MVCCManager_new_def insert_version_def push_version_def
        VersionChain_new_def add_version_def RecordVersion_new_def VisibilityInfo_new_def
        set_commit_ts_def)
  then show ?thesis
    using commit_after_snapshot_invisible [of MVCCManager_new 2 "fst (mvcc_begin 2 MVCCManager_new)" ?m1
        1 2 ?ops "fst (mvcc_commit 1 2 (mvcc_run ?ops ?m1))" "snd (mvcc_commit 1 2 (mvcc_run ?ops ?m1))"
        7 _ "RecordVersion_new [65] 1 3 1" 5]
    by (simp add: mvcc_inv_new)
      (simp add: MVCCManager_new_def RecordVersion_new_def VisibilityInfo_new_def)
qed

text \<open>
  A committed write reaches every later transaction: if a transaction adds a version and
  commits, a transaction with another id that begins afterwards reads exactly the data written.
\<close>

theorem read_your_commits:
  assumes "mvcc_inv m" "unat (global_timestamp m) + 2 < 2 ^ 64 - 1" "u \<noteq> t"
    and "insert_version rid d t n m = (Ok (), m1)"
    and "mvcc_commit t ts m1 = (cts, m2)" "mvcc_begin u m2 = (sn, m3)"
  shows "read_record rid sn m3 = Ok (Some d)"
proof -
  obtain c where c: "hm_get (version_chains m1) rid = Some (add_version (RecordVersion_new d t 0 n) c)"
    using assms(4) by (auto simp: insert_version_def chains_push)
  have g1: "global_timestamp m1 = global_timestamp m"
    using assms(4) by (auto simp: insert_version_def push_version_def Let_def)
  have ne: "global_timestamp m \<noteq> -1" using assms(2) by (rule unat_not_max)
  define v where "v = set_commit_ts t (global_timestamp m) (RecordVersion_new d t 0 n)"
  have "hm_get (version_chains m3) rid =
      Some (add_version v (c\<lparr>versions := map (set_commit_ts t (global_timestamp m)) (versions c)\<rparr>))"
    using chains_commit [of t ts m1 rid] c assms(5,6)
    by (auto simp: g1 v_def add_version_def Let_def timestamp_simps)
  moreover have "snap_timestamp sn = global_timestamp m + 1" "snap_transaction_id sn = u"
    using assms(5,6) by (auto simp: timestamp_simps g1)
  ultimately show ?thesis
    using assms(3) ne
    by (simp add: read_record_def get_visible_add is_visible_iff v_def set_commit_ts_def
        RecordVersion_new_def VisibilityInfo_new_def u64_simps)
qed

theorem read_your_commits_witness:
  "read_record 7 (fst (mvcc_begin 2 (snd (mvcc_commit 1 0 (snd (insert_version 7 [65] 1 1 MVCCManager_new))))))
     (snd (mvcc_begin 2 (snd (mvcc_commit 1 0 (snd (insert_version 7 [65] 1 1 MVCCManager_new))))))
   = Ok (Some [65])"
  by (rule read_your_commits [of MVCCManager_new 2 1 7 "[65]" 1
        "snd (insert_version 7 [65] 1 1 MVCCManager_new)" 0
        "fst (mvcc_commit 1 0 (snd (insert_version 7 [65] 1 1 MVCCManager_new)))"])
    (simp_all add: mvcc_inv_new, simp_all add: MVCCManager_new_def insert_version_def)

text \<open>
  Aborting a transaction removes exactly its versions: afterwards a record has the versions it
  had, in the same order, without those the transaction created, and a record with no other
  version is gone.
\<close>

theorem abort_removes_own_versions:
  assumes "mvcc_inv m"
  shows "hm_get (version_chains (mvcc_abort t m)) rid =
    (case hm_get (version_chains m) rid of
       None \<Rightarrow> None
     | Some c \<Rightarrow>
         let vs = filter (\<lambda>v. creator_id (visibility v) \<noteq> t) (versions c)
         in if vs = [] then None else Some (c\<lparr>versions := vs\<rparr>))"
  using assms by (auto simp: mvcc_abort_def chains_retain mvcc_inv_iff Let_def split: option.splits)

theorem abort_removes_own_versions_witness:
  "hm_get (version_chains (mvcc_abort 1
     (snd (update_version 7 [66] 1 2 (snd (insert_version 7 [65] 3 1 MVCCManager_new)))))) 7 =
   Some \<lparr>versions = [RecordVersion_new [65] 3 0 1], latest_committed = Some 1\<rparr>"
proof -
  let ?m = "snd (update_version 7 [66] 1 2 (snd (insert_version 7 [65] 3 1 MVCCManager_new)))"
  have "mvcc_inv ?m"
    using mvcc_run_bounds(1) [of MVCCManager_new "[MvInsertVersion 7 [65] 3 1, MvUpdateVersion 7 [66] 1 2]"]
    by (simp add: mvcc_inv_new) (simp add: MVCCManager_new_def)
  from abort_removes_own_versions [OF this, of 1 7] show ?thesis
    by (simp add: update_version_def insert_version_def push_version_def Let_def MVCCManager_new_def
        add_version_def VersionChain_new_def RecordVersion_new_def VisibilityInfo_new_def)
qed

text \<open>
  Dirty reads: a version is visible to every other transaction as soon as it is inserted,
  before its creator commits, because an uncommitted version carries the commit timestamp 0,
  which no snapshot precedes.
\<close>

theorem uncommitted_insert_visible:
  assumes "insert_version rid d t n m = (Ok (), m1)" "snap_transaction_id sn \<noteq> t"
  shows "read_record rid sn m1 = Ok (Some d)"
  using assms
  by (auto simp: insert_version_def read_record_def chains_push get_visible_add is_visible_iff
      RecordVersion_new_def VisibilityInfo_new_def)

theorem uncommitted_insert_visible_witness:
  "read_record 100 (fst (mvcc_begin 2 (snd (mvcc_begin 1 MVCCManager_new))))
     (snd (insert_version 100 [65] 1 1 (snd (mvcc_begin 2 (snd (mvcc_begin 1 MVCCManager_new))))))
   = Ok (Some [65])"
  by (rule uncommitted_insert_visible [of 100 "[65]" 1 1])
    (auto simp: insert_version_def timestamp_simps)

text \<open>
  Vacuuming up to a timestamp removes the only version of a record that was committed before
  it, although the version is not superseded and not deleted: a snapshot that could read the
  record before reads nothing afterwards.
\<close>

theorem vacuum_removes_live_version:
  assumes "mvcc_inv m" "hm_get (version_chains m) rid = Some c" "versions c = [v]"
    and "commit_ts (visibility v) < before" "creator_id (visibility v) \<notin> mvcc_active m"
    and "is_visible (visibility v) (snap_transaction_id sn) (snap_timestamp sn)"
  shows "read_record rid sn m = Ok (Some (rv_data v)) \<and>
    read_record rid sn (snd (vacuum before m)) = Ok None"
proof -
  have "get_visible_version c (snap_transaction_id sn) (snap_timestamp sn) = Some v"
    using assms(3,6) by (simp add: get_visible_version_def)
  moreover have "hm_get (version_chains (snd (vacuum before m))) rid = None"
    using assms(1-5) by (simp add: vacuum_def Let_def chains_retain mvcc_inv_iff vacuum_keeps_def)
  ultimately show ?thesis using assms(2) by (simp add: read_record_def)
qed

theorem vacuum_removes_live_version_witness:
  "read_record 7 (fst (mvcc_begin 2 (mvcc_run [MvInsertVersion 7 [65] 1 1, MvCommit 1 0] MVCCManager_new)))
     (mvcc_run [MvInsertVersion 7 [65] 1 1, MvCommit 1 0] MVCCManager_new) = Ok (Some [65]) \<and>
   read_record 7 (fst (mvcc_begin 2 (mvcc_run [MvInsertVersion 7 [65] 1 1, MvCommit 1 0] MVCCManager_new)))
     (snd (vacuum 2 (mvcc_run [MvInsertVersion 7 [65] 1 1, MvCommit 1 0] MVCCManager_new))) = Ok None"
proof -
  let ?m = "mvcc_run [MvInsertVersion 7 [65] 1 1, MvCommit 1 0] MVCCManager_new"
  let ?v = "RecordVersion_new [65] 1 1 1"
  have inv: "mvcc_inv ?m"
    by (rule mvcc_run_bounds(1)) (simp_all add: mvcc_inv_new, simp_all add: MVCCManager_new_def)
  have m: "?m = \<lparr>version_chains = [(7, \<lparr>versions = [?v], latest_committed = Some 0\<rparr>)],
      global_timestamp = 2, mvcc_active = {}\<rparr>"
    by (simp add: timestamp_simps MVCCManager_new_def insert_version_def push_version_def
        VersionChain_new_def add_version_def RecordVersion_new_def VisibilityInfo_new_def
        set_commit_ts_def hm_map_values_def)
  show ?thesis
    using vacuum_removes_live_version [OF inv, of 7 _ ?v 2 "fst (mvcc_begin 2 ?m)"]
    unfolding m
    by (simp add: RecordVersion_new_def VisibilityInfo_new_def is_visible_iff timestamp_simps)
qed

text \<open>
  The index of the latest committed version is not kept up to date by an abort: after a second
  transaction adds a version and aborts, \<^verbatim>\<open>get_latest_version\<close> finds nothing, although the
  committed version is still in the chain and visible.
\<close>

theorem abort_loses_latest_version:
  assumes "t \<noteq> u" "creator_id (visibility v) = u" "snap_transaction_id sn \<notin> {t, u}"
    and "commit_ts (visibility v) \<le> snap_timestamp sn" "delete_ts (visibility v) = None"
    and "version_chains m = [(rid, \<lparr>versions = [v], latest_committed = Some 0\<rparr>)]"
  shows "get_latest_version rid m = Some (rv_data v) \<and>
    get_latest_version rid (mvcc_abort t (snd (update_version rid d t n m))) = None \<and>
    read_record rid sn (mvcc_abort t (snd (update_version rid d t n m))) = Ok (Some (rv_data v))"
  using assms
  by (auto simp: update_version_def push_version_def add_version_def mvcc_abort_def Let_def
      RecordVersion_new_def VisibilityInfo_new_def drop_empty_chains_def retain_versions_def
      hm_map_values_def hm_retain_def get_latest_version_def get_latest_committed_def read_record_def
      get_visible_version_def is_visible_iff)

theorem abort_loses_latest_version_witness:
  "get_latest_version 7 \<lparr>version_chains =
       [(7, \<lparr>versions = [RecordVersion_new [65] 1 1 1], latest_committed = Some 0\<rparr>)],
       global_timestamp = 2, mvcc_active = {}\<rparr> = Some [65] \<and>
   get_latest_version 7 (mvcc_abort 2 (snd (update_version 7 [66] 2 2 \<lparr>version_chains =
       [(7, \<lparr>versions = [RecordVersion_new [65] 1 1 1], latest_committed = Some 0\<rparr>)],
       global_timestamp = 2, mvcc_active = {}\<rparr>))) = None"
  using abort_loses_latest_version [of 2 1 "RecordVersion_new [65] 1 1 1"
      "\<lparr>snap_transaction_id = 3, snap_timestamp = 5, snap_active = {}\<rparr>"
      "\<lparr>version_chains =
       [(7, \<lparr>versions = [RecordVersion_new [65] 1 1 1], latest_committed = Some 0\<rparr>)],
       global_timestamp = 2, mvcc_active = {}\<rparr>" 7 "[66]" 2]
  by (simp add: RecordVersion_new_def VisibilityInfo_new_def)

end
