(* ===== verification/Wal.thy ===== *)
theory Wal
  imports Bincode
begin

section \<open>The write-ahead log (\<^verbatim>\<open>src/src/transaction/wal.rs\<close>)\<close>

text \<open>
  Records, their encoding and decoding, and the manager that numbers, buffers and writes them. The
  state of the manager is the file's bytes, the next log sequence number, the buffer and its
  settings, and the script of the coming system calls. \<^verbatim>\<open>bincode\<close> and the checksum function are a
  parameter; \<open>wal_lib_ok\<close> is the contract for the headers and the documented layout of an enum value,
  a tag of four bytes and the content.

  The lemmas show that the log is written in order with consecutive numbers, what opening a log
  finds, and where the decoding of records does not match their encoding.
\<close>

subsection \<open>Data\<close>

type_synonym LSN = u64

datatype WALRecordType =
    WBegin | WCommit | WAbort | WInsert | WUpdate | WDelete | WCheckpoint
  | WCreateTable | WDropTable | WCreateIndex | WDropIndex
  | WAlterTableAddColumn | WAlterTableDropColumn | WAlterTableAddConstraint | WAlterTableDropConstraint
  | WSchemaVersionChange | WTableMetadataUpdate | WColumnMetadataUpdate | WIndexMetadataUpdate

record WALRecordHeader =
  wh_lsn :: LSN
  wh_prev_lsn :: "LSN option"
  wh_transaction_id :: TransactionId
  wh_record_type :: WALRecordType
  wh_data_size :: u32
  wh_checksum :: u32

record ModifyRecord =
  mr_page_id :: PageId
  mr_offset :: usize
  mr_old_data :: "bytes option"
  mr_new_data :: bytes

record DdlRecord =
  dr_ddl_type :: string
  dr_object_name :: string
  dr_object_type :: string
  dr_schema_name :: "string option"
  dr_object_definition :: "bytes option"
  dr_previous_definition :: "bytes option"
  dr_metadata :: "(string, string) hmap"
  dr_dependents :: "string list"

datatype WALRecordData = Modify ModifyRecord | Ddl DdlRecord

record WALRecord =
  wr_header :: WALRecordHeader
  wr_data :: "WALRecordData option"

record WALHeader =
  wf_magic_number :: u64
  wf_version :: u32
  wf_page_size :: u32
  wf_start_lsn :: LSN

record WALManager =
  wm_file :: bytes
  wm_next_lsn :: LSN
  wm_buffer :: "WALRecord list"
  wm_buffer_size :: nat
  wm_fsync_enabled :: bool
  wm_io :: "io_outcome list"

record wal_lib =
  wl_header :: "WALRecordHeader \<Rightarrow> bytes"
  wl_de_header :: "bytes \<Rightarrow> WALRecordHeader option"
  wl_modify :: "ModifyRecord \<Rightarrow> bytes"
  wl_de_modify :: "bytes \<Rightarrow> ModifyRecord option"
  wl_ddl :: "DdlRecord \<Rightarrow> bytes"
  wl_de_ddl :: "bytes \<Rightarrow> DdlRecord option"
  wl_data :: "WALRecordData \<Rightarrow> bytes"
  wl_file_header :: "WALHeader \<Rightarrow> bytes"
  wl_de_file_header :: "bytes \<Rightarrow> WALHeader option"
  wl_crc :: "bytes \<Rightarrow> u32"

definition wal_header_width :: "WALRecordHeader \<Rightarrow> nat" where
  "wal_header_width h = 28 + opt_size 8 (wh_prev_lsn h)"

definition wal_lib_ok :: "wal_lib \<Rightarrow> bool" where
  "wal_lib_ok L \<longleftrightarrow>
     bincode (wl_header L) (wl_de_header L) wal_header_width \<and>
     bincode (wl_file_header L) (wl_de_file_header L) (\<lambda>_. 24) \<and>
     (\<forall>m. wl_data L (Modify m) = [0, 0, 0, 0] @ wl_modify L m) \<and>
     (\<forall>d. wl_data L (Ddl d) = [1, 0, 0, 0] @ wl_ddl L d)"

subsection \<open>Records\<close>

definition control_record :: "WALRecordType \<Rightarrow> TransactionId \<Rightarrow> LSN \<Rightarrow> LSN option \<Rightarrow> WALRecord" where
  "control_record ty transaction_id lsn prev_lsn =
     \<lparr>wr_header = \<lparr>wh_lsn = lsn, wh_prev_lsn = prev_lsn, wh_transaction_id = transaction_id,
        wh_record_type = ty, wh_data_size = 0, wh_checksum = 0\<rparr>, wr_data = None\<rparr>"

definition wal_begin :: "TransactionId \<Rightarrow> LSN \<Rightarrow> WALRecord" where
  "wal_begin transaction_id lsn = control_record WBegin transaction_id lsn None"

definition wal_commit :: "TransactionId \<Rightarrow> LSN \<Rightarrow> LSN option \<Rightarrow> WALRecord" where
  "wal_commit = control_record WCommit"

definition wal_abort :: "TransactionId \<Rightarrow> LSN \<Rightarrow> LSN option \<Rightarrow> WALRecord" where
  "wal_abort = control_record WAbort"

definition modify_record ::
    "wal_lib \<Rightarrow> WALRecordType \<Rightarrow> TransactionId \<Rightarrow> LSN \<Rightarrow> LSN option \<Rightarrow> ModifyRecord \<Rightarrow> WALRecord" where
  "modify_record L ty transaction_id lsn prev_lsn d =
     \<lparr>wr_header = \<lparr>wh_lsn = lsn, wh_prev_lsn = prev_lsn, wh_transaction_id = transaction_id,
        wh_record_type = ty, wh_data_size = of_nat (length (wl_modify L d)), wh_checksum = 0\<rparr>,
      wr_data = Some (Modify d)\<rparr>"

definition wal_insert ::
    "wal_lib \<Rightarrow> TransactionId \<Rightarrow> LSN \<Rightarrow> LSN option \<Rightarrow> PageId \<Rightarrow> usize \<Rightarrow> bytes \<Rightarrow> WALRecord" where
  "wal_insert L transaction_id lsn prev_lsn page_id offset new_data =
     modify_record L WInsert transaction_id lsn prev_lsn
       \<lparr>mr_page_id = page_id, mr_offset = offset, mr_old_data = None, mr_new_data = new_data\<rparr>"

definition wal_update ::
    "wal_lib \<Rightarrow> TransactionId \<Rightarrow> LSN \<Rightarrow> LSN option \<Rightarrow> PageId \<Rightarrow> usize \<Rightarrow> bytes \<Rightarrow> bytes \<Rightarrow> WALRecord" where
  "wal_update L transaction_id lsn prev_lsn page_id offset old_data new_data =
     modify_record L WUpdate transaction_id lsn prev_lsn
       \<lparr>mr_page_id = page_id, mr_offset = offset, mr_old_data = Some old_data, mr_new_data = new_data\<rparr>"

definition wal_delete ::
    "wal_lib \<Rightarrow> TransactionId \<Rightarrow> LSN \<Rightarrow> LSN option \<Rightarrow> PageId \<Rightarrow> usize \<Rightarrow> bytes \<Rightarrow> WALRecord" where
  "wal_delete L transaction_id lsn prev_lsn page_id offset old_data =
     modify_record L WDelete transaction_id lsn prev_lsn
       \<lparr>mr_page_id = page_id, mr_offset = offset, mr_old_data = Some old_data, mr_new_data = []\<rparr>"

definition wal_ddl ::
    "wal_lib \<Rightarrow> TransactionId \<Rightarrow> LSN \<Rightarrow> LSN option \<Rightarrow> WALRecordType \<Rightarrow> DdlRecord \<Rightarrow> WALRecord" where
  "wal_ddl L transaction_id lsn prev_lsn record_type d =
     \<lparr>wr_header = \<lparr>wh_lsn = lsn, wh_prev_lsn = prev_lsn, wh_transaction_id = transaction_id,
        wh_record_type = record_type, wh_data_size = of_nat (length (wl_ddl L d)), wh_checksum = 0\<rparr>,
      wr_data = Some (Ddl d)\<rparr>"

definition wal_create_table ::
    "wal_lib \<Rightarrow> TransactionId \<Rightarrow> LSN \<Rightarrow> LSN option \<Rightarrow> string \<Rightarrow> string option \<Rightarrow> bytes \<Rightarrow> string list \<Rightarrow> WALRecord" where
  "wal_create_table L transaction_id lsn prev_lsn table_name schema_name table_definition dependents =
     wal_ddl L transaction_id lsn prev_lsn WCreateTable
       \<lparr>dr_ddl_type = ''CREATE_TABLE'', dr_object_name = table_name, dr_object_type = ''table'',
        dr_schema_name = schema_name, dr_object_definition = Some table_definition,
        dr_previous_definition = None, dr_metadata = hm_insert ''operation'' ''CREATE'' [],
        dr_dependents = dependents\<rparr>"

definition wal_drop_table ::
    "wal_lib \<Rightarrow> TransactionId \<Rightarrow> LSN \<Rightarrow> LSN option \<Rightarrow> string \<Rightarrow> string option \<Rightarrow> bytes \<Rightarrow> string list \<Rightarrow> WALRecord" where
  "wal_drop_table L transaction_id lsn prev_lsn table_name schema_name previous_definition dependents =
     wal_ddl L transaction_id lsn prev_lsn WDropTable
       \<lparr>dr_ddl_type = ''DROP_TABLE'', dr_object_name = table_name, dr_object_type = ''table'',
        dr_schema_name = schema_name, dr_object_definition = None,
        dr_previous_definition = Some previous_definition,
        dr_metadata = hm_insert ''operation'' ''DROP'' [], dr_dependents = dependents\<rparr>"

definition wal_alter_table ::
    "wal_lib \<Rightarrow> TransactionId \<Rightarrow> LSN \<Rightarrow> LSN option \<Rightarrow> WALRecordType \<Rightarrow> string \<Rightarrow> string option \<Rightarrow> string \<Rightarrow>
     string \<Rightarrow> bytes option \<Rightarrow> bytes option \<Rightarrow> string list \<Rightarrow> WALRecord" where
  "wal_alter_table L transaction_id lsn prev_lsn record_type table_name schema_name alteration_type
       target_name previous_definition new_definition dependents =
     wal_ddl L transaction_id lsn prev_lsn record_type
       \<lparr>dr_ddl_type = ''ALTER_TABLE_'' @ alteration_type, dr_object_name = table_name,
        dr_object_type = ''table'', dr_schema_name = schema_name, dr_object_definition = new_definition,
        dr_previous_definition = previous_definition,
        dr_metadata = hm_insert ''target_name'' target_name
          (hm_insert ''alteration_type'' alteration_type []),
        dr_dependents = dependents\<rparr>"

text \<open>The checksum is that of a digest to which no bytes were fed.\<close>

definition wal_update_checksum :: "wal_lib \<Rightarrow> WALRecord \<Rightarrow> WALRecord" where
  "wal_update_checksum L r =
     (let original_checksum = wh_checksum (wr_header r);
          checksum = wl_crc L []
      in r\<lparr>wr_header := (wr_header r)\<lparr>wh_checksum :=
           (if original_checksum \<noteq> 0 then original_checksum else checksum)\<rparr>\<rparr>)"

definition wal_verify :: "wal_lib \<Rightarrow> WALRecord \<Rightarrow> bool" where
  "wal_verify L r = (wl_crc L [] = wh_checksum (wr_header r))"

definition data_bytes :: "wal_lib \<Rightarrow> WALRecordData option \<Rightarrow> bytes" where
  "data_bytes L d = (case d of None \<Rightarrow> [] | Some x \<Rightarrow> wl_data L x)"

definition wal_to_bytes :: "wal_lib \<Rightarrow> WALRecord \<Rightarrow> bytes" where
  "wal_to_bytes L r =
     (let record = wal_update_checksum L r
      in wl_header L (wr_header record) @ data_bytes L (wr_data record))"

definition empty_header :: WALRecordHeader where
  "empty_header = \<lparr>wh_lsn = 0, wh_prev_lsn = None, wh_transaction_id = 0, wh_record_type = WBegin,
     wh_data_size = 0, wh_checksum = 0\<rparr>"

definition decode_data :: "wal_lib \<Rightarrow> WALRecordType \<Rightarrow> bytes \<Rightarrow> WALRecordData res" where
  "decode_data L ty bs =
     (if ty \<in> {WInsert, WUpdate, WDelete}
      then (case wl_de_modify L bs of None \<Rightarrow> Err (SerializationError ''bincode'')
            | Some m \<Rightarrow> Ok (Modify m))
      else if ty \<in> {WBegin, WCommit, WAbort, WCheckpoint}
      then Err (SerializationError ''Unexpected record type for data'')
      else (case wl_de_ddl L bs of None \<Rightarrow> Err (SerializationError ''bincode'') | Some d \<Rightarrow> Ok (Ddl d)))"

definition wal_from_bytes :: "wal_lib \<Rightarrow> bytes \<Rightarrow> WALRecord res" where
  "wal_from_bytes L bs =
     (if bs = [] then Err (SerializationError ''Empty WAL record'')
      else let header_size = length (wl_header L empty_header)
           in if length bs < header_size
              then Err (SerializationError ''Insufficient bytes for WAL header'')
              else case wl_de_header L (take header_size bs) of
                  None \<Rightarrow> Err (SerializationError ''bincode'')
                | Some header \<Rightarrow>
                    if wh_data_size header > 0
                    then res_bind (decode_data L (wh_record_type header) (drop header_size bs))
                           (\<lambda>d. Ok \<lparr>wr_header = header, wr_data = Some d\<rparr>)
                    else Ok \<lparr>wr_header = header, wr_data = None\<rparr>)"

subsection \<open>The manager\<close>

definition WALHeader_new :: "u32 \<Rightarrow> WALHeader" where
  "WALHeader_new page_size = \<lparr>wf_magic_number = 0x57414C5253514C44, wf_version = 1,
     wf_page_size = page_size, wf_start_lsn = 0\<rparr>"

type_synonym 'a wal_op = "(WALManager, 'a) op"

definition wal_next_io :: "WALManager \<Rightarrow> io_outcome \<times> WALManager" where
  "wal_next_io s = (case wm_io s of [] \<Rightarrow> (IoDone, s) | x # xs \<Rightarrow> (x, s\<lparr>wm_io := xs\<rparr>))"

definition wal_io_call :: "db_error \<Rightarrow> unit wal_op" where
  "wal_io_call e s =
     (case wal_next_io s of (IoDone, s1) \<Rightarrow> (Ok (), s1) | (IoFail _, s1) \<Rightarrow> (Err e, s1))"

text \<open>Writing at the end of the file, where every write of the manager goes.\<close>

definition wal_append_bytes :: "bytes \<Rightarrow> unit wal_op" where
  "wal_append_bytes bs s =
     (case wal_next_io s of
        (IoDone, s1) \<Rightarrow> (Ok (), s1\<lparr>wm_file := wm_file s1 @ bs\<rparr>)
      | (IoFail k, s1) \<Rightarrow> (Err (IoError ''write''), s1\<lparr>wm_file := wm_file s1 @ take k bs\<rparr>))"

definition wal_create :: "wal_lib \<Rightarrow> u32 \<Rightarrow> io_outcome list \<Rightarrow> unit res \<times> WALManager" where
  "wal_create L page_size io =
     st_bind (wal_io_call (IoError ''open'')) (\<lambda>_.
     st_bind (wal_append_bytes (wl_file_header L (WALHeader_new page_size))) (\<lambda>_.
     wal_io_call (IoError ''flush'')))
       \<lparr>wm_file = [], wm_next_lsn = 1, wm_buffer = [], wm_buffer_size = 1000,
        wm_fsync_enabled = True, wm_io = io\<rparr>"

text \<open>The scan for the next number: the bytes not yet read, and the number found so far. A read past
  the end returns no bytes.\<close>

function scan_records :: "wal_lib \<Rightarrow> bytes \<Rightarrow> LSN \<Rightarrow> LSN res" where
  "scan_records L bs next_lsn =
     (let record_header_size = length (wl_header L empty_header);
          header_buf = take record_header_size bs
      in if header_buf = [] then Ok next_lsn
         else if length header_buf < record_header_size
         then Err (CorruptionError ''Incomplete WAL record header'')
         else case wl_de_header L header_buf of
             None \<Rightarrow> Err (SerializationError ''bincode'')
           | Some h \<Rightarrow>
               scan_records L (drop (record_header_size + unat (wh_data_size h)) bs) (wh_lsn h + 1))"
  by pat_completeness auto
termination
  by (relation "measure (\<lambda>(L, bs, n). length bs)") auto

declare scan_records.simps [simp del]

text \<open>\<^verbatim>\<open>open\<close> on the bytes of an existing file, when no system call fails.\<close>

definition wal_open :: "wal_lib \<Rightarrow> bytes \<Rightarrow> WALManager res" where
  "wal_open L file =
     (let header_size = length (wl_file_header L (WALHeader_new 0))
      in if length file < header_size then Err (IoError ''read_exact'')
         else case wl_de_file_header L (take header_size file) of
             None \<Rightarrow> Err (SerializationError ''bincode'')
           | Some header \<Rightarrow>
               if wf_magic_number header \<noteq> wf_magic_number (WALHeader_new 0)
               then Err (CorruptionError ''Invalid WAL magic number'')
               else res_bind (scan_records L (drop header_size file) 0) (\<lambda>next_lsn.
                 Ok \<lparr>wm_file = file, wm_next_lsn = next_lsn, wm_buffer = [], wm_buffer_size = 1000,
                     wm_fsync_enabled = True, wm_io = []\<rparr>))"

fun write_records :: "wal_lib \<Rightarrow> WALRecord list \<Rightarrow> unit wal_op" where
  "write_records L [] s = (Ok (), s)"
| "write_records L (r # rs) s = st_bind (wal_append_bytes (wal_to_bytes L r)) (\<lambda>_. write_records L rs) s"

definition flush_buffer :: "wal_lib \<Rightarrow> unit wal_op" where
  "flush_buffer L s =
     (if wm_buffer s = [] then (Ok (), s)
      else let records = wm_buffer s
           in st_bind (wal_io_call (IoError ''seek'')) (\<lambda>_.
              st_bind (write_records L records) (\<lambda>_.
              st_bind (wal_io_call (IoError ''flush'')) (\<lambda>_.
              if wm_fsync_enabled s then wal_io_call (IoError ''sync'') else st_return ())))
              (s\<lparr>wm_buffer := []\<rparr>))"

definition append_record :: "wal_lib \<Rightarrow> WALRecord \<Rightarrow> LSN wal_op" where
  "append_record L r s =
     (let record = r\<lparr>wr_header := (wr_header r)\<lparr>wh_lsn := wm_next_lsn s\<rparr>\<rparr>;
          s1 = s\<lparr>wm_next_lsn := wm_next_lsn s + 1, wm_buffer := wm_buffer s @ [record]\<rparr>
      in if length (wm_buffer s1) \<ge> wm_buffer_size s1
         then st_bind (flush_buffer L) (\<lambda>_. st_return (wh_lsn (wr_header record))) s1
         else (Ok (wh_lsn (wr_header record)), s1))"

definition set_buffer_size :: "nat \<Rightarrow> WALManager \<Rightarrow> WALManager" where
  "set_buffer_size n s = s\<lparr>wm_buffer_size := n\<rparr>"

definition set_fsync :: "bool \<Rightarrow> WALManager \<Rightarrow> WALManager" where
  "set_fsync b s = s\<lparr>wm_fsync_enabled := b\<rparr>"

definition get_next_lsn :: "WALManager \<Rightarrow> LSN" where
  "get_next_lsn s = wm_next_lsn s"

definition wal_checkpoint :: "wal_lib \<Rightarrow> LSN \<Rightarrow> unit wal_op" where
  "wal_checkpoint L lsn =
     st_bind (flush_buffer L) (\<lambda>_ s.
     st_bind (append_record L \<lparr>wr_header = \<lparr>wh_lsn = get_next_lsn s, wh_prev_lsn = None,
         wh_transaction_id = 0, wh_record_type = WCheckpoint, wh_data_size = 8, wh_checksum = 0\<rparr>,
         wr_data = None\<rparr>) (\<lambda>_. st_return ()) s)"

text \<open>Appending several records, stopping at the first failure.\<close>

fun append_all :: "wal_lib \<Rightarrow> WALRecord list \<Rightarrow> LSN list wal_op" where
  "append_all L [] s = (Ok [], s)"
| "append_all L (r # rs) s =
     st_bind (append_record L r) (\<lambda>lsn. st_bind (append_all L rs) (\<lambda>lsns. st_return (lsn # lsns))) s"

text \<open>The records as the manager numbers them, and the log they make up.\<close>

fun numbered :: "LSN \<Rightarrow> WALRecord list \<Rightarrow> WALRecord list" where
  "numbered n [] = []"
| "numbered n (r # rs) = r\<lparr>wr_header := (wr_header r)\<lparr>wh_lsn := n\<rparr>\<rparr> # numbered (n + 1) rs"

definition log_bytes :: "wal_lib \<Rightarrow> WALRecord list \<Rightarrow> bytes" where
  "log_bytes L rs = concat (map (wal_to_bytes L) rs)"

text \<open>Records that consist of a header without a link to a previous record.\<close>

definition plain_record :: "WALRecord \<Rightarrow> bool" where
  "plain_record r \<longleftrightarrow> wh_prev_lsn (wr_header r) = None \<and> wr_data r = None \<and> wh_data_size (wr_header r) = 0"

subsection \<open>A library that meets the contract\<close>

definition wal_types :: "WALRecordType list" where
  "wal_types = [WBegin, WCommit, WAbort, WInsert, WUpdate, WDelete, WCheckpoint, WCreateTable, WDropTable,
     WCreateIndex, WDropIndex, WAlterTableAddColumn, WAlterTableDropColumn, WAlterTableAddConstraint,
     WAlterTableDropConstraint, WSchemaVersionChange, WTableMetadataUpdate, WColumnMetadataUpdate,
     WIndexMetadataUpdate]"

definition wal_type_tag :: "WALRecordType \<Rightarrow> u32" where
  "wal_type_tag t = of_nat (length (takeWhile (\<lambda>x. x \<noteq> t) wal_types))"

definition wal_type_of_tag :: "u32 \<Rightarrow> WALRecordType option" where
  "wal_type_of_tag t = (if unat t < length wal_types then Some (wal_types ! unat t) else None)"

definition wal_header_tuple :: "WALRecordHeader \<Rightarrow> u64 \<times> u64 option \<times> u64 \<times> u32 \<times> u32 \<times> u32" where
  "wal_header_tuple h = (wh_lsn h, wh_prev_lsn h, wh_transaction_id h,
     wal_type_tag (wh_record_type h), wh_data_size h, wh_checksum h)"

definition tuple_wal_header :: "u64 \<times> u64 option \<times> u64 \<times> u32 \<times> u32 \<times> u32 \<Rightarrow> WALRecordHeader option" where
  "tuple_wal_header = (\<lambda>(l, p, t, ty, n, c). map_option (\<lambda>ty. \<lparr>wh_lsn = l, wh_prev_lsn = p,
     wh_transaction_id = t, wh_record_type = ty, wh_data_size = n, wh_checksum = c\<rparr>) (wal_type_of_tag ty))"

definition wal_header_encode :: "WALRecordHeader encoder" where
  "wal_header_encode = iso_encode wal_header_tuple
     (pair_encode le_encode (pair_encode (option_encode le_encode) (pair_encode le_encode
       (pair_encode le_encode (pair_encode le_encode le_encode)))))"

definition wal_header_decode :: "WALRecordHeader decoder" where
  "wal_header_decode = iso_decode tuple_wal_header
     (pair_decode le_decode (pair_decode (option_decode le_decode) (pair_decode le_decode
       (pair_decode le_decode (pair_decode le_decode le_decode)))))"

definition file_header_tuple :: "WALHeader \<Rightarrow> u64 \<times> u32 \<times> u32 \<times> u64" where
  "file_header_tuple h = (wf_magic_number h, wf_version h, wf_page_size h, wf_start_lsn h)"

definition tuple_file_header :: "u64 \<times> u32 \<times> u32 \<times> u64 \<Rightarrow> WALHeader option" where
  "tuple_file_header = (\<lambda>(m, v, p, l). Some \<lparr>wf_magic_number = m, wf_version = v, wf_page_size = p,
     wf_start_lsn = l\<rparr>)"

definition file_header_encode :: "WALHeader encoder" where
  "file_header_encode = iso_encode file_header_tuple
     (pair_encode le_encode (pair_encode le_encode (pair_encode le_encode le_encode)))"

definition file_header_decode :: "WALHeader decoder" where
  "file_header_decode = iso_decode tuple_file_header
     (pair_decode le_decode (pair_decode le_decode (pair_decode le_decode le_decode)))"

definition le_wal_lib :: wal_lib where
  "le_wal_lib = \<lparr>wl_header = wal_header_encode, wl_de_header = prefix_value wal_header_decode,
     wl_modify = mr_new_data, wl_de_modify = (\<lambda>_. None), wl_ddl = (\<lambda>_. []), wl_de_ddl = (\<lambda>_. None),
     wl_data = (\<lambda>d. case d of Modify m \<Rightarrow> [0, 0, 0, 0] @ mr_new_data m | Ddl _ \<Rightarrow> [1, 0, 0, 0]),
     wl_file_header = file_header_encode, wl_de_file_header = prefix_value file_header_decode,
     wl_crc = (\<lambda>_. 0)\<rparr>"

lemma wal_type_of_tag [simp]: "wal_type_of_tag (wal_type_tag t) = Some t"
  by (cases t) (simp_all add: wal_type_of_tag_def wal_type_tag_def wal_types_def)

lemma tuple_wal_header [simp]: "tuple_wal_header (wal_header_tuple h) = Some h"
  by (simp add: tuple_wal_header_def wal_header_tuple_def)

lemma tuple_file_header [simp]: "tuple_file_header (file_header_tuple h) = Some h"
  by (simp add: tuple_file_header_def file_header_tuple_def)

interpretation wal_header: codec wal_header_encode wal_header_decode wal_header_width
proof -
  note u64 = u64.codec_axioms and u32 = u32.codec_axioms
  note all = codec_pair [OF u64 codec_pair [OF codec_option [OF u64] codec_pair [OF u64
    codec_pair [OF u32 codec_pair [OF u32 u32]]]]]
  show "codec wal_header_encode wal_header_decode wal_header_width"
    using codec_iso [OF all tuple_wal_header]
    by (simp add: wal_header_encode_def wal_header_decode_def wal_header_tuple_def [abs_def]
        wal_header_width_def [abs_def] add.commute)
qed

interpretation wal_file_header: codec file_header_encode file_header_decode "\<lambda>_. 24"
proof -
  note u64 = u64.codec_axioms and u32 = u32.codec_axioms
  note all = codec_pair [OF u64 codec_pair [OF u32 codec_pair [OF u32 u64]]]
  show "codec file_header_encode file_header_decode (\<lambda>_. 24)"
    using codec_iso [OF all tuple_file_header]
    by (simp add: file_header_encode_def file_header_decode_def file_header_tuple_def [abs_def])
qed

lemma le_wal_lib_ok [simp]: "wal_lib_ok le_wal_lib"
  using wal_header.is_bincode wal_file_header.is_bincode
  by (simp add: wal_lib_ok_def le_wal_lib_def)

subsection \<open>Lemmas: writing\<close>

lemma wal_io_free [simp]:
  "wm_io s = [] \<Longrightarrow> wal_io_call e s = (Ok (), s)"
  "wm_io s = [] \<Longrightarrow> wal_append_bytes bs s = (Ok (), s\<lparr>wm_file := wm_file s @ bs\<rparr>)"
  by (simp_all add: wal_io_call_def wal_append_bytes_def wal_next_io_def)

lemma log_bytes_simps [simp]:
  "log_bytes L [] = []" "log_bytes L (r # rs) = wal_to_bytes L r @ log_bytes L rs"
  "log_bytes L (rs @ rs') = log_bytes L rs @ log_bytes L rs'"
  by (simp_all add: log_bytes_def)

lemma write_records_free:
  "wm_io s = [] \<Longrightarrow> write_records L rs s = (Ok (), s\<lparr>wm_file := wm_file s @ log_bytes L rs\<rparr>)"
  by (induction rs arbitrary: s) simp_all

lemma flush_buffer_free:
  assumes "wm_io s = []"
  shows "flush_buffer L s = (Ok (), s\<lparr>wm_buffer := [], wm_file := wm_file s @ log_bytes L (wm_buffer s)\<rparr>)"
  using assms by (cases "wm_buffer s = []") (auto simp: flush_buffer_def write_records_free)

lemma append_record_free:
  assumes "wm_io s = []"
  shows "\<exists>s'. append_record L r s = (Ok (wm_next_lsn s), s') \<and> wm_io s' = [] \<and>
    wm_next_lsn s' = wm_next_lsn s + 1 \<and>
    wm_file s' @ log_bytes L (wm_buffer s') = wm_file s @ log_bytes L (wm_buffer s) @
      wal_to_bytes L (r\<lparr>wr_header := (wr_header r)\<lparr>wh_lsn := wm_next_lsn s\<rparr>\<rparr>)"
  using assms by (auto simp: append_record_def Let_def flush_buffer_free)

lemma append_all_free:
  assumes "wm_io s = []"
  shows "\<exists>s'. append_all L rs s = (Ok (map (\<lambda>r. wh_lsn (wr_header r)) (numbered (wm_next_lsn s) rs)), s') \<and>
    wm_io s' = [] \<and> wm_next_lsn s' = wm_next_lsn s + of_nat (length rs) \<and>
    wm_file s' @ log_bytes L (wm_buffer s') =
      wm_file s @ log_bytes L (wm_buffer s) @ log_bytes L (numbered (wm_next_lsn s) rs)"
  using assms
proof (induction rs arbitrary: s)
  case Nil
  then show ?case by simp
next
  case (Cons r rs)
  obtain s1 where s1: "append_record L r s = (Ok (wm_next_lsn s), s1)" "wm_io s1 = []"
    "wm_next_lsn s1 = wm_next_lsn s + 1"
    "wm_file s1 @ log_bytes L (wm_buffer s1) = wm_file s @ log_bytes L (wm_buffer s) @
      wal_to_bytes L (r\<lparr>wr_header := (wr_header r)\<lparr>wh_lsn := wm_next_lsn s\<rparr>\<rparr>)"
    using append_record_free [OF Cons.prems] by blast
  from Cons.IH [OF s1(2)] obtain s2 where s2:
    "append_all L rs s1 = (Ok (map (\<lambda>r. wh_lsn (wr_header r)) (numbered (wm_next_lsn s1) rs)), s2)"
    "wm_io s2 = []" "wm_next_lsn s2 = wm_next_lsn s1 + of_nat (length rs)"
    "wm_file s2 @ log_bytes L (wm_buffer s2) =
      wm_file s1 @ log_bytes L (wm_buffer s1) @ log_bytes L (numbered (wm_next_lsn s1) rs)"
    by blast
  have "append_all L (r # rs) s = (Ok (wm_next_lsn s # map (\<lambda>r. wh_lsn (wr_header r))
      (numbered (wm_next_lsn s1) rs)), s2)"
    using s1(1) s2(1) by simp
  moreover have "wm_file s2 @ log_bytes L (wm_buffer s2) = (wm_file s @ log_bytes L (wm_buffer s) @
      wal_to_bytes L (r\<lparr>wr_header := (wr_header r)\<lparr>wh_lsn := wm_next_lsn s\<rparr>\<rparr>)) @
      log_bytes L (numbered (wm_next_lsn s1) rs)"
    by (simp only: s2(4) append_assoc [symmetric] s1(4))
  ultimately show ?case using s1(3) s2(2,3) by simp
qed

lemma length_numbered [simp]: "length (numbered n rs) = length rs"
  by (induction rs arbitrary: n) auto

lemma numbered_lsn: "i < length rs \<Longrightarrow> wh_lsn (wr_header (numbered n rs ! i)) = n + of_nat i"
proof (induction rs arbitrary: n i)
  case (Cons r rs)
  then show ?case by (cases i) (simp_all add: add.assoc)
qed simp

subsection \<open>Lemmas: reading\<close>

lemma wal_libD:
  assumes "wal_lib_ok L"
  shows "wl_de_header L (wl_header L h @ rest) = Some h"
    "length (wl_header L h) = wal_header_width h"
    "n < wal_header_width h \<Longrightarrow> wl_de_header L (take n (wl_header L h @ rest)) = None"
    "wl_de_file_header L (wl_file_header L f @ rest) = Some f"
    "length (wl_file_header L f) = 24"
proof -
  have h: "bincode (wl_header L) (wl_de_header L) wal_header_width"
    and f: "bincode (wl_file_header L) (wl_de_file_header L) (\<lambda>_. 24)"
    using assms by (simp_all add: wal_lib_ok_def)
  show "wl_de_header L (wl_header L h @ rest) = Some h" by (rule bincode.de_ser_append [OF h])
  show "length (wl_header L h) = wal_header_width h" by (rule bincode.length_ser [OF h])
  show "n < wal_header_width h \<Longrightarrow> wl_de_header L (take n (wl_header L h @ rest)) = None"
    by (rule bincode.de_cut [OF h])
  show "wl_de_file_header L (wl_file_header L f @ rest) = Some f" by (rule bincode.de_ser_append [OF f])
  show "length (wl_file_header L f) = 24" by (rule bincode.length_ser [OF f])
qed

lemma empty_header_width: "wal_lib_ok L \<Longrightarrow> length (wl_header L empty_header) = 29"
  by (simp add: wal_libD(2) wal_header_width_def empty_header_def opt_size_def)

lemma update_checksum_header [simp]:
  "wh_lsn (wr_header (wal_update_checksum L r)) = wh_lsn (wr_header r)"
  "wh_prev_lsn (wr_header (wal_update_checksum L r)) = wh_prev_lsn (wr_header r)"
  "wh_data_size (wr_header (wal_update_checksum L r)) = wh_data_size (wr_header r)"
  "wh_record_type (wr_header (wal_update_checksum L r)) = wh_record_type (wr_header r)"
  "wh_transaction_id (wr_header (wal_update_checksum L r)) = wh_transaction_id (wr_header r)"
  "wr_data (wal_update_checksum L r) = wr_data r"
  by (simp_all add: wal_update_checksum_def Let_def)

lemma plain_bytes:
  assumes "wal_lib_ok L" "plain_record r"
  shows "wal_to_bytes L r = wl_header L (wr_header (wal_update_checksum L r))"
    "length (wl_header L (wr_header (wal_update_checksum L r))) = 29"
  using assms by (simp_all add: wal_to_bytes_def plain_record_def data_bytes_def wal_libD
      wal_header_width_def opt_size_def Let_def)

lemma scan_plain:
  assumes "wal_lib_ok L" "plain_record r"
  shows "scan_records L (wal_to_bytes L r @ rest) n = scan_records L rest (wh_lsn (wr_header r) + 1)"
proof -
  let ?h = "wr_header (wal_update_checksum L r)"
  have "length (wl_header L ?h) = 29" by (rule plain_bytes(2) [OF assms])
  moreover from this have "wl_header L ?h \<noteq> []" by auto
  moreover have "wl_de_header L (wl_header L ?h) = Some ?h"
    using wal_libD(1) [OF assms(1), of ?h "[]"] by simp
  ultimately show ?thesis
    using assms(2) by (subst scan_records.simps)
      (simp add: plain_bytes(1) [OF assms] empty_header_width [OF assms(1)] plain_record_def Let_def)
qed

lemma scan_plain_all:
  assumes "wal_lib_ok L" "\<forall>r \<in> set rs. plain_record r"
  shows "scan_records L (log_bytes L rs @ rest) n =
    scan_records L rest (if rs = [] then n else wh_lsn (wr_header (last rs)) + 1)"
  using assms(2) by (induction rs arbitrary: n) (simp_all add: scan_plain [OF assms(1)])

lemma scan_linked:
  assumes "wal_lib_ok L" "wh_prev_lsn (wr_header r) \<noteq> None"
  shows "scan_records L (wal_to_bytes L r @ rest) n = Err (SerializationError ''bincode'')"
proof -
  let ?h = "wr_header (wal_update_checksum L r)"
  have w: "length (wl_header L ?h) = 37"
    using assms by (auto simp: wal_libD wal_header_width_def opt_size_def)
  have "wl_de_header L (take 29 (wl_header L ?h)) = None"
    using wal_libD(3) [OF assms(1), of 29 ?h "[]"] w wal_libD(2) [OF assms(1), of ?h] by simp
  moreover have "take 29 (wl_header L ?h) \<noteq> []" using w by auto
  ultimately show ?thesis
    using w by (subst scan_records.simps)
      (simp add: empty_header_width [OF assms(1)] wal_to_bytes_def Let_def)
qed

lemma wal_open_scan:
  assumes "wal_lib_ok L"
  shows "wal_open L (wl_file_header L (WALHeader_new ps) @ log) =
    res_bind (scan_records L log 0) (\<lambda>n. Ok \<lparr>wm_file = wl_file_header L (WALHeader_new ps) @ log,
      wm_next_lsn = n, wm_buffer = [], wm_buffer_size = 1000, wm_fsync_enabled = True, wm_io = []\<rparr>)"
  using wal_libD(4) [OF assms, of "WALHeader_new ps" "[]"]
  by (simp add: wal_open_def wal_libD(5) [OF assms] Let_def) (simp add: WALHeader_new_def)

lemma from_bytes_plain:
  assumes "wal_lib_ok L" "plain_record r"
  shows "wal_from_bytes L (wal_to_bytes L r) = Ok (wal_update_checksum L r)"
proof -
  let ?h = "wr_header (wal_update_checksum L r)"
  have "length (wl_header L ?h) = 29" by (rule plain_bytes(2) [OF assms])
  moreover from this have "wl_header L ?h \<noteq> []" by auto
  moreover have "wl_de_header L (wl_header L ?h) = Some ?h"
    using wal_libD(1) [OF assms(1), of ?h "[]"] by simp
  ultimately show ?thesis
    using assms(2) by (simp add: wal_from_bytes_def plain_bytes(1) [OF assms]
        empty_header_width [OF assms(1)] plain_record_def Let_def)
qed

lemma from_bytes_linked:
  assumes "wal_lib_ok L" "wh_prev_lsn (wr_header r) \<noteq> None"
  shows "wal_from_bytes L (wal_to_bytes L r) = Err (SerializationError ''bincode'')"
proof -
  let ?h = "wr_header (wal_update_checksum L r)"
  have w: "length (wl_header L ?h) = 37"
    using assms by (auto simp: wal_libD wal_header_width_def opt_size_def)
  then have "wl_header L ?h \<noteq> []" by auto
  moreover have "wl_de_header L (take 29 (wl_header L ?h)) = None"
    using wal_libD(3) [OF assms(1), of 29 ?h "[]"] w wal_libD(2) [OF assms(1), of ?h] by simp
  ultimately show ?thesis
    using w by (simp add: wal_from_bytes_def wal_to_bytes_def empty_header_width [OF assms(1)] Let_def)
qed

lemma buffer_unchanged:
  "wm_buffer (snd (wal_io_call e s)) = wm_buffer s" "wm_buffer (snd (wal_append_bytes bs s)) = wm_buffer s"
  by (auto simp: wal_io_call_def wal_append_bytes_def wal_next_io_def split: list.splits io_outcome.splits)

lemma write_records_buffer: "wm_buffer (snd (write_records L rs s)) = wm_buffer s"
proof (induction rs arbitrary: s)
  case (Cons r rs)
  obtain x s1 where x: "wal_append_bytes (wal_to_bytes L r) s = (x, s1)" by fastforce
  then show ?case
    using Cons.IH [of s1] buffer_unchanged(2) [of "wal_to_bytes L r" s] by (cases x) simp_all
qed simp

lemma st_bind_buffer:
  assumes "\<And>s. wm_buffer (snd (m s)) = wm_buffer s" "\<And>x s. wm_buffer (snd (f x s)) = wm_buffer s"
  shows "wm_buffer (snd (st_bind m f s)) = wm_buffer s"
proof -
  obtain r s1 where "m s = (r, s1)" by fastforce
  then show ?thesis using assms(1) [of s] assms(2) by (cases r) auto
qed

lemma flush_buffer_empties: "wm_buffer (snd (flush_buffer L s)) = []"
proof -
  let ?m = "st_bind (wal_io_call (IoError ''seek'')) (\<lambda>_.
      st_bind (write_records L (wm_buffer s)) (\<lambda>_. st_bind (wal_io_call (IoError ''flush'')) (\<lambda>_.
      if wm_fsync_enabled s then wal_io_call (IoError ''sync'') else st_return ())))"
  have "wm_buffer (snd (?m t)) = wm_buffer t" for t
    by (intro st_bind_buffer) (auto simp: buffer_unchanged write_records_buffer)
  then show ?thesis by (simp add: flush_buffer_def Let_def)
qed

lemma wal_create_free:
  "wal_create L ps [] = (Ok (), \<lparr>wm_file = wl_file_header L (WALHeader_new ps), wm_next_lsn = 1,
     wm_buffer = [], wm_buffer_size = 1000, wm_fsync_enabled = True, wm_io = []\<rparr>)"
  by (simp add: wal_create_def)

lemma plain_set_lsn:
  "plain_record (r\<lparr>wr_header := (wr_header r)\<lparr>wh_lsn := n\<rparr>\<rparr>) = plain_record r"
  by (simp add: plain_record_def)

lemma plain_numbered: "\<forall>r \<in> set rs. plain_record r \<Longrightarrow> \<forall>r \<in> set (numbered n rs). plain_record r"
  by (induction rs arbitrary: n) (simp_all add: plain_set_lsn)

lemma last_numbered:
  "rs \<noteq> [] \<Longrightarrow> wh_lsn (wr_header (last (numbered n rs))) + 1 = n + of_nat (length rs)"
  by (subst last_conv_nth) (auto simp: numbered_lsn length_greater_0_conv [symmetric] of_nat_diff
      simp del: length_greater_0_conv)

subsection \<open>Properties\<close>

text \<open>
  C5. The log is written in order. While the operating system reports no error, appending any list
  of records returns consecutive sequence numbers, starting with the manager's next number, whatever the
  buffer size and however often the buffer was flushed on the way; after a final flush the file is
  its old contents, the records that were buffered before, and the appended records with those
  numbers, in the order in which they were appended.
\<close>

theorem wal_log_in_order:
  assumes "wm_io s = []" "append_all L rs s = (r, s1)" "flush_buffer L s1 = (r2, s2)"
  shows "r = Ok (map (\<lambda>i. wm_next_lsn s + of_nat i) [0..<length rs]) \<and> r2 = Ok () \<and>
    wm_next_lsn s2 = wm_next_lsn s + of_nat (length rs) \<and> wm_buffer s2 = [] \<and>
    wm_file s2 = wm_file s @ log_bytes L (wm_buffer s) @ log_bytes L (numbered (wm_next_lsn s) rs)"
proof -
  have "map (\<lambda>r. wh_lsn (wr_header r)) (numbered (wm_next_lsn s) rs)
      = map (\<lambda>i. wm_next_lsn s + of_nat i) [0..<length rs]"
    by (rule nth_equalityI) (simp_all add: numbered_lsn)
  moreover obtain s1' where a: "append_all L rs s =
      (Ok (map (\<lambda>r. wh_lsn (wr_header r)) (numbered (wm_next_lsn s) rs)), s1')" "wm_io s1' = []"
    "wm_next_lsn s1' = wm_next_lsn s + of_nat (length rs)"
    "wm_file s1' @ log_bytes L (wm_buffer s1') =
      wm_file s @ log_bytes L (wm_buffer s) @ log_bytes L (numbered (wm_next_lsn s) rs)"
    using append_all_free [OF assms(1), of L rs] by blast
  moreover have "s1' = s1" "r = Ok (map (\<lambda>r. wh_lsn (wr_header r)) (numbered (wm_next_lsn s) rs))"
    using assms(2) a(1) by simp_all
  moreover have "r2 = Ok ()" "s2 = s1'\<lparr>wm_buffer := [], wm_file := wm_file s1' @ log_bytes L (wm_buffer s1')\<rparr>"
    using assms(3) flush_buffer_free [OF a(2), of L] \<open>s1' = s1\<close> by simp_all
  ultimately show ?thesis by simp
qed

theorem wal_log_in_order_witness:
  "let s = snd (wal_create le_wal_lib 8192 []); rs = [wal_begin 1 0, wal_commit 1 0 (Some 1)]
   in fst (append_all le_wal_lib rs s) = Ok [1, 2] \<and>
      wm_file (snd (flush_buffer le_wal_lib (snd (append_all le_wal_lib rs s))))
        = file_header_encode (WALHeader_new 8192) @ log_bytes le_wal_lib (numbered 1 rs)"
proof -
  let ?s = "snd (wal_create le_wal_lib 8192 [])"
  let ?rs = "[wal_begin 1 0, wal_commit 1 0 (Some 1)]"
  have "wm_io ?s = []" by (simp add: wal_create_free)
  from wal_log_in_order [OF this, of le_wal_lib ?rs "fst (append_all le_wal_lib ?rs ?s)"
      "snd (append_all le_wal_lib ?rs ?s)" "fst (flush_buffer le_wal_lib (snd (append_all le_wal_lib ?rs ?s)))"
      "snd (flush_buffer le_wal_lib (snd (append_all le_wal_lib ?rs ?s)))"]
  have "fst (append_all le_wal_lib ?rs ?s) = Ok [1, 2] \<and>
      wm_file (snd (flush_buffer le_wal_lib (snd (append_all le_wal_lib ?rs ?s)))) =
      wm_file ?s @ log_bytes le_wal_lib (wm_buffer ?s) @ log_bytes le_wal_lib (numbered (wm_next_lsn ?s) ?rs)"
    by (simp add: wal_create_free)
  then show ?thesis
    unfolding Let_def by (simp add: wal_create_free del: append_all.simps) (simp add: le_wal_lib_def)
qed

text \<open>
  Reopening a log of records that have neither data nor a previous record. After creating a log,
  appending such records and flushing them, opening the file finds the number after the last one.
  For a log without records it finds 0, although a new log starts with 1 because 0 is reserved.
\<close>

theorem wal_reopen_next_lsn:
  assumes "wal_lib_ok L" "wal_create L ps [] = (r0, s0)" "\<forall>r \<in> set rs. plain_record r"
    and "append_all L rs s0 = (r1, s1)" "flush_buffer L s1 = (r2, s2)"
  shows "\<exists>s3. wal_open L (wm_file s2) = Ok s3 \<and>
    get_next_lsn s3 = (if rs = [] then 0 else 1 + of_nat (length rs)) \<and>
    get_next_lsn s2 = 1 + of_nat (length rs)"
proof -
  have s0: "wm_io s0 = []" "wm_next_lsn s0 = 1" "wm_buffer s0 = []"
    "wm_file s0 = wl_file_header L (WALHeader_new ps)"
    using assms(2) by (auto simp: wal_create_free)
  obtain s1' where s1: "append_all L rs s0 = (Ok (map (\<lambda>r. wh_lsn (wr_header r)) (numbered 1 rs)), s1')"
    "wm_io s1' = []" "wm_next_lsn s1' = 1 + of_nat (length rs)"
    "wm_file s1' @ log_bytes L (wm_buffer s1') = wl_file_header L (WALHeader_new ps) @ log_bytes L (numbered 1 rs)"
    using append_all_free [OF s0(1), of L rs] s0 by auto
  then have f: "wm_file s2 = wl_file_header L (WALHeader_new ps) @ log_bytes L (numbered 1 rs)"
    "wm_next_lsn s2 = 1 + of_nat (length rs)"
    using assms(4,5) flush_buffer_free [of s1 L] by auto
  have ne: "numbered 1 rs = [] \<longleftrightarrow> rs = []" by (cases rs) auto
  have "scan_records L (log_bytes L (numbered 1 rs) @ []) 0
      = scan_records L [] (if rs = [] then 0 else 1 + of_nat (length rs))"
    using scan_plain_all [OF assms(1) plain_numbered [OF assms(3)], of 1 "[]" 0] last_numbered [of rs 1]
    by (simp add: ne add.commute)
  then have "scan_records L (log_bytes L (numbered 1 rs)) 0 = Ok (if rs = [] then 0 else 1 + of_nat (length rs))"
    by (simp add: scan_records.simps [of L "[]"])
  then show ?thesis
    using wal_open_scan [OF assms(1)] f by (simp add: get_next_lsn_def)
qed

theorem wal_reopen_next_lsn_witness:
  "\<exists>s3. wal_open le_wal_lib (wm_file (snd (flush_buffer le_wal_lib (snd (append_all le_wal_lib [wal_begin 5 0]
     (snd (wal_create le_wal_lib 8192 []))))))) = Ok s3 \<and> get_next_lsn s3 = 2"
  using wal_reopen_next_lsn [OF le_wal_lib_ok prod.collapse [symmetric] _ prod.collapse [symmetric]
      prod.collapse [symmetric], of "[wal_begin 5 0]" 8192]
  by (auto simp: plain_record_def wal_begin_def control_record_def simp del: append_all.simps)

text \<open>
  A log that holds a record with a previous record cannot be opened. The header of such a record
  is eight bytes longer than the header the scan assumes, so that after any number of records
  without a link the first linked one, for example the commit of a transaction, makes \<^verbatim>\<open>open\<close> fail.
\<close>

theorem wal_reopen_linked_fails:
  assumes "wal_lib_ok L" "\<forall>r \<in> set rs. plain_record r" "wh_prev_lsn (wr_header r) \<noteq> None"
  shows "wal_open L (wl_file_header L (WALHeader_new ps) @ log_bytes L rs @ wal_to_bytes L r @ rest)
    = Err (SerializationError ''bincode'')"
  using scan_plain_all [OF assms(1,2)] scan_linked [OF assms(1,3)] by (simp add: wal_open_scan [OF assms(1)])

theorem wal_reopen_linked_fails_witness:
  "wal_open le_wal_lib (wl_file_header le_wal_lib (WALHeader_new 8192) @ log_bytes le_wal_lib [wal_begin 1 1] @
     wal_to_bytes le_wal_lib (wal_commit 1 2 (Some 1)) @ []) = Err (SerializationError ''bincode'')"
  by (rule wal_reopen_linked_fails) (simp_all add: plain_record_def wal_begin_def wal_commit_def control_record_def)

text \<open>
  Encoding and decoding one record. A record without data and without a previous record is
  decoded to itself with its checksum filled in; a record with a previous record, whatever its type
  and data, is refused.
\<close>

theorem wal_record_roundtrip:
  assumes "wal_lib_ok L"
  shows "(plain_record r \<longrightarrow> wal_from_bytes L (wal_to_bytes L r) = Ok (wal_update_checksum L r)) \<and>
    (wh_prev_lsn (wr_header r) \<noteq> None \<longrightarrow>
       wal_from_bytes L (wal_to_bytes L r) = Err (SerializationError ''bincode''))"
  using from_bytes_plain [OF assms] from_bytes_linked [OF assms] by blast

theorem wal_record_roundtrip_witness:
  "wal_from_bytes le_wal_lib (wal_to_bytes le_wal_lib (wal_begin 1 100))
     = Ok (wal_update_checksum le_wal_lib (wal_begin 1 100)) \<and>
   wal_from_bytes le_wal_lib (wal_to_bytes le_wal_lib (wal_commit 1 101 (Some 100)))
     = Err (SerializationError ''bincode'')"
  using wal_record_roundtrip [OF le_wal_lib_ok, of "wal_begin 1 100"]
    wal_record_roundtrip [OF le_wal_lib_ok, of "wal_commit 1 101 (Some 100)"]
  by (simp add: plain_record_def wal_begin_def wal_commit_def control_record_def)

text \<open>
  The checksum of a record covers nothing. The digest is finalised without any input: a record
  whose checksum was just updated still verifies after its data, its number, its transaction or its type have been replaced
  by anything else.
\<close>

theorem wal_checksum_ignores_contents:
  assumes "wh_checksum (wr_header r) = 0"
  shows "wal_verify L ((wal_update_checksum L r)\<lparr>wr_data := d,
    wr_header := (wr_header (wal_update_checksum L r))\<lparr>wh_lsn := n, wh_transaction_id := t,
      wh_record_type := ty, wh_data_size := sz\<rparr>\<rparr>)"
  using assms by (simp add: wal_verify_def wal_update_checksum_def Let_def)

theorem wal_checksum_ignores_contents_witness:
  "wal_verify le_wal_lib ((wal_update_checksum le_wal_lib (wal_update le_wal_lib 1 100 None 42 10 [1] [2]))\<lparr>
     wr_data := None, wr_header := (wr_header (wal_update_checksum le_wal_lib
       (wal_update le_wal_lib 1 100 None 42 10 [1] [2])))\<lparr>wh_lsn := 7, wh_transaction_id := 9,
         wh_record_type := WBegin, wh_data_size := 0\<rparr>\<rparr>)"
  by (rule wal_checksum_ignores_contents) (simp add: wal_update_def modify_record_def)

text \<open>
  A failed flush loses the buffered records. \<^verbatim>\<open>flush_buffer\<close> empties the buffer before it writes: when
  a system call fails, the records are in neither the buffer nor, if the first call fails, the file,
  and the next flush reports success without writing anything.
\<close>

theorem failed_flush_loses_records:
  assumes "wm_buffer s \<noteq> []" "wm_io s = IoFail k # io"
  shows "\<exists>s'. flush_buffer L s = (Err (IoError ''seek''), s') \<and> wm_buffer s' = [] \<and>
    wm_file s' = wm_file s \<and> flush_buffer L s' = (Ok (), s')"
proof -
  let ?s = "s\<lparr>wm_buffer := [], wm_io := io\<rparr>"
  have "flush_buffer L s = (Err (IoError ''seek''), ?s)"
    using assms by (simp add: flush_buffer_def wal_io_call_def wal_next_io_def Let_def)
  moreover have "flush_buffer L ?s = (Ok (), ?s)" by (simp add: flush_buffer_def)
  ultimately show ?thesis by simp
qed

theorem failed_flush_loses_records_witness:
  "\<exists>s'. flush_buffer le_wal_lib \<lparr>wm_file = [], wm_next_lsn = 2, wm_buffer = [wal_begin 1 1],
      wm_buffer_size = 1000, wm_fsync_enabled = True, wm_io = [IoFail 0]\<rparr> = (Err (IoError ''seek''), s') \<and>
    wm_buffer s' = []"
  using failed_flush_loses_records [of "\<lparr>wm_file = [], wm_next_lsn = 2, wm_buffer = [wal_begin 1 1],
      wm_buffer_size = 1000, wm_fsync_enabled = True, wm_io = [IoFail 0]\<rparr>" 0 "[]" le_wal_lib] by auto

end
