(* ===== verification/Txn_Manager.thy ===== *)
theory Txn_Manager
  imports Mvcc Wal Catalog
begin

section \<open>Transactions (\<^verbatim>\<open>src/src/transaction/manager.rs\<close>)\<close>

text \<open>
  The transaction manager combines the MVCC manager, the write-ahead log, which is optional, and the
  catalog, whose table manager restores deleted rows on rollback. The encoding of the restore
  information is a parameter. The map of modified pages is iterated in list order, which stands for
  the order Rust leaves unspecified.

  The lemmas show the invariant of the table of active transactions under every sequence of
  operations, and what a commit and a rollback do to the log, the versions and the rows.
\<close>

subsection \<open>Data\<close>

record DeleteRestoreInfo =
  dri_table_name :: string
  dri_row_index :: nat
  dri_old_row_data :: row

datatype IsolationLevel = ReadUncommitted | ReadCommitted | RepeatableRead | Serializable

datatype TransactionState = TxActive | TxPreparing | TxCommitted | TxAborted

record Transaction =
  tx_id :: TransactionId
  tx_state :: TransactionState
  tx_snapshot :: "Snapshot option"
  tx_isolation_level :: IsolationLevel
  tx_start_ts :: u64
  tx_last_lsn :: "LSN option"
  tx_modified_pages :: "(PageId, bytes) hmap"

record 'fm TransactionManager =
  xm_next_transaction_id :: TransactionId
  xm_active :: "(TransactionId, Transaction) hmap"
  xm_wal :: "WALManager option"
  xm_mvcc :: MVCCManager
  xm_catalog :: "'fm CatalogManager option"

record TransactionStats =
  ts_active_transactions :: nat
  ts_next_transaction_id :: TransactionId
  ts_mvcc_stats :: MVCCStats

record CleanupResult =
  cr_removed_versions :: nat
  cr_vacuum_timestamp :: u64

record txn_lib =
  xl_wal :: wal_lib
  xl_serialize :: "DeleteRestoreInfo \<Rightarrow> bytes"
  xl_deserialize :: "bytes \<Rightarrow> DeleteRestoreInfo option"

type_synonym ('fm, 'a) xm_op = "('fm TransactionManager, 'a) op"

subsection \<open>Transactions\<close>

definition Transaction_new :: "TransactionId \<Rightarrow> IsolationLevel \<Rightarrow> u64 \<Rightarrow> Transaction" where
  "Transaction_new i isolation_level start_ts =
     \<lparr>tx_id = i, tx_state = TxActive, tx_snapshot = None, tx_isolation_level = isolation_level,
      tx_start_ts = start_ts, tx_last_lsn = None, tx_modified_pages = []\<rparr>"

definition tx_is_active :: "Transaction \<Rightarrow> bool" where
  "tx_is_active t = (tx_state t = TxActive)"

definition add_modified_page :: "PageId \<Rightarrow> bytes \<Rightarrow> Transaction \<Rightarrow> Transaction" where
  "add_modified_page page_id old_data t =
     t\<lparr>tx_modified_pages := hm_insert page_id old_data (tx_modified_pages t)\<rparr>"

definition get_modified_page :: "Transaction \<Rightarrow> PageId \<Rightarrow> bytes option" where
  "get_modified_page t page_id = hm_get (tx_modified_pages t) page_id"

subsection \<open>The manager\<close>

definition TransactionManager_new :: "'fm TransactionManager" where
  "TransactionManager_new = \<lparr>xm_next_transaction_id = 1, xm_active = [], xm_wal = None,
     xm_mvcc = MVCCManager_new, xm_catalog = None\<rparr>"

definition with_wal :: "WALManager \<Rightarrow> 'fm TransactionManager" where
  "with_wal wal = \<lparr>xm_next_transaction_id = 1, xm_active = [], xm_wal = Some wal,
     xm_mvcc = MVCCManager_new, xm_catalog = None\<rparr>"

definition set_catalog :: "'fm CatalogManager \<Rightarrow> 'fm TransactionManager \<Rightarrow> 'fm TransactionManager" where
  "set_catalog c s = s\<lparr>xm_catalog := Some c\<rparr>"

text \<open>What runs on the log when there is one.\<close>

definition on_wal :: "(WALManager, 'a) op \<Rightarrow> ('fm, 'a option) xm_op" where
  "on_wal m s =
     (case xm_wal s of
        None \<Rightarrow> (Ok None, s)
      | Some w \<Rightarrow> (case m w of
            (Ok x, w1) \<Rightarrow> (Ok (Some x), s\<lparr>xm_wal := Some w1\<rparr>)
          | (r, w1) \<Rightarrow> (res_cast r, s\<lparr>xm_wal := Some w1\<rparr>)))"

definition append_and_flush :: "wal_lib \<Rightarrow> WALRecord \<Rightarrow> (WALManager, LSN) op" where
  "append_and_flush L record =
     st_bind (append_record L record) (\<lambda>lsn. st_bind (flush_buffer L) (\<lambda>_. st_return lsn))"

definition begin_transaction :: "txn_lib \<Rightarrow> IsolationLevel \<Rightarrow> ('fm, TransactionId) xm_op" where
  "begin_transaction X isolation_level s =
     (let transaction_id = xm_next_transaction_id s;
          (snapshot1, mvcc1) = mvcc_begin transaction_id (xm_mvcc s);
          transaction = Transaction_new transaction_id isolation_level (snap_timestamp snapshot1);
          (snapshot, mvcc2) = mvcc_begin transaction_id mvcc1;
          s1 = s\<lparr>xm_next_transaction_id := xm_next_transaction_id s + 1, xm_mvcc := mvcc2,
                 xm_active := hm_insert transaction_id (transaction\<lparr>tx_snapshot := Some snapshot\<rparr>) (xm_active s)\<rparr>
      in st_bind (on_wal (append_record (xl_wal X) (wal_begin transaction_id 0)))
           (\<lambda>_. st_return transaction_id) s1)"

definition commit_transaction :: "txn_lib \<Rightarrow> TransactionId \<Rightarrow> ('fm, unit) xm_op" where
  "commit_transaction X transaction_id s =
     (case hm_get (xm_active s) transaction_id of
        None \<Rightarrow> (Err (TransactionError ''Transaction not found''), s)
      | Some transaction \<Rightarrow>
          (case tx_snapshot transaction of
             None \<Rightarrow> (Panic ''unwrap on None'', s\<lparr>xm_active := hm_remove transaction_id (xm_active s)\<rparr>)
           | Some snapshot \<Rightarrow>
               st_bind (on_wal (append_and_flush (xl_wal X)
                   (wal_commit transaction_id 0 (tx_last_lsn transaction)))) (\<lambda>commit_lsn.
               st_bind (st_update (\<lambda>s. s\<lparr>xm_mvcc :=
                   snd (mvcc_commit transaction_id (snap_timestamp snapshot) (xm_mvcc s))\<rparr>)) (\<lambda>_.
               st_bind (case commit_lsn of
                   None \<Rightarrow> st_return None
                 | Some lsn \<Rightarrow> on_wal (append_and_flush (xl_wal X)
                     (wal_commit transaction_id lsn (Some (lsn - 1))))) (\<lambda>_.
               st_return ())))
               (s\<lparr>xm_active := hm_remove transaction_id (xm_active s)\<rparr>)))"

text \<open>One modified page of a rollback: failures are logged and skipped.\<close>

definition restore_page :: "txn_lib \<Rightarrow> bytes \<Rightarrow> 'fm TransactionManager \<Rightarrow> 'fm TransactionManager" where
  "restore_page X old_data s =
     (case xl_deserialize X old_data of
        None \<Rightarrow> s
      | Some info \<Rightarrow>
          (case xm_catalog s of
             None \<Rightarrow> s
           | Some catalog \<Rightarrow> s\<lparr>xm_catalog := Some (snd (on_tables
               (restore_row (dri_table_name info) (dri_row_index info) (dri_old_row_data info)) catalog))\<rparr>))"

definition rollback_transaction :: "txn_lib \<Rightarrow> TransactionId \<Rightarrow> ('fm, unit) xm_op" where
  "rollback_transaction X transaction_id s =
     (case hm_get (xm_active s) transaction_id of
        None \<Rightarrow> (Err (TransactionError ''Transaction not found''), s)
      | Some transaction \<Rightarrow>
          (let s1 = s\<lparr>xm_active := hm_remove transaction_id (xm_active s)\<rparr>
           in case tx_snapshot transaction of
                None \<Rightarrow> (Panic ''unwrap on None'', s1)
              | Some snapshot \<Rightarrow>
                  st_bind (on_wal (append_and_flush (xl_wal X)
                      (wal_abort transaction_id 0 (tx_last_lsn transaction)))) (\<lambda>_.
                  st_bind (st_update (fold (\<lambda>(page_id, old_data). restore_page X old_data)
                      (tx_modified_pages transaction))) (\<lambda>_.
                  st_update (\<lambda>s. s\<lparr>xm_mvcc := mvcc_abort transaction_id (xm_mvcc s)\<rparr>))) s1))"

definition get_transaction :: "TransactionId \<Rightarrow> 'fm TransactionManager \<Rightarrow> Transaction option" where
  "get_transaction transaction_id s = hm_get (xm_active s) transaction_id"

definition is_transaction_active :: "TransactionId \<Rightarrow> 'fm TransactionManager \<Rightarrow> bool" where
  "is_transaction_active transaction_id s = hm_contains (xm_active s) transaction_id"

definition modify_transaction ::
    "TransactionId \<Rightarrow> (Transaction \<Rightarrow> Transaction) \<Rightarrow> 'fm TransactionManager \<Rightarrow> 'fm TransactionManager" where
  "modify_transaction transaction_id f s = s\<lparr>xm_active := hm_modify transaction_id f (xm_active s)\<rparr>"

text \<open>Appending a record and remembering its number in the transaction.\<close>

definition log_record :: "txn_lib \<Rightarrow> TransactionId \<Rightarrow> WALRecord \<Rightarrow> ('fm, unit) xm_op" where
  "log_record X transaction_id record =
     st_bind (on_wal (append_record (xl_wal X) record)) (\<lambda>lsn.
     st_update (\<lambda>s. case lsn of None \<Rightarrow> s
       | Some lsn \<Rightarrow> modify_transaction transaction_id (\<lambda>t. t\<lparr>tx_last_lsn := Some lsn\<rparr>) s))"

definition log_modify ::
    "txn_lib \<Rightarrow> TransactionId \<Rightarrow> PageId \<Rightarrow> usize \<Rightarrow> bytes option \<Rightarrow> bytes \<Rightarrow> ('fm, unit) xm_op" where
  "log_modify X transaction_id page_id offset old_data new_data s =
     (let s1 = (case old_data of None \<Rightarrow> s
                | Some old \<Rightarrow> modify_transaction transaction_id (add_modified_page page_id old) s);
          record = (case old_data of
              Some old \<Rightarrow> wal_update (xl_wal X) transaction_id 0 None page_id offset old new_data
            | None \<Rightarrow> wal_insert (xl_wal X) transaction_id 0 None page_id offset new_data)
      in log_record X transaction_id record s1)"

definition log_delete :: "txn_lib \<Rightarrow> TransactionId \<Rightarrow> string \<Rightarrow> nat \<Rightarrow> row \<Rightarrow> ('fm, unit) xm_op" where
  "log_delete X transaction_id table_name row_index old_row_data s =
     (let old_data = xl_serialize X \<lparr>dri_table_name = table_name, dri_row_index = row_index,
            dri_old_row_data = old_row_data\<rparr>;
          page_id = of_nat row_index;
          s1 = modify_transaction transaction_id (add_modified_page page_id old_data) s
      in log_record X transaction_id
           (wal_delete (xl_wal X) transaction_id 0 None page_id (of_nat row_index) old_data) s1)"

definition txn_get_stats :: "'fm TransactionManager \<Rightarrow> TransactionStats" where
  "txn_get_stats s = \<lparr>ts_active_transactions = length (xm_active s),
     ts_next_transaction_id = xm_next_transaction_id s, ts_mvcc_stats = mvcc_get_stats (xm_mvcc s)\<rparr>"

text \<open>The smallest timestamp of the active snapshots, or the default.\<close>

definition oldest_snapshot :: "u64 \<Rightarrow> Transaction list \<Rightarrow> u64 res" where
  "oldest_snapshot dflt ts =
     (if list_ex (\<lambda>t. tx_snapshot t = None) ts then Panic ''unwrap on None''
      else case map (\<lambda>t. snap_timestamp (the (tx_snapshot t))) ts of
             [] \<Rightarrow> Ok dflt
           | x # xs \<Rightarrow> Ok (fold min xs x))"

definition cleanup :: "('fm, CleanupResult) xm_op" where
  "cleanup s =
     (case oldest_snapshot (current_timestamp (mvcc_get_stats (xm_mvcc s))) (hm_values (xm_active s)) of
        Ok oldest \<Rightarrow>
          (case vacuum oldest (xm_mvcc s) of
             (Ok removed, mvcc) \<Rightarrow> (Ok \<lparr>cr_removed_versions = removed, cr_vacuum_timestamp = oldest\<rparr>,
                 s\<lparr>xm_mvcc := mvcc\<rparr>)
           | (r, mvcc) \<Rightarrow> (res_cast r, s\<lparr>xm_mvcc := mvcc\<rparr>))
      | r \<Rightarrow> (res_cast r, s))"

definition checkpoint :: "txn_lib \<Rightarrow> ('fm, unit) xm_op" where
  "checkpoint X =
     st_bind (on_wal (\<lambda>w. wal_checkpoint (xl_wal X) (get_next_lsn w) w)) (\<lambda>_. st_return ())"

text \<open>
  Deleting one row of a DELETE statement (\<^verbatim>\<open>DeleteOperator::delete_row_data\<close>), on the catalog the database
  shares with its transaction manager.
\<close>

definition on_catalog :: "('fm CatalogManager, 'a) op \<Rightarrow> ('fm, 'a) xm_op" where
  "on_catalog m s =
     (case xm_catalog s of
        None \<Rightarrow> (Panic ''no catalog'', s)
      | Some c \<Rightarrow> (case m c of (r, c1) \<Rightarrow> (r, s\<lparr>xm_catalog := Some c1\<rparr>)))"

definition delete_row_data ::
    "txn_lib \<Rightarrow> 'fm tm_lib \<Rightarrow> string \<Rightarrow> TransactionId option \<Rightarrow> nat option \<Rightarrow> ('fm, unit) xm_op" where
  "delete_row_data X E table_name transaction_id row_id =
     (case row_id of
        None \<Rightarrow> st_fail (ExecutionError ''Cannot delete row: row_id not set'')
      | Some row_index \<Rightarrow>
          st_bind (case transaction_id of
              None \<Rightarrow> st_return ()
            | Some tx \<Rightarrow>
                st_try (on_catalog (on_tables (\<lambda>t. (get_row table_name row_index t, t)))) (\<lambda>old_row.
                   case old_row of
                     None \<Rightarrow> st_return ()
                   | Some old_row_data \<Rightarrow>
                       st_try (log_delete X tx table_name row_index old_row_data) st_return
                         (\<lambda>_. st_fail (ExecutionError ''Failed to log deletion to transaction manager'')))
                  (\<lambda>_. st_fail (ExecutionError ''Failed to get old row data for transaction logging''))) (\<lambda>_.
          st_bind (on_catalog (on_tables (delete_row E table_name row_index))) (\<lambda>_. st_return ())))"

subsection \<open>Runs of the manager and the invariant\<close>

text \<open>
  An active transaction has a number below the counter, a snapshot, and is active in the MVCC manager.
\<close>

definition xm_inv :: "'fm TransactionManager \<Rightarrow> bool" where
  "xm_inv s \<longleftrightarrow> (\<forall>i t. hm_get (xm_active s) i = Some t \<longrightarrow>
     tx_id t = i \<and> tx_snapshot t \<noteq> None \<and> i < xm_next_transaction_id s \<and> i \<in> mvcc_active (xm_mvcc s)) \<and>
     hm_wf (xm_active s)"

text \<open>
  A concrete encoding: the index, the row as integers and the name, which suffices for rows of one
  integer.
\<close>

definition restore_encode :: "DeleteRestoreInfo \<Rightarrow> bytes" where
  "restore_encode info = of_nat (dri_row_index info) #
     (case dri_old_row_data info of IntegerV v # _ \<Rightarrow> ucast v | _ \<Rightarrow> 0) # map (\<lambda>c. of_nat (of_char c)) (dri_table_name info)"

fun restore_decode :: "bytes \<Rightarrow> DeleteRestoreInfo option" where
  "restore_decode (k # v # name) = Some \<lparr>dri_table_name = map (\<lambda>b. char_of (unat b)) name, dri_row_index = unat k,
     dri_old_row_data = [IntegerV (ucast v)]\<rparr>"
| "restore_decode _ = None"

definition le_txn_lib :: txn_lib where
  "le_txn_lib = \<lparr>xl_wal = le_wal_lib, xl_serialize = restore_encode, xl_deserialize = restore_decode\<rparr>"

text \<open>A manager on a catalog with the tables \<^verbatim>\<open>t\<close> and \<^verbatim>\<open>u\<close> of two rows each, with one transaction started.\<close>

definition sample_catalog :: "MockFileManager CatalogManager" where
  "sample_catalog = (CatalogManager_new :: MockFileManager CatalogManager)\<lparr>cm_table_manager :=
     set_rows ''u'' [[IntegerV 3], [IntegerV 4]] (set_rows ''t'' [[IntegerV 1], [IntegerV 2]]
       (snd (create_table [] ''u'' (snd (create_table [] ''t'' SystemTableManager_new)))))\<rparr>"

definition sample_manager :: "MockFileManager TransactionManager" where
  "sample_manager = snd (begin_transaction le_txn_lib ReadCommitted (set_catalog sample_catalog TransactionManager_new))"

text \<open>The log, if there is one, meets no failing call.\<close>

definition wal_ready :: "'fm TransactionManager \<Rightarrow> bool" where
  "wal_ready s = (case xm_wal s of None \<Rightarrow> True | Some w \<Rightarrow> wm_io w = [])"

text \<open>The rows of a table, as the catalog of the manager shows them.\<close>

definition txn_select :: "string \<Rightarrow> 'fm TransactionManager \<Rightarrow> row list res" where
  "txn_select n s = (case xm_catalog s of None \<Rightarrow> Err (NotFoundError ''Table not found'')
     | Some c \<Rightarrow> tm_select n (cm_table_manager c))"

inductive xm_step :: "txn_lib \<Rightarrow> 'fm TransactionManager \<Rightarrow> 'fm TransactionManager \<Rightarrow> bool" for X where
  txn_begin: "xm_next_transaction_id s \<noteq> -1 \<Longrightarrow> begin_transaction X l s = (ri, s') \<Longrightarrow> xm_step X s s'"
| txn_commit: "commit_transaction X i s = (r, s') \<Longrightarrow> xm_step X s s'"
| txn_rollback: "rollback_transaction X i s = (r, s') \<Longrightarrow> xm_step X s s'"
| txn_modify: "log_modify X i p off old new s = (r, s') \<Longrightarrow> xm_step X s s'"
| txn_delete: "log_delete X i n k row s = (r, s') \<Longrightarrow> xm_step X s s'"
| txn_cleanup: "cleanup s = (rc, s') \<Longrightarrow> xm_step X s s'"
| txn_checkpoint: "checkpoint X s = (r, s') \<Longrightarrow> xm_step X s s'"

inductive xm_reachable :: "txn_lib \<Rightarrow> 'fm TransactionManager \<Rightarrow> bool" for X where
  txn_new: "xm_reachable X TransactionManager_new"
| txn_new_wal: "xm_reachable X (with_wal w)"
| txn_catalog: "xm_reachable X s \<Longrightarrow> xm_reachable X (set_catalog c s)"
| txn_step: "xm_reachable X s \<Longrightarrow> xm_step X s s' \<Longrightarrow> xm_reachable X s'"

subsection \<open>Lemmas: the log always answers\<close>

lemma wal_call_returns:
  "returns (fst (wal_io_call e w))" "returns (fst (wal_append_bytes bs w))"
  by (auto simp: wal_io_call_def wal_append_bytes_def wal_next_io_def split: list.splits io_outcome.splits)

lemma st_bind_returns:
  assumes "returns (fst (m s))" "\<And>x s1. m s = (Ok x, s1) \<Longrightarrow> returns (fst (f x s1))"
  shows "returns (fst (st_bind m f s))"
  using assms by (cases "m s"; cases "fst (m s)") auto

lemma write_records_returns: "returns (fst (write_records L rs w))"
proof (induction rs arbitrary: w)
  case (Cons r rs)
  have "returns (fst (st_bind (wal_append_bytes (wal_to_bytes L r)) (\<lambda>_. write_records L rs) w))"
    using Cons.IH by (intro st_bind_returns wal_call_returns)
  then show ?case by simp
qed simp

lemma flush_buffer_returns: "returns (fst (flush_buffer L w))"
proof -
  have "returns (fst (st_bind (wal_io_call (IoError ''seek'')) (\<lambda>_.
              st_bind (write_records L (wm_buffer w)) (\<lambda>_.
              st_bind (wal_io_call (IoError ''flush'')) (\<lambda>_.
              if wm_fsync_enabled w then wal_io_call (IoError ''sync'') else st_return ())))
              (w\<lparr>wm_buffer := []\<rparr>)))"
    by (intro st_bind_returns wal_call_returns write_records_returns)
      (auto simp: st_return_def wal_call_returns)
  then show ?thesis by (simp add: flush_buffer_def Let_def)
qed

lemma append_record_returns: "returns (fst (append_record L r w))"
  by (simp add: append_record_def Let_def st_bind_returns flush_buffer_returns st_return_def)

lemma append_and_flush_returns: "returns (fst (append_and_flush L r w))"
  unfolding append_and_flush_def
  by (intro st_bind_returns append_record_returns flush_buffer_returns) (simp add: st_return_def)

lemma on_wal_result:
  assumes "on_wal m s = (r, s')" "\<And>w. returns (fst (m w))"
  shows "(\<exists>w. s' = s\<lparr>xm_wal := w\<rparr>) \<and> returns r"
proof (cases "xm_wal s")
  case None
  then have "s' = s\<lparr>xm_wal := xm_wal s\<rparr>" "r = Ok None" using assms(1) by (auto simp: on_wal_def)
  then show ?thesis by (auto intro!: exI [of _ "xm_wal s"])
next
  case (Some w)
  then show ?thesis
    using assms(1) assms(2) [of w] by (cases "m w"; cases "fst (m w)") (auto simp: on_wal_def)
qed


subsection \<open>Lemmas: the invariant\<close>

lemma mvcc_active_simps [simp]:
  "mvcc_active (snd (mvcc_begin t m)) = insert t (mvcc_active m)"
  "mvcc_active (snd (mvcc_commit t ts m)) = mvcc_active m - {t}"
  "mvcc_active (mvcc_abort t m) = mvcc_active m - {t}"
  "mvcc_active (snd (vacuum b m)) = mvcc_active m"
  by (simp_all add: mvcc_begin_def mvcc_commit_def mvcc_abort_def vacuum_def next_timestamp_def Let_def)

text \<open>The invariant does not depend on the log and the catalog.\<close>

lemma xm_inv_cong:
  assumes "xm_inv s" "xm_active s' = xm_active s" "xm_next_transaction_id s' = xm_next_transaction_id s"
    "mvcc_active (xm_mvcc s') = mvcc_active (xm_mvcc s)"
  shows "xm_inv s'"
  using assms by (simp add: xm_inv_def)

lemma xm_inv_modify:
  assumes "xm_inv s" "\<And>t. tx_id (f t) = tx_id t \<and> tx_snapshot (f t) = tx_snapshot t"
  shows "xm_inv (modify_transaction i f s)"
  using assms by (auto simp: xm_inv_def modify_transaction_def split: if_splits)

lemma restore_page_simps [simp]:
  "xm_active (restore_page X d s) = xm_active s" "xm_mvcc (restore_page X d s) = xm_mvcc s"
  "xm_next_transaction_id (restore_page X d s) = xm_next_transaction_id s"
  "xm_wal (restore_page X d s) = xm_wal s"
  by (auto simp: restore_page_def split: option.splits)

lemma restore_pages_simps [simp]:
  "xm_active (fold (\<lambda>(p, d). restore_page X d) ps s) = xm_active s"
  "xm_mvcc (fold (\<lambda>(p, d). restore_page X d) ps s) = xm_mvcc s"
  "xm_next_transaction_id (fold (\<lambda>(p, d). restore_page X d) ps s) = xm_next_transaction_id s"
  "xm_wal (fold (\<lambda>(p, d). restore_page X d) ps s) = xm_wal s"
  by (induction ps arbitrary: s) auto

lemma xm_inv_begin:
  assumes "xm_inv s" "xm_next_transaction_id s \<noteq> -1" "begin_transaction X l s = (r, s')"
  shows "xm_inv s' \<and> returns r \<and> (\<forall>i. r = Ok i \<longrightarrow> \<not> is_transaction_active i s \<and> is_transaction_active i s')"
proof -
  let ?i = "xm_next_transaction_id s"
  obtain sn1 m1 where b1: "mvcc_begin ?i (xm_mvcc s) = (sn1, m1)" by fastforce
  obtain sn m2 where b2: "mvcc_begin ?i m1 = (sn, m2)" by fastforce
  define t where "t = (Transaction_new ?i l (snap_timestamp sn1))\<lparr>tx_snapshot := Some sn\<rparr>"
  define s1 where "s1 = s\<lparr>xm_next_transaction_id := ?i + 1, xm_mvcc := m2, xm_active := hm_insert ?i t (xm_active s)\<rparr>"
  have run: "st_bind (on_wal (append_record (xl_wal X) (wal_begin ?i 0))) (\<lambda>_. st_return ?i) s1 = (r, s')"
    using assms(3) b1 b2 by (simp add: begin_transaction_def Let_def s1_def t_def)
  have m2: "mvcc_active m2 = insert ?i (mvcc_active (xm_mvcc s))"
    using mvcc_active_simps(1) [of ?i "xm_mvcc s"] mvcc_active_simps(1) [of ?i m1] b1 b2 by simp
  have inv1: "xm_inv s1"
    using assms(1) u64_below_succ [OF assms(2)] u64_less_succ [OF assms(2)]
    by (auto simp: xm_inv_def s1_def t_def m2 Transaction_new_def)
  obtain r1 s2 where w: "on_wal (append_record (xl_wal X) (wal_begin ?i 0)) s1 = (r1, s2)" by fastforce
  from on_wal_result [OF w append_record_returns] obtain u where u: "s2 = s1\<lparr>xm_wal := u\<rparr>" "returns r1" by blast
  have "s' = s2" "returns r" "\<And>i. r = Ok i \<Longrightarrow> i = ?i"
    using run w u(2) by (cases r1; auto simp: st_return_def)+
  moreover have "xm_inv s2" using inv1 by (rule xm_inv_cong) (simp_all add: u)
  moreover have "\<not> is_transaction_active ?i s"
  proof
    assume "is_transaction_active ?i s"
    then have "hm_get (xm_active s) ?i \<noteq> None"
      by (simp add: is_transaction_active_def hm_contains_get del: hm_contains_iff)
    then show False using assms(1) by (auto simp: xm_inv_def)
  qed
  moreover have "is_transaction_active ?i s2"
    by (simp add: u s1_def is_transaction_active_def hm_contains_get del: hm_contains_iff)
  ultimately show ?thesis by auto
qed

lemma xm_inv_remove:
  assumes "xm_inv s" "xm_active s' = hm_remove i (xm_active s)" "xm_next_transaction_id s' = xm_next_transaction_id s"
    "mvcc_active (xm_mvcc s) - {i} \<subseteq> mvcc_active (xm_mvcc s')"
  shows "xm_inv s'"
  using assms by (fastforce simp: xm_inv_def split: if_splits)

text \<open>What a commit leaves behind, whether or not the log can be written.\<close>

lemma commit_result:
  assumes "xm_inv s" "commit_transaction X i s = (r, s')"
  shows "returns r \<and> xm_inv s' \<and> \<not> is_transaction_active i s' \<and>
    (is_transaction_active i s \<or> r = Err (TransactionError ''Transaction not found'') \<and> s' = s)"
proof (cases "hm_get (xm_active s) i")
  case None
  then show ?thesis
    using assms by (auto simp: commit_transaction_def is_transaction_active_def hm_contains_get simp del: hm_contains_iff)
next
  case (Some t)
  then obtain sn where sn: "tx_snapshot t = Some sn" using assms(1) by (auto simp: xm_inv_def)
  define s1 where "s1 = s\<lparr>xm_active := hm_remove i (xm_active s)\<rparr>"
  let ?f = "\<lambda>s. s\<lparr>xm_mvcc := snd (mvcc_commit i (snap_timestamp sn) (xm_mvcc s))\<rparr>"
  let ?last = "\<lambda>lsn. case lsn of None \<Rightarrow> st_return None
     | Some lsn \<Rightarrow> on_wal (append_and_flush (xl_wal X) (wal_commit i lsn (Some (lsn - 1))))"
  have run: "st_bind (on_wal (append_and_flush (xl_wal X) (wal_commit i 0 (tx_last_lsn t)))) (\<lambda>lsn.
      st_bind (st_update ?f) (\<lambda>_. st_bind (?last lsn) (\<lambda>_. st_return ()))) s1 = (r, s')"
    using assms(2) Some sn by (simp add: commit_transaction_def s1_def)
  obtain r1 s2 where w1: "on_wal (append_and_flush (xl_wal X) (wal_commit i 0 (tx_last_lsn t))) s1 = (r1, s2)" by fastforce
  from on_wal_result [OF w1 append_and_flush_returns] obtain u where u: "s2 = s1\<lparr>xm_wal := u\<rparr>" "returns r1" by blast
  have keep: "xm_active s' = hm_remove i (xm_active s) \<and> xm_next_transaction_id s' = xm_next_transaction_id s \<and>
      mvcc_active (xm_mvcc s) - {i} \<subseteq> mvcc_active (xm_mvcc s') \<and> returns r"
  proof (cases r1)
    case (Ok lsn)
    obtain r2 s3 where w2: "?last lsn (?f s2) = (r2, s3)" by fastforce
    have "(\<exists>v. s3 = (?f s2)\<lparr>xm_wal := v\<rparr>) \<and> returns r2"
    proof (cases lsn)
      case None
      then have "s3 = (?f s2)\<lparr>xm_wal := xm_wal s2\<rparr>" "r2 = Ok None" using w2 by (auto simp: st_return_def)
      then show ?thesis by (auto intro!: exI [of _ "xm_wal s2"])
    next
      case (Some l)
      then show ?thesis using on_wal_result [OF _ append_and_flush_returns] w2 by simp
    qed
    then obtain v where v: "s3 = (?f s2)\<lparr>xm_wal := v\<rparr>" "returns r2" by blast
    have "s' = s3" "returns r" using run w1 Ok w2 v(2) by (cases r2; auto simp: st_update_def st_return_def)+
    then show ?thesis by (simp add: v(1) u(1) s1_def)
  next
    case (Err e)
    then show ?thesis using run w1 by (auto simp: u(1) s1_def)
  qed (use u(2) in auto)
  then have "xm_inv s'" using xm_inv_remove [OF assms(1)] by blast
  then show ?thesis
    using keep Some by (auto simp: is_transaction_active_def hm_contains_get simp del: hm_contains_iff)
qed

lemma rollback_result:
  assumes "xm_inv s" "rollback_transaction X i s = (r, s')"
  shows "returns r \<and> xm_inv s' \<and> \<not> is_transaction_active i s' \<and>
    (is_transaction_active i s \<or> r = Err (TransactionError ''Transaction not found'') \<and> s' = s)"
proof (cases "hm_get (xm_active s) i")
  case None
  then show ?thesis
    using assms by (auto simp: rollback_transaction_def is_transaction_active_def hm_contains_get simp del: hm_contains_iff)
next
  case (Some t)
  then obtain sn where sn: "tx_snapshot t = Some sn" using assms(1) by (auto simp: xm_inv_def)
  define s1 where "s1 = s\<lparr>xm_active := hm_remove i (xm_active s)\<rparr>"
  obtain r1 s2 where w1: "on_wal (append_and_flush (xl_wal X) (wal_abort i 0 (tx_last_lsn t))) s1 = (r1, s2)" by fastforce
  from on_wal_result [OF w1 append_and_flush_returns] obtain u where u: "s2 = s1\<lparr>xm_wal := u\<rparr>" "returns r1" by blast
  have keep: "xm_active s' = hm_remove i (xm_active s) \<and> xm_next_transaction_id s' = xm_next_transaction_id s \<and>
      mvcc_active (xm_mvcc s) - {i} \<subseteq> mvcc_active (xm_mvcc s') \<and> returns r"
    using assms(2) Some sn w1 u
    by (cases r1) (auto simp: rollback_transaction_def Let_def s1_def [symmetric] st_update_def, auto simp: s1_def)
  then have "xm_inv s'" using xm_inv_remove [OF assms(1)] by blast
  then show ?thesis
    using keep Some by (auto simp: is_transaction_active_def hm_contains_get simp del: hm_contains_iff)
qed

lemma log_record_result:
  assumes "log_record X i record s = (r, s')"
  shows "returns r \<and> (xm_inv s \<longrightarrow> xm_inv s')"
proof -
  obtain r1 s2 where w: "on_wal (append_record (xl_wal X) record) s = (r1, s2)" by fastforce
  from on_wal_result [OF w append_record_returns] obtain u where u: "s2 = s\<lparr>xm_wal := u\<rparr>" "returns r1" by blast
  have inv2: "xm_inv s \<longrightarrow> xm_inv s2" by (simp add: u xm_inv_def)
  then show ?thesis
    using assms w u(2) by (cases r1) (auto simp: log_record_def st_update_def intro: xm_inv_modify split: option.splits)
qed

lemma oldest_snapshot_returns:
  assumes "xm_inv s"
  shows "\<exists>x. oldest_snapshot d (hm_values (xm_active s)) = Ok x"
proof -
  have "\<not> list_ex (\<lambda>t. tx_snapshot t = None) (hm_values (xm_active s))"
    using assms hm_get_iff [of "xm_active s"] by (fastforce simp: list_ex_iff hm_values_def xm_inv_def)
  then show ?thesis by (simp add: oldest_snapshot_def split: list.split)
qed

lemma xm_inv_step:
  assumes "xm_step X s s'" "xm_inv s"
  shows "xm_inv s'"
  using assms(1)
proof (cases rule: xm_step.cases)
  case (txn_begin l ri)
  then show ?thesis using xm_inv_begin [OF assms(2)] by blast
next
  case (txn_commit i r)
  then show ?thesis using commit_result [OF assms(2)] by blast
next
  case (txn_rollback i r)
  then show ?thesis using rollback_result [OF assms(2)] by blast
next
  case (txn_modify i p off old new r)
  then show ?thesis
    using log_record_result [of X i _ _ r s'] assms(2) xm_inv_modify [OF assms(2), of "add_modified_page p _" i]
    by (auto simp: log_modify_def Let_def add_modified_page_def split: option.splits)
next
  case (txn_delete i n k row r)
  then show ?thesis
    using log_record_result [of X i _ _ r s'] xm_inv_modify [OF assms(2), of "add_modified_page (of_nat k) _" i]
    by (auto simp: log_delete_def Let_def add_modified_page_def)
next
  case (txn_cleanup rc)
  obtain x where "oldest_snapshot (current_timestamp (mvcc_get_stats (xm_mvcc s))) (hm_values (xm_active s)) = Ok x"
    using oldest_snapshot_returns [OF assms(2)] by blast
  then have "s' = s\<lparr>xm_mvcc := snd (vacuum x (xm_mvcc s))\<rparr>"
    using txn_cleanup by (simp add: cleanup_def vacuum_def Let_def)
  then show ?thesis using assms(2) by (simp add: xm_inv_def)
next
  case (txn_checkpoint r)
  obtain r1 s2 where w: "on_wal (\<lambda>w. wal_checkpoint (xl_wal X) (get_next_lsn w) w) s = (r1, s2)" by fastforce
  have "returns (fst (wal_checkpoint (xl_wal X) (get_next_lsn w) w))" for w
    unfolding wal_checkpoint_def
    by (intro st_bind_returns flush_buffer_returns append_record_returns) (simp add: st_return_def)
  from on_wal_result [OF w this] obtain u where u: "s2 = s\<lparr>xm_wal := u\<rparr>" "returns r1" by blast
  then have "s' = s2" using txn_checkpoint w by (cases r1) (auto simp: checkpoint_def st_return_def)
  then show ?thesis using assms(2) by (simp add: u xm_inv_def)
qed

lemma xm_reachable_inv: "xm_reachable X s \<Longrightarrow> xm_inv s"
proof (induction rule: xm_reachable.induct)
  case (txn_step s s')
  then show ?case using xm_inv_step by blast
qed (auto simp: xm_inv_def TransactionManager_new_def with_wal_def set_catalog_def)

subsection \<open>Lemmas: operations with a log that can be written\<close>

lemma on_wal_ready:
  assumes "wal_ready s" "\<And>w. wm_io w = [] \<Longrightarrow> \<exists>x w'. m w = (Ok x, w') \<and> wm_io w' = []"
  shows "\<exists>x u. on_wal m s = (Ok x, s\<lparr>xm_wal := u\<rparr>) \<and> wal_ready (s\<lparr>xm_wal := u\<rparr>)"
proof (cases "xm_wal s")
  case None
  then show ?thesis by (auto simp: on_wal_def wal_ready_def intro!: exI [of _ "xm_wal s"])
next
  case (Some w)
  then obtain x w' where "m w = (Ok x, w')" "wm_io w' = []"
    using assms(1) assms(2) [of w] by (auto simp: wal_ready_def)
  then show ?thesis using Some by (auto simp: on_wal_def wal_ready_def)
qed

lemma append_ready: "wm_io w = [] \<Longrightarrow> \<exists>x w'. append_record L r w = (Ok x, w') \<and> wm_io w' = []"
  using append_record_free [of w L r] by blast

lemma append_and_flush_ready: "wm_io w = [] \<Longrightarrow> \<exists>x w'. append_and_flush L r w = (Ok x, w') \<and> wm_io w' = []"
  using append_record_free [of w L r] flush_buffer_free [of _ L]
  by (fastforce simp: append_and_flush_def st_return_def)

lemma log_record_ready:
  assumes "wal_ready s"
  shows "\<exists>f u. log_record X i record s = (Ok (), modify_transaction i f (s\<lparr>xm_wal := u\<rparr>)) \<and>
    wal_ready (s\<lparr>xm_wal := u\<rparr>) \<and> (\<forall>t. tx_snapshot (f t) = tx_snapshot t \<and> tx_modified_pages (f t) = tx_modified_pages t)"
proof -
  obtain x u where w: "on_wal (append_record (xl_wal X) record) s = (Ok x, s\<lparr>xm_wal := u\<rparr>)" "wal_ready (s\<lparr>xm_wal := u\<rparr>)"
    using on_wal_ready [OF assms, of "append_record (xl_wal X) record"] append_ready by blast
  have id: "modify_transaction i (\<lambda>t. t) v = v" for v :: "'a TransactionManager"
    by (simp add: modify_transaction_def hm_modify_def)
  show ?thesis
  proof (cases x)
    case None
    then show ?thesis using w id by (auto simp: log_record_def st_update_def intro!: exI [of _ "\<lambda>t. t"] exI [of _ u])
  next
    case (Some lsn)
    then show ?thesis
      using w by (auto simp: log_record_def st_update_def intro!: exI [of _ "\<lambda>t. t\<lparr>tx_last_lsn := Some lsn\<rparr>"] exI [of _ u])
  qed
qed

lemma log_delete_ready:
  assumes "wal_ready s" "get_transaction i s = Some t" "tx_snapshot t = Some sn"
  shows "\<exists>s' t'. log_delete X i n k row s = (Ok (), s') \<and> wal_ready s' \<and> xm_catalog s' = xm_catalog s \<and>
    get_transaction i s' = Some t' \<and> tx_snapshot t' = Some sn \<and>
    tx_modified_pages t' = hm_insert (of_nat k) (xl_serialize X \<lparr>dri_table_name = n, dri_row_index = k,
      dri_old_row_data = row\<rparr>) (tx_modified_pages t)"
proof -
  let ?d = "xl_serialize X \<lparr>dri_table_name = n, dri_row_index = k, dri_old_row_data = row\<rparr>"
  let ?s1 = "modify_transaction i (add_modified_page (of_nat k) ?d) s"
  have "wal_ready ?s1" using assms(1) by (simp add: wal_ready_def modify_transaction_def)
  from log_record_ready [OF this, of X i "wal_delete (xl_wal X) i 0 None (of_nat k) (of_nat k) ?d"]
  obtain f u where f: "log_delete X i n k row s = (Ok (), modify_transaction i f (?s1\<lparr>xm_wal := u\<rparr>))"
    "wal_ready (?s1\<lparr>xm_wal := u\<rparr>)" "\<And>t. tx_snapshot (f t) = tx_snapshot t \<and> tx_modified_pages (f t) = tx_modified_pages t"
    by (auto simp: log_delete_def Let_def)
  then show ?thesis
    using assms(2,3) by (auto simp: get_transaction_def modify_transaction_def add_modified_page_def wal_ready_def)
qed

lemma restore_page_catalog:
  "xm_catalog s = xm_catalog s' \<Longrightarrow> xm_catalog (restore_page X d s) = xm_catalog (restore_page X d s')"
  by (simp add: restore_page_def split: option.splits)

lemma restore_pages_catalog:
  "xm_catalog s = xm_catalog s' \<Longrightarrow>
   xm_catalog (fold (\<lambda>(p, d). restore_page X d) ps s) = xm_catalog (fold (\<lambda>(p, d). restore_page X d) ps s')"
proof (induction ps arbitrary: s s')
  case (Cons p ps)
  show ?case using Cons.IH [OF restore_page_catalog [OF Cons.prems]] by (simp add: case_prod_beta)
qed simp

lemma rollback_ready:
  assumes "wal_ready s" "get_transaction i s = Some t" "tx_snapshot t = Some sn"
  shows "\<exists>s'. rollback_transaction X i s = (Ok (), s') \<and>
    xm_catalog s' = xm_catalog (fold (\<lambda>(p, d). restore_page X d) (tx_modified_pages t) s)"
proof -
  let ?s1 = "s\<lparr>xm_active := hm_remove i (xm_active s)\<rparr>"
  have "wal_ready ?s1" using assms(1) by (simp add: wal_ready_def)
  from on_wal_ready [OF this, of "append_and_flush (xl_wal X) (wal_abort i 0 (tx_last_lsn t))", OF append_and_flush_ready]
  obtain x u where w: "on_wal (append_and_flush (xl_wal X) (wal_abort i 0 (tx_last_lsn t))) ?s1
      = (Ok x, ?s1\<lparr>xm_wal := u\<rparr>)" by blast
  show ?thesis
    using assms(2,3) w restore_pages_catalog [of "?s1\<lparr>xm_wal := u\<rparr>" s]
    by (auto simp: rollback_transaction_def get_transaction_def Let_def st_update_def)
qed

lemma restore_page_rows:
  assumes "xl_deserialize X d = Some info" "xm_catalog s = Some c"
    and "tm_select (dri_table_name info) (cm_table_manager c) = Ok rows"
  shows "\<exists>c'. xm_catalog (restore_page X d s) = Some c' \<and>
    tm_select (dri_table_name info) (cm_table_manager c') = Ok (vec_insert (dri_row_index info) (dri_old_row_data info)
      (rows @ replicate (Suc (dri_row_index info) - length rows) [])) \<and>
    (\<forall>m. m \<noteq> dri_table_name info \<longrightarrow> tm_select m (cm_table_manager c') = tm_select m (cm_table_manager c))"
proof -
  obtain r tm where tm: "restore_row (dri_table_name info) (dri_row_index info) (dri_old_row_data info) (cm_table_manager c) = (r, tm)"
    by fastforce
  from restore_row_rows [OF assms(3) tm] show ?thesis
    using assms(1,2) tm by (auto simp: restore_page_def on_tables_def)
qed

text \<open>A delete inside a transaction: the row leaves the table and its restore information is kept.\<close>

lemma txn_select_catalog:
  "txn_select n s = Ok rows \<longleftrightarrow> (\<exists>c. xm_catalog s = Some c \<and> tm_select n (cm_table_manager c) = Ok rows)"
  by (auto simp: txn_select_def split: option.splits)

lemma on_delete_row:
  assumes "txn_select n s = Ok rows" "k < length rows"
    and "on_catalog (on_tables (delete_row E n k)) s = (r, s')"
  shows "txn_select n s' = Ok (vec_remove k rows)" "m \<noteq> n \<Longrightarrow> txn_select m s' = txn_select m s"
    "\<exists>c. s' = s\<lparr>xm_catalog := Some c\<rparr>"
proof -
  obtain c where c: "xm_catalog s = Some c" "tm_select n (cm_table_manager c) = Ok rows"
    using assms(1) by (auto simp: txn_select_catalog)
  obtain r1 tm where d: "delete_row E n k (cm_table_manager c) = (r1, tm)" by fastforce
  have s': "s' = s\<lparr>xm_catalog := Some (c\<lparr>cm_table_manager := tm\<rparr>)\<rparr>"
    using assms(3) c d by (auto simp: on_catalog_def on_tables_def)
  note D = delete_row_rows [OF c(2) assms(2) d]
  show "txn_select n s' = Ok (vec_remove k rows)" using D(2) by (simp add: txn_select_def s')
  show "m \<noteq> n \<Longrightarrow> txn_select m s' = txn_select m s" using D(3) c by (simp add: txn_select_def s')
  show "\<exists>c. s' = s\<lparr>xm_catalog := Some c\<rparr>" using s' by blast
qed

lemma delete_row_data_result:
  assumes "wal_ready s" "get_transaction i s = Some t" "tx_snapshot t = Some sn"
    and "txn_select n s = Ok rows" "k < length rows"
    and "delete_row_data X E n (Some i) (Some k) s = (r, s')"
  shows "\<exists>t'. wal_ready s' \<and> get_transaction i s' = Some t' \<and> tx_snapshot t' = Some sn \<and>
    tx_modified_pages t' = hm_insert (of_nat k) (xl_serialize X \<lparr>dri_table_name = n, dri_row_index = k,
      dri_old_row_data = rows ! k\<rparr>) (tx_modified_pages t) \<and>
    txn_select n s' = Ok (vec_remove k rows) \<and> (\<forall>m. m \<noteq> n \<longrightarrow> txn_select m s' = txn_select m s)"
proof -
  obtain c where c: "xm_catalog s = Some c" "tm_select n (cm_table_manager c) = Ok rows"
    using assms(4) by (auto simp: txn_select_catalog)
  have self: "s\<lparr>xm_catalog := Some (c\<lparr>cm_table_manager := cm_table_manager c\<rparr>)\<rparr> = s" using c(1) by simp
  have g: "on_catalog (on_tables (\<lambda>t. (get_row n k t, t))) s = (Ok (Some (rows ! k)), s)"
    using c assms(5) self
    by (auto simp: on_catalog_def on_tables_def get_row_def tm_select_def split: option.splits)
  from log_delete_ready [OF assms(1-3), of X n k "rows ! k"] obtain s1 t' where l:
    "log_delete X i n k (rows ! k) s = (Ok (), s1)" "wal_ready s1" "xm_catalog s1 = xm_catalog s"
    "get_transaction i s1 = Some t'" "tx_snapshot t' = Some sn"
    "tx_modified_pages t' = hm_insert (of_nat k) (xl_serialize X \<lparr>dri_table_name = n, dri_row_index = k,
      dri_old_row_data = rows ! k\<rparr>) (tx_modified_pages t)" by blast
  have sel: "txn_select m s1 = txn_select m s" for m by (simp add: txn_select_def l(3))
  obtain r2 s2 where d: "on_catalog (on_tables (delete_row E n k)) s1 = (r2, s2)" by fastforce
  note D = on_delete_row [OF _ assms(5) d, unfolded sel, OF assms(4)]
  have "s' = s2" using assms(6) g l(1) d by (cases r2) (auto simp: delete_row_data_def)
  then show ?thesis using l(2,4-6) D by (auto simp: get_transaction_def wal_ready_def)
qed

lemma restore_page_select:
  assumes "xl_deserialize X d = Some info" "txn_select (dri_table_name info) s = Ok rows"
  shows "txn_select (dri_table_name info) (restore_page X d s) =
      Ok (vec_insert (dri_row_index info) (dri_old_row_data info) (rows @ replicate (Suc (dri_row_index info) - length rows) []))"
    "m \<noteq> dri_table_name info \<Longrightarrow> txn_select m (restore_page X d s) = txn_select m s"
  using restore_page_rows [OF assms(1)] assms(2) by (fastforce simp: txn_select_def split: option.splits)+

lemma rollback_select:
  assumes "wal_ready s" "get_transaction i s = Some t" "tx_snapshot t = Some sn"
  shows "fst (rollback_transaction X i s) = Ok () \<and> txn_select m (snd (rollback_transaction X i s)) =
    txn_select m (fold (\<lambda>(p, d). restore_page X d) (tx_modified_pages t) s)"
  using rollback_ready [OF assms, of X] by (auto simp: txn_select_def)

lemma finish_not_found:
  assumes "\<not> is_transaction_active i s"
  shows "commit_transaction X i s = (Err (TransactionError ''Transaction not found''), s)"
    "rollback_transaction X i s = (Err (TransactionError ''Transaction not found''), s)"
  using assms by (auto simp: commit_transaction_def rollback_transaction_def is_transaction_active_def hm_contains_get
      simp del: hm_contains_iff)

lemma flush_buffer_fails:
  assumes "wm_io w = IoFail n # io" "wm_buffer w \<noteq> []"
  shows "\<exists>w'. flush_buffer L w = (Err (IoError ''seek''), w')"
  using assms by (simp add: flush_buffer_def Let_def wal_io_call_def wal_next_io_def)

lemma append_and_flush_fails:
  assumes "wm_io w = IoFail n # io"
  shows "\<exists>w'. append_and_flush L r w = (Err (IoError ''seek''), w')"
proof -
  define rec where "rec = r\<lparr>wr_header := (wr_header r)\<lparr>wh_lsn := wm_next_lsn w\<rparr>\<rparr>"
  define w1 where "w1 = w\<lparr>wm_next_lsn := wm_next_lsn w + 1, wm_buffer := wm_buffer w @ [rec]\<rparr>"
  obtain w' where f: "flush_buffer L w1 = (Err (IoError ''seek''), w')"
    using flush_buffer_fails [of w1 n io L] assms by (auto simp: w1_def)
  have "append_record L r w = (if length (wm_buffer w1) \<ge> wm_buffer_size w1 then (Err (IoError ''seek''), w')
      else (Ok (wm_next_lsn w), w1))"
    using f by (simp add: append_record_def Let_def rec_def [symmetric] w1_def [symmetric]) (simp add: rec_def w1_def)
  then show ?thesis using f by (simp add: append_and_flush_def split: if_splits)
qed

lemma sample_reachable: "xm_reachable le_txn_lib sample_manager"
  unfolding sample_manager_def
  by (rule txn_step [OF txn_catalog [OF txn_new] txn_begin [OF _ prod.collapse [symmetric]]])
    (simp add: set_catalog_def TransactionManager_new_def)

lemma sample_restore:
  "n \<in> {''t'', ''u''} \<Longrightarrow> v \<in> {1, 3} \<Longrightarrow> xl_deserialize le_txn_lib (xl_serialize le_txn_lib
     \<lparr>dri_table_name = n, dri_row_index = 0, dri_old_row_data = [IntegerV v]\<rparr>) =
   Some \<lparr>dri_table_name = n, dri_row_index = 0, dri_old_row_data = [IntegerV v]\<rparr>"
  by (elim insertE emptyE; hypsubst; code_simp)

lemma sample_state:
  "\<exists>t. get_transaction 1 sample_manager = Some t \<and> tx_modified_pages t = []" "wal_ready sample_manager"
  "txn_select ''t'' sample_manager = Ok [[IntegerV 1], [IntegerV 2]]"
  "txn_select ''u'' sample_manager = Ok [[IntegerV 3], [IntegerV 4]]"
  "xm_next_transaction_id sample_manager = 2"
  by (auto simp: sample_manager_def begin_transaction_def set_catalog_def TransactionManager_new_def Let_def on_wal_def
      get_transaction_def wal_ready_def txn_select_def tm_select_def sample_catalog_def set_rows_get Transaction_new_def
      create_table_def SystemTableManager_new_def initialize_system_tables_def split: prod.split)



text \<open>
  C19. Rolling back a deletion. A transaction that has deleted no row yet deletes row \<open>k\<close> of a table and
  is rolled back: the table has its rows again, unless the row was the last one, where an empty row is
  left behind it. No other table changes. The log must be writable, and the restore information must
  survive its encoding.
\<close>

theorem rollback_restores_row:
  assumes "xm_reachable X s" "wal_ready s" "get_transaction i s = Some t" "tx_modified_pages t = []"
    and "txn_select n s = Ok rows" "k < length rows"
    and "info = \<lparr>dri_table_name = n, dri_row_index = k, dri_old_row_data = rows ! k\<rparr>"
    and "xl_deserialize X (xl_serialize X info) = Some info"
    and "delete_row_data X E n (Some i) (Some k) s = (r, s1)" "rollback_transaction X i s1 = (r2, s2)"
  shows "txn_select n s1 = Ok (vec_remove k rows) \<and> r2 = Ok () \<and>
    txn_select n s2 = Ok (if Suc k = length rows then rows @ [[]] else rows) \<and>
    (\<forall>m. m \<noteq> n \<longrightarrow> txn_select m s2 = txn_select m s)"
proof -
  obtain sn where sn: "tx_snapshot t = Some sn"
    using xm_reachable_inv [OF assms(1)] assms(3) by (auto simp: xm_inv_def get_transaction_def)
  from delete_row_data_result [OF assms(2,3) sn assms(5,6,9)] assms(4,7)
  obtain t' where t': "wal_ready s1" "get_transaction i s1 = Some t'" "tx_snapshot t' = Some sn"
    "tx_modified_pages t' = [(of_nat k, xl_serialize X info)]" "txn_select n s1 = Ok (vec_remove k rows)"
    "\<forall>m. m \<noteq> n \<longrightarrow> txn_select m s1 = txn_select m s"
    by auto
  show ?thesis
    using rollback_select [OF t'(1-3), of X] restore_page_select [OF assms(8), of s1] t'(4-6)
      vec_restore [OF assms(6), where d = "[]"] assms(7,10)
    by simp
qed

theorem rollback_restores_row_witness:
  "let s1 = snd (delete_row_data le_txn_lib mock_tm_lib ''t'' (Some 1) (Some 0) sample_manager);
       s2 = snd (rollback_transaction le_txn_lib 1 s1)
   in txn_select ''t'' s1 = Ok [[IntegerV 2]] \<and> txn_select ''t'' s2 = Ok [[IntegerV 1], [IntegerV 2]]"
proof -
  obtain t where t: "get_transaction 1 sample_manager = Some t" "tx_modified_pages t = []" using sample_state(1) by blast
  from rollback_restores_row [OF sample_reachable sample_state(2) t sample_state(3) _ refl _
      prod.collapse [symmetric] prod.collapse [symmetric], of 0 mock_tm_lib]
  show ?thesis by (simp add: sample_restore vec_remove_def Let_def)
qed

text \<open>
  A rollback can lose a row. Deleted rows are kept under their row index alone, so that a second
  deletion at the same index, in another table, replaces the first: after the rollback the second table
  has its row again and the first has not.
\<close>

theorem rollback_loses_row:
  assumes "xm_reachable X s" "wal_ready s" "get_transaction i s = Some t" "tx_modified_pages t = []"
    and "txn_select n s = Ok rows" "k < length rows" "txn_select m s = Ok rows'" "k < length rows'" "m \<noteq> n"
    and "info = \<lparr>dri_table_name = m, dri_row_index = k, dri_old_row_data = rows' ! k\<rparr>"
    and "xl_deserialize X (xl_serialize X info) = Some info"
    and "delete_row_data X E n (Some i) (Some k) s = (r, s1)" "delete_row_data X E m (Some i) (Some k) s1 = (r2, s2)"
    and "rollback_transaction X i s2 = (r3, s3)"
  shows "r3 = Ok () \<and> txn_select n s3 = Ok (vec_remove k rows) \<and>
    txn_select m s3 = Ok (if Suc k = length rows' then rows' @ [[]] else rows')"
proof -
  obtain sn where sn: "tx_snapshot t = Some sn"
    using xm_reachable_inv [OF assms(1)] assms(3) by (auto simp: xm_inv_def get_transaction_def)
  from delete_row_data_result [OF assms(2,3) sn assms(5,6,12)] assms(4,7,9)
  obtain t1 d where t1: "wal_ready s1" "get_transaction i s1 = Some t1" "tx_snapshot t1 = Some sn"
    "tx_modified_pages t1 = [(of_nat k, d)]" "txn_select n s1 = Ok (vec_remove k rows)" "txn_select m s1 = Ok rows'"
    by auto
  from delete_row_data_result [OF t1(1-3,6) assms(8,13)] assms(9,10) t1(4,5)
  obtain t2 where t2: "wal_ready s2" "get_transaction i s2 = Some t2" "tx_snapshot t2 = Some sn"
    "tx_modified_pages t2 = [(of_nat k, xl_serialize X info)]" "txn_select m s2 = Ok (vec_remove k rows')"
    "txn_select n s2 = Ok (vec_remove k rows)"
    by auto
  show ?thesis
    using rollback_select [OF t2(1-3), of X] restore_page_select [OF assms(11), of s2] t2(4-6)
      vec_restore [OF assms(8), where d = "[]"] assms(9,10,14)
    by simp
qed

theorem rollback_loses_row_witness:
  "let s1 = snd (delete_row_data le_txn_lib mock_tm_lib ''t'' (Some 1) (Some 0) sample_manager);
       s2 = snd (delete_row_data le_txn_lib mock_tm_lib ''u'' (Some 1) (Some 0) s1);
       s3 = snd (rollback_transaction le_txn_lib 1 s2)
   in txn_select ''t'' s3 = Ok [[IntegerV 2]] \<and> txn_select ''u'' s3 = Ok [[IntegerV 3], [IntegerV 4]]"
proof -
  obtain t where t: "get_transaction 1 sample_manager = Some t" "tx_modified_pages t = []" using sample_state(1) by blast
  from rollback_loses_row [OF sample_reachable sample_state(2) t sample_state(3) _ sample_state(4) _ _ refl _
      prod.collapse [symmetric] prod.collapse [symmetric] prod.collapse [symmetric], of 0 mock_tm_lib]
  show ?thesis by (simp add: sample_restore vec_remove_def Let_def)
qed

text \<open>
  A commit whose log record cannot be written. When the log fails at its next call, the commit
  reports the error and the transaction is gone: it can be neither committed again nor rolled back. Its
  versions stay uncommitted, and its number stays active in the MVCC manager.
\<close>

theorem failed_commit_strands_transaction:
  assumes "xm_reachable X s" "is_transaction_active i s" "xm_wal s = Some w" "wm_io w = IoFail n # io"
    and "commit_transaction X i s = (r, s')"
  shows "r = Err (IoError ''seek'') \<and> xm_mvcc s' = xm_mvcc s \<and> i \<in> mvcc_active (xm_mvcc s') \<and>
    commit_transaction X i s' = (Err (TransactionError ''Transaction not found''), s') \<and>
    rollback_transaction X i s' = (Err (TransactionError ''Transaction not found''), s')"
proof -
  have inv: "xm_inv s" using assms(1) by (rule xm_reachable_inv)
  obtain t where t: "hm_get (xm_active s) i = Some t"
    using assms(2) by (auto simp: is_transaction_active_def hm_contains_get simp del: hm_contains_iff)
  obtain sn where sn: "tx_snapshot t = Some sn" "i \<in> mvcc_active (xm_mvcc s)" using inv t by (auto simp: xm_inv_def)
  obtain w' where "append_and_flush (xl_wal X) (wal_commit i 0 (tx_last_lsn t)) w = (Err (IoError ''seek''), w')"
    using append_and_flush_fails [OF assms(4)] by blast
  then have "on_wal (append_and_flush (xl_wal X) (wal_commit i 0 (tx_last_lsn t)))
      (s\<lparr>xm_active := hm_remove i (xm_active s)\<rparr>) =
      (Err (IoError ''seek''), s\<lparr>xm_active := hm_remove i (xm_active s), xm_wal := Some w'\<rparr>)"
    using assms(3) by (simp add: on_wal_def)
  then have "r = Err (IoError ''seek'')" "xm_mvcc s' = xm_mvcc s"
    using assms(5) t sn by (auto simp: commit_transaction_def)
  moreover have "\<not> is_transaction_active i s'" using commit_result [OF inv assms(5)] by blast
  ultimately show ?thesis using sn(2) finish_not_found [of i s'] by simp
qed

theorem failed_commit_strands_transaction_witness:
  "let w = (snd (wal_create le_wal_lib 8192 []))\<lparr>wm_buffer_size := 8, wm_io := [IoFail 0]\<rparr>;
       s = snd (begin_transaction le_txn_lib ReadCommitted (with_wal w :: MockFileManager TransactionManager))
   in fst (commit_transaction le_txn_lib 1 s) = Err (IoError ''seek'') \<and>
      fst (rollback_transaction le_txn_lib 1 (snd (commit_transaction le_txn_lib 1 s)))
        = Err (TransactionError ''Transaction not found'')"
proof -
  let ?w = "(snd (wal_create le_wal_lib 8192 []))\<lparr>wm_buffer_size := 8, wm_io := [IoFail 0]\<rparr>"
  let ?n = "with_wal ?w :: MockFileManager TransactionManager"
  let ?s = "snd (begin_transaction le_txn_lib ReadCommitted ?n)"
  have r: "xm_reachable le_txn_lib ?s"
    by (rule txn_step [OF txn_new_wal txn_begin [OF _ prod.collapse [symmetric]]]) (simp add: with_wal_def)
  have "wm_buffer (snd (wal_create le_wal_lib 8192 [])) = []" by code_simp
  then have "is_transaction_active 1 ?s" "\<exists>w. xm_wal ?s = Some w \<and> wm_io w = [IoFail 0]"
    by (simp_all add: begin_transaction_def with_wal_def Let_def on_wal_def append_record_def is_transaction_active_def
        hm_contains_get split: prod.split del: hm_contains_iff)
  then show ?thesis
    using failed_commit_strands_transaction [OF r _ _ _ prod.collapse [symmetric], of 1] by (fastforce simp: Let_def)
qed

end
