(* ===== verification/Table_Scanner.thy ===== *)
theory Table_Scanner
  imports BTree Txn_Manager Operators
begin

section \<open>Table scanner (\<^verbatim>\<open>src/src/executor/scanner.rs\<close>)\<close>

text \<open>
  The scanner is the access of the statements to one table: it keeps a copy of the definition, the
  positions of the columns and the root of the table's B-tree, and works on the catalog, whose table
  manager holds the buffer pool (\<^verbatim>\<open>src/src/lib.rs\<close> gives both the same one). The encoding of values and
  the clock are parameters.

  The lemmas show what the unique check decides, that an insert appends its row whatever happens to
  the B-tree afterwards, and that the row iterator yields the rows of the table in order.
\<close>

subsection \<open>Data\<close>

record RowData =
  rd_values :: row
  rd_row_id :: "u64 option"

record TableScanner =
  sc_table_def :: TableDef
  sc_btree :: "PageId option"
  sc_column_map :: "(string, nat) hmap"

record SimpleRowIterator =
  ri_column_map :: "(string, nat) hmap"
  ri_column_defs :: "ColumnDef list"
  ri_current_index :: nat
  ri_sample_data :: "RowData list"

record 'fm scan_lib =
  sl_tables :: "'fm tm_lib"
  sl_btree :: bt_lib
  sl_value :: "Value \<Rightarrow> bytes"
  sl_depth :: nat

definition RowData_new :: "row \<Rightarrow> RowData" where
  "RowData_new vs = \<lparr>rd_values = vs, rd_row_id = None\<rparr>"

definition RowData_with_id :: "row \<Rightarrow> u64 \<Rightarrow> RowData" where
  "RowData_with_id vs i = \<lparr>rd_values = vs, rd_row_id = Some i\<rparr>"

subsection \<open>Creation and lookup\<close>

definition build_column_map :: "ColumnDef list \<Rightarrow> (string, nat) hmap" where
  "build_column_map cols = fold (\<lambda>(i, c). hm_insert (cd_name c) i) (zip [0..<length cols] cols) []"

definition TableScanner_new :: "string \<Rightarrow> 'fm CatalogManager \<Rightarrow> TableScanner res" where
  "TableScanner_new table_name c =
     (case catalog_get_table table_name c of
        None \<Rightarrow> Err (NotFoundError ''Table not found'')
      | Some d \<Rightarrow> Ok \<lparr>sc_table_def = d, sc_btree = td_root_page_id d,
                      sc_column_map = build_column_map (td_columns d)\<rparr>)"

definition get_column_index :: "TableScanner \<Rightarrow> string \<Rightarrow> nat option" where
  "get_column_index sc column_name = hm_get (sc_column_map sc) column_name"

definition sc_table_name :: "TableScanner \<Rightarrow> string" where
  "sc_table_name sc = td_name (sc_table_def sc)"

text \<open>The names of the columns with their values, as the scanner and its iterator put them in a context.\<close>

definition scanner_evaluation_context :: "ColumnDef list \<Rightarrow> RowData \<Rightarrow> EvaluationContext" where
  "scanner_evaluation_context cols r = ec_with_columns (row_columns None (map cd_name cols) (rd_values r) [])"

subsection \<open>Iteration\<close>

definition SimpleRowIterator_from_rows ::
    "RowData list \<Rightarrow> (string, nat) hmap \<Rightarrow> ColumnDef list \<Rightarrow> SimpleRowIterator" where
  "SimpleRowIterator_from_rows rows cmap cols =
     \<lparr>ri_column_map = cmap, ri_column_defs = cols, ri_current_index = 0, ri_sample_data = rows\<rparr>"

definition next_row :: "SimpleRowIterator \<Rightarrow> RowData option \<times> SimpleRowIterator" where
  "next_row it =
     (if ri_current_index it < length (ri_sample_data it)
      then (Some (ri_sample_data it ! ri_current_index it), it\<lparr>ri_current_index := ri_current_index it + 1\<rparr>)
      else (None, it))"

definition next_context :: "SimpleRowIterator \<Rightarrow> EvaluationContext option \<times> SimpleRowIterator" where
  "next_context it = (case next_row it of (r, it1) \<Rightarrow>
     (map_option (scanner_evaluation_context (ri_column_defs it)) r, it1))"

definition iterator_column_names :: "SimpleRowIterator \<Rightarrow> string list" where
  "iterator_column_names it = map cd_name (ri_column_defs it)"

text \<open>The rows a loop over the iterator sees, one after the other.\<close>

function remaining_rows :: "SimpleRowIterator \<Rightarrow> RowData list" where
  "remaining_rows it = (case next_row it of (None, _) \<Rightarrow> [] | (Some r, it1) \<Rightarrow> r # remaining_rows it1)"
  by pat_completeness auto
termination
  by (relation "measure (\<lambda>it. length (ri_sample_data it) - ri_current_index it)")
    (auto simp: next_row_def split: if_split_asm)

text \<open>Rows numbered from an index on, as \<^verbatim>\<open>enumerate\<close> does.\<close>

fun number_from :: "nat \<Rightarrow> row list \<Rightarrow> RowData list" where
  "number_from i [] = []"
| "number_from i (vs # rows) = RowData_with_id vs (of_nat i) # number_from (Suc i) rows"

definition scan_all :: "TableScanner \<Rightarrow> 'fm CatalogManager \<Rightarrow> SimpleRowIterator res" where
  "scan_all sc c = res_bind (tm_select (sc_table_name sc) (cm_table_manager c)) (\<lambda>rows.
     Ok (SimpleRowIterator_from_rows (number_from 0 rows) (sc_column_map sc) (td_columns (sc_table_def sc))))"

subsection \<open>Unique constraints\<close>

fun index_key :: "TableScanner \<Rightarrow> string list \<Rightarrow> row \<Rightarrow> Value list res" where
  "index_key sc [] vs = Ok []"
| "index_key sc (n # ns) vs =
     (case get_column_index sc n of
        None \<Rightarrow> index_key sc ns vs
      | Some i \<Rightarrow> if i < length vs then res_bind (index_key sc ns vs) (\<lambda>k. Ok (vs ! i # k))
                 else Panic ''index out of bounds'')"

fun check_rows :: "TableScanner \<Rightarrow> string list \<Rightarrow> Value list \<Rightarrow> row list \<Rightarrow> unit res" where
  "check_rows sc names key [] = Ok ()"
| "check_rows sc names key (r # rs) =
     res_bind (index_key sc names r) (\<lambda>existing.
       if values_eq key existing then Err (ConstraintError ''Duplicate value for unique index'')
       else check_rows sc names key rs)"

fun check_indexes :: "TableScanner \<Rightarrow> 'fm CatalogManager \<Rightarrow> row \<Rightarrow> IndexInfo list \<Rightarrow> unit res" where
  "check_indexes sc c vs [] = Ok ()"
| "check_indexes sc c vs (x # xs) =
     res_bind (index_key sc (id_columns (ii_def x)) vs) (\<lambda>key.
     res_bind (get_all_rows (sc_table_name sc) (cm_table_manager c)) (\<lambda>rows.
     res_bind (check_rows sc (id_columns (ii_def x)) key rows) (\<lambda>_.
     check_indexes sc c vs xs)))"

definition check_unique_constraints :: "TableScanner \<Rightarrow> row \<Rightarrow> 'fm CatalogManager \<Rightarrow> unit res" where
  "check_unique_constraints sc vs c = check_indexes sc c vs
     (get_table_unique_indexes (td_table_id (sc_table_def sc)) (cm_index_manager c))"

subsection \<open>Keys and inserts\<close>

text \<open>
  The key of a row in the B-tree: the encodings of its primary key columns, or its row id, or the time
  in nanoseconds.
\<close>

definition primary_key_columns :: "TableScanner \<Rightarrow> nat list" where
  "primary_key_columns sc = map fst (filter (\<lambda>(i, col). cd_primary_key col)
     (zip [0..<length (td_columns (sc_table_def sc))] (td_columns (sc_table_def sc))))"

definition generate_row_key :: "'fm scan_lib \<Rightarrow> 128 word \<Rightarrow> TableScanner \<Rightarrow> RowData \<Rightarrow> bytes" where
  "generate_row_key S now sc r =
     (if primary_key_columns sc \<noteq> []
      then concat (map (\<lambda>i. if i < length (rd_values r) then sl_value S (rd_values r ! i) else [])
                    (primary_key_columns sc))
      else case rd_row_id r of Some i \<Rightarrow> le_encode i | None \<Rightarrow> le_encode now)"

text \<open>What runs on the buffer pool of the database.\<close>

definition on_pool :: "('fm, 'a) bp_op \<Rightarrow> ('fm, 'a) cm_op" where
  "on_pool m = on_tables (\<lambda>s. case tm_buffer_manager s of
       None \<Rightarrow> (Panic ''no buffer pool'', s)
     | Some b \<Rightarrow> (case m b of (r, b1) \<Rightarrow> (r, s\<lparr>tm_buffer_manager := Some b1\<rparr>)))"

definition on_btree :: "PageId \<Rightarrow> ('fm, 'a) bt_op \<Rightarrow> ('fm, 'a \<times> PageId) bp_op" where
  "on_btree root m b = (case m (BTree_load root b) of (r, t) \<Rightarrow>
     (res_bind r (\<lambda>x. Ok (x, bt_root_page_id t)), bt_pool t))"

text \<open>
  Entering the key of a stored row in the B-tree, which is created when the table has none. The root
  after the operation is that of the scanner, also for the next row.
\<close>

definition index_row_key :: "'fm scan_lib \<Rightarrow> bytes \<Rightarrow> TableScanner \<Rightarrow> ('fm, TableScanner) cm_op" where
  "index_row_key S key sc =
     st_bind (case sc_btree sc of
         Some root \<Rightarrow> st_return root
       | None \<Rightarrow> st_bind (on_pool (BTree_new (tl_ops (sl_tables S)) (sl_btree S))) (\<lambda>root.
           st_bind (on_tables (update_table_root_page (sc_table_name sc) root)) (\<lambda>_. st_return root)))
       (\<lambda>root. st_bind (on_pool (on_btree root
             (btree_insert (sl_depth S) (tl_ops (sl_tables S)) (sl_btree S) key 1)))
          (\<lambda>(_, root1). st_bind (on_tables (update_table_root_page (sc_table_name sc) root1))
            (\<lambda>_. st_return (sc\<lparr>sc_btree := Some root1\<rparr>))))"

definition scanner_insert_row ::
    "'fm scan_lib \<Rightarrow> 128 word \<Rightarrow> RowData \<Rightarrow> TableScanner \<Rightarrow> ('fm, TableScanner) cm_op" where
  "scanner_insert_row S now r sc =
     st_bind (\<lambda>c. (check_unique_constraints sc (rd_values r) c, c)) (\<lambda>_.
     st_bind (on_tables (tm_insert (sl_tables S) (sc_table_name sc) (rd_values r))) (\<lambda>_.
     index_row_key S (generate_row_key S now sc r) sc))"

definition scanner_delete_row ::
    "'fm scan_lib \<Rightarrow> bytes \<Rightarrow> TableScanner \<Rightarrow> ('fm, bool) cm_op" where
  "scanner_delete_row S key sc =
     (case sc_btree sc of
        None \<Rightarrow> st_return False
      | Some root \<Rightarrow> st_bind (on_pool (on_btree root
            (btree_delete (sl_depth S) (tl_ops (sl_tables S)) (sl_btree S) key))) (\<lambda>_. st_return True))"

text \<open>A found key is answered with a fixed row, whatever the table holds.\<close>

definition scanner_get_row ::
    "'fm scan_lib \<Rightarrow> bytes \<Rightarrow> TableScanner \<Rightarrow> ('fm, RowData option) cm_op" where
  "scanner_get_row S key sc =
     (case sc_btree sc of
        None \<Rightarrow> st_fail (StorageError ''Table has no data'')
      | Some root \<Rightarrow> st_bind (on_pool (on_btree root
            (btree_search (sl_depth S) (tl_ops (sl_tables S)) (sl_btree S) key))) (\<lambda>(found, _).
          st_return (case found of
              Some _ \<Rightarrow> Some (RowData_new [IntegerV 1, StringV ''test''])
            | None \<Rightarrow> None)))"

subsection \<open>Validation\<close>

definition validate_column_type :: "DataType \<Rightarrow> Value \<Rightarrow> unit res" where
  "validate_column_type expected_type v =
     (if (case (dt_kind expected_type, v) of
            (IntegerT, IntegerV _) \<Rightarrow> True | (SerialT, IntegerV _) \<Rightarrow> True
          | (BigIntT, IntegerV _) \<Rightarrow> True | (BigSerialT, IntegerV _) \<Rightarrow> True
          | (RealT, FloatV _) \<Rightarrow> True | (DoublePrecisionT, FloatV _) \<Rightarrow> True
          | (NumericT _ _, FloatV _) \<Rightarrow> True | (DecimalT _ _, FloatV _) \<Rightarrow> True
          | (TextT, StringV _) \<Rightarrow> True | (VarcharT _, StringV _) \<Rightarrow> True
          | (TimestampT, StringV _) \<Rightarrow> True | (TimestampT, TimestampV _) \<Rightarrow> True
          | (TimestampWithTimeZoneT, StringV _) \<Rightarrow> True | (TimestampWithTimeZoneT, TimestampV _) \<Rightarrow> True
          | (DateT, StringV _) \<Rightarrow> True | (TimeT, StringV _) \<Rightarrow> True
          | (TimeWithTimeZoneT, StringV _) \<Rightarrow> True | (IntervalT, StringV _) \<Rightarrow> True
          | (BooleanT, BooleanV _) \<Rightarrow> True
          | _ \<Rightarrow> False)
      then Ok () else Err (TypeError ''Type mismatch''))"

definition validate_column :: "ColumnDef \<Rightarrow> Value \<Rightarrow> unit res" where
  "validate_column col v =
     (if \<not> cd_nullable col \<and> v = NullV then Err (TypeError ''Column cannot be NULL'')
      else if v = NullV then Ok ()
      else validate_column_type (cd_data_type col) v)"

fun validate_columns :: "(ColumnDef \<times> Value) list \<Rightarrow> unit res" where
  "validate_columns [] = Ok ()"
| "validate_columns ((col, v) # rest) = res_bind (validate_column col v) (\<lambda>_. validate_columns rest)"

definition validate_row_data :: "TableScanner \<Rightarrow> RowData \<Rightarrow> unit res" where
  "validate_row_data sc r =
     (if length (rd_values r) \<noteq> length (td_columns (sc_table_def sc))
      then Err (TypeError ''Column count mismatch'')
      else validate_columns (zip (td_columns (sc_table_def sc)) (rd_values r)))"

subsection \<open>Lemmas: what an operation leaves alone\<close>

definition preserves :: "('s \<Rightarrow> 'v) \<Rightarrow> ('s, 'a) op \<Rightarrow> bool" where
  "preserves obs m \<longleftrightarrow> (\<forall>s. obs (snd (m s)) = obs s)"

named_theorems preserve_intros

lemma preservesD: "preserves obs m \<Longrightarrow> m s = (r, s') \<Longrightarrow> obs s' = obs s"
  unfolding preserves_def by (metis snd_conv)

lemma preserves_base [preserve_intros]:
  "preserves obs (st_return x)" "preserves obs (st_fail e)"
  by (simp_all add: preserves_def)

lemma preserves_bind [preserve_intros]:
  assumes "preserves obs m" "\<And>x. preserves obs (f x)"
  shows "preserves obs (st_bind m f)"
  unfolding preserves_def
proof
  fix s
  obtain r s' where run: "st_bind m f s = (r, s')" by fastforce
  from this have "obs s' = obs s"
  proof (cases rule: st_bind_cases)
    case (ok x s1)
    then show ?thesis using preservesD [OF assms(1) ok(1)] preservesD [OF assms(2) ok(2)] by simp
  qed (auto dest: preservesD [OF assms(1)])
  then show "obs (snd (st_bind m f s)) = obs s" by (simp add: run)
qed

lemma preserves_option [preserve_intros]:
  "preserves obs m \<Longrightarrow> (\<And>x. preserves obs (f x)) \<Longrightarrow> preserves obs (case v of None \<Rightarrow> m | Some x \<Rightarrow> f x)"
  by (cases v) simp_all

lemma preserves_prod [preserve_intros]:
  "(\<And>x y. preserves obs (f x y)) \<Longrightarrow> preserves obs (case p of (x, y) \<Rightarrow> f x y)"
  by (cases p) simp

definition cat_rows :: "'fm CatalogManager \<Rightarrow> string \<Rightarrow> row list res" where
  "cat_rows c = (\<lambda>n. tm_select n (cm_table_manager c))"

lemma preserves_pool [preserve_intros]: "preserves cat_rows (on_pool m)"
  by (simp add: preserves_def cat_rows_def on_pool_def on_tables_def tm_select_def
      split: option.split prod.split)

lemma preserves_root_page [preserve_intros]:
  "preserves cat_rows (on_tables (update_table_root_page n p))"
  by (auto simp: preserves_def cat_rows_def on_tables_def update_table_root_page_def tm_select_def hm_contains_def
      fun_eq_iff split: option.split prod.split)

lemma preserves_indexes: "preserves cm_index_manager (on_tables m)" "preserves cm_index_manager (on_pool m2)"
  by (simp_all add: preserves_def on_pool_def on_tables_def split: prod.split)

subsection \<open>Lemmas: iteration\<close>

declare remaining_rows.simps [simp del]

lemma remaining_rows_drop: "remaining_rows it = drop (ri_current_index it) (ri_sample_data it)"
proof (induction it rule: remaining_rows.induct)
  case (1 it)
  show ?case
  proof (cases "ri_current_index it < length (ri_sample_data it)")
    case True
    then show ?thesis
      using 1 [OF _ refl] by (subst remaining_rows.simps) (simp add: next_row_def Cons_nth_drop_Suc)
  next
    case False
    then show ?thesis by (subst remaining_rows.simps) (simp add: next_row_def)
  qed
qed

lemma remaining_rows_from_rows [simp]:
  "remaining_rows (SimpleRowIterator_from_rows rows cmap cols) = rows"
  by (simp add: remaining_rows_drop SimpleRowIterator_from_rows_def)

lemma iterator_column_names_from_rows [simp]:
  "iterator_column_names (SimpleRowIterator_from_rows rows cmap cols) = map cd_name cols"
  by (simp add: iterator_column_names_def SimpleRowIterator_from_rows_def)

lemma length_number_from [simp]: "length (number_from i rows) = length rows"
  by (induction i rows rule: number_from.induct) simp_all

lemma number_from_values [simp]: "map rd_values (number_from i rows) = rows"
  by (induction i rows rule: number_from.induct) (simp_all add: RowData_with_id_def)

lemma number_from_append: "number_from i (xs @ ys) = number_from i xs @ number_from (i + length xs) ys"
  by (induction i xs rule: number_from.induct) simp_all

lemma scan_all_Ok:
  assumes "scan_all sc c = Ok it"
  obtains rows where "cat_rows c (sc_table_name sc) = Ok rows" "remaining_rows it = number_from 0 rows"
    "iterator_column_names it = map cd_name (td_columns (sc_table_def sc))"
  using assms by (cases "tm_select (sc_table_name sc) (cm_table_manager c)")
    (auto simp: scan_all_def cat_rows_def)

subsection \<open>Lemmas: unique constraints\<close>

lemma check_rows_Ok:
  "check_rows sc names key rows = Ok () \<longleftrightarrow>
     (\<forall>r \<in> set rows. \<exists>k. index_key sc names r = Ok k \<and> \<not> values_eq key k)"
proof (induction rows)
  case (Cons r rows)
  then show ?case by (cases "index_key sc names r") auto
qed simp

lemma get_all_rows_cat:
  "get_all_rows n (cm_table_manager c) = (case cat_rows c n of Ok rows \<Rightarrow> Ok rows | _ \<Rightarrow> Ok [])"
  by (auto simp: get_all_rows_def cat_rows_def tm_select_def split: option.split)

lemma check_indexes_Ok:
  assumes "cat_rows c (sc_table_name sc) = Ok rows"
  shows "check_indexes sc c vs xs = Ok () \<longleftrightarrow>
    (\<forall>x \<in> set xs. \<exists>key. index_key sc (id_columns (ii_def x)) vs = Ok key \<and>
       (\<forall>r \<in> set rows. \<exists>k. index_key sc (id_columns (ii_def x)) r = Ok k \<and> \<not> values_eq key k))"
proof (induction xs)
  case (Cons x xs)
  show ?case
  proof (cases "index_key sc (id_columns (ii_def x)) vs")
    case (Ok key)
    show ?thesis
      using Cons check_rows_Ok [of sc "id_columns (ii_def x)" key rows]
      by (cases "check_rows sc (id_columns (ii_def x)) key rows") (auto simp: Ok get_all_rows_cat assms)
  qed auto
qed simp

text \<open>
  Rows that differ on the columns of a unique index: the key of a later row, where both rows have one,
  is not equal to the key of an earlier row.
\<close>

definition differ_on :: "TableScanner \<Rightarrow> string list \<Rightarrow> row \<Rightarrow> row \<Rightarrow> bool" where
  "differ_on sc names earlier later \<longleftrightarrow> (\<forall>k l. index_key sc names later = Ok k \<longrightarrow>
     index_key sc names earlier = Ok l \<longrightarrow> \<not> values_eq k l)"

definition rows_unique :: "TableScanner \<Rightarrow> 'fm CatalogManager \<Rightarrow> row list \<Rightarrow> bool" where
  "rows_unique sc c rows \<longleftrightarrow>
     (\<forall>x \<in> set (get_table_unique_indexes (td_table_id (sc_table_def sc)) (cm_index_manager c)).
        sorted_wrt (differ_on sc (id_columns (ii_def x))) rows)"

lemma check_unique_append:
  assumes "cat_rows c (sc_table_name sc) = Ok rows" "check_unique_constraints sc vs c = Ok ()"
    and "rows_unique sc c rows"
  shows "rows_unique sc c (rows @ [vs])"
  using assms(2,3)
  by (fastforce simp: check_unique_constraints_def check_indexes_Ok [OF assms(1)] rows_unique_def
      differ_on_def sorted_wrt_append)

subsection \<open>Lemmas: inserting\<close>

lemma tm_insert_cat:
  assumes "cat_rows c n = Ok rows" "on_tables (tm_insert E n row) c = (r, c')"
  shows "cat_rows c' n = Ok (rows @ [row])" "m \<noteq> n \<Longrightarrow> cat_rows c' m = cat_rows c m"
proof -
  obtain t where t: "tm_insert E n row (cm_table_manager c) = (r, t)" "c' = c\<lparr>cm_table_manager := t\<rparr>"
    using assms(2) by (cases "tm_insert E n row (cm_table_manager c)") (simp add: on_tables_def)
  note rows = tm_insert_rows [OF _ t(1), of rows]
  show "cat_rows c' n = Ok (rows @ [row])" "m \<noteq> n \<Longrightarrow> cat_rows c' m = cat_rows c m"
    using rows(1,2) assms(1) by (simp_all add: cat_rows_def t(2))
qed

lemma preserves_index_row_key: "preserves cat_rows (index_row_key S key sc)"
  unfolding index_row_key_def by (intro preserve_intros)

lemma scanner_insert_row_refused:
  "check_unique_constraints sc (rd_values rd) c = Err e \<Longrightarrow> scanner_insert_row S now rd sc c = (Err e, c)"
  "check_unique_constraints sc (rd_values rd) c = Panic t \<Longrightarrow> scanner_insert_row S now rd sc c = (Panic t, c)"
  by (simp_all add: scanner_insert_row_def)

lemma scanner_insert_row_rows:
  assumes "cat_rows c (sc_table_name sc) = Ok rows" "check_unique_constraints sc (rd_values rd) c = Ok ()"
    and "scanner_insert_row S now rd sc c = (r, c')"
  shows "cat_rows c' (sc_table_name sc) = Ok (rows @ [rd_values rd])"
    "m \<noteq> sc_table_name sc \<Longrightarrow> cat_rows c' m = cat_rows c m"
proof -
  from assms(2,3) have run: "st_bind (on_tables (tm_insert (sl_tables S) (sc_table_name sc) (rd_values rd)))
      (\<lambda>_. index_row_key S (generate_row_key S now sc rd) sc) c = (r, c')"
    by (simp add: scanner_insert_row_def)
  then have "cat_rows c' (sc_table_name sc) = Ok (rows @ [rd_values rd]) \<and>
      (m \<noteq> sc_table_name sc \<longrightarrow> cat_rows c' m = cat_rows c m)"
  proof (cases rule: st_bind_cases)
    case (ok x s1)
    then show ?thesis
      using tm_insert_cat [OF assms(1) ok(1)] preservesD [OF preserves_index_row_key ok(2)] by simp
  qed (use tm_insert_cat [OF assms(1)] in auto)
  then show "cat_rows c' (sc_table_name sc) = Ok (rows @ [rd_values rd])"
    "m \<noteq> sc_table_name sc \<Longrightarrow> cat_rows c' m = cat_rows c m" by auto
qed

text \<open>
  The unique check leaves primary keys out: when a table has no other unique index, it accepts every row,
  also one whose primary key is in the table already.
\<close>

theorem primary_key_unchecked:
  assumes "\<forall>x \<in> set (list_table_indexes (td_table_id (sc_table_def sc)) (cm_index_manager c)).
    id_unique (ii_def x) \<longrightarrow> id_primary_key (ii_def x)"
  shows "check_unique_constraints sc vs c = Ok ()"
proof -
  have "get_table_unique_indexes (td_table_id (sc_table_def sc)) (cm_index_manager c) = []"
    using assms by (auto simp: get_table_unique_indexes_def filter_empty_conv)
  then show ?thesis by (simp add: check_unique_constraints_def)
qed

text \<open>
  A row is stored before its key is entered in the B-tree, and without a look at the types and the NOT NULL
  of its columns: once the unique check has passed, the row is in the table whatever follows.
\<close>

theorem insert_stores_unvalidated_row:
  assumes "tm_select (sc_table_name sc) (cm_table_manager c) = Ok rows" "check_unique_constraints sc vs c = Ok ()"
  shows "tm_select (sc_table_name sc) (cm_table_manager (snd (scanner_insert_row S now (RowData_new vs) sc c))) = Ok (rows @ [vs])"
  using scanner_insert_row_rows(1) [of c sc rows "RowData_new vs" S now, OF _ _ prod.collapse [symmetric]] assms
  by (simp add: cat_rows_def RowData_new_def)

end
