(* ===== verification/Dml.thy ===== *)
theory Dml
  imports Table_Scanner
begin

section \<open>Statements on a table (\<^verbatim>\<open>src/src/executor/operators.rs\<close>, first part)\<close>

text \<open>
  The operators that read and write a table: scan, insert, update and delete, as \<^verbatim>\<open>PlanNode::execute\<close>
  calls them. They run on the state of the transaction manager, whose catalog is that of the execution
  context; the context has a catalog and a buffer pool together, as every executor is given both.

  The lemmas show what each statement does to the rows of its table, also when it fails on the way.
\<close>

subsection \<open>Scan\<close>

definition scanner_of :: "string \<Rightarrow> 'fm TransactionManager \<Rightarrow> TableScanner res option" where
  "scanner_of table_name s = map_option (TableScanner_new table_name) (xm_catalog s)"

definition scan_catalog :: "TableScanner \<Rightarrow> ('fm, SimpleRowIterator) xm_op" where
  "scan_catalog sc = on_catalog (\<lambda>c. (scan_all sc c, c))"

definition scan_execute :: "string \<Rightarrow> ('fm, QueryResult) xm_op" where
  "scan_execute table_name s =
     (case scanner_of table_name s of
        None \<Rightarrow> (Err (ExecutionError ''No scanner available''), s)
      | Some scanner \<Rightarrow> st_bind (lift_res scanner) (\<lambda>sc. st_bind (scan_catalog sc) (\<lambda>it.
          st_return \<lparr>qr_rows = map rd_values (remaining_rows it), qr_column_names = iterator_column_names it\<rparr>)) s)"

text \<open>
  The index scans: the condition on the index is kept but not looked at, and the constructor that takes a
  scanner drops it. The other branch is a full scan of the requested columns.
\<close>

record IndexScanOperator =
  io_table_name :: string
  io_index_name :: string
  io_index_condition :: "expr option"
  io_scanner :: "TableScanner option"
  io_columns :: "string list"

definition IndexScanOperator_new :: "string \<Rightarrow> string \<Rightarrow> expr option \<Rightarrow> string list \<Rightarrow> IndexScanOperator" where
  "IndexScanOperator_new table_name index_name condition columns =
     \<lparr>io_table_name = table_name, io_index_name = index_name, io_index_condition = condition, io_scanner = None,
      io_columns = columns\<rparr>"

definition IndexScanOperator_with_scanner ::
    "string \<Rightarrow> string \<Rightarrow> expr option \<Rightarrow> string list \<Rightarrow> TableScanner \<Rightarrow> IndexScanOperator" where
  "IndexScanOperator_with_scanner table_name index_name condition columns scanner =
     \<lparr>io_table_name = table_name, io_index_name = index_name, io_index_condition = condition, io_scanner = None,
      io_columns = columns\<rparr>"

fun select_columns :: "string list \<Rightarrow> string list \<Rightarrow> row \<Rightarrow> row res" where
  "select_columns column_names [] vs = Ok []"
| "select_columns column_names (c # cs) vs =
     (case index_of c column_names of
        None \<Rightarrow> select_columns column_names cs vs
      | Some i \<Rightarrow> if i < length vs then res_bind (select_columns column_names cs vs) (\<lambda>rest. Ok (vs ! i # rest))
                 else Panic ''index out of bounds'')"

definition index_scan_execute :: "IndexScanOperator \<Rightarrow> ('fm, QueryResult) xm_op" where
  "index_scan_execute I =
     (case io_scanner I of
        None \<Rightarrow> st_return \<lparr>qr_rows = [], qr_column_names = io_columns I\<rparr>
      | Some scanner \<Rightarrow> st_bind (scan_catalog scanner) (\<lambda>it.
          let names = iterator_column_names it;
              columns = (if io_columns I = [] then names else io_columns I)
          in st_bind (lift_res (map_rows (\<lambda>rd. select_columns names columns (rd_values rd)) (remaining_rows it))) (\<lambda>rows.
             st_return \<lparr>qr_rows = rows, qr_column_names = columns\<rparr>)))"

definition index_only_scan_execute :: "IndexScanOperator \<Rightarrow> ('fm, QueryResult) xm_op" where
  "index_only_scan_execute I = index_scan_execute I"

subsection \<open>Insert\<close>

text \<open>The clock: the reading for a SERIAL column of a row, and the one for the key of a row.\<close>

record insert_clock =
  ck_serial :: "nat \<Rightarrow> nat \<Rightarrow> i64"
  ck_key :: "nat \<Rightarrow> 128 word"

definition generate_auto_increment_value :: "i64 \<Rightarrow> i64" where
  "generate_auto_increment_value timestamp = of_int (sint timestamp smod 1000000) + 1"

definition provided_values :: "expr_lib \<Rightarrow> expr list \<Rightarrow> Value list res" where
  "provided_values L es = all_values (map (\<lambda>e. value_or_null (evaluate L EvaluationContext_new e)) es)"

fun place_columns :: "TableScanner \<Rightarrow> string list \<Rightarrow> Value list \<Rightarrow> row \<Rightarrow> row" where
  "place_columns sc (n # ns) (v # vs) full =
     place_columns sc ns vs (case get_column_index sc n of Some i \<Rightarrow> full[i := v] | None \<Rightarrow> full)"
| "place_columns sc _ _ full = full"

definition fill_column :: "(nat \<Rightarrow> i64) \<Rightarrow> nat \<Rightarrow> ColumnDef \<Rightarrow> Value \<Rightarrow> Value" where
  "fill_column serial i col v =
     (if v = NullV then
        (if dt_kind (cd_data_type col) = SerialT then IntegerV (generate_auto_increment_value (serial i))
         else case cd_default_value col of Some d \<Rightarrow> d | None \<Rightarrow> v)
      else v)"

definition map_values_to_table_schema ::
    "(nat \<Rightarrow> i64) \<Rightarrow> TableScanner \<Rightarrow> string list \<Rightarrow> Value list \<Rightarrow> row" where
  "map_values_to_table_schema serial sc columns provided =
     (let cols = td_columns (sc_table_def sc);
          nulls = replicate (length cols) NullV;
          full = (if columns = [] then take (length cols) provided @ drop (length provided) nulls
                  else place_columns sc columns provided nulls)
      in map (\<lambda>(i, col, v). fill_column serial i col v) (zip [0..<length cols] (zip cols full)))"

fun insert_rows ::
    "expr_lib \<Rightarrow> 'fm scan_lib \<Rightarrow> insert_clock \<Rightarrow> string list \<Rightarrow> TableScanner \<Rightarrow> nat \<Rightarrow> expr list list \<Rightarrow>
     ('fm, unit) xm_op" where
  "insert_rows L S K columns sc i [] s = (Ok (), s)"
| "insert_rows L S K columns sc i (es # ess) s =
     st_bind (lift_res (provided_values L es)) (\<lambda>provided.
     st_bind (on_catalog (scanner_insert_row S (ck_key K i)
         (RowData_new (map_values_to_table_schema (ck_serial K i) sc columns provided)) sc)) (\<lambda>sc1.
     insert_rows L S K columns sc1 (Suc i) ess)) s"

definition message_result :: QueryResult where
  "message_result = \<lparr>qr_rows = [], qr_column_names = [''message'']\<rparr>"

text \<open>Without a scanner the rows are evaluated and dropped, and the statement succeeds.\<close>

definition insert_execute ::
    "expr_lib \<Rightarrow> 'fm scan_lib \<Rightarrow> insert_clock \<Rightarrow> string \<Rightarrow> string list \<Rightarrow> expr list list \<Rightarrow> ('fm, QueryResult) xm_op" where
  "insert_execute L S K table_name columns vals s =
     st_bind (case scanner_of table_name s of
         Some (Ok sc) \<Rightarrow> insert_rows L S K columns sc 0 vals
       | _ \<Rightarrow> lift_res (res_bind (all_values (map (\<lambda>es. res_bind (provided_values L es) (\<lambda>vs. Ok (ListV vs))) vals)) (\<lambda>_. Ok ())))
       (\<lambda>_. st_return message_result) s"

subsection \<open>Update\<close>

definition row_context :: "string list \<Rightarrow> row \<Rightarrow> EvaluationContext" where
  "row_context column_names vs = ec_with_columns (row_columns None column_names vs [])"

definition row_selected :: "expr_lib \<Rightarrow> expr option \<Rightarrow> string list \<Rightarrow> row \<Rightarrow> bool res" where
  "row_selected L condition column_names vs =
     (case condition of None \<Rightarrow> Ok True | Some e \<Rightarrow> row_passes L e (row_context column_names vs))"

fun apply_assignments ::
    "expr_lib \<Rightarrow> string list \<Rightarrow> EvaluationContext \<Rightarrow> (string \<times> expr) list \<Rightarrow> row \<Rightarrow> row res" where
  "apply_assignments L column_names ctx [] vs = Ok vs"
| "apply_assignments L column_names ctx ((name, e) # rest) vs =
     res_bind (evaluate L ctx e) (\<lambda>v. apply_assignments L column_names ctx rest
       (case index_of name column_names of Some i \<Rightarrow> vs[i := v] | None \<Rightarrow> vs))"

text \<open>The new row of a selected one, validated; \<^verbatim>\<open>None\<close> for the others.\<close>

definition updated_row ::
    "expr_lib \<Rightarrow> TableScanner \<Rightarrow> string list \<Rightarrow> (string \<times> expr) list \<Rightarrow> expr option \<Rightarrow> RowData \<Rightarrow> RowData option res" where
  "updated_row L sc column_names assignments condition rd =
     res_bind (row_selected L condition column_names (rd_values rd)) (\<lambda>selected.
       if \<not> selected then Ok None
       else res_bind (apply_assignments L column_names (row_context column_names (rd_values rd)) assignments (rd_values rd))
         (\<lambda>new_values. let rd1 = rd\<lparr>rd_values := new_values\<rparr> in res_bind (validate_row_data sc rd1) (\<lambda>_. Ok (Some rd1))))"

definition update_row_data :: "'fm scan_lib \<Rightarrow> string \<Rightarrow> RowData \<Rightarrow> ('fm, unit) xm_op" where
  "update_row_data S table_name rd =
     (case rd_row_id rd of
        None \<Rightarrow> st_fail (ExecutionError ''Cannot update row: row_id not set'')
      | Some i \<Rightarrow> on_catalog (on_tables (update_row (sl_tables S) table_name (unat i) (rd_values rd))))"

fun update_loop ::
    "expr_lib \<Rightarrow> 'fm scan_lib \<Rightarrow> string \<Rightarrow> TableScanner \<Rightarrow> string list \<Rightarrow> (string \<times> expr) list \<Rightarrow> expr option \<Rightarrow>
     RowData list \<Rightarrow> ('fm, unit) xm_op" where
  "update_loop L S table_name sc column_names assignments condition [] s = (Ok (), s)"
| "update_loop L S table_name sc column_names assignments condition (rd # rds) s =
     st_bind (lift_res (updated_row L sc column_names assignments condition rd)) (\<lambda>new.
     st_bind (case new of None \<Rightarrow> st_return () | Some rd1 \<Rightarrow> update_row_data S table_name rd1) (\<lambda>_.
     update_loop L S table_name sc column_names assignments condition rds)) s"

definition update_execute ::
    "expr_lib \<Rightarrow> 'fm scan_lib \<Rightarrow> string \<Rightarrow> (string \<times> expr) list \<Rightarrow> expr option \<Rightarrow> ('fm, QueryResult) xm_op" where
  "update_execute L S table_name assignments condition s =
     (case scanner_of table_name s of
        None \<Rightarrow> (Ok \<lparr>qr_rows = [], qr_column_names = []\<rparr>, s)
      | Some scanner \<Rightarrow>
          st_bind (lift_res scanner) (\<lambda>sc.
          st_bind (scan_catalog sc) (\<lambda>it.
          st_bind (update_loop L S table_name sc (iterator_column_names it) assignments condition (remaining_rows it))
            (\<lambda>_. st_return message_result))) s)"

subsection \<open>Delete\<close>

text \<open>The rows go from the highest number to the lowest; a row without a number comes last.\<close>

definition descending_key :: "RowData \<Rightarrow> int" where
  "descending_key rd = (case rd_row_id rd of Some i \<Rightarrow> - uint i | None \<Rightarrow> 1)"

fun delete_loop ::
    "txn_lib \<Rightarrow> 'fm tm_lib \<Rightarrow> string \<Rightarrow> TransactionId option \<Rightarrow> RowData list \<Rightarrow> ('fm, unit) xm_op" where
  "delete_loop X E table_name tx [] s = (Ok (), s)"
| "delete_loop X E table_name tx (rd # rds) s =
     st_bind (delete_row_data X E table_name tx (map_option unat (rd_row_id rd)))
       (\<lambda>_. delete_loop X E table_name tx rds) s"

text \<open>A table that has no scanner is left alone, and the statement succeeds.\<close>

definition delete_execute ::
    "expr_lib \<Rightarrow> 'fm scan_lib \<Rightarrow> txn_lib \<Rightarrow> string \<Rightarrow> expr option \<Rightarrow> TransactionId option \<Rightarrow> ('fm, QueryResult) xm_op" where
  "delete_execute L S X table_name condition tx s =
     st_bind (case scanner_of table_name s of
         Some (Ok sc) \<Rightarrow>
           st_bind (scan_catalog sc) (\<lambda>it.
           st_bind (lift_res (filter_rows (\<lambda>rd. row_selected L condition (iterator_column_names it) (rd_values rd))
               (remaining_rows it))) (\<lambda>rows_to_delete.
           delete_loop X (sl_tables S) table_name tx (sort_key descending_key rows_to_delete)))
       | _ \<Rightarrow> st_return ())
       (\<lambda>_. st_return \<lparr>qr_rows = [], qr_column_names = []\<rparr>) s"

subsection \<open>What the statements mean for one row\<close>

text \<open>The row an UPDATE leaves in the place of a row, and the row an INSERT stores for a list of expressions.\<close>

definition column_names_of :: "TableScanner \<Rightarrow> string list" where
  "column_names_of sc = map cd_name (td_columns (sc_table_def sc))"

definition row_after_update ::
    "expr_lib \<Rightarrow> TableScanner \<Rightarrow> (string \<times> expr) list \<Rightarrow> expr option \<Rightarrow> row \<Rightarrow> row res" where
  "row_after_update L sc assignments condition vs =
     res_bind (row_selected L condition (column_names_of sc) vs) (\<lambda>selected.
       if \<not> selected then Ok vs
       else res_bind (apply_assignments L (column_names_of sc) (row_context (column_names_of sc) vs) assignments vs)
         (\<lambda>new_values. res_bind (validate_row_data sc (RowData_new new_values)) (\<lambda>_. Ok new_values)))"

definition row_valid :: "TableScanner \<Rightarrow> row \<Rightarrow> bool" where
  "row_valid sc vs \<longleftrightarrow> validate_row_data sc (RowData_new vs) = Ok ()"

definition inserted_row ::
    "expr_lib \<Rightarrow> insert_clock \<Rightarrow> TableScanner \<Rightarrow> string list \<Rightarrow> nat \<Rightarrow> expr list \<Rightarrow> row res" where
  "inserted_row L K sc columns i es = res_bind (provided_values L es) (\<lambda>provided.
     Ok (map_values_to_table_schema (ck_serial K i) sc columns provided))"

text \<open>The table manager writes to no buffer pool.\<close>

definition no_pool :: "'fm TransactionManager \<Rightarrow> bool" where
  "no_pool s \<longleftrightarrow> (\<exists>c. xm_catalog s = Some c \<and> tm_buffer_manager (cm_table_manager c) = None)"

subsection \<open>Lemmas: statements and their catalog\<close>

lemma lift_res_Ok [simp]: "lift_res (Ok x) s = (Ok x, s)"
  by (simp add: lift_res_def)

lemma lift_res_cases:
  assumes "st_bind (lift_res x) f s = (r, s')"
  obtains (ok) y where "x = Ok y" "f y s = (r, s')"
  | (stop) "s' = s" "\<And>y. r \<noteq> Ok y" "\<And>y. x \<noteq> Ok y"
  using assms by (cases x) (auto simp: lift_res_def)

lemma on_tables_catalog:
  assumes "xm_catalog s = Some c" "on_catalog (on_tables m) s = (r, s')"
  obtains t where "m (cm_table_manager c) = (r, t)"
    "s' = s\<lparr>xm_catalog := Some (c\<lparr>cm_table_manager := t\<rparr>)\<rparr>"
  using assms by (cases "m (cm_table_manager c)") (auto simp: on_catalog_def on_tables_def)

lemma update_row_rows:
  assumes "tm_select n s = Ok rows" "i < length rows" "update_row E n i row s = (r, s')"
  shows "tm_select n s' = Ok (rows[i := row])" "m \<noteq> n \<Longrightarrow> tm_select m s' = tm_select m s"
    "tm_buffer_manager s = None \<Longrightarrow> r = Ok () \<and> tm_buffer_manager s' = None"
proof -
  obtain t where t: "hm_get (tm_tables s) n = Some t" "rows = st_data t"
    using assms(1) by (auto simp: tm_select_def split: option.splits)
  have run: "with_buffer (persist_row_to_disk E row) (set_rows n (rows[i := row]) s) = (r, s')"
    using assms(2,3) t by (simp add: update_row_def)
  then have s': "tm_tables s' = tm_tables (set_rows n (rows[i := row]) s)"
    using with_buffer_tables [of "persist_row_to_disk E row"] by (metis snd_conv)
  show "tm_select n s' = Ok (rows[i := row])" by (simp add: tm_select_def s' set_rows_get t)
  show "m \<noteq> n \<Longrightarrow> tm_select m s' = tm_select m s" by (simp add: tm_select_def s' set_rows_get)
  show "tm_buffer_manager s = None \<Longrightarrow> r = Ok () \<and> tm_buffer_manager s' = None"
    using run by (auto simp: with_buffer_def set_rows_def)
qed

lemma update_row_data_rows:
  assumes "txn_select n s = Ok rows" "i < length rows" "length rows < 2 ^ 64"
    and "update_row_data S n (RowData_with_id vs (of_nat i)) s = (r, s')"
  shows "txn_select n s' = Ok (rows[i := vs])" "m \<noteq> n \<Longrightarrow> txn_select m s' = txn_select m s"
    "no_pool s \<Longrightarrow> r = Ok () \<and> no_pool s'"
proof -
  obtain c where c: "xm_catalog s = Some c" "tm_select n (cm_table_manager c) = Ok rows"
    using assms(1) by (auto simp: txn_select_catalog)
  have "unat (of_nat i :: u64) = i" using assms(2,3) by (simp add: unat_of_nat take_bit_nat_eq_self)
  then have "on_catalog (on_tables (update_row (sl_tables S) n i vs)) s = (r, s')"
    using assms(4) by (simp add: update_row_data_def RowData_with_id_def)
  from on_tables_catalog [OF c(1) this] obtain t where t: "update_row (sl_tables S) n i vs (cm_table_manager c) = (r, t)"
    "s' = s\<lparr>xm_catalog := Some (c\<lparr>cm_table_manager := t\<rparr>)\<rparr>" by blast
  note U = update_row_rows [OF c(2) assms(2) t(1)]
  show "txn_select n s' = Ok (rows[i := vs])" "m \<noteq> n \<Longrightarrow> txn_select m s' = txn_select m s"
    "no_pool s \<Longrightarrow> r = Ok () \<and> no_pool s'"
    using U c by (auto simp: txn_select_def no_pool_def t(2))
qed

subsection \<open>Lemmas: UPDATE\<close>

lemma validate_ignores_id: "validate_row_data sc (RowData_with_id vs i) = validate_row_data sc (RowData_new vs)"
  by (simp add: validate_row_data_def RowData_with_id_def RowData_new_def)

text \<open>Each row is left alone, replaced by its new row, or stops the statement.\<close>

lemma updated_row_cases:
  obtains (same) "updated_row L sc (column_names_of sc) as e (RowData_with_id vs i) = Ok None"
      "row_after_update L sc as e vs = Ok vs"
  | (new) vs' where "updated_row L sc (column_names_of sc) as e (RowData_with_id vs i) = Ok (Some (RowData_with_id vs' i))"
      "row_after_update L sc as e vs = Ok vs'" "row_valid sc vs'"
  | (stop) "\<And>x. updated_row L sc (column_names_of sc) as e (RowData_with_id vs i) \<noteq> Ok x"
      "\<And>x. row_after_update L sc as e vs \<noteq> Ok x"
proof (cases "row_selected L e (column_names_of sc) vs")
  case (Ok b)
  show ?thesis
  proof (cases b)
    case True
    show ?thesis
    proof (cases "apply_assignments L (column_names_of sc) (row_context (column_names_of sc) vs) as vs")
      case sel: (Ok vs')
      show ?thesis
      proof (cases "validate_row_data sc (RowData_new vs')")
        case valid: (Ok u)
        have "\<lparr>rd_values = vs', rd_row_id = Some i\<rparr> = RowData_with_id vs' i" by (simp add: RowData_with_id_def)
        then show ?thesis
          using Ok True sel valid validate_ignores_id [of sc vs' i] new [of vs']
          by (simp add: updated_row_def row_after_update_def row_valid_def RowData_with_id_def Let_def)
      qed (use Ok True sel validate_ignores_id [of sc vs' i] stop in
          \<open>simp_all add: updated_row_def row_after_update_def RowData_with_id_def Let_def\<close>)
    qed (use Ok True stop in \<open>simp_all add: updated_row_def row_after_update_def RowData_with_id_def\<close>)
  next
    case False
    then show ?thesis using Ok same by (simp add: updated_row_def row_after_update_def RowData_with_id_def)
  qed
qed (use stop in \<open>simp_all add: updated_row_def row_after_update_def RowData_with_id_def\<close>)

lemma row_after_update_valid:
  assumes "row_after_update L sc as e vs = Ok vs'" "row_valid sc vs"
  shows "row_valid sc vs'"
  using assms
  by (cases "row_selected L e (column_names_of sc) vs";
      cases "apply_assignments L (column_names_of sc) (row_context (column_names_of sc) vs) as vs")
    (auto simp: row_after_update_def row_valid_def res_bind_Ok_iff split: if_splits)

lemma update_loop_rows:
  assumes "txn_select n s = Ok (ready @ rows)" "length ready + length rows < 2 ^ 64"
    and "update_loop L S n sc (column_names_of sc) as e (number_from (length ready) rows) s = (r, s')"
  shows "\<exists>news. list_all2 (\<lambda>vs vs'. row_after_update L sc as e vs = Ok vs') (take (length news) rows) news \<and>
    txn_select n s' = Ok (ready @ news @ drop (length news) rows) \<and>
    (\<forall>m. m \<noteq> n \<longrightarrow> txn_select m s' = txn_select m s) \<and>
    (r = Ok () \<longrightarrow> length news = length rows) \<and>
    (no_pool s \<longrightarrow> (\<forall>vs \<in> set rows. \<exists>vs'. row_after_update L sc as e vs = Ok vs') \<longrightarrow> r = Ok ())"
  using assms
proof (induction rows arbitrary: ready s)
  case (Cons vs rows)
  let ?i = "of_nat (length ready) :: u64"
  note run = Cons.prems(3) [unfolded number_from.simps update_loop.simps]
  show ?case
  proof (cases rule: updated_row_cases [of L sc as e vs ?i])
    case same
    have sel: "txn_select n s = Ok ((ready @ [vs]) @ rows)" using Cons.prems(1) by simp
    from run same(1) have "update_loop L S n sc (column_names_of sc) as e (number_from (length (ready @ [vs])) rows) s = (r, s')"
      by simp
    from Cons.IH [OF sel _ this] Cons.prems(2) obtain news where "list_all2 (\<lambda>vs vs'. row_after_update L sc as e vs = Ok vs') (take (length news) rows) news"
      "txn_select n s' = Ok ((ready @ [vs]) @ news @ drop (length news) rows)" "\<forall>m. m \<noteq> n \<longrightarrow> txn_select m s' = txn_select m s"
      "r = Ok () \<longrightarrow> length news = length rows"
      "no_pool s \<longrightarrow> (\<forall>vs \<in> set rows. \<exists>vs'. row_after_update L sc as e vs = Ok vs') \<longrightarrow> r = Ok ()" by auto
    then show ?thesis using same(2) by (intro exI [of _ "vs # news"]) simp
  next
    case (new vs')
    from run new(1) have "st_bind (update_row_data S n (RowData_with_id vs' ?i))
        (\<lambda>_. update_loop L S n sc (column_names_of sc) as e (number_from (Suc (length ready)) rows)) s = (r, s')" by simp
    then show ?thesis
    proof (cases rule: st_bind_cases)
      case (ok u s1)
      note U = update_row_data_rows [OF Cons.prems(1) _ _ ok(1), simplified]
      have sel: "txn_select n s1 = Ok ((ready @ [vs']) @ rows)" using U(1) Cons.prems(2) by simp
      from ok(2) have "update_loop L S n sc (column_names_of sc) as e (number_from (length (ready @ [vs'])) rows) s1 = (r, s')"
        by simp
      from Cons.IH [OF sel _ this] Cons.prems(2) obtain news where "list_all2 (\<lambda>vs vs'. row_after_update L sc as e vs = Ok vs') (take (length news) rows) news"
        "txn_select n s' = Ok ((ready @ [vs']) @ news @ drop (length news) rows)" "\<forall>m. m \<noteq> n \<longrightarrow> txn_select m s' = txn_select m s1"
        "r = Ok () \<longrightarrow> length news = length rows"
        "no_pool s1 \<longrightarrow> (\<forall>vs \<in> set rows. \<exists>vs'. row_after_update L sc as e vs = Ok vs') \<longrightarrow> r = Ok ()" by auto
      then show ?thesis using new(2) U(2,3) Cons.prems(2) by (intro exI [of _ "vs' # news"]) simp
    next
      case (err x)
      note U = update_row_data_rows [OF Cons.prems(1) _ _ err(1), simplified]
      show ?thesis using U err(2) new(2) Cons.prems(2) by (intro exI [of _ "[vs']"]) auto
    next
      case (panic x)
      note U = update_row_data_rows [OF Cons.prems(1) _ _ panic(1), simplified]
      show ?thesis using U panic(2) new(2) Cons.prems(2) by (intro exI [of _ "[vs']"]) auto
    next
      case deadlock
      note U = update_row_data_rows [OF Cons.prems(1) _ _ deadlock(1), simplified]
      show ?thesis using U deadlock(2) new(2) Cons.prems(2) by (intro exI [of _ "[vs']"]) auto
    qed
  next
    case stop
    from run have "s' = s \<and> r \<noteq> Ok ()"
      by (cases rule: lift_res_cases) (use stop(1) in auto)
    then show ?thesis using Cons.prems(1) stop(2) by (intro exI [of _ "[]"]) auto
  qed
qed simp

subsection \<open>Lemmas: DELETE\<close>

lemma on_delete_row_pool:
  assumes "no_pool s" "txn_select n s = Ok rows" "i < length rows"
    and "on_catalog (on_tables (delete_row E n i)) s = (r, s')"
  shows "is_ok r \<and> no_pool s'"
proof -
  obtain c where c: "xm_catalog s = Some c" "tm_buffer_manager (cm_table_manager c) = None"
    using assms(1) by (auto simp: no_pool_def)
  from on_tables_catalog [OF c(1) assms(4)] obtain t where t: "delete_row E n i (cm_table_manager c) = (r, t)"
    "s' = s\<lparr>xm_catalog := Some (c\<lparr>cm_table_manager := t\<rparr>)\<rparr>" by blast
  have "tm_select n (cm_table_manager c) = Ok rows" using assms(2) c(1) by (simp add: txn_select_def)
  then have "is_ok r \<and> tm_buffer_manager t = None"
    using t(1) c(2) assms(3)
    by (auto simp: delete_row_def tm_select_def with_buffer_def set_rows_def st_bind_def st_try_def st_return_def
        split: option.splits)
  then show ?thesis using t(2) by (simp add: no_pool_def)
qed

lemma preserves_log [preserve_intros]: "preserves xm_catalog (on_wal m)"
  by (auto simp: preserves_def on_wal_def split: option.split prod.split res.split)

lemma preserves_log_record: "preserves xm_catalog (log_record X tx rec)"
  unfolding log_record_def
  by (intro preserve_intros) (auto simp: preserves_def modify_transaction_def split: option.split)

lemma preserves_log_delete: "preserves xm_catalog (log_delete X tx n i row)"
  by (simp add: preserves_def log_delete_def Let_def modify_transaction_def
      preserves_log_record [unfolded preserves_def, rule_format])

text \<open>The row is removed, or the statement stops before it or right after it.\<close>

lemma delete_row_data_rows:
  assumes "txn_select n s = Ok rows" "i < length rows" "delete_row_data X E n tx (Some i) s = (r, s')"
  shows "txn_select n s' = Ok (vec_remove i rows) \<or> r \<noteq> Ok () \<and> txn_select n s' = Ok rows"
    "m \<noteq> n \<Longrightarrow> txn_select m s' = txn_select m s"
    "no_pool s \<Longrightarrow> tx = None \<longrightarrow> r = Ok () \<and> no_pool s'"
proof -
  let ?log = "(case tx of None \<Rightarrow> st_return () | Some tx \<Rightarrow>
    st_try (on_catalog (on_tables (\<lambda>t. (get_row n i t, t)))) (\<lambda>old_row. case old_row of
        None \<Rightarrow> st_return () | Some old_row_data \<Rightarrow> st_try (log_delete X tx n i old_row_data) st_return
          (\<lambda>_. st_fail (ExecutionError ''Failed to log deletion to transaction manager'')))
      (\<lambda>_. st_fail (ExecutionError ''Failed to get old row data for transaction logging'')))"
  let ?del = "st_bind (on_catalog (on_tables (delete_row E n i))) (\<lambda>_. st_return ())"
  have run: "st_bind ?log (\<lambda>_. ?del) s = (r, s')" using assms(3) by (simp add: delete_row_data_def)
  obtain c where c: "xm_catalog s = Some c" "tm_select n (cm_table_manager c) = Ok rows"
    using assms(1) by (auto simp: txn_select_catalog)
  have self: "s\<lparr>xm_catalog := Some (c\<lparr>cm_table_manager := cm_table_manager c\<rparr>)\<rparr> = s" using c(1) by simp
  have g: "on_catalog (on_tables (\<lambda>t. (get_row n i t, t))) s = (Ok (Some (rows ! i)), s)"
    using c assms(2) self
    by (auto simp: on_catalog_def on_tables_def get_row_def tm_select_def split: option.splits)
  have log: "xm_catalog s1 = xm_catalog s" if l: "?log s = (r1, s1)" for r1 s1
  proof (cases tx)
    case (Some x)
    from l have "st_try (log_delete X x n i (rows ! i)) st_return
        (\<lambda>_. st_fail (ExecutionError ''Failed to log deletion to transaction manager'')) s = (r1, s1)"
      using g Some by simp
    then show ?thesis
      by (cases rule: st_try_cases) (auto dest: preservesD [OF preserves_log_delete])
  qed (use l in simp)
  then have sel: "txn_select m s1 = txn_select m s" if "?log s = (r1, s1)" for r1 s1 m
    using that by (simp add: txn_select_def)
  have del: "(txn_select n s2 = Ok (vec_remove i rows)) \<and> (m \<noteq> n \<longrightarrow> txn_select m s2 = txn_select m s)"
    if l: "?log s = (r1, s1)" and d: "?del s1 = (r2, s2)" for r1 s1 r2 s2 m
  proof -
    have sel1: "txn_select n s1 = Ok rows" using sel [OF l] assms(1) by simp
    obtain r3 s3 where d3: "on_catalog (on_tables (delete_row E n i)) s1 = (r3, s3)" by fastforce
    have "s2 = s3" using d d3 by (cases r3) auto
    then show ?thesis using on_delete_row [OF sel1 assms(2) d3] sel [OF l] by simp
  qed
  show "txn_select n s' = Ok (vec_remove i rows) \<or> r \<noteq> Ok () \<and> txn_select n s' = Ok rows"
    using run by (cases rule: st_bind_cases) (use del sel assms(1) in auto)
  show "m \<noteq> n \<Longrightarrow> txn_select m s' = txn_select m s"
    using run by (cases rule: st_bind_cases) (use del sel in auto)
  show "tx = None \<longrightarrow> r = Ok () \<and> no_pool s'" if "no_pool s"
  proof
    assume none: "tx = None"
    obtain r3 s3 where d3: "on_catalog (on_tables (delete_row E n i)) s = (r3, s3)" by fastforce
    from on_delete_row_pool [OF that assms(1,2) d3] obtain x where "r3 = Ok x" "no_pool s3" by (cases r3) auto
    then show "r = Ok () \<and> no_pool s'" using run none d3 by simp
  qed
qed

lemma vec_remove_append: "vec_remove (length xs) (xs @ y # ys) = xs @ ys"
  by (simp add: vec_remove_def)

lemma delete_loop_rows:
  assumes "txn_select n s = Ok (rows @ post)" "length rows + length post < 2 ^ 64"
    and "delete_loop X E n tx (rev (filter (\<lambda>rd. P (rd_values rd)) (number_from 0 rows))) s = (r, s')"
  shows "\<exists>k \<le> length rows. txn_select n s' = Ok (take k rows @ filter (\<lambda>vs. \<not> P vs) (drop k rows) @ post) \<and>
    (\<forall>m. m \<noteq> n \<longrightarrow> txn_select m s' = txn_select m s) \<and> (r = Ok () \<longrightarrow> k = 0) \<and>
    (no_pool s \<longrightarrow> tx = None \<longrightarrow> r = Ok ())"
  using assms
proof (induction rows arbitrary: post s rule: rev_induct)
  case (snoc vs rows)
  let ?i = "of_nat (length rows) :: u64"
  have i: "unat ?i = length rows" using snoc.prems(2) by (simp add: unat_of_nat take_bit_nat_eq_self)
  show ?case
  proof (cases "P vs")
    case False
    have "delete_loop X E n tx (rev (filter (\<lambda>rd. P (rd_values rd)) (number_from 0 rows))) s = (r, s')"
      using snoc.prems(3) False by (simp add: number_from_append RowData_with_id_def)
    moreover have "txn_select n s = Ok (rows @ vs # post)" using snoc.prems(1) by simp
    ultimately obtain k where k: "k \<le> length rows"
      "txn_select n s' = Ok (take k rows @ filter (\<lambda>vs. \<not> P vs) (drop k rows) @ vs # post)"
      "\<forall>m. m \<noteq> n \<longrightarrow> txn_select m s' = txn_select m s" "r = Ok () \<longrightarrow> k = 0" "no_pool s \<longrightarrow> tx = None \<longrightarrow> r = Ok ()"
      using snoc.IH [of s "vs # post"] snoc.prems(2) by auto
    then show ?thesis using False by (intro exI [of _ k]) auto
  next
    case True
    have "st_bind (delete_row_data X E n tx (Some (length rows)))
        (\<lambda>_. delete_loop X E n tx (rev (filter (\<lambda>rd. P (rd_values rd)) (number_from 0 rows)))) s = (r, s')"
      using snoc.prems(3) True i by (simp add: number_from_append RowData_with_id_def)
    moreover have sel: "txn_select n s = Ok (rows @ vs # post)" using snoc.prems(1) by simp
    note D = delete_row_data_rows [OF sel, of "length rows" X E tx, simplified, unfolded vec_remove_append]
    ultimately show ?thesis
    proof (cases rule: st_bind_cases)
      case (ok u s1)
      note D1 = D [OF ok(1)]
      from snoc.IH [OF _ _ ok(2), of post] D1(1) snoc.prems(2) obtain k where k: "k \<le> length rows"
        "txn_select n s' = Ok (take k rows @ filter (\<lambda>vs. \<not> P vs) (drop k rows) @ post)"
        "\<forall>m. m \<noteq> n \<longrightarrow> txn_select m s' = txn_select m s1" "r = Ok () \<longrightarrow> k = 0" "no_pool s1 \<longrightarrow> tx = None \<longrightarrow> r = Ok ()"
        by auto
      then show ?thesis using D1(2,3) True by (intro exI [of _ k]) auto
    next
      case (err x)
      note D1 = D [OF err(1)]
      from D1(1) show ?thesis
      proof
        assume "txn_select n s' = Ok (rows @ post)"
        then show ?thesis using D1(2,3) True err(2) by (intro exI [of _ "length rows"]) auto
      next
        assume "Err x \<noteq> Ok () \<and> txn_select n s' = Ok (rows @ vs # post)"
        then show ?thesis using D1(2,3) True err(2) by (intro exI [of _ "Suc (length rows)"]) auto
      qed
    next
      case (panic x)
      note D1 = D [OF panic(1)]
      from D1(1) show ?thesis
      proof
        assume "txn_select n s' = Ok (rows @ post)"
        then show ?thesis using D1(2,3) True panic(2) by (intro exI [of _ "length rows"]) auto
      next
        assume "Panic x \<noteq> Ok () \<and> txn_select n s' = Ok (rows @ vs # post)"
        then show ?thesis using D1(2,3) True panic(2) by (intro exI [of _ "Suc (length rows)"]) auto
      qed
    next
      case deadlock
      note D1 = D [OF deadlock(1)]
      from D1(1) show ?thesis
      proof
        assume "txn_select n s' = Ok (rows @ post)"
        then show ?thesis using D1(2,3) True deadlock(2) by (intro exI [of _ "length rows"]) auto
      next
        assume "Deadlock \<noteq> Ok () \<and> txn_select n s' = Ok (rows @ vs # post)"
        then show ?thesis using D1(2,3) True deadlock(2) by (intro exI [of _ "Suc (length rows)"]) auto
      qed
    qed
  qed
qed simp

lemma number_from_ids:
  "map (\<lambda>rd. descending_key rd) (number_from i rows) = map (\<lambda>k. - uint (of_nat k :: u64)) [i..<i + length rows]"
  by (induction i rows rule: number_from.induct)
    (simp_all add: RowData_with_id_def descending_key_def upt_conv_Cons del: upt_Suc)

text \<open>Rows in ascending order are sorted into descending order by reversing them.\<close>

lemma sort_numbered:
  assumes "length rows < 2 ^ 64"
  shows "sort_key descending_key (filter P (number_from 0 rows)) = rev (filter P (number_from 0 rows))"
proof -
  let ?rds = "number_from 0 rows"
  have ids: "map descending_key ?rds = map (\<lambda>k. - int k) [0..<length rows]"
    unfolding number_from_ids using assms by (auto simp: unsigned_of_nat take_bit_nat_eq_self)
  have "sorted_wrt (>) (map descending_key ?rds)"
    unfolding ids by (simp add: sorted_wrt_map sorted_wrt_upt sorted_wrt_mono_rel [OF _ sorted_wrt_upt])
  then have "sorted_wrt (\<lambda>a b. descending_key a > descending_key b) (filter P ?rds)"
    by (simp add: sorted_wrt_map sorted_wrt_filter)
  then have down: "sorted_wrt (\<lambda>a b. descending_key a < descending_key b) (rev (filter P ?rds))"
    by (simp add: sorted_wrt_rev)
  then have "sorted_wrt (<) (map descending_key (rev (filter P ?rds)))" by (simp add: sorted_wrt_map)
  then have "sorted (map descending_key (rev (filter P ?rds)))" "distinct (map descending_key (rev (filter P ?rds)))"
    unfolding strict_sorted_iff by auto
  then show ?thesis
    unfolding distinct_map by (intro sort_key_inj_key_eq) simp_all
qed

subsection \<open>Lemmas: scanning and inserting\<close>

lemma scan_catalog_rows:
  assumes "txn_select (sc_table_name sc) s = Ok rows"
  obtains it where "scan_catalog sc s = (Ok it, s)" "remaining_rows it = number_from 0 rows"
    "iterator_column_names it = column_names_of sc"
proof -
  obtain c where c: "xm_catalog s = Some c" "tm_select (sc_table_name sc) (cm_table_manager c) = Ok rows"
    using assms by (auto simp: txn_select_catalog)
  then obtain it where it: "scan_all sc c = Ok it" by (simp add: scan_all_def)
  have "cat_rows c (sc_table_name sc) = Ok rows" using c by (simp add: cat_rows_def)
  then have "remaining_rows it = number_from 0 rows" "iterator_column_names it = column_names_of sc"
    by (cases rule: scan_all_Ok [OF it]; simp add: column_names_of_def)+
  then show thesis using that [of it] c(1) it by (simp add: scan_catalog_def on_catalog_def)
qed

lemma index_key_btree [simp]: "index_key (sc\<lparr>sc_btree := x\<rparr>) = index_key sc"
proof (intro ext)
  fix names vs
  show "index_key (sc\<lparr>sc_btree := x\<rparr>) names vs = index_key sc names vs"
    by (induction sc names vs rule: index_key.induct) (simp_all add: get_column_index_def split: option.split)
qed

lemma differ_on_btree [simp]: "differ_on (sc\<lparr>sc_btree := x\<rparr>) = differ_on sc"
  by (simp add: differ_on_def fun_eq_iff)

lemma rows_unique_btree [simp]: "rows_unique (sc\<lparr>sc_btree := x\<rparr>) = rows_unique sc"
  by (simp add: rows_unique_def fun_eq_iff)

lemma place_columns_btree [simp]: "place_columns (sc\<lparr>sc_btree := x\<rparr>) ns vs full = place_columns sc ns vs full"
  by (induction sc ns vs full rule: place_columns.induct) (simp_all add: get_column_index_def split: option.split)

lemma inserted_row_btree [simp]: "inserted_row L K (sc\<lparr>sc_btree := x\<rparr>) = inserted_row L K sc"
  by (simp add: inserted_row_def map_values_to_table_schema_def fun_eq_iff cong: if_cong)

lemma scanner_insert_row_scanner:
  "scanner_insert_row S now rd sc c = (Ok sc', c') \<Longrightarrow> \<exists>root. sc' = sc\<lparr>sc_btree := Some root\<rparr>"
  by (auto simp: scanner_insert_row_def index_row_key_def st_bind_Ok_iff)

lemma scanner_insert_row_indexes: "preserves cm_index_manager (scanner_insert_row S now rd sc)"
  unfolding scanner_insert_row_def index_row_key_def
  by (intro preserve_intros preserves_indexes) (simp add: preserves_def)

lemma scanner_insert_row_result:
  assumes "cat_rows c (sc_table_name sc) = Ok rows" "scanner_insert_row S now (RowData_new vs) sc c = (r, c')"
  shows "cat_rows c' (sc_table_name sc) = Ok (rows @ [vs]) \<and> (rows_unique sc c rows \<longrightarrow> rows_unique sc c' (rows @ [vs]))
      \<or> (\<forall>x. r \<noteq> Ok x) \<and> c' = c"
    "m \<noteq> sc_table_name sc \<Longrightarrow> cat_rows c' m = cat_rows c m"
proof -
  have ix: "cm_index_manager c' = cm_index_manager c"
    by (rule preservesD [OF scanner_insert_row_indexes assms(2)])
  have *: "(cat_rows c' (sc_table_name sc) = Ok (rows @ [vs]) \<and> (rows_unique sc c rows \<longrightarrow> rows_unique sc c' (rows @ [vs]))
      \<or> (\<forall>x. r \<noteq> Ok x) \<and> c' = c) \<and> (m \<noteq> sc_table_name sc \<longrightarrow> cat_rows c' m = cat_rows c m)"
  proof (cases "check_unique_constraints sc vs c")
    case (Ok u)
    then have u: "check_unique_constraints sc vs c = Ok ()" by simp
    then have "check_unique_constraints sc (rd_values (RowData_new vs)) c = Ok ()" by (simp add: RowData_new_def)
    note rows = scanner_insert_row_rows [OF assms(1) this assms(2)]
    have "rows_unique sc c' = rows_unique sc c" by (simp add: rows_unique_def ix fun_eq_iff)
    then show ?thesis using rows check_unique_append [OF assms(1) u] by (simp add: RowData_new_def)
  qed (use assms(2) in \<open>auto simp: scanner_insert_row_def RowData_new_def\<close>)
  show "cat_rows c' (sc_table_name sc) = Ok (rows @ [vs]) \<and> (rows_unique sc c rows \<longrightarrow> rows_unique sc c' (rows @ [vs]))
      \<or> (\<forall>x. r \<noteq> Ok x) \<and> c' = c" using * by simp
  show "m \<noteq> sc_table_name sc \<Longrightarrow> cat_rows c' m = cat_rows c m" using * by simp
qed

lemma insert_rows_result:
  assumes "xm_catalog s = Some c" "cat_rows c (sc_table_name sc) = Ok rows"
    and "insert_rows L S K columns sc i vals s = (r, s')"
  shows "\<exists>news c'. xm_catalog s' = Some c' \<and> length news \<le> length vals \<and>
    (\<forall>j < length news. inserted_row L K sc columns (i + j) (vals ! j) = Ok (news ! j)) \<and>
    cat_rows c' (sc_table_name sc) = Ok (rows @ news) \<and>
    (\<forall>m. m \<noteq> sc_table_name sc \<longrightarrow> cat_rows c' m = cat_rows c m) \<and>
    (rows_unique sc c rows \<longrightarrow> rows_unique sc c' (rows @ news)) \<and> (r = Ok () \<longrightarrow> length news = length vals)"
  using assms
proof (induction L S K columns sc i vals s arbitrary: c rows rule: insert_rows.induct)
  case (1 L S K columns sc i s)
  then show ?case by (intro exI [of _ "[]"] exI [of _ c]) simp
next
  case (2 L S K columns sc i es ess s)
  from 2(4) show ?case unfolding insert_rows.simps
  proof (cases rule: lift_res_cases)
    case (ok provided)
    let ?vs = "map_values_to_table_schema (ck_serial K i) sc columns provided"
    have row: "inserted_row L K sc columns i es = Ok ?vs" using ok(1) by (simp add: inserted_row_def)
    obtain r1 c1 where ins: "scanner_insert_row S (ck_key K i) (RowData_new ?vs) sc c = (r1, c1)" by fastforce
    let ?s1 = "s\<lparr>xm_catalog := Some c1\<rparr>"
    have ins': "on_catalog (scanner_insert_row S (ck_key K i) (RowData_new ?vs) sc) s = (r1, ?s1)"
      using ins 2(2) by (simp add: on_catalog_def)
    note R = scanner_insert_row_result [OF 2(3) ins]
    show ?thesis
    proof (cases r1)
      case (Ok sc1)
      then obtain root where sc1: "sc1 = sc\<lparr>sc_btree := Some root\<rparr>"
        using scanner_insert_row_scanner ins by blast
      have rec: "insert_rows L S K columns sc1 (Suc i) ess ?s1 = (r, s')" using ok(2) ins' Ok by simp
      have "cat_rows c1 (sc_table_name sc1) = Ok (rows @ [?vs])" using R(1) Ok sc1 by (simp add: sc_table_name_def)
      from 2(1) [OF _ this rec] obtain news c' where news: "xm_catalog s' = Some c'" "length news \<le> length ess"
        "\<forall>j < length news. inserted_row L K sc columns (Suc i + j) (ess ! j) = Ok (news ! j)"
        "cat_rows c' (sc_table_name sc) = Ok (rows @ ?vs # news)"
        "\<forall>m. m \<noteq> sc_table_name sc \<longrightarrow> cat_rows c' m = cat_rows c1 m"
        "rows_unique sc c1 (rows @ [?vs]) \<longrightarrow> rows_unique sc c' (rows @ ?vs # news)" "r = Ok () \<longrightarrow> length news = length ess"
        by (auto simp: sc1 sc_table_name_def)
      have "\<forall>j < length (?vs # news). inserted_row L K sc columns (i + j) ((es # ess) ! j) = Ok ((?vs # news) ! j)"
        using news(3) row by (auto simp: nth_Cons split: nat.split)
      then show ?thesis using news R Ok by (intro exI [of _ "?vs # news"] exI [of _ c']) simp
    next
      case (Err e)
      then have "r = Err e" "s' = ?s1" using ok(2) ins' by simp_all
      then show ?thesis
        using R row 2(2,3) by (cases "c1 = c") (auto intro!: exI [of _ "[]"] exI [of _ "[?vs]"])
    next
      case (Panic e)
      then have "r = Panic e" "s' = ?s1" using ok(2) ins' by simp_all
      then show ?thesis
        using R row 2(2,3) by (cases "c1 = c") (auto intro!: exI [of _ "[]"] exI [of _ "[?vs]"])
    next
      case Deadlock
      then have "r = Deadlock" "s' = ?s1" using ok(2) ins' by simp_all
      then show ?thesis
        using R row 2(2,3) by (cases "c1 = c") (auto intro!: exI [of _ "[]"] exI [of _ "[?vs]"])
    qed
  next
    case stop
    then show ?thesis using 2(2,3) by (intro exI [of _ "[]"] exI [of _ c]) auto
  qed
qed

subsection \<open>Properties\<close>

text \<open>A catalog with a table of two integer columns, the second unique, and three rows; no buffer pool.\<close>

definition int_column :: "u64 \<Rightarrow> string \<Rightarrow> bool \<Rightarrow> ColumnDef" where
  "int_column i name uniq = \<lparr>cd_column_id = i, cd_name = name, cd_data_type = DataType_new IntegerT,
     cd_nullable = True, cd_default_value = None, cd_primary_key = False, cd_unique = uniq,
     cd_check_constraint = None\<rparr>"

definition pair_catalog :: "MockFileManager CatalogManager" where
  "pair_catalog = snd (on_tables (\<lambda>t. (Ok (), set_rows ''t'' [[IntegerV 1, IntegerV 10], [IntegerV 2, IntegerV 20],
       [IntegerV 3, IntegerV 30]] t))
     (snd (catalog_create_table ''t'' [int_column 0 ''k'' False, int_column 1 ''v'' True] CatalogManager_new)))"

definition pair_manager :: "MockFileManager TransactionManager" where
  "pair_manager = snd (begin_transaction le_txn_lib ReadCommitted (set_catalog pair_catalog TransactionManager_new))"

definition mock_scan_lib :: "MockFileManager scan_lib" where
  "mock_scan_lib = \<lparr>sl_tables = mock_tm_lib, sl_btree = one_node_lib full_leaf, sl_value = (\<lambda>v. []), sl_depth = 10\<rparr>"

definition pair_scanner :: TableScanner where
  "pair_scanner = (case scanner_of ''t'' pair_manager of Some (Ok sc) \<Rightarrow> sc | _ \<Rightarrow> undefined)"

definition greater_than :: "string \<Rightarrow> int \<Rightarrow> expr" where
  "greater_than n k = BinaryOpE (ColumnE None n) OpGreaterThan (ValueE (IntegerV (of_int k)))"

lemma pair_facts:
  "scanner_of ''t'' pair_manager = Some (Ok pair_scanner)" "sc_table_name pair_scanner = ''t''"
  "txn_select ''t'' pair_manager = Ok [[IntegerV 1, IntegerV 10], [IntegerV 2, IntegerV 20], [IntegerV 3, IntegerV 30]]"
  "no_pool pair_manager"
  "td_columns (sc_table_def pair_scanner) = [int_column 0 ''k'' False, int_column 1 ''v'' True]"
proof -
  show "td_columns (sc_table_def pair_scanner) = [int_column 0 ''k'' False, int_column 1 ''v'' True]" by code_simp
  show "scanner_of ''t'' pair_manager = Some (Ok pair_scanner)" by code_simp
  show "sc_table_name pair_scanner = ''t''" by code_simp
  show "txn_select ''t'' pair_manager = Ok [[IntegerV 1, IntegerV 10], [IntegerV 2, IntegerV 20], [IntegerV 3, IntegerV 30]]"
    by code_simp
  have "(case xm_catalog pair_manager of Some c \<Rightarrow> Option.is_none (tm_buffer_manager (cm_table_manager c)) | None \<Rightarrow> False)"
    by code_simp
  then show "no_pool pair_manager" by (auto simp: no_pool_def Option.is_none_def split: option.splits)
qed

lemmas row_eval = row_selected_def greater_than_def row_passes_def row_context_def get_column_value_def
  ec_with_columns_def EvaluationContext_new_def evaluate_unqualified_column_def evaluate_binary_operation_def
  evaluate_greater_than_def greater_than_result_def option_value_def bool_value_def

lemma pair_columns: "column_names_of pair_scanner = [''k'', ''v'']"
  by (simp add: column_names_of_def pair_facts int_column_def)

lemma pair_selected:
  "row_selected plain_lib (Some (greater_than ''k'' 1)) [''k'', ''v''] [IntegerV 1, v] = Ok False"
  "row_selected plain_lib (Some (greater_than ''k'' 1)) [''k'', ''v''] [IntegerV 2, v] = Ok True"
  "row_selected plain_lib (Some (greater_than ''k'' 1)) [''k'', ''v''] [IntegerV 3, v] = Ok True"
  by (simp_all add: row_eval)

lemma pair_rows_after:
  "row_after_update plain_lib pair_scanner [(''v'', ColumnE None ''k'')] (Some (greater_than ''k'' 1)) [IntegerV 1, v] = Ok [IntegerV 1, v]"
  "row_after_update plain_lib pair_scanner [(''v'', ColumnE None ''k'')] (Some (greater_than ''k'' 1)) [IntegerV 2, v] = Ok [IntegerV 2, IntegerV 2]"
  "row_after_update plain_lib pair_scanner [(''v'', ColumnE None ''k'')] (Some (greater_than ''k'' 1)) [IntegerV 3, v] = Ok [IntegerV 3, IntegerV 3]"
  "row_after_update plain_lib pair_scanner [(''v'', ValueE (IntegerV 7))] None [IntegerV k, v] = Ok [IntegerV k, IntegerV 7]"
  by (simp_all add: row_after_update_def pair_columns pair_selected row_eval validate_row_data_def RowData_new_def pair_facts
      int_column_def DataType_new_def validate_column_def validate_column_type_def)

text \<open>
  Scanning returns the rows of the table, in order, under the names of its columns, and changes nothing.
\<close>

theorem scan_returns_rows:
  assumes "scanner_of n s = Some (Ok sc)" "sc_table_name sc = n" "txn_select n s = Ok rows"
  shows "scan_execute n s = (Ok \<lparr>qr_rows = rows, qr_column_names = column_names_of sc\<rparr>, s)"
proof -
  obtain it where "scan_catalog sc s = (Ok it, s)" "remaining_rows it = number_from 0 rows"
    "iterator_column_names it = column_names_of sc"
    using scan_catalog_rows assms(2,3) by blast
  then show ?thesis using assms(1) by (simp add: scan_execute_def)
qed

theorem scan_returns_rows_witness:
  "scan_execute ''t'' pair_manager = (Ok \<lparr>qr_rows = [[IntegerV 1, IntegerV 10], [IntegerV 2, IntegerV 20],
     [IntegerV 3, IntegerV 30]], qr_column_names = column_names_of pair_scanner\<rparr>, pair_manager)"
  by (rule scan_returns_rows [OF pair_facts(1-3)])

text \<open>
  C36. What UPDATE does. From the first row on, every row is replaced by the row the statement makes of
  it, up to a row at which the statement stops; the rows behind it are left as they were, and so are
  all other tables. When the statement succeeds it has treated all rows, and without a buffer pool
  it succeeds if and only if every selected row has values for its assignments that fit the columns.
  When all rows fit the columns of the table before, they do so afterwards, also after a failure.
\<close>

theorem update_correct:
  assumes "scanner_of n s = Some (Ok sc)" "sc_table_name sc = n" "txn_select n s = Ok rows" "length rows < 2 ^ 64"
    and "update_execute L S n as cond s = (r, s')"
  shows "\<exists>news. list_all2 (\<lambda>vs vs'. row_after_update L sc as cond vs = Ok vs') (take (length news) rows) news \<and>
    txn_select n s' = Ok (news @ drop (length news) rows) \<and>
    (\<forall>m. m \<noteq> n \<longrightarrow> txn_select m s' = txn_select m s) \<and> (is_ok r \<longrightarrow> length news = length rows) \<and>
    (no_pool s \<longrightarrow> (is_ok r \<longleftrightarrow> list_all (\<lambda>vs. is_ok (row_after_update L sc as cond vs)) rows)) \<and>
    (list_all (row_valid sc) rows \<longrightarrow> list_all (row_valid sc) (news @ drop (length news) rows))"
proof -
  obtain it where it: "scan_catalog sc s = (Ok it, s)" "remaining_rows it = number_from 0 rows"
    "iterator_column_names it = column_names_of sc"
    using scan_catalog_rows assms(2,3) by blast
  obtain r1 s1 where loop: "update_loop L S n sc (column_names_of sc) as cond (number_from (length ([] :: row list)) rows) s = (r1, s1)"
    by fastforce
  have run: "s' = s1" "is_ok r \<longleftrightarrow> r1 = Ok ()"
    using assms(1,5) it loop by (cases r1; auto simp: update_execute_def)+
  from update_loop_rows [OF _ _ loop] assms(3,4) obtain news where news:
    "list_all2 (\<lambda>vs vs'. row_after_update L sc as cond vs = Ok vs') (take (length news) rows) news"
    "txn_select n s' = Ok (news @ drop (length news) rows)" "\<forall>m. m \<noteq> n \<longrightarrow> txn_select m s' = txn_select m s"
    "r1 = Ok () \<longrightarrow> length news = length rows"
    "no_pool s \<longrightarrow> (\<forall>vs \<in> set rows. \<exists>vs'. row_after_update L sc as cond vs = Ok vs') \<longrightarrow> r1 = Ok ()"
    by (auto simp: run)
  have "list_all (\<lambda>vs. is_ok (row_after_update L sc as cond vs)) rows" if "length news = length rows"
    using news(1) that by (auto simp: list_all2_conv_all_nth list_all_length)
  moreover have "r1 = Ok ()" if "no_pool s" "list_all (\<lambda>vs. is_ok (row_after_update L sc as cond vs)) rows"
    using news(5) that by (auto simp: list_all_iff is_ok_iff)
  moreover have "list_all (row_valid sc) (news @ drop (length news) rows)" if valid: "list_all (row_valid sc) rows"
  proof -
    have "row_valid sc (news ! i)" if "i < length news" for i
      using news(1) valid that row_after_update_valid [of L sc as cond "rows ! i" "news ! i"]
      by (auto simp: list_all2_conv_all_nth list_all_length)
    then show ?thesis using valid by (auto simp: list_all_length list_all_append nth_append)
  qed
  ultimately show ?thesis using news run(2) by blast
qed

theorem update_correct_witness:
  "txn_select ''t'' (snd (update_execute plain_lib mock_scan_lib ''t'' [(''v'', ColumnE None ''k'')]
     (Some (greater_than ''k'' 1)) pair_manager))
   = Ok [[IntegerV 1, IntegerV 10], [IntegerV 2, IntegerV 2], [IntegerV 3, IntegerV 3]]"
proof -
  from update_correct [OF pair_facts(1-3) _ prod.collapse [symmetric], of plain_lib
      "[(''v'', ColumnE None ''k'')]" "Some (greater_than ''k'' 1)" mock_scan_lib] pair_facts(4)
  show ?thesis by (auto simp: list_all2_Cons1 pair_rows_after)
qed

text \<open>
  C38. What DELETE does. The selected rows go from the last to the first: the rows before some index are
  left as they were, and behind it exactly the rows that are not selected are left, in order; no other
  table changes. When the statement succeeds the index is 0, and outside a transaction and without a
  buffer pool it always succeeds.
\<close>

theorem delete_correct:
  assumes "scanner_of n s = Some (Ok sc)" "sc_table_name sc = n" "txn_select n s = Ok rows" "length rows < 2 ^ 64"
    and "list_all (\<lambda>vs. row_selected L cond (column_names_of sc) vs = Ok (P vs)) rows"
    and "delete_execute L S X n cond tx s = (r, s')"
  shows "\<exists>k \<le> length rows. txn_select n s' = Ok (take k rows @ filter (\<lambda>vs. \<not> P vs) (drop k rows)) \<and>
    (\<forall>m. m \<noteq> n \<longrightarrow> txn_select m s' = txn_select m s) \<and> (is_ok r \<longrightarrow> k = 0) \<and>
    (no_pool s \<and> tx = None \<longrightarrow> is_ok r)"
proof -
  obtain it where it: "scan_catalog sc s = (Ok it, s)" "remaining_rows it = number_from 0 rows"
    "iterator_column_names it = column_names_of sc"
    using scan_catalog_rows assms(2,3) by blast
  have "rd_values rd \<in> set rows" if "rd \<in> set (number_from 0 rows)" for rd
    using that by (metis imageI number_from_values set_map)
  then have "\<forall>rd \<in> set (number_from 0 rows). row_selected L cond (column_names_of sc) (rd_values rd) = Ok (P (rd_values rd))"
    using assms(5) by (simp add: list_all_iff)
  note sel = filter_rows_ok [OF this]
  let ?rds = "rev (filter (\<lambda>rd. P (rd_values rd)) (number_from 0 rows))"
  obtain r1 s1 where loop: "delete_loop X (sl_tables S) n tx ?rds s = (r1, s1)" by fastforce
  have run: "s' = s1" "is_ok r \<longleftrightarrow> r1 = Ok ()"
    using assms(1,6) it loop sel sort_numbered [OF assms(4)] by (cases r1; auto simp: delete_execute_def)+
  from delete_loop_rows [OF _ _ loop, of "[]"] assms(3,4) show ?thesis by (auto simp: run)
qed

theorem delete_correct_witness:
  "txn_select ''t'' (snd (delete_execute plain_lib mock_scan_lib le_txn_lib ''t'' (Some (greater_than ''k'' 1)) None pair_manager))
   = Ok [[IntegerV 1, IntegerV 10]]"
proof -
  let ?P = "\<lambda>vs. vs \<noteq> [IntegerV 1, IntegerV 10]"
  have "list_all (\<lambda>vs. row_selected plain_lib (Some (greater_than ''k'' 1)) (column_names_of pair_scanner) vs = Ok (?P vs))
    [[IntegerV 1, IntegerV 10], [IntegerV 2, IntegerV 20], [IntegerV 3, IntegerV 30]]"
    by (simp add: pair_columns pair_selected)
  from delete_correct [OF pair_facts(1-3) _ this prod.collapse [symmetric], of mock_scan_lib le_txn_lib None] pair_facts(4)
  show ?thesis by auto
qed



text \<open>An index scan finds no rows, however it was made and whatever the table holds.\<close>

theorem index_scans_return_nothing:
  assumes "I \<in> {IndexScanOperator_new t i e columns, IndexScanOperator_with_scanner t i e columns sc}"
  shows "index_scan_execute I s = (Ok \<lparr>qr_rows = [], qr_column_names = columns\<rparr>, s) \<and>
    index_only_scan_execute I s = (Ok \<lparr>qr_rows = [], qr_column_names = columns\<rparr>, s)"
  using assms by (auto simp: index_scan_execute_def index_only_scan_execute_def IndexScanOperator_new_def
      IndexScanOperator_with_scanner_def)

text \<open>
  UPDATE does not look at unique indexes: it succeeds and gives all rows the same value in a column that has one.
\<close>

theorem update_breaks_unique:
  assumes "update_execute plain_lib mock_scan_lib ''t'' [(''v'', ValueE (IntegerV 7))] None pair_manager = (r, s')"
  shows "is_ok r \<and> txn_select ''t'' s' = Ok [[IntegerV 1, IntegerV 7], [IntegerV 2, IntegerV 7], [IntegerV 3, IntegerV 7]] \<and>
    map (\<lambda>x. id_columns (ii_def x)) (get_table_unique_indexes 1 (cm_index_manager pair_catalog)) = [[''v'']]"
proof -
  have "map (\<lambda>x. id_columns (ii_def x)) (get_table_unique_indexes 1 (cm_index_manager pair_catalog)) = [[''v'']]"
    by code_simp
  moreover obtain it where it: "scan_catalog pair_scanner pair_manager = (Ok it, pair_manager)"
    "remaining_rows it = number_from 0 [[IntegerV 1, IntegerV 10], [IntegerV 2, IntegerV 20], [IntegerV 3, IntegerV 30]]"
    "iterator_column_names it = column_names_of pair_scanner"
    using scan_catalog_rows pair_facts(2,3) by metis
  obtain r1 s1 where loop: "update_loop plain_lib mock_scan_lib ''t'' pair_scanner (column_names_of pair_scanner) [(''v'', ValueE (IntegerV 7))]
      None (number_from (length ([] :: row list)) [[IntegerV 1, IntegerV 10], [IntegerV 2, IntegerV 20], [IntegerV 3, IntegerV 30]]) pair_manager = (r1, s1)"
    by fastforce
  have "s' = s1" "r1 = Ok () \<longrightarrow> is_ok r"
    using assms pair_facts(1) it loop by (cases r1; auto simp: update_execute_def)+
  moreover note update_loop_rows [OF _ _ loop] 
  ultimately show ?thesis using pair_facts(3,4) by (auto simp: list_all2_Cons1 pair_rows_after)
qed

lemma delete_row_data_succeeds:
  assumes "wal_ready s" "get_transaction i s = Some t" "tx_snapshot t = Some sn" "no_pool s"
    and "txn_select n s = Ok rows" "k < length rows" "delete_row_data X E n (Some i) (Some k) s = (r, s')"
  shows "r = Ok () \<and> no_pool s'"
proof -
  obtain c where c: "xm_catalog s = Some c" "tm_select n (cm_table_manager c) = Ok rows"
    using assms(5) by (auto simp: txn_select_catalog)
  have self: "s\<lparr>xm_catalog := Some (c\<lparr>cm_table_manager := cm_table_manager c\<rparr>)\<rparr> = s" using c(1) by simp
  have g: "on_catalog (on_tables (\<lambda>t. (get_row n k t, t))) s = (Ok (Some (rows ! k)), s)"
    using c assms(6) self
    by (auto simp: on_catalog_def on_tables_def get_row_def tm_select_def split: option.splits)
  from log_delete_ready [OF assms(1-3), of X n k "rows ! k"] obtain s1 where l:
    "log_delete X i n k (rows ! k) s = (Ok (), s1)" "xm_catalog s1 = xm_catalog s" by blast
  have s1: "no_pool s1" "txn_select n s1 = Ok rows" using l(2) assms(4,5) by (simp_all add: no_pool_def txn_select_def)
  obtain r2 s2 where d: "on_catalog (on_tables (delete_row E n k)) s1 = (r2, s2)" by fastforce
  from on_delete_row_pool [OF s1 assms(6) d] obtain x where "r2 = Ok x" "no_pool s2" by (cases r2) auto
  then show ?thesis using assms(7) g l(1) d by (auto simp: delete_row_data_def)
qed



end
