(* ===== verification/Plan_Execution.thy ===== *)
theory Plan_Execution
  imports Planner Dml
begin

section \<open>Execution of plans (\<^verbatim>\<open>PlanNode::execute\<close>, common table expressions, subqueries)\<close>

text \<open>
  A plan runs on the state of the transaction manager, which holds the catalog and through it the tables,
  and on the part of the execution context that the nodes change: the outer values of a correlated subquery
  and the materialized common table expressions.

  A common table expression and a subquery plan and execute a query while a plan is executed. How they do
  this is an argument of the definitions, which \<open>run_select\<close> ties by recursion on a number that bounds the
  nesting; a query nested deeper counts as not returning.

  The lemmas show the order in which common table expressions are executed, what the recursive ones
  compute, and what a query over one table returns.
\<close>

subsection \<open>State\<close>

record 'fm exec_state =
  es_context :: ExecutionContext
  es_txn :: "'fm TransactionManager"

type_synonym ('fm, 'a) ex_op = "('fm exec_state, 'a) op"

record 'fm exec_lib =
  xl_plan :: plan_lib
  xl_scan :: "'fm scan_lib"
  xl_txn :: txn_lib
  xl_clock :: insert_clock
  xl_transaction :: "TransactionId option"

definition on_txn :: "('fm, 'a) xm_op \<Rightarrow> ('fm, 'a) ex_op" where
  "on_txn m s = (case m (es_txn s) of (r, t) \<Rightarrow> (r, s\<lparr>es_txn := t\<rparr>))"

definition with_context :: "(ExecutionContext \<Rightarrow> 'a res) \<Rightarrow> ('fm, 'a) ex_op" where
  "with_context f s = (f (es_context s), s)"

definition set_ctes :: "ctes \<Rightarrow> ('fm, unit) ex_op" where
  "set_ctes c = st_update (\<lambda>s. s\<lparr>es_context := (es_context s)\<lparr>xc_materialized_ctes := Some c\<rparr>\<rparr>)"

definition context_ctes :: "'fm exec_state \<Rightarrow> ctes" where
  "context_ctes s = (case xc_materialized_ctes (es_context s) of Some c \<Rightarrow> c | None \<Rightarrow> [])"

text \<open>Planning and executing a query with the given common table expressions.\<close>

type_synonym 'fm query_runner = "ctes \<Rightarrow> Statement SelectStatement \<Rightarrow> ('fm, QueryResult) ex_op"

subsection \<open>Scans of common table expressions\<close>

definition cte_scan_execute :: "string \<Rightarrow> ('fm, QueryResult) ex_op" where
  "cte_scan_execute name = with_context (\<lambda>c.
     case xc_materialized_ctes c of
       None \<Rightarrow> Err (ExecutionError ''No materialized CTEs in execution context'')
     | Some m \<Rightarrow> (case hm_get m name of
         Some cte_result \<Rightarrow> Ok cte_result
       | None \<Rightarrow> Err (ExecutionError ''CTE not found in execution context'')))"

subsection \<open>Dependencies between common table expressions\<close>

record CTEGraphNode =
  cn_is_recursive :: bool
  cn_dependencies :: "string list"

record CTEDependencyGraph =
  cg_nodes :: "(string, CTEGraphNode) hmap"
  cg_execution_order :: "string list list"

definition CTEDependencyGraph_new :: CTEDependencyGraph where
  "CTEDependencyGraph_new = \<lparr>cg_nodes = [], cg_execution_order = []\<rparr>"

text \<open>Only the common table expressions that are in the graph already count as dependencies.\<close>

lemma size_of_refs:
  "t \<in> set ts \<Longrightarrow> size_TableRef size t \<le> size_list (size_TableRef size) ts"
  "j \<in> set js \<Longrightarrow> size_TableRef size (jc_table j) \<le> size_list (size_JoinCondition size) js"
proof -
  show "j \<in> set js \<Longrightarrow> size_TableRef size (jc_table j) \<le> size_list (size_JoinCondition size) js"
    by (erule size_list_estimation') (cases j, simp)
qed (erule size_list_estimation', simp)

function (sequential) extract_query_dependencies :: "string list \<Rightarrow> Statement SelectStatement \<Rightarrow> string list"
and extract_table_dependencies :: "string list \<Rightarrow> Statement TableRef \<Rightarrow> string list" where
  "extract_query_dependencies known (SimpleSelect _ _ _ tables joins _ _ _ _ _ _ _) =
     concat (map (extract_table_dependencies known) tables) @
     concat (map (\<lambda>j. extract_table_dependencies known (jc_table j)) joins)"
| "extract_query_dependencies known (SetSelect (SetOperation op left right all)) =
     extract_query_dependencies known left @ extract_query_dependencies known right"
| "extract_table_dependencies known (TableName name al) = (if name \<in> set known then [name] else [])"
| "extract_table_dependencies known (TableSubquery (SelectS q) al) = extract_query_dependencies known q"
| "extract_table_dependencies known (TableSubquery _ al) = []"
  by pat_completeness auto

termination
  by (relation "measure (case_sum (\<lambda>(_, q). size_SelectStatement size q) (\<lambda>(_, t). size_TableRef size t))")
    (auto dest: size_of_refs)

definition add_cte :: "Statement CommonTableExpression \<Rightarrow> CTEDependencyGraph \<Rightarrow> CTEDependencyGraph" where
  "add_cte cte G =
     (let node = \<lparr>cn_is_recursive = cte_recursive cte,
        cn_dependencies = extract_query_dependencies (hm_keys (cg_nodes G)) (cte_query cte)\<rparr>
      in G\<lparr>cg_nodes := hm_insert (cte_name cte) node (cg_nodes G)\<rparr>)"

definition is_recursive_node :: "(string, CTEGraphNode) hmap \<Rightarrow> string \<Rightarrow> bool" where
  "is_recursive_node nodes name = (case hm_get nodes name of Some node \<Rightarrow> cn_is_recursive node | None \<Rightarrow> False)"

definition deps_processed :: "(string, CTEGraphNode) hmap \<Rightarrow> string list \<Rightarrow> string \<Rightarrow> bool" where
  "deps_processed nodes processed name =
     (case hm_get nodes name of Some node \<Rightarrow> list_all (\<lambda>d. d \<in> set processed) (cn_dependencies node) | None \<Rightarrow> False)"

text \<open>Rounds over the recursive ones: each round takes those whose dependencies are done.\<close>

function order_recursive ::
    "(string, CTEGraphNode) hmap \<Rightarrow> string list \<Rightarrow> string list \<Rightarrow> string list list \<Rightarrow> string list list res" where
  "order_recursive nodes processed remaining groups =
     (if remaining = [] then Ok groups
      else let current_group = filter (deps_processed nodes processed) remaining
           in if current_group = []
              then Err (InvalidOperationError ''Circular dependency detected in recursive CTEs'')
              else order_recursive nodes (processed @ current_group)
                (filter (\<lambda>name. \<not> deps_processed nodes processed name) remaining)
                (groups @ map (\<lambda>name. [name]) current_group))"
  by pat_completeness auto

termination
  by (relation "measure (\<lambda>(_, _, remaining, _). length remaining)")
    (auto simp: filter_empty_conv intro!: length_filter_less)

declare order_recursive.simps [simp del]

definition build_execution_order :: "CTEDependencyGraph \<Rightarrow> CTEDependencyGraph res" where
  "build_execution_order G =
     (let nodes = cg_nodes G; names = hm_keys nodes;
          non_recursive_group = filter (\<lambda>name. \<not> is_recursive_node nodes name) names;
          recursive_ctes = filter (is_recursive_node nodes) names;
          groups = (if non_recursive_group = [] then [] else [non_recursive_group])
      in res_bind (order_recursive nodes non_recursive_group recursive_ctes groups) (\<lambda>order.
           Ok (G\<lparr>cg_execution_order := order\<rparr>)))"

subsection \<open>Execution of common table expressions\<close>

definition find_cte :: "Statement CommonTableExpression list \<Rightarrow> string \<Rightarrow> Statement CommonTableExpression res" where
  "find_cte ctes name =
     (case find (\<lambda>c. cte_name c = name) ctes of
        Some c \<Rightarrow> Ok c | None \<Rightarrow> Err (InternalError ''CTE not found in WITH clause''))"

definition row_exists_in_results :: "Value list list \<Rightarrow> Value list \<Rightarrow> bool" where
  "row_exists_in_results existing_rows new_row = list_ex (\<lambda>row. rows_equal row new_row) existing_rows"

text \<open>The new rows of a round, and all rows: a UNION keeps the first of equal rows.\<close>

fun add_new_rows ::
    "bool \<Rightarrow> Value list list \<Rightarrow> Value list list \<Rightarrow> Value list list \<Rightarrow> Value list list \<times> Value list list" where
  "add_new_rows is_union_all [] new all = (new, all)"
| "add_new_rows is_union_all (row # rows) new all =
     (if is_union_all \<or> \<not> row_exists_in_results all row
      then add_new_rows is_union_all rows (new @ [row]) (all @ [row])
      else add_new_rows is_union_all rows new all)"

definition max_iterations :: nat where
  "max_iterations = 1000"

fun recursive_rounds ::
    "'fm query_runner \<Rightarrow> ctes \<Rightarrow> string \<Rightarrow> Statement SelectStatement \<Rightarrow> bool \<Rightarrow> nat \<Rightarrow> QueryResult \<Rightarrow> QueryResult \<Rightarrow>
     ('fm, QueryResult) ex_op" where
  "recursive_rounds run m name query is_union_all 0 working all = st_return all"
| "recursive_rounds run m name query is_union_all (Suc n) working all =
     (if qr_rows working = [] then st_return all
      else let updated = hm_insert name working m
           in st_bind (set_ctes updated) (\<lambda>_. st_bind (run updated query) (\<lambda>result.
              if qr_rows result = [] then st_return all
              else let (new, rows) = add_new_rows is_union_all (qr_rows result) [] (qr_rows all)
                   in recursive_rounds run m name query is_union_all n
                        \<lparr>qr_rows = new, qr_column_names = qr_column_names working\<rparr> (all\<lparr>qr_rows := rows\<rparr>))))"

definition execute_single_recursive_cte ::
    "'fm query_runner \<Rightarrow> Statement CommonTableExpression list \<Rightarrow> string \<Rightarrow> ctes \<Rightarrow> ('fm, ctes) ex_op" where
  "execute_single_recursive_cte run ctes name m =
     st_bind (lift_res (find_cte ctes name)) (\<lambda>cte.
       case cte_query cte of
         SetSelect (SetOperation UnionOp anchor_query recursive_query is_union_all) \<Rightarrow>
           st_bind (set_ctes m) (\<lambda>_. st_bind (run m anchor_query) (\<lambda>anchor_result.
           st_bind (recursive_rounds run m name recursive_query is_union_all max_iterations anchor_result anchor_result)
             (\<lambda>all_results. let m1 = hm_insert name all_results m in st_bind (set_ctes m1) (\<lambda>_. st_return m1))))
       | _ \<Rightarrow> st_fail (InvalidOperationError ''Recursive CTE must be a UNION or UNION ALL of anchor and recursive parts''))"

definition execute_single_non_recursive_cte ::
    "'fm query_runner \<Rightarrow> Statement CommonTableExpression list \<Rightarrow> string \<Rightarrow> ctes \<Rightarrow> ('fm, ctes) ex_op" where
  "execute_single_non_recursive_cte run ctes name m =
     st_bind (lift_res (find_cte ctes name)) (\<lambda>cte.
     st_bind (set_ctes m) (\<lambda>_. st_bind (run m (cte_query cte)) (\<lambda>cte_result.
       st_return (hm_insert name cte_result m))))"

fun execute_ctes_in_turn :: "(string \<Rightarrow> ctes \<Rightarrow> ('fm, ctes) ex_op) \<Rightarrow> string list \<Rightarrow> ctes \<Rightarrow> ('fm, ctes) ex_op" where
  "execute_ctes_in_turn f [] m = st_return m"
| "execute_ctes_in_turn f (name # names) m = st_bind (f name m) (execute_ctes_in_turn f names)"

definition execute_cte_group ::
    "'fm query_runner \<Rightarrow> Statement CommonTableExpression list \<Rightarrow> (string, CTEGraphNode) hmap \<Rightarrow> string list \<Rightarrow> ctes \<Rightarrow> ('fm, ctes) ex_op" where
  "execute_cte_group run ctes nodes names m =
     (case names of
        [name] \<Rightarrow> if is_recursive_node nodes name then execute_single_recursive_cte run ctes name m
                  else execute_single_non_recursive_cte run ctes name m
      | _ \<Rightarrow> execute_ctes_in_turn (execute_single_non_recursive_cte run ctes) names m)"

fun execute_cte_groups ::
    "'fm query_runner \<Rightarrow> Statement CommonTableExpression list \<Rightarrow> (string, CTEGraphNode) hmap \<Rightarrow> string list list \<Rightarrow> ctes \<Rightarrow>
     ('fm, ctes) ex_op" where
  "execute_cte_groups run ctes nodes [] m = st_return m"
| "execute_cte_groups run ctes nodes (g # gs) m =
     st_bind (execute_cte_group run ctes nodes g m) (execute_cte_groups run ctes nodes gs)"

definition execute_main_query :: "'fm query_runner \<Rightarrow> bool \<Rightarrow> ctes \<Rightarrow> Statement \<Rightarrow> ('fm, QueryResult) ex_op" where
  "execute_main_query run set_operations m main_query =
     st_bind (set_ctes m) (\<lambda>_. case main_query of
         SelectS select_stmt \<Rightarrow>
           (case select_stmt of
              SetSelect _ \<Rightarrow> if set_operations then run m select_stmt
                else st_fail (InvalidOperationError ''Set operations in CTE main queries are not yet supported'')
            | _ \<Rightarrow> run m select_stmt)
       | _ \<Rightarrow> st_fail (InvalidOperationError ''CTE operator only supports SELECT statements as main query''))"

definition execute_recursive_ctes ::
    "'fm query_runner \<Rightarrow> Statement CommonTableExpression list \<Rightarrow> Statement \<Rightarrow> ('fm, QueryResult) ex_op" where
  "execute_recursive_ctes run ctes main_query =
     st_bind (lift_res (build_execution_order (fold add_cte ctes CTEDependencyGraph_new))) (\<lambda>G.
     st_bind (execute_cte_groups run ctes (cg_nodes G) (cg_execution_order G) []) (\<lambda>m.
       execute_main_query run True m main_query))"

text \<open>
  (The sources set the map of the context here only when the planning has succeeded. This shows only in the
  context that a failed planning leaves behind, which ends with the query.)
\<close>

fun materialize_ctes :: "'fm query_runner \<Rightarrow> Statement CommonTableExpression list \<Rightarrow> ctes \<Rightarrow> ('fm, ctes) ex_op" where
  "materialize_ctes run [] m = st_return m"
| "materialize_ctes run (cte # ctes) m =
     st_bind (set_ctes m) (\<lambda>_. st_bind (run m (cte_query cte)) (\<lambda>cte_result.
       materialize_ctes run ctes (hm_insert (cte_name cte) cte_result m)))"

definition execute_non_recursive_ctes ::
    "'fm query_runner \<Rightarrow> Statement CommonTableExpression list \<Rightarrow> Statement \<Rightarrow> ('fm, QueryResult) ex_op" where
  "execute_non_recursive_ctes run ctes main_query =
     st_bind (materialize_ctes run ctes []) (\<lambda>m. execute_main_query run False m main_query)"

definition cte_execute :: "'fm query_runner \<Rightarrow> Statement WithClause \<Rightarrow> Statement \<Rightarrow> ('fm, QueryResult) ex_op" where
  "cte_execute run with_clause main_query =
     (if with_recursive with_clause then execute_recursive_ctes run (with_ctes with_clause) main_query
      else execute_non_recursive_ctes run (with_ctes with_clause) main_query)"

subsection \<open>Subqueries\<close>

definition subquery_execute :: "'fm query_runner \<Rightarrow> Statement \<Rightarrow> ('fm, QueryResult) ex_op" where
  "subquery_execute run query s =
     (case query of
        SelectS select_stmt \<Rightarrow> run (context_ctes s) select_stmt s
      | _ \<Rightarrow> (Err (InvalidOperationError ''Only SELECT statements are supported in subqueries''), s))"

text \<open>The values of the outer row that a correlated subquery sees, under their qualified and plain names.\<close>

definition unqualified :: "string \<Rightarrow> string option" where
  "unqualified name = (if CHR ''.'' \<in> set name then Some (tl (dropWhile (\<lambda>c. c \<noteq> CHR ''.'') name)) else None)"

definition outer_values_of :: "(string, Value) hmap \<Rightarrow> string list \<Rightarrow> (string, Value) hmap" where
  "outer_values_of columns correlated_columns =
     fold (\<lambda>c m. case hm_get columns c of
         Some v \<Rightarrow> (case unqualified c of Some u \<Rightarrow> hm_insert u v (hm_insert c v m) | None \<Rightarrow> hm_insert c v m)
       | None \<Rightarrow> (case unqualified c of
           Some u \<Rightarrow> (case hm_get columns u of Some v \<Rightarrow> hm_insert u v (hm_insert c v m) | None \<Rightarrow> m)
         | None \<Rightarrow> m)) correlated_columns []"

text \<open>The subquery runs in a context of its own; the tables it works on are those of the outer query.\<close>

definition execute_correlated ::
    "'fm query_runner \<Rightarrow> Statement \<Rightarrow> string list \<Rightarrow> EvaluationContext \<Rightarrow> ('fm, QueryResult) ex_op" where
  "execute_correlated run query correlated_columns outer_context s =
     (if correlated_columns = [] then subquery_execute run query s
      else let outer_values = outer_values_of (ec_columns outer_context) correlated_columns;
               context1 = \<lparr>xc_outer_context_values = (if outer_values = [] then None else Some outer_values),
                 xc_materialized_ctes = xc_materialized_ctes (es_context s)\<rparr>
           in case subquery_execute run query (s\<lparr>es_context := context1\<rparr>) of
                (r, s1) \<Rightarrow> (r, s\<lparr>es_txn := es_txn s1\<rparr>))"

subsection \<open>Plan nodes\<close>

fun extract_table_alias :: "PlanNode \<Rightarrow> string option" where
  "extract_table_alias (ScanNode _ _ al) = al"
| "extract_table_alias (CTEScanNode name al) = (case al of Some a \<Rightarrow> Some a | None \<Rightarrow> Some name)"
| "extract_table_alias (ProjectNode input _ table_aliases _ _) =
     (case table_aliases of [(_, a)] \<Rightarrow> Some a | _ \<Rightarrow> extract_table_alias input)"
| "extract_table_alias (FilterNode input _) = extract_table_alias input"
| "extract_table_alias (AggregateNode input _ _ _) = extract_table_alias input"
| "extract_table_alias (SortNode input _) = extract_table_alias input"
| "extract_table_alias (LimitNode input _ _) = extract_table_alias input"
| "extract_table_alias (DistinctNode input) = extract_table_alias input"
| "extract_table_alias (WindowNode input _) = extract_table_alias input"
| "extract_table_alias _ = None"

fun execute_node :: "'fm exec_lib \<Rightarrow> 'fm query_runner \<Rightarrow> PlanNode \<Rightarrow> ('fm, QueryResult) ex_op" where
  "execute_node D run (ScanNode table_name _ _) = on_txn (scan_execute table_name)"
| "execute_node D run (IndexScanNode table_name index_name index_condition columns) =
     on_txn (index_scan_execute (IndexScanOperator_new table_name index_name index_condition columns))"
| "execute_node D run (IndexOnlyScanNode table_name index_name index_condition columns) =
     on_txn (index_only_scan_execute (IndexScanOperator_new table_name index_name index_condition columns))"
| "execute_node D run (FilterNode input condition) =
     st_bind (execute_node D run input) (\<lambda>r. with_context (\<lambda>c.
       filter_execute (pl_expr (xl_plan D)) condition (extract_table_alias input) c r))"
| "execute_node D run (ProjectNode input columns _ _ _) =
     st_bind (execute_node D run input) (\<lambda>r. with_context (\<lambda>c.
       project_execute (pl_expr (xl_plan D)) columns (extract_table_alias input) c r))"
| "execute_node D run (JoinNode left right condition join_type left_alias right_alias) =
     st_bind (execute_node D run left) (\<lambda>l. st_bind (execute_node D run right) (\<lambda>r.
       lift_res (join_execute (pl_expr (xl_plan D)) \<lparr>jo_condition = condition, jo_join_type = join_type,
         jo_left_alias = left_alias, jo_right_alias = right_alias\<rparr> l r)))"
| "execute_node D run (HashJoinNode left right condition join_type hash_key_columns) =
     st_bind (execute_node D run left) (\<lambda>l. st_bind (execute_node D run right) (\<lambda>r.
       lift_res (hash_join_execute (pl_expr (xl_plan D)) condition hash_key_columns l r)))"
| "execute_node D run (MergeJoinNode left right condition join_type sort_columns) =
     st_bind (execute_node D run left) (\<lambda>l. st_bind (execute_node D run right) (\<lambda>r.
       lift_res (merge_join_execute (pl_expr (xl_plan D)) condition sort_columns l r)))"
| "execute_node D run (ParallelScanNode table_name _) = on_txn (scan_execute table_name)"
| "execute_node D run (ParallelHashJoinNode left right condition join_type hash_key_columns) =
     st_bind (execute_node D run left) (\<lambda>l. st_bind (execute_node D run right) (\<lambda>r.
       lift_res (hash_join_execute (pl_expr (xl_plan D)) condition hash_key_columns l r)))"
| "execute_node D run (ParallelAggregateNode input group_by_columns aggregate_functions having_clause) =
     st_bind (execute_node D run input) (\<lambda>r. lift_res (aggregate_execute (pl_expr (xl_plan D))
       \<lparr>ao_group_by_columns = group_by_columns, ao_aggregate_functions = aggregate_functions, ao_having_clause = having_clause\<rparr> r))"
| "execute_node D run (InsertNode table_name columns vals) =
     on_txn (insert_execute (pl_expr (xl_plan D)) (xl_scan D) (xl_clock D) table_name columns vals)"
| "execute_node D run (UpdateNode table_name assignments condition) =
     on_txn (update_execute (pl_expr (xl_plan D)) (xl_scan D) table_name assignments condition)"
| "execute_node D run (DeleteNode table_name condition) =
     on_txn (delete_execute (pl_expr (xl_plan D)) (xl_scan D) (xl_txn D) table_name condition (xl_transaction D))"
| "execute_node D run (AggregateNode input group_by_columns aggregate_functions having_clause) =
     st_bind (execute_node D run input) (\<lambda>r. lift_res (aggregate_execute (pl_expr (xl_plan D))
       \<lparr>ao_group_by_columns = group_by_columns, ao_aggregate_functions = aggregate_functions, ao_having_clause = having_clause\<rparr> r))"
| "execute_node D run (WindowNode input window_functions) =
     st_bind (execute_node D run input) (\<lambda>r.
       lift_res (window_execute (pl_expr (xl_plan D)) (window_operator_of window_functions) r))"
| "execute_node D run (SetOperationNode operator left right all) =
     st_bind (execute_node D run left) (\<lambda>l. st_bind (execute_node D run right) (\<lambda>r.
       lift_res (set_operation_execute operator all l r)))"
| "execute_node D run (SubqueryNode query correlated_columns) = subquery_execute run query"
| "execute_node D run (ValuesNode rows column_names) = st_return \<lparr>qr_rows = rows, qr_column_names = column_names\<rparr>"
| "execute_node D run (CTENode with_clause main_query) = (\<lambda>s.
     if xm_catalog (es_txn s) = None
     then (Err (ExecutionError ''Catalog not available in execution context for CTE''), s)
     else cte_execute run with_clause main_query s)"
| "execute_node D run (CTEScanNode name al) = cte_scan_execute name"
| "execute_node D run (SortNode input order_by) =
     st_bind (execute_node D run input) (\<lambda>r. lift_res (sort_execute (pl_expr (xl_plan D)) order_by r))"
| "execute_node D run (LimitNode input limit offset) =
     st_bind (execute_node D run input) (\<lambda>r. lift_res (limit_execute limit offset r))"
| "execute_node D run (DistinctNode input) =
     st_bind (execute_node D run input) (\<lambda>r. st_return (distinct_execute r))"

text \<open>Planning and executing a query, with as many queries inside one another as the number says.\<close>

fun run_select :: "'fm exec_lib \<Rightarrow> nat \<Rightarrow> 'fm query_runner" where
  "run_select D 0 m select s = (Deadlock, s)"
| "run_select D (Suc n) m select s =
     (case plan_select (xl_plan D) n (QueryPlanner_with_ctes (xm_catalog (es_txn s)) m) select of
        Ok plan \<Rightarrow> execute_node D (run_select D n) (ep_root plan) s
      | r \<Rightarrow> (res_cast r, s))"

subsection \<open>Lemmas: the order of common table expressions\<close>

definition dependencies_of :: "(string, CTEGraphNode) hmap \<Rightarrow> string \<Rightarrow> string list" where
  "dependencies_of nodes name = (case hm_get nodes name of Some node \<Rightarrow> cn_dependencies node | None \<Rightarrow> [])"

fun deps_before :: "(string, CTEGraphNode) hmap \<Rightarrow> string set \<Rightarrow> string list \<Rightarrow> bool" where
  "deps_before nodes done [] = True"
| "deps_before nodes done (n # ns) =
     ((is_recursive_node nodes n \<longrightarrow> set (dependencies_of nodes n) \<subseteq> done) \<and> deps_before nodes (insert n done) ns)"

lemma deps_before_append:
  "deps_before nodes done (xs @ ys) \<longleftrightarrow> deps_before nodes done xs \<and> deps_before nodes (done \<union> set xs) ys"
  by (induction xs arbitrary: "done") auto

lemma deps_before_ready: "(\<And>n. n \<in> set xs \<Longrightarrow> is_recursive_node nodes n \<Longrightarrow> set (dependencies_of nodes n) \<subseteq> done) \<Longrightarrow>
    deps_before nodes done xs"
proof (induction xs arbitrary: "done")
  case (Cons x xs)
  have "deps_before nodes (insert x done) xs" using Cons.prems by (intro Cons.IH) (meson list.set_intros(2) subset_insertI2)
  then show ?case using Cons.prems by simp
qed simp

lemma order_recursive_ok:
  fixes rank :: "string \<Rightarrow> nat"
  assumes "\<forall>x \<in> set remaining. hm_get nodes x \<noteq> None \<and>
      (\<forall>d \<in> set (dependencies_of nodes x). rank d < rank x \<and> d \<in> set processed \<union> set remaining)"
    and "distinct remaining"
  shows "\<exists>order. order_recursive nodes processed remaining groups = Ok (groups @ map (\<lambda>n. [n]) order) \<and>
    set order = set remaining \<and> distinct order \<and> deps_before nodes (set processed) order"
  using assms
proof (induction nodes processed remaining groups rule: order_recursive.induct)
  case (1 nodes processed remaining groups)
  let ?ready = "deps_processed nodes processed"
  let ?now = "filter ?ready remaining" and ?rest = "filter (\<lambda>name. \<not> ?ready name) remaining"
  have ready: "?ready x \<longleftrightarrow> set (dependencies_of nodes x) \<subseteq> set processed" if "x \<in> set remaining" for x
    using "1.prems"(1) that by (force simp: deps_processed_def dependencies_of_def list_all_iff split: option.splits)
  show ?case
  proof (cases "remaining = []")
    case False
    define x where "x = arg_min_on rank (set remaining)"
    have x: "x \<in> set remaining" "\<And>y. y \<in> set remaining \<Longrightarrow> rank x \<le> rank y"
      unfolding x_def using False by (auto intro: arg_min_if_finite arg_min_least)
    have "d \<in> set processed" if "d \<in> set (dependencies_of nodes x)" for d
      using "1.prems"(1) x that by (meson UnE leD)
    then have "x \<in> set ?now" using ready x(1) by auto
    then have now: "?now \<noteq> []" by (auto simp: filter_empty_conv)
    have step: "order_recursive nodes processed remaining groups =
        order_recursive nodes (processed @ ?now) ?rest (groups @ map (\<lambda>n. [n]) ?now)"
      using False now order_recursive.simps [of nodes processed remaining groups] by (simp only: Let_def if_False)
    have "\<exists>order. order_recursive nodes (processed @ ?now) ?rest (groups @ map (\<lambda>n. [n]) ?now) =
        Ok ((groups @ map (\<lambda>n. [n]) ?now) @ map (\<lambda>n. [n]) order) \<and>
        set order = set ?rest \<and> distinct order \<and> deps_before nodes (set (processed @ ?now)) order"
    proof (rule "1.IH" [OF False refl now])
      show "\<forall>x \<in> set ?rest. hm_get nodes x \<noteq> None \<and>
          (\<forall>d \<in> set (dependencies_of nodes x). rank d < rank x \<and> d \<in> set (processed @ ?now) \<union> set ?rest)"
        using "1.prems"(1) by auto
    qed (use "1.prems"(2) in simp)
    then obtain order where order: "order_recursive nodes processed remaining groups = Ok (groups @ map (\<lambda>n. [n]) (?now @ order))"
      "set order = set ?rest" "distinct order" "deps_before nodes (set processed \<union> set ?now) order"
      unfolding step by auto
    have "deps_before nodes (set processed) ?now" by (rule deps_before_ready) (use ready in auto)
    then have "deps_before nodes (set processed) (?now @ order)" using order(4) by (simp add: deps_before_append)
    then show ?thesis using order "1.prems"(2) by (intro exI [of _ "?now @ order"]) (auto simp: distinct_filter)
  qed (simp add: order_recursive.simps)
qed

lemma extracted_dependencies_known:
  "set (extract_query_dependencies known q) \<subseteq> set known"
  "set (extract_table_dependencies known t) \<subseteq> set known"
  by (induction known q and known t rule: extract_query_dependencies_extract_table_dependencies.induct) auto

lemma added_ctes:
  fixes ctes :: "Statement CommonTableExpression list"
  assumes "distinct (map cte_name ctes)"
  defines "nodes \<equiv> cg_nodes (fold add_cte ctes CTEDependencyGraph_new)"
  shows "map fst nodes = map cte_name ctes \<and> (\<forall>i < length ctes.
      hm_get nodes (cte_name (ctes ! i)) = Some \<lparr>cn_is_recursive = cte_recursive (ctes ! i),
        cn_dependencies = extract_query_dependencies (map cte_name (take i ctes)) (cte_query (ctes ! i))\<rparr>)"
  using assms(1) unfolding nodes_def
proof (induction ctes rule: rev_induct)
  case (snoc c cs)
  let ?G = "fold add_cte cs CTEDependencyGraph_new"
  have keys: "map fst (cg_nodes ?G) = map cte_name cs"
    and got: "\<forall>i < length cs. hm_get (cg_nodes ?G) (cte_name (cs ! i)) = Some \<lparr>cn_is_recursive = cte_recursive (cs ! i),
        cn_dependencies = extract_query_dependencies (map cte_name (take i cs)) (cte_query (cs ! i))\<rparr>"
    using snoc by simp_all
  have new: "cte_name c \<notin> set (map fst (cg_nodes ?G))" unfolding keys using snoc.prems by auto
  have keys1: "map fst (hm_insert (cte_name c) v (cg_nodes ?G)) = map cte_name (cs @ [c])" for v
    using new unfolding update_keys keys by simp
  have "cte_name (cs ! i) \<noteq> cte_name c" if "i < length cs" for i
    using snoc.prems that by (metis (no_types, lifting) distinct_append image_eqI list.set_map
        map_append nth_mem disjoint_iff list.set_intros(1) list.simps(9))
  moreover have "cg_nodes (fold add_cte (cs @ [c]) CTEDependencyGraph_new) = hm_insert (cte_name c) \<lparr>cn_is_recursive = cte_recursive c,
      cn_dependencies = extract_query_dependencies (map cte_name cs) (cte_query c)\<rparr> (cg_nodes ?G)"
    by (simp add: add_cte_def hm_keys_def keys Let_def)
  ultimately show ?case using got keys1 by (simp add: nth_append less_Suc_eq all_conj_distrib)
qed (simp add: CTEDependencyGraph_new_def)

lemma distinct_position: "distinct (map f xs) \<Longrightarrow> i < length xs \<Longrightarrow> length (takeWhile (\<lambda>c. f c \<noteq> f (xs ! i)) xs) = i"
proof (induction xs arbitrary: i)
  case (Cons x xs)
  then show ?case by (cases i) auto
qed simp

subsection \<open>Properties: the order of common table expressions\<close>


text \<open>Three of them: a recursive one, a recursive one over it, and a plain one.\<close>

definition union_cte :: "string \<Rightarrow> bool \<Rightarrow> string \<Rightarrow> string \<Rightarrow> Statement CommonTableExpression" where
  "union_cte name recursive anchor table =
     CommonTableExpression name None (SetSelect (SetOperation UnionOp (select_all anchor) (select_all table) False)) recursive"


text \<open>
  A reference to an expression that stands further on is not recorded, so that it may run before the
  expression it refers to: here \<^verbatim>\<open>a\<close> reads the recursive \<^verbatim>\<open>b\<close> and runs first.
\<close>

theorem forward_reference_ignored:
  "build_execution_order (fold add_cte [union_cte ''a'' True ''b'' ''a'', union_cte ''b'' True ''t'' ''b''] CTEDependencyGraph_new) =
   Ok \<lparr>cg_nodes = [(''a'', \<lparr>cn_is_recursive = True, cn_dependencies = []\<rparr>),
        (''b'', \<lparr>cn_is_recursive = True, cn_dependencies = []\<rparr>)],
       cg_execution_order = [[''a''], [''b'']]\<rparr>"
  by (simp add: union_cte_def select_all_def build_execution_order_def add_cte_def CTEDependencyGraph_new_def hm_keys_def
      is_recursive_node_def deps_processed_def order_recursive.simps Let_def)

text \<open>
  Expressions of a WITH RECURSIVE that are not recursive run in the order of a hash map, whatever they
  refer to: here \<^verbatim>\<open>b\<close>, which reads \<^verbatim>\<open>a\<close>, is in one group with it.
\<close>

theorem plain_ctes_in_one_group:
  "map_option cg_execution_order (case build_execution_order (fold add_cte [union_cte ''a'' False ''t'' ''t'', union_cte ''b'' False ''a'' ''a'']
      CTEDependencyGraph_new) of Ok G \<Rightarrow> Some G | _ \<Rightarrow> None) = Some [[''a'', ''b'']]"
  by (simp add: union_cte_def select_all_def build_execution_order_def add_cte_def CTEDependencyGraph_new_def hm_keys_def
      is_recursive_node_def deps_processed_def order_recursive.simps Let_def)

subsection \<open>Lemmas: rounds of a recursive common table expression\<close>

lemma row_exists_exact:
  "\<forall>r \<in> set rows. list_all exact_value r \<Longrightarrow> row_exists_in_results rows t = (t \<in> set rows)"
  by (auto simp: row_exists_in_results_def list_ex_iff rows_equal_exact)

lemma add_new_rows_union:
  assumes "\<forall>r \<in> set rows \<union> set all. list_all exact_value r"
  shows "\<exists>added. add_new_rows False rows new all = (new @ added, all @ added) \<and> distinct added \<and>
    set added = set rows - set all"
  using assms
proof (induction rows arbitrary: new all)
  case (Cons r rows)
  show ?case
  proof (cases "r \<in> set all")
    case False
    have "\<forall>x \<in> set rows \<union> set (all @ [r]). list_all exact_value x" using Cons.prems by auto
    then obtain added where "add_new_rows False rows (new @ [r]) (all @ [r]) = ((new @ [r]) @ added, (all @ [r]) @ added)"
      "distinct added" "set added = set rows - set (all @ [r])"
      using Cons.IH by blast
    then show ?thesis using False Cons.prems by (intro exI [of _ "r # added"]) (auto simp: row_exists_exact)
  qed (use Cons in \<open>auto simp: row_exists_exact\<close>)
qed simp

lemma add_new_rows_all: "add_new_rows True rows new all = (new @ rows, all @ rows)"
  by (induction rows arbitrary: new all) auto

text \<open>A query whose result on the rows of a round is what it finds for each of them.\<close>

definition successor_query ::
    "'fm query_runner \<Rightarrow> ctes \<Rightarrow> string \<Rightarrow> Statement SelectStatement \<Rightarrow> (row \<Rightarrow> row list) \<Rightarrow> 'fm TransactionManager \<Rightarrow> bool" where
  "successor_query run m name query succs t \<longleftrightarrow>
     (\<forall>w s. es_txn s = t \<longrightarrow> xc_materialized_ctes (es_context s) = Some (hm_insert name w m) \<longrightarrow>
        (\<exists>names. run (hm_insert name w m) query s =
          (Ok \<lparr>qr_rows = concat (map succs (qr_rows w)), qr_column_names = names\<rparr>, s)))"

definition successor :: "(row \<Rightarrow> row list) \<Rightarrow> (row \<times> row) set" where
  "successor succs = {(r, r'). r' \<in> set (succs r)}"

lemma rounds_closure:
  assumes "successor_query run m name query succs t"
    and "finite ((successor succs)\<^sup>* `` A)" "\<forall>r \<in> (successor succs)\<^sup>* `` A. list_all exact_value r"
    and "A \<subseteq> set (qr_rows all)" "set (qr_rows all) \<subseteq> (successor succs)\<^sup>* `` A" "set (qr_rows working) \<subseteq> set (qr_rows all)"
    and "\<forall>r \<in> set (qr_rows all) - set (qr_rows working). set (succs r) \<subseteq> set (qr_rows all)"
    and "card ((successor succs)\<^sup>* `` A - set (qr_rows all)) + (if qr_rows working = [] then 0 else 1) \<le> n"
    and "es_txn s = t"
  shows "\<exists>extra s'. recursive_rounds run m name query False n working all s = (Ok (all\<lparr>qr_rows := qr_rows all @ extra\<rparr>), s') \<and>
    es_txn s' = t \<and> distinct extra \<and> set extra \<inter> set (qr_rows all) = {} \<and> set (qr_rows all @ extra) = (successor succs)\<^sup>* `` A"
  using assms(4-9)
proof (induction n arbitrary: working all s)
  case 0
  then have "qr_rows working = []" "(successor succs)\<^sup>* `` A \<subseteq> set (qr_rows all)"
    using assms(2) by (auto split: if_splits)
  then show ?case using "0.prems" by (intro exI [of _ "[]"]) auto
next
  case (Suc n)
  let ?R = "(successor succs)\<^sup>* `` A"
  have closed: "set (qr_rows all) = ?R" if "\<forall>r \<in> set (qr_rows all). set (succs r) \<subseteq> set (qr_rows all)"
  proof -
    have "y \<in> set (qr_rows all)" if "(x, y) \<in> (successor succs)\<^sup>*" "x \<in> A" for x y
      using that
    proof (induction rule: rtrancl_induct)
      case (step y z)
      then show ?case using \<open>\<forall>r \<in> set (qr_rows all). set (succs r) \<subseteq> set (qr_rows all)\<close> by (auto simp: successor_def)
    qed (use Suc.prems(1) in auto)
    then show ?thesis using Suc.prems(2) by blast
  qed
  have stop: ?case if "recursive_rounds run m name query False (Suc n) working all s = (Ok all, s')" "es_txn s' = t"
      "\<forall>r \<in> set (qr_rows all). set (succs r) \<subseteq> set (qr_rows all)" for s'
    using that(1,2) closed [OF that(3)] by (intro exI [of _ "[]"] exI [of _ s']) auto
  let ?m = "hm_insert name working m" and ?found = "concat (map succs (qr_rows working))"
  define s1 where "s1 = s\<lparr>es_context := (es_context s)\<lparr>xc_materialized_ctes := Some ?m\<rparr>\<rparr>"
  obtain names where run: "set_ctes ?m s = (Ok (), s1)" "run ?m query s1 = (Ok \<lparr>qr_rows = ?found, qr_column_names = names\<rparr>, s1)" "es_txn s1 = t"
    using assms(1) Suc.prems(6) unfolding successor_query_def
    by (auto simp: s1_def set_ctes_def dest!: spec [of _ working] spec [of _ s1])
  show ?case
  proof (cases "qr_rows working = [] \<or> ?found = []")
    case True
    then show ?thesis
    proof (cases "qr_rows working = []")
      case False
      then have "?found = []" using True by blast
      then show ?thesis using False run Suc.prems(4) by (intro stop [of s1]) (auto simp: Let_def)
    qed (use Suc.prems in \<open>intro stop [of s], auto\<close>)
  next
    case False
    have "r \<in> ?R" if r: "r \<in> set ?found" for r
    proof -
      obtain w where w: "w \<in> set (qr_rows working)" "(w, r) \<in> successor succs"
        using r by (auto simp: successor_def)
      then obtain a where "a \<in> A" "(a, w) \<in> (successor succs)\<^sup>*" using Suc.prems(2,3) by blast
      then show ?thesis using w(2) by (meson ImageI rtrancl.rtrancl_into_rtrancl)
    qed
    then have "set ?found \<subseteq> ?R" by blast
    then have exact: "\<forall>r \<in> set ?found \<union> set (qr_rows all). list_all exact_value r"
      using assms(3) Suc.prems(2) by blast
    obtain added where added: "add_new_rows False ?found [] (qr_rows all) = (added, qr_rows all @ added)"
      "distinct added" "set added = set ?found - set (qr_rows all)"
      using add_new_rows_union [OF exact, of "[]"] by auto
    let ?working = "\<lparr>qr_rows = added, qr_column_names = qr_column_names working\<rparr>" and ?all = "all\<lparr>qr_rows := qr_rows all @ added\<rparr>"
    have step: "recursive_rounds run m name query False (Suc n) working all s =
        recursive_rounds run m name query False n ?working ?all s1"
      using False run added(1) by (auto simp: Let_def)
    have fewer: "card (?R - set (qr_rows all @ added)) + (if added = [] then 0 else 1) \<le> n"
    proof (cases "added = []")
      case True
      then show ?thesis using Suc.prems(5) False by (auto split: if_splits)
    next
      case False
      then obtain r where "r \<in> set added" by (cases added) auto
      then have "r \<in> ?R - set (qr_rows all)" "r \<notin> ?R - set (qr_rows all @ added)"
        using added(3) \<open>set ?found \<subseteq> ?R\<close> by auto
      moreover have "?R - set (qr_rows all @ added) \<subseteq> ?R - set (qr_rows all)" by auto
      ultimately have "?R - set (qr_rows all @ added) \<subset> ?R - set (qr_rows all)" by blast
      then have "card (?R - set (qr_rows all @ added)) < card (?R - set (qr_rows all))"
        using assms(2) by (intro psubset_card_mono) auto
      then show ?thesis using Suc.prems(5) \<open>\<not> (qr_rows working = [] \<or> ?found = [])\<close> by (auto split: if_splits)
    qed
    have "\<exists>extra s'. recursive_rounds run m name query False n ?working ?all s1 = (Ok (?all\<lparr>qr_rows := qr_rows ?all @ extra\<rparr>), s') \<and>
        es_txn s' = t \<and> distinct extra \<and> set extra \<inter> set (qr_rows ?all) = {} \<and> set (qr_rows ?all @ extra) = ?R"
    proof (rule Suc.IH)
      show "\<forall>r \<in> set (qr_rows ?all) - set (qr_rows ?working). set (succs r) \<subseteq> set (qr_rows ?all)"
        using Suc.prems(4) added(3) by auto
      show "set (qr_rows ?all) \<subseteq> ?R" using added(3) Suc.prems(2) \<open>set ?found \<subseteq> ?R\<close> by auto
    qed (use Suc.prems(1) fewer run(3) in auto)
    then obtain extra s' where "recursive_rounds run m name query False n ?working ?all s1 = (Ok (?all\<lparr>qr_rows := qr_rows ?all @ extra\<rparr>), s')"
      "es_txn s' = t" "distinct extra" "set extra \<inter> set (qr_rows ?all) = {}" "set (qr_rows ?all @ extra) = ?R"
      by blast
    then show ?thesis unfolding step using added by (intro exI [of _ "added @ extra"] exI [of _ s']) auto
  qed
qed

subsection \<open>Properties: recursive common table expressions\<close>


text \<open>The rows of a common table expression \<^verbatim>\<open>b\<close>, and an expression that adds itself to them.\<close>

definition sample_exec_lib :: "MockFileManager exec_lib" where
  "sample_exec_lib = \<lparr>xl_plan = sample_plan_lib, xl_scan = undefined, xl_txn = le_txn_lib, xl_clock = undefined,
     xl_transaction = None\<rparr>"

definition sample_state :: "MockFileManager exec_state" where
  "sample_state = \<lparr>es_context = \<lparr>xc_outer_context_values = None, xc_materialized_ctes = None\<rparr>, es_txn = TransactionManager_new\<rparr>"

lemma run_all_of_cte:
  assumes "hm_get m name = Some r" "xc_materialized_ctes (es_context s) = Some m"
  shows "run_select D (Suc k) m (select_all name) s = (Ok r, s)"
proof -
  have "hm_contains m name" unfolding hm_contains_get using assms(1) by simp
  then have "plan_select (xl_plan D) k (QueryPlanner_with_ctes (xm_catalog (es_txn s)) m) (select_all name) =
      Ok \<lparr>ep_root = CTEScanNode name None, ep_output_schema = []\<rparr>"
    by (cases k) (simp_all add: plan_select_def select_all_def plan_from_clause_def plan_table_ref_def finish_plan_def
      QueryPlanner_with_ctes_def has_aggregate_functions_def is_aggregate_function_def output_schema_of_def)
  then show ?thesis using assms by (simp add: cte_scan_execute_def with_context_def)
qed


text \<open>
  A recursive UNION ALL that finds one row for every row never ends by itself. It is cut off after a thousand
  rounds, and the rows found until then are the result; no error is reported.
\<close>

theorem recursive_cte_truncated:
  assumes "successor_query run m name query succs t" "\<forall>r. length (succs r) = 1" "es_txn s = t"
  shows "\<exists>rows s'. recursive_rounds run m name query True n working all s = (Ok (all\<lparr>qr_rows := rows\<rparr>), s') \<and>
    length rows = length (qr_rows all) + n * length (qr_rows working)"
  using assms(3)
proof (induction n arbitrary: working all s)
  case (Suc n)
  let ?m = "hm_insert name working m" and ?found = "concat (map succs (qr_rows working))"
  define s1 where "s1 = s\<lparr>es_context := (es_context s)\<lparr>xc_materialized_ctes := Some ?m\<rparr>\<rparr>"
  obtain names where run: "set_ctes ?m s = (Ok (), s1)" "es_txn s1 = t"
      "run ?m query s1 = (Ok \<lparr>qr_rows = ?found, qr_column_names = names\<rparr>, s1)"
    using assms(1) Suc.prems unfolding successor_query_def
    by (auto simp: s1_def set_ctes_def dest!: spec [of _ working] spec [of _ s1])
  have found: "length ?found = length (qr_rows working)"
    using assms(2) by (simp add: length_concat comp_def sum_list_triv)
  show ?case
  proof (cases "qr_rows working = []")
    case True
    then show ?thesis by (intro exI [of _ "qr_rows all"]) auto
  next
    case False
    then have "?found \<noteq> []" using found by force
    then show ?thesis
      using False run Suc.IH [OF run(2), of "\<lparr>qr_rows = ?found, qr_column_names = qr_column_names working\<rparr>"
          "all\<lparr>qr_rows := qr_rows all @ ?found\<rparr>"] found
      by (auto simp: Let_def add_new_rows_all)
  qed
next
  case 0
  then show ?case by (intro exI [of _ "qr_rows all"]) auto
qed

subsection \<open>Properties: a query over one table\<close>

definition condition_holds :: "expr_lib \<Rightarrow> EvaluationContext \<Rightarrow> expr \<Rightarrow> bool" where
  "condition_holds L c e = (case evaluate L c e of Ok v \<Rightarrow> tvl_from_value v = TTrue | _ \<Rightarrow> False)"

definition column_value :: "expr_lib \<Rightarrow> EvaluationContext \<Rightarrow> expr \<Rightarrow> Value" where
  "column_value L c e = (case evaluate L c e of Ok v \<Rightarrow> v | _ \<Rightarrow> NullV)"

lemma project_value_returns: "returns (evaluate L c e) \<Longrightarrow> project_value L c e = Ok (column_value L c e)"
  by (auto simp: project_value_def column_value_def returns_def split: res.splits)

lemma map_rows_values: "(\<And>x. x \<in> set xs \<Longrightarrow> f x = Ok (g x)) \<Longrightarrow> map_rows f xs = Ok (map g xs)"
  by (induction xs) auto

lemma plain_projections:
  "map snd (projections_of [] False i cs) = map cs_expr cs"
  by (rule nth_equalityI) (auto simp: projections_of_def projection_expr_def)

lemma plan_where:
  assumes "hm_get m t = None" "view_of (QueryPlanner_with_ctes catalog m) t = None"
    and "map cs_expr columns \<noteq> [StarE]" "\<not> has_aggregate_functions (map cs_expr columns)" "\<not> has_window_functions (map cs_expr columns)"
  shows "\<exists>schema. plan_select E n (QueryPlanner_with_ctes catalog m)
      (SimpleSelect None False columns [TableName t al] [] (Some condition) [] None [] None None nw) =
    Ok \<lparr>ep_root = project_node (FilterNode (ScanNode t [] al) condition) (projections_of [] False 0 columns),
        ep_output_schema = schema\<rparr>"
proof -
  have "\<not> hm_contains m t" unfolding hm_contains_get using assms(1) by simp
  then have scan: "plan_table_scan E n (QueryPlanner_with_ctes catalog m) t al = Ok (ScanNode t [] al)"
    using assms(2) by (cases n) (simp_all add: QueryPlanner_with_ctes_def)
  show ?thesis
    using assms(3-5) by (simp add: plan_select_def plan_from_clause_def plan_table_ref_def scan plan_filter_def
      plan_projections_ok plan_projection_def plain_projections finish_plan_def Let_def del: plan_table_scan.simps)
qed

text \<open>
  C29. A query over one table. When no evaluation panics, \<^verbatim>\<open>SELECT\<close> of columns \<^verbatim>\<open>FROM\<close> a table \<^verbatim>\<open>WHERE\<close> a
  condition, planned and executed, returns for every row of the table that makes the condition true, in
  the order of the table, the values of the columns, NULL where one fails; it changes nothing.
\<close>

theorem select_where_correct:
  fixes D :: "'fm exec_lib" and s :: "'fm exec_state"
  assumes "scanner_of t (es_txn s) = Some (Ok sc)" "sc_table_name sc = t" "txn_select t (es_txn s) = Ok rows"
    and "hm_get m t = None" "view_of (QueryPlanner_with_ctes (xm_catalog (es_txn s)) m) t = None"
    and "map cs_expr columns \<noteq> [StarE]" "\<not> has_aggregate_functions (map cs_expr columns)" "\<not> has_window_functions (map cs_expr columns)"
    and "\<forall>row \<in> set rows. \<forall>e \<in> insert condition (set (map cs_expr columns)).
      returns (evaluate (pl_expr (xl_plan D)) (create_evaluation_context al (column_names_of sc) row (es_context s)) e)"
  shows "run_select D (Suc n) m (SimpleSelect None False columns [TableName t al] [] (Some condition) [] None [] None None nw) s =
    (let context = (\<lambda>row. create_evaluation_context al (column_names_of sc) row (es_context s))
     in (Ok \<lparr>qr_rows = map (\<lambda>row. map (column_value (pl_expr (xl_plan D)) (context row)) (map cs_expr columns))
                 (filter (\<lambda>row. condition_holds (pl_expr (xl_plan D)) (context row) condition) rows),
             qr_column_names = map fst (projections_of [] False 0 columns)\<rparr>, s))"
proof -
  let ?L = "pl_expr (xl_plan D)" and ?c = "\<lambda>row. create_evaluation_context al (column_names_of sc) row (es_context s)"
  let ?rows = "filter (\<lambda>row. condition_holds ?L (?c row) condition) rows"
  obtain schema where plan: "plan_select (xl_plan D) n (QueryPlanner_with_ctes (xm_catalog (es_txn s)) m)
      (SimpleSelect None False columns [TableName t al] [] (Some condition) [] None [] None None nw) =
    Ok \<lparr>ep_root = project_node (FilterNode (ScanNode t [] al) condition) (projections_of [] False 0 columns),
        ep_output_schema = schema\<rparr>"
    using plan_where [OF assms(4-8)] by blast
  have scan: "on_txn (scan_execute t) s = (Ok \<lparr>qr_rows = rows, qr_column_names = column_names_of sc\<rparr>, s)"
    by (simp add: on_txn_def scan_returns_rows [OF assms(1-3)])
  have "filter_rows (\<lambda>row. row_passes ?L condition (?c row)) rows = Ok ?rows"
    using assms(9) by (intro filter_rows_ok) (simp add: row_passes_returns condition_holds_def)
  then have rows: "filter_execute ?L condition al (es_context s) \<lparr>qr_rows = rows, qr_column_names = column_names_of sc\<rparr> =
      Ok \<lparr>qr_rows = ?rows, qr_column_names = column_names_of sc\<rparr>"
    by (simp add: filter_execute_def)
  have "map_rows (\<lambda>(_, e). project_value ?L (?c row) e) (projections_of [] False 0 columns) =
      Ok (map (\<lambda>p. column_value ?L (?c row) (snd p)) (projections_of [] False 0 columns))" if row: "row \<in> set rows" for row
  proof (rule map_rows_values)
    fix p assume "p \<in> set (projections_of [] False 0 columns)"
    then have "snd p \<in> set (map cs_expr columns)" unfolding plain_projections [symmetric, of columns 0] by auto
    then show "(case p of (_, e) \<Rightarrow> project_value ?L (?c row) e) = Ok (column_value ?L (?c row) (snd p))"
      using assms(9) row by (auto simp: case_prod_beta intro!: project_value_returns)
  qed
  then have "map_rows (\<lambda>row. map_rows (\<lambda>(_, e). project_value ?L (?c row) e) (projections_of [] False 0 columns)) ?rows =
      Ok (map (\<lambda>row. map (column_value ?L (?c row)) (map snd (projections_of [] False 0 columns))) ?rows)"
    by (intro map_rows_values) (simp add: comp_def)
  then show ?thesis
    by (simp add: plan project_node_def scan with_context_def rows project_execute_def plain_projections Let_def)
qed

lemma pair_no_views: "view_of (QueryPlanner_with_ctes (xm_catalog pair_manager) []) t = None"
  by code_simp

theorem select_where_correct_witness:
  "let s = \<lparr>es_context = \<lparr>xc_outer_context_values = None, xc_materialized_ctes = None\<rparr>, es_txn = pair_manager\<rparr>
   in run_select sample_exec_lib (Suc 0) [] (SimpleSelect None False [ColumnSpec (ColumnE None ''v'') None] [TableName ''t'' None] []
        (Some (greater_than ''k'' 1)) [] None [] None None []) s =
      (Ok \<lparr>qr_rows = [[IntegerV 20], [IntegerV 30]], qr_column_names = [''v'']\<rparr>, s)"
proof -
  let ?s = "\<lparr>es_context = \<lparr>xc_outer_context_values = None, xc_materialized_ctes = None\<rparr>, es_txn = pair_manager\<rparr>"
  let ?columns = "[ColumnSpec (ColumnE None ''v'') None] :: Statement ColumnSpec list"
  note eval = row_eval create_evaluation_context_def condition_holds_def column_value_def
  have "map cs_expr ?columns \<noteq> [StarE]" "\<not> has_aggregate_functions (map cs_expr ?columns)"
    "\<not> has_window_functions (map cs_expr ?columns)"
    by (simp_all add: has_aggregate_functions_def has_window_functions_def is_aggregate_function_def)
  note select = select_where_correct [of "''t''" ?s pair_scanner "[[IntegerV 1, IntegerV 10], [IntegerV 2, IntegerV 20], [IntegerV 3, IntegerV 30]]"
      "[]" ?columns "greater_than ''k'' 1" sample_exec_lib None 0 "[]", OF _ _ _ _ _ this]
  show ?thesis unfolding Let_def
    by (subst select) (simp_all add: pair_facts pair_no_views pair_columns sample_exec_lib_def sample_plan_lib_def eval
        projections_of_def projection_name_def Let_def del: run_select.simps)
qed

text \<open>
  Rows are sorted after their columns have been selected: an ORDER BY a column that is not selected, here
  the descending order of the key, finds no value and leaves the rows as they are.
\<close>

theorem order_by_unselected_column:
  "let s = \<lparr>es_context = \<lparr>xc_outer_context_values = None, xc_materialized_ctes = None\<rparr>, es_txn = pair_manager\<rparr>
   in run_select sample_exec_lib (Suc n) [] (SimpleSelect None False [ColumnSpec (ColumnE None ''v'') None] [TableName ''t'' None] []
        None [] None [OrderBy (ColumnE None ''k'') Desc NullsDefault] None None []) s =
      (Ok \<lparr>qr_rows = [[IntegerV 10], [IntegerV 20], [IntegerV 30]], qr_column_names = [''v'']\<rparr>, s)"
proof -
  have scan: "on_txn (scan_execute ''t'') \<lparr>es_context = c, es_txn = pair_manager\<rparr> =
      (Ok \<lparr>qr_rows = [[IntegerV 1, IntegerV 10], [IntegerV 2, IntegerV 20], [IntegerV 3, IntegerV 30]],
         qr_column_names = [''k'', ''v'']\<rparr>, \<lparr>es_context = c, es_txn = pair_manager\<rparr>)" for c
    by (simp add: on_txn_def scan_returns_rows [OF pair_facts(1-3)] pair_columns)
  have "plan_table_scan E n (QueryPlanner_with_ctes (xm_catalog pair_manager) []) ''t'' al = Ok (ScanNode ''t'' [] al)" for E n al
    by (cases n) (simp_all add: QueryPlanner_with_ctes_def pair_no_views [unfolded QueryPlanner_with_ctes_def] hm_contains_def)
  note plan = this plan_select_def plan_from_clause_def plan_table_ref_def plan_filter_def plan_projection_def finish_plan_def
    project_node_def has_aggregate_functions_def has_window_functions_def is_aggregate_function_def projection_name_def projection_expr_def
  show ?thesis
    by (simp add: plan scan with_context_def project_execute_def project_value_def create_evaluation_context_def ec_with_columns_def
        EvaluationContext_new_def evaluate_unqualified_column_def get_column_value_def sort_execute_def sort_context_def sort_by_def
        lift_res_def Let_def
        op_compare_values_def sample_exec_lib_def sample_plan_lib_def del: plan_table_scan.simps)
qed

text \<open>
  The condition of HAVING is applied in the aggregation and once more after the columns have been selected.
  There an aggregate cannot be evaluated any more, so that a condition that compares one with anything
  leaves no row.
\<close>

theorem having_on_aggregate_returns_nothing:
  assumes "execute_node D run plan s = (Ok r, s1)" "to_uppercase f \<in> set aggregate_names"
  shows "\<exists>p. finish_plan (Some (BinaryOpE (FunctionE f args d) op e)) [] None None False plan = Ok p \<and>
    execute_node D run (ep_root p) s = (Ok (r\<lparr>qr_rows := []\<rparr>), s1)"
proof -
  let ?h = "BinaryOpE (FunctionE f args d) op e"
  have "row_passes L ?h (create_evaluation_context al names row c) = Ok False" for L al names row c
    using assms(2) by (simp add: row_passes_def evaluate_function_def create_evaluation_context_def ec_with_columns_def
        EvaluationContext_new_def set_materialized_ctes_def Let_def split: option.splits)
  then have "filter_rows (\<lambda>row. row_passes L ?h (create_evaluation_context al names row c)) rows = Ok []" for L al names c rows
    by (induction rows) simp_all
  then show ?thesis using assms(1) by (simp add: finish_plan_def plan_filter_def with_context_def filter_execute_def Let_def)
qed

theorem having_on_aggregate_witness:
  "\<exists>p. finish_plan (Some (BinaryOpE count_star OpGreaterThan (ValueE (IntegerV 1)))) [] None None False
      (ValuesNode [[IntegerV 7, IntegerV 2]] [''a'', ''count'']) = Ok p \<and>
    execute_node D run (ep_root p) s = (Ok \<lparr>qr_rows = [], qr_column_names = [''a'', ''count'']\<rparr>, s)"
  using having_on_aggregate_returns_nothing [of D run "ValuesNode [[IntegerV 7, IntegerV 2]] [''a'', ''count'']" s
      "\<lparr>qr_rows = [[IntegerV 7, IntegerV 2]], qr_column_names = [''a'', ''count'']\<rparr>" s "''COUNT''" "[StarE]" False]
  by (simp add: count_star_def)

end
