(* ===== verification/Parser.thy ===== *)
theory Parser
  imports Lexer Expression_Props
begin

section \<open>The parser (\<^verbatim>\<open>src/src/sql/parser.rs\<close>)\<close>

text \<open>
  A recursive-descent parser over the tokens of a statement. Its state is the list of tokens and the number
  of the current one; a parser is an operation on this state.

  The functions of the sources call one another in a cycle: an expression contains a query, a query
  expressions. Here the functions through which the cycle runs are an argument, the record \<open>parsers\<close>, and
  \<open>parsers_at\<close> ties them by recursion on a number that bounds the nesting. A function is called through the
  record only behind a token that has been consumed, so that a number above the number of tokens is enough.
  A loop runs at most once for every token that is left.

  The list of tokens is not empty, since the tokenizer ends it with a token of its own, and \<^verbatim>\<open>peek\<close> is called
  inside a statement only.
\<close>

subsection \<open>State\<close>

record Parser =
  ps_tokens :: "Token list"
  ps_current :: nat

type_synonym 'a parser = "(Parser, 'a) op"

definition Parser_new :: "Token list \<Rightarrow> Parser" where
  "Parser_new tokens = \<lparr>ps_tokens = tokens, ps_current = 0\<rparr>"

definition parser_at_end :: "Parser \<Rightarrow> bool" where
  "parser_at_end s = (ps_current s \<ge> length (ps_tokens s) \<or> token_type (ps_tokens s ! ps_current s) = TkEOF)"

definition peek_token :: "Parser \<Rightarrow> Token" where
  "peek_token s = (if parser_at_end s then ps_tokens s ! (length (ps_tokens s) - 1) else ps_tokens s ! ps_current s)"

definition advance_token :: "Parser \<Rightarrow> Parser" where
  "advance_token s = (if parser_at_end s then s else s\<lparr>ps_current := ps_current s + 1\<rparr>)"

definition previous_token :: "Parser \<Rightarrow> Token" where
  "previous_token s = ps_tokens s ! (ps_current s - 1)"

definition remaining_tokens :: "Parser \<Rightarrow> nat" where
  "remaining_tokens s = length (ps_tokens s) - ps_current s"

subsection \<open>Single tokens\<close>

text \<open>Consuming the current token when it is of the given type, or when the function has a value for it.\<close>

definition match_token :: "TokenType \<Rightarrow> bool parser" where
  "match_token t s = (if token_type (peek_token s) = t then (Ok True, advance_token s) else (Ok False, s))"

definition match_some :: "(Token \<Rightarrow> 'a option) \<Rightarrow> 'a option parser" where
  "match_some f s = (case f (peek_token s) of Some x \<Rightarrow> (Ok (Some x), advance_token s) | None \<Rightarrow> (Ok None, s))"

definition consume_token :: "TokenType \<Rightarrow> unit parser" where
  "consume_token t = st_bind (match_token t) (\<lambda>b. if b then st_return () else st_fail (ParseError ''Expected token''))"

definition identifier_of :: "TokenType \<Rightarrow> string option" where
  "identifier_of t = (case t of TkIdentifier n \<Rightarrow> Some n | TkQuotedIdentifier n \<Rightarrow> Some n | _ \<Rightarrow> None)"

definition match_identifier_token :: "string \<Rightarrow> bool parser" where
  "match_identifier_token name =
     st_bind (match_some (\<lambda>t. case identifier_of (token_type t) of
         Some n \<Rightarrow> if to_uppercase n = name then Some () else None | None \<Rightarrow> None))
       (\<lambda>r. st_return (r \<noteq> None))"

text \<open>The keywords that are taken for an identifier where one is expected.\<close>

definition identifier_keywords :: "string list" where
  "identifier_keywords = [''Select'', ''Insert'', ''Update'', ''Delete'', ''Create'', ''Table'', ''Index'', ''From'',
     ''Where'', ''Into'', ''Values'', ''Primary'', ''Key'', ''Not'', ''Null'', ''And'', ''Or'', ''Order'', ''By'',
     ''Group'', ''Having'', ''Join'', ''Inner'', ''Left'', ''Right'', ''Full'', ''Outer'', ''Cross'', ''Anti'', ''Semi'',
     ''On'', ''As'', ''Distinct'', ''Count'', ''Sum'', ''Avg'', ''Min'', ''Max'', ''Set'', ''Drop'', ''Alter'',
     ''References'', ''If'', ''Exists'', ''Default'', ''Check'', ''Constraint'', ''Foreign'', ''Add'', ''Column'',
     ''Rename'', ''To'', ''Union'', ''Intersect'', ''Except'', ''All'', ''Unique'', ''Over'', ''Partition'', ''Window'',
     ''Rows'', ''Range'', ''Between'', ''Unbounded'', ''Preceding'', ''Following'', ''Current'', ''With'',
     ''Recursive'', ''View'', ''Materialized'', ''Refresh'', ''Concurrently'', ''Cascade'', ''Data'', ''Serial'',
     ''BigSerial'', ''Cast'', ''RowNumber'', ''Rank'', ''DenseRank'', ''Lag'', ''Lead'', ''FirstValue'', ''LastValue'',
     ''Ntile'', ''Asc'', ''Desc'', ''Nulls'', ''First'', ''Last'', ''True'', ''False'', ''Procedure'', ''Function'',
     ''Language'', ''Begin'', ''End'', ''Commit'', ''Rollback'', ''Declare'', ''Loop'', ''While'', ''For'', ''Then'',
     ''Else'', ''Case'', ''When'', ''Return'', ''Exit'', ''Continue'', ''Perform'', ''Raise'', ''Exception'',
     ''Replace'', ''Definer'', ''Of'', ''Call'', ''Security'', ''Like'', ''ILike'', ''In'', ''Is'']"

definition identifier_text :: "Token \<Rightarrow> string option" where
  "identifier_text t =
     (case token_type t of
        TkIdentifier name \<Rightarrow> Some name
      | TkQuotedIdentifier name \<Rightarrow> Some name
      | TkString name \<Rightarrow> Some name
      | Kw n \<Rightarrow> if n \<in> set identifier_keywords then Some (tk_value t) else None
      | _ \<Rightarrow> None)"

definition consume_identifier :: "string parser" where
  "consume_identifier = st_bind (match_some identifier_text) (\<lambda>r.
     case r of Some name \<Rightarrow> st_return name | None \<Rightarrow> st_fail (ParseError ''Expected identifier''))"

definition number_text :: "Token \<Rightarrow> string option" where
  "number_text t = (case token_type t of TkNumber _ \<Rightarrow> Some (tk_value t) | _ \<Rightarrow> None)"

definition parse_number :: "i64 parser" where
  "parse_number = st_bind (match_some number_text) (\<lambda>r.
     case r of
       Some text \<Rightarrow> (case parse_i64 text of Some n \<Rightarrow> st_return n | None \<Rightarrow> st_fail (ParseError ''Invalid number''))
     | None \<Rightarrow> st_fail (ParseError ''Expected number''))"

subsection \<open>Loops and lists\<close>

text \<open>A loop: as long as the guard finds something, the body continues with it.\<close>

fun parse_rounds :: "nat \<Rightarrow> 'b option parser \<Rightarrow> ('b \<Rightarrow> 'a \<Rightarrow> 'a parser) \<Rightarrow> 'a \<Rightarrow> 'a parser" where
  "parse_rounds 0 guard body x s = (Deadlock, s)"
| "parse_rounds (Suc n) guard body x s =
     st_bind guard (\<lambda>r. case r of Some y \<Rightarrow> st_bind (body y x) (parse_rounds n guard body) | None \<Rightarrow> st_return x) s"

definition parse_loop :: "'b option parser \<Rightarrow> ('b \<Rightarrow> 'a \<Rightarrow> 'a parser) \<Rightarrow> 'a \<Rightarrow> 'a parser" where
  "parse_loop guard body x s = parse_rounds (Suc (remaining_tokens s)) guard body x s"

definition the_token :: "TokenType \<Rightarrow> Token \<Rightarrow> unit option" where
  "the_token t u = (if token_type u = t then Some () else None)"

definition while_token :: "TokenType \<Rightarrow> ('a \<Rightarrow> 'a parser) \<Rightarrow> 'a \<Rightarrow> 'a parser" where
  "while_token t body = parse_loop (match_some (the_token t)) (\<lambda>_. body)"

definition comma_list :: "'a parser \<Rightarrow> 'a list parser" where
  "comma_list p = st_bind p (\<lambda>x. while_token (Sym ''Comma'') (\<lambda>xs. st_bind p (\<lambda>y. st_return (xs @ [y]))) [x])"

definition when_token :: "TokenType \<Rightarrow> 'a parser \<Rightarrow> 'a option parser" where
  "when_token t p = st_bind (match_token t) (\<lambda>b. if b then st_bind p (\<lambda>x. st_return (Some x)) else st_return None)"

definition parenthesized_names :: "string list parser" where
  "parenthesized_names = st_bind (consume_token (Sym ''LeftParen'')) (\<lambda>_. st_bind (comma_list consume_identifier) (\<lambda>names.
     st_bind (consume_token (Sym ''RightParen'')) (\<lambda>_. st_return names)))"

definition optional_names :: "string list option parser" where
  "optional_names = when_token (Sym ''LeftParen'') (st_bind (comma_list consume_identifier) (\<lambda>names.
     st_bind (consume_token (Sym ''RightParen'')) (\<lambda>_. st_return names)))"

text \<open>An alias: behind AS, or a name that is no keyword.\<close>

definition parse_alias :: "string option parser" where
  "parse_alias = st_bind (match_token (Kw ''As'')) (\<lambda>b.
     if b then st_bind consume_identifier (\<lambda>a. st_return (Some a))
     else match_some (\<lambda>t. if is_keyword t then None else identifier_of (token_type t)))"

subsection \<open>The functions of the cycle\<close>

record parsers =
  pr_expression :: "expr parser"
  pr_additive :: "expr parser"
  pr_not :: "expr parser"
  pr_unary :: "expr parser"
  pr_select :: "bool \<Rightarrow> Statement SelectStatement parser"
  pr_statement :: "Statement parser"

subsection \<open>Data types\<close>

definition usize_number :: "usize parser" where
  "usize_number = parse_number"

definition parse_length :: "usize \<Rightarrow> (usize \<Rightarrow> DataTypeKind) \<Rightarrow> DataType parser" where
  "parse_length unspecified kind = st_bind (match_token (Sym ''LeftParen'')) (\<lambda>b.
     if b then st_bind usize_number (\<lambda>n. st_bind (consume_token (Sym ''RightParen'')) (\<lambda>_. st_return (DataType_new (kind n))))
     else st_return (DataType_new (kind unspecified)))"

definition parse_decimal :: "DataType parser" where
  "parse_decimal = st_bind (match_token (Sym ''LeftParen'')) (\<lambda>b.
     if b then st_bind usize_number (\<lambda>precision. st_bind (match_token (Sym ''Comma'')) (\<lambda>c.
       st_bind (if c then usize_number else st_return 0) (\<lambda>scale. st_bind (consume_token (Sym ''RightParen'')) (\<lambda>_.
         st_return (DataType_new (DecimalT precision scale))))))
     else st_return (DataType_new (DecimalT 10 0)))"

definition type_table :: "(string \<times> DataTypeKind) list" where
  "type_table = [(''INTEGER'', IntegerT), (''INT'', IntegerT), (''INT4'', IntegerT), (''BIGINT'', BigIntT), (''INT8'', BigIntT),
     (''SMALLINT'', SmallIntT), (''INT2'', SmallIntT), (''REAL'', RealT), (''FLOAT4'', RealT), (''TEXT'', TextT),
     (''BOOLEAN'', BooleanT), (''BOOL'', BooleanT), (''DATE'', DateT), (''TIME'', TimeT), (''TIMESTAMP'', TimestampT),
     (''INTERVAL'', IntervalT), (''UUID'', UuidT), (''BLOB'', ByteaT), (''BYTEA'', ByteaT)]"

definition parse_named_type :: "string \<Rightarrow> DataType parser" where
  "parse_named_type upper_name =
     (if upper_name = ''DECIMAL'' \<or> upper_name = ''NUMERIC'' then parse_decimal
      else if upper_name = ''DOUBLE'' then
        st_bind (match_identifier_token ''PRECISION'') (\<lambda>_. st_return (DataType_new DoublePrecisionT))
      else if upper_name = ''VARCHAR'' then parse_length 255 VarcharT
      else if upper_name = ''CHAR'' then parse_length 1 CharT
      else case map_of type_table upper_name of
          Some kind \<Rightarrow> st_return (DataType_new kind)
        | None \<Rightarrow> st_fail (ParseError ''Unknown data type''))"

definition parser_data_type :: "DataType parser" where
  "parser_data_type = st_bind (match_token (Kw ''Serial'')) (\<lambda>serial.
     if serial then st_return (DataType_new SerialT)
     else st_bind (match_token (Kw ''BigSerial'')) (\<lambda>big_serial.
       if big_serial then st_return (DataType_new BigSerialT)
       else st_bind consume_identifier (\<lambda>type_name. st_bind (parse_named_type (to_uppercase type_name)) (\<lambda>data_type.
         while_token (Sym ''LeftBracket'') (\<lambda>d. st_bind (consume_token (Sym ''RightBracket'')) (\<lambda>_.
           st_return (DataType_new (ArrayT (dt_kind d))))) data_type))))"

subsection \<open>Windows\<close>

definition parse_order_by :: "expr parser \<Rightarrow> Statement OrderBy parser" where
  "parse_order_by E = st_bind E (\<lambda>e.
     st_bind (match_some (\<lambda>t. if token_type t = Kw ''Asc'' then Some Asc else if token_type t = Kw ''Desc'' then Some Desc
         else (case identifier_of (token_type t) of
             Some n \<Rightarrow> if to_uppercase n = ''ASC'' then Some Asc else if to_uppercase n = ''DESC'' then Some Desc else None
           | None \<Rightarrow> None))) (\<lambda>direction.
     st_bind (match_token (Kw ''Nulls'')) (\<lambda>b.
     st_bind (if b then st_bind (match_token (Kw ''First'')) (\<lambda>first.
           if first then st_return NullsFirst
           else st_bind (match_token (Kw ''Last'')) (\<lambda>last.
             if last then st_return NullsLast else st_fail (ParseError ''Expected FIRST or LAST after NULLS'')))
         else st_return NullsDefault) (\<lambda>nulls.
       st_return (OrderBy e (case direction of Some d \<Rightarrow> d | None \<Rightarrow> Asc) nulls)))))"

definition parse_by_list :: "TokenType \<Rightarrow> 'a parser \<Rightarrow> 'a list parser" where
  "parse_by_list t p = st_bind (match_token t) (\<lambda>b.
     if b then st_bind (consume_token (Kw ''By'')) (\<lambda>_. comma_list p) else st_return [])"

definition parse_window_frame_bound :: "parsers \<Rightarrow> Statement WindowFrameBound parser" where
  "parse_window_frame_bound P = st_bind (match_token (Kw ''Current'')) (\<lambda>current.
     if current then st_bind (match_identifier_token ''ROW'') (\<lambda>row.
       if row then st_return CurrentRow else st_fail (ParseError ''Expected ROW after CURRENT''))
     else st_bind (match_token (Kw ''Unbounded'')) (\<lambda>unbounded.
       if unbounded then st_bind (match_token (Kw ''Preceding'')) (\<lambda>preceding.
         if preceding then st_return UnboundedPreceding
         else st_bind (match_token (Kw ''Following'')) (\<lambda>following.
           if following then st_return UnboundedFollowing
           else st_fail (ParseError ''Expected PRECEDING or FOLLOWING after UNBOUNDED'')))
       else st_bind (pr_expression P) (\<lambda>e. st_bind (match_token (Kw ''Preceding'')) (\<lambda>preceding.
         if preceding then st_return (PrecedingBound e)
         else st_bind (match_token (Kw ''Following'')) (\<lambda>following.
           if following then st_return (FollowingBound e)
           else st_fail (ParseError ''Expected PRECEDING or FOLLOWING after expression''))))))"

definition parse_window_frame :: "parsers \<Rightarrow> Statement WindowFrame option parser" where
  "parse_window_frame P =
     st_bind (match_some (\<lambda>t. if token_type t = Kw ''Rows'' then Some RowsMode
         else if token_type t = Kw ''Range'' then Some RangeMode else None)) (\<lambda>r.
     case r of
       None \<Rightarrow> st_return None
     | Some mode \<Rightarrow> st_bind (match_token (Kw ''Between'')) (\<lambda>between.
         if between then st_bind (parse_window_frame_bound P) (\<lambda>start. st_bind (consume_token (Kw ''And'')) (\<lambda>_.
           st_bind (parse_window_frame_bound P) (\<lambda>end_bound. st_return (Some (WindowFrame mode start (Some end_bound))))))
         else st_bind (parse_window_frame_bound P) (\<lambda>start. st_return (Some (WindowFrame mode start None)))))"

definition parse_window_clause_without_parens :: "parsers \<Rightarrow> Statement WindowClause parser" where
  "parse_window_clause_without_parens P =
     st_bind (parse_by_list (Kw ''Partition'') (pr_expression P)) (\<lambda>partition_by.
     st_bind (parse_by_list (Kw ''Order'') (parse_order_by (pr_expression P))) (\<lambda>order_by.
     st_bind (parse_window_frame P) (\<lambda>window_frame. st_return (WindowClause partition_by order_by window_frame))))"

definition parse_window_clause :: "parsers \<Rightarrow> Statement WindowClause parser" where
  "parse_window_clause P = st_bind (consume_token (Sym ''LeftParen'')) (\<lambda>_.
     st_bind (parse_window_clause_without_parens P) (\<lambda>w. st_bind (consume_token (Sym ''RightParen'')) (\<lambda>_. st_return w)))"

definition parse_named_window :: "parsers \<Rightarrow> Statement NamedWindow parser" where
  "parse_named_window P = st_bind (match_some (\<lambda>t. identifier_of (token_type t))) (\<lambda>r.
     case r of
       None \<Rightarrow> st_fail (ParseError ''Expected window name'')
     | Some window_name \<Rightarrow> st_bind (consume_token (Kw ''As'')) (\<lambda>_. st_bind (parse_window_clause P) (\<lambda>w.
         st_return (NamedWindow window_name w))))"

subsection \<open>Primary expressions\<close>

definition parse_arguments :: "parsers \<Rightarrow> bool \<Rightarrow> (expr list \<times> bool) parser" where
  "parse_arguments P aggregate = st_bind (match_token (Sym ''RightParen'')) (\<lambda>empty.
     if empty then st_return ([], False)
     else st_bind (if aggregate then match_token (Kw ''Distinct'') else st_return False) (\<lambda>distinct.
       st_bind (comma_list (pr_expression P)) (\<lambda>args. st_bind (consume_token (Sym ''RightParen'')) (\<lambda>_.
         st_return (args, distinct)))))"

text \<open>The arguments of a call, behind its parenthesis, and the OVER clause of a window function.\<close>

definition parse_call :: "parsers \<Rightarrow> string \<Rightarrow> bool \<Rightarrow> expr parser" where
  "parse_call P name aggregate = st_bind (parse_arguments P aggregate) (\<lambda>(args, distinct).
     st_bind (match_token (Kw ''Over'')) (\<lambda>over.
       if over then st_bind (parse_window_clause P) (\<lambda>w. st_return (WindowFunctionE (WindowFunction name args w None)))
       else st_return (FunctionE name args distinct)))"

definition parse_named :: "parsers \<Rightarrow> string \<Rightarrow> expr parser" where
  "parse_named P name = st_bind (match_token (Sym ''Dot'')) (\<lambda>dot.
     if dot then st_bind consume_identifier (\<lambda>column. st_return (ColumnE (Some name) column))
     else st_bind (match_token (Sym ''LeftParen'')) (\<lambda>paren.
       if paren then parse_call P name False else st_return (ColumnE None name)))"

definition parse_window_named :: "parsers \<Rightarrow> string \<Rightarrow> expr parser" where
  "parse_window_named P name = st_bind (match_token (Sym ''LeftParen'')) (\<lambda>paren.
     if paren then parse_call P name False else st_return (ColumnE None name))"

definition parse_aggregate_named :: "parsers \<Rightarrow> string \<Rightarrow> expr parser" where
  "parse_aggregate_named P name = st_bind (match_token (Sym ''LeftParen'')) (\<lambda>paren.
     if paren then parse_call P name True else st_return (FunctionE name [StarE] False))"

definition window_function_name :: "Token \<Rightarrow> string option" where
  "window_function_name t = (case token_type t of
     Kw n \<Rightarrow> map_of [(''RowNumber'', ''ROW_NUMBER''), (''Rank'', ''RANK''), (''DenseRank'', ''DENSE_RANK''), (''Lag'', ''LAG''),
       (''Lead'', ''LEAD''), (''FirstValue'', ''FIRST_VALUE''), (''LastValue'', ''LAST_VALUE''), (''Ntile'', ''NTILE'')] n
   | _ \<Rightarrow> None)"

definition aggregate_name :: "Token \<Rightarrow> string option" where
  "aggregate_name t = (case token_type t of
     Kw n \<Rightarrow> map_of [(''Count'', ''COUNT''), (''Sum'', ''SUM''), (''Avg'', ''AVG''), (''Min'', ''MIN''), (''Max'', ''MAX'')] n
   | _ \<Rightarrow> None)"

text \<open>A number: a text that is not one for Rust ends the program.\<close>

definition number_value :: "expr_lib \<Rightarrow> string \<Rightarrow> Value res" where
  "number_value L text =
     (if CHR ''.'' \<in> set text
      then (case el_float_parse L text of Some f \<Rightarrow> Ok (FloatV f) | None \<Rightarrow> Panic ''called unwrap on an Err value'')
      else (case parse_i64 text of Some n \<Rightarrow> Ok (IntegerV n) | None \<Rightarrow> Panic ''called unwrap on an Err value''))"

definition literal_token :: "expr_lib \<Rightarrow> Token \<Rightarrow> Value res option" where
  "literal_token L t = (case token_type t of
     TkString _ \<Rightarrow> Some (Ok (StringV (tk_value t)))
   | TkNumber _ \<Rightarrow> Some (number_value L (tk_value t))
   | Kw n \<Rightarrow> if n = ''Null'' then Some (Ok NullV) else if n = ''True'' then Some (Ok (BooleanV True))
       else if n = ''False'' then Some (Ok (BooleanV False)) else None
   | _ \<Rightarrow> None)"

text \<open>The query of EXISTS, from its parenthesis on.\<close>

definition parse_exists_query :: "parsers \<Rightarrow> bool \<Rightarrow> expr parser" where
  "parse_exists_query P negated = st_bind (consume_token (Sym ''LeftParen'')) (\<lambda>_. st_bind (match_token (Kw ''Select'')) (\<lambda>b.
     if b then st_bind (pr_select P True) (\<lambda>q. st_bind (consume_token (Sym ''RightParen'')) (\<lambda>_.
       st_return (ExistsE (SelectS q) negated)))
     else st_fail (ParseError ''Expected SELECT after EXISTS'')))"

text \<open>Behind a parenthesis: a query, a list, or one expression; the elements are additive expressions only.\<close>

definition parse_parenthesized :: "parsers \<Rightarrow> expr parser" where
  "parse_parenthesized P = st_bind (match_token (Kw ''Select'')) (\<lambda>select.
     if select then st_bind (pr_select P True) (\<lambda>q. st_bind (consume_token (Sym ''RightParen'')) (\<lambda>_. st_return (SubqueryE (SelectS q))))
     else st_bind (pr_additive P) (\<lambda>e. st_bind (match_token (Sym ''Comma'')) (\<lambda>comma.
       if comma then st_bind (pr_additive P) (\<lambda>e2.
         st_bind (while_token (Sym ''Comma'') (\<lambda>es. st_bind (pr_additive P) (\<lambda>x. st_return (es @ [x]))) [e, e2]) (\<lambda>es.
         st_bind (consume_token (Sym ''RightParen'')) (\<lambda>_. st_return (ListE es))))
       else st_bind (consume_token (Sym ''RightParen'')) (\<lambda>_. st_return e))))"

definition parse_cast :: "parsers \<Rightarrow> expr parser" where
  "parse_cast P = st_bind (consume_token (Sym ''LeftParen'')) (\<lambda>_. st_bind (pr_expression P) (\<lambda>e. st_bind (consume_token (Kw ''As'')) (\<lambda>_.
     st_bind parser_data_type (\<lambda>data_type. st_bind (consume_token (Sym ''RightParen'')) (\<lambda>_. st_return (CastE e data_type))))))"

definition parse_branches :: "parsers \<Rightarrow> Statement CaseBranch list parser" where
  "parse_branches P = while_token (Kw ''When'') (\<lambda>branches. st_bind (pr_expression P) (\<lambda>condition. st_bind (consume_token (Kw ''Then'')) (\<lambda>_.
     st_bind (pr_expression P) (\<lambda>result. st_return (branches @ [CaseBranch condition result]))))) []"

text \<open>Behind CASE. Without WHEN an expression comes first.\<close>

definition parse_case_expression :: "parsers \<Rightarrow> expr parser" where
  "parse_case_expression P = (\<lambda>s.
     st_bind (if token_type (peek_token s) \<noteq> Kw ''When'' then st_bind (pr_expression P) (\<lambda>e. st_return (Some e)) else st_return None) (\<lambda>base.
     st_bind (parse_branches P) (\<lambda>branches. st_bind (when_token (Kw ''Else'') (pr_expression P)) (\<lambda>else_result.
     st_bind (consume_token (Kw ''End'')) (\<lambda>_. st_return (CaseE base branches else_result))))) s)"

definition parse_primary_expression :: "expr_lib \<Rightarrow> parsers \<Rightarrow> expr parser" where
  "parse_primary_expression L P =
     st_bind (match_token (Kw ''Cast'')) (\<lambda>b. if b then parse_cast P else
     st_bind (match_some (literal_token L)) (\<lambda>literal. case literal of Some r \<Rightarrow> st_bind (Pair r) (\<lambda>v. st_return (ValueE v)) | None \<Rightarrow>
     st_bind (match_some (\<lambda>t. identifier_of (token_type t))) (\<lambda>name. case name of Some n \<Rightarrow> parse_named P n | None \<Rightarrow>
     st_bind (match_some window_function_name) (\<lambda>name. case name of Some n \<Rightarrow> parse_window_named P n | None \<Rightarrow>
     st_bind (match_token (Sym ''Asterisk'')) (\<lambda>b. if b then st_return StarE else
     st_bind (match_token (Sym ''LeftParen'')) (\<lambda>b. if b then parse_parenthesized P else
     st_bind (match_some aggregate_name) (\<lambda>name. case name of Some n \<Rightarrow> parse_aggregate_named P n | None \<Rightarrow>
     st_bind (match_token (Kw ''Exists'')) (\<lambda>b. if b then parse_exists_query P False else
     st_bind (match_token (Kw ''Case'')) (\<lambda>b. if b then parse_case_expression P else
       st_fail (ParseError ''Unexpected token''))))))))))"

subsection \<open>Operators, by precedence\<close>

definition parse_unary_expression :: "expr_lib \<Rightarrow> parsers \<Rightarrow> expr parser" where
  "parse_unary_expression L P =
     st_bind (match_token (Sym ''Minus'')) (\<lambda>b. if b then st_bind (pr_unary P) (\<lambda>e. st_return (UnaryOpE OpMinus e)) else
     st_bind (match_token (Sym ''Plus'')) (\<lambda>b. if b then st_bind (pr_unary P) (\<lambda>e. st_return (UnaryOpE OpPlus e)) else
     st_bind (match_token (Kw ''Not'')) (\<lambda>b. if b then st_bind (match_token (Kw ''Exists'')) (\<lambda>ex.
         if ex then parse_exists_query P True else st_bind (pr_unary P) (\<lambda>e. st_return (UnaryOpE OpNot e))) else
     parse_primary_expression L P)))"

text \<open>A level of binary operators, which associate to the left.\<close>

definition parse_level :: "(Token \<Rightarrow> BinaryOperator parser option) \<Rightarrow> expr parser \<Rightarrow> expr parser" where
  "parse_level operator operand = st_bind operand (\<lambda>e. parse_loop (match_some operator) (\<lambda>rest_of_operator left.
     st_bind rest_of_operator (\<lambda>op. st_bind operand (\<lambda>right. st_return (BinaryOpE left op right)))) e)"

definition operator_in :: "(TokenType \<times> BinaryOperator) list \<Rightarrow> Token \<Rightarrow> BinaryOperator parser option" where
  "operator_in table t = map_option st_return (map_of table (token_type t))"

definition parse_multiplicative_expression :: "expr_lib \<Rightarrow> parsers \<Rightarrow> expr parser" where
  "parse_multiplicative_expression L P = parse_level (operator_in [(Sym ''Asterisk'', OpMultiply), (Sym ''Divide'', OpDivide)])
     (parse_unary_expression L P)"

definition parse_additive_expression :: "expr_lib \<Rightarrow> parsers \<Rightarrow> expr parser" where
  "parse_additive_expression L P =
     parse_level (operator_in [(Sym ''Plus'', OpAdd), (Sym ''Minus'', OpSubtract), (Sym ''Concatenate'', OpConcatenate)])
       (parse_multiplicative_expression L P)"

definition comparison_operators :: "(TokenType \<times> BinaryOperator) list" where
  "comparison_operators = [(Sym ''Equals'', OpEquals), (Sym ''NotEquals'', OpNotEquals), (Sym ''LessThan'', OpLessThan),
     (Sym ''LessThanOrEquals'', OpLessThanOrEquals), (Sym ''GreaterThan'', OpGreaterThan),
     (Sym ''GreaterThanOrEquals'', OpGreaterThanOrEquals), (Kw ''Like'', OpLike), (Kw ''ILike'', OpILike), (Kw ''In'', OpIn)]"

definition comparison_operator :: "Token \<Rightarrow> BinaryOperator parser option" where
  "comparison_operator t =
     (if token_type t = Kw ''Is''
      then Some (st_bind (match_token (Kw ''Not'')) (\<lambda>b. st_return (if b then OpIsNot else OpIs)))
      else operator_in comparison_operators t)"

definition parse_comparison_expression :: "expr_lib \<Rightarrow> parsers \<Rightarrow> expr parser" where
  "parse_comparison_expression L P = parse_level comparison_operator (parse_additive_expression L P)"

definition parse_not_expression :: "expr_lib \<Rightarrow> parsers \<Rightarrow> expr parser" where
  "parse_not_expression L P = st_bind (match_token (Kw ''Not'')) (\<lambda>b.
     if b then st_bind (pr_not P) (\<lambda>e. st_return (UnaryOpE OpNot e)) else parse_comparison_expression L P)"

definition parse_and_expression :: "expr_lib \<Rightarrow> parsers \<Rightarrow> expr parser" where
  "parse_and_expression L P = parse_level (operator_in [(Kw ''And'', OpAnd)]) (parse_not_expression L P)"

definition parse_or_expression :: "expr_lib \<Rightarrow> parsers \<Rightarrow> expr parser" where
  "parse_or_expression L P = parse_level (operator_in [(Kw ''Or'', OpOr)]) (parse_and_expression L P)"

definition parse_expression :: "expr_lib \<Rightarrow> parsers \<Rightarrow> expr parser" where
  "parse_expression L P = parse_or_expression L P"

subsection \<open>Queries\<close>

definition parse_table_ref :: "parsers \<Rightarrow> Statement TableRef parser" where
  "parse_table_ref P = st_bind (match_token (Sym ''LeftParen'')) (\<lambda>paren.
     if paren then st_bind (pr_statement P) (\<lambda>subquery. st_bind (consume_token (Sym ''RightParen'')) (\<lambda>_.
       st_bind parse_alias (\<lambda>al. st_return (TableSubquery subquery al))))
     else st_bind consume_identifier (\<lambda>name. st_bind parse_alias (\<lambda>al. st_return (TableName name al))))"

definition join_word :: "Token \<Rightarrow> JoinType parser option" where
  "join_word t =
     (let variants = (\<lambda>plain anti semi. st_bind (match_token (Kw ''Outer'')) (\<lambda>outer. if outer then st_return plain else
            st_bind (match_token (Kw ''Anti'')) (\<lambda>a. if a then st_return anti else
            st_bind (match_token (Kw ''Semi'')) (\<lambda>b. if b then st_return semi else st_return plain))))
      in if token_type t = Kw ''Cross'' then Some (st_return CrossJoin)
         else if token_type t = Kw ''Left'' then Some (variants LeftJoin LeftAntiJoin LeftSemiJoin)
         else if token_type t = Kw ''Right'' then Some (variants RightJoin RightAntiJoin RightSemiJoin)
         else if token_type t = Kw ''Inner'' then Some (st_return InnerJoin)
         else if token_type t = Kw ''Full'' then Some (st_bind (match_token (Kw ''Outer'')) (\<lambda>_. st_return FullJoin))
         else None)"

text \<open>The loop over the joins runs on the words that begin one; JOIN itself is consumed behind them.\<close>

definition join_begin :: "Token \<Rightarrow> JoinType parser option" where
  "join_begin t = (if token_type t = Kw ''Join'' then Some (st_return InnerJoin)
     else map_option (\<lambda>p. st_bind p (\<lambda>join_type. st_bind (consume_token (Kw ''Join'')) (\<lambda>_. st_return join_type))) (join_word t))"

definition parse_joins :: "expr parser \<Rightarrow> parsers \<Rightarrow> Statement JoinCondition list parser" where
  "parse_joins E P = parse_loop (match_some join_begin) (\<lambda>rest_of_words joins. st_bind rest_of_words (\<lambda>join_type.
     st_bind (parse_table_ref P) (\<lambda>table. st_bind (when_token (Kw ''On'') E) (\<lambda>condition.
       st_return (joins @ [JoinCondition table join_type condition]))))) []"

definition parse_column :: "expr parser \<Rightarrow> Statement ColumnSpec parser" where
  "parse_column E = st_bind E (\<lambda>e. st_bind parse_alias (\<lambda>al. st_return (ColumnSpec e al)))"

definition parse_select_list :: "expr parser \<Rightarrow> Statement ColumnSpec list parser" where
  "parse_select_list E = st_bind (match_token (Sym ''Asterisk'')) (\<lambda>star.
     st_bind (if star then st_return (ColumnSpec StarE None) else parse_column E) (\<lambda>c.
       while_token (Sym ''Comma'') (\<lambda>cs. st_bind (parse_column E) (\<lambda>c. st_return (cs @ [c]))) [c]))"

definition parse_from :: "parsers \<Rightarrow> Statement TableRef list parser" where
  "parse_from P = st_bind (match_token (Kw ''From'')) (\<lambda>b. if b then comma_list (parse_table_ref P) else st_return [])"

definition when_identifier :: "string \<Rightarrow> 'a parser \<Rightarrow> 'a option parser" where
  "when_identifier name p = st_bind (match_identifier_token name) (\<lambda>b.
     if b then st_bind p (\<lambda>x. st_return (Some x)) else st_return None)"

text \<open>
  The clauses of a SELECT. Before each of the last clauses the query inside a parenthesis looks for the
  closing one; as none of them begins with it, the result is the same.
\<close>

definition parse_select_body :: "expr parser \<Rightarrow> parsers \<Rightarrow> Statement SelectStatement parser" where
  "parse_select_body E P =
     st_bind (match_token (Kw ''Distinct'')) (\<lambda>dist.
     st_bind (parse_select_list E) (\<lambda>columns.
     st_bind (parse_from P) (\<lambda>tables.
     st_bind (parse_joins E P) (\<lambda>joins.
     st_bind (when_token (Kw ''Where'') E) (\<lambda>where_clause.
     st_bind (parse_by_list (Kw ''Group'') E) (\<lambda>group_by.
     st_bind (when_token (Kw ''Having'') E) (\<lambda>having.
     st_bind (parse_by_list (Kw ''Order'') (parse_order_by E)) (\<lambda>order_by.
     st_bind (when_identifier ''LIMIT'' parse_number) (\<lambda>limit.
     st_bind (when_identifier ''OFFSET'' parse_number) (\<lambda>offset.
       st_return (SimpleSelect None dist columns tables joins where_clause group_by having order_by limit offset [])))))))))))"

fun set_named_windows :: "Statement NamedWindow list \<Rightarrow> Statement SelectStatement \<Rightarrow> Statement SelectStatement" where
  "set_named_windows ws (SimpleSelect w d cs ts js wh gb hv ob li off _) = SimpleSelect w d cs ts js wh gb hv ob li off ws"
| "set_named_windows ws q = q"

text \<open>The right operand of a set operation; only there a WINDOW clause is read.\<close>

definition parse_simple_select :: "expr parser \<Rightarrow> parsers \<Rightarrow> Statement SelectStatement parser" where
  "parse_simple_select E P = st_bind (parse_select_body E P) (\<lambda>q. st_bind (match_token (Kw ''Window'')) (\<lambda>b.
     if b then st_bind (comma_list (parse_named_window P)) (\<lambda>ws. st_return (set_named_windows ws q)) else st_return q))"

definition set_operator :: "Token \<Rightarrow> SetOperator option" where
  "set_operator t = map_of [(Kw ''Union'', UnionOp), (Kw ''Intersect'', IntersectOp), (Kw ''Except'', ExceptOp)] (token_type t)"

definition parse_set_operations :: "expr parser \<Rightarrow> parsers \<Rightarrow> Statement SelectStatement \<Rightarrow> Statement SelectStatement parser" where
  "parse_set_operations E P = parse_loop (match_some set_operator) (\<lambda>op result. st_bind (match_token (Kw ''All'')) (\<lambda>all.
     st_bind (consume_token (Kw ''Select'')) (\<lambda>_. st_bind (parse_simple_select E P) (\<lambda>right.
       st_return (SetSelect (SetOperation op result right all))))))"

definition parse_select_after_select :: "expr parser \<Rightarrow> parsers \<Rightarrow> bool \<Rightarrow> Statement SelectStatement parser" where
  "parse_select_after_select E P stop_at_paren = st_bind (parse_select_body E P) (\<lambda>q s.
     if stop_at_paren \<and> token_type (peek_token s) = Sym ''RightParen'' then st_return q s else parse_set_operations E P q s)"

definition parse_select :: "expr parser \<Rightarrow> parsers \<Rightarrow> Statement SelectStatement parser" where
  "parse_select E P = st_bind (consume_token (Kw ''Select'')) (\<lambda>_. parse_select_after_select E P False)"

definition parse_cte :: "parsers \<Rightarrow> Statement CommonTableExpression parser" where
  "parse_cte P = st_bind consume_identifier (\<lambda>name. st_bind optional_names (\<lambda>column_names.
     st_bind (consume_token (Kw ''As'')) (\<lambda>_. st_bind (consume_token (Sym ''LeftParen'')) (\<lambda>_.
     st_bind (match_token (Kw ''Select'')) (\<lambda>b.
       if b then st_bind (pr_select P True) (\<lambda>query. st_bind (consume_token (Sym ''RightParen'')) (\<lambda>_.
         st_return (CommonTableExpression name column_names query False)))
       else st_fail (ParseError ''Expected SELECT in CTE''))))))"

definition is_recursive_cte :: "Statement SelectStatement \<Rightarrow> bool" where
  "is_recursive_cte query = (case query of SetSelect so \<Rightarrow> so_operator so = UnionOp | _ \<Rightarrow> False)"

fun mark_recursive :: "Statement CommonTableExpression \<Rightarrow> Statement CommonTableExpression" where
  "mark_recursive (CommonTableExpression name column_names query recursive) =
     CommonTableExpression name column_names query (is_recursive_cte query)"

fun set_with_clause :: "Statement WithClause \<Rightarrow> Statement SelectStatement \<Rightarrow> Statement SelectStatement res" where
  "set_with_clause w (SimpleSelect _ d cs ts js wh gb hv ob li off nw) = Ok (SimpleSelect (Some w) d cs ts js wh gb hv ob li off nw)"
| "set_with_clause w (SetSelect _) = Err (ParseError ''WITH clause not supported with set operations yet'')"

definition parse_with_select :: "expr parser \<Rightarrow> parsers \<Rightarrow> Statement SelectStatement parser" where
  "parse_with_select E P = st_bind (consume_token (Kw ''With'')) (\<lambda>_. st_bind (match_token (Kw ''Recursive'')) (\<lambda>recursive.
     st_bind (comma_list (parse_cte P)) (\<lambda>ctes. st_bind (parse_select E P) (\<lambda>main_select.
       Pair (set_with_clause (WithClause (if recursive then map mark_recursive ctes else ctes) recursive) main_select)))))"

subsection \<open>Statements on rows\<close>

definition parse_values :: "expr parser \<Rightarrow> expr list parser" where
  "parse_values E = st_bind (consume_token (Sym ''LeftParen'')) (\<lambda>_. st_bind (comma_list E) (\<lambda>vs.
     st_bind (consume_token (Sym ''RightParen'')) (\<lambda>_. st_return vs)))"

definition parse_insert :: "expr parser \<Rightarrow> parsers \<Rightarrow> Statement parser" where
  "parse_insert E P = st_bind (consume_token (Kw ''Insert'')) (\<lambda>_. st_bind (consume_token (Kw ''Into'')) (\<lambda>_.
     st_bind (parse_table_ref P) (\<lambda>table. st_bind optional_names (\<lambda>columns.
     st_bind (consume_token (Kw ''Values'')) (\<lambda>_. st_bind (comma_list (parse_values E)) (\<lambda>all_values.
       st_return (InsertS (InsertStatement table (case columns of Some cs \<Rightarrow> cs | None \<Rightarrow> []) all_values))))))))"

definition parse_assignment :: "expr parser \<Rightarrow> (string \<times> expr) parser" where
  "parse_assignment E = st_bind consume_identifier (\<lambda>column. st_bind (consume_token (Sym ''Equals'')) (\<lambda>_.
     st_bind E (\<lambda>e. st_return (column, e))))"

definition parse_update :: "expr parser \<Rightarrow> parsers \<Rightarrow> Statement parser" where
  "parse_update E P = st_bind (consume_token (Kw ''Update'')) (\<lambda>_. st_bind (parse_table_ref P) (\<lambda>table.
     st_bind (consume_token (Kw ''Set'')) (\<lambda>_. st_bind (comma_list (parse_assignment E)) (\<lambda>assignments.
     st_bind (when_token (Kw ''Where'') E) (\<lambda>where_clause. st_return (UpdateS (UpdateStatement table assignments where_clause)))))))"

definition parse_delete :: "expr parser \<Rightarrow> parsers \<Rightarrow> Statement parser" where
  "parse_delete E P = st_bind (consume_token (Kw ''Delete'')) (\<lambda>_. st_bind (consume_token (Kw ''From'')) (\<lambda>_.
     st_bind (parse_table_ref P) (\<lambda>table. st_bind (when_token (Kw ''Where'') E) (\<lambda>where_clause.
       st_return (DeleteS (DeleteStatement table where_clause))))))"

subsection \<open>Definitions of tables and indexes\<close>

text \<open>The value of DEFAULT: its token is consumed whatever it is.\<close>

definition default_text :: "expr_lib \<Rightarrow> Token \<Rightarrow> string option" where
  "default_text L t = (case token_type t of
     TkString s \<Rightarrow> Some s
   | TkNumber n \<Rightarrow> Some (if CHR ''.'' \<in> set n
         then el_float_display L (case el_float_parse L n of Some f \<Rightarrow> f | None \<Rightarrow> 0)
         else show_i64 (case parse_i64 n of Some i \<Rightarrow> i | None \<Rightarrow> 0))
   | TkIdentifier i \<Rightarrow> Some i
   | TkQuotedIdentifier i \<Rightarrow> Some i
   | Kw k \<Rightarrow> if k = ''True'' then Some ''true'' else if k = ''False'' then Some ''false'' else None
   | _ \<Rightarrow> None)"

definition parse_default :: "expr_lib \<Rightarrow> Statement ColumnConstraint parser" where
  "parse_default L s =
     (let s1 = advance_token s
      in case default_text L (previous_token s1) of
           Some text \<Rightarrow> (Ok (DefaultC text), s1) | None \<Rightarrow> (Err (ParseError ''Expected literal value''), s1))"

definition constraint_word :: "expr_lib \<Rightarrow> expr parser \<Rightarrow> Token \<Rightarrow> Statement ColumnConstraint parser option" where
  "constraint_word L E t =
     (if token_type t = Kw ''Not'' then Some (st_bind (consume_token (Kw ''Null'')) (\<lambda>_. st_return NotNullC))
      else if token_type t = Kw ''Null'' then Some (st_return NullC)
      else if token_type t = Kw ''Default'' then Some (parse_default L)
      else if token_type t = Kw ''Primary'' then Some (st_bind (consume_token (Kw ''Key'')) (\<lambda>_. st_return PrimaryKeyC))
      else if token_type t = Kw ''Unique'' then Some (st_return UniqueC)
      else if token_type t = Kw ''Check'' then Some (st_bind (consume_token (Sym ''LeftParen'')) (\<lambda>_. st_bind E (\<lambda>condition.
        st_bind (consume_token (Sym ''RightParen'')) (\<lambda>_. st_return (CheckC condition)))))
      else if token_type t = Kw ''References'' then Some (st_bind consume_identifier (\<lambda>ref_table.
        st_bind (when_token (Sym ''LeftParen'') (st_bind consume_identifier (\<lambda>c. st_bind (consume_token (Sym ''RightParen'')) (\<lambda>_. st_return c))))
          (\<lambda>ref_column. st_return (ReferencesC ref_table ref_column))))
      else None)"

definition parse_column_def :: "expr_lib \<Rightarrow> expr parser \<Rightarrow> Statement AstColumnDef parser" where
  "parse_column_def L E = st_bind consume_identifier (\<lambda>name. st_bind parser_data_type (\<lambda>data_type.
     st_bind (parse_loop (match_some (constraint_word L E)) (\<lambda>p cs. st_bind p (\<lambda>c. st_return (cs @ [c]))) []) (\<lambda>constraints.
       st_return (AstColumnDef name data_type constraints))))"

definition table_constraint_word :: "expr parser \<Rightarrow> string option \<Rightarrow> Token \<Rightarrow> Statement AstTableConstraint parser option" where
  "table_constraint_word E name t =
     (if token_type t = Kw ''Primary'' then Some (st_bind (consume_token (Kw ''Key'')) (\<lambda>_. st_bind parenthesized_names (\<lambda>columns.
        st_return (PrimaryKeyT columns name))))
      else if token_type t = Kw ''Foreign'' then Some (st_bind (consume_token (Kw ''Key'')) (\<lambda>_. st_bind parenthesized_names (\<lambda>columns.
        st_bind (consume_token (Kw ''References'')) (\<lambda>_. st_bind consume_identifier (\<lambda>ref_table. st_bind parenthesized_names (\<lambda>ref_columns.
          st_return (ForeignKeyT columns ref_table ref_columns name)))))))
      else if token_type t = Kw ''Unique'' then Some (st_bind parenthesized_names (\<lambda>columns. st_return (UniqueT columns name)))
      else if token_type t = Kw ''Check'' then Some (st_bind (consume_token (Sym ''LeftParen'')) (\<lambda>_. st_bind E (\<lambda>condition.
        st_bind (consume_token (Sym ''RightParen'')) (\<lambda>_. st_return (CheckT condition name)))))
      else None)"

definition parse_table_constraint :: "expr parser \<Rightarrow> Statement AstTableConstraint parser" where
  "parse_table_constraint E = st_bind (when_token (Kw ''Constraint'') consume_identifier) (\<lambda>name.
     st_bind (match_some (table_constraint_word E name)) (\<lambda>r.
       case r of Some p \<Rightarrow> p | None \<Rightarrow> st_fail (ParseError ''Expected constraint type'')))"

definition constraint_starts :: "TokenType set" where
  "constraint_starts = {Kw ''Primary'', Kw ''Foreign'', Kw ''Unique'', Kw ''Check'', Kw ''Constraint''}"

text \<open>An element of a table definition: added to the columns or to the constraints.\<close>

definition parse_table_element ::
    "expr_lib \<Rightarrow> expr parser \<Rightarrow> Statement AstColumnDef list \<times> Statement AstTableConstraint list \<Rightarrow>
     (Statement AstColumnDef list \<times> Statement AstTableConstraint list) parser" where
  "parse_table_element L E acc s =
     (if token_type (peek_token s) \<in> constraint_starts
      then st_bind (parse_table_constraint E) (\<lambda>c. st_return (fst acc, snd acc @ [c])) s
      else st_bind (parse_column_def L E) (\<lambda>c. st_return (fst acc @ [c], snd acc)) s)"

definition parse_if_not_exists :: "bool parser" where
  "parse_if_not_exists = st_bind (match_token (Kw ''If'')) (\<lambda>b.
     if b then st_bind (consume_token (Kw ''Not'')) (\<lambda>_. st_bind (consume_token (Kw ''Exists'')) (\<lambda>_. st_return True)) else st_return False)"

definition parse_if_exists :: "bool parser" where
  "parse_if_exists = st_bind (match_token (Kw ''If'')) (\<lambda>b.
     if b then st_bind (consume_token (Kw ''Exists'')) (\<lambda>_. st_return True) else st_return False)"

definition parse_create_table :: "expr_lib \<Rightarrow> expr parser \<Rightarrow> Statement parser" where
  "parse_create_table L E = st_bind parse_if_not_exists (\<lambda>if_not_exists. st_bind consume_identifier (\<lambda>table_name.
     st_bind (consume_token (Sym ''LeftParen'')) (\<lambda>_. st_bind (parse_table_element L E ([], [])) (\<lambda>first.
     st_bind (while_token (Sym ''Comma'') (parse_table_element L E) first) (\<lambda>(columns, table_constraints).
     st_bind (consume_token (Sym ''RightParen'')) (\<lambda>_.
       st_return (CreateTableS (CreateTableStatement table_name columns table_constraints if_not_exists))))))))"

definition parse_create_index :: "bool \<Rightarrow> Statement parser" where
  "parse_create_index is_unique = st_bind parse_if_not_exists (\<lambda>if_not_exists. st_bind consume_identifier (\<lambda>index_name.
     st_bind (consume_token (Kw ''On'')) (\<lambda>_. st_bind consume_identifier (\<lambda>table_name. st_bind parenthesized_names (\<lambda>columns.
       st_return (CreateIndexS (CreateIndexStatement index_name table_name columns is_unique if_not_exists)))))))"

fun set_constraint_name :: "string \<Rightarrow> Statement AstTableConstraint \<Rightarrow> Statement AstTableConstraint" where
  "set_constraint_name n (PrimaryKeyT columns _) = PrimaryKeyT columns (Some n)"
| "set_constraint_name n (UniqueT columns _) = UniqueT columns (Some n)"
| "set_constraint_name n (ForeignKeyT columns ref_table ref_columns _) = ForeignKeyT columns ref_table ref_columns (Some n)"
| "set_constraint_name n (CheckT condition _) = CheckT condition (Some n)"

definition parse_alter_operation :: "expr_lib \<Rightarrow> expr parser \<Rightarrow> Statement AlterOperation parser" where
  "parse_alter_operation L E =
     st_bind (match_token (Kw ''Add'')) (\<lambda>add. if add then
       st_bind (match_token (Kw ''Column'')) (\<lambda>b. if b then st_bind (parse_column_def L E) (\<lambda>c. st_return (AddColumn c)) else
       st_bind (match_token (Kw ''Constraint'')) (\<lambda>b. if b then st_bind consume_identifier (\<lambda>n.
           st_bind (parse_table_constraint E) (\<lambda>c. st_return (AddConstraint (set_constraint_name n c))))
         else st_fail (ParseError ''Expected COLUMN or CONSTRAINT after ADD''))) else
     st_bind (match_token (Kw ''Drop'')) (\<lambda>drop. if drop then
       st_bind (match_token (Kw ''Column'')) (\<lambda>b. if b then st_bind consume_identifier (\<lambda>n. st_return (DropColumn n)) else
       st_bind (match_token (Kw ''Constraint'')) (\<lambda>b. if b then st_bind consume_identifier (\<lambda>n. st_return (DropConstraint n))
         else st_fail (ParseError ''Expected COLUMN or CONSTRAINT after DROP''))) else
     st_bind (match_token (Kw ''Rename'')) (\<lambda>rename. if rename then
       st_bind (match_token (Kw ''Column'')) (\<lambda>b. if b then st_bind consume_identifier (\<lambda>old_name. st_bind (consume_token (Kw ''To'')) (\<lambda>_.
           st_bind consume_identifier (\<lambda>new_name. st_return (RenameColumn old_name new_name)))) else
       st_bind (match_token (Kw ''To'')) (\<lambda>b. if b then st_bind consume_identifier (\<lambda>n. st_return (RenameTable n))
         else st_fail (ParseError ''Expected COLUMN or TO after RENAME'')))
     else st_fail (ParseError ''Expected ADD, DROP, or RENAME after ALTER TABLE''))))"

definition parse_alter :: "expr_lib \<Rightarrow> expr parser \<Rightarrow> Statement parser" where
  "parse_alter L E = st_bind (consume_token (Kw ''Alter'')) (\<lambda>_. st_bind (consume_token (Kw ''Table'')) (\<lambda>_.
     st_bind consume_identifier (\<lambda>table_name. st_bind (parse_alter_operation L E) (\<lambda>operation.
       st_return (AlterTableS (AlterTableStatement table_name operation))))))"

subsection \<open>Views\<close>

definition parse_view_columns :: "string list parser" where
  "parse_view_columns = st_bind optional_names (\<lambda>r. st_return (case r of Some cs \<Rightarrow> cs | None \<Rightarrow> []))"

text \<open>WITH DATA, or WITH NOT DATA.\<close>

definition parse_with_data :: "bool parser" where
  "parse_with_data = st_bind (match_token (Kw ''With'')) (\<lambda>b.
     if b then st_bind (match_token (Kw ''Not'')) (\<lambda>n. st_bind (consume_token (Kw ''Data'')) (\<lambda>_. st_return (\<not> n)))
     else st_return True)"

definition parse_create_view :: "expr parser \<Rightarrow> parsers \<Rightarrow> Statement parser" where
  "parse_create_view E P = st_bind consume_identifier (\<lambda>view_name. st_bind parse_view_columns (\<lambda>columns.
     st_bind (consume_token (Kw ''As'')) (\<lambda>_. st_bind (parse_select E P) (\<lambda>query.
       st_return (CreateViewS (CreateViewStatement view_name columns query False True))))))"

definition parse_create_materialized_view :: "expr parser \<Rightarrow> parsers \<Rightarrow> Statement parser" where
  "parse_create_materialized_view E P = st_bind (consume_token (Kw ''View'')) (\<lambda>_. st_bind consume_identifier (\<lambda>view_name.
     st_bind parse_view_columns (\<lambda>columns. st_bind (consume_token (Kw ''As'')) (\<lambda>_. st_bind (parse_select E P) (\<lambda>query.
     st_bind parse_with_data (\<lambda>with_data.
       st_return (CreateViewS (CreateViewStatement view_name columns query True with_data))))))))"

text \<open>Whether IF EXISTS was there is not kept.\<close>

definition parse_drop_view :: "bool \<Rightarrow> Statement parser" where
  "parse_drop_view materialized = st_bind (if materialized then consume_token (Kw ''View'') else st_return ()) (\<lambda>_.
     st_bind parse_if_exists (\<lambda>_. st_bind consume_identifier (\<lambda>view_name. st_bind (match_token (Kw ''Cascade'')) (\<lambda>cascade.
       st_return (DropViewS (DropViewStatement view_name materialized cascade))))))"

definition parse_refresh_materialized_view :: "Statement parser" where
  "parse_refresh_materialized_view = st_bind (consume_token (Kw ''Refresh'')) (\<lambda>_. st_bind (consume_token (Kw ''Materialized'')) (\<lambda>_.
     st_bind (consume_token (Kw ''View'')) (\<lambda>_. st_bind (match_token (Kw ''Concurrently'')) (\<lambda>concurrently.
     st_bind consume_identifier (\<lambda>view_name. st_bind parse_with_data (\<lambda>with_data.
       st_return (RefreshMaterializedViewS (RefreshMaterializedViewStatement view_name concurrently with_data))))))))"

subsection \<open>Procedures\<close>

definition parameter_mode :: "ParameterMode option parser" where
  "parameter_mode = match_some (\<lambda>t. case identifier_of (token_type t) of
     Some n \<Rightarrow> map_of [(''IN'', InParam), (''OUT'', OutParam), (''INOUT'', InOutParam)] (to_uppercase n) | None \<Rightarrow> None)"

definition parse_procedure_parameter :: "expr parser \<Rightarrow> Statement ProcedureParameter parser" where
  "parse_procedure_parameter E = st_bind parameter_mode (\<lambda>m. let mode = (case m of Some x \<Rightarrow> x | None \<Rightarrow> InParam) in
     st_bind consume_identifier (\<lambda>name. st_bind parser_data_type (\<lambda>data_type.
     st_bind (if mode \<noteq> OutParam then when_token (Kw ''Default'') E else st_return None) (\<lambda>default_value.
       st_return (ProcedureParameter name data_type mode default_value)))))"

definition optional_arguments :: "'a parser \<Rightarrow> 'a list parser" where
  "optional_arguments p = st_bind (match_token (Sym ''LeftParen'')) (\<lambda>paren.
     if paren then st_bind (match_token (Sym ''RightParen'')) (\<lambda>empty.
       if empty then st_return [] else st_bind (comma_list p) (\<lambda>xs. st_bind (consume_token (Sym ''RightParen'')) (\<lambda>_. st_return xs)))
     else st_return [])"

definition parse_or_replace :: "bool parser" where
  "parse_or_replace = st_bind (match_token (Kw ''Or'')) (\<lambda>b.
     if b then st_bind (consume_token (Kw ''Replace'')) (\<lambda>_. st_return True) else st_return False)"

definition parse_language :: "ProcedureLanguage parser" where
  "parse_language = st_bind (consume_token (Kw ''Language'')) (\<lambda>_. st_bind consume_identifier (\<lambda>n.
     case map_of [(''SQL'', LangSQL), (''PLPGSQL'', LangPLpgSQL)] (to_uppercase n) of
       Some l \<Rightarrow> st_return l | None \<Rightarrow> st_fail (ParseError ''Expected SQL or PLpgSQL as language'')))"

definition parse_security :: "bool parser" where
  "parse_security = st_bind (match_token (Kw ''Security'')) (\<lambda>b.
     if b then st_bind (consume_token (Kw ''Definer'')) (\<lambda>_. st_return True) else st_return False)"

definition parse_declaration :: "expr parser \<Rightarrow> Statement Declaration parser" where
  "parse_declaration E = st_bind (match_identifier_token ''CONSTANT'') (\<lambda>constant. st_bind consume_identifier (\<lambda>name.
     st_bind parser_data_type (\<lambda>data_type. st_bind (when_token (Kw ''Default'') E) (\<lambda>default_value.
       st_return (Declaration name data_type default_value constant)))))"

text \<open>
  A loop over statements, in which a semicolon is skipped, until the guard finds a reason to stop. Each round
  consumes a token, so that as many rounds as there are tokens left are enough.
\<close>

fun statement_rounds :: "nat \<Rightarrow> parsers \<Rightarrow> 'a option parser \<Rightarrow> Statement list \<Rightarrow> (Statement list \<times> 'a) parser" where
  "statement_rounds 0 P stop statements s = (Deadlock, s)"
| "statement_rounds (Suc n) P stop statements s =
     st_bind stop (\<lambda>r. case r of
         Some x \<Rightarrow> st_return (statements, x)
       | None \<Rightarrow> st_bind (match_token (Sym ''Semicolon'')) (\<lambda>semicolon.
           if semicolon then statement_rounds n P stop statements
           else st_bind (pr_statement P) (\<lambda>statement. statement_rounds n P stop (statements @ [statement])))) s"

definition statement_loop :: "parsers \<Rightarrow> 'a option parser \<Rightarrow> (Statement list \<times> 'a) parser" where
  "statement_loop P stop s = statement_rounds (Suc (remaining_tokens s)) P stop [] s"

text \<open>The statements of a handler end at a WHEN, which is consumed, or before an END.\<close>

definition handler_stop :: "unit option parser" where
  "handler_stop s =
     (if parser_at_end s then (Ok (Some ()), s)
      else st_bind (match_token (Kw ''When'')) (\<lambda>b s.
        (Ok (if b \<or> token_type (peek_token s) = Kw ''End'' then Some () else None), s)) s)"

definition exception_condition :: "string list \<Rightarrow> ExceptionCondition" where
  "exception_condition names =
     (if length names = 1 \<and> to_uppercase (hd names) = ''OTHERS'' then OthersException else WhenExceptions names)"

definition parse_exception_handler :: "parsers \<Rightarrow> Statement ExceptionHandler parser" where
  "parse_exception_handler P = st_bind (consume_token (Kw ''Exception'')) (\<lambda>_.
     st_bind (while_token (Kw ''When'') (\<lambda>(conditions, statements).
       st_bind consume_identifier (\<lambda>n.
       st_bind (while_token (Kw ''Or'') (\<lambda>ns. st_bind consume_identifier (\<lambda>n. st_return (ns @ [n]))) [n]) (\<lambda>names.
       st_bind (consume_token (Kw ''Then'')) (\<lambda>_. st_bind (statement_loop P handler_stop) (\<lambda>(handler_statements, _).
         st_return (conditions @ [exception_condition names], statements @ handler_statements)))))) ([], [])) (\<lambda>(conditions, statements).
     st_return (ExceptionHandler conditions statements)))"

text \<open>The statements of a block end at an END, which is consumed, or before EXCEPTION.\<close>

definition block_stop :: "bool option parser" where
  "block_stop s =
     (if parser_at_end s then (Ok (Some False), s)
      else st_bind (match_token (Kw ''End'')) (\<lambda>b s.
        (Ok (if b then Some False else if token_type (peek_token s) = Kw ''Exception'' then Some True else None), s)) s)"

definition parse_block_statement :: "expr parser \<Rightarrow> parsers \<Rightarrow> Statement BlockStatement parser" where
  "parse_block_statement E P = st_bind (match_token (Kw ''Declare'')) (\<lambda>b.
     st_bind (if b then comma_list (parse_declaration E) else st_return []) (\<lambda>declarations.
     st_bind (statement_loop P block_stop) (\<lambda>(statements, handler).
     st_bind (if handler then st_bind (parse_exception_handler P) (\<lambda>h. st_return (Some h)) else st_return None) (\<lambda>exception_handler.
       st_return (BlockStatement declarations statements exception_handler)))))"

text \<open>AS BEGIN, the block, and END.\<close>

definition parse_body :: "expr parser \<Rightarrow> parsers \<Rightarrow> Statement BlockStatement parser" where
  "parse_body E P = st_bind (consume_token (Kw ''As'')) (\<lambda>_. st_bind (consume_token (Kw ''Begin'')) (\<lambda>_.
     st_bind (parse_block_statement E P) (\<lambda>body. st_bind (consume_token (Kw ''End'')) (\<lambda>_. st_return body))))"

definition parse_create_procedure :: "expr parser \<Rightarrow> parsers \<Rightarrow> Statement parser" where
  "parse_create_procedure E P = st_bind parse_or_replace (\<lambda>or_replace. st_bind consume_identifier (\<lambda>procedure_name.
     st_bind (optional_arguments (parse_procedure_parameter E)) (\<lambda>parameters. st_bind parse_language (\<lambda>language.
     st_bind parse_security (\<lambda>security_definer. st_bind (parse_body E P) (\<lambda>body.
       st_return (CreateProcedureS (CreateProcedureStatement procedure_name parameters language body or_replace security_definer))))))))"

text \<open>The return type stands behind RETURN IF NOT.\<close>

definition parse_return_type :: "(bool \<times> DataType) parser" where
  "parse_return_type = st_bind (consume_token (Kw ''Return'')) (\<lambda>_. st_bind (consume_token (Kw ''If'')) (\<lambda>_.
     st_bind (consume_token (Kw ''Not'')) (\<lambda>_. st_bind (match_token (Kw ''Set'')) (\<lambda>returns_setof.
     st_bind (if returns_setof then consume_token (Kw ''Of'') else st_return ()) (\<lambda>_. st_bind parser_data_type (\<lambda>return_type.
       st_return (returns_setof, return_type)))))))"

definition parse_create_function :: "expr parser \<Rightarrow> parsers \<Rightarrow> Statement parser" where
  "parse_create_function E P = st_bind parse_or_replace (\<lambda>or_replace. st_bind consume_identifier (\<lambda>function_name.
     st_bind (optional_arguments (parse_procedure_parameter E)) (\<lambda>parameters. st_bind parse_return_type (\<lambda>(returns_setof, return_type).
     st_bind parse_language (\<lambda>language. st_bind parse_security (\<lambda>security_definer. st_bind (parse_body E P) (\<lambda>body.
       st_return (CreateFunctionS (CreateFunctionStatement function_name parameters return_type language body or_replace
         security_definer returns_setof)))))))))"

definition parse_call_procedure :: "expr parser \<Rightarrow> Statement parser" where
  "parse_call_procedure E = st_bind (consume_token (Kw ''Call'')) (\<lambda>_. st_bind consume_identifier (\<lambda>procedure_name.
     st_bind (optional_arguments E) (\<lambda>arguments. st_return (CallProcedureS (CallProcedureStatement procedure_name arguments)))))"

definition parse_perform_statement :: "expr parser \<Rightarrow> Statement parser" where
  "parse_perform_statement E = st_bind (consume_token (Kw ''Perform'')) (\<lambda>_. st_bind E (\<lambda>e. st_return (PerformS (PerformStatement e))))"

text \<open>BEGIN, COMMIT and ROLLBACK, with words that may follow.\<close>

definition parse_transaction_word :: "TokenType \<Rightarrow> Statement \<Rightarrow> Statement parser" where
  "parse_transaction_word t statement = st_bind (consume_token t) (\<lambda>_. st_bind (match_identifier_token ''TRANSACTION'') (\<lambda>_.
     st_bind (match_identifier_token ''WORK'') (\<lambda>_. st_return statement)))"

subsection \<open>Statements\<close>

text \<open>CREATE TABLE accepts a UNIQUE before it, as the other kinds do.\<close>

definition parse_create :: "expr_lib \<Rightarrow> expr parser \<Rightarrow> parsers \<Rightarrow> Statement parser" where
  "parse_create L E P = st_bind (consume_token (Kw ''Create'')) (\<lambda>_. st_bind (match_token (Kw ''Unique'')) (\<lambda>is_unique_index.
     st_bind (match_token (Kw ''Table'')) (\<lambda>b. if b then parse_create_table L E else
     st_bind (match_token (Kw ''Index'')) (\<lambda>b. if b then parse_create_index is_unique_index else
     st_bind (match_token (Kw ''View'')) (\<lambda>b. if b then parse_create_view E P else
     st_bind (match_token (Kw ''Materialized'')) (\<lambda>b. if b then parse_create_materialized_view E P else
     st_bind (match_token (Kw ''Procedure'')) (\<lambda>b. if b then parse_create_procedure E P else
     st_bind (match_token (Kw ''Function'')) (\<lambda>b. if b then parse_create_function E P else
       st_fail (ParseError ''Expected TABLE, INDEX, VIEW, PROCEDURE, or FUNCTION after CREATE'')))))))))"

definition parse_drop_named :: "(bool \<Rightarrow> string \<Rightarrow> Statement parser) \<Rightarrow> Statement parser" where
  "parse_drop_named f = st_bind parse_if_exists (\<lambda>if_exists. st_bind consume_identifier (\<lambda>name. f if_exists name))"

definition parse_drop :: "Statement parser" where
  "parse_drop = st_bind (consume_token (Kw ''Drop'')) (\<lambda>_.
     st_bind (match_token (Kw ''Table'')) (\<lambda>b. if b then
       parse_drop_named (\<lambda>if_exists name. st_return (DropTableS (DropTableStatement name if_exists))) else
     st_bind (match_token (Kw ''Index'')) (\<lambda>b. if b then
       parse_drop_named (\<lambda>if_exists name. st_return (DropIndexS (DropIndexStatement name if_exists))) else
     st_bind (match_token (Kw ''View'')) (\<lambda>b. if b then parse_drop_view False else
     st_bind (match_token (Kw ''Materialized'')) (\<lambda>b. if b then parse_drop_view True else
     st_bind (match_token (Kw ''Procedure'')) (\<lambda>b. if b then
       parse_drop_named (\<lambda>if_exists name. st_return (DropProcedureS (DropProcedureStatement name if_exists []))) else
     st_bind (match_token (Kw ''Function'')) (\<lambda>b. if b then
       parse_drop_named (\<lambda>if_exists name. st_bind (match_token (Kw ''Cascade'')) (\<lambda>cascade.
         st_return (DropFunctionS (DropFunctionStatement name if_exists [] cascade)))) else
       st_fail (ParseError ''Expected TABLE, INDEX, VIEW, PROCEDURE, or FUNCTION after DROP''))))))))"

definition parse_statement :: "expr_lib \<Rightarrow> expr parser \<Rightarrow> parsers \<Rightarrow> Statement parser" where
  "parse_statement L E P s =
     (let t = token_type (peek_token s)
      in if t = Kw ''With'' then st_bind (parse_with_select E P) (\<lambda>q. st_return (SelectS q)) s
         else if t = Kw ''Select'' then st_bind (parse_select E P) (\<lambda>q. st_return (SelectS q)) s
         else if t = Kw ''Insert'' then parse_insert E P s
         else if t = Kw ''Update'' then parse_update E P s
         else if t = Kw ''Delete'' then parse_delete E P s
         else if t = Kw ''Create'' then parse_create L E P s
         else if t = Kw ''Drop'' then parse_drop s
         else if t = Kw ''Alter'' then parse_alter L E s
         else if t = Kw ''Refresh'' then parse_refresh_materialized_view s
         else if t = Kw ''Call'' then parse_call_procedure E s
         else if t = Kw ''Perform'' then parse_perform_statement E s
         else if t = Kw ''Begin'' then parse_transaction_word (Kw ''Begin'') BeginTransactionS s
         else if t = Kw ''Commit'' then parse_transaction_word (Kw ''Commit'') CommitTransactionS s
         else if t = Kw ''Rollback'' then parse_transaction_word (Kw ''Rollback'') RollbackTransactionS s
         else (Err (ParseError ''Unexpected token''), s))"

subsection \<open>The knot\<close>

fun parsers_at :: "expr_lib \<Rightarrow> nat \<Rightarrow> parsers" where
  "parsers_at L 0 = \<lparr>pr_expression = Pair Deadlock, pr_additive = Pair Deadlock, pr_not = Pair Deadlock, pr_unary = Pair Deadlock,
     pr_select = (\<lambda>_. Pair Deadlock), pr_statement = Pair Deadlock\<rparr>"
| "parsers_at L (Suc n) =
     (let P = parsers_at L n; E = parse_expression L P
      in \<lparr>pr_expression = E, pr_additive = parse_additive_expression L P, pr_not = parse_not_expression L P,
          pr_unary = parse_unary_expression L P, pr_select = parse_select_after_select E P, pr_statement = parse_statement L E P\<rparr>)"

text \<open>The statements of a text: whitespace and comments are skipped between them, not inside.\<close>

fun parse_statements :: "nat \<Rightarrow> Statement parser \<Rightarrow> Statement list \<Rightarrow> Statement list parser" where
  "parse_statements 0 p statements s = (Deadlock, s)"
| "parse_statements (Suc n) p statements s =
     (if parser_at_end s then (Ok statements, s)
      else st_bind (match_some (\<lambda>t. case token_type t of TkComment _ \<Rightarrow> Some () | _ \<Rightarrow> None)) (\<lambda>comment.
        if comment \<noteq> None then parse_statements n p statements
        else st_bind p (\<lambda>statement s1. if parser_at_end s1 then parse_statements n p (statements @ [statement]) s1
          else st_bind (consume_token (Sym ''Semicolon'')) (\<lambda>_. parse_statements n p (statements @ [statement])) s1)) s)"

definition parse_tokens :: "expr_lib \<Rightarrow> nat \<Rightarrow> Token list \<Rightarrow> Statement list res" where
  "parse_tokens L n tokens = fst (parse_statements n (pr_statement (parsers_at L n)) [] (Parser_new tokens))"

definition parse_sql :: "expr_lib \<Rightarrow> string \<Rightarrow> Statement list res" where
  "parse_sql L sql = res_bind (tokenize (Lexer_new sql)) (\<lambda>tokens. parse_tokens L (length tokens + 2) tokens)"


end
