(* ===== verification/Parser_Returns.thy ===== *)
theory Parser_Returns
  imports Parser
begin

section \<open>The parser returns\<close>

text \<open>
  The parsers of \<open>Parser\<close> are tied by a recursion whose bound is a number. This theory shows that the bound
  does not matter: a function of the parser is called again only behind a token that has been consumed, so
  that two ties of it with more levels than there are tokens do the same, and return.
\<close>

subsection \<open>Lemmas: how far a parser goes\<close>

text \<open>
  \<open>agree n p q\<close>: the parsers only move forward, and with fewer than \<open>n\<close> tokens left they do the same and
  return. \<open>eats p\<close>: the parser returns, and has consumed a token when it succeeds.
\<close>

definition forward :: "Parser \<Rightarrow> Parser \<Rightarrow> bool" where
  "forward s s' \<longleftrightarrow> ps_tokens s' = ps_tokens s \<and> ps_current s \<le> ps_current s'"

definition ended :: "Parser \<Rightarrow> bool" where
  "ended s \<longleftrightarrow> ps_tokens s \<noteq> [] \<and> token_type (last (ps_tokens s)) = TkEOF"

definition agree :: "nat \<Rightarrow> 'a parser \<Rightarrow> 'a parser \<Rightarrow> bool" where
  "agree n p q \<longleftrightarrow> (\<forall>s. forward s (snd (p s)) \<and> forward s (snd (q s)) \<and>
     (remaining_tokens s < n \<longrightarrow> ended s \<longrightarrow> p s = q s \<and> fst (p s) \<noteq> Deadlock))"

definition eats :: "'a parser \<Rightarrow> bool" where
  "eats p \<longleftrightarrow> (\<forall>s. forward s (snd (p s)) \<and> fst (p s) \<noteq> Deadlock \<and>
     (is_ok (fst (p s)) \<longrightarrow> ended s \<longrightarrow> remaining_tokens (snd (p s)) < remaining_tokens s))"

named_theorems agree_rules

lemma forward_refl [simp]: "forward s s"
  by (simp add: forward_def)

lemma forward_trans: "forward s t \<Longrightarrow> forward t u \<Longrightarrow> forward s u"
  by (simp add: forward_def)

lemma forward_ended: "forward s t \<Longrightarrow> ended s \<Longrightarrow> ended t"
  by (simp add: forward_def ended_def)

lemma forward_remaining: "forward s t \<Longrightarrow> remaining_tokens t \<le> remaining_tokens s"
  by (simp add: forward_def remaining_tokens_def diff_le_mono2)

lemma forward_advance [simp]: "forward s (advance_token s)"
  by (simp add: forward_def advance_token_def)

lemma advance_eats: "\<not> parser_at_end s \<Longrightarrow> remaining_tokens (advance_token s) < remaining_tokens s"
  by (auto simp: advance_token_def remaining_tokens_def parser_at_end_def)

lemma agree_mono: "agree n p q \<Longrightarrow> m \<le> n \<Longrightarrow> agree m p q"
  unfolding agree_def by (meson less_le_trans)

lemma agree_Suc: "agree (Suc n) p q \<Longrightarrow> agree n p q"
  by (erule agree_mono) simp

lemma agree_forward: "agree n p q \<Longrightarrow> forward s (snd (p s))" "agree n p q \<Longrightarrow> forward s (snd (q s))"
  unfolding agree_def by blast+

lemma eats_agree: "eats p \<Longrightarrow> agree n p p"
  unfolding agree_def eats_def by blast

lemma agree_return [agree_rules]: "agree n (st_return x) (st_return x)"
  by (simp add: agree_def)

lemma agree_fail [agree_rules]: "agree n (st_fail e) (st_fail e)"
  by (simp add: agree_def)

lemma agree_Pair [agree_rules]: "r \<noteq> Deadlock \<Longrightarrow> agree n (Pair r) (Pair r)"
  by (simp add: agree_def)

lemma st_bind_parts:
  "st_bind p f s = (case p s of (Ok x, s1) \<Rightarrow> f x s1 | (Err e, s1) \<Rightarrow> (Err e, s1) | (Panic t, s1) \<Rightarrow> (Panic t, s1)
     | (Deadlock, s1) \<Rightarrow> (Deadlock, s1))"
  by (auto simp: st_bind_def st_try_def st_fail_def split: prod.splits res.splits)

lemma forward_bind: "forward s (snd (p s)) \<Longrightarrow> (\<And>x. forward (snd (p s)) (snd (f x (snd (p s))))) \<Longrightarrow> forward s (snd (st_bind p f s))"
  by (auto simp: st_bind_parts split: prod.splits res.splits) (metis forward_trans snd_conv)

lemma agree_bind: "agree n p q \<Longrightarrow> (\<And>x. agree n (f x) (g x)) \<Longrightarrow> agree n (st_bind p f) (st_bind q g)"
  unfolding agree_def
proof (intro allI conjI impI)
  fix s
  assume p: "\<forall>s. forward s (snd (p s)) \<and> forward s (snd (q s)) \<and>
      (remaining_tokens s < n \<longrightarrow> ended s \<longrightarrow> p s = q s \<and> fst (p s) \<noteq> Deadlock)"
    and f: "\<And>x. \<forall>s. forward s (snd (f x s)) \<and> forward s (snd (g x s)) \<and>
      (remaining_tokens s < n \<longrightarrow> ended s \<longrightarrow> f x s = g x s \<and> fst (f x s) \<noteq> Deadlock)"
  show "forward s (snd (st_bind p f s))" "forward s (snd (st_bind q g s))" using p f by (auto intro: forward_bind)
  assume n: "remaining_tokens s < n" "ended s"
  have "remaining_tokens (snd (p s)) < n" "ended (snd (p s))"
    using p n forward_remaining forward_ended by (meson le_less_trans)+
  moreover have "p s = q s" "fst (p s) \<noteq> Deadlock" using p n by blast+
  ultimately show "st_bind p f s = st_bind q g s" "fst (st_bind p f s) \<noteq> Deadlock"
    using f by (cases "q s" rule: prod.exhaust; cases "fst (q s)"; simp add: st_bind_parts)+
qed

lemma eats_bind: "eats p \<Longrightarrow> (\<And>x. agree n (f x) (g x)) \<Longrightarrow> agree (Suc n) (st_bind p f) (st_bind p g)"
  unfolding agree_def
proof (intro allI conjI impI)
  fix s
  assume p: "eats p"
    and f: "\<And>x. \<forall>s. forward s (snd (f x s)) \<and> forward s (snd (g x s)) \<and>
      (remaining_tokens s < n \<longrightarrow> ended s \<longrightarrow> f x s = g x s \<and> fst (f x s) \<noteq> Deadlock)"
  have fw: "forward s (snd (p s))" "fst (p s) \<noteq> Deadlock"
      "is_ok (fst (p s)) \<Longrightarrow> ended s \<Longrightarrow> remaining_tokens (snd (p s)) < remaining_tokens s" for s
    using p unfolding eats_def by blast+
  show "forward s (snd (st_bind p f s))" "forward s (snd (st_bind p g s))" using fw f by (auto intro: forward_bind)
  assume n: "remaining_tokens s < Suc n" "ended s"
  have "remaining_tokens (snd (p s)) < n" if "is_ok (fst (p s))" using fw(3) [OF that n(2)] n(1) by simp
  moreover have "ended (snd (p s))" using forward_ended [OF fw(1) n(2)] .
  ultimately show "st_bind p f s = st_bind p g s" "fst (st_bind p f s) \<noteq> Deadlock"
    using fw(2) [of s] f by (cases "p s" rule: prod.exhaust; cases "fst (p s)"; simp add: st_bind_parts)+
qed

lemma peek_at_end: "ended s \<Longrightarrow> parser_at_end s \<Longrightarrow> token_type (peek_token s) = TkEOF"
  by (auto simp: ended_def peek_token_def last_conv_nth)

lemma match_some_forward: "forward s (snd (match_some f s))"
  by (simp add: match_some_def split: option.split)

text \<open>A parser that goes on with what it finds in a consumed token, or as it is when there is nothing.\<close>

lemma match_rel_bind:
  assumes "\<And>t. token_type t = TkEOF \<Longrightarrow> h t = None" "\<And>t. (h t = None) = (h' t = None)"
    and "\<And>t x y. h t = Some x \<Longrightarrow> h' t = Some y \<Longrightarrow> agree n (f (Some x)) (g (Some y))" "agree (Suc n) (f None) (g None)"
  shows "agree (Suc n) (st_bind (match_some h) f) (st_bind (match_some h') g)"
  unfolding agree_def
proof (intro allI conjI impI)
  fix s
  have none: "\<And>u. forward u (snd (f None u))" "\<And>u. forward u (snd (g None u))" using agree_forward [OF assms(4)] by blast+
  show fw: "forward s (snd (st_bind (match_some h) f s))" "forward s (snd (st_bind (match_some h') g s))"
    using assms(2) [of "peek_token s"] none agree_forward [OF assms(3) [of "peek_token s"]]
    by (auto simp: st_bind_parts match_some_def split: option.split intro: forward_trans [OF forward_advance])
  assume n: "remaining_tokens s < Suc n" "ended s"
  have "st_bind (match_some h) f s = st_bind (match_some h') g s \<and> fst (st_bind (match_some h) f s) \<noteq> Deadlock"
  proof (cases "h (peek_token s)")
    case (Some x)
    then obtain y where y: "h' (peek_token s) = Some y" using assms(2) [of "peek_token s"] by auto
    have "\<not> parser_at_end s" using assms(1) peek_at_end [OF n(2)] Some by fastforce
    then have "remaining_tokens (advance_token s) < n" "ended (advance_token s)"
      using advance_eats n forward_ended [OF forward_advance] by fastforce+
    then have "f (Some x) (advance_token s) = g (Some y) (advance_token s)" "fst (f (Some x) (advance_token s)) \<noteq> Deadlock"
      using assms(3) [OF Some y] unfolding agree_def by blast+
    then show ?thesis using Some y by (simp add: st_bind_parts match_some_def)
  next
    case None
    moreover have "h' (peek_token s) = None" using None assms(2) by blast
    moreover have "f None s = g None s" "fst (f None s) \<noteq> Deadlock" using assms(4) n unfolding agree_def by blast+
    ultimately show ?thesis by (simp add: st_bind_parts match_some_def)
  qed
  then show "st_bind (match_some h) f s = st_bind (match_some h') g s" "fst (st_bind (match_some h) f s) \<noteq> Deadlock" by blast+
qed

lemma match_some_bind:
  assumes "\<And>t. token_type t = TkEOF \<Longrightarrow> h t = None" "\<And>t x. h t = Some x \<Longrightarrow> agree n (f (Some x)) (g (Some x))" "agree (Suc n) (f None) (g None)"
  shows "agree (Suc n) (st_bind (match_some h) f) (st_bind (match_some h) g)"
  by (rule match_rel_bind) (use assms in auto)

lemma match_token_some: "match_token t = st_bind (match_some (the_token t)) (\<lambda>r. st_return (r \<noteq> None))"
  by (rule ext) (simp add: match_token_def match_some_def the_token_def st_bind_parts)

lemma bind_assoc: "st_bind (st_bind p f) g = st_bind p (\<lambda>x. st_bind (f x) g)"
  by (rule ext) (simp add: st_bind_parts split: prod.splits res.splits)

lemma bind_return [simp]: "st_bind (st_return x) f = f x"
  by (rule ext) (simp add: st_bind_parts)

lemma match_token_bind:
  assumes "t \<noteq> TkEOF" "agree n (f True) (g True)" "agree (Suc n) (f False) (g False)"
  shows "agree (Suc n) (st_bind (match_token t) f) (st_bind (match_token t) g)"
  unfolding match_token_some bind_assoc bind_return
  by (rule match_some_bind) (use assms in \<open>auto simp: the_token_def split: if_splits\<close>)

lemma agree_match_some [agree_rules]: "agree n (match_some h) (match_some h)"
  by (auto simp: agree_def match_some_def split: option.split)

lemma agree_match_token [agree_rules]: "agree n (match_token t) (match_token t)"
  by (auto simp: agree_def match_token_def)

lemma agree_consume_token [agree_rules]: "agree n (consume_token t) (consume_token t)"
  unfolding consume_token_def by (intro agree_bind agree_rules) (simp add: agree_rules)

lemma eats_match: "(\<And>t. token_type t = TkEOF \<Longrightarrow> h t = None) \<Longrightarrow>
    eats (st_bind (match_some h) (\<lambda>r. case r of Some x \<Rightarrow> st_return (f x) | None \<Rightarrow> st_fail e))"
  unfolding eats_def
proof (intro allI conjI impI)
  fix s
  assume h: "\<And>t. token_type t = TkEOF \<Longrightarrow> h t = None"
  let ?p = "st_bind (match_some h) (\<lambda>r. case r of Some x \<Rightarrow> st_return (f x) | None \<Rightarrow> st_fail e)"
  show "forward s (snd (?p s))" "fst (?p s) \<noteq> Deadlock"
    by (simp_all add: st_bind_parts match_some_def split: option.split)
  assume ok: "is_ok (fst (?p s))" and "ended s"
  then obtain x where x: "h (peek_token s) = Some x"
    by (cases "h (peek_token s)") (simp_all add: st_bind_parts match_some_def)
  then have "\<not> parser_at_end s" using h peek_at_end [OF \<open>ended s\<close>] by fastforce
  then show "remaining_tokens (snd (?p s)) < remaining_tokens s"
    using x advance_eats by (simp add: st_bind_parts match_some_def)
qed

lemma eats_consume_identifier: "eats consume_identifier"
  unfolding consume_identifier_def
  by (rule eats_match) (simp add: identifier_text_def)

lemma eats_consume_token: "t \<noteq> TkEOF \<Longrightarrow> eats (consume_token t)"
proof -
  assume "t \<noteq> TkEOF"
  then have "eats (st_bind (match_some (the_token t)) (\<lambda>r. case r of Some x \<Rightarrow> st_return x | None \<Rightarrow> st_fail (ParseError ''Expected token'')))"
    by (intro eats_match) (simp add: the_token_def)
  moreover have "consume_token t = st_bind (match_some (the_token t)) (\<lambda>r. case r of Some x \<Rightarrow> st_return x | None \<Rightarrow> st_fail (ParseError ''Expected token''))"
    by (rule ext) (simp add: consume_token_def match_token_def match_some_def the_token_def st_bind_parts)
  ultimately show ?thesis by simp
qed

lemma agree_consume_identifier [agree_rules]: "agree n consume_identifier consume_identifier"
  by (rule eats_agree) (rule eats_consume_identifier)

subsection \<open>Lemmas: loops\<close>

lemma rounds_Suc: "parse_rounds (Suc k) guard b x =
    st_bind guard (\<lambda>r. case r of Some y \<Rightarrow> st_bind (b y x) (parse_rounds k guard b) | None \<Rightarrow> st_return x)"
  by (rule ext) simp

lemma rounds_agree:
  assumes "\<And>t. token_type t = TkEOF \<Longrightarrow> h t = None" "\<And>t. (h t = None) = (h' t = None)"
    and "\<And>t x y acc. h t = Some x \<Longrightarrow> h' t = Some y \<Longrightarrow> agree n (b x acc) (c y acc)"
  shows "agree (min k (Suc n)) (parse_rounds k (match_some h) b acc) (parse_rounds k (match_some h') c acc)"
proof (induction k arbitrary: acc)
  case 0
  then show ?case by (simp add: agree_def)
next
  case (Suc k)
  have "agree (Suc (min k n)) (st_bind (match_some h) (\<lambda>r. case r of Some y \<Rightarrow> st_bind (b y acc) (parse_rounds k (match_some h) b) | None \<Rightarrow> st_return acc))
      (st_bind (match_some h') (\<lambda>r. case r of Some y \<Rightarrow> st_bind (c y acc) (parse_rounds k (match_some h') c) | None \<Rightarrow> st_return acc))"
  proof (rule match_rel_bind [OF assms(1,2)])
    fix t x y
    assume found: "h t = Some x" "h' t = Some y"
    have "agree (min k n) (b x acc) (c y acc)" by (rule agree_mono [OF assms(3) [OF found]]) simp
    moreover have "agree (min k n) (parse_rounds k (match_some h) b z) (parse_rounds k (match_some h') c z)" for z
      by (rule agree_mono [OF Suc]) simp
    ultimately show "agree (min k n) (case Some x of Some y \<Rightarrow> st_bind (b y acc) (parse_rounds k (match_some h) b) | None \<Rightarrow> st_return acc)
        (case Some y of Some y \<Rightarrow> st_bind (c y acc) (parse_rounds k (match_some h') c) | None \<Rightarrow> st_return acc)"
      by (auto intro: agree_bind)
  qed (auto intro: agree_return)
  then show ?case by (simp only: rounds_Suc min_Suc_Suc)
qed

lemma agree_loop:
  assumes "\<And>t. token_type t = TkEOF \<Longrightarrow> h t = None" "\<And>t. (h t = None) = (h' t = None)"
    and "\<And>t x y acc. h t = Some x \<Longrightarrow> h' t = Some y \<Longrightarrow> agree n (b x acc) (c y acc)"
  shows "agree (Suc n) (parse_loop (match_some h) b acc) (parse_loop (match_some h') c acc)"
  unfolding agree_def parse_loop_def
proof (intro allI)
  fix s
  have "agree (min (Suc (remaining_tokens s)) (Suc n)) (parse_rounds (Suc (remaining_tokens s)) (match_some h) b acc)
      (parse_rounds (Suc (remaining_tokens s)) (match_some h') c acc)"
    by (rule rounds_agree) (use assms in auto)
  then show "forward s (snd (parse_rounds (Suc (remaining_tokens s)) (match_some h) b acc s)) \<and>
      forward s (snd (parse_rounds (Suc (remaining_tokens s)) (match_some h') c acc s)) \<and>
      (remaining_tokens s < Suc n \<longrightarrow> ended s \<longrightarrow>
        parse_rounds (Suc (remaining_tokens s)) (match_some h) b acc s = parse_rounds (Suc (remaining_tokens s)) (match_some h') c acc s \<and>
        fst (parse_rounds (Suc (remaining_tokens s)) (match_some h) b acc s) \<noteq> Deadlock)"
    unfolding agree_def by (metis lessI min_less_iff_conj)
qed

lemma agree_while:
  assumes "t \<noteq> TkEOF" "\<And>acc. agree n (b acc) (c acc)"
  shows "agree (Suc n) (while_token t b acc) (while_token t c acc)"
  unfolding while_token_def by (rule agree_loop) (use assms in \<open>auto simp: the_token_def\<close>)

lemmas agree_loop_Suc = agree_loop [THEN agree_Suc]
lemmas agree_while_Suc = agree_while [THEN agree_Suc]

lemma agree_if: "(b \<Longrightarrow> agree n p q) \<Longrightarrow> (\<not> b \<Longrightarrow> agree n p' q') \<Longrightarrow> agree n (if b then p else p') (if b then q else q')"
  by simp

lemma agree_if_True: "agree n p q \<Longrightarrow> agree n (if True then p else p') (if True then q else q')"
  by simp

lemma agree_if_False: "agree n p' q' \<Longrightarrow> agree n (if False then p else p') (if False then q else q')"
  by simp

lemma agree_Some: "agree n (p x) (q y) \<Longrightarrow> agree n (case Some x of Some z \<Rightarrow> p z | None \<Rightarrow> u) (case Some y of Some z \<Rightarrow> q z | None \<Rightarrow> v)"
  by simp

lemma agree_None: "agree n u v \<Longrightarrow> agree n (case None of Some z \<Rightarrow> p z | None \<Rightarrow> u) (case None of Some z \<Rightarrow> q z | None \<Rightarrow> v)"
  by simp

lemma agree_option: "(\<And>z. r = Some z \<Longrightarrow> agree n (p z) (q z)) \<Longrightarrow> (r = None \<Longrightarrow> agree n u v) \<Longrightarrow>
    agree n (case r of Some z \<Rightarrow> p z | None \<Rightarrow> u) (case r of Some z \<Rightarrow> q z | None \<Rightarrow> v)"
  by (cases r) auto

lemma agree_prod: "(\<And>a b. r = (a, b) \<Longrightarrow> agree n (p a b) (q a b)) \<Longrightarrow> agree n (case r of (a, b) \<Rightarrow> p a b) (case r of (a, b) \<Rightarrow> q a b)"
  by (cases r) auto

lemmas eats_token_bind = eats_bind [OF eats_consume_token]
lemmas eats_name_bind = eats_bind [OF eats_consume_identifier]

text \<open>The rules in the order in which they are tried.\<close>

lemmas agree_steps = agree_if_True agree_if_False agree_Some agree_None match_token_bind match_some_bind eats_token_bind
  eats_name_bind agree_while agree_while_Suc agree_bind agree_return agree_fail agree_match_token agree_match_some
  agree_consume_token agree_consume_identifier agree_if agree_option agree_prod

lemma agree_comma_list: "agree n p q \<Longrightarrow> agree n (comma_list p) (comma_list q)"
  unfolding comma_list_def by (intro agree_steps) auto

lemma agree_when_token: "t \<noteq> TkEOF \<Longrightarrow> agree n p q \<Longrightarrow> agree (Suc n) (when_token t p) (when_token t q)"
  unfolding when_token_def by (intro agree_steps) auto

lemmas agree_when_token_Suc = agree_when_token [THEN agree_Suc]

lemma agree_names: "agree n parenthesized_names parenthesized_names" "agree n optional_names optional_names"
  unfolding parenthesized_names_def optional_names_def
  by (intro agree_steps agree_when_token_Suc agree_comma_list; simp)+

lemma agree_alias: "agree n parse_alias parse_alias"
  unfolding parse_alias_def by (intro agree_steps)

subsection \<open>Lemmas: the functions of the parser agree\<close>

text \<open>A parser that has consumed a token when it succeeds, and two that agree and both do.\<close>

definition consumes :: "'a parser \<Rightarrow> bool" where
  "consumes p \<longleftrightarrow> (\<forall>s. ended s \<longrightarrow> is_ok (fst (p s)) \<longrightarrow> remaining_tokens (snd (p s)) < remaining_tokens s)"

definition agree_consuming :: "nat \<Rightarrow> 'a parser \<Rightarrow> 'a parser \<Rightarrow> bool" where
  "agree_consuming n p q \<longleftrightarrow> agree n p q \<and> consumes p \<and> consumes q"

lemma consumes_bind: "eats p \<Longrightarrow> (\<And>x s. forward s (snd (f x s))) \<Longrightarrow> consumes (st_bind p f)"
  unfolding consumes_def
proof (intro allI impI)
  fix s
  assume p: "eats p" and f: "\<And>x s. forward s (snd (f x s))" and s: "ended s" "is_ok (fst (st_bind p f s))"
  then obtain x s1 where x: "p s = (Ok x, s1)"
    by (cases "p s" rule: prod.exhaust; cases "fst (p s)") (auto simp: st_bind_parts)
  have "is_ok (fst (p s))" by (simp add: x)
  then have "remaining_tokens s1 < remaining_tokens s" using p s(1) x unfolding eats_def by force
  then show "remaining_tokens (snd (st_bind p f s)) < remaining_tokens s"
    using forward_remaining [OF f [of s1 x]] by (simp add: st_bind_parts x)
qed

lemma consuming_token:
  assumes "t \<noteq> TkEOF" "\<And>x. agree n (f x) (g x)"
  shows "agree_consuming (Suc n) (st_bind (consume_token t) f) (st_bind (consume_token t) g)"
  using assms unfolding agree_consuming_def by (blast intro: eats_token_bind consumes_bind eats_consume_token agree_forward)

lemma consuming_agree: "agree_consuming n p q \<Longrightarrow> agree n p q"
  by (simp add: agree_consuming_def)

definition agree_parsers :: "nat \<Rightarrow> parsers \<Rightarrow> parsers \<Rightarrow> bool" where
  "agree_parsers n P Q \<longleftrightarrow> agree n (pr_expression P) (pr_expression Q) \<and> agree n (pr_additive P) (pr_additive Q) \<and>
     agree n (pr_not P) (pr_not Q) \<and> agree n (pr_unary P) (pr_unary Q) \<and> (\<forall>b. agree n (pr_select P b) (pr_select Q b)) \<and>
     agree n (pr_statement P) (pr_statement Q) \<and> consumes (pr_statement P) \<and> consumes (pr_statement Q)"

lemma agree_fields:
  assumes "agree_parsers n P Q"
  shows "agree n (pr_expression P) (pr_expression Q)" "agree n (pr_additive P) (pr_additive Q)" "agree n (pr_not P) (pr_not Q)"
    "agree n (pr_unary P) (pr_unary Q)" "agree n (pr_select P b) (pr_select Q b)" "agree n (pr_statement P) (pr_statement Q)"
  using assms by (auto simp: agree_parsers_def)

lemma agree_number: "agree n parse_number parse_number"
  unfolding parse_number_def by (intro agree_steps)

lemma agree_match_identifier: "agree n (match_identifier_token name) (match_identifier_token name)"
  unfolding match_identifier_token_def by (intro agree_steps)

lemma agree_data_type: "agree n parser_data_type parser_data_type"
proof -
  have named: "agree n (parse_named_type name) (parse_named_type name)" for n name
    unfolding parse_named_type_def parse_decimal_def parse_length_def usize_number_def
    by (intro agree_steps agree_number agree_match_identifier; simp)
  have "agree (Suc n) parser_data_type parser_data_type"
    unfolding parser_data_type_def by (intro agree_steps named; simp)
  then show ?thesis by (rule agree_Suc)
qed

lemma agree_by_list: "t \<noteq> TkEOF \<Longrightarrow> agree n p q \<Longrightarrow> agree (Suc n) (parse_by_list t p) (parse_by_list t q)"
  unfolding parse_by_list_def by (intro agree_steps agree_comma_list) auto

lemmas agree_parts = agree_number agree_match_identifier agree_data_type agree_names agree_alias agree_comma_list
  agree_when_token agree_when_token_Suc agree_by_list agree_by_list [THEN agree_Suc]

lemma agree_order_by: "agree n E F \<Longrightarrow> agree n (parse_order_by E) (parse_order_by F)"
  unfolding parse_order_by_def by (intro agree_steps) auto

lemma agree_window:
  assumes "agree_parsers n P Q"
  shows "agree n (parse_window_clause P) (parse_window_clause Q)" "agree n (parse_named_window P) (parse_named_window Q)"
proof -
  note fields = agree_fields [OF assms]
  have bound: "agree n (parse_window_frame_bound P) (parse_window_frame_bound Q)"
    unfolding parse_window_frame_bound_def by (intro agree_steps agree_parts fields)
  have frame: "agree n (parse_window_frame P) (parse_window_frame Q)"
    unfolding parse_window_frame_def by (intro agree_steps agree_parts bound)
  show clause: "agree n (parse_window_clause P) (parse_window_clause Q)"
    unfolding parse_window_clause_def parse_window_clause_without_parens_def
    by (intro agree_steps agree_parts frame agree_order_by fields; simp)
  show "agree n (parse_named_window P) (parse_named_window Q)"
    unfolding parse_named_window_def by (intro agree_steps agree_parts clause)
qed

lemma agree_call: "agree_parsers n P Q \<Longrightarrow> agree n (parse_call P name a) (parse_call Q name a)"
  unfolding parse_call_def parse_arguments_def
  by (intro agree_steps agree_parts agree_window agree_fields) auto

lemma agree_named:
  assumes "agree_parsers n P Q"
  shows "agree n (parse_named P name) (parse_named Q name)" "agree n (parse_window_named P name) (parse_window_named Q name)"
    "agree n (parse_aggregate_named P name) (parse_aggregate_named Q name)"
  unfolding parse_named_def parse_window_named_def parse_aggregate_named_def
  by (intro agree_steps agree_call assms)+

lemma agree_exists: "agree_parsers n P Q \<Longrightarrow> agree n (parse_exists_query P b) (parse_exists_query Q b)"
  unfolding parse_exists_query_def by (intro agree_steps agree_fields)

lemma agree_parenthesized: "agree_parsers n P Q \<Longrightarrow> agree n (parse_parenthesized P) (parse_parenthesized Q)"
  unfolding parse_parenthesized_def by (intro agree_steps agree_fields; simp)

lemma agree_cast: "agree_parsers n P Q \<Longrightarrow> agree n (parse_cast P) (parse_cast Q)"
  unfolding parse_cast_def by (intro agree_steps agree_parts agree_fields)

lemma agree_if_state:
  "agree n p q \<Longrightarrow> agree n p' q' \<Longrightarrow> agree n (\<lambda>s. if c s then p s else p' s) (\<lambda>s. if c s then q s else q' s)"
  unfolding agree_def by auto

lemma bind_if_state: "(\<lambda>s. st_bind (if c s then p else p') f s) = (\<lambda>s. if c s then st_bind p f s else st_bind p' f s)"
  by auto

lemma agree_case_expression: "agree_parsers n P Q \<Longrightarrow> agree n (parse_case_expression P) (parse_case_expression Q)"
  unfolding parse_case_expression_def parse_branches_def bind_if_state
  by (intro agree_if_state agree_steps agree_parts agree_fields; simp)

lemma agree_primary:
  assumes "agree_parsers n P Q"
  shows "agree (Suc n) (parse_primary_expression L P) (parse_primary_expression L Q)"
proof -
  have "r \<noteq> Deadlock" if "literal_token L t = Some r" for r t
    using that by (auto simp: literal_token_def number_value_def split: TokenType.splits if_splits option.splits)
  then show ?thesis
    unfolding parse_primary_expression_def
    by (intro agree_steps agree_Pair agree_cast agree_named agree_parenthesized agree_exists agree_case_expression assms)
      (auto simp: literal_token_def identifier_of_def window_function_name_def aggregate_name_def)
qed

lemma agree_unary: "agree_parsers n P Q \<Longrightarrow> agree (Suc n) (parse_unary_expression L P) (parse_unary_expression L Q)"
  unfolding parse_unary_expression_def by (intro agree_steps agree_primary agree_exists agree_fields; simp)

lemma agree_level:
  assumes "agree (Suc n) p q" "\<And>t. token_type t = TkEOF \<Longrightarrow> operator t = None" "\<And>t r. operator t = Some r \<Longrightarrow> agree n r r"
  shows "agree (Suc n) (parse_level operator p) (parse_level operator q)"
  unfolding parse_level_def
proof (rule agree_bind [OF assms(1)], rule agree_loop)
  fix t x y and left :: expr
  assume "operator t = Some x" "operator t = Some y"
  then show "agree n (st_bind x (\<lambda>op. st_bind p (\<lambda>right. st_return (BinaryOpE left op right))))
      (st_bind y (\<lambda>op. st_bind q (\<lambda>right. st_return (BinaryOpE left op right))))"
    using assms(3) by (auto intro!: agree_bind agree_return agree_Suc [OF assms(1)])
qed (use assms(2) in auto)

lemma agree_operator_in: "operator_in table t = Some r \<Longrightarrow> agree n r r"
  by (auto simp: operator_in_def agree_return)

lemma agree_expressions:
  assumes "agree_parsers n P Q"
  shows "agree (Suc n) (parse_additive_expression L P) (parse_additive_expression L Q)"
    "agree (Suc n) (parse_not_expression L P) (parse_not_expression L Q)"
    "agree (Suc n) (parse_expression L P) (parse_expression L Q)"
proof -
  have eof: "operator_in [(Sym ''Asterisk'', OpMultiply), (Sym ''Divide'', OpDivide)] t = None"
    "operator_in [(Sym ''Plus'', OpAdd), (Sym ''Minus'', OpSubtract), (Sym ''Concatenate'', OpConcatenate)] t = None"
    "operator_in [(Kw ''And'', OpAnd)] t = None" "operator_in [(Kw ''Or'', OpOr)] t = None" "comparison_operator t = None"
    if "token_type t = TkEOF" for t
    using that by (simp_all add: operator_in_def comparison_operator_def comparison_operators_def)
  have comparison: "agree n r r" if "comparison_operator t = Some r" for t r
    using that agree_operator_in by (auto simp: comparison_operator_def split: if_splits intro!: agree_steps)
  show additive: "agree (Suc n) (parse_additive_expression L P) (parse_additive_expression L Q)"
    unfolding parse_additive_expression_def parse_multiplicative_expression_def
    by (intro agree_level agree_unary assms agree_operator_in eof)
  have "agree (Suc n) (parse_comparison_expression L P) (parse_comparison_expression L Q)"
    unfolding parse_comparison_expression_def by (intro agree_level additive comparison eof)
  then show not: "agree (Suc n) (parse_not_expression L P) (parse_not_expression L Q)"
    unfolding parse_not_expression_def by (intro agree_steps agree_fields assms; simp)
  show "agree (Suc n) (parse_expression L P) (parse_expression L Q)"
    unfolding parse_expression_def parse_or_expression_def parse_and_expression_def
    by (intro agree_level not agree_operator_in eof)
qed

lemma agree_table_ref: "agree_parsers n P Q \<Longrightarrow> agree (Suc n) (parse_table_ref P) (parse_table_ref Q)"
  unfolding parse_table_ref_def by (intro agree_steps agree_parts agree_fields; simp)

lemma agree_joins:
  assumes "agree_parsers n P Q" "agree (Suc n) E F"
  shows "agree (Suc n) (parse_joins E P) (parse_joins F Q)"
  unfolding parse_joins_def
proof (rule agree_loop)
  fix t x y and joins :: "Statement JoinCondition list"
  assume "join_begin t = Some x" "join_begin t = Some y"
  moreover have "agree n r r" if "join_begin t = Some r" for r
    using that by (auto simp: join_begin_def join_word_def Let_def split: if_splits intro!: agree_steps)
  ultimately show "agree n (st_bind x (\<lambda>join_type. st_bind (parse_table_ref P) (\<lambda>table. st_bind (when_token (Kw ''On'') E) (\<lambda>condition.
        st_return (joins @ [JoinCondition table join_type condition])))))
      (st_bind y (\<lambda>join_type. st_bind (parse_table_ref Q) (\<lambda>table. st_bind (when_token (Kw ''On'') F) (\<lambda>condition.
        st_return (joins @ [JoinCondition table join_type condition])))))"
    using agree_Suc [OF agree_table_ref [OF assms(1)]] agree_Suc [OF assms(2)]
    by (auto intro!: agree_bind agree_return agree_when_token_Suc)
qed (auto simp: join_begin_def join_word_def Let_def)

lemma agree_column: "agree n E F \<Longrightarrow> agree n (parse_column E) (parse_column F)"
  unfolding parse_column_def by (intro agree_steps agree_parts)

lemma agree_when_identifier: "agree n p q \<Longrightarrow> agree n (when_identifier name p) (when_identifier name q)"
  unfolding when_identifier_def by (intro agree_steps agree_parts)

lemma agree_select_body:
  assumes P: "agree_parsers n P Q" and E: "agree (Suc n) E F"
  shows "agree (Suc n) (parse_select_body E P) (parse_select_body F Q)"
proof -
  have select_list: "agree (Suc n) (parse_select_list E) (parse_select_list F)"
    unfolding parse_select_list_def by (intro agree_steps agree_column E agree_Suc [OF E]; simp)
  have tables: "agree (Suc n) (parse_from P) (parse_from Q)"
    unfolding parse_from_def by (intro agree_steps agree_parts agree_Suc [OF agree_table_ref [OF P]]; simp)
  show ?thesis
    unfolding parse_select_body_def
    by (intro agree_bind agree_match_token agree_return select_list tables agree_joins P E agree_when_token agree_by_list agree_order_by
        agree_when_identifier agree_number agree_Suc [OF E]; simp)
qed

lemma agree_simple_select:
  assumes "agree_parsers n P Q" "agree (Suc n) E F"
  shows "agree (Suc n) (parse_simple_select E P) (parse_simple_select F Q)"
  unfolding parse_simple_select_def
  by (rule agree_bind [OF agree_select_body [OF assms]]) (intro agree_steps agree_parts agree_window assms(1); simp)

lemma agree_select_after_select:
  assumes "agree_parsers n P Q" "agree (Suc n) E F"
  shows "agree (Suc n) (parse_select_after_select E P b) (parse_select_after_select F Q b)"
proof -
  have sets: "agree (Suc n) (parse_set_operations E P q) (parse_set_operations F Q q)" for q
    unfolding parse_set_operations_def
    by (rule agree_loop)
      (auto simp: set_operator_def split: if_splits intro!: agree_bind agree_match_token agree_consume_token agree_return
        agree_Suc [OF agree_simple_select [OF assms]])
  show ?thesis
    unfolding parse_select_after_select_def
    by (intro agree_bind agree_select_body assms agree_if_state agree_return sets)
qed

lemma consuming_selects:
  assumes "agree_parsers n P Q" "agree (Suc n) E F"
  shows "agree_consuming (Suc n) (parse_select E P) (parse_select F Q)"
    "agree_consuming (Suc n) (parse_with_select E P) (parse_with_select F Q)"
proof -
  show select: "agree_consuming (Suc n) (parse_select E P) (parse_select F Q)"
    unfolding parse_select_def by (intro consuming_token agree_Suc [OF agree_select_after_select [OF assms]]) simp
  have cte: "agree n (parse_cte P) (parse_cte Q)"
    unfolding parse_cte_def by (intro agree_steps agree_parts agree_fields assms(1))
  have "set_with_clause w q \<noteq> Deadlock" for w q by (cases q) auto
  then show "agree_consuming (Suc n) (parse_with_select E P) (parse_with_select F Q)"
    unfolding parse_with_select_def
    by (intro consuming_token agree_steps agree_parts cte agree_Suc [OF consuming_agree [OF select]] agree_Pair) simp
qed

lemmas agree_selects = agree_Suc [OF consuming_agree [OF consuming_selects(1)]]

lemma consuming_row_statements:
  assumes P: "agree_parsers n P Q" and E: "agree n E F"
  shows "agree_consuming (Suc n) (parse_insert E P) (parse_insert F Q)" "agree_consuming (Suc n) (parse_update E P) (parse_update F Q)"
    "agree_consuming (Suc n) (parse_delete E P) (parse_delete F Q)"
  unfolding parse_insert_def parse_update_def parse_delete_def parse_values_def parse_assignment_def
  by (intro consuming_token agree_steps agree_parts E agree_Suc [OF agree_table_ref [OF P]]; simp)+

lemma agree_default: "agree n (parse_default L) (parse_default L)"
  by (auto simp: agree_def parse_default_def Let_def split: option.split)

lemma agree_column_def: "agree n E F \<Longrightarrow> agree n (parse_column_def L E) (parse_column_def L F)"
proof -
  assume E: "agree n E F"
  have "agree n (parse_loop (match_some (constraint_word L E)) (\<lambda>p cs. st_bind p (\<lambda>c. st_return (cs @ [c]))) [])
      (parse_loop (match_some (constraint_word L F)) (\<lambda>p cs. st_bind p (\<lambda>c. st_return (cs @ [c]))) [])"
  proof (rule agree_loop_Suc)
    fix t x y and cs :: "Statement ColumnConstraint list"
    assume "constraint_word L E t = Some x" "constraint_word L F t = Some y"
    then have "agree n x y"
      by (auto simp: constraint_word_def split: if_splits intro!: agree_steps agree_when_token_Suc agree_default E)
    then show "agree n (st_bind x (\<lambda>c. st_return (cs @ [c]))) (st_bind y (\<lambda>c. st_return (cs @ [c])))"
      by (intro agree_bind agree_return)
  qed (auto simp: constraint_word_def)
  then show ?thesis
    unfolding parse_column_def_def by (intro agree_bind agree_return agree_consume_identifier agree_data_type)
qed

lemma agree_table_constraint: "agree n E F \<Longrightarrow> agree n (parse_table_constraint E) (parse_table_constraint F)"
proof -
  assume E: "agree n E F"
  have words: "agree n x y" if "table_constraint_word E name t = Some x" "table_constraint_word F name t = Some y" for x y name t
    using that by (auto simp: table_constraint_word_def split: if_splits intro!: agree_steps agree_names E)
  have "agree (Suc n) (st_bind (match_some (table_constraint_word E name)) (\<lambda>r. case r of Some p \<Rightarrow> p | None \<Rightarrow> st_fail (ParseError ''Expected constraint type'')))
      (st_bind (match_some (table_constraint_word F name)) (\<lambda>r. case r of Some p \<Rightarrow> p | None \<Rightarrow> st_fail (ParseError ''Expected constraint type'')))" for name
  proof (rule match_rel_bind)
    show "agree n (case Some x of Some p \<Rightarrow> p | None \<Rightarrow> st_fail e) (case Some y of Some p \<Rightarrow> p | None \<Rightarrow> st_fail e)"
      if "table_constraint_word E name t = Some x" "table_constraint_word F name t = Some y" for t x y e
      using words [OF that] by simp
  qed (auto simp: table_constraint_word_def intro: agree_fail)
  note word = agree_Suc [OF this]
  show ?thesis
    unfolding parse_table_constraint_def
    by (rule agree_bind [OF agree_when_token_Suc [OF _ agree_consume_identifier] word]) simp
qed

lemma agree_create_table: "agree n E F \<Longrightarrow> agree n (parse_create_table L E) (parse_create_table L F)"
proof -
  assume E: "agree n E F"
  have element: "agree n (parse_table_element L E acc) (parse_table_element L F acc)" for acc
    unfolding parse_table_element_def [abs_def]
    by (intro agree_if_state agree_bind agree_return agree_table_constraint agree_column_def E)
  show ?thesis
    unfolding parse_create_table_def parse_if_not_exists_def
    by (intro agree_steps element; simp)
qed

lemma consuming_alter: "agree n E F \<Longrightarrow> agree_consuming (Suc n) (parse_alter L E) (parse_alter L F)"
  unfolding parse_alter_def parse_alter_operation_def
  by (intro consuming_token agree_steps agree_column_def agree_table_constraint) simp

lemma agree_views:
  assumes "agree_parsers n P Q" "agree (Suc n) E F"
  shows "agree n (parse_create_view E P) (parse_create_view F Q)"
    "agree n (parse_create_materialized_view E P) (parse_create_materialized_view F Q)"
    "agree n (parse_drop_view b) (parse_drop_view b)"
  unfolding parse_create_view_def parse_create_materialized_view_def parse_view_columns_def parse_with_data_def
    parse_drop_view_def parse_if_exists_def
  by (intro agree_steps agree_parts agree_selects [OF assms])+


lemma statement_rounds_Suc: "statement_rounds (Suc k) P stop statements =
    st_bind stop (\<lambda>r. case r of Some x \<Rightarrow> st_return (statements, x) | None \<Rightarrow> st_bind (match_token (Sym ''Semicolon'')) (\<lambda>semicolon.
      if semicolon then statement_rounds k P stop statements
      else st_bind (pr_statement P) (\<lambda>statement. statement_rounds k P stop (statements @ [statement]))))"
  by (rule ext) simp

lemma agree_statement_rounds:
  assumes "\<And>m. agree m stop stop" "agree n (pr_statement P) (pr_statement Q)" "consumes (pr_statement P)" "consumes (pr_statement Q)"
  shows "agree (min k n) (statement_rounds k P stop statements) (statement_rounds k Q stop statements)"
proof (induction k arbitrary: statements)
  case 0
  then show ?case by (simp add: agree_def)
next
  case (Suc k)
  have "agree (min (Suc k) n) (st_bind (pr_statement P) (\<lambda>statement. statement_rounds k P stop (statements @ [statement])))
      (st_bind (pr_statement Q) (\<lambda>statement. statement_rounds k Q stop (statements @ [statement])))"
    unfolding agree_def
  proof (intro allI conjI impI)
    fix s
    note IH = Suc [unfolded agree_def, rule_format]
    note p = assms(2) [unfolded agree_def, rule_format]
    show "forward s (snd (st_bind (pr_statement P) (\<lambda>statement. statement_rounds k P stop (statements @ [statement])) s))"
      "forward s (snd (st_bind (pr_statement Q) (\<lambda>statement. statement_rounds k Q stop (statements @ [statement])) s))"
      using IH p by (auto intro: forward_bind)
    assume s: "remaining_tokens s < min (Suc k) n" "ended s"
    then have "remaining_tokens s < n" by simp
    then have eq: "pr_statement P s = pr_statement Q s" "fst (pr_statement P s) \<noteq> Deadlock" using p s(2) by blast+
    have "remaining_tokens (snd (pr_statement P s)) < min k n" "ended (snd (pr_statement P s))" if "is_ok (fst (pr_statement P s))"
    proof -
      have "remaining_tokens (snd (pr_statement P s)) < remaining_tokens s" using assms(3) s(2) that by (simp add: consumes_def)
      then show "remaining_tokens (snd (pr_statement P s)) < min k n" using s(1) by simp
      show "ended (snd (pr_statement P s))" using p forward_ended s(2) by blast
    qed
    then show "st_bind (pr_statement P) (\<lambda>statement. statement_rounds k P stop (statements @ [statement])) s =
        st_bind (pr_statement Q) (\<lambda>statement. statement_rounds k Q stop (statements @ [statement])) s"
      "fst (st_bind (pr_statement P) (\<lambda>statement. statement_rounds k P stop (statements @ [statement])) s) \<noteq> Deadlock"
      using eq IH by (cases "pr_statement Q s" rule: prod.exhaust; cases "fst (pr_statement Q s)"; simp add: st_bind_parts)+
  qed
  note round = this
  have "agree (min (Suc k) n) (statement_rounds (Suc k) P stop statements) (statement_rounds (Suc k) Q stop statements)" if n: "n = Suc m" for m
  proof -
    have step: "agree (Suc (min k m)) (st_bind (pr_statement P) (\<lambda>statement. statement_rounds k P stop (statements @ [statement])))
      (st_bind (pr_statement Q) (\<lambda>statement. statement_rounds k Q stop (statements @ [statement])))"
      using round n by simp
    have rest: "agree (min k m) (statement_rounds k P stop statements) (statement_rounds k Q stop statements)"
      by (rule agree_mono [OF Suc]) (simp add: n min_def)
    have "agree (Suc (min k m)) (statement_rounds (Suc k) P stop statements) (statement_rounds (Suc k) Q stop statements)"
      unfolding statement_rounds_Suc
    proof (rule agree_bind [OF assms(1)])
      fix r
      show "agree (Suc (min k m)) (case r of Some x \<Rightarrow> st_return (statements, x) | None \<Rightarrow> st_bind (match_token (Sym ''Semicolon'')) (\<lambda>semicolon.
      if semicolon then statement_rounds k P stop statements
      else st_bind (pr_statement P) (\<lambda>statement. statement_rounds k P stop (statements @ [statement]))))
        (case r of Some x \<Rightarrow> st_return (statements, x) | None \<Rightarrow> st_bind (match_token (Sym ''Semicolon'')) (\<lambda>semicolon.
      if semicolon then statement_rounds k Q stop statements
      else st_bind (pr_statement Q) (\<lambda>statement. statement_rounds k Q stop (statements @ [statement]))))"
      proof (cases r)
        case None
        show ?thesis
          unfolding None option.case by (rule match_token_bind) (simp_all only: if_True if_False step rest, simp)
      qed (simp add: agree_return)
    qed
    then show ?thesis using n by simp
  qed
  moreover have "agree 0 (statement_rounds (Suc k) P stop statements) (statement_rounds (Suc k) Q stop statements)"
    unfolding statement_rounds_Suc
    by (intro agree_bind assms(1) agree_option agree_return agree_match_token agree_if agree_mono [OF Suc] agree_mono [OF assms(2)]) auto
  ultimately show ?case by (cases n) (auto simp del: statement_rounds.simps)
qed

lemma agree_statement_loop:
  assumes "\<And>m. agree m stop stop" "agree n (pr_statement P) (pr_statement Q)" "consumes (pr_statement P)" "consumes (pr_statement Q)"
  shows "agree n (statement_loop P stop) (statement_loop Q stop)"
  unfolding agree_def statement_loop_def
proof (intro allI)
  fix s
  have "agree (min (Suc (remaining_tokens s)) n) (statement_rounds (Suc (remaining_tokens s)) P stop [])
      (statement_rounds (Suc (remaining_tokens s)) Q stop [])"
    by (rule agree_statement_rounds) (use assms in auto)
  then show "forward s (snd (statement_rounds (Suc (remaining_tokens s)) P stop [] s)) \<and>
      forward s (snd (statement_rounds (Suc (remaining_tokens s)) Q stop [] s)) \<and>
      (remaining_tokens s < n \<longrightarrow> ended s \<longrightarrow>
        statement_rounds (Suc (remaining_tokens s)) P stop [] s = statement_rounds (Suc (remaining_tokens s)) Q stop [] s \<and>
        fst (statement_rounds (Suc (remaining_tokens s)) P stop [] s) \<noteq> Deadlock)"
    unfolding agree_def by (metis lessI min_less_iff_conj)
qed

lemma agree_stops: "agree n handler_stop handler_stop" "agree n block_stop block_stop"
proof -
  have "agree n (\<lambda>s. if parser_at_end s then (Ok x, s) else st_bind (match_token t) (\<lambda>b s. (Ok (f b s), s)) s)
      (\<lambda>s. if parser_at_end s then (Ok x, s) else st_bind (match_token t) (\<lambda>b s. (Ok (f b s), s)) s)" for x :: "'x option" and t f
    by (intro agree_if_state agree_bind agree_match_token) (simp_all add: agree_def)
  then show "agree n handler_stop handler_stop" "agree n block_stop block_stop"
    unfolding handler_stop_def [abs_def] block_stop_def [abs_def] by this+
qed

lemma agree_block:
  assumes P: "agree_parsers n P Q" and E: "agree n E F"
  shows "agree n (parse_body E P) (parse_body F Q)"
proof -
  have "consumes (pr_statement P)" "consumes (pr_statement Q)" using P by (simp_all add: agree_parsers_def)
  note loop = agree_statement_loop [OF _ agree_fields(6) [OF P] this]
  have handler: "agree n (parse_exception_handler P) (parse_exception_handler Q)"
    unfolding parse_exception_handler_def by (intro agree_steps agree_parts loop agree_stops; simp)
  show ?thesis
    unfolding parse_body_def parse_block_statement_def parse_declaration_def
    by (intro agree_steps agree_parts loop agree_stops handler E; simp)
qed

lemma agree_procedures:
  assumes P: "agree_parsers n P Q" and E: "agree n E F"
  shows "agree n (parse_create_procedure E P) (parse_create_procedure F Q)"
    "agree n (parse_create_function E P) (parse_create_function F Q)"
    "agree_consuming (Suc n) (parse_call_procedure E) (parse_call_procedure F)"
proof -
  have parameter: "agree n (parse_procedure_parameter E) (parse_procedure_parameter F)"
    unfolding parse_procedure_parameter_def parameter_mode_def Let_def by (intro agree_steps agree_parts E; simp)
  have args: "agree n (optional_arguments p) (optional_arguments q)" if "agree n p q" for p q :: "'x parser"
    unfolding optional_arguments_def by (intro agree_steps agree_parts that)
  have clauses: "agree n parse_or_replace parse_or_replace" "agree n parse_language parse_language" "agree n parse_security parse_security"
    "agree n parse_return_type parse_return_type"
    unfolding parse_or_replace_def parse_language_def parse_security_def parse_return_type_def
    by (intro agree_steps agree_parts)+
  show "agree n (parse_create_procedure E P) (parse_create_procedure F Q)"
    "agree n (parse_create_function E P) (parse_create_function F Q)"
    unfolding parse_create_procedure_def parse_create_function_def
    by (intro agree_steps args parameter clauses agree_block assms)+
  show "agree_consuming (Suc n) (parse_call_procedure E) (parse_call_procedure F)"
    unfolding parse_call_procedure_def by (intro consuming_token agree_steps agree_parts args E) simp
qed

lemma consumes_if: "consumes p \<Longrightarrow> consumes q \<Longrightarrow> consumes (\<lambda>s. if c s then p s else q s)"
  unfolding consumes_def by auto

lemma agree_consuming_if:
  "agree_consuming n p q \<Longrightarrow> agree_consuming n p' q' \<Longrightarrow>
   agree_consuming n (\<lambda>s. if c s then p s else p' s) (\<lambda>s. if c s then q s else q' s)"
  unfolding agree_consuming_def by (blast intro: agree_if_state consumes_if)

lemma consumes_after: "consumes p \<Longrightarrow> (\<And>x s. forward s (snd (f x s))) \<Longrightarrow> (\<And>s. forward s (snd (p s))) \<Longrightarrow> consumes (st_bind p f)"
  unfolding consumes_def
proof (intro allI impI)
  fix s
  assume p: "\<forall>s. ended s \<longrightarrow> is_ok (fst (p s)) \<longrightarrow> remaining_tokens (snd (p s)) < remaining_tokens s"
    and f: "\<And>x s. forward s (snd (f x s))" and s: "ended s" "is_ok (fst (st_bind p f s))"
  then obtain x s1 where x: "p s = (Ok x, s1)"
    by (cases "p s" rule: prod.exhaust; cases "fst (p s)") (auto simp: st_bind_parts)
  have "is_ok (fst (p s))" by (simp add: x)
  then have "remaining_tokens s1 < remaining_tokens s" using p s(1) x by force
  then show "remaining_tokens (snd (st_bind p f s)) < remaining_tokens s"
    using forward_remaining [OF f [of s1 x]] by (simp add: st_bind_parts x)
qed

lemma consuming_bind:
  assumes "agree_consuming n p q" "\<And>x. agree n (f x) (g x)"
  shows "agree_consuming n (st_bind p f) (st_bind q g)"
  using assms unfolding agree_consuming_def by (blast intro: agree_bind consumes_after agree_forward)

lemma consuming_fail: "agree_consuming n (\<lambda>s. (Err e, s)) (\<lambda>s. (Err e, s))"
  by (auto simp: agree_consuming_def agree_def consumes_def forward_def)

lemma agree_drop_named: "(\<And>b name. agree n (f b name) (g b name)) \<Longrightarrow> agree n (parse_drop_named f) (parse_drop_named g)"
  unfolding parse_drop_named_def parse_if_exists_def by (intro agree_steps)

lemma agree_drop: "agree_consuming (Suc n) parse_drop parse_drop"
proof -
  have view: "agree n (parse_drop_view b) (parse_drop_view b)" for b
    unfolding parse_drop_view_def parse_if_exists_def by (intro agree_steps)
  show ?thesis
    unfolding parse_drop_def by (intro consuming_token agree_steps agree_drop_named view) simp
qed

lemma agree_create:
  assumes P: "agree_parsers n P Q" and E: "agree (Suc n) E F"
  shows "agree_consuming (Suc n) (parse_create L E P) (parse_create L F Q)"
proof -
  have index: "agree n (parse_create_index b) (parse_create_index b)" for b
    unfolding parse_create_index_def parse_if_not_exists_def by (intro agree_steps agree_parts)
  show ?thesis
    unfolding parse_create_def
    by (intro consuming_token agree_steps agree_create_table index agree_views agree_procedures agree_Suc [OF E] P E) simp
qed

lemma agree_statement:
  assumes P: "agree_parsers n P Q" and E: "agree (Suc n) E F"
  shows "agree_consuming (Suc n) (parse_statement L E P) (parse_statement L F Q)"
proof -
  note E' = agree_Suc [OF E]
  have refresh: "agree_consuming (Suc n) parse_refresh_materialized_view parse_refresh_materialized_view"
    unfolding parse_refresh_materialized_view_def parse_with_data_def by (intro consuming_token agree_steps agree_parts) simp
  have perform: "agree_consuming (Suc n) (parse_perform_statement E) (parse_perform_statement F)"
    unfolding parse_perform_statement_def by (intro consuming_token agree_steps E') simp
  have word: "agree_consuming (Suc n) (parse_transaction_word t x) (parse_transaction_word t x)" if "t \<noteq> TkEOF" for t x
    unfolding parse_transaction_word_def using that by (intro consuming_token agree_steps agree_parts)
  show ?thesis
    unfolding parse_statement_def [abs_def] Let_def
    by (intro agree_consuming_if consuming_bind consuming_selects consuming_row_statements agree_create agree_drop consuming_alter
        agree_procedures(3) [OF P E'] refresh perform word consuming_fail agree_return P E E'; simp)
qed

lemma agree_parsers_step:
  assumes "agree_parsers n (parsers_at L a) (parsers_at L b)"
  shows "agree_parsers (Suc n) (parsers_at L (Suc a)) (parsers_at L (Suc b))"
proof -
  note es = agree_expressions [OF assms, of L]
  show ?thesis
    unfolding agree_parsers_def
    using es agree_unary [OF assms, of L] agree_select_after_select [OF assms es(3)] agree_statement [OF assms es(3), of L]
    by (simp add: Let_def agree_consuming_def)
qed

lemma agree_parsers_levels: "n \<le> a \<Longrightarrow> n \<le> b \<Longrightarrow> agree_parsers n (parsers_at L a) (parsers_at L b)"
proof (induction n arbitrary: a b)
  case 0
  have "agree_parsers 0 (parsers_at L a) (parsers_at L a)" for a
  proof (induction a)
    case 0
    then show ?case by (simp add: agree_parsers_def agree_def consumes_def forward_def)
  next
    case (Suc a)
    from agree_parsers_step [OF this] show ?case
      unfolding agree_parsers_def by (blast intro: agree_mono)
  qed
  then show ?case by (auto simp: agree_parsers_def agree_def)
next
  case (Suc n)
  then obtain a' b' where "a = Suc a'" "b = Suc b'" "n \<le> a'" "n \<le> b'" by (metis Suc_le_D Suc_le_mono)
  then show ?case using agree_parsers_step [OF Suc.IH] by blast
qed

text \<open>The loop over the statements of a text.\<close>

lemma parse_statements_agree:
  assumes "agree n p q" "consumes p"
  shows "remaining_tokens s < n \<Longrightarrow> ended s \<Longrightarrow> remaining_tokens s < a \<Longrightarrow> remaining_tokens s < b \<Longrightarrow>
    parse_statements a p statements s = parse_statements b q statements s \<and> fst (parse_statements a p statements s) \<noteq> Deadlock"
proof (induction a arbitrary: b s statements)
  case (Suc a)
  then obtain b' where b: "b = Suc b'" by (cases b) auto
  show ?case
  proof (cases "parser_at_end s")
    case False
    define m where "m = match_some (\<lambda>t. case token_type t of TkComment _ \<Rightarrow> Some () | _ \<Rightarrow> None)"
    have m: "fst (m s) = Ok None \<and> snd (m s) = s \<or> fst (m s) = Ok (Some ()) \<and> forward s (snd (m s)) \<and> remaining_tokens (snd (m s)) < remaining_tokens s"
      using False
      by (auto simp: m_def match_some_def forward_def advance_token_def remaining_tokens_def parser_at_end_def split: option.split)
    show ?thesis
    proof (cases "fst (m s) = Ok None")
      case True
      then have "m s = (Ok None, s)" using m by (cases "m s") auto
      then have step: "parse_statements (Suc k) r statements s = st_bind r (\<lambda>statement s1.
            if parser_at_end s1 then parse_statements k r (statements @ [statement]) s1
            else st_bind (consume_token (Sym ''Semicolon'')) (\<lambda>_. parse_statements k r (statements @ [statement])) s1) s" for k r
        using False by (simp add: m_def st_bind_parts)
      have eq: "p s = q s" "fst (p s) \<noteq> Deadlock" "forward s (snd (p s))"
        using assms(1) Suc.prems unfolding agree_def by blast+
      show ?thesis
      proof (cases "is_ok (fst (p s))")
        case True
        then obtain x where Ok: "fst (p s) = Ok x" by (cases "fst (p s)") auto
        obtain s1 where s1: "p s = (Ok x, s1)" using Ok by (cases "p s") auto
        then have less: "remaining_tokens s1 < remaining_tokens s" "ended s1"
          using assms(2) eq(3) Suc.prems(2) forward_ended by (auto simp: consumes_def)
        have semicolon: "fst (consume_token t s1) \<noteq> Deadlock" "forward s1 (snd (consume_token t s1))" for t
          using agree_consume_token [of _ t] less(2) unfolding agree_def by blast+
        have rest: "parse_statements a p acc s2 = parse_statements b' q acc s2 \<and> fst (parse_statements a p acc s2) \<noteq> Deadlock"
          if "forward s1 s2" for acc s2
          using Suc.IH [of s2 b' acc] less forward_remaining [OF that] forward_ended [OF that] Suc.prems b by auto
        show ?thesis
        proof (cases "parser_at_end s1")
          case True
          have "forward s1 s1" by (simp add: forward_def)
          from rest [OF this, of "statements @ [x]"] show ?thesis
            unfolding b step using s1 eq(1) True by (auto simp: st_bind_parts simp del: parse_statements.simps)
        next
          case False
          obtain r s2 where r: "consume_token (Sym ''Semicolon'') s1 = (r, s2)" by fastforce
          from rest [of s2 "statements @ [x]"] show ?thesis
            unfolding b step using s1 eq(1) False r semicolon [of "Sym ''Semicolon''"]
            by (cases r) (auto simp: st_bind_parts simp del: parse_statements.simps)
        qed
      next
        case False
        obtain r s2 where r: "q s = (r, s2)" by fastforce
        show ?thesis
          unfolding b step using eq r False by (cases r) (auto simp: st_bind_parts)
      qed
    next
      case comment: False
      then have c: "fst (m s) = Ok (Some ())" "forward s (snd (m s))" "remaining_tokens (snd (m s)) < remaining_tokens s" using m by auto
      then obtain s1 where "m s = (Ok (Some ()), s1)" by (cases "m s") auto
      then have step: "parse_statements (Suc k) r statements s = parse_statements k r statements (snd (m s))" for k r
        using False by (simp add: m_def st_bind_parts)
      show ?thesis
        unfolding b step using Suc.IH [of "snd (m s)" b' statements] c(3) forward_ended [OF c(2)] Suc.prems b by auto
    qed
  qed (simp add: b)
qed simp

lemma parse_tokens_agree:
  assumes "tokens \<noteq> []" "token_type (last tokens) = TkEOF" "length tokens < a" "length tokens < b"
  shows "parse_tokens L a tokens = parse_tokens L b tokens \<and> parse_tokens L a tokens \<noteq> Deadlock"
proof -
  have "agree_parsers (Suc (length tokens)) (parsers_at L a) (parsers_at L b)"
    by (rule agree_parsers_levels) (use assms in auto)
  then have "agree (Suc (length tokens)) (pr_statement (parsers_at L a)) (pr_statement (parsers_at L b))" "consumes (pr_statement (parsers_at L a))"
    by (simp_all add: agree_parsers_def)
  from parse_statements_agree [OF this, of "Parser_new tokens" a b "[]"] show ?thesis
    using assms by (auto simp: parse_tokens_def remaining_tokens_def Parser_new_def ended_def)
qed

lemma tokenize_ended: "tokenize s = Ok tokens \<Longrightarrow> tokens \<noteq> [] \<and> token_type (last tokens) = TkEOF"
  by (auto simp: tokenize_def push_token_def Token_new_def res_bind_Ok_iff)

lemma tokenize_returns: "tokenize (Lexer_new sql) \<noteq> Deadlock"
  using tokenize_loop_pass [of 0 sql "[]"] by (auto simp: tokenize_def Lexer_new_at)



end
