(* ===== verification/Expression_Roundtrip.thy ===== *)
theory Expression_Roundtrip
  imports Parser_Returns
begin

section \<open>Printing and parsing\<close>

text \<open>
  Expressions and statements are written as tokens, with parentheses where the precedence asks for them, and
  read back by the parser as what they were. The sources have no printer; the one here is the reference that
  says what the parser recognises. Left out are queries inside expressions, window functions and floats.
\<close>

subsection \<open>Definitions: the printer\<close>

text \<open>
  The levels of an expression: 0 a disjunction, 1 a conjunction, 2 a negation, 3 a comparison, 4 a sum,
  5 a product, 6 a sign, 7 all others.
\<close>

fun binary_level :: "BinaryOperator \<Rightarrow> nat" where
  "binary_level OpOr = 0"
| "binary_level OpAnd = 1"
| "binary_level OpAdd = 4"
| "binary_level OpSubtract = 4"
| "binary_level OpConcatenate = 4"
| "binary_level OpMultiply = 5"
| "binary_level OpDivide = 5"
| "binary_level _ = 3"

fun operator_words :: "BinaryOperator \<Rightarrow> TokenType list" where
  "operator_words OpOr = [Kw ''Or'']"
| "operator_words OpAnd = [Kw ''And'']"
| "operator_words OpAdd = [Sym ''Plus'']"
| "operator_words OpSubtract = [Sym ''Minus'']"
| "operator_words OpConcatenate = [Sym ''Concatenate'']"
| "operator_words OpMultiply = [Sym ''Asterisk'']"
| "operator_words OpDivide = [Sym ''Divide'']"
| "operator_words OpEquals = [Sym ''Equals'']"
| "operator_words OpNotEquals = [Sym ''NotEquals'']"
| "operator_words OpLessThan = [Sym ''LessThan'']"
| "operator_words OpLessThanOrEquals = [Sym ''LessThanOrEquals'']"
| "operator_words OpGreaterThan = [Sym ''GreaterThan'']"
| "operator_words OpGreaterThanOrEquals = [Sym ''GreaterThanOrEquals'']"
| "operator_words OpLike = [Kw ''Like'']"
| "operator_words OpILike = [Kw ''ILike'']"
| "operator_words OpIn = [Kw ''In'']"
| "operator_words OpIs = [Kw ''Is'']"
| "operator_words OpIsNot = [Kw ''Is'', Kw ''Not'']"

definition all_operators :: "BinaryOperator list" where
  "all_operators = [OpEquals, OpNotEquals, OpLessThan, OpLessThanOrEquals, OpGreaterThan, OpGreaterThanOrEquals, OpLike, OpILike,
     OpIn, OpAnd, OpOr, OpIs, OpIsNot, OpAdd, OpSubtract, OpMultiply, OpDivide, OpConcatenate]"

definition in_parentheses :: "TokenType list \<Rightarrow> TokenType list" where
  "in_parentheses ts = Sym ''LeftParen'' # ts @ [Sym ''RightParen'']"

fun print_value :: "Value \<Rightarrow> TokenType list" where
  "print_value (IntegerV n) = [TkNumber (show_i64 n)]"
| "print_value (StringV s) = [TkString s]"
| "print_value (BooleanV b) = [Kw (if b then ''True'' else ''False'')]"
| "print_value _ = [Kw ''Null'']"

fun printable_value :: "Value \<Rightarrow> bool" where
  "printable_value (IntegerV n) = True"
| "printable_value (StringV s) = True"
| "printable_value (BooleanV b) = True"
| "printable_value v = (v = NullV)"

text \<open>The aggregates have keywords of their own.\<close>

definition function_word :: "string \<Rightarrow> TokenType" where
  "function_word name = (case map_of [(''COUNT'', ''Count''), (''SUM'', ''Sum''), (''AVG'', ''Avg''), (''MIN'', ''Min''), (''MAX'', ''Max'')] name of
     Some n \<Rightarrow> Kw n | None \<Rightarrow> TkIdentifier name)"

definition print_list :: "('a \<Rightarrow> TokenType list) \<Rightarrow> 'a list \<Rightarrow> TokenType list" where
  "print_list pr xs = (case xs of [] \<Rightarrow> [] | y # ys \<Rightarrow> pr y @ concat (map (\<lambda>y. Sym ''Comma'' # pr y) ys))"

text \<open>The words of a data type; a length of zero digits is written as any other.\<close>

fun print_kind :: "DataTypeKind \<Rightarrow> TokenType list" where
  "print_kind IntegerT = [TkIdentifier ''INTEGER'']"
| "print_kind BigIntT = [TkIdentifier ''BIGINT'']"
| "print_kind SmallIntT = [TkIdentifier ''SMALLINT'']"
| "print_kind RealT = [TkIdentifier ''REAL'']"
| "print_kind DoublePrecisionT = [TkIdentifier ''DOUBLE'', TkIdentifier ''PRECISION'']"
| "print_kind (DecimalT p s) = [TkIdentifier ''DECIMAL'', Sym ''LeftParen'', TkNumber (show_i64 p), Sym ''Comma'',
     TkNumber (show_i64 s), Sym ''RightParen'']"
| "print_kind (VarcharT n) = [TkIdentifier ''VARCHAR'', Sym ''LeftParen'', TkNumber (show_i64 n), Sym ''RightParen'']"
| "print_kind (CharT n) = [TkIdentifier ''CHAR'', Sym ''LeftParen'', TkNumber (show_i64 n), Sym ''RightParen'']"
| "print_kind TextT = [TkIdentifier ''TEXT'']"
| "print_kind BooleanT = [TkIdentifier ''BOOLEAN'']"
| "print_kind DateT = [TkIdentifier ''DATE'']"
| "print_kind TimeT = [TkIdentifier ''TIME'']"
| "print_kind TimestampT = [TkIdentifier ''TIMESTAMP'']"
| "print_kind IntervalT = [TkIdentifier ''INTERVAL'']"
| "print_kind UuidT = [TkIdentifier ''UUID'']"
| "print_kind ByteaT = [TkIdentifier ''BYTEA'']"
| "print_kind SerialT = [Kw ''Serial'']"
| "print_kind BigSerialT = [Kw ''BigSerial'']"
| "print_kind (ArrayT k) = print_kind k @ [Sym ''LeftBracket'', Sym ''RightBracket'']"
| "print_kind _ = []"

text \<open>What stands in brackets behind the kind of the elements.\<close>

fun array_depth :: "DataTypeKind \<Rightarrow> nat" where
  "array_depth (ArrayT k) = Suc (array_depth k)"
| "array_depth _ = 0"

fun element_kind :: "DataTypeKind \<Rightarrow> DataTypeKind" where
  "element_kind (ArrayT k) = element_kind k"
| "element_kind k = k"

definition printable_kind :: "DataTypeKind \<Rightarrow> bool" where
  "printable_kind k \<longleftrightarrow> print_kind (element_kind k) \<noteq> [] \<and> (array_depth k = 0 \<or> element_kind k \<notin> {SerialT, BigSerialT})"

text \<open>
  An expression at a level: behind an operator of the level before it. Only what is between the sums can
  stand in parentheses, because the parser reads a sum there; a negation at a place of a sum is the unary one.
\<close>

fun print_expr :: "nat \<Rightarrow> expr \<Rightarrow> TokenType list"
  and print_exprs :: "nat \<Rightarrow> expr list \<Rightarrow> TokenType list"
  and print_branches :: "Statement CaseBranch list \<Rightarrow> TokenType list" where
  "print_expr k (ColumnE table name) = (case table of Some t \<Rightarrow> [TkIdentifier t, Sym ''Dot''] | None \<Rightarrow> []) @ [TkIdentifier name]"
| "print_expr k (ValueE v) = print_value v"
| "print_expr k (FunctionE name args dist) =
     function_word name # in_parentheses ((if dist then [Kw ''Distinct''] else []) @ print_exprs 0 args)"
| "print_expr k (BinaryOpE l op r) =
     (let ts = print_expr (binary_level op) l @ operator_words op @ print_expr (Suc (binary_level op)) r
      in if binary_level op < k then in_parentheses ts else ts)"
| "print_expr k (UnaryOpE op e) =
     (if op = OpMinus then Sym ''Minus'' # print_expr 6 e
      else if op = OpPlus then Sym ''Plus'' # print_expr 6 e
      else if k \<le> 2 then Kw ''Not'' # print_expr 2 e
      else in_parentheses (Kw ''Not'' # print_expr 6 e))"
| "print_expr k (CastE e t) = Kw ''Cast'' # in_parentheses (print_expr 0 e @ Kw ''As'' # print_kind (dt_kind t))"
| "print_expr k (ListE es) = in_parentheses (print_exprs 4 es)"
| "print_expr k (CaseE base branches else_result) =
     Kw ''Case'' # (case base of Some e \<Rightarrow> print_expr 0 e | None \<Rightarrow> []) @ print_branches branches @
       (case else_result of Some e \<Rightarrow> Kw ''Else'' # print_expr 0 e | None \<Rightarrow> []) @ [Kw ''End'']"
| "print_expr k StarE = [Sym ''Asterisk'']"
| "print_expr k _ = []"
| "print_exprs k [] = []"
| "print_exprs k (e # es) = print_expr k e @ (if es = [] then [] else Sym ''Comma'' # print_exprs k es)"
| "print_branches [] = []"
| "print_branches (CaseBranch c r # bs) = Kw ''When'' # print_expr 0 c @ Kw ''Then'' # print_expr 0 r @ print_branches bs"

fun printable :: "nat \<Rightarrow> expr \<Rightarrow> bool"
  and printables :: "nat \<Rightarrow> expr list \<Rightarrow> bool"
  and printable_branches :: "Statement CaseBranch list \<Rightarrow> bool" where
  "printable k (ColumnE table name) = True"
| "printable k (ValueE v) = printable_value v"
| "printable k (FunctionE name args dist) =
     (printables 0 args \<and> (dist \<longrightarrow> function_word name \<noteq> TkIdentifier name \<and> args \<noteq> []))"
| "printable k (BinaryOpE l op r) =
     (printable (binary_level op) l \<and> printable (Suc (binary_level op)) r \<and> (binary_level op < k \<longrightarrow> 4 \<le> binary_level op))"
| "printable k (UnaryOpE op e) = (op \<in> {OpMinus, OpPlus, OpNot} \<and> printable (if op = OpNot \<and> k \<le> 2 then 2 else 6) e)"
| "printable k (CastE e t) = (printable 0 e \<and> t = DataType_new (dt_kind t) \<and> printable_kind (dt_kind t))"
| "printable k (ListE es) = (2 \<le> length es \<and> printables 4 es)"
| "printable k (CaseE base branches else_result) =
     ((case base of Some e \<Rightarrow> printable 0 e | None \<Rightarrow> branches \<noteq> []) \<and> printable_branches branches \<and>
      (case else_result of Some e \<Rightarrow> printable 0 e | None \<Rightarrow> True))"
| "printable k StarE = True"
| "printable k _ = False"
| "printables k [] = True"
| "printables k (e # es) = (printable k e \<and> printables k es)"
| "printable_branches [] = True"
| "printable_branches (CaseBranch c r # bs) = (printable 0 c \<and> printable 0 r \<and> printable_branches bs)"

text \<open>A token that can stand behind an expression of a level: no operator of the level or of a higher one.\<close>

definition stops :: "nat \<Rightarrow> TokenType \<Rightarrow> bool" where
  "stops k t \<longleftrightarrow> t \<notin> {Sym ''Dot'', Sym ''LeftParen'', Kw ''Over''} \<and>
     list_all (\<lambda>op. k \<le> binary_level op \<longrightarrow> t \<noteq> hd (operator_words op)) all_operators"

text \<open>A token with which an expression begins.\<close>

definition starts :: "nat \<Rightarrow> TokenType \<Rightarrow> bool" where
  "starts k t \<longleftrightarrow> t \<notin> {TkEOF, Kw ''Select'', Kw ''When'', Kw ''Distinct'', Sym ''RightParen'', Kw ''Else'', Kw ''End'', Kw ''Exists''} \<and>
     (2 < k \<longrightarrow> t \<noteq> Kw ''Not'')"

subsection \<open>Lemmas: what a parser reads\<close>

text \<open>
  The types of the tokens ahead; a number and a string have their text as value. A parser reads some tokens,
  with a result, when it does so before every token that is allowed behind them.
\<close>

definition ahead :: "Parser \<Rightarrow> TokenType list \<Rightarrow> bool" where
  "ahead s ts \<longleftrightarrow> map token_type (drop (ps_current s) (ps_tokens s)) = ts \<and> list_all own_value (ps_tokens s) \<and>
     ps_tokens s \<noteq> [] \<and> token_type (last (ps_tokens s)) = TkEOF"

definition reads :: "'a parser \<Rightarrow> TokenType list \<Rightarrow> 'a \<Rightarrow> (TokenType \<Rightarrow> bool) \<Rightarrow> bool" where
  "reads p ts x R \<longleftrightarrow> (\<forall>s t rest. ahead s (ts @ t # rest) \<longrightarrow> R t \<longrightarrow> (\<exists>s'. p s = (Ok x, s') \<and> ahead s' (t # rest)))"

definition leads :: "TokenType list \<Rightarrow> (TokenType \<Rightarrow> bool) \<Rightarrow> (TokenType \<Rightarrow> bool) \<Rightarrow> bool" where
  "leads ts R Q \<longleftrightarrow> (case ts of [] \<Rightarrow> \<forall>t. R t \<longrightarrow> Q t | t # _ \<Rightarrow> Q t)"

lemma leads_simps [simp]: "leads [] R Q \<longleftrightarrow> (\<forall>t. R t \<longrightarrow> Q t)" "leads (t # ts) R Q \<longleftrightarrow> Q t"
  by (simp_all add: leads_def)

lemma leads_append: "ts \<noteq> [] \<Longrightarrow> Q (hd ts) \<Longrightarrow> leads (ts @ us) R Q"
  by (cases ts) auto

lemma ahead_nonempty: "ahead s ts \<Longrightarrow> ps_tokens s \<noteq> []"
  by (simp add: ahead_def)

lemma ahead_current:
  assumes "ahead s (t # ts)"
  shows "ps_current s < length (ps_tokens s)" "token_type (ps_tokens s ! ps_current s) = t"
    "map token_type (drop (Suc (ps_current s)) (ps_tokens s)) = ts"
proof -
  have "drop (ps_current s) (ps_tokens s) \<noteq> []" using assms by (auto simp: ahead_def)
  then show l: "ps_current s < length (ps_tokens s)" by simp
  show "token_type (ps_tokens s ! ps_current s) = t" "map token_type (drop (Suc (ps_current s)) (ps_tokens s)) = ts"
    using assms l by (simp_all add: ahead_def Cons_nth_drop_Suc [symmetric])
qed

lemma ahead_peek:
  assumes "ahead s (t # ts)"
  shows "token_type (peek_token s) = t" "own_value (peek_token s)"
proof -
  note l = ahead_current [OF assms]
  have last: "token_type (ps_tokens s ! (length (ps_tokens s) - 1)) = TkEOF"
    using assms by (auto simp: ahead_def last_conv_nth)
  show "token_type (peek_token s) = t" using last l by (auto simp: peek_token_def parser_at_end_def)
  have "own_value (ps_tokens s ! i)" if "i < length (ps_tokens s)" for i
    using assms that by (simp add: ahead_def list_all_length)
  then show "own_value (peek_token s)" using l by (simp add: peek_token_def)
qed

lemma ahead_advance: "ahead s (t # ts) \<Longrightarrow> t \<noteq> TkEOF \<Longrightarrow> ahead (advance_token s) ts"
  using ahead_current [of s t ts] by (auto simp: ahead_def advance_token_def parser_at_end_def)

lemma reads_yes:
  assumes "t \<noteq> TkEOF" "reads (f True) us y R"
  shows "reads (st_bind (match_token t) f) (t # us) y R"
  unfolding reads_def
proof (intro allI impI)
  fix s u rest
  assume s: "ahead s ((t # us) @ u # rest)" and u: "R u"
  then have "ahead (advance_token s) (us @ u # rest)" "match_token t s = (Ok True, advance_token s)"
    using assms(1) ahead_advance ahead_peek(1) by (auto simp: match_token_def)
  then show "\<exists>s'. st_bind (match_token t) f s = (Ok y, s') \<and> ahead s' (u # rest)"
    using assms(2) u by (auto simp: reads_def st_bind_parts)
qed

lemma reads_no:
  assumes "leads us R (\<lambda>u. u \<noteq> t)" "reads (f False) us y R"
  shows "reads (st_bind (match_token t) f) us y R"
  unfolding reads_def
proof (intro allI impI)
  fix s u rest
  assume s: "ahead s (us @ u # rest)" and u: "R u"
  then have "token_type (peek_token s) \<noteq> t"
    using assms(1) ahead_peek(1) [of s] by (cases us) auto
  then have "match_token t s = (Ok False, s)" by (simp add: match_token_def)
  then show "\<exists>s'. st_bind (match_token t) f s = (Ok y, s') \<and> ahead s' (u # rest)"
    using assms(2) s u by (auto simp: reads_def st_bind_parts)
qed

lemma reads_some:
  assumes "t \<noteq> TkEOF" "\<And>u. token_type u = t \<Longrightarrow> own_value u \<Longrightarrow> h u = Some z" "reads (f (Some z)) us y R"
  shows "reads (st_bind (match_some h) f) (t # us) y R"
  unfolding reads_def
proof (intro allI impI)
  fix s u rest
  assume s: "ahead s ((t # us) @ u # rest)" and u: "R u"
  then have "ahead (advance_token s) (us @ u # rest)" "match_some h s = (Ok (Some z), advance_token s)"
    using assms(1,2) ahead_advance ahead_peek by (auto simp: match_some_def)
  then show "\<exists>s'. st_bind (match_some h) f s = (Ok y, s') \<and> ahead s' (u # rest)"
    using assms(3) u by (auto simp: reads_def st_bind_parts)
qed

lemma reads_none:
  assumes "leads us R (\<lambda>t. \<forall>u. token_type u = t \<longrightarrow> h u = None)" "reads (f None) us y R"
  shows "reads (st_bind (match_some h) f) us y R"
  unfolding reads_def
proof (intro allI impI)
  fix s u rest
  assume s: "ahead s (us @ u # rest)" and u: "R u"
  then have "h (peek_token s) = None"
    using assms(1) ahead_peek(1) [of s] by (cases us) auto
  then have "match_some h s = (Ok None, s)" by (simp add: match_some_def)
  then show "\<exists>s'. st_bind (match_some h) f s = (Ok y, s') \<and> ahead s' (u # rest)"
    using assms(2) s u by (auto simp: reads_def st_bind_parts)
qed

lemma reads_return: "reads (st_return x) [] x R"
  by (simp add: reads_def)

lemma reads_bind:
  assumes "reads p ts x Q" "reads (f x) us y R" "leads us R Q"
  shows "reads (st_bind p f) (ts @ us) y R"
  unfolding reads_def
proof (intro allI impI)
  fix s t rest
  assume s: "ahead s ((ts @ us) @ t # rest)" and t: "R t"
  obtain s' where s': "p s = (Ok x, s')" "ahead s' (us @ t # rest)"
    using assms(1,3) s t by (cases us) (fastforce simp: reads_def)+
  then show "\<exists>s'. st_bind p f s = (Ok y, s') \<and> ahead s' (t # rest)"
    using assms(2) t by (auto simp: reads_def st_bind_parts)
qed

lemma reads_bind_last: "reads p ts x R \<Longrightarrow> reads (f x) [] y R \<Longrightarrow> reads (st_bind p f) ts y R"
  using reads_bind [of p ts x R f "[]" y R] by simp

lemma reads_less: "reads p ts x R \<Longrightarrow> (\<And>t. Q t \<Longrightarrow> R t) \<Longrightarrow> reads p ts x Q"
  by (auto simp: reads_def)

lemma reads_consume: "t \<noteq> TkEOF \<Longrightarrow> reads (f ()) us y R \<Longrightarrow> reads (st_bind (consume_token t) f) (t # us) y R"
  unfolding consume_token_def bind_assoc by (rule reads_yes) (simp_all add: bind_return)

lemma reads_identifier:
  "reads (f name) us y R \<Longrightarrow> reads (st_bind consume_identifier f) (TkIdentifier name # us) y R"
  unfolding consume_identifier_def bind_assoc
  by (rule reads_some [of _ _ name]) (simp_all add: bind_return identifier_text_def)

lemma reads_run: "reads p ts x R \<Longrightarrow> ahead s (ts @ t # rest) \<Longrightarrow> R t \<Longrightarrow> \<exists>s'. p s = (Ok x, s') \<and> ahead s' (t # rest)"
  by (auto simp: reads_def)

lemma reads_token_bind:
  "t \<noteq> TkEOF \<Longrightarrow> reads (f x) us y R \<Longrightarrow> (\<And>u. token_type u = t \<Longrightarrow> own_value u \<Longrightarrow> h u = Some x) \<Longrightarrow>
   reads (st_bind (match_some h) (\<lambda>r. case r of Some z \<Rightarrow> f z | None \<Rightarrow> g)) (t # us) y R"
  by (rule reads_some [of t h x]) simp_all

lemma reads_no_token_bind:
  "leads us R (\<lambda>t. \<forall>u. token_type u = t \<longrightarrow> h u = None) \<Longrightarrow> reads g us y R \<Longrightarrow>
   reads (st_bind (match_some h) (\<lambda>r. case r of Some z \<Rightarrow> f z | None \<Rightarrow> g)) us y R"
  by (rule reads_none) simp_all

lemma reads_if_yes: "t \<noteq> TkEOF \<Longrightarrow> reads p us y R \<Longrightarrow> reads (st_bind (match_token t) (\<lambda>b. if b then p else q)) (t # us) y R"
  by (rule reads_yes) simp_all

lemma reads_if_no: "leads us R (\<lambda>u. u \<noteq> t) \<Longrightarrow> reads q us y R \<Longrightarrow> reads (st_bind (match_token t) (\<lambda>b. if b then p else q)) us y R"
  by (rule reads_no) simp_all

lemma leads_hd: "ts \<noteq> [] \<Longrightarrow> Q (hd ts) \<Longrightarrow> leads ts R Q"
  by (cases ts) auto

subsection \<open>Lemmas: levels of operators\<close>

definition level_parser :: "expr_lib \<Rightarrow> parsers \<Rightarrow> nat \<Rightarrow> expr parser" where
  "level_parser L P k =
     (if k = 0 then parse_or_expression L P else if k = 1 then parse_and_expression L P else if k = 2 then parse_not_expression L P
      else if k = 3 then parse_comparison_expression L P else if k = 4 then parse_additive_expression L P
      else if k = 5 then parse_multiplicative_expression L P else if k = 6 then parse_unary_expression L P
      else parse_primary_expression L P)"

definition level_operator :: "nat \<Rightarrow> Token \<Rightarrow> BinaryOperator parser option" where
  "level_operator k =
     (if k = 0 then operator_in [(Kw ''Or'', OpOr)] else if k = 1 then operator_in [(Kw ''And'', OpAnd)]
      else if k = 3 then comparison_operator
      else if k = 4 then operator_in [(Sym ''Plus'', OpAdd), (Sym ''Minus'', OpSubtract), (Sym ''Concatenate'', OpConcatenate)]
      else operator_in [(Sym ''Asterisk'', OpMultiply), (Sym ''Divide'', OpDivide)])"

definition binary_levels :: "nat list" where
  "binary_levels = [0, 1, 3, 4, 5]"

lemma level_parser_binary:
  "k \<in> set binary_levels \<Longrightarrow> level_parser L P k = parse_level (level_operator k) (level_parser L P (Suc k))"
  by (auto simp: binary_levels_def level_parser_def level_operator_def parse_or_expression_def parse_and_expression_def
      parse_comparison_expression_def parse_additive_expression_def parse_multiplicative_expression_def)

text \<open>A chain of operands of one level, joined by its operators.\<close>

inductive chain :: "(Token \<Rightarrow> BinaryOperator parser option) \<Rightarrow> expr parser \<Rightarrow> (TokenType \<Rightarrow> bool) \<Rightarrow> TokenType list \<Rightarrow> expr \<Rightarrow> bool"
  for g operand R where
  one: "reads operand ts x R \<Longrightarrow> chain g operand R ts x"
| more: "chain g operand R ts l \<Longrightarrow> w \<noteq> TkEOF \<Longrightarrow> R w \<Longrightarrow> (\<And>u. token_type u = w \<Longrightarrow> g u = Some p) \<Longrightarrow> reads p ws op Q \<Longrightarrow>
    us \<noteq> [] \<Longrightarrow> Q (hd us) \<Longrightarrow> reads operand us r R \<Longrightarrow> chain g operand R (ts @ w # ws @ us) (BinaryOpE l op r)"

abbreviation chain_body :: "expr parser \<Rightarrow> BinaryOperator parser \<Rightarrow> expr \<Rightarrow> expr parser" where
  "chain_body operand p left \<equiv> st_bind p (\<lambda>op. st_bind operand (\<lambda>right. st_return (BinaryOpE left op right)))"

lemma ahead_remaining: "ahead s ts \<Longrightarrow> remaining_tokens s = length ts"
  by (auto simp: ahead_def remaining_tokens_def)

lemma chain_runs:
  "chain g operand R ts e \<Longrightarrow> ahead s (ts @ t # rest) \<Longrightarrow> R t \<Longrightarrow>
   \<exists>x s0 s' d. operand s = (Ok x, s0) \<and> ahead s' (t # rest) \<and> remaining_tokens s' + d \<le> remaining_tokens s0 \<and>
     (\<forall>k. parse_rounds (k + d) (match_some g) (chain_body operand) x s0 = parse_rounds k (match_some g) (chain_body operand) e s')"
proof (induction arbitrary: t rest rule: chain.induct)
  case (one ts x)
  then obtain s' where "operand s = (Ok x, s')" "ahead s' (t # rest)" unfolding reads_def by blast
  then show ?case by (metis add_0_right order_refl)
next
  case (more ts l w p ws op Q us r)
  have before: "ahead s (ts @ w # ws @ us @ t # rest)" using more.prems(1) by simp
  from more.IH [OF before more.hyps(3)] obtain x s0 s1 d where 1: "operand s = (Ok x, s0)" "ahead s1 (w # ws @ us @ t # rest)" "remaining_tokens s1 + d \<le> remaining_tokens s0"
    "\<And>k. parse_rounds (k + d) (match_some g) (chain_body operand) x s0 = parse_rounds k (match_some g) (chain_body operand) l s1"
    by blast
  have 2: "match_some g s1 = (Ok (Some p), advance_token s1)" "ahead (advance_token s1) (ws @ us @ t # rest)"
    using ahead_peek(1) [OF 1(2)] ahead_advance [OF 1(2) more.hyps(2)] more.hyps(4) by (auto simp: match_some_def)
  obtain s2 where 3: "p (advance_token s1) = (Ok op, s2)" "ahead s2 (us @ t # rest)"
  proof -
    from more.hyps(6) obtain v vs where us: "us = v # vs" by (cases us) auto
    show thesis using reads_run [OF more.hyps(5), of "advance_token s1" v] 2(2) more.hyps(7) that us by auto
  qed
  obtain s3 where 4: "operand s2 = (Ok r, s3)" "ahead s3 (t # rest)"
    using reads_run [OF more.hyps(8) 3(2) more.prems(2)] by blast
  have "parse_rounds (k + Suc d) (match_some g) (chain_body operand) x s0 =
      parse_rounds k (match_some g) (chain_body operand) (BinaryOpE l op r) s3" for k
    using 1(4) [of "Suc k"] 2(1) 3(1) 4(1) by (simp add: st_bind_parts)
  moreover have "remaining_tokens s3 + Suc d \<le> remaining_tokens s0"
    using 1(3) ahead_remaining [OF 1(2)] ahead_remaining [OF 4(2)] by simp
  ultimately show ?case using 1(1) 4(2) by blast
qed

lemma chain_reads:
  assumes "chain g operand R ts e"
  shows "reads (parse_level g operand) ts e (\<lambda>t. R t \<and> (\<forall>u. token_type u = t \<longrightarrow> g u = None))"
  unfolding reads_def
proof (intro allI impI)
  fix s t rest
  assume s: "ahead s (ts @ t # rest)" and t: "R t \<and> (\<forall>u. token_type u = t \<longrightarrow> g u = None)"
  obtain x s0 s' d where 1: "operand s = (Ok x, s0)" "ahead s' (t # rest)" "remaining_tokens s' + d \<le> remaining_tokens s0"
    "\<And>k. parse_rounds (k + d) (match_some g) (chain_body operand) x s0 = parse_rounds k (match_some g) (chain_body operand) e s'"
    using chain_runs [OF assms s] t by blast
  define k where "k = remaining_tokens s0 - d"
  have k: "Suc (remaining_tokens s0) = Suc k + d" using 1(3) by (simp add: k_def)
  have "match_some g s' = (Ok None, s')"
    using ahead_peek(1) [OF 1(2)] t by (simp add: match_some_def)
  then have "parse_rounds (Suc k) (match_some g) (chain_body operand) e s' = (Ok e, s')"
    by (simp add: st_bind_parts)
  then have "parse_level g operand s = (Ok e, s')"
    unfolding parse_level_def using 1(1) 1(4) [of "Suc k"] k by (simp add: st_bind_parts parse_loop_def del: parse_rounds.simps)
  then show "\<exists>s'. parse_level g operand s = (Ok e, s') \<and> ahead s' (t # rest)" using 1(2) by blast
qed

subsection \<open>Lemmas: loops and lists\<close>

lemma reads_rounds:
  assumes "\<And>y. y \<in> set ys \<Longrightarrow> w y \<noteq> TkEOF \<and> R (w y)" "\<And>y u. y \<in> set ys \<Longrightarrow> token_type u = w y \<Longrightarrow> own_value u \<Longrightarrow> g u = Some (z y)"
    "\<And>y a. y \<in> set ys \<Longrightarrow> reads (body (z y) a) (pr y) (upd a y) R"
  shows "length ys < k \<Longrightarrow>
    reads (parse_rounds k (match_some g) body a) (concat (map (\<lambda>y. w y # pr y) ys)) (foldl upd a ys) (\<lambda>t. R t \<and> (\<forall>u. token_type u = t \<longrightarrow> g u = None))"
  using assms
proof (induction ys arbitrary: k a)
  case Nil
  then obtain k' where k: "k = Suc k'" by (cases k) auto
  have "reads (st_bind (match_some g) (\<lambda>r. case r of Some y \<Rightarrow> st_bind (body y a) (parse_rounds k' (match_some g) body) | None \<Rightarrow> st_return a))
      [] a (\<lambda>t. R t \<and> (\<forall>u. token_type u = t \<longrightarrow> g u = None))"
    by (rule reads_none) (auto simp: reads_return)
  then show ?case by (simp add: k reads_def)
next
  case (Cons y ys)
  then obtain k' where k: "k = Suc k'" "length ys < k'" by (cases k) auto
  define us where "us = concat (map (\<lambda>y. w y # pr y) ys)"
  have rest: "reads (parse_rounds k' (match_some g) body (upd a y)) us (foldl upd (upd a y) ys) (\<lambda>t. R t \<and> (\<forall>u. token_type u = t \<longrightarrow> g u = None))"
    unfolding us_def by (rule Cons.IH) (use Cons.prems k(2) in auto)
  have "leads us (\<lambda>t. R t \<and> (\<forall>u. token_type u = t \<longrightarrow> g u = None)) R"
    using Cons.prems(2) by (cases ys) (auto simp: us_def)
  then have "reads (st_bind (body (z y) a) (parse_rounds k' (match_some g) body)) (pr y @ us)
      (foldl upd (upd a y) ys) (\<lambda>t. R t \<and> (\<forall>u. token_type u = t \<longrightarrow> g u = None))"
    by (intro reads_bind [where x = "upd a y" and Q = R] rest Cons.prems(4)) simp_all
  then have "reads (st_bind (match_some g) (\<lambda>r. case r of Some y \<Rightarrow> st_bind (body y a) (parse_rounds k' (match_some g) body) | None \<Rightarrow> st_return a))
      (w y # pr y @ us) (foldl upd (upd a y) ys) (\<lambda>t. R t \<and> (\<forall>u. token_type u = t \<longrightarrow> g u = None))"
    by (intro reads_token_bind) (use Cons.prems(2,3) in auto)
  then show ?case by (simp add: k(1) us_def reads_def)
qed

lemma reads_loop:
  assumes "\<And>y. y \<in> set ys \<Longrightarrow> w y \<noteq> TkEOF \<and> R (w y)" "\<And>y u. y \<in> set ys \<Longrightarrow> token_type u = w y \<Longrightarrow> own_value u \<Longrightarrow> g u = Some (z y)"
    "\<And>y a. y \<in> set ys \<Longrightarrow> reads (body (z y) a) (pr y) (upd a y) R"
  shows "reads (parse_loop (match_some g) body a) (concat (map (\<lambda>y. w y # pr y) ys)) (foldl upd a ys) (\<lambda>t. R t \<and> (\<forall>u. token_type u = t \<longrightarrow> g u = None))"
  unfolding reads_def
proof (intro allI impI)
  fix s t rest
  assume s: "ahead s (concat (map (\<lambda>y. w y # pr y) ys) @ t # rest)" and t: "R t \<and> (\<forall>u. token_type u = t \<longrightarrow> g u = None)"
  have "length ys \<le> length (concat (map (\<lambda>y. w y # pr y) ys))" by (induction ys) auto
  then have "length ys < Suc (remaining_tokens s)" using ahead_remaining [OF s] by simp
  from reads_rounds [of ys w R g z body pr upd, OF _ _ _ this] assms
  have "reads (parse_rounds (Suc (remaining_tokens s)) (match_some g) body a) (concat (map (\<lambda>y. w y # pr y) ys)) (foldl upd a ys)
      (\<lambda>t. R t \<and> (\<forall>u. token_type u = t \<longrightarrow> g u = None))" by blast
  then show "\<exists>s'. parse_loop (match_some g) body a s = (Ok (foldl upd a ys), s') \<and> ahead s' (t # rest)"
    using s t unfolding parse_loop_def reads_def by blast
qed

lemma reads_while:
  assumes "t \<noteq> TkEOF" "R t" "\<And>y a. y \<in> set ys \<Longrightarrow> reads (body a) (pr y) (upd a y) R"
  shows "reads (while_token t body a) (concat (map (\<lambda>y. t # pr y) ys)) (foldl upd a ys) (\<lambda>u. R u \<and> u \<noteq> t)"
  unfolding while_token_def
  by (rule reads_less [OF reads_loop [where w = "\<lambda>_. t" and R = R and z = "\<lambda>_. ()"]]) (use assms in \<open>auto simp: the_token_def\<close>)

lemma foldl_snoc: "foldl (\<lambda>xs y. xs @ [y]) a ys = a @ ys"
  by (induction ys arbitrary: a) auto

lemma reads_commas:
  assumes "R (Sym ''Comma'')" "\<And>y. y \<in> set ys \<Longrightarrow> reads p (pr y) y R"
  shows "reads (while_token (Sym ''Comma'') (\<lambda>xs. st_bind p (\<lambda>y. st_return (xs @ [y]))) xs)
    (concat (map (\<lambda>y. Sym ''Comma'' # pr y) ys)) (xs @ ys) (\<lambda>u. R u \<and> u \<noteq> Sym ''Comma'')"
proof -
  have "reads (st_bind p (\<lambda>y. st_return (a @ [y]))) (pr y) (a @ [y]) R" if "y \<in> set ys" for y a
    by (rule reads_bind_last [OF assms(2) [OF that] reads_return])
  then show ?thesis
    using reads_while [where t = "Sym ''Comma''" and R = R and ys = ys and pr = pr and upd = "\<lambda>xs y. xs @ [y]"
        and body = "\<lambda>xs. st_bind p (\<lambda>y. st_return (xs @ [y]))" and a = xs] assms(1)
    unfolding foldl_snoc by blast
qed

lemma reads_comma_list:
  assumes "R (Sym ''Comma'')" "\<And>y. y \<in> set ys \<Longrightarrow> reads p (pr y) y R" "ys \<noteq> []"
  shows "reads (comma_list p) (print_list pr ys) ys (\<lambda>u. R u \<and> u \<noteq> Sym ''Comma'')"
proof (cases ys)
  case (Cons x xs)
  have "leads (concat (map (\<lambda>y. Sym ''Comma'' # pr y) xs)) (\<lambda>u. R u \<and> u \<noteq> Sym ''Comma'') R"
    using assms(1) by (cases xs) auto
  then show ?thesis
    unfolding comma_list_def print_list_def Cons list.case
    by (intro reads_bind [of _ _ x R] assms(2)) (use reads_commas [of R xs p pr "[x]"] assms Cons in auto)
qed (use assms in simp)

subsection \<open>Lemmas: data types\<close>

lemma reads_number:
  "reads (f n) us y R \<Longrightarrow> reads (st_bind parse_number f) (TkNumber (show_i64 n) # us) y R"
  unfolding parse_number_def bind_assoc
  by (rule reads_some [of _ _ "show_i64 n"]) (simp_all add: number_text_def own_value_def parse_show_i64)

lemma to_uppercase_types [simp]:
  "to_uppercase ''INTEGER'' = ''INTEGER''" "to_uppercase ''BIGINT'' = ''BIGINT''" "to_uppercase ''SMALLINT'' = ''SMALLINT''"
  "to_uppercase ''REAL'' = ''REAL''" "to_uppercase ''DOUBLE'' = ''DOUBLE''" "to_uppercase ''DECIMAL'' = ''DECIMAL''"
  "to_uppercase ''VARCHAR'' = ''VARCHAR''" "to_uppercase ''CHAR'' = ''CHAR''" "to_uppercase ''TEXT'' = ''TEXT''"
  "to_uppercase ''BOOLEAN'' = ''BOOLEAN''" "to_uppercase ''DATE'' = ''DATE''" "to_uppercase ''TIME'' = ''TIME''"
  "to_uppercase ''TIMESTAMP'' = ''TIMESTAMP''" "to_uppercase ''INTERVAL'' = ''INTERVAL''" "to_uppercase ''UUID'' = ''UUID''"
  "to_uppercase ''BYTEA'' = ''BYTEA''" "to_uppercase ''PRECISION'' = ''PRECISION''"
  by (simp_all add: to_uppercase_def to_upper_def is_ascii_lower_def)

lemma reads_match_identifier:
  "reads (f True) us y R \<Longrightarrow> to_uppercase n = name \<Longrightarrow> reads (st_bind (match_identifier_token name) f) (TkIdentifier n # us) y R"
  unfolding match_identifier_token_def bind_assoc
  by (rule reads_some [of _ _ "()"]) (simp_all add: identifier_of_def)

lemma print_kind_element: "print_kind k = print_kind (element_kind k) @ concat (replicate (array_depth k) [Sym ''LeftBracket'', Sym ''RightBracket''])"
  by (induction k) (simp_all add: replicate_append_same [symmetric])

lemma array_kind: "k = (ArrayT ^^ array_depth k) (element_kind k)"
  by (induction k) auto

lemma element_no_array: "element_kind k \<noteq> ArrayT j"
  by (induction k) auto

lemma named_types:
  "parse_named_type ''INTEGER'' = st_return (DataType_new IntegerT)" "parse_named_type ''BIGINT'' = st_return (DataType_new BigIntT)"
  "parse_named_type ''SMALLINT'' = st_return (DataType_new SmallIntT)" "parse_named_type ''REAL'' = st_return (DataType_new RealT)"
  "parse_named_type ''TEXT'' = st_return (DataType_new TextT)" "parse_named_type ''BOOLEAN'' = st_return (DataType_new BooleanT)"
  "parse_named_type ''DATE'' = st_return (DataType_new DateT)" "parse_named_type ''TIME'' = st_return (DataType_new TimeT)"
  "parse_named_type ''TIMESTAMP'' = st_return (DataType_new TimestampT)" "parse_named_type ''INTERVAL'' = st_return (DataType_new IntervalT)"
  "parse_named_type ''UUID'' = st_return (DataType_new UuidT)" "parse_named_type ''BYTEA'' = st_return (DataType_new ByteaT)"
  "parse_named_type ''DOUBLE'' = st_bind (match_identifier_token ''PRECISION'') (\<lambda>_. st_return (DataType_new DoublePrecisionT))"
  "parse_named_type ''DECIMAL'' = parse_decimal" "parse_named_type ''VARCHAR'' = parse_length 255 VarcharT"
  "parse_named_type ''CHAR'' = parse_length 1 CharT"
  by (simp_all add: parse_named_type_def type_table_def)

lemma reads_length:
  assumes "reads (f (DataType_new (kind n))) us y R"
  shows "reads (st_bind (parse_length d kind) f) (Sym ''LeftParen'' # TkNumber (show_i64 n) # Sym ''RightParen'' # us) y R"
  unfolding parse_length_def usize_number_def bind_assoc
  by (rule reads_yes, simp, simp only: if_True bind_assoc, rule reads_number, rule reads_consume, simp, simp only: bind_return, rule assms)

lemma reads_decimal:
  assumes "reads (f (DataType_new (DecimalT p s))) us y R"
  shows "reads (st_bind parse_decimal f) (Sym ''LeftParen'' # TkNumber (show_i64 p) # Sym ''Comma'' # TkNumber (show_i64 s) # Sym ''RightParen'' # us) y R"
  unfolding parse_decimal_def usize_number_def bind_assoc
  by (rule reads_yes, simp, simp only: if_True bind_assoc, rule reads_number, rule reads_yes, simp, simp only: if_True bind_assoc,
      rule reads_number, rule reads_consume, simp, simp only: bind_return, rule assms)

lemma reads_named_type:
  assumes "reads (f (DataType_new k)) us y R" "print_kind k \<noteq> []" "k \<notin> {SerialT, BigSerialT}" "\<And>j. k \<noteq> ArrayT j"
  shows "reads (st_bind consume_identifier (\<lambda>name. st_bind (parse_named_type (to_uppercase name)) f)) (print_kind k @ us) y R"
  using assms
  by (cases k) (auto simp: named_types bind_assoc intro!: reads_identifier reads_length reads_decimal reads_match_identifier)

lemma reads_data_type:
  assumes "printable_kind k"
  shows "reads parser_data_type (print_kind k) (DataType_new k) (\<lambda>t. t \<noteq> Sym ''LeftBracket'')"
proof (cases "element_kind k \<in> {SerialT, BigSerialT}")
  case True
  then have "array_depth k = 0" using assms by (simp add: printable_kind_def)
  then have "k = element_kind k" using array_kind [of k] by simp
  then consider "k = SerialT" | "k = BigSerialT" using True by auto
  then show ?thesis
  proof cases
    case 1
    show ?thesis
      unfolding parser_data_type_def 1 print_kind.simps by (rule reads_yes) (simp_all add: reads_return)
  next
    case 2
    show ?thesis
      unfolding parser_data_type_def 2 print_kind.simps by (rule reads_no, simp, simp, rule reads_yes) (simp_all add: reads_return)
  qed
next
  case False
  define e where "e = element_kind k"
  define n where "n = array_depth k"
  have e: "print_kind e \<noteq> []" "e \<notin> {SerialT, BigSerialT}" "\<And>j. e \<noteq> ArrayT j" "element_kind k = e"
    using False assms element_no_array [of k] by (auto simp: e_def printable_kind_def)
  have k: "k = (ArrayT ^^ n) e" using array_kind [of k] by (simp add: e_def n_def)
  have first: "hd (print_kind e) \<noteq> Kw ''Serial''" "hd (print_kind e) \<noteq> Kw ''BigSerial''" using e(1-3) by (cases e; simp)+
  have "foldl (\<lambda>d _. DataType_new (ArrayT (dt_kind d))) (DataType_new e) (replicate n ()) = DataType_new ((ArrayT ^^ n) e)" for e
    by (induction n arbitrary: e) (simp_all add: DataType_new_def funpow_swap1)
  then have loop: "reads (while_token (Sym ''LeftBracket'') (\<lambda>d. st_bind (consume_token (Sym ''RightBracket'')) (\<lambda>_.
      st_return (DataType_new (ArrayT (dt_kind d))))) (DataType_new e)) (concat (replicate n [Sym ''LeftBracket'', Sym ''RightBracket'']))
      (DataType_new k) (\<lambda>t. t \<noteq> Sym ''LeftBracket'')"
    using reads_while [where t = "Sym ''LeftBracket''" and ys = "replicate n ()" and pr = "\<lambda>_. [Sym ''RightBracket'']" and R = "\<lambda>_. True"
        and upd = "\<lambda>d _. DataType_new (ArrayT (dt_kind d))" and a = "DataType_new e"
        and body = "\<lambda>d. st_bind (consume_token (Sym ''RightBracket'')) (\<lambda>_. st_return (DataType_new (ArrayT (dt_kind d))))"]
    by (simp add: k map_replicate_const reads_consume reads_return)
  show ?thesis
    unfolding parser_data_type_def print_kind_element [of k] e(4) n_def [symmetric]
    by (rule reads_if_no, rule leads_append, rule e(1), rule first(1), rule reads_if_no, rule leads_append, rule e(1), rule first(2),
        rule reads_named_type, rule loop, rule e(1), rule e(2), rule e(3))
qed

subsection \<open>Lemmas: expressions\<close>

lemma starts_mono: "starts k t \<Longrightarrow> j \<le> k \<Longrightarrow> starts j t"
  by (auto simp: starts_def)

lemma print_starts:
  "printable k e \<Longrightarrow> print_expr k e \<noteq> [] \<and> starts k (hd (print_expr k e))"
  "printables k es \<Longrightarrow> es \<noteq> [] \<Longrightarrow> print_exprs k es \<noteq> [] \<and> starts k (hd (print_exprs k es))"
  "bs \<noteq> [] \<Longrightarrow> print_branches bs \<noteq> [] \<and> hd (print_branches bs) = Kw ''When''"
proof (induction k e and k es and bs rule: print_expr_print_exprs_print_branches.induct)
  case (2 k v)
  then show ?case by (cases v) (auto simp: starts_def)
next
  case (3 k name args dist)
  then show ?case by (auto simp: starts_def function_word_def split: option.split)
next
  case (4 k l op r)
  then have "print_expr (binary_level op) l \<noteq> []" "starts (binary_level op) (hd (print_expr (binary_level op) l))" by simp_all
  then show ?case using starts_mono [of "binary_level op" _ k] by (auto simp: Let_def in_parentheses_def starts_def)
qed (auto simp: starts_def in_parentheses_def Let_def split: option.split)

definition level_reads :: "expr_lib \<Rightarrow> nat \<Rightarrow> nat \<Rightarrow> TokenType list \<Rightarrow> expr \<Rightarrow> bool" where
  "level_reads L n k ts e \<longleftrightarrow>
     (if k \<in> set binary_levels then chain (level_operator k) (level_parser L (parsers_at L n) (Suc k)) (stops (Suc k)) ts e
      else reads (level_parser L (parsers_at L n) k) ts e (stops k))"

lemma stops_Suc: "stops k t \<Longrightarrow> stops (Suc k) t"
  by (auto simp: stops_def list_all_iff)

lemma stops_operator:
  assumes "stops k t" "k \<in> set binary_levels" "token_type u = t"
  shows "level_operator k u = None"
proof -
  have words: "k \<le> binary_level op \<longrightarrow> t \<noteq> hd (operator_words op)" for op
    using assms(1) by (cases op) (simp_all add: stops_def all_operators_def)
  note w = words [of OpOr] words [of OpAnd] words [of OpAdd] words [of OpSubtract] words [of OpConcatenate] words [of OpMultiply]
    words [of OpDivide] words [of OpEquals] words [of OpNotEquals] words [of OpLessThan] words [of OpLessThanOrEquals]
    words [of OpGreaterThan] words [of OpGreaterThanOrEquals] words [of OpLike] words [of OpILike] words [of OpIn] words [of OpIs]
  consider "k = 0" | "k = 1" | "k = 3" | "k = 4" | "k = 5" using assms(2) by (auto simp: binary_levels_def)
  then show ?thesis
    using w assms(3)
    by cases (simp_all add: level_operator_def operator_in_def comparison_operator_def comparison_operators_def)
qed

lemma level_reads: "level_reads L n k ts e \<Longrightarrow> reads (level_parser L (parsers_at L n) k) ts e (stops k)"
  using chain_reads [of "level_operator k" "level_parser L (parsers_at L n) (Suc k)" "stops (Suc k)" ts e]
  by (auto simp: level_reads_def level_parser_binary split: if_splits intro: reads_less stops_Suc stops_operator)

lemma level_reads_down:
  assumes "level_reads L n (Suc k) ts e" "ts \<noteq> []" "k \<le> 6" "k = 2 \<Longrightarrow> hd ts \<noteq> Kw ''Not''"
    "k = 6 \<Longrightarrow> hd ts \<notin> {Sym ''Minus'', Sym ''Plus'', Kw ''Not''}"
  shows "level_reads L n k ts e"
proof -
  note r = level_reads [OF assms(1)]
  consider "k \<in> set binary_levels" | "k = 2" | "k = 6" using assms(3) by (auto simp: binary_levels_def numeral_eq_Suc le_Suc_eq)
  then show ?thesis
  proof cases
    case 1
    then show ?thesis using r by (simp add: level_reads_def chain.one)
  next
    case 2
    have "reads (parse_not_expression L (parsers_at L n)) ts e (stops 3)"
      unfolding parse_not_expression_def
      by (rule reads_if_no) (use r 2 assms(2,4) in \<open>simp_all add: leads_hd level_parser_def numeral_eq_Suc\<close>)
    then have "reads (level_parser L (parsers_at L n) 2) ts e (stops 2)"
      using stops_Suc [of 2] by (auto simp: level_parser_def elim: reads_less)
    then show ?thesis using 2 by (simp add: level_reads_def binary_levels_def)
  next
    case 3
    have "reads (parse_unary_expression L (parsers_at L n)) ts e (stops 7)"
      unfolding parse_unary_expression_def
      by (intro reads_if_no) (use r 3 assms(2,5) in \<open>simp_all add: leads_hd level_parser_def numeral_eq_Suc\<close>)
    then have "reads (level_parser L (parsers_at L n) 6) ts e (stops 6)"
      using stops_Suc [of 6] by (auto simp: level_parser_def elim: reads_less)
    then show ?thesis using 3 by (simp add: level_reads_def binary_levels_def)
  qed
qed

lemma level_reads_lower:
  assumes "level_reads L n j ts e" "k \<le> j" "j \<le> 7" "ts \<noteq> []" "k \<le> 2 \<longrightarrow> 2 < j \<longrightarrow> hd ts \<noteq> Kw ''Not''"
    "k \<le> 6 \<longrightarrow> j = 7 \<longrightarrow> hd ts \<notin> {Sym ''Minus'', Sym ''Plus'', Kw ''Not''}"
  shows "level_reads L n k ts e"
  using assms(2,5,6)
proof (induction rule: inc_induct)
  case (step m)
  then show ?case using assms(3,4) by (intro level_reads_down [of L n m]) auto
qed (rule assms(1))

lemma level_operator_word:
  "token_type u = hd (operator_words op) \<Longrightarrow> \<exists>p. level_operator (binary_level op) u = Some p"
  by (cases op) (simp_all add: level_operator_def operator_in_def comparison_operator_def comparison_operators_def)

lemma operator_facts:
  "operator_words op \<noteq> []" "hd (operator_words op) \<noteq> TkEOF" "stops (Suc (binary_level op)) (hd (operator_words op))" "binary_level op \<in> set binary_levels"
  by (cases op; simp add: stops_def all_operators_def binary_levels_def)+

lemma operator_reads:
  "\<exists>p. (\<forall>u. token_type u = hd (operator_words op) \<longrightarrow> level_operator (binary_level op) u = Some p) \<and>
       reads p (tl (operator_words op)) op (\<lambda>t. binary_level op = 3 \<longrightarrow> t \<noteq> Kw ''Not'')"
proof -
  define is_not where "is_not = st_bind (match_token (Kw ''Not'')) (\<lambda>b. st_return (if b then OpIsNot else OpIs))"
  have "reads is_not [] OpIs (\<lambda>t. t \<noteq> Kw ''Not'')" "reads is_not [Kw ''Not''] OpIsNot R" for R
    unfolding is_not_def by (rule reads_no; simp add: reads_return) (rule reads_yes; simp add: reads_return)
  then show ?thesis
    by (cases op) (auto simp: level_operator_def operator_in_def comparison_operator_def comparison_operators_def reads_return
        is_not_def [symmetric] numeral_3_eq_3)
qed

lemma parsers_level [simp]:
  "pr_expression (parsers_at L (Suc n)) = level_parser L (parsers_at L n) 0"
  "pr_additive (parsers_at L (Suc n)) = level_parser L (parsers_at L n) 4"
  "pr_not (parsers_at L (Suc n)) = level_parser L (parsers_at L n) 2"
  "pr_unary (parsers_at L (Suc n)) = level_parser L (parsers_at L n) 6"
  by (simp_all add: Let_def level_parser_def parse_expression_def)

text \<open>A primary expression at any level.\<close>

lemma primary_reads:
  assumes "reads (parse_primary_expression L (parsers_at L n)) ts e (stops 7)" "ts \<noteq> []" "hd ts \<notin> {Sym ''Minus'', Sym ''Plus'', Kw ''Not''}" "k \<le> 7"
  shows "level_reads L n k ts e"
proof (rule level_reads_lower)
  show "level_reads L n 7 ts e" using assms(1) by (simp add: level_reads_def binary_levels_def level_parser_def)
qed (use assms in auto)

lemma identifier_kinds [simp]:
  "identifier_of (Kw n) = None" "identifier_of (Sym n) = None" "identifier_of (TkNumber s) = None" "identifier_of (TkString s) = None"
  "identifier_of (TkIdentifier s) = Some s"
  by (simp_all add: identifier_of_def)

text \<open>The primary expression that begins with a token: which of the alternatives is taken.\<close>

lemma primary_name:
  "reads (parse_named P name) us e R \<Longrightarrow> reads (parse_primary_expression L P) (TkIdentifier name # us) e R"
  unfolding parse_primary_expression_def
  by (rule reads_if_no, simp, rule reads_no_token_bind, simp add: literal_token_def, rule reads_token_bind) simp_all

lemma primary_value:
  "t \<noteq> TkEOF \<Longrightarrow> (\<And>u. token_type u = t \<Longrightarrow> own_value u \<Longrightarrow> literal_token L u = Some (Ok v)) \<Longrightarrow> t \<noteq> Kw ''Cast'' \<Longrightarrow>
   reads (parse_primary_expression L P) [t] (ValueE v) R"
  unfolding parse_primary_expression_def
  by (rule reads_if_no, simp, rule reads_token_bind) (simp_all add: reads_def st_bind_parts)

lemma primary_star: "reads (parse_primary_expression L P) [Sym ''Asterisk''] StarE R"
  unfolding parse_primary_expression_def
  by (rule reads_if_no, simp, rule reads_no_token_bind, simp add: literal_token_def, rule reads_no_token_bind, simp,
      rule reads_no_token_bind, simp add: window_function_name_def, rule reads_if_yes) (simp_all add: reads_return)

lemma primary_paren:
  "reads (parse_parenthesized P) us e R \<Longrightarrow> reads (parse_primary_expression L P) (Sym ''LeftParen'' # us) e R"
  unfolding parse_primary_expression_def
  by (rule reads_if_no, simp, rule reads_no_token_bind, simp add: literal_token_def, rule reads_no_token_bind, simp,
      rule reads_no_token_bind, simp add: window_function_name_def, rule reads_if_no, simp, rule reads_if_yes) simp_all

lemma primary_aggregate:
  "(\<And>u. token_type u = Kw n \<Longrightarrow> aggregate_name u = Some name) \<Longrightarrow> reads (parse_aggregate_named P name) us e R \<Longrightarrow>
   n \<in> {''Count'', ''Sum'', ''Avg'', ''Min'', ''Max''} \<Longrightarrow> reads (parse_primary_expression L P) (Kw n # us) e R"
  unfolding parse_primary_expression_def
  by (rule reads_if_no, fastforce, rule reads_no_token_bind, fastforce simp: literal_token_def, rule reads_no_token_bind, simp,
      rule reads_no_token_bind, fastforce simp: window_function_name_def, rule reads_if_no, simp, rule reads_if_no, simp,
      rule reads_token_bind) simp_all

lemma primary_cast:
  "reads (parse_cast P) us e R \<Longrightarrow> reads (parse_primary_expression L P) (Kw ''Cast'' # us) e R"
  unfolding parse_primary_expression_def by (rule reads_if_yes) simp_all

lemma primary_case:
  "reads (parse_case_expression P) us e R \<Longrightarrow> reads (parse_primary_expression L P) (Kw ''Case'' # us) e R"
  unfolding parse_primary_expression_def
  by (rule reads_if_no, simp, rule reads_no_token_bind, simp add: literal_token_def, rule reads_no_token_bind, simp,
      rule reads_no_token_bind, simp add: window_function_name_def, rule reads_if_no, simp, rule reads_if_no, simp,
      rule reads_no_token_bind, simp add: aggregate_name_def, rule reads_if_no, simp, rule reads_if_yes) simp_all

lemma show_i64_no_dot: "CHR ''.'' \<notin> set (show_i64 n)"
  by (auto simp: show_i64_def show_int_def is_ascii_digit_def dest!: show_nat_digits)

lemma value_reads:
  assumes "printable_value v"
  shows "reads (parse_primary_expression L P) (print_value v) (ValueE v) R"
proof -
  have "\<exists>t. print_value v = [t] \<and> t \<noteq> TkEOF \<and> t \<noteq> Kw ''Cast'' \<and> (\<forall>u. token_type u = t \<longrightarrow> own_value u \<longrightarrow> literal_token L u = Some (Ok v))"
    using assms by (cases v) (auto simp: literal_token_def own_value_def number_value_def show_i64_no_dot parse_show_i64)
  then show ?thesis using primary_value by force
qed

lemma stops_7: "stops 7 t \<longleftrightarrow> t \<notin> {Sym ''Dot'', Sym ''LeftParen'', Kw ''Over''}"
  by (simp add: stops_def all_operators_def)

lemma stops_weaken: "stops j t \<Longrightarrow> j \<le> k \<Longrightarrow> stops k t"
  by (auto simp: stops_def list_all_iff)

lemma stops_plain [simp]:
  "stops k (Sym ''RightParen'')" "stops k (Sym ''Comma'')" "stops k (Kw ''As'')" "stops k (Kw ''When'')" "stops k (Kw ''Then'')"
  "stops k (Kw ''Else'')" "stops k (Kw ''End'')"
  by (simp_all add: stops_def all_operators_def)

lemma column_reads:
  "reads (parse_primary_expression L P) (print_expr k (ColumnE table name)) (ColumnE table name) (stops 7)"
proof (cases table)
  case None
  have "reads (parse_primary_expression L P) [TkIdentifier name] (ColumnE None name) (stops 7)"
    by (rule primary_name, unfold parse_named_def, rule reads_if_no, simp add: stops_7, rule reads_if_no, simp add: stops_7, rule reads_return)
  then show ?thesis using None by simp
next
  case (Some t)
  have "reads (parse_primary_expression L P) [TkIdentifier t, Sym ''Dot'', TkIdentifier name] (ColumnE (Some t) name) (stops 7)"
    by (rule primary_name, unfold parse_named_def, rule reads_if_yes, simp, rule reads_identifier, rule reads_return)
  then show ?thesis using Some by simp
qed

text \<open>An expression between parentheses.\<close>

lemma paren_reads:
  assumes "level_reads L m 4 ts e" "ts \<noteq> []" "hd ts \<noteq> Kw ''Select''" "k \<le> 7"
  shows "level_reads L (Suc m) k (in_parentheses ts) e"
proof (rule primary_reads)
  have "reads (parse_parenthesized (parsers_at L (Suc m))) (ts @ [Sym ''RightParen'']) e (stops 7)"
    unfolding parse_parenthesized_def parsers_level
    by (rule reads_if_no, rule leads_append, rule assms(2), rule assms(3), rule reads_bind, rule level_reads, rule assms(1),
        rule reads_if_no, simp, rule reads_consume, simp, rule reads_return, simp)
  then show "reads (parse_primary_expression L (parsers_at L (Suc m))) (in_parentheses ts) e (stops 7)"
    unfolding in_parentheses_def by (rule primary_paren)
qed (use assms in \<open>auto simp: in_parentheses_def\<close>)

lemma print_exprs_list: "print_exprs k es = print_list (print_expr k) es"
proof (induction es)
  case (Cons e es)
  then show ?case by (cases es) (simp_all add: print_list_def)
qed (simp add: print_list_def)

lemma printables_all: "printables k es \<longleftrightarrow> (\<forall>e \<in> set es. printable k e)"
  by (induction es) auto

lemma print_length: "e \<in> set es \<Longrightarrow> length (print_expr k e) \<le> length (print_exprs k es)"
  by (induction es) auto

text \<open>The arguments of a call.\<close>

lemma arguments_reads:
  assumes es: "\<And>e. e \<in> set es \<Longrightarrow> level_reads L m 0 (print_expr 0 e) e" "\<And>e. e \<in> set es \<Longrightarrow> printable 0 e"
    and dist: "dist \<longrightarrow> aggregate \<and> es \<noteq> []"
  shows "reads (parse_call (parsers_at L (Suc m)) name aggregate)
    ((if dist then [Kw ''Distinct''] else []) @ print_exprs 0 es @ [Sym ''RightParen'']) (FunctionE name es dist) (stops 7)"
proof -
  have over: "reads (st_bind (match_token (Kw ''Over'')) (\<lambda>over. if over then w else st_return x)) [] x (stops 7)" for w and x :: expr
    by (rule reads_if_no) (simp_all add: stops_7 reads_return)
  show ?thesis
  proof (cases "es = []")
    case True
    have "reads (parse_call (parsers_at L (Suc m)) name aggregate) [Sym ''RightParen''] (FunctionE name [] False) (stops 7)"
      unfolding parse_call_def parse_arguments_def bind_assoc
      by (rule reads_yes, simp, simp only: if_True bind_return prod.case, rule over)
    then show ?thesis using True dist by simp
  next
    case False
    have first: "print_exprs 0 es \<noteq> []" "starts 0 (hd (print_exprs 0 es))"
      using print_starts(2) [of 0 es] es(2) False by (auto simp: printables_all)
    have list: "reads (comma_list (pr_expression (parsers_at L (Suc m)))) (print_exprs 0 es) es (\<lambda>u. stops 0 u \<and> u \<noteq> Sym ''Comma'')"
      unfolding print_exprs_list parsers_level by (rule reads_comma_list) (use es(1) level_reads False in auto)
    define rest where "rest = (\<lambda>d. st_bind (comma_list (pr_expression (parsers_at L (Suc m)))) (\<lambda>args. st_bind (consume_token (Sym ''RightParen'')) (\<lambda>_.
        st_bind (st_return (args, d)) (\<lambda>(args, distinct). st_bind (match_token (Kw ''Over'')) (\<lambda>over.
          if over then st_bind (parse_window_clause (parsers_at L (Suc m))) (\<lambda>w. st_return (WindowFunctionE (WindowFunction name args w None)))
          else st_return (FunctionE name args distinct))))))"
    have rest: "reads (rest d) (print_exprs 0 es @ [Sym ''RightParen'']) (FunctionE name es d) (stops 7)" for d
      unfolding rest_def
      by (rule reads_bind, rule list, rule reads_consume, simp, simp only: bind_return prod.case, rule over, simp)
    have call: "parse_call (parsers_at L (Suc m)) name aggregate = st_bind (match_token (Sym ''RightParen'')) (\<lambda>empty.
        st_bind (if empty then st_return ([], False) else st_bind (if aggregate then match_token (Kw ''Distinct'') else st_return False) (\<lambda>distinct.
          st_bind (comma_list (pr_expression (parsers_at L (Suc m)))) (\<lambda>args. st_bind (consume_token (Sym ''RightParen'')) (\<lambda>_.
            st_return (args, distinct))))) (\<lambda>(args, distinct). st_bind (match_token (Kw ''Over'')) (\<lambda>over.
          if over then st_bind (parse_window_clause (parsers_at L (Suc m))) (\<lambda>w. st_return (WindowFunctionE (WindowFunction name args w None)))
          else st_return (FunctionE name args distinct))))"
      unfolding parse_call_def parse_arguments_def bind_assoc ..
    show ?thesis
    proof (cases dist)
      case True
      then have "aggregate" using dist by simp
      then show ?thesis
        unfolding call
        by (intro reads_no) (use True rest [of True] in \<open>auto simp: bind_assoc rest_def intro!: reads_yes\<close>)
    next
      case False
      show ?thesis
      proof (cases aggregate)
        case True
        then show ?thesis
          unfolding call
          by (intro reads_no; simp add: False bind_assoc) (use first rest [of False] in \<open>auto simp: rest_def starts_def intro!: leads_append reads_no\<close>)
      next
        case plain: False
        then show ?thesis
          unfolding call
          by (intro reads_no; simp add: False bind_assoc) (use first rest [of False] in \<open>auto simp: rest_def starts_def intro!: leads_append\<close>)
      qed
    qed
  qed
qed

lemma function_reads:
  assumes "\<And>e. e \<in> set es \<Longrightarrow> level_reads L m 0 (print_expr 0 e) e" "printable k (FunctionE name es dist)" "k \<le> 7"
  shows "level_reads L (Suc m) k (print_expr k (FunctionE name es dist)) (FunctionE name es dist)"
proof -
  have printable: "\<And>e. e \<in> set es \<Longrightarrow> printable 0 e" using assms(2) by (auto simp: printables_all)
  let ?ts = "Sym ''LeftParen'' # ((if dist then [Kw ''Distinct''] else []) @ print_exprs 0 es @ [Sym ''RightParen''])"
  show ?thesis
  proof (cases "function_word name = TkIdentifier name")
    case True
    then have "\<not> dist" using assms(2) by simp
    have "reads (parse_primary_expression L (parsers_at L (Suc m))) (TkIdentifier name # ?ts) (FunctionE name es dist) (stops 7)"
      by (rule primary_name, unfold parse_named_def, rule reads_if_no, simp, rule reads_if_yes, simp, rule arguments_reads)
        (use assms(1) printable \<open>\<not> dist\<close> in auto)
    then show ?thesis by (intro primary_reads) (use assms(3) True in \<open>auto simp: in_parentheses_def\<close>)
  next
    case False
    then obtain n where n: "function_word name = Kw n" "n \<in> {''Count'', ''Sum'', ''Avg'', ''Min'', ''Max''}"
        "\<And>u. token_type u = Kw n \<Longrightarrow> aggregate_name u = Some name"
      by (auto simp: function_word_def aggregate_name_def split: if_splits)
    have "reads (parse_primary_expression L (parsers_at L (Suc m))) (Kw n # ?ts) (FunctionE name es dist) (stops 7)"
      by (rule primary_aggregate, rule n(3), assumption, unfold parse_aggregate_named_def, rule reads_if_yes, simp, rule arguments_reads)
        (use assms(1,2) printable n(2) in auto)
    then show ?thesis by (intro primary_reads) (use assms(3) n in \<open>auto simp: in_parentheses_def\<close>)
  qed
qed

lemma cast_reads:
  assumes "level_reads L m 0 (print_expr 0 e) e" "t = DataType_new (dt_kind t)" "printable_kind (dt_kind t)" "k \<le> 7"
  shows "level_reads L (Suc m) k (print_expr k (CastE e t)) (CastE e t)"
proof -
  have "reads (parse_cast (parsers_at L (Suc m))) (Sym ''LeftParen'' # print_expr 0 e @ Kw ''As'' # print_kind (dt_kind t) @ [Sym ''RightParen''])
      (CastE e (DataType_new (dt_kind t))) (stops 7)"
    unfolding parse_cast_def parsers_level
    by (rule reads_consume, simp, rule reads_bind, rule level_reads, rule assms(1), rule reads_consume, simp, rule reads_bind,
        rule reads_data_type, rule assms(3), rule reads_consume, simp, rule reads_return) simp_all
  then have "reads (parse_primary_expression L (parsers_at L (Suc m))) (print_expr k (CastE e t)) (CastE e t) (stops 7)"
    using primary_cast assms(2) by (simp add: in_parentheses_def)
  then show ?thesis by (rule primary_reads) (use assms(4) in auto)
qed

lemma list_reads:
  assumes "\<And>e. e \<in> set es \<Longrightarrow> level_reads L m 4 (print_expr 4 e) e" "\<And>e. e \<in> set es \<Longrightarrow> printable 4 e" "2 \<le> length es" "k \<le> 7"
  shows "level_reads L (Suc m) k (print_expr k (ListE es)) (ListE es)"
proof -
  obtain x y zs where es: "es = x # y # zs" using assms(3) by (cases es; cases "tl es") auto
  have read: "reads (level_parser L (parsers_at L m) 4) (print_expr 4 e) e (stops 4)" if "e \<in> set es" for e
    using level_reads [OF assms(1) [OF that]] .
  have first: "print_expr 4 x \<noteq> []" "hd (print_expr 4 x) \<noteq> Kw ''Select''" using print_starts(1) [OF assms(2) [of x]] by (auto simp: es starts_def)
  let ?rest = "concat (map (\<lambda>e. Sym ''Comma'' # print_expr 4 e) zs)"
  have loop: "reads (while_token (Sym ''Comma'') (\<lambda>es. st_bind (level_parser L (parsers_at L m) 4) (\<lambda>x. st_return (es @ [x]))) [x, y])
      ?rest ([x, y] @ zs) (\<lambda>u. stops 4 u \<and> u \<noteq> Sym ''Comma'')"
    by (rule reads_commas) (use read es in auto)
  have follow: "leads (?rest @ [Sym ''RightParen'']) (stops 7) (stops 4)" by (cases zs) auto
  have "reads (parse_parenthesized (parsers_at L (Suc m))) (print_expr 4 x @ Sym ''Comma'' # print_expr 4 y @ ?rest @ [Sym ''RightParen''])
      (ListE ([x, y] @ zs)) (stops 7)"
    unfolding parse_parenthesized_def parsers_level
    by (rule reads_if_no, rule leads_append, rule first(1), rule first(2), rule reads_bind, rule read, simp add: es, rule reads_if_yes, simp,
        rule reads_bind, rule read, simp add: es, rule reads_bind, rule loop, rule reads_consume, simp, rule reads_return, simp)
      (simp_all add: follow)
  then have "reads (parse_primary_expression L (parsers_at L (Suc m))) (print_expr k (ListE es)) (ListE es) (stops 7)"
    using primary_paren by (simp add: in_parentheses_def es print_exprs_list print_list_def)
  then show ?thesis by (rule primary_reads) (use assms(4) in \<open>auto simp: in_parentheses_def\<close>)
qed

fun print_branch :: "Statement CaseBranch \<Rightarrow> TokenType list" where
  "print_branch (CaseBranch c r) = print_expr 0 c @ Kw ''Then'' # print_expr 0 r"

lemma print_branches_all: "print_branches bs = concat (map (\<lambda>b. Kw ''When'' # print_branch b) bs)"
proof (induction bs)
  case (Cons b bs)
  then show ?case by (cases b) simp
qed simp

lemma reads_peek:
  "leads us R (\<lambda>u. c u = b) \<Longrightarrow> reads (st_bind (if b then p else q) f) us y R \<Longrightarrow>
   reads (\<lambda>s. st_bind (if c (token_type (peek_token s)) then p else q) f s) us y R"
  unfolding reads_def
proof (intro allI impI)
  fix s t rest
  assume l: "leads us R (\<lambda>u. c u = b)" and s: "ahead s (us @ t # rest)" and t: "R t"
    and r: "\<forall>s t rest. ahead s (us @ t # rest) \<longrightarrow> R t \<longrightarrow> (\<exists>s'. st_bind (if b then p else q) f s = (Ok y, s') \<and> ahead s' (t # rest))"
  have "c (token_type (peek_token s)) = b" using l s t ahead_peek(1) [of s] by (cases us) auto
  then show "\<exists>s'. st_bind (if c (token_type (peek_token s)) then p else q) f s = (Ok y, s') \<and> ahead s' (t # rest)"
    using r s t by auto
qed

lemma case_reads:
  assumes bs: "\<And>c r. CaseBranch c r \<in> set bs \<Longrightarrow> level_reads L m 0 (print_expr 0 c) c \<and> level_reads L m 0 (print_expr 0 r) r"
    and base: "case base of Some e \<Rightarrow> level_reads L m 0 (print_expr 0 e) e \<and> printable 0 e | None \<Rightarrow> bs \<noteq> []"
    and els: "case els of Some e \<Rightarrow> level_reads L m 0 (print_expr 0 e) e | None \<Rightarrow> True" and k: "k \<le> 7"
  shows "level_reads L (Suc m) k (print_expr k (CaseE base bs els)) (CaseE base bs els)"
proof -
  let ?P = "parsers_at L (Suc m)"
  have branch: "reads (st_bind (pr_expression ?P) (\<lambda>condition. st_bind (consume_token (Kw ''Then'')) (\<lambda>_.
      st_bind (pr_expression ?P) (\<lambda>result. st_return (branches @ [CaseBranch condition result]))))) (print_branch b) (branches @ [b]) (stops 0)"
    if b: "b \<in> set bs" for b branches
  proof (cases b)
    case (CaseBranch c r)
    then have cr: "level_reads L m 0 (print_expr 0 c) c" "level_reads L m 0 (print_expr 0 r) r" using bs b by auto
    show ?thesis
      unfolding parsers_level CaseBranch print_branch.simps
      by (rule reads_bind, rule level_reads, rule cr(1), rule reads_consume, simp, rule reads_bind_last, rule level_reads, rule cr(2),
          rule reads_return, simp)
  qed
  have branches: "reads (parse_branches ?P) (print_branches bs) bs (\<lambda>u. stops 0 u \<and> u \<noteq> Kw ''When'')"
    using reads_while [where t = "Kw ''When''" and R = "stops 0" and ys = bs and pr = print_branch and upd = "\<lambda>bs b. bs @ [b]" and a = "[]", OF _ _ branch]
    by (simp add: parse_branches_def print_branches_all foldl_snoc)
  define tail where "tail = (case els of Some e \<Rightarrow> Kw ''Else'' # print_expr 0 e | None \<Rightarrow> []) @ [Kw ''End'']"
  have tail: "reads (st_bind (when_token (Kw ''Else'') (pr_expression ?P)) (\<lambda>else_result. st_bind (consume_token (Kw ''End'')) (\<lambda>_.
      st_return (CaseE base bs else_result)))) tail (CaseE base bs els) (stops 7)"
  proof (cases els)
    case None
    show ?thesis
      unfolding None tail_def option.case append_Nil when_token_def bind_assoc
      by (rule reads_no, simp, simp only: if_False bind_return, rule reads_consume, simp, rule reads_return)
  next
    case (Some e)
    then have e: "level_reads L m 0 (print_expr 0 e) e" using els by simp
    show ?thesis
      unfolding Some tail_def option.case append_Cons when_token_def bind_assoc
      by (rule reads_yes, simp, simp only: if_True bind_assoc bind_return parsers_level, rule reads_bind, rule level_reads, rule e,
          rule reads_consume, simp, rule reads_return, simp)
  qed
  have follow: "leads tail (stops 7) (\<lambda>u. stops 0 u \<and> u \<noteq> Kw ''When'')" by (simp add: tail_def split: option.split)
  have body: "reads (st_bind (parse_branches ?P) (\<lambda>branches. st_bind (when_token (Kw ''Else'') (pr_expression ?P)) (\<lambda>else_result.
      st_bind (consume_token (Kw ''End'')) (\<lambda>_. st_return (CaseE base branches else_result))))) (print_branches bs @ tail) (CaseE base bs els) (stops 7)"
    by (rule reads_bind, rule branches, rule tail, rule follow)
  have "reads (parse_case_expression ?P) ((case base of Some e \<Rightarrow> print_expr 0 e | None \<Rightarrow> []) @ print_branches bs @ tail) (CaseE base bs els) (stops 7)"
  proof (cases base)
    case None
    then have "bs \<noteq> []" using base by simp
    then have first: "print_branches bs \<noteq> []" "hd (print_branches bs) = Kw ''When''" using print_starts(3) by auto
    show ?thesis
      unfolding None option.case append_Nil parse_case_expression_def
      by (rule reads_peek [where c = "\<lambda>u. u \<noteq> Kw ''When''" and b = False], rule leads_append, rule first(1), simp add: first(2), simp only: if_False bind_return,
          rule body [unfolded None])
  next
    case (Some e)
    then have e: "level_reads L m 0 (print_expr 0 e) e" "printable 0 e" using base by simp_all
    have first: "print_expr 0 e \<noteq> []" "hd (print_expr 0 e) \<noteq> Kw ''When''" using print_starts(1) [OF e(2)] by (auto simp: starts_def)
    have read: "reads (pr_expression ?P) (print_expr 0 e) e (stops 0)" unfolding parsers_level by (rule level_reads [OF e(1)])
    have next': "leads (print_branches bs @ tail) (stops 7) (stops 0)"
      using print_starts(3) [of bs] by (cases "bs = []") (auto simp: tail_def intro!: leads_append split: option.split)
    show ?thesis
      unfolding Some option.case parse_case_expression_def
      by (rule reads_peek [where c = "\<lambda>u. u \<noteq> Kw ''When''" and b = True], rule leads_append, rule first(1), simp add: first(2), simp only: if_True bind_assoc bind_return,
          rule reads_bind, rule read, rule body [unfolded Some], rule next')
  qed
  then have "reads (parse_primary_expression L ?P) (print_expr k (CaseE base bs els)) (CaseE base bs els) (stops 7)"
    using primary_case by (simp add: tail_def)
  then show ?thesis by (rule primary_reads) (use k in auto)
qed

lemma sign_reads:
  assumes "level_reads L m 6 ts e" "k \<le> 6"
  shows "level_reads L (Suc m) k (Sym ''Minus'' # ts) (UnaryOpE OpMinus e)" "level_reads L (Suc m) k (Sym ''Plus'' # ts) (UnaryOpE OpPlus e)"
proof -
  have lower: "level_reads L (Suc m) k us x" if "reads (parse_unary_expression L (parsers_at L (Suc m))) us x (stops 6)" "us \<noteq> []" "hd us \<noteq> Kw ''Not''" for us x
    by (rule level_reads_lower [where j = 6]) (use that assms(2) in \<open>auto simp: level_reads_def binary_levels_def level_parser_def\<close>)
  have "reads (parse_unary_expression L (parsers_at L (Suc m))) (Sym ''Minus'' # ts) (UnaryOpE OpMinus e) (stops 6)"
    unfolding parse_unary_expression_def parsers_level
    by (rule reads_if_yes, simp, rule reads_bind_last, rule level_reads, rule assms(1), rule reads_return)
  from lower [OF this] show "level_reads L (Suc m) k (Sym ''Minus'' # ts) (UnaryOpE OpMinus e)" by simp
  have "reads (parse_unary_expression L (parsers_at L (Suc m))) (Sym ''Plus'' # ts) (UnaryOpE OpPlus e) (stops 6)"
    unfolding parse_unary_expression_def parsers_level
    by (rule reads_if_no, simp, rule reads_if_yes, simp, rule reads_bind_last, rule level_reads, rule assms(1), rule reads_return)
  from lower [OF this] show "level_reads L (Suc m) k (Sym ''Plus'' # ts) (UnaryOpE OpPlus e)" by simp
qed

lemma not_reads:
  assumes "level_reads L m 2 ts e" "k \<le> 2"
  shows "level_reads L (Suc m) k (Kw ''Not'' # ts) (UnaryOpE OpNot e)"
proof (rule level_reads_lower [where j = 2])
  have "reads (parse_not_expression L (parsers_at L (Suc m))) (Kw ''Not'' # ts) (UnaryOpE OpNot e) (stops 2)"
    unfolding parse_not_expression_def parsers_level
    by (rule reads_if_yes, simp, rule reads_bind_last, rule level_reads, rule assms(1), rule reads_return)
  then show "level_reads L (Suc m) 2 (Kw ''Not'' # ts) (UnaryOpE OpNot e)" by (simp add: level_reads_def binary_levels_def level_parser_def)
qed (use assms in auto)

text \<open>The negation at the place of a sign.\<close>

lemma unary_not_reads:
  assumes "level_reads L m 6 ts e" "ts \<noteq> []" "hd ts \<noteq> Kw ''Exists''"
  shows "level_reads L (Suc m) 4 (Kw ''Not'' # ts) (UnaryOpE OpNot e)"
proof (rule level_reads_lower [where j = 6])
  have "reads (parse_unary_expression L (parsers_at L (Suc m))) (Kw ''Not'' # ts) (UnaryOpE OpNot e) (stops 6)"
    unfolding parse_unary_expression_def parsers_level
    by (rule reads_if_no, simp, rule reads_if_no, simp, rule reads_if_yes, simp, rule reads_if_no, rule leads_hd, rule assms(2), rule assms(3),
        rule reads_bind_last, rule level_reads, rule assms(1), rule reads_return)
  then show "level_reads L (Suc m) 6 (Kw ''Not'' # ts) (UnaryOpE OpNot e)" by (simp add: level_reads_def binary_levels_def level_parser_def)
qed (auto split: if_splits)

lemma binary_reads:
  assumes l: "level_reads L n (binary_level op) ts l" and r: "level_reads L n (Suc (binary_level op)) us r"
    and us: "us \<noteq> []" "starts (Suc (binary_level op)) (hd us)"
  shows "level_reads L n (binary_level op) (ts @ operator_words op @ us) (BinaryOpE l op r)"
proof -
  obtain p where p: "\<And>u. token_type u = hd (operator_words op) \<Longrightarrow> level_operator (binary_level op) u = Some p"
    "reads p (tl (operator_words op)) op (\<lambda>t. binary_level op = 3 \<longrightarrow> t \<noteq> Kw ''Not'')" using operator_reads [of op] by blast
  have chain: "chain (level_operator (binary_level op)) (level_parser L (parsers_at L n) (Suc (binary_level op))) (stops (Suc (binary_level op))) ts l"
    using l operator_facts(4) [of op] by (simp add: level_reads_def)
  have "chain (level_operator (binary_level op)) (level_parser L (parsers_at L n) (Suc (binary_level op))) (stops (Suc (binary_level op)))
      (ts @ hd (operator_words op) # tl (operator_words op) @ us) (BinaryOpE l op r)"
    by (rule chain.more [OF chain operator_facts(2,3) p(1,2) us(1) _ level_reads [OF r]]) (use us(2) in \<open>auto simp: starts_def\<close>)
  moreover have "hd (operator_words op) # tl (operator_words op) @ us = operator_words op @ us" by (cases op) simp_all
  ultimately show ?thesis using operator_facts(4) [of op] by (simp add: level_reads_def)
qed

text \<open>What is printed at a level is read at the level, with as many levels of recursion as there are tokens.\<close>

lemma print_reads:
  "printable k e \<Longrightarrow> k \<le> 6 \<Longrightarrow> length (print_expr k e) \<le> n \<Longrightarrow> level_reads L n k (print_expr k e) e"
  "printables k es \<Longrightarrow> k \<le> 6 \<Longrightarrow> e \<in> set es \<Longrightarrow> length (print_exprs k es) \<le> n \<Longrightarrow> level_reads L n k (print_expr k e) e"
  "printable_branches bs \<Longrightarrow> CaseBranch c r \<in> set bs \<Longrightarrow> length (print_branches bs) \<le> n \<Longrightarrow>
     level_reads L n 0 (print_expr 0 c) c \<and> level_reads L n 0 (print_expr 0 r) r"
proof (induction k e and k es and bs arbitrary: n and n e and n c r rule: print_expr_print_exprs_print_branches.induct)
  case (1 k table name)
  then show ?case by (intro primary_reads column_reads) (auto split: option.split)
next
  case (2 k v)
  have "print_value v \<noteq> [] \<and> hd (print_value v) \<notin> {Sym ''Minus'', Sym ''Plus'', Kw ''Not''}" by (cases v) auto
  then show ?case using 2 by (auto intro!: primary_reads value_reads)
next
  case (3 k name args dist)
  then obtain m where m: "n = Suc m" "length (print_exprs 0 args) \<le> m" by (cases n) (auto simp: in_parentheses_def)
  show ?case unfolding m(1) by (rule function_reads) (use 3 m in auto)
next
  case (4 k l op r)
  let ?j = "binary_level op" let ?ts = "print_expr ?j l @ operator_words op @ print_expr (Suc ?j) r"
  have j: "?j \<le> 5" by (cases op) simp_all
  have p: "printable ?j l" "printable (Suc ?j) r" "?j < k \<longrightarrow> 4 \<le> ?j" using "4.prems"(1) by simp_all
  note first = print_starts(1) [OF p(1)] and second = print_starts(1) [OF p(2)]
  have both: "level_reads L m ?j ?ts (BinaryOpE l op r)" if "length ?ts \<le> m" for m
    by (rule binary_reads) (use "4.IH" p j that second in auto)
  show ?case
  proof (cases "?j < k")
    case True
    then obtain m where m: "n = Suc m" "length ?ts \<le> m" using "4.prems"(3) by (cases n) (auto simp: Let_def in_parentheses_def)
    have "level_reads L m 4 ?ts (BinaryOpE l op r)"
      by (rule level_reads_lower [OF both [OF m(2)]]) (use p(3) True j first in auto)
    then have "level_reads L (Suc m) k (in_parentheses ?ts) (BinaryOpE l op r)"
      by (rule paren_reads) (use first "4.prems"(2) in \<open>auto simp: starts_def\<close>)
    then show ?thesis using True m(1) by (simp add: Let_def)
  next
    case False
    then have "length ?ts \<le> n" using "4.prems"(3) by (simp add: Let_def)
    from level_reads_lower [OF both [OF this], of k] show ?thesis
      using False j first by (auto simp: Let_def starts_def)
  qed
next
  case (5 k op e)
  consider "op = OpMinus" | "op = OpPlus" | "op = OpNot" "k \<le> 2" | "op = OpNot" "2 < k" using "5.prems"(1) by (cases "k \<le> 2") auto
  then show ?case
  proof cases
    case 1
    then obtain m where m: "n = Suc m" "length (print_expr 6 e) \<le> m" using "5.prems"(3) by (cases n) auto
    have "level_reads L m 6 (print_expr 6 e) e" using 5 1 m by simp
    from sign_reads(1) [OF this "5.prems"(2)] show ?thesis using 1 m(1) by simp
  next
    case 2
    then obtain m where m: "n = Suc m" "length (print_expr 6 e) \<le> m" using "5.prems"(3) by (cases n) auto
    have "level_reads L m 6 (print_expr 6 e) e" using 5 2 m by simp
    from sign_reads(2) [OF this "5.prems"(2)] show ?thesis using 2 m(1) by simp
  next
    case 3
    then obtain m where m: "n = Suc m" "length (print_expr 2 e) \<le> m" using "5.prems"(3) by (cases n) auto
    have "level_reads L m 2 (print_expr 2 e) e" using 5 3 m by simp
    from not_reads [OF this 3(2)] show ?thesis using 3 m(1) by simp
  next
    case 4
    then obtain m where m: "n = Suc (Suc m)" "length (print_expr 6 e) \<le> m"
      using "5.prems"(3) by (cases n; cases "n - 1") (auto simp: in_parentheses_def)
    have p: "printable 6 e" using "5.prems"(1) 4 by simp
    have "level_reads L m 6 (print_expr 6 e) e" using 5 4 m by simp
    then have "level_reads L (Suc m) 4 (Kw ''Not'' # print_expr 6 e) (UnaryOpE OpNot e)"
      by (rule unary_not_reads) (use print_starts(1) [OF p] in \<open>auto simp: starts_def\<close>)
    then have "level_reads L n k (in_parentheses (Kw ''Not'' # print_expr 6 e)) (UnaryOpE OpNot e)"
      unfolding m(1) by (rule paren_reads) (use "5.prems"(2) in auto)
    then show ?thesis using 4 by simp
  qed
next
  case (6 k e t)
  then obtain m where m: "n = Suc m" "length (print_expr 0 e) \<le> m" by (cases n) (auto simp: in_parentheses_def)
  show ?case unfolding m(1) by (rule cast_reads) (use 6 m in auto)
next
  case (7 k es)
  then obtain m where m: "n = Suc m" "length (print_exprs 4 es) \<le> m" by (cases n) (auto simp: in_parentheses_def)
  show ?case unfolding m(1) by (rule list_reads) (use 7 m in \<open>auto simp: printables_all\<close>)
next
  case (8 k base bs els)
  then obtain m where m: "n = Suc m" "length (print_branches bs) \<le> m" "case base of Some e \<Rightarrow> length (print_expr 0 e) \<le> m | None \<Rightarrow> True"
     "case els of Some e \<Rightarrow> length (print_expr 0 e) \<le> m | None \<Rightarrow> True"
    by (cases n) (auto split: option.splits)
  show ?case unfolding m(1) by (rule case_reads) (use 8 m in \<open>auto split: option.splits\<close>)
next
  case (9 k)
  then show ?case by (intro primary_reads) (auto intro: primary_star)
qed (auto split: if_splits)

end
