(* ===== verification/Parser_Roundtrip.thy ===== *)
theory Parser_Roundtrip
  imports Expression_Roundtrip
begin

section \<open>Printing and parsing statements\<close>

text \<open>
  The printer of statements over the printer of expressions, and that the parser reads back what it writes.
  A parser \<^verbatim>\<open>reads\<close> tokens when, before any token that can follow, it consumes just them; each clause and
  each statement has its lemma, composed as the parser composes its functions.
\<close>

subsection \<open>Definitions: the printer of statements\<close>

text \<open>
  Queries over named tables, with joins and set operations, the statements on rows, the definitions of
  tables and indexes, and the statements of a transaction. An alias is written behind AS.
\<close>

definition print_alias :: "string option \<Rightarrow> TokenType list" where
  "print_alias a = (case a of Some n \<Rightarrow> [Kw ''As'', TkIdentifier n] | None \<Rightarrow> [])"

fun print_table :: "Statement TableRef \<Rightarrow> TokenType list" where
  "print_table (TableName n a) = TkIdentifier n # print_alias a"
| "print_table (TableSubquery _ _) = []"

definition printable_table :: "Statement TableRef \<Rightarrow> bool" where
  "printable_table t \<longleftrightarrow> print_table t \<noteq> []"

fun print_column :: "Statement ColumnSpec \<Rightarrow> TokenType list" where
  "print_column (ColumnSpec e a) = print_expr 0 e @ print_alias a"

fun printable_column :: "Statement ColumnSpec \<Rightarrow> bool" where
  "printable_column (ColumnSpec e a) = printable 0 e"

fun join_words :: "JoinType \<Rightarrow> TokenType list" where
  "join_words InnerJoin = [Kw ''Join'']"
| "join_words LeftJoin = [Kw ''Left'', Kw ''Join'']"
| "join_words RightJoin = [Kw ''Right'', Kw ''Join'']"
| "join_words FullJoin = [Kw ''Full'', Kw ''Join'']"
| "join_words CrossJoin = [Kw ''Cross'', Kw ''Join'']"
| "join_words LeftAntiJoin = [Kw ''Left'', Kw ''Anti'', Kw ''Join'']"
| "join_words LeftSemiJoin = [Kw ''Left'', Kw ''Semi'', Kw ''Join'']"
| "join_words RightAntiJoin = [Kw ''Right'', Kw ''Anti'', Kw ''Join'']"
| "join_words RightSemiJoin = [Kw ''Right'', Kw ''Semi'', Kw ''Join'']"

definition print_when :: "string \<Rightarrow> expr option \<Rightarrow> TokenType list" where
  "print_when word oe = (case oe of Some e \<Rightarrow> Kw word # print_expr 0 e | None \<Rightarrow> [])"

definition printable_when :: "expr option \<Rightarrow> bool" where
  "printable_when oe = (case oe of Some e \<Rightarrow> printable 0 e | None \<Rightarrow> True)"

fun print_join_rest :: "Statement JoinCondition \<Rightarrow> TokenType list" where
  "print_join_rest (JoinCondition t j c) = tl (join_words j) @ print_table t @ print_when ''On'' c"

fun print_join :: "Statement JoinCondition \<Rightarrow> TokenType list" where
  "print_join (JoinCondition t j c) = join_words j @ print_table t @ print_when ''On'' c"

fun printable_join :: "Statement JoinCondition \<Rightarrow> bool" where
  "printable_join (JoinCondition t j c) = (printable_table t \<and> printable_when c)"

fun print_order :: "Statement OrderBy \<Rightarrow> TokenType list" where
  "print_order (OrderBy e d nulls) = print_expr 0 e @ Kw (if d = Asc then ''Asc'' else ''Desc'') #
     (case nulls of NullsFirst \<Rightarrow> [Kw ''Nulls'', Kw ''First''] | NullsLast \<Rightarrow> [Kw ''Nulls'', Kw ''Last''] | NullsDefault \<Rightarrow> [])"

fun printable_order :: "Statement OrderBy \<Rightarrow> bool" where
  "printable_order (OrderBy e d nulls) = printable 0 e"

definition print_by :: "string \<Rightarrow> ('a \<Rightarrow> TokenType list) \<Rightarrow> 'a list \<Rightarrow> TokenType list" where
  "print_by word pr xs = (if xs = [] then [] else Kw word # Kw ''By'' # print_list pr xs)"

definition print_count :: "string \<Rightarrow> i64 option \<Rightarrow> TokenType list" where
  "print_count word on = (case on of Some n \<Rightarrow> [TkIdentifier word, TkNumber (show_i64 n)] | None \<Rightarrow> [])"

definition print_flag :: "bool \<Rightarrow> string \<Rightarrow> TokenType list" where
  "print_flag b word = (if b then [Kw word] else [])"

text \<open>The clauses of a query, behind SELECT.\<close>

fun print_select_body :: "Statement SelectStatement \<Rightarrow> TokenType list" where
  "print_select_body (SimpleSelect w d cs ts js wh gb hv ob li off ws) =
     print_flag d ''Distinct'' @ print_list print_column cs @ (if ts = [] then [] else Kw ''From'' # print_list print_table ts) @
     concat (map print_join js) @ print_when ''Where'' wh @ print_by ''Group'' (print_expr 0) gb @ print_when ''Having'' hv @
     print_by ''Order'' print_order ob @ print_count ''LIMIT'' li @ print_count ''OFFSET'' off"
| "print_select_body (SetSelect _) = []"

text \<open>
  A star as the first column stands alone there. LIMIT and OFFSET are no keywords: behind a table, or behind
  the columns, they are taken for an alias, so that they need a clause before them.
\<close>

fun printable_select_body :: "Statement SelectStatement \<Rightarrow> bool" where
  "printable_select_body (SimpleSelect w d cs ts js wh gb hv ob li off ws) \<longleftrightarrow>
     w = None \<and> ws = [] \<and> cs \<noteq> [] \<and> list_all printable_column cs \<and>
     (hd (print_column (hd cs)) = Sym ''Asterisk'' \<longrightarrow> hd cs = ColumnSpec StarE None) \<and>
     list_all printable_table ts \<and> list_all printable_join js \<and> printable_when wh \<and> list_all (printable 0) gb \<and> printable_when hv \<and>
     list_all printable_order ob \<and> (li \<noteq> None \<or> off \<noteq> None \<longrightarrow> wh \<noteq> None \<or> gb \<noteq> [] \<or> hv \<noteq> None \<or> ob \<noteq> [])"
| "printable_select_body (SetSelect _) \<longleftrightarrow> False"

definition set_word :: "SetOperator \<Rightarrow> string" where
  "set_word op = (case op of UnionOp \<Rightarrow> ''Union'' | IntersectOp \<Rightarrow> ''Intersect'' | ExceptOp \<Rightarrow> ''Except'')"

text \<open>A query: the set operations associate to the left.\<close>

fun print_select :: "Statement SelectStatement \<Rightarrow> TokenType list" where
  "print_select (SetSelect (SetOperation op l r all)) =
     print_select l @ Kw (set_word op) # print_flag all ''All'' @ Kw ''Select'' # print_select_body r"
| "print_select q = Kw ''Select'' # print_select_body q"

fun printable_select :: "Statement SelectStatement \<Rightarrow> bool" where
  "printable_select (SetSelect (SetOperation op l r all)) = (printable_select l \<and> printable_select_body r)"
| "printable_select q = printable_select_body q"

definition print_names :: "string list \<Rightarrow> TokenType list" where
  "print_names names = in_parentheses (print_list (\<lambda>n. [TkIdentifier n]) names)"

definition print_values :: "expr list \<Rightarrow> TokenType list" where
  "print_values es = in_parentheses (print_list (print_expr 0) es)"

fun print_assignment :: "string \<times> expr \<Rightarrow> TokenType list" where
  "print_assignment (c, e) = TkIdentifier c # Sym ''Equals'' # print_expr 0 e"

fun print_column_constraint :: "Statement ColumnConstraint \<Rightarrow> TokenType list" where
  "print_column_constraint NotNullC = [Kw ''Not'', Kw ''Null'']"
| "print_column_constraint NullC = [Kw ''Null'']"
| "print_column_constraint (DefaultC text) = [Kw ''Default'', TkString text]"
| "print_column_constraint PrimaryKeyC = [Kw ''Primary'', Kw ''Key'']"
| "print_column_constraint UniqueC = [Kw ''Unique'']"
| "print_column_constraint (CheckC e) = Kw ''Check'' # in_parentheses (print_expr 0 e)"
| "print_column_constraint (ReferencesC t c) =
     Kw ''References'' # TkIdentifier t # (case c of Some n \<Rightarrow> in_parentheses [TkIdentifier n] | None \<Rightarrow> [])"

fun printable_column_constraint :: "Statement ColumnConstraint \<Rightarrow> bool" where
  "printable_column_constraint (CheckC e) = printable 0 e"
| "printable_column_constraint _ = True"

fun print_column_def :: "Statement AstColumnDef \<Rightarrow> TokenType list" where
  "print_column_def (AstColumnDef n t cs) = TkIdentifier n # print_kind (dt_kind t) @ concat (map print_column_constraint cs)"

fun printable_column_def :: "Statement AstColumnDef \<Rightarrow> bool" where
  "printable_column_def (AstColumnDef n t cs) \<longleftrightarrow>
     t = DataType_new (dt_kind t) \<and> printable_kind (dt_kind t) \<and> list_all printable_column_constraint cs"

definition print_constraint_name :: "string option \<Rightarrow> TokenType list" where
  "print_constraint_name on = (case on of Some n \<Rightarrow> [Kw ''Constraint'', TkIdentifier n] | None \<Rightarrow> [])"

fun print_table_constraint :: "Statement AstTableConstraint \<Rightarrow> TokenType list" where
  "print_table_constraint (PrimaryKeyT cs n) = print_constraint_name n @ Kw ''Primary'' # Kw ''Key'' # print_names cs"
| "print_table_constraint (ForeignKeyT cs t rs n) =
     print_constraint_name n @ Kw ''Foreign'' # Kw ''Key'' # print_names cs @ Kw ''References'' # TkIdentifier t # print_names rs"
| "print_table_constraint (UniqueT cs n) = print_constraint_name n @ Kw ''Unique'' # print_names cs"
| "print_table_constraint (CheckT e n) = print_constraint_name n @ Kw ''Check'' # in_parentheses (print_expr 0 e)"

fun printable_table_constraint :: "Statement AstTableConstraint \<Rightarrow> bool" where
  "printable_table_constraint (PrimaryKeyT cs n) \<longleftrightarrow> cs \<noteq> []"
| "printable_table_constraint (ForeignKeyT cs t rs n) \<longleftrightarrow> cs \<noteq> [] \<and> rs \<noteq> []"
| "printable_table_constraint (UniqueT cs n) \<longleftrightarrow> cs \<noteq> []"
| "printable_table_constraint (CheckT e n) \<longleftrightarrow> printable 0 e"

fun statement_tokens :: "Statement \<Rightarrow> TokenType list" where
  "statement_tokens (SelectS q) = print_select q"
| "statement_tokens (InsertS (InsertStatement t cs rows)) =
     Kw ''Insert'' # Kw ''Into'' # print_table t @ (if cs = [] then [] else print_names cs) @ Kw ''Values'' # print_list print_values rows"
| "statement_tokens (UpdateS (UpdateStatement t assignments wh)) =
     Kw ''Update'' # print_table t @ Kw ''Set'' # print_list print_assignment assignments @ print_when ''Where'' wh"
| "statement_tokens (DeleteS (DeleteStatement t wh)) = Kw ''Delete'' # Kw ''From'' # print_table t @ print_when ''Where'' wh"
| "statement_tokens (CreateTableS (CreateTableStatement n cs tcs if_not_exists)) =
     Kw ''Create'' # Kw ''Table'' # (if if_not_exists then [Kw ''If'', Kw ''Not'', Kw ''Exists''] else []) @ TkIdentifier n #
       in_parentheses (print_list (\<lambda>ts. ts) (map print_column_def cs @ map print_table_constraint tcs))"
| "statement_tokens (CreateIndexS (CreateIndexStatement n t cs uniq if_not_exists)) =
     Kw ''Create'' # print_flag uniq ''Unique'' @ Kw ''Index'' # (if if_not_exists then [Kw ''If'', Kw ''Not'', Kw ''Exists''] else []) @
       TkIdentifier n # Kw ''On'' # TkIdentifier t # print_names cs"
| "statement_tokens (DropTableS (DropTableStatement n if_exists)) =
     Kw ''Drop'' # Kw ''Table'' # (if if_exists then [Kw ''If'', Kw ''Exists''] else []) @ [TkIdentifier n]"
| "statement_tokens (DropIndexS (DropIndexStatement n if_exists)) =
     Kw ''Drop'' # Kw ''Index'' # (if if_exists then [Kw ''If'', Kw ''Exists''] else []) @ [TkIdentifier n]"
| "statement_tokens BeginTransactionS = [Kw ''Begin'']"
| "statement_tokens CommitTransactionS = [Kw ''Commit'']"
| "statement_tokens RollbackTransactionS = [Kw ''Rollback'']"
| "statement_tokens _ = []"

fun printable_statement :: "Statement \<Rightarrow> bool" where
  "printable_statement (SelectS q) \<longleftrightarrow> printable_select q"
| "printable_statement (InsertS (InsertStatement t cs rows)) \<longleftrightarrow>
     printable_table t \<and> rows \<noteq> [] \<and> list_all (\<lambda>es. es \<noteq> [] \<and> list_all (printable 0) es) rows"
| "printable_statement (UpdateS (UpdateStatement t assignments wh)) \<longleftrightarrow>
     printable_table t \<and> assignments \<noteq> [] \<and> list_all (\<lambda>(c, e). printable 0 e) assignments \<and> printable_when wh"
| "printable_statement (DeleteS (DeleteStatement t wh)) \<longleftrightarrow> printable_table t \<and> printable_when wh"
| "printable_statement (CreateTableS (CreateTableStatement n cs tcs if_not_exists)) \<longleftrightarrow>
     (cs \<noteq> [] \<or> tcs \<noteq> []) \<and> list_all printable_column_def cs \<and> list_all printable_table_constraint tcs"
| "printable_statement (CreateIndexS (CreateIndexStatement n t cs uniq if_not_exists)) \<longleftrightarrow> cs \<noteq> []"
| "printable_statement s \<longleftrightarrow> statement_tokens s \<noteq> []"

text \<open>Statements, each with its semicolon.\<close>

definition print_script :: "Statement list \<Rightarrow> TokenType list" where
  "print_script ss = concat (map (\<lambda>s. statement_tokens s @ [Sym ''Semicolon'']) ss)"

subsection \<open>Lemmas: clauses\<close>

lemma expr_reads:
  "printable 0 e \<Longrightarrow> length (print_expr 0 e) \<le> n \<Longrightarrow> reads (parse_expression L (parsers_at L n)) (print_expr 0 e) e (stops 0)"
  using level_reads [OF print_reads(1) [of 0 e n L]] by (simp add: level_parser_def parse_expression_def)

text \<open>What stands behind a query or a statement.\<close>

definition ends :: "TokenType \<Rightarrow> bool" where
  "ends t \<longleftrightarrow> t \<in> {TkEOF, Sym ''Semicolon'', Sym ''RightParen'', Kw ''Union'', Kw ''Intersect'', Kw ''Except''}"

definition plain :: "TokenType \<Rightarrow> bool" where
  "plain t \<longleftrightarrow> t \<noteq> Kw ''As'' \<and> identifier_of t = None"

lemma identifier_of_EOF [simp]: "identifier_of TkEOF = None"
  by (simp add: identifier_of_def)

lemma plain_simps [simp]: "plain (Kw w) \<longleftrightarrow> w \<noteq> ''As''" "plain (Sym w)" "plain TkEOF"
  by (simp_all add: plain_def)

lemma ends_stops: "ends t \<Longrightarrow> stops k t \<and> plain t"
  by (auto simp: ends_def stops_def all_operators_def)

lemma stops_words [simp]:
  "stops k (Kw ''From'')" "stops k (Kw ''Join'')" "stops k (Kw ''Left'')" "stops k (Kw ''Right'')" "stops k (Kw ''Full'')" "stops k (Kw ''Cross'')"
  "stops k (Kw ''Where'')" "stops k (Kw ''Group'')" "stops k (Kw ''Having'')" "stops k (Kw ''Order'')" "stops k (Kw ''On'')"
  "stops k (Kw ''Asc'')" "stops k (Kw ''Desc'')" "stops k (TkIdentifier i)"
  by (simp_all add: stops_def all_operators_def)

lemma leads_tokens: "(ts \<noteq> [] \<Longrightarrow> Q (hd ts)) \<Longrightarrow> leads us R Q \<Longrightarrow> leads (ts @ us) R Q"
  by (cases ts) auto

lemma reads_none_last: "reads (match_some h) [] None (\<lambda>t. \<forall>u. token_type u = t \<longrightarrow> h u = None)"
  unfolding reads_def
proof (intro allI impI)
  fix s t rest
  assume s: "ahead s ([] @ t # rest)" and t: "\<forall>u. token_type u = t \<longrightarrow> h u = None"
  then have "h (peek_token s) = None" using ahead_peek(1) [of s t rest] by simp
  then show "\<exists>s'. match_some h s = (Ok None, s') \<and> ahead s' (t # rest)" using s by (simp add: match_some_def)
qed

lemma alias_reads: "reads parse_alias (print_alias a) a plain"
proof (cases a)
  case None
  have "reads parse_alias [] None plain"
    unfolding parse_alias_def
    by (rule reads_if_no, simp add: plain_def, rule reads_less, rule reads_none_last) (simp add: plain_def)
  then show ?thesis using None by (simp add: print_alias_def)
next
  case (Some n)
  have "reads parse_alias [Kw ''As'', TkIdentifier n] (Some n) plain"
    unfolding parse_alias_def by (rule reads_if_yes, simp, rule reads_identifier, rule reads_return)
  then show ?thesis using Some by (simp add: print_alias_def)
qed

lemma print_alias_lead: "print_alias a \<noteq> [] \<Longrightarrow> hd (print_alias a) = Kw ''As''"
  by (simp add: print_alias_def split: option.splits)

lemma table_reads:
  assumes "printable_table t"
  shows "reads (parse_table_ref P) (print_table t) t plain"
proof -
  obtain n a where t: "t = TableName n a" using assms by (cases t) (auto simp: printable_table_def)
  show ?thesis
    unfolding t print_table.simps parse_table_ref_def
    by (rule reads_if_no, simp, rule reads_identifier, rule reads_bind_last, rule alias_reads, rule reads_return)
qed

lemma column_spec_reads:
  assumes "printable_column c" "length (print_column c) \<le> n"
  shows "reads (parse_column (parse_expression L (parsers_at L n))) (print_column c) c (\<lambda>t. stops 0 t \<and> plain t)"
proof -
  obtain e a where c: "c = ColumnSpec e a" by (cases c)
  have al: "reads (parse_alias) (print_alias a) a (\<lambda>t. stops 0 t \<and> plain t)" by (rule reads_less [OF alias_reads]) simp
  have e: "reads (parse_expression L (parsers_at L n)) (print_expr 0 e) e (stops 0)"
    by (rule expr_reads) (use assms c in simp_all)
  have "leads (print_alias a) (\<lambda>t. stops 0 t \<and> plain t) (stops 0)" by (cases a) (simp_all add: print_alias_def)
  then show ?thesis
    unfolding c print_column.simps parse_column_def
    by - (rule reads_bind, rule e, rule reads_bind_last, rule al, rule reads_return)
qed

lemma print_list_length: "x \<in> set xs \<Longrightarrow> length (pr x) \<le> length (print_list pr xs)"
proof (cases xs)
  case (Cons y ys)
  assume x: "x \<in> set xs"
  have "length (pr x) \<le> length (concat (map (\<lambda>y. Sym ''Comma'' # pr y) ys))" if "x \<in> set ys"
    using that by (induction ys) auto
  then show ?thesis using x Cons by (auto simp: print_list_def)
qed simp

lemma column_lead: "printable_column c \<Longrightarrow> print_column c \<noteq> [] \<and> starts 0 (hd (print_column c))"
  using print_starts(1) by (cases c) auto

lemma select_list_reads:
  assumes cs: "cs \<noteq> []" "list_all printable_column cs" "hd (print_column (hd cs)) = Sym ''Asterisk'' \<longrightarrow> hd cs = ColumnSpec StarE None"
    and n: "length (print_list print_column cs) \<le> n"
  shows "reads (parse_select_list (parse_expression L (parsers_at L n))) (print_list print_column cs) cs (\<lambda>t. (stops 0 t \<and> plain t) \<and> t \<noteq> Sym ''Comma'')"
proof -
  obtain d ds where ds: "cs = d # ds" using cs(1) by (cases cs) auto
  have read: "reads (parse_column (parse_expression L (parsers_at L n))) (print_column c) c (\<lambda>t. stops 0 t \<and> plain t)" if "c \<in> set cs" for c
    by (rule column_spec_reads) (use that cs(2) n print_list_length [OF that, of print_column] in \<open>auto simp: list_all_iff\<close>)
  let ?R = "\<lambda>t. stops 0 t \<and> plain t"
  let ?more = "concat (map (\<lambda>y. Sym ''Comma'' # print_column y) ds)"
  have loop: "reads (while_token (Sym ''Comma'') (\<lambda>cs. st_bind (parse_column (parse_expression L (parsers_at L n))) (\<lambda>c. st_return (cs @ [c]))) [d])
      ?more ([d] @ ds) (\<lambda>t. ?R t \<and> t \<noteq> Sym ''Comma'')"
    by (rule reads_commas) (use read ds in auto)
  have follow: "leads ?more (\<lambda>t. ?R t \<and> t \<noteq> Sym ''Comma'') ?R" by (cases ds) auto
  show ?thesis
  proof (cases "d = ColumnSpec StarE None")
    case True
    then show ?thesis
      unfolding ds parse_select_list_def print_list_def list.case
      by (simp add: print_alias_def) (rule reads_yes, simp, use loop in \<open>simp add: True\<close>)
  next
    case False
    then have "hd (print_column d) \<noteq> Sym ''Asterisk''" using cs(3) ds by auto
    moreover have "print_column d \<noteq> []" using column_lead [of d] cs(2) ds by auto
    ultimately show ?thesis
      unfolding ds parse_select_list_def print_list_def list.case
      by - (rule reads_no, rule leads_append, assumption, assumption, simp only: if_False, rule reads_bind, rule read, simp add: ds,
          use loop in simp, rule follow)
  qed
qed

lemma from_reads:
  assumes "list_all printable_table ts"
  shows "reads (parse_from P) (if ts = [] then [] else Kw ''From'' # print_list print_table ts) ts (\<lambda>t. (plain t \<and> t \<noteq> Sym ''Comma'') \<and> t \<noteq> Kw ''From'')"
proof (cases "ts = []")
  case True
  then show ?thesis unfolding parse_from_def by (simp add: reads_if_no reads_return)
next
  case False
  have "reads (comma_list (parse_table_ref P)) (print_list print_table ts) ts (\<lambda>t. plain t \<and> t \<noteq> Sym ''Comma'')"
    by (rule reads_comma_list) (use assms False table_reads in \<open>simp_all add: list_all_iff\<close>)
  then have "reads (comma_list (parse_table_ref P)) (print_list print_table ts) ts (\<lambda>t. (plain t \<and> t \<noteq> Sym ''Comma'') \<and> t \<noteq> Kw ''From'')"
    by (rule reads_less) simp
  then show ?thesis
    unfolding parse_from_def using False by (simp add: reads_if_yes)
qed

lemma when_reads:
  assumes "printable_when oe" "length (print_when word oe) \<le> n"
  shows "reads (when_token (Kw word) (parse_expression L (parsers_at L n))) (print_when word oe) oe (\<lambda>t. stops 0 t \<and> t \<noteq> Kw word)"
proof (cases oe)
  case None
  then show ?thesis unfolding when_token_def by (simp add: print_when_def reads_if_no reads_return)
next
  case (Some e)
  have "reads (parse_expression L (parsers_at L n)) (print_expr 0 e) e (\<lambda>t. stops 0 t \<and> t \<noteq> Kw word)"
    by (rule reads_less [OF expr_reads]) (use assms Some in \<open>auto simp: printable_when_def print_when_def\<close>)
  then show ?thesis
    unfolding when_token_def Some print_when_def option.case
    by - (rule reads_if_yes, simp, rule reads_bind_last, assumption, rule reads_return)
qed

lemma by_reads:
  assumes "R (Sym ''Comma'')" "\<And>x. x \<in> set xs \<Longrightarrow> reads p (pr x) x R"
  shows "reads (parse_by_list (Kw word) p) (print_by word pr xs) xs (\<lambda>t. (R t \<and> t \<noteq> Sym ''Comma'') \<and> t \<noteq> Kw word)"
proof (cases "xs = []")
  case True
  then show ?thesis unfolding parse_by_list_def by (simp add: print_by_def reads_if_no reads_return)
next
  case False
  have "reads (comma_list p) (print_list pr xs) xs (\<lambda>t. R t \<and> t \<noteq> Sym ''Comma'')"
    by (rule reads_comma_list) (use assms False in auto)
  then have "reads (comma_list p) (print_list pr xs) xs (\<lambda>t. (R t \<and> t \<noteq> Sym ''Comma'') \<and> t \<noteq> Kw word)"
    by (rule reads_less) simp
  then show ?thesis
    unfolding parse_by_list_def using False by (simp add: print_by_def reads_if_yes reads_consume)
qed

lemma order_reads:
  assumes "printable_order ob" "length (print_order ob) \<le> n"
  shows "reads (parse_order_by (parse_expression L (parsers_at L n))) (print_order ob) ob (\<lambda>t. t \<noteq> Kw ''Nulls'')"
proof -
  obtain e d nulls where ob: "ob = OrderBy e d nulls" by (cases ob)
  have e: "reads (parse_expression L (parsers_at L n)) (print_expr 0 e) e (stops 0)" by (rule expr_reads) (use assms ob in simp_all)
  define q where "q = (\<lambda>direction. st_bind (match_token (Kw ''Nulls'')) (\<lambda>b.
     st_bind (if b then st_bind (match_token (Kw ''First'')) (\<lambda>first.
           if first then st_return NullsFirst
           else st_bind (match_token (Kw ''Last'')) (\<lambda>last.
             if last then st_return NullsLast else st_fail (ParseError ''Expected FIRST or LAST after NULLS'')))
         else st_return NullsDefault) (\<lambda>nulls.
       st_return (OrderBy e (case direction of Some d \<Rightarrow> d | None \<Rightarrow> Asc) nulls))))"
  have q: "reads (q (Some d)) (case nulls of NullsFirst \<Rightarrow> [Kw ''Nulls'', Kw ''First''] | NullsLast \<Rightarrow> [Kw ''Nulls'', Kw ''Last''] | NullsDefault \<Rightarrow> [])
      (OrderBy e d nulls) (\<lambda>t. t \<noteq> Kw ''Nulls'')"
  proof (cases nulls)
    case NullsFirst
    show ?thesis
      unfolding q_def NullsFirst NullsPosition.case
      by (rule reads_yes, simp, simp only: if_True bind_assoc, rule reads_yes, simp, simp only: if_True bind_return option.case, rule reads_return)
  next
    case NullsLast
    show ?thesis
      unfolding q_def NullsLast NullsPosition.case
      by (rule reads_yes, simp, simp only: if_True bind_assoc, rule reads_no, simp, simp only: if_False bind_assoc, rule reads_yes, simp,
          simp only: if_True bind_return option.case, rule reads_return)
  next
    case NullsDefault
    show ?thesis
      unfolding q_def NullsDefault NullsPosition.case
      by (rule reads_no, simp, simp only: if_False bind_return option.case, rule reads_return)
  qed
  show ?thesis
    unfolding ob print_order.simps parse_order_by_def
    by (rule reads_bind, rule e, fold q_def, rule reads_some [where z = d], simp, (cases d; simp), rule q) simp
qed

text \<open>The words of a join.\<close>

definition join_rest :: "JoinType \<Rightarrow> JoinType parser" where
  "join_rest j = the (join_begin (Token_new (hd (join_words j)) 0 0 []))"

lemma join_begin_type: "token_type u = token_type v \<Longrightarrow> join_begin u = join_begin v"
  by (simp add: join_begin_def join_word_def)

lemma join_begin_word: "token_type u = hd (join_words j) \<Longrightarrow> join_begin u = Some (join_rest j)"
proof -
  assume "token_type u = hd (join_words j)"
  then have "join_begin u = join_begin (Token_new (hd (join_words j)) 0 0 [])" by (intro join_begin_type) (simp add: Token_new_def)
  moreover have "join_begin (Token_new (hd (join_words j)) 0 0 []) \<noteq> None"
    by (cases j) (simp_all add: join_begin_def join_word_def Token_new_def Let_def)
  ultimately show ?thesis by (auto simp: join_rest_def)
qed

lemma join_variants_read:
  assumes "v = st_bind (match_token (Kw ''Outer'')) (\<lambda>outer. if outer then st_return x else
     st_bind (match_token (Kw ''Anti'')) (\<lambda>a. if a then st_return y else
     st_bind (match_token (Kw ''Semi'')) (\<lambda>b. if b then st_return z else st_return x)))"
  shows "reads (st_bind v (\<lambda>j. st_bind (consume_token (Kw ''Join'')) (\<lambda>_. st_return j))) [Kw ''Join''] x R"
    "reads (st_bind v (\<lambda>j. st_bind (consume_token (Kw ''Join'')) (\<lambda>_. st_return j))) [Kw ''Anti'', Kw ''Join''] y R"
    "reads (st_bind v (\<lambda>j. st_bind (consume_token (Kw ''Join'')) (\<lambda>_. st_return j))) [Kw ''Semi'', Kw ''Join''] z R"
proof -
  have join: "reads (st_bind (consume_token (Kw ''Join'')) (\<lambda>_. st_return j)) [Kw ''Join''] j R" for j :: 'a
    by (rule reads_consume, simp, rule reads_return)
  show "reads (st_bind v (\<lambda>j. st_bind (consume_token (Kw ''Join'')) (\<lambda>_. st_return j))) [Kw ''Join''] x R"
    unfolding assms bind_assoc
    by (rule reads_no, simp, simp only: if_False bind_assoc, rule reads_no, simp, simp only: if_False bind_assoc, rule reads_no, simp,
        simp only: if_False bind_return, rule join)
  show "reads (st_bind v (\<lambda>j. st_bind (consume_token (Kw ''Join'')) (\<lambda>_. st_return j))) [Kw ''Anti'', Kw ''Join''] y R"
    unfolding assms bind_assoc
    by (rule reads_no, simp, simp only: if_False bind_assoc, rule reads_yes, simp, simp only: if_True bind_return, rule join)
  show "reads (st_bind v (\<lambda>j. st_bind (consume_token (Kw ''Join'')) (\<lambda>_. st_return j))) [Kw ''Semi'', Kw ''Join''] z R"
    unfolding assms bind_assoc
    by (rule reads_no, simp, simp only: if_False bind_assoc, rule reads_no, simp, simp only: if_False bind_assoc, rule reads_yes, simp,
        simp only: if_True bind_return, rule join)
qed

lemma join_words_reads: "reads (join_rest j) (tl (join_words j)) j (\<lambda>_. True)"
proof -
  have join: "reads (st_bind (consume_token (Kw ''Join'')) (\<lambda>_. st_return j)) [Kw ''Join''] j R" for R and j :: JoinType
    by (rule reads_consume, simp, rule reads_return)
  have full: "reads (st_bind (st_bind (match_token (Kw ''Outer'')) (\<lambda>_. st_return FullJoin)) (\<lambda>j. st_bind (consume_token (Kw ''Join'')) (\<lambda>_. st_return j)))
      [Kw ''Join''] FullJoin R" for R
    unfolding bind_assoc by (rule reads_no, simp, simp only: bind_return, rule join)
  show ?thesis
    by (cases j; simp only: join_rest_def join_begin_def join_word_def Token_new_def Let_def join_words.simps list.sel Token.simps
        TokenType.inject list.inject char.inject option.map option.sel if_True if_False bind_return simp_thms;
        rule join full reads_return join_variants_read [OF refl])
qed

fun join_kind :: "Statement JoinCondition \<Rightarrow> JoinType" where
  "join_kind (JoinCondition t j c) = j"

lemma join_reads:
  assumes "printable_join j" "length (print_join j) \<le> n"
  shows "reads (st_bind (join_rest (join_kind j)) (\<lambda>join_type.
     st_bind (parse_table_ref P) (\<lambda>table. st_bind (when_token (Kw ''On'') (parse_expression L (parsers_at L n))) (\<lambda>condition.
       st_return (joins @ [JoinCondition table join_type condition]))))) (print_join_rest j) (joins @ [j]) (\<lambda>t. (stops 0 t \<and> plain t) \<and> t \<noteq> Kw ''On'')"
proof -
  obtain t jt c where j: "j = JoinCondition t jt c" by (cases j)
  have w: "reads (when_token (Kw ''On'') (parse_expression L (parsers_at L n))) (print_when ''On'' c) c (\<lambda>t. stops 0 t \<and> t \<noteq> Kw ''On'')"
    by (rule when_reads) (use assms j in simp_all)
  have w': "reads (when_token (Kw ''On'') (parse_expression L (parsers_at L n))) (print_when ''On'' c) c (\<lambda>t. (stops 0 t \<and> plain t) \<and> t \<noteq> Kw ''On'')"
    by (rule reads_less [OF w]) simp
  have lead: "leads (print_when ''On'' c) (\<lambda>t. (stops 0 t \<and> plain t) \<and> t \<noteq> Kw ''On'') plain"
    by (cases c) (simp_all add: print_when_def)
  have t: "printable_table t" using assms(1) j by simp
  show ?thesis
    unfolding j print_join_rest.simps join_kind.simps
    by (rule reads_bind, rule join_words_reads, rule reads_bind, rule table_reads, rule t, rule reads_bind_last,
        rule w', rule reads_return, rule lead, cases t) (use t in \<open>simp_all add: printable_table_def\<close>)
qed

lemma print_join_split: "print_join j = hd (join_words (join_kind j)) # print_join_rest j"
proof -
  obtain t jt c where "j = JoinCondition t jt c" by (cases j)
  then show ?thesis by (cases jt) simp_all
qed

lemma joins_reads:
  assumes "list_all printable_join js" "length (concat (map print_join js)) \<le> n"
  shows "reads (parse_joins (parse_expression L (parsers_at L n)) P) (concat (map print_join js)) js
    (\<lambda>t. ((stops 0 t \<and> plain t) \<and> t \<noteq> Kw ''On'') \<and> (\<forall>u. token_type u = t \<longrightarrow> join_begin u = None))"
proof -
  have length: "length (print_join j) \<le> n" if "j \<in> set js" for j
    using assms(2) that by (induction js) auto
  define w where "w = (\<lambda>j. hd (join_words (join_kind j)))"
  have w: "w j \<noteq> TkEOF \<and> (stops 0 (w j) \<and> plain (w j)) \<and> w j \<noteq> Kw ''On''" for j
    by (cases "join_kind j") (simp_all add: w_def)
  define body where "body = (\<lambda>rest_of_words joins. st_bind rest_of_words (\<lambda>join_type. st_bind (parse_table_ref P) (\<lambda>table.
     st_bind (when_token (Kw ''On'') (parse_expression L (parsers_at L n))) (\<lambda>condition. st_return (joins @ [JoinCondition table join_type condition])))))"
  have "reads (body (join_rest (join_kind j)) a) (print_join_rest j) (a @ [j]) (\<lambda>t. (stops 0 t \<and> plain t) \<and> t \<noteq> Kw ''On'')" if "j \<in> set js" for j a
    using join_reads [of j n P L a] assms(1) length [OF that] that unfolding body_def by (simp add: list_all_iff)
  then have "reads (parse_loop (match_some join_begin) body []) (concat (map (\<lambda>j. w j # print_join_rest j) js)) (foldl (\<lambda>a j. a @ [j]) [] js)
      (\<lambda>t. ((stops 0 t \<and> plain t) \<and> t \<noteq> Kw ''On'') \<and> (\<forall>u. token_type u = t \<longrightarrow> join_begin u = None))"
    by (intro reads_loop [where z = "\<lambda>j. join_rest (join_kind j)"]) (use w join_begin_word in \<open>auto simp: w_def\<close>)
  then show ?thesis by (simp add: foldl_snoc w_def print_join_split parse_joins_def body_def cong: map_cong)
qed

lemma count_reads:
  assumes "to_uppercase word = word"
  shows "reads (when_identifier word parse_number) (print_count word c) c (\<lambda>t. \<forall>i. identifier_of t = Some i \<longrightarrow> to_uppercase i \<noteq> word)"
proof (cases c)
  case None
  have "reads (when_identifier word parse_number) [] None (\<lambda>t. \<forall>i. identifier_of t = Some i \<longrightarrow> to_uppercase i \<noteq> word)"
    unfolding when_identifier_def match_identifier_token_def bind_assoc
    by (rule reads_none, simp split: option.split, simp only: bind_return simp_thms if_False, rule reads_return)
  then show ?thesis using None by (simp add: print_count_def)
next
  case (Some k)
  have "reads parse_number [TkNumber (show_i64 k)] k R" for R
    unfolding parse_number_def
    by (rule reads_some [of _ _ "show_i64 k"]) (simp_all add: number_text_def own_value_def parse_show_i64 reads_return)
  then have num: "\<And>R. reads parse_number [TkNumber (show_i64 k)] k R" .
  have "reads (when_identifier word parse_number) [TkIdentifier word, TkNumber (show_i64 k)] (Some k) R" for R
    unfolding when_identifier_def
    by (rule reads_match_identifier, simp only: if_True, rule reads_bind_last, rule num, rule reads_return, rule assms)
  then show ?thesis using Some by (simp add: print_count_def)
qed

text \<open>What can stand behind a clause.\<close>

lemma when_lead: "Q (Kw word) \<Longrightarrow> leads us R Q \<Longrightarrow> leads (print_when word oe @ us) R Q"
  by (rule leads_tokens) (auto simp: print_when_def split: option.splits)

lemma by_lead: "Q (Kw word) \<Longrightarrow> leads us R Q \<Longrightarrow> leads (print_by word pr xs @ us) R Q"
  by (rule leads_tokens) (auto simp: print_by_def split: if_splits)

lemma count_lead: "Q (TkIdentifier word) \<Longrightarrow> leads us R Q \<Longrightarrow> leads (print_count word c @ us) R Q"
  by (rule leads_tokens) (auto simp: print_count_def split: option.splits)

lemma joins_lead:
  "(\<And>w. w \<in> {''Join'', ''Left'', ''Right'', ''Full'', ''Cross''} \<Longrightarrow> Q (Kw w)) \<Longrightarrow> leads us R Q \<Longrightarrow> leads (concat (map print_join js) @ us) R Q"
proof (cases js)
  case (Cons j ks)
  assume Q: "\<And>w. w \<in> {''Join'', ''Left'', ''Right'', ''Full'', ''Cross''} \<Longrightarrow> Q (Kw w)"
  obtain t k c where j: "j = JoinCondition t k c" by (cases j)
  show "leads (concat (map print_join js) @ us) R Q"
    unfolding Cons j by (cases k) (simp_all add: Q)
qed simp

lemma from_lead: "Q (Kw ''From'') \<Longrightarrow> leads us R Q \<Longrightarrow> leads ((if ts = [] then [] else Kw ''From'' # print_list print_table ts) @ us) R Q"
  by simp

lemma clauses_lead:
  assumes "li \<noteq> None \<or> off \<noteq> None \<longrightarrow> wh \<noteq> None \<or> gb \<noteq> [] \<or> hv \<noteq> None \<or> ob \<noteq> []"
    "Q (Kw ''Where'')" "Q (Kw ''Group'')" "Q (Kw ''Having'')" "Q (Kw ''Order'')" "\<And>t. R t \<Longrightarrow> Q t"
  shows "leads (print_when ''Where'' wh @ print_by ''Group'' pr gb @ print_when ''Having'' hv @ print_by ''Order'' pr' ob @
    print_count ''LIMIT'' li @ print_count ''OFFSET'' off) R Q"
  using assms
  by (cases wh; cases gb; cases hv; cases ob; cases li; cases off) (simp_all add: print_when_def print_by_def print_count_def)

lemma no_join: "token_type u = t \<Longrightarrow> t \<notin> {Kw ''Join'', Kw ''Left'', Kw ''Right'', Kw ''Full'', Kw ''Cross'', Kw ''Inner''} \<Longrightarrow> join_begin u = None"
  by (simp add: join_begin_def join_word_def)

lemma ends_facts:
  assumes "ends t"
  shows "stops k t" "plain t" "identifier_of t = None" "t \<noteq> Sym ''Comma''" "t \<noteq> Kw ''On''" "t \<noteq> Kw ''Where''" "t \<noteq> Kw ''Group''" "t \<noteq> Kw ''Having''"
    "t \<noteq> Kw ''Order''" "t \<noteq> Kw ''From''" "t \<noteq> Kw ''Nulls''" "t \<noteq> Kw ''Window''" "token_type u = t \<Longrightarrow> join_begin u = None"
  using assms ends_stops [OF assms] no_join [of u t] by (auto simp: ends_def)

lemma flag_reads: "reads (f b) us y R \<Longrightarrow> (\<not> b \<Longrightarrow> leads us R (\<lambda>t. t \<noteq> Kw word)) \<Longrightarrow> reads (st_bind (match_token (Kw word)) f) (print_flag b word @ us) y R"
  by (cases b) (auto simp: print_flag_def intro: reads_yes reads_no)

lemma select_body_reads:
  assumes q: "printable_select_body q" and n: "length (print_select_body q) \<le> n"
  shows "reads (parse_select_body (parse_expression L (parsers_at L n)) P) (print_select_body q) q ends"
proof -
  obtain w d cs ts js wh gb hv ob li off ws where qq: "q = SimpleSelect w d cs ts js wh gb hv ob li off ws" using q by (cases q) auto
  note p = q [unfolded qq printable_select_body.simps]
  have n': "length (print_list print_column cs) \<le> n" "length (concat (map print_join js)) \<le> n" "length (print_when ''Where'' wh) \<le> n"
    "length (print_by ''Group'' (print_expr 0) gb) \<le> n" "length (print_when ''Having'' hv) \<le> n" "length (print_by ''Order'' print_order ob) \<le> n"
    using n qq by simp_all
  let ?E = "parse_expression L (parsers_at L n)"
  have columns: "reads (parse_select_list ?E) (print_list print_column cs) cs (\<lambda>t. (stops 0 t \<and> plain t) \<and> t \<noteq> Sym ''Comma'')"
    by (rule select_list_reads) (use p n' in blast)+
  have tables: "reads (parse_from P) (if ts = [] then [] else Kw ''From'' # print_list print_table ts) ts (\<lambda>t. (plain t \<and> t \<noteq> Sym ''Comma'') \<and> t \<noteq> Kw ''From'')"
    by (rule from_reads) (use p in blast)
  have joins: "reads (parse_joins ?E P) (concat (map print_join js)) js
      (\<lambda>t. ((stops 0 t \<and> plain t) \<and> t \<noteq> Kw ''On'') \<and> (\<forall>u. token_type u = t \<longrightarrow> join_begin u = None))"
    by (rule joins_reads) (use p n' in blast)+
  have whr: "reads (when_token (Kw ''Where'') ?E) (print_when ''Where'' wh) wh (\<lambda>t. stops 0 t \<and> t \<noteq> Kw ''Where'')"
    by (rule when_reads) (use p n' in blast)+
  have "reads ?E (print_expr 0 e) e (stops 0)" if "e \<in> set gb" for e
    using expr_reads [of e n L] p n'(4) that print_list_length [OF that, of "print_expr 0"] by (auto simp: list_all_iff print_by_def split: if_splits)
  then have groups: "reads (parse_by_list (Kw ''Group'') ?E) (print_by ''Group'' (print_expr 0) gb) gb (\<lambda>t. (stops 0 t \<and> t \<noteq> Sym ''Comma'') \<and> t \<noteq> Kw ''Group'')"
    by (intro by_reads) simp_all
  have having: "reads (when_token (Kw ''Having'') ?E) (print_when ''Having'' hv) hv (\<lambda>t. stops 0 t \<and> t \<noteq> Kw ''Having'')"
    by (rule when_reads) (use p n' in blast)+
  have "reads (parse_order_by ?E) (print_order e) e (\<lambda>t. t \<noteq> Kw ''Nulls'')" if "e \<in> set ob" for e
    using order_reads [of e n L] p n'(6) that print_list_length [OF that, of print_order] by (auto simp: list_all_iff print_by_def split: if_splits)
  then have orders: "reads (parse_by_list (Kw ''Order'') (parse_order_by ?E)) (print_by ''Order'' print_order ob) ob (\<lambda>t. (t \<noteq> Kw ''Nulls'' \<and> t \<noteq> Sym ''Comma'') \<and> t \<noteq> Kw ''Order'')"
    by (intro by_reads) simp_all
  have upper: "to_uppercase ''LIMIT'' = ''LIMIT''" "to_uppercase ''OFFSET'' = ''OFFSET''" by (simp_all add: to_uppercase_def to_upper_def is_ascii_lower_def)
  note limit = count_reads [OF upper(1), of li] and offset = count_reads [OF upper(2), of off]
  have counts: "li \<noteq> None \<or> off \<noteq> None \<longrightarrow> wh \<noteq> None \<or> gb \<noteq> [] \<or> hv \<noteq> None \<or> ob \<noteq> []" using p by blast
  have all: "leads (print_when ''Where'' wh @ print_by ''Group'' (print_expr 0) gb @ print_when ''Having'' hv @ print_by ''Order'' print_order ob @
      print_count ''LIMIT'' li @ print_count ''OFFSET'' off) ends Q"
    if "Q (Kw ''Where'')" "Q (Kw ''Group'')" "Q (Kw ''Having'')" "Q (Kw ''Order'')" "\<And>t. ends t \<Longrightarrow> Q t" for Q
    by (rule clauses_lead [OF counts that])
  have wn: "w = None" "ws = []" using p by blast+
  have last: "leads (print_count ''OFFSET'' off) ends Q" if "Q (TkIdentifier ''OFFSET'')" "\<And>t. ends t \<Longrightarrow> Q t" for Q
    using count_lead [of Q "''OFFSET''" "[]" ends off] that by simp
  have columns_lead: "print_list print_column cs \<noteq> []" "hd (print_list print_column cs) \<noteq> Kw ''Distinct''"
    using p column_lead by (cases cs; auto simp: print_list_def starts_def)+
  show ?thesis
    unfolding qq print_select_body.simps parse_select_body_def wn
    by (rule flag_reads, rule reads_bind, rule columns, rule reads_bind, rule tables, rule reads_bind, rule joins, rule reads_bind, rule whr,
        rule reads_bind, rule groups, rule reads_bind, rule having, rule reads_bind, rule orders, rule reads_bind, rule limit, rule reads_bind_last,
        rule reads_less, rule offset, simp add: ends_facts, rule reads_return,
        rule last, simp add: upper, simp add: ends_facts,
        rule count_lead, simp, rule last, simp, simp add: ends_facts,
        rule by_lead, simp, rule count_lead, simp, rule last, simp, simp add: ends_facts,
        rule when_lead, simp, rule by_lead, simp, rule count_lead, simp, rule last, simp, simp add: ends_facts,
        rule by_lead, simp, rule when_lead, simp, rule by_lead, simp, rule count_lead, simp, rule last, simp, simp add: ends_facts,
        rule all, simp add: no_join, simp add: no_join, simp add: no_join, simp add: no_join, simp add: ends_facts,
        rule joins_lead, fastforce, rule all, simp, simp, simp, simp, simp add: ends_facts,
        rule from_lead, simp, rule joins_lead, fastforce, rule all, simp, simp, simp, simp, simp add: ends_facts,
        rule leads_append)
      (use columns_lead in simp_all)
qed

text \<open>A query as its first SELECT and the operands that are added to it.\<close>

fun set_tokens :: "SetOperator \<times> Statement SelectStatement \<times> bool \<Rightarrow> TokenType list" where
  "set_tokens (op, r, all) = print_flag all ''All'' @ Kw ''Select'' # print_select_body r"

fun add_operand :: "Statement SelectStatement \<Rightarrow> SetOperator \<times> Statement SelectStatement \<times> bool \<Rightarrow> Statement SelectStatement" where
  "add_operand l (op, r, all) = SetSelect (SetOperation op l r all)"

lemma select_operands:
  "printable_select q \<Longrightarrow> \<exists>first ops. printable_select_body first \<and> list_all (\<lambda>(op, r, all). printable_select_body r) ops \<and>
     print_select q = Kw ''Select'' # print_select_body first @ concat (map (\<lambda>y. Kw (set_word (fst y)) # set_tokens y) ops) \<and>
     foldl add_operand first ops = q"
proof (induction q rule: print_select.induct)
  case (1 op l r all)
  then obtain first ops where l: "printable_select_body first" "list_all (\<lambda>(op, r, all). printable_select_body r) ops"
     "print_select l = Kw ''Select'' # print_select_body first @ concat (map (\<lambda>y. Kw (set_word (fst y)) # set_tokens y) ops)"
     "foldl add_operand first ops = l" by auto
  then show ?case
    using 1 by (intro exI [of _ first] exI [of _ "ops @ [(op, r, all)]"]) simp
next
  case (2 w d cs ts js wh gb hv ob li off ws)
  then show ?case
    by (intro exI [of _ "SimpleSelect w d cs ts js wh gb hv ob li off ws"] exI [of _ "[]"]) simp
qed

definition finishes :: "TokenType \<Rightarrow> bool" where
  "finishes t \<longleftrightarrow> t \<in> {TkEOF, Sym ''Semicolon'', Sym ''RightParen''}"

lemma finishes_facts:
  assumes "finishes t"
  shows "ends t" "identifier_of t = None" "t \<noteq> Sym ''Comma''" "t \<noteq> Kw ''Where''" "t \<noteq> Sym ''LeftParen''" "stops k t" "plain t"
    "token_type u = t \<Longrightarrow> set_operator u = None"
  using assms ends_stops [of t k] by (auto simp: finishes_def ends_def set_operator_def)

lemma simple_select_reads:
  assumes "printable_select_body q" "length (print_select_body q) \<le> n"
  shows "reads (parse_simple_select (parse_expression L (parsers_at L n)) P) (print_select_body q) q ends"
  unfolding parse_simple_select_def
  by (rule reads_bind_last, rule select_body_reads [OF assms], rule reads_if_no, simp add: ends_facts, rule reads_return)

lemma select_reads:
  assumes q: "printable_select q" and n: "length (print_select q) \<le> n"
  shows "reads (parse_select (parse_expression L (parsers_at L n)) P) (print_select q) q finishes"
proof -
  obtain first ops where o: "printable_select_body first" "list_all (\<lambda>(op, r, all). printable_select_body r) ops"
     "print_select q = Kw ''Select'' # print_select_body first @ concat (map (\<lambda>y. Kw (set_word (fst y)) # set_tokens y) ops)"
     "foldl add_operand first ops = q" using select_operands [OF q] by blast
  let ?E = "parse_expression L (parsers_at L n)"
  have length: "length (set_tokens y) \<le> n" if "y \<in> set ops" for y
  proof -
    have "length (set_tokens y) \<le> length (concat (map (\<lambda>y. Kw (set_word (fst y)) # set_tokens y) ops))"
      using that by (induction ops) auto
    then show ?thesis using n by (simp add: o(3))
  qed
  define body where "body = (\<lambda>op result. st_bind (match_token (Kw ''All'')) (\<lambda>all.
     st_bind (consume_token (Kw ''Select'')) (\<lambda>_. st_bind (parse_simple_select ?E P) (\<lambda>right.
       st_return (SetSelect (SetOperation op result right all))))))"
  have body: "reads (body (fst y) l) (set_tokens y) (add_operand l y) ends" if y: "y \<in> set ops" for y l
  proof -
    obtain op r all where r: "y = (op, r, all)" by (cases y)
    have "reads (parse_simple_select ?E P) (print_select_body r) r ends"
      by (rule simple_select_reads) (use o(2) y length [OF y] r in \<open>auto simp: list_all_iff\<close>)
    then show ?thesis
      unfolding r set_tokens.simps add_operand.simps fst_conv body_def
      by - (rule flag_reads, rule reads_consume, simp, rule reads_bind_last, assumption, rule reads_return, simp)
  qed
  have set_word_ends: "ends (Kw (set_word op))" for op by (cases op) (simp_all add: set_word_def ends_def)
  have ops: "reads (parse_set_operations ?E P first) (concat (map (\<lambda>y. Kw (set_word (fst y)) # set_tokens y) ops)) q
      (\<lambda>t. ends t \<and> (\<forall>u. token_type u = t \<longrightarrow> set_operator u = None))"
    unfolding parse_set_operations_def body_def [symmetric] o(4) [symmetric]
    by (rule reads_loop [where z = fst])
      (use body set_word_ends in \<open>auto simp: set_operator_def set_word_def split: SetOperator.split\<close>)
  have tail: "(\<lambda>q s. if False \<and> token_type (peek_token s) = Sym ''RightParen'' then st_return q s else parse_set_operations ?E P q s) = parse_set_operations ?E P"
    by simp
  have lead: "leads (concat (map (\<lambda>y. Kw (set_word (fst y)) # set_tokens y) ops)) finishes ends"
    using set_word_ends by (cases ops) (auto simp: finishes_facts)
  show ?thesis
    unfolding parse_select_def parse_select_after_select_def o(3) tail
    by (rule reads_consume, simp, rule reads_bind, rule select_body_reads, rule o(1), use n o(3) in simp, rule reads_less, rule ops)
      (simp_all add: finishes_facts lead)
qed

subsection \<open>Lemmas: statements\<close>

lemma reads_dispatch:
  "reads q (t # ts) x R \<Longrightarrow> (\<And>s. token_type (peek_token s) = t \<Longrightarrow> p s = q s) \<Longrightarrow> reads p (t # ts) x R"
  unfolding reads_def
proof (intro allI impI)
  fix s u rest
  assume q: "\<forall>s u rest. ahead s ((t # ts) @ u # rest) \<longrightarrow> R u \<longrightarrow> (\<exists>s'. q s = (Ok x, s') \<and> ahead s' (u # rest))"
    and p: "\<And>s. token_type (peek_token s) = t \<Longrightarrow> p s = q s" and s: "ahead s ((t # ts) @ u # rest)" "R u"
  have "p s = q s" by (rule p) (use s(1) ahead_peek(1) in auto)
  then show "\<exists>s'. p s = (Ok x, s') \<and> ahead s' (u # rest)" using q s by simp
qed

lemma names_reads:
  assumes "cs \<noteq> []"
  shows "reads parenthesized_names (print_names cs) cs R"
proof -
  have "reads (comma_list consume_identifier) (print_list (\<lambda>n. [TkIdentifier n]) cs) cs (\<lambda>u. True \<and> u \<noteq> Sym ''Comma'')"
  proof (rule reads_comma_list)
    show "reads consume_identifier [TkIdentifier y] y (\<lambda>_. True)" for y
      unfolding consume_identifier_def by (rule reads_some [of _ _ y]) (simp_all add: identifier_text_def reads_return)
  qed (use assms in simp_all)
  then show ?thesis
    unfolding print_names_def in_parentheses_def parenthesized_names_def
    by - (rule reads_consume, simp, rule reads_bind, assumption, rule reads_consume, simp, rule reads_return, simp)
qed

lemma optional_names_reads: "reads optional_names (if cs = [] then [] else print_names cs) (if cs = [] then None else Some cs) (\<lambda>t. t \<noteq> Sym ''LeftParen'')"
proof (cases "cs = []")
  case True
  then show ?thesis unfolding optional_names_def when_token_def by (simp add: reads_if_no reads_return)
next
  case False
  have "reads (comma_list consume_identifier) (print_list (\<lambda>n. [TkIdentifier n]) cs) cs (\<lambda>u. True \<and> u \<noteq> Sym ''Comma'')"
  proof (rule reads_comma_list)
    show "reads consume_identifier [TkIdentifier y] y (\<lambda>_. True)" for y
      unfolding consume_identifier_def by (rule reads_some [of _ _ y]) (simp_all add: identifier_text_def reads_return)
  qed (use False in simp_all)
  then have "reads optional_names (print_names cs) (Some cs) (\<lambda>t. t \<noteq> Sym ''LeftParen'')"
    unfolding print_names_def in_parentheses_def optional_names_def when_token_def bind_assoc
    by - (rule reads_if_yes, simp, rule reads_bind, assumption, rule reads_consume, simp, simp only: bind_return, rule reads_return, simp)
  then show ?thesis using False by simp
qed

lemma values_reads:
  assumes "es \<noteq> []" "list_all (printable 0) es" "length (print_values es) \<le> n"
  shows "reads (parse_values (parse_expression L (parsers_at L n))) (print_values es) es R"
proof -
  have "reads (parse_expression L (parsers_at L n)) (print_expr 0 e) e (stops 0)" if "e \<in> set es" for e
    by (rule expr_reads) (use assms(2,3) that print_list_length [OF that, of "print_expr 0"] in \<open>auto simp: list_all_iff print_values_def in_parentheses_def\<close>)
  then have "reads (comma_list (parse_expression L (parsers_at L n))) (print_list (print_expr 0) es) es (\<lambda>u. stops 0 u \<and> u \<noteq> Sym ''Comma'')"
    by (intro reads_comma_list) (use assms(1) in simp_all)
  then show ?thesis
    unfolding parse_values_def print_values_def in_parentheses_def
    by - (rule reads_consume, simp, rule reads_bind, assumption, rule reads_consume, simp, rule reads_return, simp)
qed

lemma insert_reads:
  assumes "printable_statement (InsertS (InsertStatement t cs rows))" "length (statement_tokens (InsertS (InsertStatement t cs rows))) \<le> n"
  shows "reads (parse_insert (parse_expression L (parsers_at L n)) P) (statement_tokens (InsertS (InsertStatement t cs rows)))
    (InsertS (InsertStatement t cs rows)) finishes"
proof -
  have "reads (parse_values (parse_expression L (parsers_at L n))) (print_values es) es (\<lambda>_. True)" if "es \<in> set rows" for es
    by (rule values_reads) (use assms that print_list_length [OF that, of print_values] in \<open>auto simp: list_all_iff\<close>)
  then have rows: "reads (comma_list (parse_values (parse_expression L (parsers_at L n)))) (print_list print_values rows) rows (\<lambda>u. True \<and> u \<noteq> Sym ''Comma'')"
    by (intro reads_comma_list) (use assms(1) in simp_all)
  have t: "printable_table t" using assms(1) by simp
  have columns: "(case (if cs = [] then None else Some cs) of None \<Rightarrow> [] | Some cs \<Rightarrow> cs) = cs" by simp
  have lead: "leads ((if cs = [] then [] else print_names cs) @ Kw ''Values'' # ts) R plain" for ts R
    by (simp add: print_names_def in_parentheses_def)
  show ?thesis
    unfolding statement_tokens.simps parse_insert_def
    by (rule reads_consume, simp, rule reads_consume, simp, rule reads_bind, rule table_reads, rule t, rule reads_bind, rule optional_names_reads,
        rule reads_consume, simp, rule reads_bind_last, rule reads_less, rule rows, simp add: finishes_facts, simp only: columns, rule reads_return, simp, rule lead)
qed

lemma update_reads:
  assumes "printable_statement (UpdateS (UpdateStatement t as wh))" "length (statement_tokens (UpdateS (UpdateStatement t as wh))) \<le> n"
  shows "reads (parse_update (parse_expression L (parsers_at L n)) P) (statement_tokens (UpdateS (UpdateStatement t as wh)))
    (UpdateS (UpdateStatement t as wh)) finishes"
proof -
  have "reads (parse_assignment (parse_expression L (parsers_at L n))) (print_assignment a) a (stops 0)" if a: "a \<in> set as" for a
  proof -
    obtain c e where ce: "a = (c, e)" by (cases a)
    have "reads (parse_expression L (parsers_at L n)) (print_expr 0 e) e (stops 0)"
      by (rule expr_reads) (use assms a ce print_list_length [OF a, of print_assignment] in \<open>auto simp: list_all_iff\<close>)
    then show ?thesis
      unfolding ce print_assignment.simps parse_assignment_def
      by - (rule reads_identifier, rule reads_consume, simp, rule reads_bind_last, assumption, rule reads_return)
  qed
  then have as: "reads (comma_list (parse_assignment (parse_expression L (parsers_at L n)))) (print_list print_assignment as) as (\<lambda>u. stops 0 u \<and> u \<noteq> Sym ''Comma'')"
    by (intro reads_comma_list) (use assms(1) in simp_all)
  have t: "printable_table t" using assms(1) by simp
  have wh: "reads (when_token (Kw ''Where'') (parse_expression L (parsers_at L n))) (print_when ''Where'' wh) wh (\<lambda>t. stops 0 t \<and> t \<noteq> Kw ''Where'')"
    by (rule when_reads) (use assms in simp_all)
  show ?thesis
    unfolding statement_tokens.simps parse_update_def
    by (rule reads_consume, simp, rule reads_bind, rule table_reads, rule t, rule reads_consume, simp, rule reads_bind, rule as,
        rule reads_bind_last, rule reads_less, rule wh, simp add: finishes_facts, rule reads_return)
      (use when_lead [of "\<lambda>u. stops 0 u \<and> u \<noteq> Sym ''Comma''" "''Where''" "[]" finishes wh] in \<open>simp_all add: finishes_facts\<close>)
qed

lemma delete_reads:
  assumes "printable_statement (DeleteS (DeleteStatement t wh))" "length (statement_tokens (DeleteS (DeleteStatement t wh))) \<le> n"
  shows "reads (parse_delete (parse_expression L (parsers_at L n)) P) (statement_tokens (DeleteS (DeleteStatement t wh)))
    (DeleteS (DeleteStatement t wh)) finishes"
proof -
  have t: "printable_table t" using assms(1) by simp
  have wh: "reads (when_token (Kw ''Where'') (parse_expression L (parsers_at L n))) (print_when ''Where'' wh) wh (\<lambda>t. stops 0 t \<and> t \<noteq> Kw ''Where'')"
    by (rule when_reads) (use assms in simp_all)
  show ?thesis
    unfolding statement_tokens.simps parse_delete_def
    by (rule reads_consume, simp, rule reads_consume, simp, rule reads_bind, rule table_reads, rule t, rule reads_bind_last, rule reads_less,
        rule wh, simp add: finishes_facts, rule reads_return)
      (use when_lead [of plain "''Where''" "[]" finishes wh] in \<open>simp_all add: finishes_facts\<close>)
qed

text \<open>Words before a name.\<close>

lemma if_exists_reads:
  assumes "reads (f b) us y R" "\<not> b \<Longrightarrow> leads us R (\<lambda>t. t \<noteq> Kw ''If'')"
  shows "reads (st_bind parse_if_exists f) ((if b then [Kw ''If'', Kw ''Exists''] else []) @ us) y R"
proof (cases b)
  case True
  have "reads (st_bind parse_if_exists f) (Kw ''If'' # Kw ''Exists'' # us) y R"
    unfolding parse_if_exists_def bind_assoc
    by (rule reads_yes, simp, simp only: if_True bind_assoc, rule reads_consume, simp, simp only: bind_return) (use assms True in simp)
  then show ?thesis using True by simp
next
  case False
  have "reads (st_bind parse_if_exists f) us y R"
    unfolding parse_if_exists_def bind_assoc by (rule reads_no) (use assms False in simp_all)
  then show ?thesis using False by simp
qed

lemma if_not_exists_reads:
  assumes "reads (f b) us y R" "\<not> b \<Longrightarrow> leads us R (\<lambda>t. t \<noteq> Kw ''If'')"
  shows "reads (st_bind parse_if_not_exists f) ((if b then [Kw ''If'', Kw ''Not'', Kw ''Exists''] else []) @ us) y R"
proof (cases b)
  case True
  have "reads (st_bind parse_if_not_exists f) (Kw ''If'' # Kw ''Not'' # Kw ''Exists'' # us) y R"
    unfolding parse_if_not_exists_def bind_assoc
    by (rule reads_yes, simp, simp only: if_True bind_assoc, rule reads_consume, simp, rule reads_consume, simp, simp only: bind_return)
      (use assms True in simp)
  then show ?thesis using True by simp
next
  case False
  have "reads (st_bind parse_if_not_exists f) us y R"
    unfolding parse_if_not_exists_def bind_assoc by (rule reads_no) (use assms False in simp_all)
  then show ?thesis using False by simp
qed

lemma drop_reads:
  "reads parse_drop (statement_tokens (DropTableS (DropTableStatement n if_exists))) (DropTableS (DropTableStatement n if_exists)) finishes"
  "reads parse_drop (statement_tokens (DropIndexS (DropIndexStatement n if_exists))) (DropIndexS (DropIndexStatement n if_exists)) finishes"
proof -
  have named: "reads (parse_drop_named f) ((if b then [Kw ''If'', Kw ''Exists''] else []) @ [TkIdentifier n]) x finishes"
    if "f b n = st_return x" for f b and x :: Statement
    unfolding parse_drop_named_def by (rule if_exists_reads, rule reads_identifier, simp only: that, rule reads_return, simp)
  show "reads parse_drop (statement_tokens (DropTableS (DropTableStatement n if_exists))) (DropTableS (DropTableStatement n if_exists)) finishes"
    unfolding statement_tokens.simps parse_drop_def by (rule reads_consume, simp, rule reads_if_yes, simp, rule named, rule refl)
  show "reads parse_drop (statement_tokens (DropIndexS (DropIndexStatement n if_exists))) (DropIndexS (DropIndexStatement n if_exists)) finishes"
    unfolding statement_tokens.simps parse_drop_def
    by (rule reads_consume, simp, rule reads_if_no, simp, rule reads_if_yes, simp, rule named, rule refl)
qed

lemma create_index_reads:
  assumes "cs \<noteq> []"
  shows "reads (parse_create L E P) (statement_tokens (CreateIndexS (CreateIndexStatement n t cs uniq ine))) (CreateIndexS (CreateIndexStatement n t cs uniq ine)) finishes"
  unfolding statement_tokens.simps parse_create_def
  by (rule reads_consume, simp, rule flag_reads, rule reads_if_no, simp, rule reads_if_yes, simp, unfold parse_create_index_def, rule if_not_exists_reads,
      rule reads_identifier, rule reads_consume, simp, rule reads_identifier, rule reads_bind_last, rule names_reads, rule assms, rule reads_return) simp_all

lemma transaction_reads:
  assumes "t \<noteq> TkEOF"
  shows "reads (parse_transaction_word t x) [t] x finishes"
proof -
  have none: "reads (st_bind (match_identifier_token name) f) [] y finishes" if "reads (f False) [] y finishes" for name f and y :: 'a
    unfolding match_identifier_token_def bind_assoc
    by (rule reads_none, auto split: option.split simp: finishes_facts)[1] (use that in simp)
  show ?thesis
    unfolding parse_transaction_word_def by (rule reads_consume, rule assms, rule none, rule none, rule reads_return)
qed

text \<open>The elements of a table definition.\<close>

definition after_element :: "TokenType \<Rightarrow> bool" where
  "after_element t \<longleftrightarrow> t = Sym ''Comma'' \<or> t = Sym ''RightParen''"

definition constraint_rest :: "expr_lib \<Rightarrow> expr parser \<Rightarrow> Statement ColumnConstraint \<Rightarrow> Statement ColumnConstraint parser" where
  "constraint_rest L E c = the (constraint_word L E (Token_new (hd (print_column_constraint c)) 0 0 []))"

lemma constraint_word_begin: "token_type u = hd (print_column_constraint c) \<Longrightarrow> constraint_word L E u = Some (constraint_rest L E c)"
  by (cases c) (simp_all add: constraint_rest_def constraint_word_def Token_new_def)

lemma constraint_reads:
  assumes "printable_column_constraint c" "length (print_column_constraint c) \<le> n"
  shows "reads (constraint_rest L (parse_expression L (parsers_at L n)) c) (tl (print_column_constraint c)) c (\<lambda>t. t \<noteq> Sym ''LeftParen'')"
proof (cases c)
  case NotNullC
  show ?thesis
    unfolding NotNullC
    by (simp add: constraint_rest_def constraint_word_def Token_new_def) (rule reads_consume, simp, rule reads_return)
next
  case (DefaultC v)
  have "reads (parse_default L) [TkString v] (DefaultC v) R" for R
    unfolding reads_def
  proof (intro allI impI)
    fix s t rest
    assume s: "ahead s ([TkString v] @ t # rest)"
    have "ps_current s < length (ps_tokens s)" "token_type (ps_tokens s ! ps_current s) = TkString v"
      using ahead_current [of s "TkString v"] s by simp_all
    then have "parse_default L s = (Ok (DefaultC v), advance_token s)"
      by (simp add: parse_default_def Let_def advance_token_def parser_at_end_def previous_token_def default_text_def)
    moreover have "ahead (advance_token s) (t # rest)" using ahead_advance [of s "TkString v"] s by simp
    ultimately show "\<exists>s'. parse_default L s = (Ok (DefaultC v), s') \<and> ahead s' (t # rest)" by simp
  qed
  then show ?thesis by (simp add: DefaultC constraint_rest_def constraint_word_def Token_new_def)
next
  case PrimaryKeyC
  show ?thesis
    unfolding PrimaryKeyC
    by (simp add: constraint_rest_def constraint_word_def Token_new_def) (rule reads_consume, simp, rule reads_return)
next
  case (CheckC e)
  have e: "reads (parse_expression L (parsers_at L n)) (print_expr 0 e) e (stops 0)"
    by (rule expr_reads) (use assms CheckC in \<open>simp_all add: in_parentheses_def\<close>)
  have "reads (st_bind (consume_token (Sym ''LeftParen'')) (\<lambda>_. st_bind (parse_expression L (parsers_at L n)) (\<lambda>condition.
        st_bind (consume_token (Sym ''RightParen'')) (\<lambda>_. st_return (CheckC condition))))) (in_parentheses (print_expr 0 e)) (CheckC e) R" for R
    unfolding in_parentheses_def
    by (rule reads_consume, simp, rule reads_bind, rule e, rule reads_consume, simp, rule reads_return, simp)
  then show ?thesis by (simp add: CheckC constraint_rest_def constraint_word_def Token_new_def)
next
  case (ReferencesC t oc)
  define column where "column = when_token (Sym ''LeftParen'') (st_bind consume_identifier (\<lambda>c. st_bind (consume_token (Sym ''RightParen'')) (\<lambda>_. st_return c)))"
  have column: "reads column (case oc of Some n \<Rightarrow> in_parentheses [TkIdentifier n] | None \<Rightarrow> []) oc (\<lambda>t. t \<noteq> Sym ''LeftParen'')"
  proof (cases oc)
    case None
    show ?thesis
      unfolding column_def when_token_def None option.case by (rule reads_if_no, simp, rule reads_return)
  next
    case (Some n)
    show ?thesis
      unfolding column_def when_token_def Some option.case in_parentheses_def append_Cons append_Nil bind_assoc
      by (rule reads_if_yes, simp, rule reads_identifier, rule reads_consume, simp, simp only: bind_return, rule reads_return)
  qed
  have "reads (st_bind consume_identifier (\<lambda>t. st_bind column (\<lambda>oc. st_return (ReferencesC t oc)))) (tl (print_column_constraint c)) c (\<lambda>t. t \<noteq> Sym ''LeftParen'')"
    unfolding ReferencesC print_column_constraint.simps list.sel
    by (rule reads_identifier, rule reads_bind_last, rule column, rule reads_return)
  then show ?thesis by (simp add: ReferencesC constraint_rest_def constraint_word_def Token_new_def column_def)
qed (simp_all add: constraint_rest_def constraint_word_def Token_new_def reads_return)

lemma column_def_reads:
  assumes "printable_column_def c" "length (print_column_def c) \<le> n"
  shows "reads (parse_column_def L (parse_expression L (parsers_at L n))) (print_column_def c) c after_element"
proof -
  obtain name t cs where c: "c = AstColumnDef name t cs" by (cases c)
  let ?E = "parse_expression L (parsers_at L n)"
  have length: "length (print_column_constraint k) \<le> n" if "k \<in> set cs" for k
  proof -
    have "length (print_column_constraint k) \<le> length (concat (map print_column_constraint cs))" using that by (induction cs) auto
    then show ?thesis using assms(2) c by simp
  qed
  have words: "hd (print_column_constraint k) \<notin> {TkEOF, Sym ''LeftParen'', Sym ''LeftBracket''}" "print_column_constraint k \<noteq> []" for k
    by (cases k; simp)+
  have "reads (st_bind (constraint_rest L ?E k) (\<lambda>x. st_return (a @ [x]))) (tl (print_column_constraint k)) (a @ [k]) (\<lambda>t. t \<noteq> Sym ''LeftParen'')"
    if "k \<in> set cs" for k a
    by (rule reads_bind_last, rule constraint_reads) (use assms(1) c that length in \<open>auto simp: list_all_iff reads_return\<close>)
  then have "reads (parse_loop (match_some (constraint_word L ?E)) (\<lambda>p cs. st_bind p (\<lambda>c. st_return (cs @ [c]))) [])
      (concat (map (\<lambda>k. hd (print_column_constraint k) # tl (print_column_constraint k)) cs)) (foldl (\<lambda>a k. a @ [k]) [] cs)
      (\<lambda>t. t \<noteq> Sym ''LeftParen'' \<and> (\<forall>u. token_type u = t \<longrightarrow> constraint_word L ?E u = None))"
    by (intro reads_loop [where z = "constraint_rest L ?E"]) (use words constraint_word_begin in auto)
  then have loop: "reads (parse_loop (match_some (constraint_word L ?E)) (\<lambda>p cs. st_bind p (\<lambda>c. st_return (cs @ [c]))) [])
      (concat (map print_column_constraint cs)) cs after_element"
    using words(2) by (simp add: foldl_snoc) (erule reads_less, auto simp: after_element_def constraint_word_def)
  have kind: "reads parser_data_type (print_kind (dt_kind t)) t (\<lambda>t. t \<noteq> Sym ''LeftBracket'')"
    using reads_data_type [of "dt_kind t"] assms(1) c by simp
  have lead: "leads (concat (map print_column_constraint cs)) after_element (\<lambda>t. t \<noteq> Sym ''LeftBracket'')"
  proof (cases cs)
    case (Cons k ks)
    then show ?thesis using words [of k] by (auto intro: leads_append)
  qed (simp add: after_element_def)
  show ?thesis
    unfolding c print_column_def.simps parse_column_def_def
    by (rule reads_identifier, rule reads_bind, rule kind, rule reads_bind_last, rule loop, rule reads_return, rule lead)
qed

lemma table_constraint_reads:
  assumes "printable_table_constraint c" "length (print_table_constraint c) \<le> n"
  shows "reads (parse_table_constraint (parse_expression L (parsers_at L n))) (print_table_constraint c) c R"
proof -
  let ?E = "parse_expression L (parsers_at L n)"
  define q where "q = (\<lambda>name. st_bind (match_some (table_constraint_word ?E name)) (\<lambda>r.
       case r of Some p \<Rightarrow> p | None \<Rightarrow> st_fail (ParseError ''Expected constraint type'')))"
  have named: "reads (parse_table_constraint ?E) (print_constraint_name name @ t # ts) x R"
    if "reads (q name) (t # ts) x R" "t \<noteq> Kw ''Constraint''" for name t ts x
  proof (cases name)
    case None
    then show ?thesis
      using that unfolding parse_table_constraint_def when_token_def bind_assoc q_def [symmetric] None print_constraint_name_def
      by - (simp, rule reads_no, simp, simp)
  next
    case (Some k)
    show ?thesis
      unfolding parse_table_constraint_def when_token_def bind_assoc q_def [symmetric] Some print_constraint_name_def option.case append_Cons append_Nil
      by (rule reads_yes, simp, simp only: if_True bind_assoc, rule reads_identifier, simp only: bind_return) (use that Some in simp)
  qed
  have word: "reads (q name) (t # ts) x R" if "\<And>u. token_type u = t \<Longrightarrow> table_constraint_word ?E name u = Some p" "reads p ts x R" "t \<noteq> TkEOF" for t p ts name x
    unfolding q_def by (rule reads_some [of t _ p]) (use that in simp_all)
  show ?thesis
  proof (cases c)
    case (PrimaryKeyT cs name)
    show ?thesis
      unfolding PrimaryKeyT print_table_constraint.simps
      by (rule named, rule word, simp add: table_constraint_word_def, rule reads_consume, simp, rule reads_bind_last, rule names_reads)
        (use assms PrimaryKeyT in \<open>simp_all add: reads_return\<close>)
  next
    case (ForeignKeyT cs t rs name)
    show ?thesis
      unfolding ForeignKeyT print_table_constraint.simps
      by (rule named, rule word, simp add: table_constraint_word_def, rule reads_consume, simp, rule reads_bind, rule names_reads, use assms ForeignKeyT in simp,
          rule reads_consume, simp, rule reads_identifier, rule reads_bind_last, rule names_reads)
        (use assms ForeignKeyT in \<open>simp_all add: reads_return\<close>)
  next
    case (UniqueT cs name)
    show ?thesis
      unfolding UniqueT print_table_constraint.simps
      by (rule named, rule word, simp add: table_constraint_word_def, rule reads_bind_last, rule names_reads)
        (use assms UniqueT in \<open>simp_all add: reads_return\<close>)
  next
    case (CheckT e name)
    have e: "reads ?E (print_expr 0 e) e (stops 0)"
      by (rule expr_reads) (use assms CheckT in \<open>simp_all add: in_parentheses_def\<close>)
    show ?thesis
      unfolding CheckT print_table_constraint.simps
      by (rule named, rule word, simp add: table_constraint_word_def, unfold in_parentheses_def, rule reads_consume, simp, rule reads_bind, rule e,
          rule reads_consume, simp) (simp_all add: CheckT reads_return)
  qed
qed

lemma reads_choice:
  "leads us R (\<lambda>u. c u = b) \<Longrightarrow> reads (if b then p else q) us y R \<Longrightarrow>
   reads (\<lambda>s. if c (token_type (peek_token s)) then p s else q s) us y R"
  unfolding reads_def
proof (intro allI impI)
  fix s t rest
  assume l: "leads us R (\<lambda>u. c u = b)" and s: "ahead s (us @ t # rest)" and t: "R t"
    and r: "\<forall>s t rest. ahead s (us @ t # rest) \<longrightarrow> R t \<longrightarrow> (\<exists>s'. (if b then p else q) s = (Ok y, s') \<and> ahead s' (t # rest))"
  have "c (token_type (peek_token s)) = b" using l s t ahead_peek(1) [of s] by (cases us) auto
  then show "\<exists>s'. (if c (token_type (peek_token s)) then p s else q s) = (Ok y, s') \<and> ahead s' (t # rest)"
    using r s t by (cases b) auto
qed

fun element_tokens :: "Statement AstColumnDef + Statement AstTableConstraint \<Rightarrow> TokenType list" where
  "element_tokens (Inl c) = print_column_def c"
| "element_tokens (Inr c) = print_table_constraint c"

fun add_element :: "Statement AstColumnDef list \<times> Statement AstTableConstraint list \<Rightarrow> Statement AstColumnDef + Statement AstTableConstraint \<Rightarrow>
    Statement AstColumnDef list \<times> Statement AstTableConstraint list" where
  "add_element (cs, ts) (Inl c) = (cs @ [c], ts)"
| "add_element (cs, ts) (Inr c) = (cs, ts @ [c])"

lemma add_elements: "foldl add_element (as, bs) (map Inl cs @ map Inr tcs) = (as @ cs, bs @ tcs)"
proof (induction cs arbitrary: as)
  case Nil
  show ?case by (induction tcs arbitrary: bs) auto
qed auto

lemma element_reads:
  assumes "case y of Inl c \<Rightarrow> printable_column_def c | Inr c \<Rightarrow> printable_table_constraint c" "length (element_tokens y) \<le> n"
  shows "reads (parse_table_element L (parse_expression L (parsers_at L n)) acc) (element_tokens y) (add_element acc y) after_element"
proof (cases y)
  case (Inl c)
  have c: "reads (parse_column_def L (parse_expression L (parsers_at L n))) (print_column_def c) c after_element"
    by (rule column_def_reads) (use assms Inl in simp_all)
  obtain as bs where acc: "acc = (as, bs)" by (cases acc)
  have lead: "leads (print_column_def c) after_element (\<lambda>u. (u \<in> constraint_starts) = False)" by (cases c) (simp add: constraint_starts_def)
  show ?thesis
    unfolding Inl element_tokens.simps acc add_element.simps parse_table_element_def [abs_def]
    by (rule reads_choice [where c = "\<lambda>u. u \<in> constraint_starts", OF lead], simp only: if_False fst_conv snd_conv, rule reads_bind_last, rule c, rule reads_return)
next
  case (Inr c)
  have c: "reads (parse_table_constraint (parse_expression L (parsers_at L n))) (print_table_constraint c) c after_element"
    by (rule table_constraint_reads) (use assms Inr in simp_all)
  obtain as bs where acc: "acc = (as, bs)" by (cases acc)
  have lead: "leads (print_table_constraint c) after_element (\<lambda>u. (u \<in> constraint_starts) = True)"
    by (cases c) (auto simp: constraint_starts_def print_constraint_name_def split: option.split)
  show ?thesis
    unfolding Inr element_tokens.simps acc add_element.simps parse_table_element_def [abs_def]
    by (rule reads_choice [where c = "\<lambda>u. u \<in> constraint_starts", OF lead], simp only: if_True fst_conv snd_conv, rule reads_bind_last, rule c, rule reads_return)
qed

lemma create_table_reads:
  assumes p: "printable_statement (CreateTableS (CreateTableStatement name cs tcs ine))"
    and n: "length (statement_tokens (CreateTableS (CreateTableStatement name cs tcs ine))) \<le> n"
  shows "reads (parse_create L (parse_expression L (parsers_at L n)) P) (statement_tokens (CreateTableS (CreateTableStatement name cs tcs ine)))
    (CreateTableS (CreateTableStatement name cs tcs ine)) finishes"
proof -
  obtain y ys where ys: "map Inl cs @ map Inr tcs = y # ys" using p by (cases "map Inl cs @ map Inr tcs") auto
  have elements: "map print_column_def cs @ map print_table_constraint tcs = map element_tokens (y # ys)"
    unfolding ys [symmetric] by simp
  let ?E = "parse_expression L (parsers_at L n)"
  let ?more = "concat (map (\<lambda>y. Sym ''Comma'' # element_tokens y) ys)"
  have list: "print_list (\<lambda>ts. ts) (map element_tokens (y # ys)) = element_tokens y @ ?more"
    by (simp add: print_list_def comp_def)
  have printable: "case x of Inl c \<Rightarrow> printable_column_def c | Inr c \<Rightarrow> printable_table_constraint c" if "x \<in> set (y # ys)" for x
    using p that unfolding ys [symmetric] by (auto simp: list_all_iff)
  have length: "length (element_tokens x) \<le> n" if "x \<in> set (y # ys)" for x
    using print_list_length [of "element_tokens x" "map element_tokens (y # ys)" "\<lambda>ts. ts"] that n by (auto simp: elements in_parentheses_def)
  have read: "reads (parse_table_element L ?E acc) (element_tokens x) (add_element acc x) after_element" if "x \<in> set (y # ys)" for x acc
    by (rule element_reads [OF printable [OF that] length [OF that]])
  have comma: "after_element (Sym ''Comma'')" by (simp add: after_element_def)
  have loop: "reads (while_token (Sym ''Comma'') (parse_table_element L ?E) (add_element ([], []) y)) ?more (foldl add_element (add_element ([], []) y) ys)
      (\<lambda>u. after_element u \<and> u \<noteq> Sym ''Comma'')"
    by (rule reads_while) (use read comma in auto)
  have "foldl add_element (add_element ([], []) y) ys = (cs, tcs)"
    using add_elements [of "[]" "[]" cs tcs] unfolding ys by simp
  then have loop': "reads (while_token (Sym ''Comma'') (parse_table_element L ?E) (add_element ([], []) y)) ?more (cs, tcs)
      (\<lambda>u. after_element u \<and> u \<noteq> Sym ''Comma'')" using loop by simp
  have follow: "leads (?more @ [Sym ''RightParen'']) finishes after_element" by (cases ys) (auto simp: after_element_def)
  show ?thesis
    unfolding statement_tokens.simps in_parentheses_def elements list append_assoc parse_create_def parse_create_table_def
    by (rule reads_consume, simp, rule reads_no, simp, rule reads_if_yes, simp, rule if_not_exists_reads, rule reads_identifier, rule reads_consume, simp,
        rule reads_bind, rule read, simp, rule reads_bind, rule loop', simp only: prod.case, rule reads_consume, simp, rule reads_return,
        simp add: after_element_def, rule follow, simp)
qed

lemma begins: "token_type (peek_token s) = t \<Longrightarrow> parse_statement L E P s =
   (if t = Kw ''With'' then st_bind (parse_with_select E P) (\<lambda>q. st_return (SelectS q)) s
    else if t = Kw ''Select'' then st_bind (parse_select E P) (\<lambda>q. st_return (SelectS q)) s
    else if t = Kw ''Insert'' then parse_insert E P s
    else if t = Kw ''Update'' then parse_update E P s
    else if t = Kw ''Delete'' then parse_delete E P s
    else if t = Kw ''Create'' then parse_create L E P s
    else if t = Kw ''Drop'' then parse_drop s
    else if t = Kw ''Alter'' then parse_alter L E s
    else if t = Kw ''Refresh'' then parse_refresh_materialized_view s
    else if t = Kw ''Call'' then parse_call_procedure E s
    else if t = Kw ''Perform'' then parse_perform_statement E s
    else if t = Kw ''Begin'' then parse_transaction_word (Kw ''Begin'') BeginTransactionS s
    else if t = Kw ''Commit'' then parse_transaction_word (Kw ''Commit'') CommitTransactionS s
    else if t = Kw ''Rollback'' then parse_transaction_word (Kw ''Rollback'') RollbackTransactionS s
    else (Err (ParseError ''Unexpected token''), s))"
  by (simp add: parse_statement_def Let_def)

lemma select_first: "printable_select q \<Longrightarrow> \<exists>ts. print_select q = Kw ''Select'' # ts"
  by (induction q rule: print_select.induct) auto

lemma statement_reads:
  assumes p: "printable_statement x" and n: "length (statement_tokens x) \<le> n"
  shows "reads (parse_statement L (parse_expression L (parsers_at L n)) (parsers_at L n)) (statement_tokens x) x finishes"
proof -
  let ?E = "parse_expression L (parsers_at L n)" and ?P = "parsers_at L n"
  have dispatch: "reads (parse_statement L ?E ?P) ts x finishes"
    if "reads q ts x finishes" "ts \<noteq> []" "\<And>s. token_type (peek_token s) = hd ts \<Longrightarrow> parse_statement L ?E ?P s = q s" for q ts
    using reads_dispatch [of q "hd ts" "tl ts" x finishes "parse_statement L ?E ?P"] that by simp
  show ?thesis
  proof (cases x)
    case (SelectS q)
    then obtain ts where ts: "print_select q = Kw ''Select'' # ts" using select_first [of q] p by auto
    have "reads (parse_select ?E ?P) (print_select q) q finishes" by (rule select_reads) (use p n SelectS in simp_all)
    then have "reads (st_bind (parse_select ?E ?P) (\<lambda>q. st_return (SelectS q))) (print_select q) x finishes"
      unfolding SelectS by (rule reads_bind_last) (rule reads_return)
    then have "reads (parse_statement L ?E ?P) (print_select q) x finishes"
      by (rule dispatch) (simp_all add: ts begins)
    then show ?thesis using SelectS by simp
  next
    case (InsertS i)
    obtain t cs rows where i: "i = InsertStatement t cs rows" by (cases i)
    show ?thesis by (rule dispatch [of "parse_insert ?E ?P"]) (use insert_reads [of t cs rows n L ?P] p n InsertS i in \<open>simp_all add: begins\<close>)
  next
    case (UpdateS i)
    obtain t as wh where i: "i = UpdateStatement t as wh" by (cases i)
    show ?thesis by (rule dispatch [of "parse_update ?E ?P"]) (use update_reads [of t as wh n L ?P] p n UpdateS i in \<open>simp_all add: begins\<close>)
  next
    case (DeleteS i)
    obtain t wh where i: "i = DeleteStatement t wh" by (cases i)
    show ?thesis by (rule dispatch [of "parse_delete ?E ?P"]) (use delete_reads [of t wh n L ?P] p n DeleteS i in \<open>simp_all add: begins\<close>)
  next
    case (CreateTableS i)
    obtain name cs tcs ine where i: "i = CreateTableStatement name cs tcs ine" by (cases i)
    show ?thesis
      by (rule dispatch [of "parse_create L ?E ?P"]) (use create_table_reads [of name cs tcs ine n L ?P] p n CreateTableS i in \<open>simp_all add: begins\<close>)
  next
    case (CreateIndexS i)
    obtain name t cs uniq ine where i: "i = CreateIndexStatement name t cs uniq ine" by (cases i)
    show ?thesis
      by (rule dispatch [of "parse_create L ?E ?P"]) (use create_index_reads [of cs L ?E ?P name t uniq ine] p CreateIndexS i in \<open>simp_all add: begins\<close>)
  next
    case (DropTableS i)
    obtain name ie where i: "i = DropTableStatement name ie" by (cases i)
    show ?thesis by (rule dispatch [of parse_drop]) (use drop_reads(1) [of name ie] DropTableS i in \<open>simp_all add: begins\<close>)
  next
    case (DropIndexS i)
    obtain name ie where i: "i = DropIndexStatement name ie" by (cases i)
    show ?thesis by (rule dispatch [of parse_drop]) (use drop_reads(2) [of name ie] DropIndexS i in \<open>simp_all add: begins\<close>)
  next
    case BeginTransactionS
    show ?thesis by (rule dispatch [of "parse_transaction_word (Kw ''Begin'') x"]) (use BeginTransactionS in \<open>simp_all add: begins transaction_reads\<close>)
  next
    case CommitTransactionS
    show ?thesis by (rule dispatch [of "parse_transaction_word (Kw ''Commit'') x"]) (use CommitTransactionS in \<open>simp_all add: begins transaction_reads\<close>)
  next
    case RollbackTransactionS
    show ?thesis by (rule dispatch [of "parse_transaction_word (Kw ''Rollback'') x"]) (use RollbackTransactionS in \<open>simp_all add: begins transaction_reads\<close>)
  qed (use p in simp_all)
qed

lemma print_script_Cons: "print_script (s # ss) = statement_tokens s @ Sym ''Semicolon'' # print_script ss"
  by (simp add: print_script_def)

lemma statement_tokens_first:
  assumes "printable_statement x" shows "\<exists>t ts. statement_tokens x = t # ts \<and> t \<noteq> TkEOF \<and> (\<forall>c. t \<noteq> TkComment c)"
proof (cases x)
  case (SelectS q)
  then show ?thesis using select_first [of q] assms by auto
next
  case (InsertS i)
  then show ?thesis by (cases i) simp
next
  case (UpdateS i)
  then show ?thesis by (cases i) simp
next
  case (DeleteS i)
  then show ?thesis by (cases i) simp
next
  case (CreateTableS i)
  then show ?thesis by (cases i) simp
next
  case (CreateIndexS i)
  then show ?thesis by (cases i) simp
next
  case (DropTableS i)
  then show ?thesis by (cases i) simp
next
  case (DropIndexS i)
  then show ?thesis by (cases i) simp
qed (use assms in simp_all)

lemma ahead_end: "ahead s (t # ts) \<Longrightarrow> parser_at_end s \<longleftrightarrow> t = TkEOF"
  using ahead_current [of s t ts] by (simp add: parser_at_end_def)

lemma script_reads:
  assumes "\<And>x. x \<in> set ss \<Longrightarrow> printable_statement x \<and> reads p (statement_tokens x) x finishes"
    "ahead s (print_script ss @ [TkEOF])" "length ss < k"
  shows "fst (parse_statements k p acc s) = Ok (acc @ ss)"
  using assms
proof (induction ss arbitrary: k acc s)
  case Nil
  then show ?case using ahead_end [of s TkEOF "[]"] by (cases k) (auto simp: print_script_def)
next
  case (Cons x ss)
  obtain k' where k: "k = Suc k'" "length ss < k'" using Cons.prems(3) by (cases k) auto
  have x: "printable_statement x" "reads p (statement_tokens x) x finishes" using Cons.prems(1) by simp_all
  obtain t ts where t: "statement_tokens x = t # ts" "t \<noteq> TkEOF" "\<And>c. t \<noteq> TkComment c" using statement_tokens_first [OF x(1)] by blast
  have s: "ahead s (statement_tokens x @ Sym ''Semicolon'' # print_script ss @ [TkEOF])" using Cons.prems(2) by (simp add: print_script_Cons)
  then have no_end: "\<not> parser_at_end s" using ahead_end [of s t] t by simp
  have "token_type (peek_token s) = t" using ahead_peek(1) [of s t] s t(1) by simp
  then have no_comment: "match_some (\<lambda>t. case token_type t of TkComment _ \<Rightarrow> Some () | _ \<Rightarrow> None) s = (Ok None, s)"
    using t(3) by (simp add: match_some_def split: TokenType.split)
  obtain s1 where s1: "p s = (Ok x, s1)" "ahead s1 (Sym ''Semicolon'' # print_script ss @ [TkEOF])"
    using reads_run [OF x(2) s] by (auto simp: finishes_def)
  have more: "\<not> parser_at_end s1" "match_token (Sym ''Semicolon'') s1 = (Ok True, advance_token s1)" "ahead (advance_token s1) (print_script ss @ [TkEOF])"
    using ahead_end [OF s1(2)] ahead_peek(1) [OF s1(2)] ahead_advance [OF s1(2)] by (simp_all add: match_token_def)
  have "parse_statements k p acc s = parse_statements k' p (acc @ [x]) (advance_token s1)"
    using no_end no_comment s1(1) more(1,2) k(1) by (simp add: st_bind_parts consume_token_def)
  then show ?case using Cons.IH [of "advance_token s1" k' "acc @ [x]"] Cons.prems(1) more(3) k(2) by simp
qed

lemma script_length: "x \<in> set ss \<Longrightarrow> length (statement_tokens x) \<le> length (print_script ss)"
  by (induction ss) (auto simp: print_script_Cons)

lemma parse_script:
  assumes "list_all printable_statement ss" "map token_type tokens = print_script ss @ [TkEOF]" "list_all own_value tokens"
  shows "parse_tokens L (length tokens + 2) tokens = Ok ss"
proof -
  define n where "n = length tokens + 1"
  have length: "length tokens = length (print_script ss) + 1" using arg_cong [OF assms(2), of length] by simp
  have level: "pr_statement (parsers_at L (length tokens + 2)) = parse_statement L (parse_expression L (parsers_at L n)) (parsers_at L n)"
    by (simp add: n_def Let_def)
  have read: "printable_statement x \<and> reads (parse_statement L (parse_expression L (parsers_at L n)) (parsers_at L n)) (statement_tokens x) x finishes"
    if "x \<in> set ss" for x
  proof
    show x: "printable_statement x" using assms(1) that by (simp add: list_all_iff)
    have "length (statement_tokens x) \<le> n" using script_length [OF that] length by (simp add: n_def)
    with x show "reads (parse_statement L (parse_expression L (parsers_at L n)) (parsers_at L n)) (statement_tokens x) x finishes"
      by (rule statement_reads)
  qed
  have "tokens \<noteq> []" using assms(2) by auto
  moreover from this have "token_type (last tokens) = TkEOF" using assms(2) last_map [of tokens token_type] by simp
  ultimately have ahead: "ahead (Parser_new tokens) (print_script ss @ [TkEOF])" using assms(2,3) by (simp add: ahead_def Parser_new_def)
  have "length ss \<le> length (print_script ss)" by (induction ss) (simp_all add: print_script_Cons)
  then have "length ss < length tokens + 2" using length by simp
  from script_reads [OF read ahead this, where acc = "[]"] show ?thesis by (simp only: parse_tokens_def level append_Nil)
qed

lemma parse_print:
  assumes "list_all printable_statement ss" "list_all spellable (print_script ss)"
  shows "parse_sql L (print_tokens (print_script ss)) = Ok ss"
proof -
  obtain tokens where "tokenize (Lexer_new (print_tokens (print_script ss))) = Ok tokens"
    "map token_type tokens = print_script ss @ [TkEOF]" "list_all own_value tokens"
    using tokenize_print [OF assms(2)] by blast
  then show ?thesis using parse_script [OF assms(1)] by (simp add: parse_sql_def)
qed

subsection \<open>Correctness of the parser\<close>



text \<open>
  Set operations are grouped to the left whatever they are: an intersection behind a union takes the union as
  its left side. The comment of \<^verbatim>\<open>parse_set_operations\<close> gives the intersection the higher precedence.
\<close>

theorem set_operations_left:
  "let query = (\<lambda>c t. SimpleSelect None False [ColumnSpec (ColumnE None c) None] [TableName t None] [] None [] None [] None None [])
   in parse_sql L ''SELECT a FROM t UNION SELECT b FROM u INTERSECT SELECT c FROM v ; '' = Ok [SelectS
        (SetSelect (SetOperation IntersectOp (SetSelect (SetOperation UnionOp (query ''a'' ''t'') (query ''b'' ''u'') False)) (query ''c'' ''v'') False))]"
proof -
  let ?query = "\<lambda>c t. SimpleSelect None False [ColumnSpec (ColumnE None c) None] [TableName t None] [] None [] None [] None None []"
  let ?script = "[SelectS
     (SetSelect (SetOperation IntersectOp (SetSelect (SetOperation UnionOp (?query ''a'' ''t'') (?query ''b'' ''u'') False)) (?query ''c'' ''v'') False))]"
  have tokens: "print_script ?script =
     [Kw ''Select'', TkIdentifier ''a'', Kw ''From'', TkIdentifier ''t'', Kw ''Union'', Kw ''Select'', TkIdentifier ''b'', Kw ''From'', TkIdentifier ''u'',
      Kw ''Intersect'', Kw ''Select'', TkIdentifier ''c'', Kw ''From'', TkIdentifier ''v'', Sym ''Semicolon'']"
    by (simp add: print_script_def print_list_def print_alias_def print_when_def print_by_def print_count_def print_flag_def set_word_def)
  have spellable: "list_all spellable (print_script ?script)" unfolding tokens by code_simp
  have printable: "list_all printable_statement ?script" by (simp add: printable_table_def printable_when_def)
  have spelled: "print_tokens (print_script ?script) = ''SELECT a FROM t UNION SELECT b FROM u INTERSECT SELECT c FROM v ; ''"
    unfolding tokens by code_simp
  show ?thesis unfolding Let_def using parse_print [OF printable spellable] unfolding spelled .
qed

end
