(* ===== verification/Spec2Isabelle.thy ===== *)
theory Spec2Isabelle
  imports Data_Types Plan_Execution Parser_Roundtrip
begin

text \<open>
  A verification development for RustgreSQL, a relational database in Rust: its types, its storage,
  its catalog, its transactions, and the lexer, the parser, the planner and the executor of its SQL.

  \<^bold>\<open>The program and the theories.\<close> A statement is text that the lexer and the parser turn into a syntax
  tree; the planner turns the tree into a plan; the plan is a tree of operators, of which the leaves scan
  or change a table through the table scanner, and the others transform the rows of their inputs,
  evaluating expressions. Tables, schemas, indexes and views are kept by the catalog; rows are kept by the
  table manager and copied to pages of the buffer pool, which reads and writes the pages of the file
  manager; a B-tree lives on pages of the same pool. The transaction manager numbers transactions, keeps
  their log records through the write-ahead log, their versions through the MVCC manager, and undoes their
  deletions in the catalog.

  \<^item> \<^theory_text>\<open>Prelude\<close>: machine integers, the error type (\<^verbatim>\<open>error.rs\<close>), results of calls, operations on a state,
    hash maps as association lists, printed numbers. \<^theory_text>\<open>Bincode\<close>: the byte format the storage relies on.
  \<^item> \<^theory_text>\<open>Data_Types\<close> (\<^verbatim>\<open>types/\<close>): kinds, printed names and the parser of type names.
    \<^theory_text>\<open>Float64\<close>: IEEE arithmetic; \<^theory_text>\<open>Comparators\<close>: total comparisons and the stable sort.
  \<^item> \<^theory_text>\<open>Page\<close>, \<^theory_text>\<open>File_Manager\<close>, \<^theory_text>\<open>Buffer_Pool\<close>, \<^theory_text>\<open>BTree\<close> (\<^verbatim>\<open>storage/\<close>): pages and their encoding, the
    database file and its mock, the pool of frames with its replacement, the nodes of the tree.
  \<^item> \<^theory_text>\<open>Mvcc\<close>, \<^theory_text>\<open>Wal\<close>, \<^theory_text>\<open>Txn_Manager\<close> (\<^verbatim>\<open>transaction/\<close>): versions and visibility, the log, the life of a
    transaction.
  \<^item> \<^theory_text>\<open>Registry\<close>, \<^theory_text>\<open>Schema_Manager\<close>, \<^theory_text>\<open>Index_Manager\<close>, \<^theory_text>\<open>Table_Manager\<close>, \<^theory_text>\<open>View_Manager\<close>, \<^theory_text>\<open>Catalog\<close>
    (\<^verbatim>\<open>catalog/\<close>): the four managers, what they have in common, and their combination.
  \<^item> \<^theory_text>\<open>Sql_Ast\<close>, \<^theory_text>\<open>Lexer\<close> (\<^verbatim>\<open>sql/\<close>): the syntax tree and the tokens.
  \<^item> \<^theory_text>\<open>Expressions\<close>, \<^theory_text>\<open>Expression_Props\<close> (\<^verbatim>\<open>executor/expression.rs\<close>): evaluation and aggregates.
  \<^item> \<^theory_text>\<open>Operators\<close>, \<^theory_text>\<open>Physical_Operators\<close>, \<^theory_text>\<open>Windows\<close>, \<^theory_text>\<open>Table_Scanner\<close>, \<^theory_text>\<open>Dml\<close>
    (\<^verbatim>\<open>executor/operators.rs\<close>, \<^verbatim>\<open>executor/scanner.rs\<close>): the operators of a plan.
  \<^item> \<^theory_text>\<open>Planner\<close>, \<^theory_text>\<open>Plan_Execution\<close> (\<^verbatim>\<open>executor/planner.rs\<close>): the planning of statements and the execution of plans,
    common table expressions and subqueries included.
  \<^item> \<^theory_text>\<open>Parser\<close>, \<^theory_text>\<open>Parser_Returns\<close> (\<^verbatim>\<open>sql/parser.rs\<close>): the recursive-descent parser, a state of tokens.
    The functions of its recursive cycle are the fields of \<^theory_text>\<open>parsers\<close>, tied by \<^theory_text>\<open>parsers_at\<close>.
  \<^item> \<^theory_text>\<open>Expression_Roundtrip\<close>, \<^theory_text>\<open>Parser_Roundtrip\<close>: a printer of expressions and of statements, which is the
    reference for the grammar the parser recognises; it models no code.

  \<^bold>\<open>State and operations.\<close> A structure of the sources is a record with the source's fields, an enumeration
  a datatype with its constructors. A method that changes its structure is a function of the state with the
  new state in its result (\<^theory_text>\<open>op\<close> in \<^theory_text>\<open>Prelude\<close>); a failure returns an error of the crate's error type and
  the state it leaves behind, a panic and a lock that is never released are results of their own. The
  definitions have the names of the functions they translate, with a prefix where two modules share one.

  \<^bold>\<open>Conventions.\<close> Integers have the width of the sources and wrap around, as in a release build. A
  \<^verbatim>\<open>HashMap\<close> or \<^verbatim>\<open>HashSet\<close> is an association list or a list: where the sources iterate over one, the model
  iterates in list order, which stands for an order they leave open. Text is a list of characters of one
  byte. An error carries its kind and a fixed message; values inserted into the message are left out, and
  so are log output and statistics that no code reads back. A clock is an argument of the operation that
  reads it, or left out where no code decides by it. Floats are bit patterns with one NaN. A lock that the
  sources hold during an operation is not modelled, since the operations of the model do not interleave
  inside a method; the interleavings considered are those of whole operations.

  \<^bold>\<open>Bounds.\<close> Recursion that is not structural has a measure: the remaining input in the lexer, the free
  pages in \<^theory_text>\<open>File_Manager.allocate_page\<close>, the shrinking interval in the binary search of a node. The
  search for cycles of views runs on as much fuel as there are views and one more, which is enough because
  a path without repetition is not longer. A sequence of system calls is a script that says which call
  fails.

  \<^bold>\<open>What the lemmas show.\<close> Storage: what is written is read back, through the pool and its evictions, and
  nothing else changes. Catalog: the maps of a manager agree with each other after every sequence of
  operations, and creations and deletions reach every manager that depends on them. Transactions: what a
  snapshot sees, in which order the log holds the records, what a rollback restores. Expressions: the laws
  of the three-valued logic, the order of values, aggregates. Operators: each is related to the relation
  it stands for, as a multiset or list of rows, with the places where the code departs from it.
  Interfaces are locales (\<^theory_text>\<open>total_cmp\<close>, \<^theory_text>\<open>registry\<close> and others), interpreted on the definitions of the
  component that provides them.
  Planning and execution: planning ends, window functions are taken out and put back, a query over one
  table returns what its text says, and a recursive common table expression computes a closure.

  Parsing: every loop and every recursion consumes a token, so that the parser returns for every text.
  Scripts written by the printer, with parentheses only where the precedence asks for them, and spelled as text are
  read back as what they were; \<^theory_text>\<open>reads\<close> says of a parser that it consumes just the tokens of its value, and
  every function of the parser that the printer needs has its lemma about it.

  \<^bold>\<open>Parameters.\<close> What is not in the repository is an argument: \<^verbatim>\<open>bincode\<close> and CRC-32, regular expressions,
  the texts of floats and of timestamps, the file system (as the script of its failures), the clock.
  The fields \<^theory_text>\<open>pl_parse\<close> of the planner, which reads the text of a view, and those of \<^theory_text>\<open>expr_lib\<close>,
  which execute the subqueries of expressions, are arguments too: they stand for \<^theory_text>\<open>parse_sql\<close> and for another
  run of the executor. The fuel of \<^theory_text>\<open>plan_select\<close> bounds the nesting of views and that of \<^theory_text>\<open>run_select\<close> the
  nesting of queries; a larger number never changes a plan. The thousand rounds of \<^theory_text>\<open>max_iterations\<close> are
  the bound of the sources. The recursion of the parser is bounded by two more than the number of tokens, which is
  enough for every text.

  \<^bold>\<open>Not modelled.\<close> The engine that dispatches statements
  (\<^verbatim>\<open>executor/engine.rs\<close>), procedures (\<^verbatim>\<open>executor/procedure.rs\<close>), the rewriting of queries to
  materialized views (\<^verbatim>\<open>executor/query_rewrite.rs\<close>), the reports of DDL errors (\<^verbatim>\<open>executor/ddl_error.rs\<close>), the
  optimizer (\<^verbatim>\<open>optimizer/\<close>: rules, costs, statistics, index selection, the plan cache), transactional DDL and its
  log (\<^verbatim>\<open>transaction/ddl_transaction.rs\<close>, \<^verbatim>\<open>transaction/ddl_wal.rs\<close>), schema evolution
  (\<^verbatim>\<open>storage/schema_evolution.rs\<close>) and the maps of constraints (\<^verbatim>\<open>catalog/constraint_mapping.rs\<close>) are not modelled
  yet. The executor of parallel plans (\<^verbatim>\<open>executor/parallel/\<close>) needs an interleaving semantics of threads inside
  methods, which the model does not have. The command line (\<^verbatim>\<open>main.rs\<close>), the facade of the library
  (\<^verbatim>\<open>lib.rs\<close>), the benchmark and the tests only call what is modelled.
\<close>

end
